(* ===== verification/SV_Prelude.thy ===== *)
theory SV_Prelude
  imports Main "HOL-Library.Word" "HOL-Library.Sublist"
begin

text \<open>
  What every component theory shares: the machine integers, the exceptions of the C++ code as
  values, the character class functions of \<^verbatim>\<open><cctype>\<close>, the decimal printers and parsers of the C++
  standard library (\<open>std::to_string\<close>, \<open>std::stoul\<close>, \<open>std::stoull\<close>, \<open>std::stoll\<close>, \<open>std::stoi\<close> and
  the integer extraction of \<open>std::istream\<close>), line splitting, and the generic locale for
  invariants of transition systems. The widths are those of the LP64 targets the repository
  builds for (\<open>std::size_t\<close> and \<open>unsigned long\<close> have 64 bits).
\<close>

unbundle bit_operations_syntax

section \<open>Collections of facts\<close>

named_theorems codec_simps \<open>equations of encoders and decoders\<close>
named_theorems step_defs \<open>definitions of the operations of a state machine\<close>
named_theorems inv_defs \<open>definitions of invariants\<close>

section \<open>Machine integers\<close>

type_synonym byte = "8 word"
type_synonym u16 = "16 word"
type_synonym u32 = "32 word"
type_synonym u64 = "64 word"

section \<open>Exceptions as values\<close>

text \<open>The exception classes of \<^verbatim>\<open><stdexcept>\<close> the sources throw, with the message of \<open>what()\<close>.\<close>

datatype exc =
    OutOfRange string
  | RuntimeError string
  | InvalidArgument string
  | LogicError string
  | SystemError string
  | BadAlloc
  | UB string \<comment> \<open>undefined behaviour of the C++ code (an access out of bounds)\<close>

type_synonym 'a res = "exc + 'a"

fun bindE :: "'e + 'a \<Rightarrow> ('a \<Rightarrow> 'e + 'b) \<Rightarrow> 'e + 'b" where
  "bindE (Inl e) f = Inl e"
| "bindE (Inr x) f = f x"

lemma bindE_Inr_iff: "bindE m f = Inr y \<longleftrightarrow> (\<exists>x. m = Inr x \<and> f x = Inr y)"
  by (cases m) auto

lemma bindE_Inl_iff: "bindE m f = Inl e \<longleftrightarrow> m = Inl e \<or> (\<exists>x. m = Inr x \<and> f x = Inl e)"
  by (cases m) auto

lemma bindE_assoc: "bindE (bindE m f) g = bindE m (\<lambda>x. bindE (f x) g)"
  by (cases m) auto

fun is_ok :: "'e + 'a \<Rightarrow> bool" where
  "is_ok (Inl _) = False"
| "is_ok (Inr _) = True"

lemma is_ok_iff: "is_ok m \<longleftrightarrow> (\<exists>x. m = Inr x)"
  by (cases m) auto

section \<open>Characters\<close>

abbreviation ord :: "char \<Rightarrow> nat" where
  "ord c \<equiv> of_char c"

abbreviation newline :: char where
  "newline \<equiv> CHR 0x0A"

definition isspace :: "char \<Rightarrow> bool" where
  "isspace c \<longleftrightarrow> ord c = 32 \<or> (9 \<le> ord c \<and> ord c \<le> 13)"

definition isdigit :: "char \<Rightarrow> bool" where
  "isdigit c \<longleftrightarrow> 48 \<le> ord c \<and> ord c \<le> 57"

definition isupper :: "char \<Rightarrow> bool" where
  "isupper c \<longleftrightarrow> 65 \<le> ord c \<and> ord c \<le> 90"

definition islower :: "char \<Rightarrow> bool" where
  "islower c \<longleftrightarrow> 97 \<le> ord c \<and> ord c \<le> 122"

definition isalnum :: "char \<Rightarrow> bool" where
  "isalnum c \<longleftrightarrow> isdigit c \<or> isupper c \<or> islower c"

definition tolower :: "char \<Rightarrow> char" where
  "tolower c = (if isupper c then char_of (ord c + 32) else c)"

definition toupper :: "char \<Rightarrow> char" where
  "toupper c = (if islower c then char_of (ord c - 32) else c)"

lemma ord_less: "ord c < 256"
  by simp

lemma ord_char_of: "n < 256 \<Longrightarrow> ord (char_of n) = n"
  by simp

lemma isspace_newline [simp]: "isspace newline"
  by (simp add: isspace_def)

lemma digit_not_space: "isdigit c \<Longrightarrow> \<not> isspace c"
  by (auto simp: isdigit_def isspace_def)

lemma tolower_idem: "tolower (tolower c) = tolower c"
  by (auto simp: tolower_def isupper_def)

text \<open>Conversions between the bytes of a buffer and the characters of a \<open>std::string\<close>.\<close>

definition byte_of_char :: "char \<Rightarrow> byte" where
  "byte_of_char c = of_nat (ord c)"

definition char_of_byte :: "byte \<Rightarrow> char" where
  "char_of_byte b = char_of (unat b)"

lemma char_of_byte_of_char [simp]: "char_of_byte (byte_of_char c) = c"
  by (simp add: char_of_byte_def byte_of_char_def unat_of_nat)

lemma unat_byte_less: "unat (b :: byte) < 256"
  using unsigned_less [where ?'a = nat, of b] by simp

lemma byte_of_char_of_byte [simp]: "byte_of_char (char_of_byte b) = b"
  using unat_byte_less [of b] by (simp add: char_of_byte_def byte_of_char_def)

lemma map_char_of_byte_of_char [simp]: "map (char_of_byte \<circ> byte_of_char) s = s"
  by (simp add: comp_def)

lemma map_byte_of_char_of_byte [simp]: "map (byte_of_char \<circ> char_of_byte) bs = bs"
  by (simp add: comp_def)

definition bytes_of :: "string \<Rightarrow> byte list" where
  "bytes_of s = map byte_of_char s"

definition string_of :: "byte list \<Rightarrow> string" where
  "string_of bs = map char_of_byte bs"

lemma string_of_bytes_of [simp]: "string_of (bytes_of s) = s"
  by (simp add: string_of_def bytes_of_def)

lemma bytes_of_string_of [simp]: "bytes_of (string_of bs) = bs"
  by (simp add: string_of_def bytes_of_def)

lemma length_bytes_of [simp]: "length (bytes_of s) = length s"
  by (simp add: bytes_of_def)

lemma length_string_of [simp]: "length (string_of s) = length s"
  by (simp add: string_of_def)

lemma bytes_of_append [simp]: "bytes_of (s @ t) = bytes_of s @ bytes_of t"
  by (simp add: bytes_of_def)

lemma string_of_append [simp]: "string_of (s @ t) = string_of s @ string_of t"
  by (simp add: string_of_def)

lemma string_of_inject [simp]: "string_of a = string_of b \<longleftrightarrow> a = b"
  by (metis bytes_of_string_of)

section \<open>Printing decimal numbers\<close>

definition digit_char :: "nat \<Rightarrow> char" where
  "digit_char d = char_of (48 + d)"

definition digit_val :: "char \<Rightarrow> nat" where
  "digit_val c = ord c - 48"

lemma digit_val_char: "d < 10 \<Longrightarrow> digit_val (digit_char d) = d"
  by (simp add: digit_char_def digit_val_def)

lemma isdigit_digit_char: "d < 10 \<Longrightarrow> isdigit (digit_char d)"
  by (simp add: digit_char_def isdigit_def)

lemma digit_chars:
  "digit_char 0 = CHR ''0''" "digit_char (Suc 0) = CHR ''1''" "digit_char 2 = CHR ''2''" "digit_char 3 = CHR ''3''"
  "digit_char 4 = CHR ''4''" "digit_char 5 = CHR ''5''" "digit_char 6 = CHR ''6''" "digit_char 7 = CHR ''7''"
  "digit_char 8 = CHR ''8''" "digit_char 9 = CHR ''9''"
  by code_simp+

text \<open>\<open>std::to_string\<close> of an unsigned value.\<close>

fun show_nat :: "nat \<Rightarrow> string" where
  "show_nat n = (if n < 10 then [digit_char n] else show_nat (n div 10) @ [digit_char (n mod 10)])"

declare show_nat.simps [simp del]

text \<open>\<open>std::to_string\<close> of a signed value.\<close>

definition show_int :: "int \<Rightarrow> string" where
  "show_int i = (if i < 0 then CHR ''-'' # show_nat (nat (- i)) else show_nat (nat i))"

lemma show_nat_nonempty [simp]: "show_nat n \<noteq> []"
  by (subst show_nat.simps) simp

lemma show_nat_digits: "\<forall>c \<in> set (show_nat n). isdigit c"
proof (induction n rule: show_nat.induct)
  case (1 n)
  then show ?case
    by (subst show_nat.simps) (auto simp: isdigit_digit_char)
qed

definition digits_val :: "string \<Rightarrow> nat" where
  "digits_val ds = foldl (\<lambda>a c. 10 * a + digit_val c) 0 ds"

lemma digits_val_snoc: "digits_val (ds @ [c]) = 10 * digits_val ds + digit_val c"
  by (simp add: digits_val_def)

lemma digits_val_show_nat [simp]: "digits_val (show_nat n) = n"
proof (induction n rule: show_nat.induct)
  case (1 n)
  show ?case
  proof (cases "n < 10")
    case True
    then show ?thesis
      by (subst show_nat.simps) (simp add: digits_val_def digit_val_char)
  next
    case False
    with 1 show ?thesis
      by (subst show_nat.simps) (simp add: digits_val_snoc digit_val_char)
  qed
qed

lemma show_nat_inject [simp]: "show_nat m = show_nat n \<longleftrightarrow> m = n"
  by (metis digits_val_show_nat)

lemma show_nat_no_newline: "newline \<notin> set (show_nat n)"
  using show_nat_digits [of n] by (auto simp: isdigit_def)

lemma show_int_no_newline: "newline \<notin> set (show_int i)"
  by (simp add: show_int_def show_nat_no_newline)

section \<open>Parsing decimal numbers\<close>

text \<open>
  The common core of \<open>strtoul\<close>, \<open>strtoull\<close> and \<open>strtoll\<close> in base ten: leading white space is
  skipped, one optional sign is read, then the longest run of digits. No digits is the
  \<open>std::invalid_argument\<close> of the \<open>std::sto\<dots>\<close> functions; trailing characters are ignored.
\<close>

definition read_sign :: "string \<Rightarrow> bool \<times> string" where
  "read_sign s = (case s of
       [] \<Rightarrow> (False, [])
     | c # cs \<Rightarrow> if c = CHR ''-'' then (True, cs) else if c = CHR ''+'' then (False, cs) else (False, s))"

definition strto :: "string \<Rightarrow> (bool \<times> nat) option" where
  "strto s =
     (let (neg, u) = read_sign (dropWhile isspace s);
          ds = takeWhile isdigit u
      in if ds = [] then None else Some (neg, digits_val ds))"

definition stoull :: "string \<Rightarrow> nat res" where
  "stoull s = (case strto s of
       None \<Rightarrow> Inl (InvalidArgument ''stoull'')
     | Some (neg, v) \<Rightarrow>
         if v \<ge> 2 ^ 64 then Inl (OutOfRange ''stoull'')
         else Inr (if neg then (2 ^ 64 - v) mod 2 ^ 64 else v))"

definition stoul :: "string \<Rightarrow> nat res" where
  "stoul s = (case strto s of
       None \<Rightarrow> Inl (InvalidArgument ''stoul'')
     | Some (neg, v) \<Rightarrow>
         if v \<ge> 2 ^ 64 then Inl (OutOfRange ''stoul'')
         else Inr (if neg then (2 ^ 64 - v) mod 2 ^ 64 else v))"

definition stoll :: "string \<Rightarrow> int res" where
  "stoll s = (case strto s of
       None \<Rightarrow> Inl (InvalidArgument ''stoll'')
     | Some (neg, v) \<Rightarrow>
         (let i = (if neg then - int v else int v)
          in if i < - (2 ^ 63) \<or> i \<ge> 2 ^ 63 then Inl (OutOfRange ''stoll'') else Inr i))"

definition stoi :: "string \<Rightarrow> int res" where
  "stoi s = (case strto s of
       None \<Rightarrow> Inl (InvalidArgument ''stoi'')
     | Some (neg, v) \<Rightarrow>
         (let i = (if neg then - int v else int v)
          in if i < - (2 ^ 31) \<or> i \<ge> 2 ^ 31 then Inl (OutOfRange ''stoi'') else Inr i))"

lemma dropWhile_space_digit: "isdigit c \<Longrightarrow> dropWhile isspace (c # s) = c # s"
  by (simp add: digit_not_space)

lemma takeWhile_all: "\<forall>c \<in> set ds. P c \<Longrightarrow> takeWhile P ds = ds"
  by (simp add: takeWhile_eq_all_conv)

lemma strto_digits:
  assumes "ds \<noteq> []" and "\<forall>c \<in> set ds. isdigit c"
  shows "strto ds = Some (False, digits_val ds)"
proof -
  obtain c cs where ds: "ds = c # cs" using assms(1) by (cases ds) auto
  with assms have c: "isdigit c" by simp
  then have "read_sign ds = (False, ds)"
    by (auto simp: read_sign_def ds isdigit_def)
  moreover have "dropWhile isspace ds = ds"
    using c by (simp add: ds digit_not_space)
  ultimately show ?thesis
    using assms by (simp add: strto_def takeWhile_all)
qed

lemma strto_show_nat [simp]: "strto (show_nat n) = Some (False, n)"
  using strto_digits [of "show_nat n"] show_nat_digits [of n] by simp

lemma strto_neg_show_nat: "strto (CHR ''-'' # show_nat n) = Some (True, n)"
proof -
  have "\<not> isspace (CHR ''-'')" by (simp add: isspace_def)
  then show ?thesis
    using show_nat_digits [of n]
    by (simp add: strto_def read_sign_def takeWhile_all)
qed

lemma stoull_show_nat: "n < 2 ^ 64 \<Longrightarrow> stoull (show_nat n) = Inr n"
  by (simp add: stoull_def)

lemma stoul_show_nat: "n < 2 ^ 64 \<Longrightarrow> stoul (show_nat n) = Inr n"
  by (simp add: stoul_def)

lemma stoll_show_int: "- (2 ^ 63) \<le> i \<Longrightarrow> i < 2 ^ 63 \<Longrightarrow> stoll (show_int i) = Inr i"
  by (auto simp: stoll_def show_int_def strto_neg_show_nat)

lemma stoul_bound: "stoul s = Inr n \<Longrightarrow> n < 2 ^ 64"
  by (auto simp: stoul_def split: option.splits if_splits)

lemma stoull_bound: "stoull s = Inr n \<Longrightarrow> n < 2 ^ 64"
  by (auto simp: stoull_def split: option.splits if_splits)

lemma strto_no_number:
  assumes "\<not> isspace c" and "\<not> isdigit c" and "c \<noteq> CHR ''-''" and "c \<noteq> CHR ''+''"
  shows "strto (c # s) = None"
  using assms by (simp add: strto_def read_sign_def)

text \<open>
  The formatted extraction \<open>stream >> value\<close> for an unsigned and a signed 64-bit value: the
  result is 0 when no number can be read, and the nearest limit when it does not fit.
\<close>

definition extract_u64 :: "string \<Rightarrow> nat" where
  "extract_u64 s = (case strto s of
       None \<Rightarrow> 0
     | Some (neg, v) \<Rightarrow>
         if v \<ge> 2 ^ 64 then 2 ^ 64 - 1 else if neg then (2 ^ 64 - v) mod 2 ^ 64 else v)"

definition extract_i64 :: "string \<Rightarrow> int" where
  "extract_i64 s = (case strto s of
       None \<Rightarrow> 0
     | Some (neg, v) \<Rightarrow>
         (let i = (if neg then - int v else int v)
          in if i < - (2 ^ 63) then - (2 ^ 63) else if i \<ge> 2 ^ 63 then 2 ^ 63 - 1 else i))"

text \<open>\<open>stream >> word\<close>: the next word and what is left of the stream.\<close>

definition extract_word :: "string \<Rightarrow> string \<times> string" where
  "extract_word s =
     (let t = dropWhile isspace s
      in (takeWhile (\<lambda>c. \<not> isspace c) t, dropWhile (\<lambda>c. \<not> isspace c) t))"

section \<open>Searching and splitting strings\<close>

text \<open>\<open>find(pat)\<close> of \<open>std::string\<close>; \<open>None\<close> is \<open>npos\<close>.\<close>

fun find_sub :: "string \<Rightarrow> string \<Rightarrow> nat option" where
  "find_sub pat [] = (if pat = [] then Some 0 else None)"
| "find_sub pat (c # cs) =
     (if prefix pat (c # cs) then Some 0 else map_option Suc (find_sub pat cs))"

lemma find_sub_Some:
  "find_sub pat s = Some i \<Longrightarrow> i \<le> length s \<and> prefix pat (drop i s)"
  by (induction s arbitrary: i) (auto split: if_splits)

definition contains_sub :: "string \<Rightarrow> string \<Rightarrow> bool" where
  "contains_sub pat s \<longleftrightarrow> find_sub pat s \<noteq> None"

text \<open>The text before the first separator and, when there is one, the text behind it.\<close>

definition break_at :: "char \<Rightarrow> string \<Rightarrow> string \<times> string option" where
  "break_at c s =
     (takeWhile (\<lambda>x. x \<noteq> c) s,
      case dropWhile (\<lambda>x. x \<noteq> c) s of [] \<Rightarrow> None | _ # rest \<Rightarrow> Some rest)"

lemma takeWhile_neq_append: "c \<notin> set a \<Longrightarrow> takeWhile (\<lambda>x. x \<noteq> c) (a @ c # b) = a"
  by (induction a) auto

lemma dropWhile_neq_append: "c \<notin> set a \<Longrightarrow> dropWhile (\<lambda>x. x \<noteq> c) (a @ c # b) = c # b"
  by (induction a) auto

lemma break_at_append [simp]: "c \<notin> set a \<Longrightarrow> break_at c (a @ c # b) = (a, Some b)"
  by (simp add: break_at_def takeWhile_neq_append dropWhile_neq_append)

lemma break_at_none: "c \<notin> set a \<Longrightarrow> break_at c a = (a, None)"
  by (simp add: break_at_def takeWhile_eq_all_conv dropWhile_eq_Nil_conv)
     (metis (mono_tags, lifting) dropWhile_eq_Nil_conv list.case(1))

lemma break_at_Some:
  assumes "break_at c s = (a, Some b)"
  shows "s = a @ c # b \<and> c \<notin> set a"
proof -
  obtain d where d: "dropWhile (\<lambda>x. x \<noteq> c) s = d # b" and a: "a = takeWhile (\<lambda>x. x \<noteq> c) s"
    using assms by (auto simp: break_at_def split: list.splits)
  have "d = c"
    using d hd_dropWhile [of "\<lambda>x. x \<noteq> c" s] by auto
  moreover have "c \<notin> set a"
    unfolding a using set_takeWhileD by metis
  ultimately show ?thesis
    using takeWhile_dropWhile_id [of "\<lambda>x. x \<noteq> c" s] d a by simp
qed

section \<open>Invariants of transition systems\<close>

text \<open>
  The proof rule every state machine of the development uses: an invariant that holds
  initially and is kept by every step holds in every reachable state.
\<close>

locale invariant_system =
  fixes start :: "'s \<Rightarrow> bool"
    and step :: "'s \<Rightarrow> 's \<Rightarrow> bool"
    and good :: "'s \<Rightarrow> bool"
  assumes start_good: "start s \<Longrightarrow> good s"
    and step_good: "good s \<Longrightarrow> step s t \<Longrightarrow> good t"
begin

lemma steps_good: "step\<^sup>*\<^sup>* s t \<Longrightarrow> good s \<Longrightarrow> good t"
  by (induction rule: rtranclp_induct) (auto intro: step_good)

lemma reachable_good: "start s \<Longrightarrow> step\<^sup>*\<^sup>* s t \<Longrightarrow> good t"
  by (blast intro: start_good steps_good)

end

section \<open>Generic facts on lists and association lists\<close>

lemma nth_map_upt_eq: "length xs = n \<Longrightarrow> map (\<lambda>i. xs ! i) [0..<n] = xs"
  by (metis map_nth)

text \<open>\<open>operator[]\<close> on an unordered map kept as an association list with distinct keys.\<close>

fun al_set :: "'k \<Rightarrow> 'v \<Rightarrow> ('k \<times> 'v) list \<Rightarrow> ('k \<times> 'v) list" where
  "al_set k v [] = [(k, v)]"
| "al_set k v ((k', v') # m) = (if k = k' then (k, v) # m else (k', v') # al_set k v m)"

definition al_erase :: "'k \<Rightarrow> ('k \<times> 'v) list \<Rightarrow> ('k \<times> 'v) list" where
  "al_erase k m = filter (\<lambda>(k', _). k' \<noteq> k) m"

definition al_ok :: "('k \<times> 'v) list \<Rightarrow> bool" where
  "al_ok m \<longleftrightarrow> distinct (map fst m)"

lemma al_set_lookup: "map_of (al_set k v m) = (map_of m)(k \<mapsto> v)"
  by (induction k v m rule: al_set.induct) auto

lemma al_set_keys: "fst ` set (al_set k v m) = insert k (fst ` set m)"
  by (induction k v m rule: al_set.induct) auto

lemma al_set_ok: "al_ok m \<Longrightarrow> al_ok (al_set k v m)"
  unfolding al_ok_def
proof (induction k v m rule: al_set.induct)
  case (2 k v k' v' m)
  then show ?case
    using al_set_keys [of k v m] by (auto simp: image_iff)
qed auto

lemma al_erase_lookup: "map_of (al_erase k m) = (map_of m)(k := None)"
  by (induction m) (auto simp: al_erase_def)

lemma al_erase_ok: "al_ok m \<Longrightarrow> al_ok (al_erase k m)"
  unfolding al_ok_def al_erase_def
  by (induction m) (auto simp: image_iff)

lemma al_mem_lookup: "al_ok m \<Longrightarrow> (k, v) \<in> set m \<longleftrightarrow> map_of m k = Some v"
  unfolding al_ok_def by (metis map_of_eq_Some_iff)

end
