(* ===== verification/Byte_Codec.thy ===== *)
theory Byte_Codec
  imports SV_Prelude
begin

text \<open>
  The little-endian helpers, the bounds-checked reader and the writer of
  \<^verbatim>\<open>common/bytes.hpp\<close>. Unsigned integers are words of their width; a template over the unsigned
  types is a definition over any word length. \<open>offset + sizeof(T)\<close> is computed in \<open>std::size_t\<close>
  and wraps at \<open>2 ^ 64\<close>; an access the code does not check and that falls outside the buffer is
  the value \<open>UB\<close>. The locale \<open>le_codec\<close> is the contract of one typed read against the encoder
  it inverts; the three widths the protocol uses are interpretations of it.
\<close>

unbundle bit_operations_syntax

section \<open>Arrays and spans\<close>

definition width_of :: "'a::len itself \<Rightarrow> nat" where
  "width_of _ = LENGTH('a) div 8"

definition to_le_array :: "'a::len word \<Rightarrow> byte list" where
  "to_le_array v = map (\<lambda>i. ucast (drop_bit (8 * i) v AND 0xFF)) [0..<width_of TYPE('a)]"

definition from_le_array :: "byte list \<Rightarrow> 'a::len word" where
  "from_le_array bs = fold (\<lambda>i v. v OR push_bit (8 * i) (ucast (bs ! i))) [0..<width_of TYPE('a)] 0"

definition size_add :: "nat \<Rightarrow> nat \<Rightarrow> nat" where
  "size_add a b = (a + b) mod 2 ^ 64"

text \<open>\<open>write_le\<close> stores into a span in place: the result is the span after the loop.\<close>

definition write_le :: "'a::len word \<Rightarrow> byte list \<Rightarrow> nat \<Rightarrow> byte list res" where
  "write_le v buf off =
     (let n = width_of TYPE('a)
      in if length buf < size_add off n then Inl (OutOfRange ''write_le: buffer too small'')
         else if length buf < off + n then Inl (UB ''write_le'')
         else Inr (take off buf @ to_le_array v @ drop (off + n) buf))"

definition read_le :: "byte list \<Rightarrow> nat \<Rightarrow> 'a::len word res" where
  "read_le buf off =
     (let n = width_of TYPE('a)
      in if length buf < size_add off n then Inl (OutOfRange ''read_le: buffer too small'')
         else if length buf < off + n then Inl (UB ''read_le'')
         else Inr (fold (\<lambda>i v. v OR push_bit (8 * i) (ucast (buf ! (off + i)))) [0..<n] 0))"

definition append_le :: "byte list \<Rightarrow> 'a::len word \<Rightarrow> byte list" where
  "append_le buf v = buf @ to_le_array v"

text \<open>The unchecked raw-pointer variants; the pointer is the list from the pointed-to byte on.\<close>

definition read_u32_le :: "byte list \<Rightarrow> u32" where
  "read_u32_le d = ucast (d ! 0) OR push_bit 8 (ucast (d ! 1)) OR
                   push_bit 16 (ucast (d ! 2)) OR push_bit 24 (ucast (d ! 3))"

definition read_u64_le :: "byte list \<Rightarrow> u64" where
  "read_u64_le d = fold (\<lambda>i v. v OR push_bit (8 * i) (ucast (d ! i))) [0..<8] 0"

definition write_u32_le :: "u32 \<Rightarrow> byte list" where
  "write_u32_le v = [ucast (v AND 0xFF), ucast (drop_bit 8 v AND 0xFF),
                     ucast (drop_bit 16 v AND 0xFF), ucast (drop_bit 24 v AND 0xFF)]"

definition write_u64_le :: "u64 \<Rightarrow> byte list" where
  "write_u64_le v = map (\<lambda>i. ucast (drop_bit (8 * i) v AND 0xFF)) [0..<8]"

section \<open>Bit-level facts\<close>

lemma width_of_simps [simp]:
  "width_of TYPE(8) = 1" "width_of TYPE(16) = 2" "width_of TYPE(32) = 4" "width_of TYPE(64) = 8"
  by (simp_all add: width_of_def)

lemma length_to_le_array [simp]: "length (to_le_array (v :: 'a::len word)) = width_of TYPE('a)"
  by (simp add: to_le_array_def)

lemma bit_255_int: "bit (255 :: int) j \<longleftrightarrow> j < 8"
proof -
  have "(255 :: int) = mask 8" by (simp add: mask_eq_exp_minus_1)
  then show ?thesis by (simp only: bit_mask_iff possible_bit_int simp_thms)
qed

lemma bit_to_le_array:
  assumes "i < width_of TYPE('a::len)"
  shows "bit (to_le_array (v :: 'a word) ! i) j \<longleftrightarrow> j < 8 \<and> bit v (8 * i + j)"
proof -
  have "8 * i + j < LENGTH('a)" if "j < 8"
    using assms that by (simp add: width_of_def)
  then show ?thesis
    using assms
    by (auto simp: to_le_array_def bit_ucast_iff bit_and_iff bit_drop_bit_eq bit_255_int
        dest: bit_imp_le_length)
qed

lemma bit_fold_or:
  "bit (fold (\<lambda>i v. v OR f i) is (v0 :: 'a::len word)) k \<longleftrightarrow> bit v0 k \<or> (\<exists>i \<in> set is. bit (f i) k)"
  by (induction "is" arbitrary: v0) (auto simp: bit_or_iff)

lemma bit_fold_le:
  assumes "LENGTH('a::len) = 8 * n"
  shows "bit (fold (\<lambda>i v. v OR push_bit (8 * i) (ucast (g i :: byte))) [0..<n] (0 :: 'a word)) k
           \<longleftrightarrow> k < 8 * n \<and> bit (g (k div 8)) (k mod 8)"
proof -
  have "(\<exists>i \<in> {0..<n}. bit (push_bit (8 * i) (ucast (g i) :: 'a word)) k)
          \<longleftrightarrow> k < 8 * n \<and> bit (g (k div 8)) (k mod 8)" (is "?l \<longleftrightarrow> ?r")
  proof
    assume ?l
    then obtain i where i: "i < n" and b: "bit (push_bit (8 * i) (ucast (g i) :: 'a word)) k"
      by auto
    then have "8 * i \<le> k" "k < LENGTH('a)" "bit (g i) (k - 8 * i)"
      by (auto simp: bit_push_bit_iff bit_ucast_iff)
    moreover from this have "k - 8 * i < 8"
      using bit_imp_le_length [of "g i" "k - 8 * i"] by simp
    ultimately have "k div 8 = i" "k mod 8 = k - 8 * i"
      by (auto simp: div_nat_eqI mod_nat_eqI)
    with \<open>bit (g i) (k - 8 * i)\<close> \<open>k < LENGTH('a)\<close> assms show ?r by simp
  next
    assume r: ?r
    then have "k div 8 < n" by auto
    moreover have "bit (push_bit (8 * (k div 8)) (ucast (g (k div 8)) :: 'a word)) k"
      using r assms by (auto simp: bit_push_bit_iff bit_ucast_iff minus_mult_div_eq_mod)
    ultimately show ?l by auto
  qed
  then show ?thesis
    by (simp add: bit_fold_or)
qed

lemma bit_from_le_array:
  assumes "8 dvd LENGTH('a::len)"
  shows "bit (from_le_array bs :: 'a word) k
           \<longleftrightarrow> k < LENGTH('a) \<and> bit (bs ! (k div 8)) (k mod 8)"
  using bit_fold_le [where g = "\<lambda>i. bs ! i" and n = "width_of TYPE('a)" and k = k and ?'a = 'a] assms
  by (simp add: from_le_array_def width_of_def dvd_div_mult_self mult.commute)

lemma from_to_le_array:
  assumes "8 dvd LENGTH('a::len)"
  shows "from_le_array (to_le_array (v :: 'a word)) = v"
proof (rule bit_word_eqI)
  fix k assume k: "k < LENGTH('a)"
  then have "k div 8 < width_of TYPE('a)"
    using assms by (auto simp: width_of_def elim!: dvdE)
  then show "bit (from_le_array (to_le_array v) :: 'a word) k \<longleftrightarrow> bit v k"
    using k by (simp add: bit_from_le_array [OF assms] bit_to_le_array)
qed

lemma to_from_le_array:
  assumes "8 dvd LENGTH('a::len)" and "length bs = width_of TYPE('a)"
  shows "to_le_array (from_le_array bs :: 'a word) = bs"
proof (rule nth_equalityI)
  show "length (to_le_array (from_le_array bs :: 'a word)) = length bs"
    using assms(2) by simp
next
  fix i assume "i < length (to_le_array (from_le_array bs :: 'a word))"
  then have i: "i < width_of TYPE('a)" by simp
  show "to_le_array (from_le_array bs :: 'a word) ! i = bs ! i"
  proof (rule bit_word_eqI)
    fix j assume j: "j < LENGTH(8)"
    then have "8 * i + j < LENGTH('a)"
      using i assms(1) by (auto simp: width_of_def elim!: dvdE)
    then show "bit (to_le_array (from_le_array bs :: 'a word) ! i) j \<longleftrightarrow> bit (bs ! i) j"
      using i j by (simp add: bit_to_le_array bit_from_le_array [OF assms(1)])
  qed
qed

lemma read_le_in_range:
  assumes "off + width_of TYPE('a::len) \<le> length buf" and "length buf < 2 ^ 64"
  shows "read_le buf off = Inr (from_le_array (drop off buf) :: 'a word)"
proof -
  have "size_add off (width_of TYPE('a)) = off + width_of TYPE('a)"
    using assms by (simp add: size_add_def)
  moreover have "fold (\<lambda>i v. v OR push_bit (8 * i) (ucast (buf ! (off + i)))) [0..<width_of TYPE('a)] 0
      = (from_le_array (drop off buf) :: 'a word)"
    unfolding from_le_array_def
    by (rule fold_cong) (use assms in \<open>auto simp: nth_drop\<close>)
  ultimately show ?thesis
    using assms by (simp add: read_le_def Let_def)
qed

lemma read_le_out_of_range:
  assumes "length buf < off + width_of TYPE('a::len)" and "off + width_of TYPE('a) < 2 ^ 64"
  shows "(read_le buf off :: 'a word res) = Inl (OutOfRange ''read_le: buffer too small'')"
  using assms by (simp add: read_le_def size_add_def Let_def)

lemma write_u32_le_eq: "write_u32_le v = to_le_array v"
  by (simp add: write_u32_le_def to_le_array_def upt_rec)

lemma write_u64_le_eq: "write_u64_le v = to_le_array v"
  by (simp add: write_u64_le_def to_le_array_def)

lemma read_u32_le_eq: "read_u32_le d = from_le_array d"
  by (simp add: read_u32_le_def from_le_array_def upt_rec or.assoc numeral_2_eq_2 numeral_3_eq_3)

lemma read_u64_le_eq: "read_u64_le d = from_le_array d"
  by (simp add: read_u64_le_def from_le_array_def)

lemma from_le_array_prefix:
  assumes "width_of TYPE('a::len) \<le> length a"
  shows "(from_le_array (a @ b) :: 'a word) = from_le_array a"
  unfolding from_le_array_def
  by (rule fold_cong) (use assms in \<open>auto simp: nth_append\<close>)

section \<open>ByteReader\<close>

record byte_reader =
  rd_data :: "byte list"
  rd_offset :: nat

definition reader_new :: "byte list \<Rightarrow> byte_reader" where
  "reader_new d = \<lparr>rd_data = d, rd_offset = 0\<rparr>"

definition reader_remaining :: "byte_reader \<Rightarrow> nat" where
  "reader_remaining r = length (rd_data r) - rd_offset r"

definition reader_read :: "byte_reader \<Rightarrow> ('a::len word \<times> byte_reader) res" where
  "reader_read r = bindE (read_le (rd_data r) (rd_offset r))
     (\<lambda>v. Inr (v, r\<lparr>rd_offset := size_add (rd_offset r) (width_of TYPE('a))\<rparr>))"

definition reader_read_bytes :: "byte_reader \<Rightarrow> nat \<Rightarrow> (byte list \<times> byte_reader) res" where
  "reader_read_bytes r n =
     (if reader_remaining r < n then Inl (OutOfRange ''ByteReader::read_bytes: not enough data'')
      else Inr (take n (drop (rd_offset r) (rd_data r)), r\<lparr>rd_offset := size_add (rd_offset r) n\<rparr>))"

text \<open>
  The class invariant: the offset never passes the end of the data (so \<open>remaining()\<close> does not
  underflow), and a span is no longer than an allocation can be.
\<close>

definition reader_ok :: "byte_reader \<Rightarrow> bool" where
  "reader_ok r \<longleftrightarrow> rd_offset r \<le> length (rd_data r) \<and> length (rd_data r) < 2 ^ 63"

text \<open>The abstraction: a reader is the bytes it has not consumed.\<close>

definition unread :: "byte_reader \<Rightarrow> byte list" where
  "unread r = drop (rd_offset r) (rd_data r)"

lemma reader_ok_new [simp]: "length d < 2 ^ 63 \<Longrightarrow> reader_ok (reader_new d)"
  by (simp add: reader_ok_def reader_new_def)

lemma unread_new [simp]: "unread (reader_new d) = d"
  by (simp add: unread_def reader_new_def)

lemma length_unread: "length (unread r) = reader_remaining r"
  by (simp add: unread_def reader_remaining_def)

lemma width_of_le_8:
  "width_of TYPE('a::len) \<le> 8 \<Longrightarrow> reader_ok r \<Longrightarrow> rd_offset r + width_of TYPE('a) < 2 ^ 64"
  by (simp add: reader_ok_def)

lemma reader_read_ok:
  fixes r :: byte_reader
  assumes r: "reader_ok r" and w: "width_of TYPE('a::len) \<le> reader_remaining r"
  shows "reader_read r = Inr (from_le_array (unread r) :: 'a word,
           r\<lparr>rd_offset := rd_offset r + width_of TYPE('a)\<rparr>)"
proof -
  have le: "rd_offset r + width_of TYPE('a) \<le> length (rd_data r)"
    using assms by (auto simp: reader_remaining_def reader_ok_def)
  moreover have "length (rd_data r) < 2 ^ 64"
    using r by (simp add: reader_ok_def)
  ultimately show ?thesis
    by (simp add: reader_read_def read_le_in_range unread_def size_add_def)
qed

lemma reader_read_short:
  assumes "reader_ok r" and "reader_remaining r < width_of TYPE('a::len)" and "width_of TYPE('a) \<le> 8"
  shows "(reader_read r :: ('a word \<times> byte_reader) res)
           = Inl (OutOfRange ''read_le: buffer too small'')"
proof -
  have "length (rd_data r) < rd_offset r + width_of TYPE('a)"
    using assms by (simp add: reader_remaining_def reader_ok_def)
  moreover have "rd_offset r + width_of TYPE('a) < 2 ^ 64"
    using width_of_le_8 [OF assms(3,1)] .
  ultimately have "(read_le (rd_data r) (rd_offset r) :: 'a word res)
      = Inl (OutOfRange ''read_le: buffer too small'')"
    by (rule read_le_out_of_range)
  then show ?thesis
    by (simp add: reader_read_def)
qed

lemma drop_past: "drop k d = a @ b \<Longrightarrow> drop (k + length a) d = b"
  by (metis append_eq_conv_conj drop_drop add.commute)

lemma drop_append_length: "drop k d = a @ b \<Longrightarrow> k \<le> length d \<Longrightarrow> k + length a \<le> length d"
  by (metis add_le_cancel_left le_add1 le_add_diff_inverse length_append length_drop)

lemma reader_read_bytes_ok:
  assumes "reader_ok r" and "unread r = a @ b"
  shows "\<exists>r'. reader_read_bytes r (length a) = Inr (a, r') \<and> reader_ok r' \<and> unread r' = b"
proof -
  have len: "rd_offset r + length a \<le> length (rd_data r)"
    using assms by (auto simp: unread_def reader_ok_def intro: drop_append_length)
  with assms have "size_add (rd_offset r) (length a) = rd_offset r + length a"
    by (simp add: reader_ok_def size_add_def)
  moreover have "drop (rd_offset r + length a) (rd_data r) = b"
    using drop_past assms(2) by (simp add: unread_def)
  ultimately show ?thesis
    using assms len
    by (simp add: reader_read_bytes_def reader_remaining_def reader_ok_def unread_def)
qed

lemma reader_read_bytes_short:
  "reader_remaining r < n \<Longrightarrow>
     reader_read_bytes r n = Inl (OutOfRange ''ByteReader::read_bytes: not enough data'')"
  by (simp add: reader_read_bytes_def)

text \<open>Every successful read consumes bytes from the front and keeps the invariant.\<close>

lemma reader_read_Inr:
  assumes r: "reader_ok r" and w: "width_of TYPE('a::len) \<le> 8" and dvd: "8 dvd LENGTH('a)"
    and rd: "reader_read r = Inr (v :: 'a word, r')"
  shows "unread r = to_le_array v @ unread r' \<and> reader_ok r'"
proof -
  have le: "width_of TYPE('a) \<le> reader_remaining r"
    using reader_read_short [OF r _ w] rd by (cases "reader_remaining r < width_of TYPE('a)") auto
  then have v: "v = from_le_array (unread r)" and r': "r' = r\<lparr>rd_offset := rd_offset r + width_of TYPE('a)\<rparr>"
    using reader_read_ok [OF r le] rd by auto
  let ?a = "take (width_of TYPE('a)) (unread r)"
  have len: "length ?a = width_of TYPE('a)"
    using le by (simp add: length_unread)
  have "v = from_le_array ?a"
    using from_le_array_prefix [of ?a "drop (width_of TYPE('a)) (unread r)", where ?'a = 'a] len
    by (simp add: v)
  then have "to_le_array v = ?a"
    using to_from_le_array [OF dvd len] by simp
  moreover have "unread r' = drop (width_of TYPE('a)) (unread r)"
    by (simp add: unread_def r' add.commute)
  moreover have "reader_ok r'"
    using r le by (auto simp: r' reader_ok_def reader_remaining_def)
  ultimately show ?thesis by simp
qed

lemma reader_read_bytes_Inr:
  assumes r: "reader_ok r" and rd: "reader_read_bytes r n = Inr (a, r')"
  shows "unread r = a @ unread r' \<and> reader_ok r' \<and> length a = n"
proof -
  have n: "n \<le> length (unread r)"
    using rd by (simp add: reader_read_bytes_def length_unread split: if_splits)
  have split: "unread r = take n (unread r) @ drop n (unread r)"
    by simp
  have l: "length (take n (unread r)) = n"
    using n by simp
  obtain r'' where "reader_read_bytes r n = Inr (take n (unread r), r'')"
      "reader_ok r''" "unread r'' = drop n (unread r)"
    using reader_read_bytes_ok [OF r split] l by auto
  with rd l split show ?thesis by (metis Inr_inject Pair_inject)
qed

section \<open>The contract of a typed read\<close>

text \<open>
  \<open>enc\<close> is what the writer emits for a value, \<open>rd\<close> what the reader does; \<open>w\<close> is the number of
  bytes. The consequences proved here are those a decoder of a sequence of fields needs.
\<close>

locale le_codec =
  fixes enc :: "'v \<Rightarrow> byte list"
    and rd :: "byte_reader \<Rightarrow> ('v \<times> byte_reader) res"
    and w :: nat
  assumes enc_length: "length (enc v) = w"
    and rd_enc: "reader_ok r \<Longrightarrow> unread r = enc v @ rest \<Longrightarrow>
                   \<exists>r'. rd r = Inr (v, r') \<and> reader_ok r' \<and> unread r' = rest"
    and rd_inv: "reader_ok r \<Longrightarrow> rd r = Inr (v, r') \<Longrightarrow> unread r = enc v @ unread r' \<and> reader_ok r'"
    and rd_short: "reader_ok r \<Longrightarrow> reader_remaining r < w \<Longrightarrow>
                     rd r = Inl (OutOfRange ''read_le: buffer too small'')"
begin

lemma enc_inject:
  assumes eq: "enc a = enc b" and len: "w < 2 ^ 63"
  shows "a = b"
proof -
  have r: "reader_ok (reader_new (enc a))"
    using len enc_length [of a] by simp
  obtain r1 where "rd (reader_new (enc a)) = Inr (a, r1)"
    using rd_enc [OF r, of a "[]"] by auto
  moreover obtain r2 where "rd (reader_new (enc a)) = Inr (b, r2)"
    using rd_enc [OF r, of b "[]"] eq by auto
  ultimately show ?thesis by simp
qed

lemma rd_consumes: "reader_ok r \<Longrightarrow> rd r = Inr (v, r') \<Longrightarrow> reader_remaining r = w + reader_remaining r'"
  using rd_inv [of r v r'] enc_length [of v] by (metis length_append length_unread)

lemma rd_then:
  assumes "reader_ok r" and "unread r = enc v @ rest"
    and "\<And>r'. reader_ok r' \<Longrightarrow> unread r' = rest \<Longrightarrow> P (f (v, r'))"
  shows "P (bindE (rd r) f)"
  using rd_enc [OF assms(1,2)] assms(3) by auto

end

lemma le_codec_word:
  assumes dvd: "8 dvd LENGTH('a::len)" and w: "width_of TYPE('a) \<le> 8"
  shows "le_codec (to_le_array :: 'a word \<Rightarrow> byte list) reader_read (width_of TYPE('a))"
proof
  fix r :: byte_reader and v :: "'a word" and rest
  assume r: "reader_ok r" and u: "unread r = to_le_array v @ rest"
  have le: "width_of TYPE('a) \<le> reader_remaining r"
    using arg_cong [where f = length, OF u] by (simp add: length_unread)
  let ?r' = "r\<lparr>rd_offset := rd_offset r + width_of TYPE('a)\<rparr>"
  have "from_le_array (unread r) = v"
    using from_le_array_prefix [of "to_le_array v" rest, where ?'a = 'a] from_to_le_array [OF dvd, of v]
    by (simp add: u)
  moreover have "reader_ok ?r'"
    using r le by (auto simp: reader_ok_def reader_remaining_def)
  moreover have "unread ?r' = rest"
    using drop_past [of "rd_offset r" "rd_data r" "to_le_array v" rest] u by (simp add: unread_def)
  ultimately show "\<exists>r'. reader_read r = Inr (v, r') \<and> reader_ok r' \<and> unread r' = rest"
    using reader_read_ok [OF r le] by auto
qed (auto intro: reader_read_short [OF _ _ w] dest: reader_read_Inr [OF _ w dvd])

interpretation u16_codec: le_codec "to_le_array :: u16 \<Rightarrow> byte list" reader_read 2
  using le_codec_word [where ?'a = 16] by simp

interpretation u32_codec: le_codec "to_le_array :: u32 \<Rightarrow> byte list" reader_read 4
  using le_codec_word [where ?'a = 32] by simp

interpretation u64_codec: le_codec "to_le_array :: u64 \<Rightarrow> byte list" reader_read 8
  using le_codec_word [where ?'a = 64] by simp

section \<open>ByteWriter\<close>

text \<open>The writer is its buffer.\<close>

type_synonym byte_writer = "byte list"

definition writer_write :: "byte_writer \<Rightarrow> 'a::len word \<Rightarrow> byte_writer" where
  "writer_write w v = append_le w v"

definition writer_write_bytes :: "byte_writer \<Rightarrow> byte list \<Rightarrow> byte_writer" where
  "writer_write_bytes w bs = w @ bs"

definition writer_clear :: "byte_writer \<Rightarrow> byte_writer" where
  "writer_clear w = []"

lemmas writer_defs = writer_write_def append_le_def writer_write_bytes_def writer_clear_def

lemma write_le_read_le:
  assumes "8 dvd LENGTH('a::len)" and "write_le (v :: 'a word) buf off = Inr buf'" and "length buf < 2 ^ 64"
  shows "read_le buf' off = Inr v"
proof -
  have le: "off + width_of TYPE('a) \<le> length buf"
    and b: "buf' = take off buf @ to_le_array v @ drop (off + width_of TYPE('a)) buf"
    using assms by (auto simp: write_le_def Let_def split: if_splits)
  have len: "length buf' = length buf"
    using le by (simp add: b)
  have "drop off buf' = to_le_array v @ drop (off + width_of TYPE('a)) buf"
    using le by (simp add: b)
  then have "from_le_array (drop off buf') = v"
    using from_le_array_prefix [of "to_le_array v" "drop (off + width_of TYPE('a)) buf", where ?'a = 'a]
      from_to_le_array [OF assms(1), of v]
    by simp
  then show ?thesis
    using read_le_in_range [of off buf', where ?'a = 'a] le len assms(3) by simp
qed

end
