(* ===== verification/Checksum.thy ===== *)
theory Checksum
  imports SV_Prelude
begin

text \<open>
  The two CRC-32 routines of the relay: the table-driven class \<open>Crc32\<close> of \<^verbatim>\<open>common/bytes.hpp\<close> and
  the bitwise function \<open>Storage::crc32\<close> the server checks chunks with. The locale
  \<open>streaming_hash\<close> is the contract of an incremental digest; it is interpreted here for \<open>Crc32\<close>
  and in the next theory for the two SHA-256 classes. The lemmas show that the two CRC routines
  compute the same function, and that the checksum detects every change confined to four
  consecutive bytes.
\<close>

unbundle bit_operations_syntax

section \<open>Incremental digests\<close>

locale streaming_hash =
  fixes init :: 's
    and upd :: "'s \<Rightarrow> byte list \<Rightarrow> 's"
    and fin :: "'s \<Rightarrow> 'd"
    and ok :: "'s \<Rightarrow> bool"
  assumes ok_init: "ok init"
    and ok_upd: "ok s \<Longrightarrow> ok (upd s a)"
    and upd_Nil: "ok s \<Longrightarrow> upd s [] = s"
    and upd_append: "ok s \<Longrightarrow> upd s (a @ b) = upd (upd s a) b"
begin

lemma foldl_upd: "ok s \<Longrightarrow> foldl upd s blocks = upd s (concat blocks)"
  by (induction blocks arbitrary: s) (simp_all add: upd_Nil upd_append ok_upd)

lemma digest_blocks: "fin (foldl upd init blocks) = fin (upd init (concat blocks))"
  by (simp add: foldl_upd ok_init)

lemma digest_split_irrelevant:
  "concat xs = concat ys \<Longrightarrow> fin (foldl upd init xs) = fin (foldl upd init ys)"
  by (simp add: digest_blocks)

end

section \<open>The table-driven CRC-32\<close>

definition crc32_table_entry :: "u32 \<Rightarrow> u32" where
  "crc32_table_entry index =
     ((\<lambda>crc. if crc AND 1 \<noteq> 0 then drop_bit 1 crc XOR 0xEDB88320 else drop_bit 1 crc) ^^ 8) index"

definition crc32_table :: "u32 list" where
  "crc32_table = map (\<lambda>i. crc32_table_entry (of_nat i)) [0..<256]"

text \<open>The class state is the running \<open>crc_\<close>.\<close>

definition crc_reset :: u32 where
  "crc_reset = 0xFFFFFFFF"

definition crc_update :: "u32 \<Rightarrow> byte list \<Rightarrow> u32" where
  "crc_update crc data =
     foldl (\<lambda>c b. let idx = (c XOR ucast b) AND 0xFF in drop_bit 8 c XOR crc32_table ! unat idx) crc data"

definition crc_value :: "u32 \<Rightarrow> u32" where
  "crc_value crc = crc XOR 0xFFFFFFFF"

definition crc32 :: "byte list \<Rightarrow> u32" where
  "crc32 data = crc_value (crc_update crc_reset data)"

section \<open>The bitwise CRC-32 of the server\<close>

definition storage_crc32 :: "byte list \<Rightarrow> u32" where
  "storage_crc32 data =
     foldl (\<lambda>crc b. ((\<lambda>c. let bit0 = c AND 1 \<noteq> 0; c' = drop_bit 1 c
                       in if bit0 then c' XOR 0xEDB88320 else c') ^^ 8) (crc XOR ucast b))
       0xFFFFFFFF data XOR 0xFFFFFFFF"

section \<open>The shift register\<close>

definition crc_shift :: "u32 \<Rightarrow> u32" where
  "crc_shift c = (if c AND 1 \<noteq> 0 then drop_bit 1 c XOR 0xEDB88320 else drop_bit 1 c)"

lemma and_1_bit: "(c AND 1 \<noteq> 0) \<longleftrightarrow> bit (c :: u32) 0"
  by (simp add: and_one_eq odd_iff_mod_2_eq_one bit_0)

lemma crc_shift_alt: "crc_shift c = drop_bit 1 c XOR (if bit c 0 then 0xEDB88320 else 0)"
  by (simp add: crc_shift_def and_1_bit)

lemma crc_shift_xor: "crc_shift (a XOR b) = crc_shift a XOR crc_shift b"
  by (simp add: crc_shift_alt bit_xor_iff drop_bit_xor ac_simps)

lemma crc_shift_0: "crc_shift 0 = 0"
  by (simp add: crc_shift_alt)

lemma crc_shift_pow_xor: "(crc_shift ^^ n) (a XOR b) = (crc_shift ^^ n) a XOR (crc_shift ^^ n) b"
  by (induction n) (simp_all add: crc_shift_xor)

text \<open>Shifting out zero bits is a plain shift.\<close>

lemma crc_shift_pow_zeros: "(\<forall>i < n. \<not> bit c i) \<Longrightarrow> (crc_shift ^^ n) c = drop_bit n c"
proof (induction n arbitrary: c)
  case 0
  then show ?case by simp
next
  case (Suc n)
  then have "crc_shift c = drop_bit 1 c"
    by (simp add: crc_shift_alt)
  moreover have "\<forall>i < n. \<not> bit (drop_bit 1 c) i"
    using Suc.prems by (simp add: bit_drop_bit_eq)
  ultimately show ?case
    using Suc.IH [of "drop_bit 1 c"] by (simp add: funpow_swap1 drop_bit_drop_bit ac_simps)
qed

lemma xor_cancel_right: "(a XOR k) XOR k = (a :: 'a::len word)"
  by (simp add: xor.assoc)

lemma xor_right_inject: "a XOR k = b XOR k \<longleftrightarrow> a = (b :: 'a::len word)"
proof
  assume "a XOR k = b XOR k"
  then have "(a XOR k) XOR k = (b XOR k) XOR k" by simp
  then show "a = b" by (simp only: xor_cancel_right)
qed simp

lemma xor_left_inject: "k XOR a = k XOR b \<longleftrightarrow> a = (b :: 'a::len word)"
  by (simp only: xor.commute [of k] xor_right_inject)

lemma xor_eq_0_imp_eq: "a XOR b = 0 \<Longrightarrow> a = (b :: 'a::len word)"
  using xor_right_inject [of a b b] by (simp only: xor_self_eq simp_thms)

text \<open>The polynomial has its top bit set, so no bit is lost: the register is injective.\<close>

lemma crc_shift_eq_0:
  assumes "crc_shift c = 0"
  shows "c = 0"
proof -
  have b0: "\<not> bit c 0"
  proof
    assume "bit c 0"
    with assms have "drop_bit 1 c XOR 0xEDB88320 = 0"
      by (simp add: crc_shift_alt)
    then have "drop_bit 1 c = 0xEDB88320"
      by (rule xor_eq_0_imp_eq)
    then have "bit (drop_bit 1 c) 31" by simp
    then have "bit c 32" by (simp add: bit_drop_bit_eq)
    then show False using bit_imp_le_length by fastforce
  qed
  with assms have "drop_bit 1 c = 0"
    by (simp add: crc_shift_alt)
  then have "bit c (Suc k) = False" for k
  proof -
    have "bit (drop_bit 1 c) k = bit c (Suc k)"
      by (simp add: bit_drop_bit_eq)
    then show ?thesis using \<open>drop_bit 1 c = 0\<close> by simp
  qed
  with b0 show ?thesis
    by (metis bit_0_eq bit_eqI bot_apply bot_bool_def not0_implies_Suc)
qed

lemma crc_shift_pow_eq_0: "(crc_shift ^^ n) c = 0 \<Longrightarrow> c = 0"
  by (induction n) (auto dest: crc_shift_eq_0)

lemma crc_shift_pow_inject: "(crc_shift ^^ n) a = (crc_shift ^^ n) b \<longleftrightarrow> a = b"
  using crc_shift_pow_eq_0 [of n "a XOR b"]
  by (auto simp: crc_shift_pow_xor dest: xor_eq_0_imp_eq)

section \<open>One byte at a time\<close>

definition crc_byte :: "u32 \<Rightarrow> byte \<Rightarrow> u32" where
  "crc_byte c b = (crc_shift ^^ 8) (c XOR ucast b)"

lemma storage_crc32_bytes: "storage_crc32 data = foldl crc_byte 0xFFFFFFFF data XOR 0xFFFFFFFF"
proof -
  have "(\<lambda>c. let bit0 = c AND 1 \<noteq> 0; c' = drop_bit 1 c in if bit0 then c' XOR 0xEDB88320 else c')
      = crc_shift"
    by (simp add: fun_eq_iff crc_shift_def Let_def)
  then show ?thesis
    by (simp only: storage_crc32_def crc_byte_def [abs_def])
qed

lemma crc32_table_nth: "i < 256 \<Longrightarrow> crc32_table ! i = (crc_shift ^^ 8) (of_nat i)"
  by (simp add: crc32_table_def crc32_table_entry_def crc_shift_def [abs_def])

lemma xor_split_mask: "(c :: u32) = (c AND m) XOR (c AND NOT m)"
  by (rule bit_word_eqI) (auto simp: bit_xor_iff bit_and_iff bit_not_iff)

lemma crc_shift_8_table_mask:
  "(crc_shift ^^ 8) c = drop_bit 8 c XOR crc32_table ! unat (c AND mask 8)"
proof -
  have "(crc_shift ^^ 8) c
      = (crc_shift ^^ 8) (c AND mask 8) XOR (crc_shift ^^ 8) (c AND NOT (mask 8))"
    by (simp only: crc_shift_pow_xor [symmetric] xor_split_mask [symmetric])
  moreover have "(crc_shift ^^ 8) (c AND NOT (mask 8)) = drop_bit 8 c"
  proof -
    have "(crc_shift ^^ 8) (c AND NOT (mask 8)) = drop_bit 8 (c AND NOT (mask 8))"
      by (rule crc_shift_pow_zeros) (simp add: bit_and_iff bit_not_iff bit_mask_iff)
    also have "\<dots> = drop_bit 8 c"
      by (rule bit_word_eqI)
         (auto simp: bit_drop_bit_eq bit_and_iff bit_not_iff bit_mask_iff dest: bit_imp_le_length)
    finally show ?thesis .
  qed
  moreover have "crc32_table ! unat (c AND mask 8) = (crc_shift ^^ 8) (c AND mask 8)"
  proof -
    have "unat (c AND mask 8) = unat c mod 2 ^ 8"
      by (simp only: take_bit_eq_mask [symmetric] unsigned_take_bit_eq)
         (simp add: take_bit_eq_mod)
    then have "unat (c AND mask 8) < 256" by simp
    then show ?thesis by (simp add: crc32_table_nth)
  qed
  ultimately show ?thesis by (simp add: xor.commute)
qed

lemma crc_shift_8_table: "(crc_shift ^^ 8) c = drop_bit 8 c XOR crc32_table ! unat (c AND 0xFF)"
proof -
  have "(0xFF :: u32) = mask 8" by (simp add: mask_eq_exp_minus_1)
  then show ?thesis by (simp only: crc_shift_8_table_mask)
qed

lemma drop_bit_8_xor_byte: "drop_bit 8 (c XOR ucast (b :: byte)) = drop_bit 8 (c :: u32)"
  by (rule bit_word_eqI)
     (auto simp: bit_drop_bit_eq bit_xor_iff bit_ucast_iff dest: bit_imp_le_length)

lemma crc_byte_table:
  "crc_byte c b = drop_bit 8 c XOR crc32_table ! unat ((c XOR ucast b) AND 0xFF)"
  by (simp only: crc_byte_def crc_shift_8_table drop_bit_8_xor_byte)

lemma crc_update_bytes: "crc_update c data = foldl crc_byte c data"
  by (simp only: crc_update_def Let_def crc_byte_table [symmetric])

interpretation crc_stream: streaming_hash crc_reset crc_update crc_value "\<lambda>_. True"
  by unfold_locales (simp_all add: crc_update_bytes)

lemma crc32_bytes: "crc32 data = foldl crc_byte 0xFFFFFFFF data XOR 0xFFFFFFFF"
  by (simp add: crc32_def crc_value_def crc_reset_def crc_update_bytes)

lemma crc_byte_inject_state: "crc_byte a x = crc_byte b x \<longleftrightarrow> a = b"
  by (simp only: crc_byte_def crc_shift_pow_inject xor_right_inject)

lemma crc_bytes_inject_state: "foldl crc_byte a xs = foldl crc_byte b xs \<longleftrightarrow> a = b"
  by (induction xs arbitrary: a b) (simp_all add: crc_byte_inject_state)

lemma ucast_byte_inject: "(ucast (x :: byte) :: u32) = ucast y \<longleftrightarrow> x = y"
proof
  assume "(ucast x :: u32) = ucast y"
  then have eq: "bit (ucast x :: u32) k = bit (ucast y :: u32) k" for k by simp
  show "x = y"
  proof (rule bit_word_eqI)
    fix k assume "k < LENGTH(8)"
    then show "bit x k = bit y k"
      using eq [of k] by (simp add: bit_ucast_iff)
  qed
qed simp

section \<open>Burst errors\<close>

text \<open>Up to four bytes are shifted in together: the register sees one 32-bit word.\<close>

fun pack_le :: "byte list \<Rightarrow> u32" where
  "pack_le [] = 0"
| "pack_le (b # bs) = ucast b XOR push_bit 8 (pack_le bs)"

lemma bit_pack_le: "bit (pack_le bs) k \<Longrightarrow> k < 8 * length bs"
proof (induction bs arbitrary: k)
  case (Cons b bs)
  then show ?case
    by (fastforce simp: bit_xor_iff bit_push_bit_iff bit_ucast_iff dest: bit_imp_le_length)
qed simp

lemma shift_8_push_8:
  assumes "\<And>k. bit z k \<Longrightarrow> k < 24"
  shows "(crc_shift ^^ 8) (push_bit 8 z) = z"
proof -
  have "(crc_shift ^^ 8) (push_bit 8 z) = drop_bit 8 (push_bit 8 z)"
    by (rule crc_shift_pow_zeros) (simp add: bit_push_bit_iff)
  also have "\<dots> = z"
    by (rule bit_word_eqI) (use assms in \<open>auto simp: bit_drop_bit_eq bit_push_bit_iff\<close>)
  finally show ?thesis .
qed

lemma crc_bytes_packed:
  "length bs \<le> 4 \<Longrightarrow> foldl crc_byte c bs = (crc_shift ^^ (8 * length bs)) (c XOR pack_le bs)"
proof (induction bs arbitrary: c)
  case Nil
  then show ?case by simp
next
  case (Cons b bs)
  have fit: "(crc_shift ^^ 8) (push_bit 8 (pack_le bs)) = pack_le bs"
    by (rule shift_8_push_8) (use bit_pack_le [of bs] Cons.prems in fastforce)
  have "foldl crc_byte c (b # bs)
      = (crc_shift ^^ (8 * length bs)) ((crc_shift ^^ 8) (c XOR ucast b) XOR pack_le bs)"
    using Cons.IH [of "crc_byte c b"] Cons.prems by (simp add: crc_byte_def [of c b])
  also have "(crc_shift ^^ 8) (c XOR ucast b) XOR pack_le bs
      = (crc_shift ^^ 8) (c XOR ucast b) XOR (crc_shift ^^ 8) (push_bit 8 (pack_le bs))"
    by (simp only: fit)
  also have "\<dots> = (crc_shift ^^ 8) (c XOR pack_le (b # bs))"
    by (simp only: crc_shift_pow_xor [symmetric] pack_le.simps xor.assoc)
  finally show ?case
    by (simp only: length_Cons mult_Suc_right add.commute [of 8] funpow_add o_apply)
qed

lemma pack_le_inject:
  "length a \<le> 4 \<Longrightarrow> length a = length b \<Longrightarrow> pack_le a = pack_le b \<Longrightarrow> a = b"
proof (induction a arbitrary: b)
  case (Cons x a)
  then obtain y b' where b: "b = y # b'" by (cases b) auto
  have eq: "ucast x XOR push_bit 8 (pack_le a) = ucast y XOR push_bit 8 (pack_le b')"
    using Cons.prems(3) by (simp add: b)
  have bits: "bit (ucast x XOR push_bit 8 (pack_le a)) k = bit (ucast y XOR push_bit 8 (pack_le b')) k" for k
    using eq by simp
  have "x = y"
  proof (rule bit_word_eqI)
    fix k assume "k < LENGTH(8)"
    then show "bit x k = bit y k"
      using bits [of k] by (simp add: bit_xor_iff bit_push_bit_iff bit_ucast_iff)
  qed
  moreover have "pack_le a = pack_le b'"
  proof (rule bit_word_eqI)
    fix k assume k: "k < LENGTH(32)"
    have "bit (pack_le a) k = bit (pack_le b') k" if "k < 24"
      using bits [of "k + 8"] that
      by (auto simp: bit_xor_iff bit_push_bit_iff bit_ucast_iff dest: bit_imp_le_length)
    moreover have "\<not> bit (pack_le a) k" "\<not> bit (pack_le b') k" if "\<not> k < 24"
      using bit_pack_le [of a k] bit_pack_le [of b' k] Cons.prems that by (auto simp: b)
    ultimately show "bit (pack_le a) k = bit (pack_le b') k" by auto
  qed
  ultimately show ?case
    using Cons.IH [of b'] Cons.prems by (simp add: b)
qed simp

lemma crc_bytes_burst:
  assumes "length a = length b" and "length a \<le> 4"
  shows "foldl crc_byte c a = foldl crc_byte c b \<longleftrightarrow> a = b"
  using assms pack_le_inject [of a b]
  by (auto simp: crc_bytes_packed crc_shift_pow_inject xor_left_inject)

section \<open>Properties\<close>

text \<open>The bitwise CRC the server verifies chunks with is the table-driven CRC-32 of the common
  library: a checksum computed by either side is accepted by the other.\<close>

theorem storage_crc32_is_crc32: "storage_crc32 data = crc32 data"
  by (simp only: storage_crc32_bytes crc32_bytes)

text \<open>Replacing at most four consecutive bytes by different ones always changes the CRC-32,
  wherever the change is in the data.\<close>

theorem crc32_detects_burst:
  assumes "length a = length b" and "length a \<le> 4" and "a \<noteq> b"
  shows "crc32 (pre @ a @ post) \<noteq> crc32 (pre @ b @ post)"
  using assms by (simp add: crc32_bytes xor_right_inject crc_bytes_inject_state crc_bytes_burst)

theorem crc32_detects_burst_witness:
  "crc32 ([7] @ [1, 2] @ [9]) \<noteq> crc32 ([7] @ [2, 1] @ [9])"
  by (rule crc32_detects_burst) simp_all

end
