(* ===== verification/Wire_Protocol.thy ===== *)
theory Wire_Protocol
  imports Byte_Codec Checksum
begin

text \<open>
  \<^verbatim>\<open>common/protocol.hpp\<close>: the 40-byte patch header with its own CRC, and the system messages of the
  control channel. The lemmas give the round trips in both directions, which inputs a decoder
  refuses, and what the header CRC detects.
\<close>

section \<open>PatchHeader\<close>

record patch_header =
  ph_version :: u32
  ph_header_size :: u32
  ph_file_id :: u64
  ph_total_patches :: u32
  ph_patch_index :: u32
  ph_payload_size :: u32
  ph_header_crc32 :: u32
  ph_payload_crc32 :: u32

definition patch_magic :: "byte list" where
  "patch_magic = bytes_of ''SVP1''"

definition patch_encoded_size :: nat where
  "patch_encoded_size = 40"

definition patch_header_default :: patch_header where
  "patch_header_default = \<lparr>ph_version = 1, ph_header_size = of_nat patch_encoded_size, ph_file_id = 0,
     ph_total_patches = 0, ph_patch_index = 0, ph_payload_size = 0, ph_header_crc32 = 0, ph_payload_crc32 = 0\<rparr>"

definition patch_serialize :: "bool \<Rightarrow> patch_header \<Rightarrow> byte list" where
  "patch_serialize include_header_crc h =
     patch_magic @ write_u32_le (ph_version h) @ write_u32_le (ph_header_size h) @ write_u64_le (ph_file_id h)
     @ write_u32_le (ph_total_patches h) @ write_u32_le (ph_patch_index h) @ write_u32_le (ph_payload_size h)
     @ write_u32_le (if include_header_crc then ph_header_crc32 h else 0) @ write_u32_le (ph_payload_crc32 h)"

definition compute_header_crc32 :: "patch_header \<Rightarrow> u32" where
  "compute_header_crc32 h = crc32 (patch_serialize False h)"

definition finalize_header_crc :: "patch_header \<Rightarrow> patch_header" where
  "finalize_header_crc h = h\<lparr>ph_header_crc32 := compute_header_crc32 h\<rparr>"

definition patch_validate :: "patch_header \<Rightarrow> unit res" where
  "patch_validate h =
     (if ph_version h \<noteq> 1 then Inl (RuntimeError ''Unsupported patch header version'')
      else if ph_header_size h \<noteq> of_nat patch_encoded_size then Inl (RuntimeError ''Unexpected patch header size'')
      else Inr ())"

definition patch_deserialize :: "byte list \<Rightarrow> patch_header res" where
  "patch_deserialize data =
     (if length data < patch_encoded_size then Inl (RuntimeError ''PatchHeader::deserialize: insufficient data'')
      else if take 4 data \<noteq> patch_magic then Inl (RuntimeError ''Invalid patch header magic'')
      else
        bindE (read_le data 4) (\<lambda>version.
        bindE (read_le data 8) (\<lambda>header_size.
        bindE (read_le data 12) (\<lambda>file_id.
        bindE (read_le data 20) (\<lambda>total_patches.
        bindE (read_le data 24) (\<lambda>patch_index.
        bindE (read_le data 28) (\<lambda>payload_size.
        bindE (read_le data 32) (\<lambda>header_crc32.
        bindE (read_le data 36) (\<lambda>payload_crc32.
        let header = \<lparr>ph_version = version, ph_header_size = header_size, ph_file_id = file_id,
                      ph_total_patches = total_patches, ph_patch_index = patch_index,
                      ph_payload_size = payload_size, ph_header_crc32 = header_crc32,
                      ph_payload_crc32 = payload_crc32\<rparr>
        in bindE (patch_validate header) (\<lambda>_.
             if compute_header_crc32 header \<noteq> ph_header_crc32 header
             then Inl (RuntimeError ''Patch header CRC mismatch'')
             else Inr header))))))))))"

definition encode_patch_header :: "patch_header \<Rightarrow> byte list" where
  "encode_patch_header h =
     (let out = patch_serialize True h; expected_crc = compute_header_crc32 h
      in if expected_crc \<noteq> ph_header_crc32 h
         then patch_serialize True (h\<lparr>ph_header_crc32 := expected_crc\<rparr>)
         else out)"

section \<open>System messages\<close>

text \<open>
  The type tag is the 16-bit value on the wire: the decoder casts before it looks at it, so every
  value can occur. Tag and payload are separate fields, as in the source.
\<close>

definition QueueSizeUpdate :: u16 where "QueueSizeUpdate = 1"
definition FileMeta :: u16 where "FileMeta = 2"
definition FilePatchMap :: u16 where "FilePatchMap = 3"
definition Control :: u16 where "Control = 4"

lemmas message_tags = QueueSizeUpdate_def FileMeta_def FilePatchMap_def Control_def

record file_meta_message =
  fm_file_id :: u64
  fm_utf8_name :: string
  fm_original_size_bytes :: u64
  fm_total_patches :: u32
  fm_sha256 :: "byte list"

record control_message =
  cm_command :: char
  cm_value_seconds :: u32

datatype system_payload =
    QueueSizeUpdateMessage u32
  | FileMetaMessage file_meta_message
  | FilePatchMapMessage u64 u32
  | ControlMessage control_message

record system_message =
  sm_type :: u16
  sm_payload :: system_payload

definition encode_payload :: "byte_writer \<Rightarrow> system_payload \<Rightarrow> byte_writer" where
  "encode_payload w p = (case p of
       QueueSizeUpdateMessage queue_size \<Rightarrow> writer_write w queue_size
     | FileMetaMessage m \<Rightarrow>
         (let w = writer_write w (fm_file_id m);
              w = writer_write w (of_nat (length (fm_utf8_name m)) :: u32);
              w = writer_write_bytes w (bytes_of (fm_utf8_name m));
              w = writer_write w (fm_original_size_bytes m);
              w = writer_write w (fm_total_patches m)
          in writer_write_bytes w (fm_sha256 m))
     | FilePatchMapMessage file_id patch_index \<Rightarrow> writer_write (writer_write w file_id) patch_index
     | ControlMessage m \<Rightarrow>
         writer_write (writer_write_bytes w [byte_of_char (cm_command m)]) (cm_value_seconds m))"

definition encode_system_message :: "system_message \<Rightarrow> byte list" where
  "encode_system_message m = encode_payload (writer_write [] (sm_type m)) (sm_payload m)"

definition decode_file_meta :: "byte_reader \<Rightarrow> (file_meta_message \<times> byte_reader) res" where
  "decode_file_meta r =
     bindE (reader_read r) (\<lambda>(file_id, r).
     bindE (reader_read r) (\<lambda>(name_size :: u32, r).
     bindE (reader_read_bytes r (unat name_size)) (\<lambda>(name_bytes, r).
     bindE (reader_read r) (\<lambda>(original_size, r).
     bindE (reader_read r) (\<lambda>(total_patches, r).
     bindE (reader_read_bytes r 32) (\<lambda>(hash_bytes, r).
       Inr (\<lparr>fm_file_id = file_id, fm_utf8_name = string_of name_bytes,
             fm_original_size_bytes = original_size, fm_total_patches = total_patches,
             fm_sha256 = hash_bytes\<rparr>, r)))))))"

definition decode_control :: "byte_reader \<Rightarrow> (control_message \<times> byte_reader) res" where
  "decode_control r =
     bindE (reader_read_bytes r 1) (\<lambda>(command_bytes, r).
     bindE (reader_read r) (\<lambda>(value_seconds, r).
       Inr (\<lparr>cm_command = char_of_byte (command_bytes ! 0), cm_value_seconds = value_seconds\<rparr>, r)))"

definition decode_payload :: "u16 \<Rightarrow> byte_reader \<Rightarrow> (system_payload \<times> byte_reader) res" where
  "decode_payload ty r =
     (if ty = QueueSizeUpdate then
        bindE (reader_read r) (\<lambda>(queue_size, r). Inr (QueueSizeUpdateMessage queue_size, r))
      else if ty = FileMeta then
        bindE (decode_file_meta r) (\<lambda>(m, r). Inr (FileMetaMessage m, r))
      else if ty = FilePatchMap then
        bindE (reader_read r) (\<lambda>(file_id, r).
        bindE (reader_read r) (\<lambda>(patch_index, r). Inr (FilePatchMapMessage file_id patch_index, r)))
      else if ty = Control then
        bindE (decode_control r) (\<lambda>(m, r). Inr (ControlMessage m, r))
      else Inl (RuntimeError ''Unknown system message type''))"

definition decode_system_message :: "byte list \<Rightarrow> system_message res" where
  "decode_system_message data =
     bindE (reader_read (reader_new data)) (\<lambda>(ty, r).
     bindE (decode_payload ty r) (\<lambda>(p, _). Inr \<lparr>sm_type = ty, sm_payload = p\<rparr>))"

section \<open>Lemmas on the header\<close>

lemma length_to_le_u32 [simp]: "length (to_le_array (v :: u32)) = 4"
  by simp

lemma length_patch_magic [simp]: "length patch_magic = 4"
  by (simp add: patch_magic_def)

lemma patch_serialize_alt:
  "patch_serialize b h =
     patch_magic @ to_le_array (ph_version h) @ to_le_array (ph_header_size h) @ to_le_array (ph_file_id h)
     @ to_le_array (ph_total_patches h) @ to_le_array (ph_patch_index h) @ to_le_array (ph_payload_size h)
     @ to_le_array (if b then ph_header_crc32 h else 0) @ to_le_array (ph_payload_crc32 h)"
  by (simp add: patch_serialize_def write_u32_le_eq write_u64_le_eq)

lemma length_patch_serialize [simp]: "length (patch_serialize b h) = 40"
  by (simp add: patch_serialize_alt)

lemma compute_header_crc32_ignores_crc [simp]:
  "compute_header_crc32 (h\<lparr>ph_header_crc32 := c\<rparr>) = compute_header_crc32 h"
  by (simp add: compute_header_crc32_def patch_serialize_def)

text \<open>The encoder always emits a consistent CRC.\<close>

lemma encode_patch_header_finalizes:
  "encode_patch_header h = patch_serialize True (finalize_header_crc h)"
  by (auto simp: encode_patch_header_def finalize_header_crc_def Let_def)

text \<open>Reading a field back at its offset.\<close>

lemma read_le_field:
  assumes "8 dvd LENGTH('a::len)" and "d = a @ to_le_array (v :: 'a word) @ b" and "length a = off"
    and "length d < 2 ^ 64"
  shows "read_le d off = Inr v"
proof -
  have "off + width_of TYPE('a) \<le> length d"
    using assms by simp
  moreover have "drop off d = to_le_array v @ b"
    using assms by simp
  moreover have "from_le_array (to_le_array v @ b) = v"
    using from_le_array_prefix [of "to_le_array v" b, where ?'a = 'a] from_to_le_array [OF assms(1), of v]
    by simp
  ultimately show ?thesis
    using read_le_in_range [of off d, where ?'a = 'a] assms(4) by simp
qed

lemma patch_header_eta:
  "\<lparr>ph_version = ph_version h, ph_header_size = ph_header_size h, ph_file_id = ph_file_id h,
    ph_total_patches = ph_total_patches h, ph_patch_index = ph_patch_index h,
    ph_payload_size = ph_payload_size h, ph_header_crc32 = ph_header_crc32 h,
    ph_payload_crc32 = ph_payload_crc32 h\<rparr> = h"
  by (cases h) simp

lemma patch_deserialize_serialize:
  assumes "length rest < 2 ^ 63"
  shows "patch_deserialize (patch_serialize True h @ rest) =
     bindE (patch_validate h) (\<lambda>_. if compute_header_crc32 h \<noteq> ph_header_crc32 h
       then Inl (RuntimeError ''Patch header CRC mismatch'') else Inr h)"
proof -
  let ?d = "patch_serialize True h @ rest"
  have len: "length ?d < 2 ^ 64" "\<not> length ?d < patch_encoded_size"
    using assms by (simp_all add: patch_encoded_size_def)
  have magic: "take 4 ?d = patch_magic"
    by (simp add: patch_serialize_alt)
  have f1: "read_le ?d 4 = Inr (ph_version h)"
    by (rule read_le_field [where a = patch_magic, OF _ _ _ len(1)]) (simp_all add: patch_serialize_alt)
  have f2: "read_le ?d 8 = Inr (ph_header_size h)"
    by (rule read_le_field [where a = "patch_magic @ to_le_array (ph_version h)", OF _ _ _ len(1)])
      (simp_all add: patch_serialize_alt)
  have f3: "read_le ?d 12 = Inr (ph_file_id h)"
    by (rule read_le_field [where a = "patch_magic @ to_le_array (ph_version h)
          @ to_le_array (ph_header_size h)", OF _ _ _ len(1)]) (simp_all add: patch_serialize_alt)
  have f4: "read_le ?d 20 = Inr (ph_total_patches h)"
    by (rule read_le_field [where a = "patch_magic @ to_le_array (ph_version h)
          @ to_le_array (ph_header_size h) @ to_le_array (ph_file_id h)", OF _ _ _ len(1)])
      (simp_all add: patch_serialize_alt)
  have f5: "read_le ?d 24 = Inr (ph_patch_index h)"
    by (rule read_le_field [where a = "patch_magic @ to_le_array (ph_version h)
          @ to_le_array (ph_header_size h) @ to_le_array (ph_file_id h)
          @ to_le_array (ph_total_patches h)", OF _ _ _ len(1)]) (simp_all add: patch_serialize_alt)
  have f6: "read_le ?d 28 = Inr (ph_payload_size h)"
    by (rule read_le_field [where a = "patch_magic @ to_le_array (ph_version h)
          @ to_le_array (ph_header_size h) @ to_le_array (ph_file_id h)
          @ to_le_array (ph_total_patches h) @ to_le_array (ph_patch_index h)", OF _ _ _ len(1)])
      (simp_all add: patch_serialize_alt)
  have f7: "read_le ?d 32 = Inr (ph_header_crc32 h)"
    by (rule read_le_field [where a = "patch_magic @ to_le_array (ph_version h)
          @ to_le_array (ph_header_size h) @ to_le_array (ph_file_id h)
          @ to_le_array (ph_total_patches h) @ to_le_array (ph_patch_index h)
          @ to_le_array (ph_payload_size h)", OF _ _ _ len(1)]) (simp_all add: patch_serialize_alt)
  have f8: "read_le ?d 36 = Inr (ph_payload_crc32 h)"
    by (rule read_le_field [where a = "patch_magic @ to_le_array (ph_version h)
          @ to_le_array (ph_header_size h) @ to_le_array (ph_file_id h)
          @ to_le_array (ph_total_patches h) @ to_le_array (ph_patch_index h)
          @ to_le_array (ph_payload_size h) @ to_le_array (ph_header_crc32 h)", OF _ _ _ len(1)])
      (simp_all add: patch_serialize_alt)
  show ?thesis
    unfolding patch_deserialize_def f1 f2 f3 f4 f5 f6 f7 f8 bindE.simps
    using len(2) magic by (simp add: Let_def patch_header_eta)
qed

text \<open>Every long enough input that starts with the magic bytes is the image of some header.\<close>

lemma drop_split: "drop k d = take n (drop k d) @ drop (k + n) d"
  by (metis add.commute append_take_drop_id drop_drop)

lemma le_slice_u32: "k + 4 \<le> length d \<Longrightarrow> to_le_array (from_le_array (take 4 (drop k d)) :: u32) = take 4 (drop k d)"
  by (rule to_from_le_array) simp_all

lemma le_slice_u64: "k + 8 \<le> length d \<Longrightarrow> to_le_array (from_le_array (take 8 (drop k d)) :: u64) = take 8 (drop k d)"
  by (rule to_from_le_array) simp_all

lemma patch_serialize_cover:
  assumes "40 \<le> length d" and "take 4 d = patch_magic"
  shows "\<exists>h. d = patch_serialize True h @ drop 40 d"
proof -
  define h where "h = \<lparr>ph_version = from_le_array (take 4 (drop 4 d)),
     ph_header_size = from_le_array (take 4 (drop 8 d)), ph_file_id = from_le_array (take 8 (drop 12 d)),
     ph_total_patches = from_le_array (take 4 (drop 20 d)), ph_patch_index = from_le_array (take 4 (drop 24 d)),
     ph_payload_size = from_le_array (take 4 (drop 28 d)), ph_header_crc32 = from_le_array (take 4 (drop 32 d)),
     ph_payload_crc32 = from_le_array (take 4 (drop 36 d))\<rparr>"
  have "patch_serialize True h = take 4 d @ take 4 (drop 4 d) @ take 4 (drop 8 d) @ take 8 (drop 12 d)
      @ take 4 (drop 20 d) @ take 4 (drop 24 d) @ take 4 (drop 28 d) @ take 4 (drop 32 d) @ take 4 (drop 36 d)"
    using assms by (simp add: patch_serialize_alt h_def le_slice_u32 le_slice_u64)
  moreover have "d = take 4 d @ take 4 (drop 4 d) @ take 4 (drop 8 d) @ take 8 (drop 12 d)
      @ take 4 (drop 20 d) @ take 4 (drop 24 d) @ take 4 (drop 28 d) @ take 4 (drop 32 d)
      @ take 4 (drop 36 d) @ drop 40 d"
    using drop_split [of 4 d 4] drop_split [of 8 d 4] drop_split [of 12 d 8] drop_split [of 20 d 4]
      drop_split [of 24 d 4] drop_split [of 28 d 4] drop_split [of 32 d 4] drop_split [of 36 d 4]
      append_take_drop_id [of 4 d]
    by simp
  ultimately have "d = patch_serialize True h @ drop 40 d"
    by simp
  then show ?thesis ..
qed

lemma patch_deserialize_Inr:
  assumes len: "length d < 2 ^ 63" and h: "patch_deserialize d = Inr h"
  shows "d = patch_serialize True h @ drop 40 d \<and> patch_validate h = Inr () \<and>
         ph_header_crc32 h = compute_header_crc32 h"
proof -
  have "40 \<le> length d" and "take 4 d = patch_magic"
    using h by (auto simp: patch_deserialize_def patch_encoded_size_def split: if_splits)
  then obtain h' where d: "d = patch_serialize True h' @ drop 40 d"
    using patch_serialize_cover by blast
  have "length (drop 40 d) < 2 ^ 63"
    using len by simp
  then have "bindE (patch_validate h') (\<lambda>_. if compute_header_crc32 h' \<noteq> ph_header_crc32 h'
       then Inl (RuntimeError ''Patch header CRC mismatch'') else Inr h') = Inr h"
    using patch_deserialize_serialize [of "drop 40 d" h'] d h by simp
  then show ?thesis
    using d by (auto simp: bindE_Inr_iff split: if_splits)
qed

text \<open>The bytes the CRC is computed over: the header with the CRC field zeroed.\<close>

definition zero_crc_field :: "byte list \<Rightarrow> byte list" where
  "zero_crc_field d = take 32 d @ [0, 0, 0, 0] @ take 4 (drop 36 d)"

lemma to_le_array_zero_u32: "to_le_array (0 :: u32) = [0, 0, 0, 0]"
  by (simp add: to_le_array_def upt_rec)

lemma zero_crc_field_serialize: "zero_crc_field (patch_serialize True h @ rest) = patch_serialize False h"
  by (simp add: zero_crc_field_def patch_serialize_alt to_le_array_zero_u32)

lemma crc_field_serialize: "take 4 (drop 32 (patch_serialize True h @ rest)) = to_le_array (ph_header_crc32 h)"
  by (simp add: patch_serialize_alt)

lemma patch_deserialize_crc:
  assumes "length d < 2 ^ 63" and "patch_deserialize d = Inr h"
  shows "take 4 (drop 32 d) = to_le_array (crc32 (zero_crc_field d))"
proof -
  have "d = patch_serialize True h @ drop 40 d" "ph_header_crc32 h = crc32 (patch_serialize False h)"
    using patch_deserialize_Inr [OF assms] by (simp_all add: compute_header_crc32_def)
  then show ?thesis
    using crc_field_serialize [of h "drop 40 d"] zero_crc_field_serialize [of h "drop 40 d"] by simp
qed

lemma burst_before_crc:
  assumes "length a = length b" and "length a \<le> 4" and "a \<noteq> b"
    and "length pre + length a \<le> 32"
  shows "crc32 (zero_crc_field (pre @ a @ post)) \<noteq> crc32 (zero_crc_field (pre @ b @ post))"
proof -
  have z: "zero_crc_field (pre @ x @ post)
      = pre @ x @ (take (32 - length pre - length x) post @ [0, 0, 0, 0]
          @ take 4 (drop (36 - length pre - length x) post))"
    if "length pre + length x \<le> 32" for x
    using that by (simp add: zero_crc_field_def)
  show ?thesis
    using assms by (simp add: z crc32_bytes xor_right_inject crc_bytes_inject_state crc_bytes_burst
        crc_byte_inject_state)
qed

lemma burst_after_crc:
  assumes "length a = length b" and "length a \<le> 4" and "a \<noteq> b"
    and "36 \<le> length pre" and "length pre + length a \<le> 40"
  shows "crc32 (zero_crc_field (pre @ a @ post)) \<noteq> crc32 (zero_crc_field (pre @ b @ post))"
proof -
  have z: "zero_crc_field (pre @ x @ post)
      = (take 32 pre @ [0, 0, 0, 0] @ drop 36 pre) @ x @ take (40 - length pre - length x) post"
    if "36 \<le> length pre" "length pre + length x \<le> 40" for x
    using that by (simp add: zero_crc_field_def)
  show ?thesis
    using assms by (simp add: z crc32_bytes xor_right_inject crc_bytes_inject_state crc_bytes_burst)
qed

lemma burst_keeps_crc_field:
  assumes "length a = length b" and "length pre + length a \<le> 32 \<or> 36 \<le> length pre"
  shows "take 4 (drop 32 (pre @ a @ post)) = take 4 (drop 32 (pre @ b @ post))"
  using assms by auto

lemma burst_in_crc_field:
  assumes "length a = length b" and "32 \<le> length pre" and "length pre + length a \<le> 36"
  shows "zero_crc_field (pre @ a @ post) = zero_crc_field (pre @ b @ post)"
  using assms by (simp add: zero_crc_field_def)

lemma burst_changes_crc_field:
  assumes "length a = length b" and "a \<noteq> b" and "32 \<le> length pre" and "length pre + length a \<le> 36"
  shows "take 4 (drop 32 (pre @ a @ post)) \<noteq> take 4 (drop 32 (pre @ b @ post))"
  using assms by simp

lemma patch_deserialize_encode:
  assumes "ph_version h = 1" and "ph_header_size h = 40" and "length rest < 2 ^ 63"
  shows "patch_deserialize (encode_patch_header h @ rest) = Inr (finalize_header_crc h)"
proof -
  have "patch_validate (finalize_header_crc h) = Inr ()"
    using assms by (simp add: patch_validate_def finalize_header_crc_def patch_encoded_size_def)
  then show ?thesis
    using assms(3) patch_deserialize_serialize [of rest "finalize_header_crc h"]
    by (simp add: encode_patch_header_finalizes) (simp add: finalize_header_crc_def)
qed

lemma patch_default_decodes:
  "patch_deserialize (encode_patch_header patch_header_default) = Inr (finalize_header_crc patch_header_default)"
  using patch_deserialize_encode [of patch_header_default "[]"]
  by (simp add: patch_header_default_def patch_encoded_size_def)

section \<open>Lemmas on the system messages\<close>

text \<open>\<open>decodes m v rest\<close>: the decoder step \<open>m\<close> returns \<open>v\<close> and leaves \<open>rest\<close> unread.\<close>

definition decodes :: "('a \<times> byte_reader) res \<Rightarrow> 'a \<Rightarrow> byte list \<Rightarrow> bool" where
  "decodes m v rest \<longleftrightarrow> (\<exists>r'. m = Inr (v, r') \<and> reader_ok r' \<and> unread r' = rest)"

lemma decodes_bind:
  assumes "decodes m v rest"
    and "\<And>r'. reader_ok r' \<Longrightarrow> unread r' = rest \<Longrightarrow> decodes (f (v, r')) w rest'"
  shows "decodes (bindE m f) w rest'"
  using assms by (auto simp: decodes_def)

lemma decodes_return: "reader_ok r \<Longrightarrow> unread r = rest \<Longrightarrow> decodes (Inr (v, r)) v rest"
  by (simp add: decodes_def)

lemma decodes_u16: "reader_ok r \<Longrightarrow> unread r = to_le_array (v :: u16) @ rest \<Longrightarrow> decodes (reader_read r) v rest"
  using u16_codec.rd_enc [of r v rest] by (simp add: decodes_def)

lemma decodes_u32: "reader_ok r \<Longrightarrow> unread r = to_le_array (v :: u32) @ rest \<Longrightarrow> decodes (reader_read r) v rest"
  using u32_codec.rd_enc [of r v rest] by (simp add: decodes_def)

lemma decodes_u64: "reader_ok r \<Longrightarrow> unread r = to_le_array (v :: u64) @ rest \<Longrightarrow> decodes (reader_read r) v rest"
  using u64_codec.rd_enc [of r v rest] by (simp add: decodes_def)

lemma decodes_bytes:
  "reader_ok r \<Longrightarrow> unread r = a @ rest \<Longrightarrow> n = length a \<Longrightarrow> decodes (reader_read_bytes r n) a rest"
  using reader_read_bytes_ok [of r a rest] by (simp add: decodes_def)

lemmas decodes_intros = decodes_bind decodes_return decodes_u16 decodes_u32 decodes_u64 decodes_bytes

text \<open>What the types of the source guarantee, and that the length cast keeps the name's length.\<close>

definition payload_ok :: "system_payload \<Rightarrow> bool" where
  "payload_ok p = (case p of
       FileMetaMessage m \<Rightarrow> length (fm_sha256 m) = 32 \<and> length (fm_utf8_name m) < 2 ^ 32
     | _ \<Rightarrow> True)"

definition tag_of :: "system_payload \<Rightarrow> u16" where
  "tag_of p = (case p of
       QueueSizeUpdateMessage _ \<Rightarrow> QueueSizeUpdate
     | FileMetaMessage _ \<Rightarrow> FileMeta
     | FilePatchMapMessage _ _ \<Rightarrow> FilePatchMap
     | ControlMessage _ \<Rightarrow> Control)"

definition message_ok :: "system_message \<Rightarrow> bool" where
  "message_ok m \<longleftrightarrow> sm_type m = tag_of (sm_payload m) \<and> payload_ok (sm_payload m)"

lemma decodes_file_meta:
  assumes r: "reader_ok r" and ok: "length (fm_sha256 m) = 32" "length (fm_utf8_name m) < 2 ^ 32"
    and u: "unread r = to_le_array (fm_file_id m) @ to_le_array (of_nat (length (fm_utf8_name m)) :: u32)
              @ bytes_of (fm_utf8_name m) @ to_le_array (fm_original_size_bytes m)
              @ to_le_array (fm_total_patches m) @ fm_sha256 m @ rest"
  shows "decodes (decode_file_meta r) m rest"
proof -
  have n: "unat (of_nat (length (fm_utf8_name m)) :: u32) = length (bytes_of (fm_utf8_name m))"
    using ok by (simp add: unat_of_nat)
  have m: "\<lparr>fm_file_id = fm_file_id m, fm_utf8_name = string_of (bytes_of (fm_utf8_name m)),
             fm_original_size_bytes = fm_original_size_bytes m, fm_total_patches = fm_total_patches m,
             fm_sha256 = fm_sha256 m\<rparr> = m"
    by (cases m) simp
  show ?thesis
    unfolding decode_file_meta_def
    apply (rule decodes_bind, rule decodes_u64 [OF r u], simp only: prod.case)
    apply (rule decodes_bind, erule (1) decodes_u32, simp only: prod.case)
    apply (rule decodes_bind, erule (1) decodes_bytes, rule n, simp only: prod.case)
    apply (rule decodes_bind, erule (1) decodes_u64, simp only: prod.case)
    apply (rule decodes_bind, erule (1) decodes_u32, simp only: prod.case)
    apply (rule decodes_bind, erule (1) decodes_bytes, rule ok(1) [symmetric], simp only: prod.case m)
    apply (erule (1) decodes_return)
    done
qed

lemma decodes_control:
  assumes r: "reader_ok r" and u: "unread r = [byte_of_char (cm_command m)] @ to_le_array (cm_value_seconds m) @ rest"
  shows "decodes (decode_control r) m rest"
proof -
  have m: "\<lparr>cm_command = char_of_byte ([byte_of_char (cm_command m)] ! 0), cm_value_seconds = cm_value_seconds m\<rparr> = m"
    by (cases m) simp
  have one: "1 = length [byte_of_char (cm_command m)]" by simp
  show ?thesis
    unfolding decode_control_def
    apply (rule decodes_bind, rule decodes_bytes [OF r u one], simp only: prod.case)
    apply (rule decodes_bind, erule (1) decodes_u32, simp only: prod.case m)
    apply (erule (1) decodes_return)
    done
qed

lemma decodes_payload:
  assumes r: "reader_ok r" and ok: "payload_ok p" and u: "unread r = encode_payload [] p @ rest"
  shows "decodes (decode_payload (tag_of p) r) p rest"
proof (cases p)
  case (QueueSizeUpdateMessage q)
  then have u: "unread r = to_le_array q @ rest"
    using u by (simp add: encode_payload_def writer_defs)
  show ?thesis
    unfolding QueueSizeUpdateMessage decode_payload_def tag_of_def
    apply (simp add: message_tags)
    apply (rule decodes_bind, rule decodes_u32 [OF r u], simp only: prod.case)
    apply (erule (1) decodes_return)
    done
next
  case (FileMetaMessage m)
  then have "decodes (decode_file_meta r) m rest"
    using u ok by (intro decodes_file_meta [OF r]) (simp_all add: encode_payload_def writer_defs payload_ok_def Let_def)
  then show ?thesis
    unfolding FileMetaMessage decode_payload_def tag_of_def
    apply (simp add: message_tags)
    apply (erule decodes_bind, simp only: prod.case)
    apply (erule (1) decodes_return)
    done
next
  case (FilePatchMapMessage f i)
  then have u: "unread r = to_le_array f @ to_le_array i @ rest"
    using u by (simp add: encode_payload_def writer_defs)
  show ?thesis
    unfolding FilePatchMapMessage decode_payload_def tag_of_def
    apply (simp add: message_tags)
    apply (rule decodes_bind, rule decodes_u64 [OF r u], simp only: prod.case)
    apply (rule decodes_bind, erule (1) decodes_u32, simp only: prod.case)
    apply (erule (1) decodes_return)
    done
next
  case (ControlMessage m)
  then have "decodes (decode_control r) m rest"
    using u by (intro decodes_control [OF r]) (simp add: encode_payload_def writer_defs)
  then show ?thesis
    unfolding ControlMessage decode_payload_def tag_of_def
    apply (simp add: message_tags)
    apply (erule decodes_bind, simp only: prod.case)
    apply (erule (1) decodes_return)
    done
qed

lemma encode_payload_append: "encode_payload w p = w @ encode_payload [] p"
  by (simp add: encode_payload_def writer_defs Let_def split: system_payload.split)

lemma encode_system_message_alt:
  "encode_system_message m = to_le_array (sm_type m) @ encode_payload [] (sm_payload m)"
  unfolding encode_system_message_def
  by (subst encode_payload_append) (simp add: writer_defs)

lemma decode_encode_message:
  assumes ok: "message_ok m" and len: "length (encode_system_message m @ rest) < 2 ^ 63"
  shows "decode_system_message (encode_system_message m @ rest) = Inr m"
proof -
  let ?r = "reader_new (encode_system_message m @ rest)"
  have "reader_ok ?r" "unread ?r = to_le_array (sm_type m) @ encode_payload [] (sm_payload m) @ rest"
    using len by (simp_all add: encode_system_message_alt)
  then obtain r1 where r1: "reader_read ?r = Inr (sm_type m, r1)" "reader_ok r1"
      "unread r1 = encode_payload [] (sm_payload m) @ rest"
    using u16_codec.rd_enc by blast
  have "decodes (decode_payload (tag_of (sm_payload m)) r1) (sm_payload m) rest"
    using ok by (intro decodes_payload [OF r1(2) _ r1(3)]) (simp add: message_ok_def)
  then obtain r2 where r2: "decode_payload (sm_type m) r1 = Inr (sm_payload m, r2)"
    using ok by (auto simp: decodes_def message_ok_def)
  have "\<lparr>sm_type = sm_type m, sm_payload = sm_payload m\<rparr> = m"
    by (cases m) simp
  then show ?thesis
    by (simp add: decode_system_message_def r1 r2)
qed

text \<open>The other direction: what a decoder returns was on the wire in its canonical encoding.\<close>

lemma decode_file_meta_inv:
  assumes r: "reader_ok r" and d: "decode_file_meta r = Inr (m, r')"
  shows "unread r = encode_payload [] (FileMetaMessage m) @ unread r' \<and> reader_ok r'
           \<and> payload_ok (FileMetaMessage m)"
proof -
  from d obtain r1 r2 r3 r4 r5 n where
    1: "reader_read r = Inr (fm_file_id m, r1)" and
    2: "reader_read r1 = Inr (n :: u32, r2)" and
    3: "reader_read_bytes r2 (unat n) = Inr (bytes_of (fm_utf8_name m), r3)" and
    4: "reader_read r3 = Inr (fm_original_size_bytes m, r4)" and
    5: "reader_read r4 = Inr (fm_total_patches m, r5)" and
    6: "reader_read_bytes r5 32 = Inr (fm_sha256 m, r')"
    by (auto simp: decode_file_meta_def bindE_Inr_iff)
  note i1 = u64_codec.rd_inv [OF r 1]
  note i2 = u32_codec.rd_inv [OF conjunct2 [OF i1] 2]
  note i3 = reader_read_bytes_Inr [OF conjunct2 [OF i2] 3]
  note i4 = u64_codec.rd_inv [OF conjunct1 [OF conjunct2 [OF i3]] 4]
  note i5 = u32_codec.rd_inv [OF conjunct2 [OF i4] 5]
  note i6 = reader_read_bytes_Inr [OF conjunct2 [OF i5] 6]
  have n: "length (fm_utf8_name m) = unat n"
    using i3 by simp
  then have "of_nat (length (fm_utf8_name m)) = n" "length (fm_utf8_name m) < 2 ^ 32"
    using unsigned_less [of n, where ?'a = nat] by simp_all
  then show ?thesis
    using i1 i2 i3 i4 i5 i6 by (simp add: encode_payload_def writer_defs Let_def payload_ok_def)
qed

lemma decode_control_inv:
  assumes r: "reader_ok r" and d: "decode_control r = Inr (m, r')"
  shows "unread r = encode_payload [] (ControlMessage m) @ unread r' \<and> reader_ok r'"
proof -
  from d obtain r1 c where
    1: "reader_read_bytes r 1 = Inr (c, r1)" "cm_command m = char_of_byte (c ! 0)" and
    2: "reader_read r1 = Inr (cm_value_seconds m, r')"
    by (auto simp: decode_control_def bindE_Inr_iff)
  note i1 = reader_read_bytes_Inr [OF r 1(1)]
  note i2 = u32_codec.rd_inv [OF conjunct1 [OF conjunct2 [OF i1]] 2]
  have "c = [byte_of_char (cm_command m)]"
    using i1 1(2) by (cases c) auto
  then show ?thesis
    using i1 i2 by (simp add: encode_payload_def writer_defs)
qed

lemma decode_payload_inv:
  assumes r: "reader_ok r" and d: "decode_payload ty r = Inr (p, r')"
  shows "unread r = encode_payload [] p @ unread r' \<and> reader_ok r' \<and> ty = tag_of p \<and> payload_ok p"
proof -
  consider "ty = QueueSizeUpdate" | "ty = FileMeta" | "ty = FilePatchMap" | "ty = Control"
    using d by (auto simp: decode_payload_def split: if_splits)
  then show ?thesis
  proof cases
    case 1
    then obtain q where "p = QueueSizeUpdateMessage q" "reader_read r = Inr (q, r')"
      using d by (auto simp: decode_payload_def bindE_Inr_iff)
    then show ?thesis
      using u32_codec.rd_inv [OF r] 1
      by (auto simp: encode_payload_def writer_defs tag_of_def payload_ok_def)
  next
    case 2
    then obtain m where "p = FileMetaMessage m" "decode_file_meta r = Inr (m, r')"
      using d by (auto simp: decode_payload_def message_tags bindE_Inr_iff)
    then show ?thesis
      using decode_file_meta_inv [OF r] 2 by (auto simp: tag_of_def)
  next
    case 3
    then obtain f i r1 where p: "p = FilePatchMapMessage f i"
      and f: "reader_read r = Inr (f, r1)" and i: "reader_read r1 = Inr (i, r')"
      using d by (auto simp: decode_payload_def message_tags bindE_Inr_iff)
    note i1 = u64_codec.rd_inv [OF r f]
    show ?thesis
      using i1 u32_codec.rd_inv [OF conjunct2 [OF i1] i] 3
      by (simp add: p encode_payload_def writer_defs tag_of_def payload_ok_def)
  next
    case 4
    then obtain m where "p = ControlMessage m" "decode_control r = Inr (m, r')"
      using d by (auto simp: decode_payload_def message_tags bindE_Inr_iff)
    then show ?thesis
      using decode_control_inv [OF r] 4 by (auto simp: tag_of_def payload_ok_def)
  qed
qed

lemma decode_message_inv:
  assumes len: "length d < 2 ^ 63" and d: "decode_system_message d = Inr m"
  shows "message_ok m \<and> (\<exists>rest. d = encode_system_message m @ rest)"
proof -
  from d obtain ty r1 p r2 where
    1: "reader_read (reader_new d) = Inr (ty, r1)" and
    2: "decode_payload ty r1 = Inr (p, r2)" and m: "m = \<lparr>sm_type = ty, sm_payload = p\<rparr>"
    by (auto simp: decode_system_message_def bindE_Inr_iff)
  have r: "reader_ok (reader_new d)" using len by simp
  note i1 = u16_codec.rd_inv [OF r 1]
  note i2 = decode_payload_inv [OF conjunct2 [OF i1] 2]
  show ?thesis
    using i1 i2 by (simp add: m message_ok_def encode_system_message_alt)
qed

section \<open>Properties\<close>

text \<open>C32. Encoding a patch header and decoding it (with whatever follows it) returns the header with
  its CRC field set to the computed CRC, also when the field was stale before.\<close>

theorem patch_header_roundtrip:
  assumes "ph_version h = 1" and "ph_header_size h = 40" and "length rest < 2 ^ 63"
  shows "patch_deserialize (encode_patch_header h @ rest) = Inr (finalize_header_crc h)"
  using assms by (rule patch_deserialize_encode)

theorem patch_header_roundtrip_witness:
  "patch_deserialize (encode_patch_header (patch_header_default\<lparr>ph_file_id := 7, ph_header_crc32 := 1\<rparr>) @ [5])
     = Inr (finalize_header_crc (patch_header_default\<lparr>ph_file_id := 7, ph_header_crc32 := 1\<rparr>))"
  by (rule patch_header_roundtrip) (simp_all add: patch_header_default_def patch_encoded_size_def)

text \<open>A decoded header was on the wire exactly as the encoder writes it: the first 40 bytes are its
  encoding, version and size are the supported ones and the CRC field is the computed CRC.\<close>

theorem patch_deserialize_canonical:
  assumes "length d < 2 ^ 63" and "patch_deserialize d = Inr h"
  shows "take 40 d = encode_patch_header h \<and> ph_version h = 1 \<and> ph_header_size h = 40 \<and>
         ph_header_crc32 h = compute_header_crc32 h"
proof -
  note inv = patch_deserialize_Inr [OF assms]
  have "take 40 d = take 40 (patch_serialize True h @ drop 40 d)"
    using inv by simp
  then have "take 40 d = patch_serialize True h" by simp
  then show ?thesis
    using inv by (auto simp: encode_patch_header_def Let_def patch_validate_def patch_encoded_size_def
        split: if_splits)
qed

theorem patch_deserialize_canonical_witness:
  "take 40 (encode_patch_header patch_header_default) = encode_patch_header (finalize_header_crc patch_header_default)"
proof -
  have "length (encode_patch_header patch_header_default) < 2 ^ 63"
    by (simp add: encode_patch_header_finalizes)
  then show ?thesis
    using patch_deserialize_canonical [OF _ patch_default_decodes] by simp
qed

text \<open>C33. Damage to up to four consecutive bytes of an encoded header of 40 bytes is refused by the decoder when they lie
  all before, all inside or all behind the CRC field (offsets 32 to 35). Across a border of this field it
  is not always refused: see \<open>Header_Damage\<close>.\<close>

theorem patch_header_burst_refused:
  assumes "patch_deserialize (pre @ a @ post) = Inr h" and "length (pre @ a @ post) = 40"
    and "length b = length a" and "length a \<le> 4" and "a \<noteq> b"
    and "length pre + length a \<le> 32 \<or> 32 \<le> length pre \<and> length pre + length a \<le> 36 \<or> 36 \<le> length pre"
  shows "\<not> is_ok (patch_deserialize (pre @ b @ post))"
proof
  assume "is_ok (patch_deserialize (pre @ b @ post))"
  then obtain h' where h': "patch_deserialize (pre @ b @ post) = Inr h'"
    by (auto simp: is_ok_iff)
  have len: "length (pre @ a @ post) < 2 ^ 63" "length (pre @ b @ post) < 2 ^ 63"
    using assms(2,3) by simp_all
  note crc = patch_deserialize_crc [OF len(1) assms(1)] patch_deserialize_crc [OF len(2) h']
  have ab: "length a = length b" "length pre + length a \<le> 40"
    using assms(2,3) by simp_all
  consider "length pre + length a \<le> 32" | "32 \<le> length pre" "length pre + length a \<le> 36" | "36 \<le> length pre"
    using assms(6) by blast
  then show False
  proof cases
    case 1
    then show False
      using burst_before_crc [OF ab(1) assms(4,5) 1, of post] burst_keeps_crc_field [of a b pre post] crc ab
      by (auto dest: u32_codec.enc_inject)
  next
    case 2
    then show False
      using burst_in_crc_field [OF ab(1) 2, of post] burst_changes_crc_field [OF ab(1) assms(5) 2, of post] crc
      by metis
  next
    case 3
    then show False
      using burst_after_crc [OF ab(1) assms(4,5) 3 ab(2), of post] burst_keeps_crc_field [of a b pre post] crc ab
      by (auto dest: u32_codec.enc_inject)
  qed
qed

theorem patch_header_burst_refused_witness:
  "\<not> is_ok (patch_deserialize (bytes_of ''SVP'' @ bytes_of ''2'' @ drop 4 (encode_patch_header patch_header_default)))"
proof -
  let ?e = "encode_patch_header patch_header_default"
  have len: "length ?e = 40"
    by (simp add: encode_patch_header_finalizes)
  have "take 4 ?e = bytes_of ''SVP'' @ bytes_of ''1''"
    by (simp add: encode_patch_header_finalizes patch_serialize_alt patch_magic_def bytes_of_def)
  then have e: "bytes_of ''SVP'' @ bytes_of ''1'' @ drop 4 ?e = ?e"
    by (metis append.assoc append_take_drop_id)
  have "bytes_of ''1'' \<noteq> bytes_of ''2''"
    by (simp add: bytes_of_def byte_of_char_def)
  then show ?thesis
    using patch_header_burst_refused [of "bytes_of ''SVP''" "bytes_of ''1''" "drop 4 ?e" _ "bytes_of ''2''"] patch_default_decodes len
    by (simp add: e)
qed

text \<open>C34. Every system message whose tag fits its payload is decoded back as it was encoded, whatever
  follows it in the buffer.\<close>

theorem system_message_roundtrip:
  assumes "message_ok m" and "length (encode_system_message m @ rest) < 2 ^ 63"
  shows "decode_system_message (encode_system_message m @ rest) = Inr m"
  using assms by (rule decode_encode_message)

theorem system_message_roundtrip_witness:
  "decode_system_message (encode_system_message
      \<lparr>sm_type = FileMeta, sm_payload = FileMetaMessage \<lparr>fm_file_id = 9, fm_utf8_name = ''a.bin'',
         fm_original_size_bytes = 77, fm_total_patches = 3, fm_sha256 = replicate 32 1\<rparr>\<rparr> @ [1, 2])
   = Inr \<lparr>sm_type = FileMeta, sm_payload = FileMetaMessage \<lparr>fm_file_id = 9, fm_utf8_name = ''a.bin'',
         fm_original_size_bytes = 77, fm_total_patches = 3, fm_sha256 = replicate 32 1\<rparr>\<rparr>"
  by (rule system_message_roundtrip)
     (simp_all add: message_ok_def tag_of_def payload_ok_def encode_system_message_alt encode_payload_def
        writer_defs Let_def)

text \<open>Decoding accepts nothing but encodings: a truncated message is always refused, and so is an
  unknown tag.\<close>

theorem truncated_message_refused:
  assumes "message_ok m" and "length (encode_system_message m) < 2 ^ 63"
    and "k < length (encode_system_message m)"
  shows "\<not> is_ok (decode_system_message (take k (encode_system_message m)))"
proof
  let ?d = "take k (encode_system_message m)"
  assume "is_ok (decode_system_message ?d)"
  then obtain m' where m': "decode_system_message ?d = Inr m'"
    by (auto simp: is_ok_iff)
  have "length ?d < 2 ^ 63"
    using assms(2,3) by simp
  then obtain rest where ok': "message_ok m'" and rest: "?d = encode_system_message m' @ rest"
    using decode_message_inv [OF _ m'] by blast
  have e: "encode_system_message m = encode_system_message m' @ rest @ drop k (encode_system_message m)"
    using rest by (metis append.assoc append_take_drop_id)
  have "decode_system_message (encode_system_message m) = Inr m'"
    using decode_encode_message [OF ok', of "rest @ drop k (encode_system_message m)"] assms(2) e by simp
  then have "m' = m"
    using decode_encode_message [OF assms(1), of "[]"] assms(2) by simp
  then have "length (encode_system_message m) \<le> length ?d"
    using rest by simp
  then show False
    using assms(3) by simp
qed

theorem truncated_message_refused_witness:
  "\<not> is_ok (decode_system_message (take 5 (encode_system_message
      \<lparr>sm_type = QueueSizeUpdate, sm_payload = QueueSizeUpdateMessage 5\<rparr>)))"
  by (rule truncated_message_refused)
     (simp_all add: message_ok_def tag_of_def payload_ok_def encode_system_message_alt encode_payload_def
        writer_defs)

end
