(* ===== verification/Header_Damage.thy ===== *)
theory Header_Damage
  imports Wire_Protocol
begin

text \<open>
  The limit of the header checksum of \<^verbatim>\<open>common/protocol.hpp\<close>. The checksum is over the header with its own field
  set to zero, so a change next to the field and a change of the field can cancel: the lemmas show the
  checksum to be linear in the changed bits, and one change of four consecutive bytes that every header lets pass.
\<close>

unbundle bit_operations_syntax

section \<open>Linearity\<close>

lemma crc_byte_xor: "crc_byte (c XOR d) b = crc_byte c b XOR crc_byte d 0"
  by (simp add: crc_byte_def crc_shift_pow_xor [symmetric] ac_simps)

lemma crc_bytes_xor: "foldl crc_byte (c XOR d) bs = foldl crc_byte c bs XOR foldl crc_byte d (replicate (length bs) 0)"
  by (induction bs arbitrary: c d) (simp_all add: crc_byte_xor)

lemma crc_byte_change: "crc_byte c (b XOR x) = crc_byte c b XOR crc_byte 0 x"
  by (simp add: crc_byte_def crc_shift_pow_xor [symmetric] unsigned_xor_eq ac_simps)

section \<open>A change of the payload size\<close>

lemma crc_byte_steps: "crc_byte c b = crc_shift (crc_shift (crc_shift (crc_shift (crc_shift (crc_shift (crc_shift (crc_shift (c XOR ucast b))))))))"
  by (simp add: crc_byte_def eval_nat_numeral)

lemma crc_steps_0x19: "crc_byte 0 0x19 = 0x646ba8c0"
  "crc_byte 0x646ba8c0 0 = 0x9b00a918"
  "crc_byte 0x9b00a918 0 = 0x13f798ff"
  "crc_byte 0x13f798ff 0 = 0x2d111815"
  "crc_byte 0x2d111815 0 = 0x6df0f5f3"
  "crc_byte 0x6df0f5f3 0 = 0x24d95353"
  "crc_byte 0x24d95353 0 = 0xf246d91d"
  "crc_byte 0xf246d91d 0 = 0x63f42a00"
  "crc_byte 0x63f42a00 0 = 0x63f42a"
  by (simp_all add: crc_byte_steps crc_shift_def)

lemma crc_0x19: "foldl crc_byte 0 (0x19 # replicate 8 0) = 0x63F42A"
proof -
  have "replicate 8 (0::byte) = [0,0,0,0,0,0,0,0]" by (simp add: eval_nat_numeral)
  then show ?thesis by (simp add: crc_steps_0x19)
qed

lemma byte_all: "(255 :: byte) = - 1"
  by simp

lemma byte_numerals: "(419430400 :: byte) = 0" "(1638400 :: byte) = 0" "(6400 :: byte) = 0" "(6550570 :: byte) = 42" "(25588 :: byte) = 244"
  by simp_all

lemma le_bytes: "to_le_array (v :: u32) = [ucast v, ucast (drop_bit 8 v), ucast (drop_bit 16 v), ucast (drop_bit 24 v)]"
  by (simp add: to_le_array_def upt_rec unsigned_and_eq byte_all)

lemma le_change:
  "to_le_array (v XOR 0x19000000 :: u32) = [ucast v, ucast (drop_bit 8 v), ucast (drop_bit 16 v), ucast (drop_bit 24 v) XOR 0x19]"
  "to_le_array (v XOR 0x63F42A :: u32) = [ucast v XOR 0x2A, ucast (drop_bit 8 v) XOR 0xF4, ucast (drop_bit 16 v) XOR 0x63, ucast (drop_bit 24 v)]"
  by (simp_all add: le_bytes drop_bit_xor unsigned_xor_eq byte_numerals)

lemma crc_of_changed_size:
  "compute_header_crc32 (h\<lparr>ph_payload_size := ph_payload_size h XOR 0x19000000\<rparr>) = compute_header_crc32 h XOR 0x63F42A"
proof -
  obtain pre where pre: "patch_serialize False h = pre @ ucast (drop_bit 24 (ph_payload_size h)) # ([0, 0, 0, 0] @ to_le_array (ph_payload_crc32 h))"
    "patch_serialize False (h\<lparr>ph_payload_size := ph_payload_size h XOR 0x19000000\<rparr>) =
       pre @ (ucast (drop_bit 24 (ph_payload_size h)) XOR 0x19) # ([0, 0, 0, 0] @ to_le_array (ph_payload_crc32 h))"
    by (simp add: patch_serialize_alt le_change) (simp add: le_bytes)
  let ?post = "[0, 0, 0, 0] @ to_le_array (ph_payload_crc32 h)"
  have "length ?post = 8" by simp
  then have "foldl crc_byte (crc_byte s (b XOR 0x19)) ?post = foldl crc_byte (crc_byte s b) ?post XOR 0x63F42A" for s b
    using crc_0x19 by (simp only: crc_byte_change crc_bytes_xor) simp
  then show ?thesis
    by (simp only: compute_header_crc32_def crc32_bytes pre foldl_append foldl.simps xor.assoc xor.commute [of "0x63F42A"])
qed

section \<open>The change is accepted\<close>

text \<open>A burst over the last byte of the payload size and the first three of the checksum passes: for every header there
  are four other bytes at offset 31 with which the decoder accepts it.\<close>

theorem straddling_burst_accepted:
  assumes "ph_version h = 1" and "ph_header_size h = 40"
  shows "\<exists>pre a b post. encode_patch_header h = pre @ a @ post \<and> length pre = 31 \<and> length a = 4 \<and> length b = 4 \<and>
    a \<noteq> b \<and> is_ok (patch_deserialize (pre @ b @ post))"
proof -
  let ?h = "h\<lparr>ph_payload_size := ph_payload_size h XOR 0x19000000\<rparr>" and ?c = "compute_header_crc32 h"
  let ?post = "ucast (drop_bit 24 ?c) # to_le_array (ph_payload_crc32 h)"
  define pre where "pre = patch_magic @ to_le_array (ph_version h) @ to_le_array (ph_header_size h) @ to_le_array (ph_file_id h)
    @ to_le_array (ph_total_patches h) @ to_le_array (ph_patch_index h)
    @ [ucast (ph_payload_size h), ucast (drop_bit 8 (ph_payload_size h)), ucast (drop_bit 16 (ph_payload_size h))]"
  define a b :: "byte list" where "a = [ucast (drop_bit 24 (ph_payload_size h)), ucast ?c, ucast (drop_bit 8 ?c), ucast (drop_bit 16 ?c)]"
    and "b = [ucast (drop_bit 24 (ph_payload_size h)) XOR 0x19, ucast ?c XOR 0x2A, ucast (drop_bit 8 ?c) XOR 0xF4,
      ucast (drop_bit 16 ?c) XOR (0x63 :: byte)]"
  have "encode_patch_header h = pre @ a @ ?post" "encode_patch_header ?h = pre @ b @ ?post"
    by (simp_all add: encode_patch_header_finalizes finalize_header_crc_def patch_serialize_alt crc_of_changed_size le_change
        pre_def a_def b_def) (simp_all add: le_bytes)
  moreover have "patch_deserialize (encode_patch_header ?h) = Inr (finalize_header_crc ?h)"
    using patch_deserialize_encode [of ?h "[]"] assms by simp
  moreover have "x XOR 0x19 \<noteq> x" for x :: byte
    using xor_left_inject [of x "0x19" 0] by simp
  then have "a \<noteq> b"
    unfolding a_def b_def by (metis list.inject)
  ultimately show ?thesis
    by (intro exI [of _ pre] exI [of _ a] exI [of _ b] exI [of _ ?post]) (simp add: pre_def a_def b_def patch_magic_def)
qed

theorem straddling_burst_accepted_witness:
  "\<exists>pre a b post. encode_patch_header patch_header_default = pre @ a @ post \<and> length a = 4 \<and> length b = 4 \<and> a \<noteq> b \<and>
     is_ok (patch_deserialize (pre @ b @ post))"
  using straddling_burst_accepted [of patch_header_default] by (auto simp: patch_header_default_def patch_encoded_size_def)

end
