(* ===== verification/Posix_Files.thy ===== *)
theory Posix_Files
  imports SV_Prelude
begin

text \<open>
  The part of POSIX and of \<^verbatim>\<open><filesystem>\<close> the server writes its files with, as state passing over
  a world: the contents of the regular files by path, and a script of replies the operating system
  gives to the calls to come (an exhausted script means that every later call succeeds in full).
  Every reply sequence is a possible environment, so a lemma without a premise on the script covers
  failing, interrupted and short calls. Directories are not kept: a missing directory shows as a
  failing \<open>open\<close>. A failing \<open>remove_all\<close> leaves the files as they are.
\<close>

section \<open>Paths\<close>

text \<open>\<open>operator/\<close> of \<open>std::filesystem::path\<close> on POSIX: an absolute right operand replaces the left one.\<close>

definition path_join :: "string \<Rightarrow> string \<Rightarrow> string" where
  "path_join a b =
     (if take 1 b = ''/'' then b
      else if a = [] \<or> last a = CHR ''/'' then a @ b
      else a @ ''/'' @ b)"

lemma path_join_relative:
  "take 1 b \<noteq> ''/'' \<Longrightarrow> a \<noteq> [] \<Longrightarrow> last a \<noteq> CHR ''/'' \<Longrightarrow> path_join a b = a @ ''/'' @ b"
  by (simp add: path_join_def)

lemma path_join_absolute: "take 1 b = ''/'' \<Longrightarrow> path_join a b = b"
  by (simp add: path_join_def)

section \<open>The world\<close>

datatype reply =
    ROk          \<comment> \<open>the call succeeds (a write takes everything)\<close>
  | RShort nat   \<comment> \<open>a write takes at most this many bytes\<close>
  | RIntr        \<comment> \<open>the call fails with \<open>EINTR\<close>\<close>
  | RErr         \<comment> \<open>the call fails with another error\<close>

record world =
  w_files :: "string \<rightharpoonup> byte list"
  w_replies :: "reply list"

fun next_reply :: "world \<Rightarrow> reply \<times> world" where
  "next_reply w = (case w_replies w of [] \<Rightarrow> (ROk, w) | r # rs \<Rightarrow> (r, w\<lparr>w_replies := rs\<rparr>))"

definition reply_fails :: "reply \<Rightarrow> bool" where
  "reply_fails r \<longleftrightarrow> r = RErr \<or> r = RIntr"

text \<open>A world whose script has no failing call.\<close>

definition no_faults :: "world \<Rightarrow> bool" where
  "no_faults w \<longleftrightarrow> (\<forall>r \<in> set (w_replies w). \<not> reply_fails r)"

section \<open>System calls\<close>

text \<open>\<open>open(path, O_WRONLY | O_CREAT | O_TRUNC)\<close>; the descriptor is the path.\<close>

definition sys_open :: "string \<Rightarrow> world \<Rightarrow> bool \<times> world" where
  "sys_open p w =
     (let (r, w) = next_reply w
      in if reply_fails r then (False, w) else (True, w\<lparr>w_files := (w_files w)(p \<mapsto> [])\<rparr>))"

datatype write_result = WErr | WIntr | WDone nat

definition append_file :: "string \<Rightarrow> byte list \<Rightarrow> world \<Rightarrow> world" where
  "append_file p d w =
     w\<lparr>w_files := (w_files w)(p \<mapsto> (case w_files w p of None \<Rightarrow> [] | Some c \<Rightarrow> c) @ d)\<rparr>"

definition sys_write :: "string \<Rightarrow> byte list \<Rightarrow> world \<Rightarrow> write_result \<times> world" where
  "sys_write p d w =
     (let (r, w) = next_reply w
      in case r of
           RErr \<Rightarrow> (WErr, w)
         | RIntr \<Rightarrow> (WIntr, w)
         | RShort n \<Rightarrow> (WDone (min n (length d)), append_file p (take n d) w)
         | ROk \<Rightarrow> (WDone (length d), append_file p d w))"

definition sys_fsync :: "string \<Rightarrow> world \<Rightarrow> bool \<times> world" where
  "sys_fsync p w = (let (r, w) = next_reply w in (\<not> reply_fails r, w))"

definition sys_unlink :: "string \<Rightarrow> world \<Rightarrow> world" where
  "sys_unlink p w = w\<lparr>w_files := (w_files w)(p := None)\<rparr>"

text \<open>The calls of \<^verbatim>\<open><filesystem>\<close> with an error code; \<open>True\<close> means that the code is clear.\<close>

definition fs_create_directories :: "string \<Rightarrow> world \<Rightarrow> bool \<times> world" where
  "fs_create_directories p w = (let (r, w) = next_reply w in (\<not> reply_fails r, w))"

definition fs_rename :: "string \<Rightarrow> string \<Rightarrow> world \<Rightarrow> bool \<times> world" where
  "fs_rename a b w =
     (let (r, w) = next_reply w
      in if reply_fails r then (False, w)
         else case w_files w a of
                None \<Rightarrow> (False, w)
              | Some c \<Rightarrow> (True, w\<lparr>w_files := (w_files w)(a := None, b \<mapsto> c)\<rparr>))"

definition below :: "string \<Rightarrow> string \<Rightarrow> bool" where
  "below dir p \<longleftrightarrow> p = dir \<or> prefix (dir @ ''/'') p"

definition fs_remove_all :: "string \<Rightarrow> world \<Rightarrow> bool \<times> world" where
  "fs_remove_all dir w =
     (let (r, w) = next_reply w
      in if reply_fails r then (False, w)
         else (True, w\<lparr>w_files := (\<lambda>p. if below dir p then None else w_files w p)\<rparr>))"

definition fs_remove :: "string \<Rightarrow> world \<Rightarrow> bool \<times> world" where
  "fs_remove p w =
     (let (r, w) = next_reply w
      in if reply_fails r then (False, w) else (True, sys_unlink p w))"

text \<open>\<open>std::ifstream in(path)\<close> with the whole content read through it.\<close>

definition fs_read_file :: "string \<Rightarrow> world \<Rightarrow> byte list option \<times> world" where
  "fs_read_file p w = (let (r, w) = next_reply w in (if reply_fails r then None else w_files w p, w))"

lemmas sys_defs = sys_open_def sys_write_def sys_fsync_def sys_unlink_def fs_create_directories_def
  fs_rename_def fs_remove_all_def fs_remove_def fs_read_file_def append_file_def

lemma next_reply_files: "next_reply w = (r, w') \<Longrightarrow> w_files w' = w_files w"
  by (auto split: list.splits)

lemma next_reply_no_faults: "no_faults w \<Longrightarrow> next_reply w = (r, w') \<Longrightarrow> \<not> reply_fails r \<and> no_faults w'"
  by (auto simp: no_faults_def reply_fails_def split: list.splits)

lemma next_reply_length: "next_reply w = (r, w') \<Longrightarrow> length (w_replies w') \<le> length (w_replies w)"
  by (auto split: list.splits)

lemma no_faults_files [simp]: "no_faults (w\<lparr>w_files := f\<rparr>) = no_faults w"
  by (simp add: no_faults_def)

lemma next_reply_files_update [simp]:
  "next_reply (w\<lparr>w_files := f\<rparr>) = (fst (next_reply w), (snd (next_reply w))\<lparr>w_files := f\<rparr>)"
  by (simp split: list.split)

lemma next_reply_snd [simp]: "w_files (snd (next_reply w)) = w_files w"
  by (simp split: list.split)

lemma next_reply_snd_ok [simp]: "no_faults w \<Longrightarrow> no_faults (snd (next_reply w))"
  by (auto simp: no_faults_def split: list.split)

lemma next_reply_fst_ok [simp]: "no_faults w \<Longrightarrow> \<not> reply_fails (fst (next_reply w))"
  by (auto simp: no_faults_def reply_fails_def split: list.split)

declare next_reply.simps [simp del]

section \<open>Loops that write a whole buffer\<close>

text \<open>
  The contract of a loop that calls \<open>write\<close> until a buffer is out: it appends a prefix of the
  buffer to the file and touches no other file; \<open>True\<close> means that the whole buffer went out; and
  it fails for no other reason than a failing call.
\<close>

locale write_loop_contract =
  fixes loop :: "string \<Rightarrow> byte list \<Rightarrow> world \<Rightarrow> bool \<times> world"
  assumes writes_prefix:
      "w_files w p = Some c \<Longrightarrow> loop p d w = (ok, w') \<Longrightarrow>
         \<exists>d1 d2. d = d1 @ d2 \<and> w_files w' = (w_files w)(p \<mapsto> c @ d1) \<and> (ok \<longrightarrow> d2 = [])"
    and succeeds: "RErr \<notin> set (w_replies w) \<Longrightarrow> fst (loop p d w)"
    and replies_kept: "set (w_replies (snd (loop p d w))) \<subseteq> set (w_replies w)"
begin

lemma writes_all:
  "w_files w p = Some c \<Longrightarrow> loop p d w = (True, w') \<Longrightarrow> w_files w' = (w_files w)(p \<mapsto> c @ d)"
  using writes_prefix [of w p c d True w'] by auto

lemma only_this_file:
  "w_files w p = Some c \<Longrightarrow> loop p d w = (ok, w') \<Longrightarrow> q \<noteq> p \<Longrightarrow> w_files w' q = w_files w q"
  using writes_prefix [of w p c d ok w'] by auto

lemma no_faults_loop:
  assumes "no_faults w" and "w_files w p = Some c"
  shows "\<exists>w'. loop p d w = (True, w') \<and> no_faults w' \<and> w_files w' = (w_files w)(p \<mapsto> c @ d)"
proof -
  obtain ok w' where l: "loop p d w = (ok, w')" by fastforce
  have "RErr \<notin> set (w_replies w)"
    using assms(1) by (auto simp: no_faults_def reply_fails_def)
  then have ok: "ok"
    using succeeds [of w p d] l by simp
  have "no_faults w'"
    using replies_kept [of p d w] l assms(1) by (auto simp: no_faults_def)
  then show ?thesis
    using l ok writes_all [OF assms(2), of d w'] by simp
qed

end

end
