(* ===== verification/Storage.thy ===== *)
theory Storage
  imports Checksum Posix_Files
begin

text \<open>
  \<^verbatim>\<open>Server/src/storage.hpp\<close>: the store of received patches. The class state is the record \<open>storage\<close>
  (the unordered map is an association list, one of its possible iteration orders), the disk is the
  world of the POSIX theory, the clock is an argument in nanoseconds. \<open>resize_limit\<close> is the largest
  vector the allocator can provide: growing beyond it throws. The lemmas show the atomicity of the
  file writer, the class invariant, and that storing refines the update of a map from file and
  index to payload under every sequence of operating system replies.
\<close>

section \<open>Data\<close>

record chunk_data =
  ck_file_id :: string
  ck_original_name :: string
  ck_index :: nat
  ck_total_chunks :: nat
  ck_ttl :: int
  ck_header_bytes :: "byte list"
  ck_payload :: "byte list"
  ck_header_crc :: u32
  ck_payload_crc :: u32

record payload_record =
  pr_file_id :: string
  pr_original_name :: string
  pr_total_chunks :: nat
  pr_patches_dir :: string
  pr_files_dir :: string
  pr_chunk_files :: "string list"

record payload_entry =
  pe_record :: payload_record
  pe_received :: "nat set"
  pe_last_update :: int
  pe_ttl :: int
  pe_state :: string

record storage =
  st_root :: string
  st_patches_dir :: string
  st_files_dir :: string
  st_payloads :: "(string \<times> payload_entry) list"
  st_default_ttl :: int

definition storage_new :: "string \<Rightarrow> int \<Rightarrow> world \<Rightarrow> storage \<times> world" where
  "storage_new root default_ttl w =
     (let patches = path_join root ''patches''; files = path_join root ''files'';
          (_, w) = fs_create_directories patches w;
          (_, w) = fs_create_directories files w
      in (\<lparr>st_root = root, st_patches_dir = patches, st_files_dir = files, st_payloads = [],
           st_default_ttl = default_ttl\<rparr>, w))"

definition default_record :: payload_record where
  "default_record = \<lparr>pr_file_id = [], pr_original_name = [], pr_total_chunks = 0, pr_patches_dir = [],
                     pr_files_dir = [], pr_chunk_files = []\<rparr>"

definition default_entry :: payload_entry where
  "default_entry = \<lparr>pe_record = default_record, pe_received = {}, pe_last_update = 0, pe_ttl = 0,
                    pe_state = ''partial''\<rparr>"

section \<open>Writing files\<close>

definition patch_file_name :: "nat \<Rightarrow> string" where
  "patch_file_name index = ''patch_'' @ show_nat index @ ''.bin''"

definition verify_crc :: "chunk_data \<Rightarrow> bool" where
  "verify_crc c \<longleftrightarrow>
     storage_crc32 (ck_header_bytes c) = ck_header_crc c \<and> storage_crc32 (ck_payload c) = ck_payload_crc c"

text \<open>The loop around \<open>write\<close>; \<open>data\<close> is what remains of the buffer.\<close>

function write_loop :: "string \<Rightarrow> byte list \<Rightarrow> world \<Rightarrow> bool \<times> world" where
  "write_loop fd data w =
     (if data = [] then (True, w)
      else case sys_write fd data w of
             (WErr, w) \<Rightarrow> (False, w)
           | (WIntr, w) \<Rightarrow> write_loop fd data w
           | (WDone written, w) \<Rightarrow> write_loop fd (drop written data) w)"
  by pat_completeness auto
termination
  by (relation "measure (\<lambda>(fd, data, w). length data + length (w_replies w))")
     (auto simp: sys_write_def append_file_def next_reply.simps neq_Nil_conv
       split: list.splits reply.splits prod.splits)

declare write_loop.simps [simp del]

definition write_binary_file :: "string \<Rightarrow> byte list \<Rightarrow> world \<Rightarrow> bool \<times> world" where
  "write_binary_file path data w =
     (let tmp_path = path @ ''.tmp''; (fd, w) = sys_open tmp_path w
      in if \<not> fd then (False, w)
         else let (written, w) = write_loop tmp_path data w
         in if \<not> written then (False, sys_unlink tmp_path w)
            else let (synced, w) = sys_fsync tmp_path w
            in if \<not> synced then (False, sys_unlink tmp_path w)
               else fs_rename tmp_path path w)"

text \<open>\<open>duration_cast\<close> from nanoseconds to seconds truncates towards zero.\<close>

definition ns_to_seconds :: "int \<Rightarrow> int" where
  "ns_to_seconds n = (if n < 0 then - ((- n) div 1000000000) else n div 1000000000)"

definition manifest_line :: "payload_record \<Rightarrow> payload_entry \<Rightarrow> string" where
  "manifest_line r e =
     pr_file_id r @ '','' @ pr_original_name r @ '','' @ show_int (ns_to_seconds (pe_last_update e))
     @ '','' @ show_int (pe_ttl e) @ '','' @ pe_state e @ [newline]"

definition persist_manifest :: "payload_record \<Rightarrow> payload_entry \<Rightarrow> world \<Rightarrow> world" where
  "persist_manifest r e w =
     (let manifest_path = path_join (pr_patches_dir r) ''ids.list'';
          tmp_path = manifest_path @ ''.tmp'';
          (fd, w) = sys_open tmp_path w
      in if \<not> fd then w
         else let (written, w) = write_loop tmp_path (bytes_of (manifest_line r e)) w
         in if \<not> written then sys_unlink tmp_path w
            else let (synced, w) = sys_fsync tmp_path w
            in if \<not> synced then sys_unlink tmp_path w
               else snd (fs_rename tmp_path manifest_path w))"

section \<open>Operations\<close>

definition entry_complete :: "payload_entry \<Rightarrow> bool" where
  "entry_complete e \<longleftrightarrow> card (pe_received e) = pr_total_chunks (pe_record e)"

text \<open>The entry after \<open>operator[]\<close> and the initialisation of a record without chunk files.\<close>

definition entry_for :: "storage \<Rightarrow> chunk_data \<Rightarrow> string \<Rightarrow> payload_entry" where
  "entry_for s c manifest_dir =
     (let e = (case map_of (st_payloads s) (ck_file_id c) of None \<Rightarrow> default_entry | Some e \<Rightarrow> e)
      in if pr_chunk_files (pe_record e) = []
         then e\<lparr>pe_record := (pe_record e)\<lparr>pr_file_id := ck_file_id c, pr_original_name := ck_original_name c,
                  pr_total_chunks := ck_total_chunks c, pr_patches_dir := manifest_dir,
                  pr_files_dir := st_files_dir s\<rparr>\<rparr>
         else e)"

definition grow :: "nat \<Rightarrow> string list \<Rightarrow> string list" where
  "grow n xs = xs @ replicate (n - length xs) []"

definition store_chunk ::
    "nat \<Rightarrow> int \<Rightarrow> chunk_data \<Rightarrow> storage \<Rightarrow> world \<Rightarrow> payload_record option res \<times> storage \<times> world" where
  "store_chunk resize_limit now c s w =
     (if \<not> verify_crc c then (Inr None, s, w)
      else
        let manifest_dir = path_join (st_patches_dir s) (ck_file_id c);
            (made, w) = fs_create_directories manifest_dir w
        in if \<not> made then (Inr None, s, w)
        else
          let patch_path = path_join manifest_dir (patch_file_name (ck_index c));
              (stored, w) = write_binary_file patch_path (ck_payload c) w
          in if \<not> stored then (Inr None, s, w)
          else
            let e = entry_for s c manifest_dir;
                n = max (length (pr_chunk_files (pe_record e))) (ck_total_chunks c)
            in if n > resize_limit then (Inl BadAlloc, s\<lparr>st_payloads := al_set (ck_file_id c) e (st_payloads s)\<rparr>, w)
            else if ck_index c \<ge> n then (Inl (UB ''chunk_files[index] out of range''), s, w)
            else
              let files = (grow n (pr_chunk_files (pe_record e)))[ck_index c := patch_path];
                  e = e\<lparr>pe_record := (pe_record e)\<lparr>pr_chunk_files := files\<rparr>,
                        pe_received := insert (ck_index c) (pe_received e),
                        pe_last_update := now,
                        pe_ttl := (if ck_ttl c > 0 then ck_ttl c else st_default_ttl s)\<rparr>;
                  e = e\<lparr>pe_state := (if entry_complete e then ''complete'' else ''partial'')\<rparr>;
                  w = persist_manifest (pe_record e) e w
              in (Inr (if entry_complete e then Some (pe_record e) else None),
                  s\<lparr>st_payloads := al_set (ck_file_id c) e (st_payloads s)\<rparr>, w))"

definition mark_published :: "string \<Rightarrow> storage \<Rightarrow> storage" where
  "mark_published file_id s = s\<lparr>st_payloads := al_erase file_id (st_payloads s)\<rparr>"

definition ready_payloads :: "storage \<Rightarrow> payload_record list" where
  "ready_payloads s = map (\<lambda>(_, e). pe_record e) (filter (\<lambda>(_, e). entry_complete e) (st_payloads s))"

definition update_ttl :: "int \<Rightarrow> storage \<Rightarrow> world \<Rightarrow> storage \<times> world" where
  "update_ttl new_ttl s w =
     (let payloads = map (\<lambda>(id, e). (id, e\<lparr>pe_ttl := new_ttl\<rparr>)) (st_payloads s)
      in (s\<lparr>st_default_ttl := new_ttl, st_payloads := payloads\<rparr>,
          fold (\<lambda>(_, e). persist_manifest (pe_record e) e) payloads w))"

text \<open>
  The comparison \<open>age > ttl\<close> converts the seconds to nanoseconds in 64 bits. A product that does not
  fit (formally undefined) is written as the wrapped value the multiplication instruction leaves.
\<close>

definition wrap64 :: "int \<Rightarrow> int" where
  "wrap64 i = (i + 2 ^ 63) mod 2 ^ 64 - 2 ^ 63"

definition expired :: "int \<Rightarrow> payload_entry \<Rightarrow> bool" where
  "expired now e \<longleftrightarrow> now - pe_last_update e > wrap64 (pe_ttl e * 1000000000)"

fun cleanup_loop :: "int \<Rightarrow> (string \<times> payload_entry) list \<Rightarrow> world \<Rightarrow> (string \<times> payload_entry) list \<times> world" where
  "cleanup_loop now [] w = ([], w)"
| "cleanup_loop now ((fid, e) # rest) w =
     (if expired now e
      then let (_, w) = fs_remove_all (pr_patches_dir (pe_record e)) w in cleanup_loop now rest w
      else let (kept, w) = cleanup_loop now rest w in ((fid, e) # kept, w))"

definition cleanup_expired :: "int \<Rightarrow> storage \<Rightarrow> world \<Rightarrow> storage \<times> world" where
  "cleanup_expired now s w =
     (let (kept, w) = cleanup_loop now (st_payloads s) w in (s\<lparr>st_payloads := kept\<rparr>, w))"

section \<open>The write loop meets its contract\<close>

lemma sys_write_cases:
  assumes "sys_write p d w = (r, w')"
  shows "(r = WErr \<or> r = WIntr) \<and> w_files w' = w_files w \<or>
         (\<exists>n. r = WDone n \<and> w_files w' = w_files (append_file p (take n d) w) \<and> n \<le> length d)"
  using assms
  by (auto simp: sys_write_def append_file_def min_def split: prod.splits reply.splits dest!: next_reply_files)

lemma sys_write_replies:
  assumes "sys_write p d w = (r, w')"
  shows "set (w_replies w') \<subseteq> set (w_replies w)" and "r = WErr \<Longrightarrow> RErr \<in> set (w_replies w)"
  using assms
  by (auto simp: sys_write_def append_file_def next_reply.simps split: prod.splits reply.splits list.splits)

lemma write_loop_prefix:
  "w_files w p = Some c \<Longrightarrow> write_loop p d w = (ok, w') \<Longrightarrow>
     \<exists>d1 d2. d = d1 @ d2 \<and> w_files w' = (w_files w)(p \<mapsto> c @ d1) \<and> (ok \<longrightarrow> d2 = [])"
proof (induction p d w arbitrary: c rule: write_loop.induct)
  case (1 p d w)
  show ?case
  proof (cases "d = []")
    case True
    then show ?thesis
      using "1.prems" by (subst (asm) write_loop.simps) (auto simp: map_upd_triv)
  next
    case False
    obtain r w1 where sw: "sys_write p d w = (r, w1)" by fastforce
    show ?thesis
    proof (cases r)
      case WErr
      then have "w_files w' = w_files w" "\<not> ok"
        using "1.prems"(2) sys_write_cases [OF sw] False sw
        by (subst (asm) write_loop.simps, simp)+
      then show ?thesis
        using "1.prems"(1) by (intro exI [of _ "[]"] exI [of _ d]) (simp add: map_upd_triv)
    next
      case WIntr
      then have "write_loop p d w1 = (ok, w')" "w_files w1 = w_files w"
        using "1.prems"(2) sys_write_cases [OF sw] False sw
        by (subst (asm) write_loop.simps, simp)+
      then show ?thesis
        using "1.IH"(1) [OF False sw [symmetric] WIntr, of c] "1.prems" by simp
    next
      case (WDone n)
      then have w1: "w_files w1 = (w_files w)(p \<mapsto> c @ take n d)" and n: "n \<le> length d"
        using sys_write_cases [OF sw] "1.prems"(1) by (auto simp: append_file_def)
      have "write_loop p (drop n d) w1 = (ok, w')"
        using "1.prems"(2) WDone False sw by (subst (asm) write_loop.simps) simp
      moreover have "w_files w1 p = Some (c @ take n d)"
        by (simp add: w1)
      ultimately obtain d1 d2 where d: "drop n d = d1 @ d2"
        and w': "w_files w' = (w_files w1)(p \<mapsto> (c @ take n d) @ d1)" "ok \<longrightarrow> d2 = []"
        using "1.IH"(2) [OF False sw [symmetric] WDone, of "c @ take n d"] by blast
      have "d = (take n d @ d1) @ d2"
        using append_take_drop_id [of n d] unfolding d by simp
      moreover have "w_files w' = (w_files w)(p \<mapsto> c @ (take n d @ d1))"
        unfolding w'(1) w1 by simp
      ultimately show ?thesis
        using w'(2) by blast
    qed
  qed
qed

lemma write_loop_succeeds: "RErr \<notin> set (w_replies w) \<Longrightarrow> fst (write_loop p d w)"
proof (induction p d w rule: write_loop.induct)
  case (1 p d w)
  obtain r w1 where sw: "sys_write p d w = (r, w1)" by fastforce
  have "RErr \<notin> set (w_replies w1)" "r \<noteq> WErr"
    using sys_write_replies [OF sw] "1.prems" by auto
  then show ?case
    using "1.IH" [OF _ sw [symmetric]] sw by (subst write_loop.simps) (cases r; simp)
qed

lemma write_loop_replies: "set (w_replies (snd (write_loop p d w))) \<subseteq> set (w_replies w)"
proof (induction p d w rule: write_loop.induct)
  case (1 p d w)
  obtain r w1 where sw: "sys_write p d w = (r, w1)" by fastforce
  then show ?case
    using "1.IH" [OF _ sw [symmetric]] sys_write_replies(1) [OF sw]
    by (subst write_loop.simps) (cases r; auto)
qed

interpretation storage_write: write_loop_contract write_loop
  by unfold_locales (fact write_loop_prefix write_loop_succeeds write_loop_replies)+

section \<open>The file writer is atomic\<close>

lemma sys_open_ok:
  "sys_open p w = (ok, w') \<Longrightarrow> w_files w' = (if ok then (w_files w)(p \<mapsto> []) else w_files w)"
  by (auto simp: sys_open_def split: prod.splits if_splits dest!: next_reply_files)

lemma sys_fsync_files: "sys_fsync p w = (ok, w') \<Longrightarrow> w_files w' = w_files w"
  by (auto simp: sys_fsync_def split: prod.splits dest!: next_reply_files)

lemma fs_rename_cases:
  "fs_rename a b w = (ok, w') \<Longrightarrow>
     (if ok then \<exists>c. w_files w a = Some c \<and> w_files w' = (w_files w)(a := None, b \<mapsto> c)
      else w_files w' = w_files w)"
  by (auto simp: fs_rename_def split: prod.splits if_splits option.splits dest!: next_reply_files)

lemma fs_create_directories_files: "fs_create_directories p w = (ok, w') \<Longrightarrow> w_files w' = w_files w"
  by (auto simp: fs_create_directories_def split: prod.splits dest!: next_reply_files)

text \<open>What one pass of \<open>open\<close>, write loop, \<open>fsync\<close> and \<open>rename\<close> does to the files.\<close>

lemma write_binary_file_files:
  assumes "write_binary_file path data w = (ok, w')"
  shows "(ok \<longrightarrow> w_files w' = (w_files w)(path @ ''.tmp'' := None, path \<mapsto> data)) \<and>
         (\<not> ok \<longrightarrow> (\<forall>q. q \<noteq> path @ ''.tmp'' \<longrightarrow> w_files w' q = w_files w q))"
proof -
  let ?t = "path @ ''.tmp''"
  obtain fd w1 where o: "sys_open ?t w = (fd, w1)" by fastforce
  obtain wr w2 where l: "write_loop ?t data w1 = (wr, w2)" by fastforce
  obtain sy w3 where f: "sys_fsync ?t w2 = (sy, w3)" by fastforce
  obtain rn w4 where r: "fs_rename ?t path w3 = (rn, w4)" by fastforce
  note w1 = sys_open_ok [OF o] and w3 = sys_fsync_files [OF f] and w4 = fs_rename_cases [OF r]
  have w2: "\<exists>d1. w_files w2 = (w_files w)(?t \<mapsto> d1) \<and> (wr \<longrightarrow> d1 = data)" if "fd"
    using storage_write.writes_prefix [of w1 ?t "[]" data wr w2] l w1 that by auto
  have "(ok, w') = (if \<not> fd then (False, w1) else if \<not> wr then (False, sys_unlink ?t w2)
      else if \<not> sy then (False, sys_unlink ?t w3) else (rn, w4))"
    using assms by (simp add: write_binary_file_def Let_def o l f r split: if_splits)
  moreover have "rn \<Longrightarrow> fd \<Longrightarrow> wr \<Longrightarrow> w_files w4 = (w_files w)(?t := None, path \<mapsto> data)"
    using w2 w3 w4 by auto
  moreover have "\<not> rn \<Longrightarrow> fd \<Longrightarrow> q \<noteq> ?t \<Longrightarrow> w_files w4 q = w_files w q" for q
    using w2 w3 w4 by auto
  moreover have "fd \<Longrightarrow> q \<noteq> ?t \<Longrightarrow> w_files w2 q = w_files w q \<and> w_files w3 q = w_files w q" for q
    using w2 w3 by auto
  ultimately show ?thesis
    using w1 by (simp add: sys_unlink_def split: if_splits)
qed

lemma persist_manifest_files:
  "q \<noteq> path_join (pr_patches_dir r) ''ids.list'' \<Longrightarrow>
   q \<noteq> path_join (pr_patches_dir r) ''ids.list'' @ ''.tmp'' \<Longrightarrow>
   w_files (persist_manifest r e w) q = w_files w q"
proof -
  assume q: "q \<noteq> path_join (pr_patches_dir r) ''ids.list''"
    "q \<noteq> path_join (pr_patches_dir r) ''ids.list'' @ ''.tmp''"
  let ?m = "path_join (pr_patches_dir r) ''ids.list''"
  have eq: "persist_manifest r e w = snd (write_binary_file ?m (bytes_of (manifest_line r e)) w)"
    by (simp add: persist_manifest_def write_binary_file_def Let_def split: prod.split)
  obtain ok w' where wb: "write_binary_file ?m (bytes_of (manifest_line r e)) w = (ok, w')" by fastforce
  show ?thesis
    using write_binary_file_files [OF wb] q by (cases ok) (auto simp: eq wb)
qed

section \<open>Where the patches of a file are\<close>

text \<open>
  A file id that is one ordinary path component. Other ids (empty, with a slash, \<open>.\<close> or \<open>..\<close>) leave
  the patches directory or collide with another id; the code does not check for them.
\<close>

definition plain_id :: "string \<Rightarrow> bool" where
  "plain_id fid \<longleftrightarrow> fid \<noteq> [] \<and> CHR ''/'' \<notin> set fid \<and> fid \<noteq> ''.'' \<and> fid \<noteq> ''..''"

definition dirs_ok :: "storage \<Rightarrow> bool" where
  "dirs_ok s \<longleftrightarrow> st_patches_dir s \<noteq> [] \<and> last (st_patches_dir s) \<noteq> CHR ''/''"

definition patch_path :: "storage \<Rightarrow> string \<Rightarrow> nat \<Rightarrow> string" where
  "patch_path s fid i = path_join (path_join (st_patches_dir s) fid) (patch_file_name i)"

lemma plain_id_join:
  assumes "dirs_ok s" and "plain_id fid"
  shows "path_join (st_patches_dir s) fid = st_patches_dir s @ ''/'' @ fid"
    and "path_join (st_patches_dir s @ CHR ''/'' # fid) (c # b) =
           (if c = CHR ''/'' then c # b else st_patches_dir s @ ''/'' @ fid @ ''/'' @ c # b)"
proof -
  have "take 1 fid \<noteq> ''/''" "last fid \<noteq> CHR ''/''"
    using assms(2) by (auto simp: plain_id_def dest!: last_in_set arg_cong [where f = set] intro: in_set_takeD)
  with assms show "path_join (st_patches_dir s) fid = st_patches_dir s @ ''/'' @ fid"
    and "path_join (st_patches_dir s @ CHR ''/'' # fid) (c # b) =
           (if c = CHR ''/'' then c # b else st_patches_dir s @ ''/'' @ fid @ ''/'' @ c # b)"
    by (auto simp: path_join_def dirs_ok_def plain_id_def)
qed

lemma patch_path_plain:
  "dirs_ok s \<Longrightarrow> plain_id fid \<Longrightarrow>
     patch_path s fid i = (st_patches_dir s @ ''/'') @ fid @ CHR ''/'' # ''patch_'' @ show_nat i @ ''.bin''"
  by (simp add: patch_path_def patch_file_name_def plain_id_join)

lemma append_slash_inject:
  "CHR ''/'' \<notin> set a \<Longrightarrow> CHR ''/'' \<notin> set b \<Longrightarrow>
     a @ CHR ''/'' # x = b @ CHR ''/'' # y \<longleftrightarrow> a = b \<and> x = y"
  by (metis append_same_eq break_at_append list.inject option.inject prod.inject)

lemma patch_path_inject:
  assumes "dirs_ok s" and "plain_id f" and "plain_id g"
  shows "patch_path s f i = patch_path s g j \<longleftrightarrow> f = g \<and> i = j"
  using assms by (auto simp: patch_path_plain append_slash_inject plain_id_def)

lemma patch_path_not_tmp: "dirs_ok s \<Longrightarrow> plain_id f \<Longrightarrow> patch_path s f i \<noteq> q @ ''.tmp''"
  by (auto simp: patch_path_plain dest!: arg_cong [where f = last])

lemma patch_path_not_list:
  "dirs_ok s \<Longrightarrow> plain_id f \<Longrightarrow> plain_id g \<Longrightarrow>
     patch_path s f i \<noteq> path_join (path_join (st_patches_dir s) g) ''ids.list''"
  by (auto simp: patch_path_plain plain_id_join append_slash_inject plain_id_def)

lemma patch_path_nonempty: "patch_path s f i \<noteq> []"
  by (simp add: patch_path_def path_join_def patch_file_name_def)

section \<open>The class invariant\<close>

definition entry_ok :: "storage \<Rightarrow> string \<Rightarrow> payload_entry \<Rightarrow> bool" where [inv_defs]:
  "entry_ok s fid e \<longleftrightarrow>
     plain_id fid \<and> pr_file_id (pe_record e) = fid \<and>
     pr_patches_dir (pe_record e) = path_join (st_patches_dir s) fid \<and>
     (\<forall>i \<in> pe_received e. i < length (pr_chunk_files (pe_record e)) \<and>
        pr_chunk_files (pe_record e) ! i = patch_path s fid i) \<and>
     (\<forall>i < length (pr_chunk_files (pe_record e)). i \<notin> pe_received e \<longrightarrow>
        pr_chunk_files (pe_record e) ! i = []) \<and>
     (pr_chunk_files (pe_record e) \<noteq> [] \<longrightarrow>
        pe_state e = (if entry_complete e then ''complete'' else ''partial''))"

definition storage_ok :: "storage \<Rightarrow> bool" where [inv_defs]:
  "storage_ok s \<longleftrightarrow>
     dirs_ok s \<and> al_ok (st_payloads s) \<and>
     (\<forall>fid e. map_of (st_payloads s) fid = Some e \<longrightarrow> entry_ok s fid e)"

text \<open>The abstraction: what the store holds for a file and an index.\<close>

definition stored :: "storage \<Rightarrow> world \<Rightarrow> string \<Rightarrow> nat \<Rightarrow> byte list option" where
  "stored s w fid i =
     (case map_of (st_payloads s) fid of
        None \<Rightarrow> None
      | Some e \<Rightarrow> if i \<in> pe_received e then w_files w (pr_chunk_files (pe_record e) ! i) else None)"

definition stored_update ::
    "(string \<Rightarrow> nat \<Rightarrow> byte list option) \<Rightarrow> string \<Rightarrow> nat \<Rightarrow> byte list \<Rightarrow> string \<Rightarrow> nat \<Rightarrow> byte list option" where
  "stored_update f fid i d = f(fid := (f fid)(i \<mapsto> d))"

lemma stored_path:
  "storage_ok s \<Longrightarrow> stored s w fid i =
     (case map_of (st_payloads s) fid of
        None \<Rightarrow> None
      | Some e \<Rightarrow> if i \<in> pe_received e then w_files w (patch_path s fid i) else None)"
  by (auto simp: stored_def storage_ok_def entry_ok_def split: option.split)

lemma stored_cong:
  assumes "storage_ok s"
    and "\<And>fid i. plain_id fid \<Longrightarrow> w_files w' (patch_path s fid i) = w_files w (patch_path s fid i)"
  shows "stored s w' = stored s w"
  using assms by (fastforce simp: fun_eq_iff stored_path storage_ok_def entry_ok_def split: option.split)

lemma received_finite: "entry_ok s fid e \<Longrightarrow> finite (pe_received e)"
  by (rule finite_subset [of _ "{..<length (pr_chunk_files (pe_record e))}"]) (auto simp: entry_ok_def)

text \<open>With agreeing totals, complete means that exactly the indices below the total are there.\<close>

lemma complete_iff_all:
  assumes "entry_ok s fid e" and "length (pr_chunk_files (pe_record e)) = pr_total_chunks (pe_record e)"
  shows "entry_complete e \<longleftrightarrow> pe_received e = {..<pr_total_chunks (pe_record e)}"
proof -
  have sub: "pe_received e \<subseteq> {..<pr_total_chunks (pe_record e)}"
    using assms by (auto simp: entry_ok_def)
  have "pe_received e = {..<pr_total_chunks (pe_record e)}" if "entry_complete e"
    using sub that by (intro card_subset_eq) (simp_all add: entry_complete_def)
  moreover have "entry_complete e" if eq: "pe_received e = {..<pr_total_chunks (pe_record e)}"
    by (simp only: entry_complete_def eq card_lessThan)
  ultimately show ?thesis by blast
qed

lemma complete_chunk_files:
  assumes "entry_ok s fid e" and "length (pr_chunk_files (pe_record e)) = pr_total_chunks (pe_record e)"
    and "entry_complete e"
  shows "pr_chunk_files (pe_record e) = map (patch_path s fid) [0..<pr_total_chunks (pe_record e)]"
proof (rule nth_equalityI)
  fix i assume "i < length (pr_chunk_files (pe_record e))"
  then have "i \<in> pe_received e" and i: "i < pr_total_chunks (pe_record e)"
    using complete_iff_all [OF assms(1,2)] assms(2,3) by simp_all
  then have "pr_chunk_files (pe_record e) ! i = patch_path s fid i"
    using assms(1) unfolding entry_ok_def by blast
  then show "pr_chunk_files (pe_record e) ! i = map (patch_path s fid) [0..<pr_total_chunks (pe_record e)] ! i"
    using i by simp
qed (simp add: assms(2))

section \<open>Storing a chunk\<close>

lemma entry_for_ok:
  assumes "storage_ok s" and "plain_id (ck_file_id c)"
  shows "entry_ok s (ck_file_id c) (entry_for s c (path_join (st_patches_dir s) (ck_file_id c)))"
proof (cases "map_of (st_payloads s) (ck_file_id c)")
  case None
  then show ?thesis
    using assms(2)
    by (simp add: entry_for_def entry_ok_def default_entry_def default_record_def Let_def)
next
  case (Some e)
  then have e: "entry_ok s (ck_file_id c) e"
    using assms(1) by (simp add: storage_ok_def)
  moreover have "pr_chunk_files (pe_record e) = [] \<Longrightarrow> pe_received e = {}"
    using e by (auto simp: entry_ok_def)
  ultimately show ?thesis
    using Some by (auto simp: entry_for_def entry_ok_def Let_def)
qed

lemma entry_for_received:
  assumes "storage_ok s"
  shows "pe_received (entry_for s c d) =
     (case map_of (st_payloads s) (ck_file_id c) of None \<Rightarrow> {} | Some e \<Rightarrow> pe_received e)"
  using assms
  by (auto simp: entry_for_def default_entry_def Let_def split: option.split)

lemma length_grow [simp]: "length (grow n xs) = max n (length xs)"
  by (simp add: grow_def)

lemma nth_grow: "i < max n (length xs) \<Longrightarrow> grow n xs ! i = (if i < length xs then xs ! i else [])"
  by (simp add: grow_def nth_append)

definition add_chunk :: "int \<Rightarrow> storage \<Rightarrow> chunk_data \<Rightarrow> payload_entry \<Rightarrow> payload_entry" where
  "add_chunk now s c e =
     (let n = max (length (pr_chunk_files (pe_record e))) (ck_total_chunks c);
          e1 = e\<lparr>pe_record := (pe_record e)\<lparr>pr_chunk_files :=
                   (grow n (pr_chunk_files (pe_record e)))[ck_index c := patch_path s (ck_file_id c) (ck_index c)]\<rparr>,
                 pe_received := insert (ck_index c) (pe_received e), pe_last_update := now,
                 pe_ttl := (if ck_ttl c > 0 then ck_ttl c else st_default_ttl s)\<rparr>
      in e1\<lparr>pe_state := (if entry_complete e1 then ''complete'' else ''partial'')\<rparr>)"

lemma entry_complete_state [simp]: "entry_complete (e\<lparr>pe_state := x\<rparr>) = entry_complete e"
  by (simp add: entry_complete_def)

lemma add_chunk_ok:
  assumes e: "entry_ok s (ck_file_id c) e" and i: "ck_index c < ck_total_chunks c"
  shows "entry_ok s (ck_file_id c) (add_chunk now s c e)"
    and "pe_received (add_chunk now s c e) = insert (ck_index c) (pe_received e)"
  using e i by (auto simp: entry_ok_def add_chunk_def Let_def nth_list_update nth_grow)

text \<open>The accepting path of the operation in one equation.\<close>

lemma store_chunk_accept:
  assumes "verify_crc c" and "fs_create_directories (path_join (st_patches_dir s) (ck_file_id c)) w = (True, w1)"
    and "write_binary_file (patch_path s (ck_file_id c) (ck_index c)) (ck_payload c) w1 = (True, w2)"
    and e: "e = entry_for s c (path_join (st_patches_dir s) (ck_file_id c))"
    and fits: "\<not> max (length (pr_chunk_files (pe_record e))) (ck_total_chunks c) > resize_limit"
    and i: "ck_index c < ck_total_chunks c"
  shows "store_chunk resize_limit now c s w =
     (Inr (if entry_complete (add_chunk now s c e) then Some (pe_record (add_chunk now s c e)) else None),
      s\<lparr>st_payloads := al_set (ck_file_id c) (add_chunk now s c e) (st_payloads s)\<rparr>,
      persist_manifest (pe_record (add_chunk now s c e)) (add_chunk now s c e) w2)"
proof -
  have "\<not> max (length (pr_chunk_files (pe_record e))) (ck_total_chunks c) \<le> ck_index c"
    using i by simp
  then show ?thesis
    using assms(1-3) fits
    unfolding store_chunk_def Let_def add_chunk_def patch_path_def e [symmetric]
    by (simp only: prod.case not_True_eq_False if_False not_False_eq_True entry_complete_state)
qed

text \<open>The refusing paths, each leaving the store as it is.\<close>

lemma store_chunk_bad_crc: "\<not> verify_crc c \<Longrightarrow> store_chunk resize_limit now c s w = (Inr None, s, w)"
  by (simp add: store_chunk_def)

lemma store_chunk_no_dir:
  "verify_crc c \<Longrightarrow> fs_create_directories (path_join (st_patches_dir s) (ck_file_id c)) w = (False, w1) \<Longrightarrow>
     store_chunk resize_limit now c s w = (Inr None, s, w1)"
  by (simp add: store_chunk_def Let_def)

lemma store_chunk_no_write:
  "verify_crc c \<Longrightarrow> fs_create_directories (path_join (st_patches_dir s) (ck_file_id c)) w = (True, w1) \<Longrightarrow>
   write_binary_file (patch_path s (ck_file_id c) (ck_index c)) (ck_payload c) w1 = (False, w2) \<Longrightarrow>
     store_chunk resize_limit now c s w = (Inr None, s, w2)"
  by (simp add: store_chunk_def Let_def patch_path_def)

lemma store_chunk_no_memory:
  assumes "verify_crc c" and "fs_create_directories (path_join (st_patches_dir s) (ck_file_id c)) w = (True, w1)"
    and "write_binary_file (patch_path s (ck_file_id c) (ck_index c)) (ck_payload c) w1 = (True, w2)"
    and e: "e = entry_for s c (path_join (st_patches_dir s) (ck_file_id c))"
    and "max (length (pr_chunk_files (pe_record e))) (ck_total_chunks c) > resize_limit"
  shows "store_chunk resize_limit now c s w =
     (Inl BadAlloc, s\<lparr>st_payloads := al_set (ck_file_id c) e (st_payloads s)\<rparr>, w2)"
  using assms(1-3,5) unfolding store_chunk_def Let_def patch_path_def e [symmetric]
  by (simp only: prod.case not_True_eq_False if_False if_True)

text \<open>Replacing one entry.\<close>

lemma storage_ok_set:
  assumes "storage_ok s" and "entry_ok s fid e"
  shows "storage_ok (s\<lparr>st_payloads := al_set fid e (st_payloads s)\<rparr>)"
  using assms by (auto simp: storage_ok_def al_set_ok al_set_lookup entry_ok_def dirs_ok_def patch_path_def)

lemma patch_path_payloads [simp]: "patch_path (s\<lparr>st_payloads := p\<rparr>) = patch_path s"
  by (simp add: patch_path_def fun_eq_iff)

lemma stored_set:
  assumes "storage_ok s" and "entry_ok s fid e"
  shows "stored (s\<lparr>st_payloads := al_set fid e (st_payloads s)\<rparr>) w =
     (stored s w)(fid := (\<lambda>i. if i \<in> pe_received e then w_files w (patch_path s fid i) else None))"
  using stored_path [OF storage_ok_set [OF assms], of w] stored_path [OF assms(1), of w]
  by (auto simp: fun_eq_iff al_set_lookup split: option.split)

text \<open>What the file system holds at the patch paths after an attempt to write one of them.\<close>

lemma write_patch_files:
  assumes s: "storage_ok s" and f: "plain_id fid" and g: "plain_id gid"
    and w: "write_binary_file (patch_path s fid i) d w = (ok, w')"
  shows "w_files w' (patch_path s gid j) =
     (if ok \<and> gid = fid \<and> j = i then Some d else w_files w (patch_path s gid j))"
proof -
  have d: "dirs_ok s" using s by (simp add: storage_ok_def)
  have "patch_path s gid j \<noteq> patch_path s fid i @ ''.tmp''"
    by (rule patch_path_not_tmp [OF d g])
  then show ?thesis
    using write_binary_file_files [OF w] patch_path_inject [OF d g f, of j i] by (cases ok) auto
qed

lemma persist_patch_files:
  assumes s: "storage_ok s" and e: "entry_ok s fid e" and g: "plain_id gid"
  shows "w_files (persist_manifest (pe_record e) e' w) (patch_path s gid j) = w_files w (patch_path s gid j)"
proof -
  have d: "dirs_ok s" using s by (simp add: storage_ok_def)
  have f: "plain_id fid" and p: "pr_patches_dir (pe_record e) = path_join (st_patches_dir s) fid"
    using e by (simp_all add: entry_ok_def)
  show ?thesis
    by (rule persist_manifest_files)
       (use patch_path_not_list [OF d g f] patch_path_not_tmp [OF d g] p in auto)
qed

text \<open>All paths of the operation at once.\<close>

lemma store_chunk_cases:
  assumes s: "storage_ok s" and f: "plain_id (ck_file_id c)" and i: "ck_index c < ck_total_chunks c"
    and st: "store_chunk resize_limit now c s w = (r, s', w')"
  obtains (refused) "r = Inr None" "s' = s" "\<And>gid j. plain_id gid \<Longrightarrow>
             w_files w' (patch_path s gid j) = w_files w (patch_path s gid j)"
  | (written) e where "entry_ok s (ck_file_id c) e" "verify_crc c"
      "e = entry_for s c (path_join (st_patches_dir s) (ck_file_id c)) \<and> r = Inl BadAlloc \<or>
       e = add_chunk now s c (entry_for s c (path_join (st_patches_dir s) (ck_file_id c))) \<and>
         r = Inr (if entry_complete e then Some (pe_record e) else None)"
      "s' = s\<lparr>st_payloads := al_set (ck_file_id c) e (st_payloads s)\<rparr>"
      "\<And>gid j. plain_id gid \<Longrightarrow> w_files w' (patch_path s gid j) =
         (if gid = ck_file_id c \<and> j = ck_index c then Some (ck_payload c) else w_files w (patch_path s gid j))"
proof -
  define e where "e = entry_for s c (path_join (st_patches_dir s) (ck_file_id c))"
  have eok: "entry_ok s (ck_file_id c) e" and eok': "entry_ok s (ck_file_id c) (add_chunk now s c e)"
    using entry_for_ok [OF s f] add_chunk_ok(1) [OF _ i] by (simp_all add: e_def)
  obtain mk w1 where mk: "fs_create_directories (path_join (st_patches_dir s) (ck_file_id c)) w = (mk, w1)"
    by fastforce
  obtain ok w2 where wr: "write_binary_file (patch_path s (ck_file_id c) (ck_index c)) (ck_payload c) w1 = (ok, w2)"
    by fastforce
  note w1 = fs_create_directories_files [OF mk]
  note w2 = write_patch_files [OF s f _ wr, unfolded w1]
  let ?n = "max (length (pr_chunk_files (pe_record e))) (ck_total_chunks c)"
  show thesis
  proof (cases "verify_crc c \<and> mk \<and> ok")
    case False
    then have "r = Inr None \<and> s' = s \<and> (w' = w \<or> w' = w1 \<or> \<not> ok \<and> w' = w2)"
      using st mk wr store_chunk_bad_crc store_chunk_no_dir store_chunk_no_write by (cases mk; cases ok; cases "verify_crc c") auto
    then show thesis
      using w1 w2 by (intro refused) auto
  next
    case True
    note acc = store_chunk_accept [OF _ _ _ e_def, of w w1 w2 resize_limit now]
      store_chunk_no_memory [OF _ _ _ e_def, of w w1 w2 resize_limit now]
    show thesis
    proof (cases "?n > resize_limit")
      case no_memory: True
      then have "r = Inl BadAlloc" "s' = s\<lparr>st_payloads := al_set (ck_file_id c) e (st_payloads s)\<rparr>" "w' = w2"
        using acc(2) True mk wr st by auto
      then show thesis
        using eok w2 True by (intro written [of e]) (auto simp: e_def)
    next
      case False
      then have "r = Inr (if entry_complete (add_chunk now s c e) then Some (pe_record (add_chunk now s c e)) else None)"
        "s' = s\<lparr>st_payloads := al_set (ck_file_id c) (add_chunk now s c e) (st_payloads s)\<rparr>"
        "w' = persist_manifest (pe_record (add_chunk now s c e)) (add_chunk now s c e) w2"
        using acc(1) True mk wr st i by auto
      then show thesis
        using eok' w2 True persist_patch_files [OF s eok']
        by (intro written [of "add_chunk now s c e"]) (auto simp: e_def)
    qed
  qed
qed

lemma store_chunk_ok:
  assumes "storage_ok s" and "plain_id (ck_file_id c)" and "ck_index c < ck_total_chunks c"
    and "store_chunk resize_limit now c s w = (r, s', w')"
  shows "storage_ok s'"
  using store_chunk_cases [OF assms] storage_ok_set [OF assms(1)] assms(1) by metis

lemma store_chunk_stored:
  assumes s: "storage_ok s" and f: "plain_id (ck_file_id c)" and i: "ck_index c < ck_total_chunks c"
    and st: "store_chunk resize_limit now c s w = (r, s', w')"
  shows "stored s' w' = stored s w \<or>
         stored s' w' = stored_update (stored s w) (ck_file_id c) (ck_index c) (ck_payload c) \<and> verify_crc c"
  using s f i st
proof (cases rule: store_chunk_cases)
  case refused
  have "stored s w' = stored s w"
    by (rule stored_cong [OF s refused(3)])
  then show ?thesis by (simp add: refused(2))
next
  case (written e)
  let ?e = "entry_for s c (path_join (st_patches_dir s) (ck_file_id c))"
  have ids: "plain_id gid" if "map_of (st_payloads s) gid = Some x" for gid x
    using s that by (auto simp: storage_ok_def entry_ok_def)
  have old: "stored s w (ck_file_id c) j = (if j \<in> pe_received ?e then w_files w (patch_path s (ck_file_id c) j) else None)" for j
    by (simp add: stored_path [OF s] entry_for_received [OF s] split: option.split)
  have other: "stored s w' gid j = stored s w gid j" if "gid \<noteq> ck_file_id c" for gid j
    using written(5) ids that by (auto simp: stored_path [OF s] split: option.split)
  have new: "stored s' w' = (stored s w')(ck_file_id c :=
      (\<lambda>j. if j \<in> pe_received e then w_files w' (patch_path s (ck_file_id c) j) else None))"
    unfolding written(4) by (rule stored_set [OF s written(1)])
  from written(3) show ?thesis
  proof (elim disjE conjE)
    assume "e = ?e"
    then show ?thesis
      using new old other written(2,5) f
      by (cases "ck_index c \<in> pe_received ?e") (auto simp: fun_eq_iff stored_update_def)
  next
    assume "e = add_chunk now s c ?e"
    then have "pe_received e = insert (ck_index c) (pe_received ?e)"
      by (simp add: add_chunk_def Let_def)
    then have "stored s' w' = stored_update (stored s w) (ck_file_id c) (ck_index c) (ck_payload c)"
      using new old other written(5) f by (auto simp: fun_eq_iff stored_update_def)
    then show ?thesis using written(2) by blast
  qed
qed

section \<open>A fault-free disk\<close>

lemma no_faults_calls:
  assumes "no_faults w"
  shows "\<exists>w'. sys_open p w = (True, w') \<and> no_faults w' \<and> w_files w' = (w_files w)(p \<mapsto> [])"
    and "\<exists>w'. sys_fsync p w = (True, w') \<and> no_faults w' \<and> w_files w' = w_files w"
    and "\<exists>w'. fs_create_directories p w = (True, w') \<and> no_faults w' \<and> w_files w' = w_files w"
    and "w_files w a = Some x \<Longrightarrow>
           \<exists>w'. fs_rename a b w = (True, w') \<and> no_faults w' \<and> w_files w' = (w_files w)(a := None, b \<mapsto> x)"
    and "\<exists>w'. fs_remove_all p w = (True, w') \<and> no_faults w' \<and>
              w_files w' = (\<lambda>q. if below p q then None else w_files w q)"
    and "\<exists>w'. fs_read_file p w = (w_files w p, w') \<and> no_faults w' \<and> w_files w' = w_files w"
proof -
  obtain r w1 where nr: "next_reply w = (r, w1)" by fastforce
  note n = next_reply_no_faults [OF assms nr] next_reply_files [OF nr]
  show "\<exists>w'. sys_open p w = (True, w') \<and> no_faults w' \<and> w_files w' = (w_files w)(p \<mapsto> [])"
    "\<exists>w'. sys_fsync p w = (True, w') \<and> no_faults w' \<and> w_files w' = w_files w"
    "\<exists>w'. fs_create_directories p w = (True, w') \<and> no_faults w' \<and> w_files w' = w_files w"
    "w_files w a = Some x \<Longrightarrow>
       \<exists>w'. fs_rename a b w = (True, w') \<and> no_faults w' \<and> w_files w' = (w_files w)(a := None, b \<mapsto> x)"
    "\<exists>w'. fs_remove_all p w = (True, w') \<and> no_faults w' \<and>
          w_files w' = (\<lambda>q. if below p q then None else w_files w q)"
    "\<exists>w'. fs_read_file p w = (w_files w p, w') \<and> no_faults w' \<and> w_files w' = w_files w"
    using n by (simp_all add: sys_defs nr cong: if_cong)
qed

lemma write_binary_file_no_faults:
  assumes w: "no_faults w"
  shows "\<exists>w'. write_binary_file path data w = (True, w') \<and> no_faults w'"
proof -
  let ?t = "path @ ''.tmp''"
  obtain w1 where w1: "sys_open ?t w = (True, w1)" "no_faults w1" "w_files w1 ?t = Some []"
    using no_faults_calls(1) [OF w, of ?t] by auto
  obtain w2 where w2: "write_loop ?t data w1 = (True, w2)" "no_faults w2" "w_files w2 ?t = Some data"
    using storage_write.no_faults_loop [OF w1(2,3), of data] by auto
  obtain w3 where w3: "sys_fsync ?t w2 = (True, w3)" "no_faults w3" "w_files w3 ?t = Some data"
    using no_faults_calls(2) [OF w2(2), of ?t] w2(3) by auto
  obtain w4 where w4: "fs_rename ?t path w3 = (True, w4)" "no_faults w4"
    using no_faults_calls(4) [OF w3(2,3), of path] by auto
  then show ?thesis
    by (simp add: write_binary_file_def Let_def w1 w2 w3)
qed

lemma persist_manifest_no_faults: "no_faults w \<Longrightarrow> no_faults (persist_manifest r e w)"
  using write_binary_file_no_faults [of w "path_join (pr_patches_dir r) ''ids.list''" "bytes_of (manifest_line r e)"]
  by (auto simp: persist_manifest_def write_binary_file_def Let_def split: prod.splits if_splits)

lemma store_chunk_no_faults:
  assumes s: "storage_ok s" and f: "plain_id (ck_file_id c)" and i: "ck_index c < ck_total_chunks c"
    and crc: "verify_crc c" and w: "no_faults w"
    and e: "e = entry_for s c (path_join (st_patches_dir s) (ck_file_id c))"
    and fits: "max (length (pr_chunk_files (pe_record e))) (ck_total_chunks c) \<le> resize_limit"
  obtains w' where
    "store_chunk resize_limit now c s w =
       (Inr (if entry_complete (add_chunk now s c e) then Some (pe_record (add_chunk now s c e)) else None),
        s\<lparr>st_payloads := al_set (ck_file_id c) (add_chunk now s c e) (st_payloads s)\<rparr>, w')"
    "no_faults w'"
    "\<And>gid j. plain_id gid \<Longrightarrow> w_files w' (patch_path s gid j) =
         (if gid = ck_file_id c \<and> j = ck_index c then Some (ck_payload c) else w_files w (patch_path s gid j))"
proof -
  obtain w1 where mk: "fs_create_directories (path_join (st_patches_dir s) (ck_file_id c)) w = (True, w1)"
      "no_faults w1" "w_files w1 = w_files w"
    using no_faults_calls(3) [OF w] by blast
  obtain w2 where wr: "write_binary_file (patch_path s (ck_file_id c) (ck_index c)) (ck_payload c) w1 = (True, w2)"
      "no_faults w2"
    using write_binary_file_no_faults [OF mk(2)] by blast
  let ?e' = "add_chunk now s c e"
  have eok: "entry_ok s (ck_file_id c) ?e'"
    using add_chunk_ok(1) [OF entry_for_ok [OF s f] i] by (simp add: e)
  show thesis
  proof (rule that)
    show "store_chunk resize_limit now c s w =
       (Inr (if entry_complete ?e' then Some (pe_record ?e') else None),
        s\<lparr>st_payloads := al_set (ck_file_id c) ?e' (st_payloads s)\<rparr>, persist_manifest (pe_record ?e') ?e' w2)"
      by (rule store_chunk_accept [OF crc mk(1) wr(1) e _ i]) (use fits in linarith)
    show "no_faults (persist_manifest (pe_record ?e') ?e' w2)"
      by (rule persist_manifest_no_faults [OF wr(2)])
    show "w_files (persist_manifest (pe_record ?e') ?e' w2) (patch_path s gid j) =
         (if gid = ck_file_id c \<and> j = ck_index c then Some (ck_payload c) else w_files w (patch_path s gid j))"
      if "plain_id gid" for gid j
      using persist_patch_files [OF s eok that] write_patch_files [OF s f that wr(1)] by (simp add: mk(3))
  qed
qed

section \<open>The other operations\<close>

lemma storage_ok_frame:
  "storage_ok s \<Longrightarrow> al_ok m \<Longrightarrow> (\<And>fid e. map_of m fid = Some e \<Longrightarrow> entry_ok s fid e) \<Longrightarrow>
     storage_ok (s\<lparr>st_default_ttl := t, st_payloads := m\<rparr>)"
  by (auto simp: storage_ok_def dirs_ok_def entry_ok_def patch_path_def)

lemma storage_ok_payloads:
  "storage_ok s \<Longrightarrow> al_ok m \<Longrightarrow> (\<And>fid e. map_of m fid = Some e \<Longrightarrow> entry_ok s fid e) \<Longrightarrow>
     storage_ok (s\<lparr>st_payloads := m\<rparr>)"
  using storage_ok_frame [of s m "st_default_ttl s"] by simp

lemma mark_published_ok:
  assumes "storage_ok s"
  shows "storage_ok (mark_published fid s)"
    and "stored (mark_published fid s) w = (stored s w)(fid := \<lambda>_. None)"
proof -
  have ok: "al_ok (st_payloads s)" "\<And>f e. map_of (st_payloads s) f = Some e \<Longrightarrow> entry_ok s f e"
    using assms by (auto simp: storage_ok_def)
  have "entry_ok s f e" if "map_of (al_erase fid (st_payloads s)) f = Some e" for f e
    using that ok(2) by (simp add: al_erase_lookup split: if_splits)
  then show "storage_ok (mark_published fid s)"
    unfolding mark_published_def by (rule storage_ok_payloads [OF assms al_erase_ok [OF ok(1)]])
  show "stored (mark_published fid s) w = (stored s w)(fid := \<lambda>_. None)"
    by (simp add: mark_published_def stored_def fun_eq_iff al_erase_lookup)
qed

lemma ready_payloads_complete:
  assumes "storage_ok s"
  shows "r \<in> set (ready_payloads s) \<longleftrightarrow>
     (\<exists>fid e. map_of (st_payloads s) fid = Some e \<and> entry_complete e \<and> r = pe_record e)"
  using assms by (force simp: ready_payloads_def storage_ok_def al_mem_lookup [symmetric])

lemma map_of_map_ttl:
  "map_of (map (\<lambda>(fid, e). (fid, e\<lparr>pe_ttl := t\<rparr>)) m) fid = map_option (\<lambda>e. e\<lparr>pe_ttl := t\<rparr>) (map_of m fid)"
  by (induction m) auto

lemma fst_map_ttl: "map fst (map (\<lambda>(fid, e). (fid, e\<lparr>pe_ttl := t\<rparr>)) m) = map fst m"
  by (induction m) auto

lemma entry_ok_ttl: "entry_ok s fid (e\<lparr>pe_ttl := t\<rparr>) = entry_ok s fid e"
  by (simp add: entry_ok_def entry_complete_def)

lemma persist_fold_files:
  assumes "storage_ok s" and "\<forall>(fid, e) \<in> set m. entry_ok s fid e" and "plain_id gid"
  shows "w_files (fold (\<lambda>(_, e). persist_manifest (pe_record e) e) m w) (patch_path s gid j)
           = w_files w (patch_path s gid j)"
  using assms(2)
proof (induction m arbitrary: w)
  case (Cons x m)
  obtain fid e where x: "x = (fid, e)" by fastforce
  show ?case
    using Cons.IH [of "persist_manifest (pe_record e) e w"] Cons.prems
      persist_patch_files [OF assms(1) _ assms(3), of fid e e w j]
    by (simp add: x)
qed simp

lemma update_ttl_ok:
  assumes s: "storage_ok s" and u: "update_ttl t s w = (s', w')"
  shows "storage_ok s'" and "stored s' w' = stored s w"
proof -
  let ?m = "map (\<lambda>(fid, e). (fid, e\<lparr>pe_ttl := t\<rparr>)) (st_payloads s)"
  have s': "s' = s\<lparr>st_default_ttl := t, st_payloads := ?m\<rparr>"
    and w': "w' = fold (\<lambda>(_, e). persist_manifest (pe_record e) e) ?m w"
    using u by (auto simp: update_ttl_def Let_def)
  have m: "al_ok ?m" "\<And>fid e. map_of ?m fid = Some e \<Longrightarrow> entry_ok s fid e"
    using s by (auto simp: storage_ok_def al_ok_def fst_map_ttl map_of_map_ttl entry_ok_ttl simp del: map_map)
  show ok: "storage_ok s'"
    unfolding s' by (rule storage_ok_frame [OF s m])
  have "entry_ok s fid e" if "(fid, e) \<in> set ?m" for fid e
    using that m(2) al_mem_lookup [OF m(1)] by blast
  then have "\<forall>(fid, e) \<in> set ?m. entry_ok s fid e"
    by blast
  then have files: "w_files w' (patch_path s gid j) = w_files w (patch_path s gid j)" if "plain_id gid" for gid j
    unfolding w' using persist_fold_files [OF s _ that] by blast
  have "stored s' w' gid j = stored s w' gid j" for gid j
    by (simp add: stored_def s' map_of_map_ttl split: option.split)
  moreover have "stored s w' = stored s w"
    by (rule stored_cong [OF s files])
  ultimately show "stored s' w' = stored s w"
    by (simp add: fun_eq_iff)
qed

lemma cleanup_loop_kept: "fst (cleanup_loop now m w) = filter (\<lambda>(_, e). \<not> expired now e) m"
  by (induction now m w rule: cleanup_loop.induct) (auto split: prod.splits)

lemma below_patch_path:
  assumes "dirs_ok s" and "plain_id f" and "plain_id g"
  shows "below (path_join (st_patches_dir s) f) (patch_path s g j) \<longleftrightarrow> f = g"
proof -
  have "f \<noteq> g @ CHR ''/'' # x" for x
    using assms(2) by (auto simp: plain_id_def)
  then show ?thesis
    using assms by (auto simp: below_def patch_path_plain plain_id_join prefix_def append_slash_inject plain_id_def)
qed

lemma fs_remove_all_files:
  "fs_remove_all d w = (ok, w') \<Longrightarrow> \<not> below d q \<Longrightarrow> w_files w' q = w_files w q"
  by (auto simp: fs_remove_all_def split: prod.splits if_splits dest!: next_reply_files)

lemma cleanup_loop_files:
  assumes s: "storage_ok s" and g: "plain_id gid"
  shows "\<forall>(fid, e) \<in> set m. entry_ok s fid e \<and> (expired now e \<longrightarrow> fid \<noteq> gid) \<Longrightarrow>
     w_files (snd (cleanup_loop now m w)) (patch_path s gid j) = w_files w (patch_path s gid j)"
proof (induction now m w rule: cleanup_loop.induct)
  case (2 now fid e rest w)
  show ?case
  proof (cases "expired now e")
    case True
    obtain ok w1 where r: "fs_remove_all (pr_patches_dir (pe_record e)) w = (ok, w1)" by fastforce
    have "\<not> below (pr_patches_dir (pe_record e)) (patch_path s gid j)"
      using "2.prems" True below_patch_path [of s fid gid] s g by (auto simp: entry_ok_def storage_ok_def)
    then have "w_files w1 (patch_path s gid j) = w_files w (patch_path s gid j)"
      using fs_remove_all_files [OF r] by blast
    moreover have "w_files (snd (cleanup_loop now rest w1)) (patch_path s gid j) = w_files w1 (patch_path s gid j)"
      using "2.IH"(1) [OF True r [symmetric] refl] "2.prems" by simp
    ultimately show ?thesis
      using True r by simp
  next
    case False
    then have "w_files (snd (cleanup_loop now rest w)) (patch_path s gid j) = w_files w (patch_path s gid j)"
      using "2.IH"(2) "2.prems" by simp
    moreover obtain kept w2 where "cleanup_loop now rest w = (kept, w2)" by fastforce
    ultimately show ?thesis
      using False by simp
  qed
qed simp

lemma al_filter_lookup:
  "al_ok m \<Longrightarrow> map_of (filter (\<lambda>(_, e). P e) m) k =
     (case map_of m k of None \<Rightarrow> None | Some e \<Rightarrow> if P e then Some e else None)"
proof (induction m)
  case (Cons x m)
  obtain k' e where x: "x = (k', e)" by fastforce
  have "map_of m k' = None"
    using Cons.prems by (simp add: al_ok_def x map_of_eq_None_iff)
  then show ?case
    using Cons by (auto simp: x al_ok_def)
qed (simp add: al_ok_def)

lemma cleanup_expired_ok:
  assumes s: "storage_ok s" and c: "cleanup_expired now s w = (s', w')"
  shows "storage_ok s'"
    and "map_of (st_payloads s') fid = (case map_of (st_payloads s) fid of
           None \<Rightarrow> None | Some e \<Rightarrow> if expired now e then None else Some e)"
    and "stored s' w' fid = (case map_of (st_payloads s) fid of
           None \<Rightarrow> (\<lambda>_. None) | Some e \<Rightarrow> if expired now e then (\<lambda>_. None) else stored s w fid)"
proof -
  let ?m = "filter (\<lambda>(_, e). \<not> expired now e) (st_payloads s)"
  have s': "s' = s\<lparr>st_payloads := ?m\<rparr>" and w': "w' = snd (cleanup_loop now (st_payloads s) w)"
    using c cleanup_loop_kept [of now "st_payloads s" w] by (auto simp: cleanup_expired_def split: prod.splits)
  have al: "al_ok (st_payloads s)" and ents: "\<And>f e. map_of (st_payloads s) f = Some e \<Longrightarrow> entry_ok s f e"
    using s by (auto simp: storage_ok_def)
  have alm: "al_ok ?m"
    using al by (simp add: al_ok_def distinct_map_filter)
  have look: "map_of ?m f = (case map_of (st_payloads s) f of
           None \<Rightarrow> None | Some e \<Rightarrow> if expired now e then None else Some e)" for f
    by (simp add: al_filter_lookup [OF al] split: option.split)
  show ok: "storage_ok s'"
    unfolding s'
  proof (rule storage_ok_payloads [OF s alm])
    show "entry_ok s f e" if "map_of ?m f = Some e" for f e
      using that ents look [of f] by (simp split: option.splits if_splits)
  qed
  show m: "map_of (st_payloads s') fid = (case map_of (st_payloads s) fid of
           None \<Rightarrow> None | Some e \<Rightarrow> if expired now e then None else Some e)"
    by (simp add: s' look)
  show "stored s' w' fid = (case map_of (st_payloads s) fid of
           None \<Rightarrow> (\<lambda>_. None) | Some e \<Rightarrow> if expired now e then (\<lambda>_. None) else stored s w fid)"
  proof (cases "map_of ?m fid")
    case None
    then show ?thesis
      using look [of fid] by (auto simp: stored_def s' fun_eq_iff split: option.splits if_splits)
  next
    case (Some e)
    then have e: "map_of (st_payloads s) fid = Some e" "\<not> expired now e"
      using look [of fid] by (auto split: option.splits if_splits)
    then have "\<forall>(f, x) \<in> set (st_payloads s). entry_ok s f x \<and> (expired now x \<longrightarrow> f \<noteq> fid)"
      using ents al_mem_lookup [OF al] by auto
    moreover have "plain_id fid"
      using ents [OF e(1)] by (simp add: entry_ok_def)
    ultimately have "w_files w' (patch_path s fid j) = w_files w (patch_path s fid j)" for j
      unfolding w' using cleanup_loop_files [OF s] by blast
    then show ?thesis
      using e Some ents [OF e(1)] by (auto simp: stored_def s' fun_eq_iff entry_ok_def)
  qed
qed

section \<open>The store as a transition system\<close>

text \<open>No received patch has lost its file.\<close>

definition files_present :: "storage \<Rightarrow> world \<Rightarrow> bool" where [inv_defs]:
  "files_present s w \<longleftrightarrow>
     (\<forall>fid e. map_of (st_payloads s) fid = Some e \<longrightarrow>
        (\<forall>i \<in> pe_received e. w_files w (patch_path s fid i) \<noteq> None))"

text \<open>
  The calls the server makes, each with any arguments and any replies of the operating system.
  The connection handler has checked \<open>index < total\<close> before it stores a chunk.
\<close>

inductive storage_step :: "storage \<times> world \<Rightarrow> storage \<times> world \<Rightarrow> bool" where
  step_store: "plain_id (ck_file_id c) \<Longrightarrow> ck_index c < ck_total_chunks c \<Longrightarrow>
     store_chunk resize_limit now c s w = (r, s', w') \<Longrightarrow> storage_step (s, w) (s', w')"
| step_publish: "storage_step (s, w) (mark_published fid s, w)"
| step_ttl: "storage_step (s, w) (update_ttl t s w)"
| step_cleanup: "storage_step (s, w) (cleanup_expired now s w)"
| step_environment: "storage_step (s, w) (s, w\<lparr>w_replies := rs\<rparr>)"

inductive_cases storage_step_elim: "storage_step (s, w) (s', w')"

definition storage_start :: "storage \<times> world \<Rightarrow> bool" where
  "storage_start = (\<lambda>(s, w). dirs_ok s \<and> st_payloads s = [])"

definition storage_good :: "storage \<times> world \<Rightarrow> bool" where
  "storage_good = (\<lambda>(s, w). storage_ok s \<and> files_present s w)"

lemma store_chunk_present:
  assumes s: "storage_ok s" and p: "files_present s w"
    and f: "plain_id (ck_file_id c)" and i: "ck_index c < ck_total_chunks c"
    and st: "store_chunk resize_limit now c s w = (r, s', w')"
  shows "files_present s' w'"
  using s f i st
proof (cases rule: store_chunk_cases)
  case refused
  then show ?thesis
    using s p by (auto simp: files_present_def storage_ok_def entry_ok_def)
next
  case (written e)
  let ?e = "entry_for s c (path_join (st_patches_dir s) (ck_file_id c))"
  have ids: "plain_id gid" if "map_of (st_payloads s) gid = Some x" for gid x
    using s that by (auto simp: storage_ok_def entry_ok_def)
  have "pe_received e \<subseteq> insert (ck_index c) (pe_received ?e)"
    using written(3) by (auto simp: add_chunk_def Let_def)
  moreover have "w_files w (patch_path s (ck_file_id c) j) \<noteq> None" if "j \<in> pe_received ?e" for j
    using p that unfolding entry_for_received [OF s] by (auto simp: files_present_def split: option.splits)
  ultimately have "w_files w' (patch_path s (ck_file_id c) j) \<noteq> None" if "j \<in> pe_received e" for j
    using that written(5) [OF f] by auto
  moreover have "w_files w' (patch_path s gid j) \<noteq> None"
    if "gid \<noteq> ck_file_id c" "map_of (st_payloads s) gid = Some x" "j \<in> pe_received x" for gid x j
    using that written(5) [OF ids [OF that(2)]] p by (auto simp: files_present_def)
  ultimately show ?thesis
    by (auto simp: files_present_def written(4) al_set_lookup split: if_splits)
qed

lemma files_present_stored:
  "storage_ok s \<Longrightarrow> files_present s w \<Longrightarrow> map_of (st_payloads s) fid = Some e \<Longrightarrow>
     i \<in> pe_received e \<longleftrightarrow> stored s w fid i \<noteq> None"
  by (auto simp: stored_path files_present_def)

lemma files_present_iff:
  "storage_ok s \<Longrightarrow> files_present s w \<longleftrightarrow>
     (\<forall>fid e. map_of (st_payloads s) fid = Some e \<longrightarrow> (\<forall>i \<in> pe_received e. stored s w fid i \<noteq> None))"
  by (auto simp: stored_path files_present_def)

interpretation storage_sys: invariant_system storage_start storage_step storage_good
proof
  show "storage_start s \<Longrightarrow> storage_good s" for s
    by (cases s) (simp add: storage_start_def storage_good_def storage_ok_def files_present_def al_ok_def)
  fix s t assume good: "storage_good s" and step: "storage_step s t"
  from step good show "storage_good t"
  proof cases
    case (step_store c resize_limit now s w r s' w')
    then show ?thesis
      using good store_chunk_ok store_chunk_present by (fastforce simp: storage_good_def)
  next
    case (step_publish s w fid)
    then have "storage_ok s" "files_present s w" using good by (simp_all add: storage_good_def)
    then show ?thesis
      using mark_published_ok [of s fid] step_publish
      by (auto simp: storage_good_def files_present_def mark_published_def al_erase_lookup split: if_splits)
  next
    case (step_ttl s w t')
    obtain s' w' where u: "update_ttl t' s w = (s', w')" by fastforce
    have g: "storage_ok s" "files_present s w" using good step_ttl by (simp_all add: storage_good_def)
    have "map_of (st_payloads s') fid = map_option (\<lambda>e. e\<lparr>pe_ttl := t'\<rparr>) (map_of (st_payloads s) fid)" for fid
      using u map_of_map_ttl by (auto simp: update_ttl_def Let_def)
    then show ?thesis
      using step_ttl u update_ttl_ok [OF g(1) u] g
      by (auto simp: storage_good_def files_present_iff)
  next
    case (step_cleanup s w now)
    obtain s' w' where u: "cleanup_expired now s w = (s', w')" by fastforce
    have g: "storage_ok s" "files_present s w" using good step_cleanup by (simp_all add: storage_good_def)
    note c = cleanup_expired_ok [OF g(1) u]
    have "files_present s' w'"
      using g unfolding files_present_iff [OF c(1)] files_present_iff [OF g(1)]
      by (simp add: c(2,3) split: option.splits if_splits)
    then show ?thesis
      using step_cleanup u c(1) by (simp add: storage_good_def)
  next
    case (step_environment s w rs)
    then show ?thesis
      using good by (simp add: storage_good_def files_present_def)
  qed
qed

section \<open>Completeness\<close>

text \<open>The senders of one file agree on the number of its chunks (the code does not check it).\<close>

definition totals_agree :: "storage \<Rightarrow> chunk_data \<Rightarrow> bool" where
  "totals_agree s c \<longleftrightarrow>
     (case map_of (st_payloads s) (ck_file_id c) of
        None \<Rightarrow> True
      | Some e \<Rightarrow> pr_chunk_files (pe_record e) = [] \<or>
                  pr_total_chunks (pe_record e) = ck_total_chunks c \<and>
                  length (pr_chunk_files (pe_record e)) = ck_total_chunks c)"

lemma entry_for_totals:
  assumes "totals_agree s c"
  shows "pr_total_chunks (pe_record (entry_for s c d)) = ck_total_chunks c"
    and "length (pr_chunk_files (pe_record (entry_for s c d))) \<le> ck_total_chunks c"
  using assms
  by (auto simp: totals_agree_def entry_for_def default_entry_def default_record_def Let_def split: option.splits)

lemma add_chunk_totals:
  "length (pr_chunk_files (pe_record e)) \<le> ck_total_chunks c \<Longrightarrow>
     length (pr_chunk_files (pe_record (add_chunk now s c e))) = ck_total_chunks c"
  "pr_total_chunks (pe_record (add_chunk now s c e)) = pr_total_chunks (pe_record e)"
  by (simp_all add: add_chunk_def Let_def)

definition names_agree :: "storage \<Rightarrow> chunk_data \<Rightarrow> bool" where
  "names_agree s c \<longleftrightarrow>
     (case map_of (st_payloads s) (ck_file_id c) of
        None \<Rightarrow> True
      | Some e \<Rightarrow> pr_chunk_files (pe_record e) = [] \<or> pr_original_name (pe_record e) = ck_original_name c)"

lemma entry_for_name:
  "names_agree s c \<Longrightarrow> pr_original_name (pe_record (entry_for s c d)) = ck_original_name c"
  by (auto simp: names_agree_def entry_for_def default_entry_def default_record_def Let_def split: option.splits)

lemma add_chunk_name [simp]:
  "pr_original_name (pe_record (add_chunk now s c e)) = pr_original_name (pe_record e)"
  by (simp add: add_chunk_def Let_def)

lemma store_chunk_complete:
  assumes s: "storage_ok s" and p: "files_present s w"
    and f: "plain_id (ck_file_id c)" and i: "ck_index c < ck_total_chunks c"
    and crc: "verify_crc c" and w: "no_faults w" and t: "totals_agree s c"
    and fits: "ck_total_chunks c \<le> resize_limit"
  shows "\<exists>r s' w'. store_chunk resize_limit now c s w = (Inr r, s', w') \<and> no_faults w' \<and>
     stored s' w' = stored_update (stored s w) (ck_file_id c) (ck_index c) (ck_payload c) \<and>
     (case r of
        None \<Rightarrow> \<not> (\<forall>j < ck_total_chunks c. stored s' w' (ck_file_id c) j \<noteq> None)
      | Some rec \<Rightarrow> (\<forall>j < ck_total_chunks c. stored s' w' (ck_file_id c) j \<noteq> None) \<and>
          pr_total_chunks rec = ck_total_chunks c \<and> pr_file_id rec = ck_file_id c \<and>
          pr_chunk_files rec = map (patch_path s (ck_file_id c)) [0..<ck_total_chunks c] \<and>
          pr_patches_dir rec = path_join (st_patches_dir s) (ck_file_id c)) \<and>
     (totals_agree s' c \<and> storage_ok s' \<and> files_present s' w' \<and> st_patches_dir s' = st_patches_dir s \<and>
      st_files_dir s' = st_files_dir s) \<and>
     (names_agree s c \<longrightarrow> names_agree s' c \<and> (\<forall>rec. r = Some rec \<longrightarrow> pr_original_name rec = ck_original_name c))"
proof -
  define e where "e = entry_for s c (path_join (st_patches_dir s) (ck_file_id c))"
  define e' where "e' = add_chunk now s c e"
  note et = entry_for_totals [OF t, of "path_join (st_patches_dir s) (ck_file_id c)", folded e_def]
  have fit: "max (length (pr_chunk_files (pe_record e))) (ck_total_chunks c) \<le> resize_limit"
    using et(2) fits by simp
  obtain w' where st: "store_chunk resize_limit now c s w =
       (Inr (if entry_complete e' then Some (pe_record e') else None),
        s\<lparr>st_payloads := al_set (ck_file_id c) e' (st_payloads s)\<rparr>, w')"
    and w': "no_faults w'" and files: "\<And>gid j. plain_id gid \<Longrightarrow> w_files w' (patch_path s gid j) =
         (if gid = ck_file_id c \<and> j = ck_index c then Some (ck_payload c) else w_files w (patch_path s gid j))"
    using store_chunk_no_faults [OF s f i crc w e_def fit] unfolding e'_def by metis
  let ?s' = "s\<lparr>st_payloads := al_set (ck_file_id c) e' (st_payloads s)\<rparr>"
  have ok': "entry_ok s (ck_file_id c) e'"
    using add_chunk_ok(1) [OF entry_for_ok [OF s f] i] by (simp add: e'_def e_def)
  have len: "length (pr_chunk_files (pe_record e')) = ck_total_chunks c"
    "pr_total_chunks (pe_record e') = ck_total_chunks c"
    using add_chunk_totals et by (simp_all add: e'_def)
  have s'ok: "storage_ok ?s'" and s'p: "files_present ?s' w'"
    using store_chunk_ok [OF s f i st] store_chunk_present [OF s p f i st] .
  have look: "map_of (st_payloads ?s') (ck_file_id c) = Some e'"
    by (simp add: al_set_lookup)
  have upd: "stored ?s' w' = stored_update (stored s w) (ck_file_id c) (ck_index c) (ck_payload c)"
    using store_chunk_stored [OF s f i st]
  proof
    assume same: "stored ?s' w' = stored s w"
    have "ck_index c \<in> pe_received e'"
      using add_chunk_ok(2) [OF entry_for_ok [OF s f] i] by (simp add: e'_def e_def)
    then have "stored ?s' w' (ck_file_id c) (ck_index c) = Some (ck_payload c)"
      using files [OF f] stored_path [OF s'ok] by (simp add: al_set_lookup)
    then have "stored s w (ck_file_id c) (ck_index c) = Some (ck_payload c)"
      by (simp only: same)
    then show ?thesis
      unfolding same by (auto simp: stored_update_def fun_eq_iff)
  qed simp
  have all: "entry_complete e' \<longleftrightarrow> (\<forall>j < ck_total_chunks c. stored ?s' w' (ck_file_id c) j \<noteq> None)"
    using complete_iff_all [OF ok'] files_present_stored [OF s'ok s'p look] len ok'
    by (auto simp: entry_ok_def)
  have rec: "pr_chunk_files (pe_record e') = map (patch_path s (ck_file_id c)) [0..<ck_total_chunks c]"
    if "entry_complete e'"
    using complete_chunk_files [OF ok' _ that] len by simp
  have t': "totals_agree ?s' c"
    using len by (simp add: totals_agree_def al_set_lookup)
  have ids: "pr_file_id (pe_record e') = ck_file_id c"
    "pr_patches_dir (pe_record e') = path_join (st_patches_dir s) (ck_file_id c)"
    using ok' by (simp_all add: entry_ok_def)
  show ?thesis
  proof (intro exI conjI)
    show "store_chunk resize_limit now c s w =
       (Inr (if entry_complete e' then Some (pe_record e') else None), ?s', w')"
      by (rule st)
    show "case (if entry_complete e' then Some (pe_record e') else None) of
        None \<Rightarrow> \<not> (\<forall>j < ck_total_chunks c. stored ?s' w' (ck_file_id c) j \<noteq> None)
      | Some rec \<Rightarrow> (\<forall>j < ck_total_chunks c. stored ?s' w' (ck_file_id c) j \<noteq> None) \<and>
          pr_total_chunks rec = ck_total_chunks c \<and> pr_file_id rec = ck_file_id c \<and>
          pr_chunk_files rec = map (patch_path s (ck_file_id c)) [0..<ck_total_chunks c] \<and>
          pr_patches_dir rec = path_join (st_patches_dir s) (ck_file_id c)"
      unfolding all [symmetric] using rec len(2) ids
      by (cases "entry_complete e'") (simp_all only: if_True if_False option.case not_False_eq_True simp_thms)
    show "st_patches_dir ?s' = st_patches_dir s" "st_files_dir ?s' = st_files_dir s" by simp_all
    have "names_agree s c \<Longrightarrow> pr_original_name (pe_record e') = ck_original_name c"
      using entry_for_name by (simp add: e'_def e_def)
    then show "names_agree s c \<longrightarrow> names_agree ?s' c \<and>
        (\<forall>rec. (if entry_complete e' then Some (pe_record e') else None) = Some rec \<longrightarrow>
           pr_original_name rec = ck_original_name c)"
      by (auto simp: names_agree_def al_set_lookup)
  qed (fact w' upd t' s'ok s'p)+
qed

section \<open>Expiry\<close>

lemma wrap64_id: "- (2 ^ 63) \<le> i \<Longrightarrow> i < 2 ^ 63 \<Longrightarrow> wrap64 i = i"
  by (simp add: wrap64_def)

section \<open>Properties\<close>

definition empty_world :: world where
  "empty_world = \<lparr>w_files = Map.empty, w_replies = []\<rparr>"

definition sample_storage :: storage where
  "sample_storage = fst (storage_new ''d'' 3600 empty_world)"

definition sample_chunk :: "nat \<Rightarrow> byte list \<Rightarrow> chunk_data" where
  "sample_chunk i d = \<lparr>ck_file_id = ''a'', ck_original_name = ''a.txt'', ck_index = i, ck_total_chunks = 2, ck_ttl = 0,
     ck_header_bytes = [], ck_payload = d, ck_header_crc = storage_crc32 [], ck_payload_crc = storage_crc32 d\<rparr>"

lemma sample_storage_ok: "storage_ok sample_storage" "files_present sample_storage w" "dirs_ok sample_storage"
  "st_payloads sample_storage = []"
  by (simp_all add: sample_storage_def storage_new_def storage_ok_def files_present_def dirs_ok_def al_ok_def
      path_join_def Let_def split: prod.split)

lemma sample_chunk_simps:
  "ck_file_id (sample_chunk i d) = ''a''" "ck_index (sample_chunk i d) = i" "ck_total_chunks (sample_chunk i d) = 2"
  "ck_payload (sample_chunk i d) = d" "verify_crc (sample_chunk i d)" "plain_id ''a''"
  by (simp_all add: sample_chunk_def verify_crc_def plain_id_def)

text \<open>C14. The file writer replaces a file atomically under every sequence of operating system replies
  (short and interrupted writes, any call failing): it reports success and the target has exactly
  the new content, or it reports failure and the target is as before; apart from its temporary file
  it touches nothing else.\<close>

theorem write_binary_file_atomic:
  assumes "q \<noteq> path @ ''.tmp''"
  shows "w_files (snd (write_binary_file path data w)) q =
     (if q = path \<and> fst (write_binary_file path data w) then Some data else w_files w q)"
proof -
  obtain ok w' where wb: "write_binary_file path data w = (ok, w')" by fastforce
  show ?thesis
    using write_binary_file_files [OF wb] assms by (cases ok) (auto simp: wb)
qed

theorem write_binary_file_atomic_witness:
  "w_files (snd (write_binary_file ''p'' [1, 2, 3] \<lparr>w_files = [''p'' \<mapsto> [9]], w_replies = [ROk, RShort 1, RIntr, RErr]\<rparr>)) ''p''
     = Some [9]"
proof -
  let ?w = "\<lparr>w_files = [''p'' \<mapsto> [9 :: byte]], w_replies = [ROk, RShort 1, RIntr, RErr]\<rparr>"
  have "\<not> fst (write_binary_file ''p'' [1, 2, 3] ?w)"
    by (simp add: write_binary_file_def write_loop.simps sys_defs next_reply.simps reply_fails_def Let_def)
  then show ?thesis
    using write_binary_file_atomic [of "''p''" "''p''" "[1, 2, 3]" ?w] by simp
qed

text \<open>C2. Storing a chunk refines the update of the abstract map from file and index to payload: the
  contents either stay exactly as they were, or exactly the chunk's slot changes to its payload and
  then both checksums were right. This holds under every sequence of operating system replies and
  also when the bookkeeping runs out of memory; the class invariant is kept.\<close>

theorem store_chunk_refines:
  assumes "storage_ok s" and "plain_id (ck_file_id c)" and "ck_index c < ck_total_chunks c"
    and "store_chunk resize_limit now c s w = (r, s', w')"
  shows "storage_ok s' \<and>
    (stored s' w' = stored s w \<or>
     verify_crc c \<and> stored s' w' = stored_update (stored s w) (ck_file_id c) (ck_index c) (ck_payload c))"
  using store_chunk_ok [OF assms] store_chunk_stored [OF assms] by blast

theorem store_chunk_refines_witness:
  "\<exists>r s' w'. store_chunk 10 0 (sample_chunk 1 [5]) sample_storage empty_world = (r, s', w') \<and> storage_ok s'"
proof -
  obtain r s' w' where st: "store_chunk 10 0 (sample_chunk 1 [5]) sample_storage empty_world = (r, s', w')"
    by (metis prod_cases3)
  have "storage_ok s'"
    using store_chunk_refines [OF sample_storage_ok(1) _ _ st] by (simp add: sample_chunk_simps)
  with st show ?thesis by blast
qed

text \<open>On a disk without faults a chunk with right checksums is always stored, and the operation hands
  out the file's record exactly when every index below the total is there, with the patch paths in
  index order (for senders that agree on the total).\<close>

theorem store_chunk_completes:
  assumes "storage_ok s" and "files_present s w" and "plain_id (ck_file_id c)"
    and "ck_index c < ck_total_chunks c" and "verify_crc c" and "no_faults w" and "totals_agree s c"
    and "ck_total_chunks c \<le> resize_limit"
  shows "\<exists>r s' w'. store_chunk resize_limit now c s w = (Inr r, s', w') \<and>
     stored s' w' = stored_update (stored s w) (ck_file_id c) (ck_index c) (ck_payload c) \<and>
     (r = None \<longleftrightarrow> (\<exists>j < ck_total_chunks c. stored s' w' (ck_file_id c) j = None)) \<and>
     (\<forall>rec. r = Some rec \<longrightarrow> pr_file_id rec = ck_file_id c \<and>
        pr_chunk_files rec = map (patch_path s (ck_file_id c)) [0..<ck_total_chunks c])"
proof -
  obtain r s' w' where "store_chunk resize_limit now c s w = (Inr r, s', w')"
    "stored s' w' = stored_update (stored s w) (ck_file_id c) (ck_index c) (ck_payload c)"
    "case r of
        None \<Rightarrow> \<not> (\<forall>j < ck_total_chunks c. stored s' w' (ck_file_id c) j \<noteq> None)
      | Some rec \<Rightarrow> (\<forall>j < ck_total_chunks c. stored s' w' (ck_file_id c) j \<noteq> None) \<and>
          pr_total_chunks rec = ck_total_chunks c \<and> pr_file_id rec = ck_file_id c \<and>
          pr_chunk_files rec = map (patch_path s (ck_file_id c)) [0..<ck_total_chunks c] \<and>
          pr_patches_dir rec = path_join (st_patches_dir s) (ck_file_id c)"
    using store_chunk_complete [OF assms, of now] by blast
  then show ?thesis
    by (intro exI [of _ r] exI [of _ s'] exI [of _ w'] conjI) (auto split: option.splits)
qed

theorem store_chunk_completes_witness:
  "\<exists>s' w'. store_chunk 10 0 (sample_chunk 1 [5]) sample_storage empty_world = (Inr None, s', w')"
proof -
  let ?c = "sample_chunk 1 [5]"
  have t: "totals_agree sample_storage ?c"
    by (simp add: totals_agree_def sample_storage_ok(4))
  have n: "no_faults empty_world"
    by (simp add: no_faults_def empty_world_def)
  have c: "plain_id (ck_file_id ?c)" "ck_index ?c < ck_total_chunks ?c" "verify_crc ?c" "ck_total_chunks ?c \<le> 10"
    by (simp_all add: sample_chunk_simps)
  obtain r s' w' where st: "store_chunk 10 0 ?c sample_storage empty_world = (Inr r, s', w')"
    "stored s' w' = stored_update (stored sample_storage empty_world) ''a'' 1 [5]"
    "r = None \<longleftrightarrow> (\<exists>j < 2. stored s' w' ''a'' j = None)"
    using store_chunk_completes [OF sample_storage_ok(1,2) c(1,2,3) n t c(4), of 0]
    unfolding sample_chunk_simps by blast
  have "stored s' w' ''a'' 0 = None"
    by (simp add: st(2) stored_update_def) (simp add: stored_def sample_storage_ok(4))
  then have "r = None"
    using st(3) by (metis zero_less_numeral)
  then show ?thesis using st(1) by blast
qed

text \<open>In every state the server can bring the store into, by any calls with any arguments and any
  operating system replies, the class invariant holds and no received patch has lost its file.\<close>

theorem storage_reachable_ok:
  assumes "storage_start (s, w)" and "storage_step\<^sup>*\<^sup>* (s, w) (s', w')"
  shows "storage_ok s' \<and> files_present s' w'"
  using storage_sys.reachable_good [OF assms] by (simp add: storage_good_def)

theorem storage_reachable_ok_witness:
  "storage_ok (fst (update_ttl 60 sample_storage empty_world))"
proof -
  obtain s' w' where u: "update_ttl 60 sample_storage empty_world = (s', w')" by fastforce
  have "storage_step\<^sup>*\<^sup>* (sample_storage, empty_world) (s', w')"
    using step_ttl [of sample_storage empty_world 60] by (simp add: u r_into_rtranclp)
  then show ?thesis
    using storage_reachable_ok sample_storage_ok
    by (fastforce simp: storage_start_def u)
qed

text \<open>A clean-up sweep forgets exactly the files whose time to live has run out and leaves the stored
  payloads of all others untouched, whatever the operating system replies.\<close>

theorem cleanup_removes_exactly_expired:
  assumes "storage_ok s" and "cleanup_expired now s w = (s', w')"
    and "map_of (st_payloads s) fid = Some e" and "0 \<le> pe_ttl e" and "pe_ttl e \<le> 9223372036"
  shows "if now - pe_last_update e > pe_ttl e * 1000000000
         then map_of (st_payloads s') fid = None
         else map_of (st_payloads s') fid = Some e \<and> stored s' w' fid = stored s w fid"
  using cleanup_expired_ok(2,3) [OF assms(1,2), of fid] assms(3-)
  by (auto simp: expired_def wrap64_id)

definition aged_storage :: storage where
  "aged_storage = sample_storage\<lparr>st_payloads := [(''a'', (add_chunk 0 sample_storage (sample_chunk 1 [5])
     (entry_for sample_storage (sample_chunk 1 [5]) (path_join (st_patches_dir sample_storage) ''a''))))]\<rparr>"

lemma aged_storage_ok: "storage_ok aged_storage"
proof -
  have "entry_ok sample_storage ''a'' (add_chunk 0 sample_storage (sample_chunk 1 [5])
     (entry_for sample_storage (sample_chunk 1 [5]) (path_join (st_patches_dir sample_storage) ''a'')))"
    using add_chunk_ok(1) [OF entry_for_ok [OF sample_storage_ok(1)], of "sample_chunk 1 [5]" 0]
    by (simp add: sample_chunk_simps)
  then show ?thesis
    using storage_ok_set [OF sample_storage_ok(1)] by (simp add: aged_storage_def sample_storage_ok(4))
qed

theorem cleanup_removes_exactly_expired_witness:
  "\<exists>s' w'. cleanup_expired 3600000000001 aged_storage empty_world = (s', w') \<and> map_of (st_payloads s') ''a'' = None"
proof -
  obtain s' w' where c: "cleanup_expired 3600000000001 aged_storage empty_world = (s', w')" by fastforce
  have "st_default_ttl sample_storage = 3600"
    by (simp add: sample_storage_def storage_new_def Let_def split: prod.split)
  then show ?thesis
    using cleanup_removes_exactly_expired [OF aged_storage_ok c, of "''a''"] c
    by (simp add: aged_storage_def add_chunk_def Let_def sample_chunk_def)
qed

text \<open>A time to live above 9223372036 seconds, which the control channel accepts, does not fit the
  nanosecond comparison: with 9223372037 s every stored file is swept away at once.\<close>

theorem huge_ttl_expires_at_once:
  assumes "cleanup_expired now s' w' = (s'', w'')" and "update_ttl 9223372037 s w = (s', w')"
    and "\<forall>(fid, e) \<in> set (st_payloads s). pe_last_update e \<le> now"
  shows "st_payloads s'' = []"
proof -
  have "expired now e" if mem: "(fid, e) \<in> set (st_payloads s')" for fid e
  proof -
    obtain b where "(fid, b) \<in> set (st_payloads s)" and e: "e = b\<lparr>pe_ttl := 9223372037\<rparr>"
    proof -
      have "st_payloads s' = map (\<lambda>(fid, e). (fid, e\<lparr>pe_ttl := 9223372037\<rparr>)) (st_payloads s)"
        using assms(2) by (auto simp: update_ttl_def Let_def)
      then show thesis
        using mem that by auto
    qed
    then have "pe_last_update b \<le> now"
      using assms(3) by blast
    then show ?thesis
      by (simp add: e expired_def wrap64_def)
  qed
  then have "filter (\<lambda>(_, e). \<not> expired now e) (st_payloads s') = []"
    by (auto simp: filter_empty_conv)
  then show ?thesis
    using assms(1) cleanup_loop_kept [of now "st_payloads s'" w']
    by (auto simp: cleanup_expired_def split: prod.splits)
qed

theorem huge_ttl_expires_at_once_witness:
  "st_payloads (fst (case update_ttl 9223372037 aged_storage empty_world of (s', w') \<Rightarrow> cleanup_expired 1 s' w')) = []"
proof -
  obtain s' w' where u: "update_ttl 9223372037 aged_storage empty_world = (s', w')" by fastforce
  obtain s'' w'' where c: "cleanup_expired 1 s' w' = (s'', w'')" by fastforce
  show ?thesis
    using huge_ttl_expires_at_once [OF c u]
    by (simp add: u c) (simp add: aged_storage_def add_chunk_def Let_def)
qed

end
