(* ===== verification/Assembler.thy ===== *)
theory Assembler
  imports Storage
begin

text \<open>
  \<^verbatim>\<open>Server/src/assembler.hpp\<close>: decompressing the patches of a complete file into the published file.
  The zstd library is a parameter: the record \<open>zstd_d\<close> holds its streaming decoder, and
  \<open>decodes_frame\<close> states the documented behaviour the code relies on (progress, return value 0
  exactly at the end of a flushed frame). The lemmas show that a complete set of patches of a frame
  is published as the decoded data, and that every failure leaves the published file as it was.
\<close>

section \<open>The zstd decoder\<close>

datatype zret = ZError | ZRet nat

record 'z zstd_d =
  zd_create :: "'z option"
  zd_out_size :: nat
  zd_step :: "nat \<Rightarrow> byte list \<Rightarrow> 'z \<Rightarrow> (byte list \<times> nat \<times> zret) \<times> 'z"

text \<open>
  \<open>r z rem out\<close>: the decoder in state \<open>z\<close> still has to be given the bytes \<open>rem\<close> of the frame and
  will still deliver \<open>out\<close>. One call with any non-empty prefix of \<open>rem\<close> succeeds, makes progress,
  delivers a prefix of \<open>out\<close>, returns 0 exactly when the frame is finished, and consumes the last
  byte of the frame only when everything is flushed.
\<close>

definition zd_law :: "'z zstd_d \<Rightarrow> ('z \<Rightarrow> byte list \<Rightarrow> byte list \<Rightarrow> bool) \<Rightarrow> bool" where
  "zd_law d r \<longleftrightarrow>
     (\<forall>z rem out inp later o1 k ret z'.
        r z rem out \<and> rem = inp @ later \<and> inp \<noteq> [] \<and> zd_step d (zd_out_size d) inp z = ((o1, k, ret), z') \<longrightarrow>
        k \<le> length inp \<and> (k > 0 \<or> o1 \<noteq> []) \<and>
        (\<exists>out2 p. out = o1 @ out2 \<and> ret = ZRet p \<and> r z' (drop k rem) out2 \<and>
           (p = 0 \<longleftrightarrow> drop k rem = []) \<and> (drop k rem = [] \<longrightarrow> out2 = [])))"

definition decodes_frame :: "'z zstd_d \<Rightarrow> byte list \<Rightarrow> byte list \<Rightarrow> bool" where
  "decodes_frame d frame data \<longleftrightarrow> (\<exists>r z. zd_create d = Some z \<and> r z frame data \<and> zd_law d r)"

section \<open>The operation\<close>

function flush_buffer :: "string \<Rightarrow> byte list \<Rightarrow> nat \<Rightarrow> world \<Rightarrow> bool \<times> world" where
  "flush_buffer fd data written_total w =
     (if written_total < length data
      then case sys_write fd (drop written_total data) w of
             (WErr, w) \<Rightarrow> (False, w)
           | (WIntr, w) \<Rightarrow> flush_buffer fd data written_total w
           | (WDone written, w) \<Rightarrow> flush_buffer fd data (written_total + written) w
      else (True, w))"
  by pat_completeness auto
termination
  by (relation "measure (\<lambda>(fd, data, n, w). (length data - n) + length (w_replies w))")
     (auto simp: sys_write_def append_file_def next_reply.simps
       split: list.splits reply.splits prod.splits)

declare flush_buffer.simps [simp del]

partial_function (option) inflate_loop ::
    "'z zstd_d \<Rightarrow> string \<Rightarrow> byte list \<Rightarrow> 'z \<Rightarrow> nat \<Rightarrow> world \<Rightarrow> (bool \<times> 'z \<times> nat \<times> world) option" where
  "inflate_loop d fd input z pending w =
     (if input = [] then Some (True, z, pending, w)
      else let ((out, pos, ret), z) = zd_step d (zd_out_size d) input z
           in case ret of
                ZError \<Rightarrow> Some (False, z, pending, w)
              | ZRet n \<Rightarrow>
                  (let (flushed, w) = flush_buffer fd out 0 w
                   in if \<not> flushed then Some (False, z, n, w)
                      else inflate_loop d fd (drop pos input) z n w))"

fun inflate_chunks ::
    "'z zstd_d \<Rightarrow> string \<Rightarrow> string list \<Rightarrow> 'z \<Rightarrow> nat \<Rightarrow> world \<Rightarrow> (bool \<times> nat \<times> world) option" where
  "inflate_chunks d fd [] z pending w = Some (True, pending, w)"
| "inflate_chunks d fd (path # paths) z pending w =
     (if path = [] then Some (False, pending, w)
      else let (content, w) = fs_read_file path w
           in case content of
                None \<Rightarrow> Some (False, pending, w)
              | Some input \<Rightarrow>
                  (case inflate_loop d fd input z pending w of
                     None \<Rightarrow> None
                   | Some (success, z, pending, w) \<Rightarrow>
                       if success then inflate_chunks d fd paths z pending w
                       else Some (False, pending, w)))"

definition assemble ::
    "'z zstd_d \<Rightarrow> string \<Rightarrow> payload_record \<Rightarrow> world \<Rightarrow> (string option \<times> world) option" where
  "assemble d files_root rec w =
     (if length (pr_chunk_files rec) \<noteq> pr_total_chunks rec then Some (None, w)
      else
        let part_path = path_join files_root (pr_original_name rec @ ''.part'');
            (out_fd, w) = sys_open part_path w
        in if \<not> out_fd then Some (None, w)
        else case zd_create d of
          None \<Rightarrow> Some (None, sys_unlink part_path w)
        | Some z \<Rightarrow>
            (case inflate_chunks d part_path (pr_chunk_files rec) z 0 w of
               None \<Rightarrow> None
             | Some (success, pending, w) \<Rightarrow>
                 let success = (success \<and> pending = 0);
                     (synced, w) = sys_fsync part_path w;
                     success = (success \<and> synced)
                 in if \<not> success then Some (None, sys_unlink part_path w)
                 else
                   let final_path = path_join files_root (pr_original_name rec);
                       (renamed, w) = fs_rename part_path final_path w
                   in if \<not> renamed then Some (None, w)
                   else let (_, w) = fs_remove_all (pr_patches_dir rec) w
                        in Some (Some final_path, w)))"

section \<open>Lemmas\<close>

lemma flush_buffer_write_loop: "flush_buffer p d n w = write_loop p (drop n d) w"
proof (induction p d n w rule: flush_buffer.induct)
  case (1 p d n w)
  obtain r w1 where sw: "sys_write p (drop n d) w = (r, w1)" by fastforce
  show ?case
  proof (cases "n < length d")
    case True
    then show ?thesis
      using "1.IH" [OF True sw [symmetric]] sw
      by (subst flush_buffer.simps, subst write_loop.simps) (cases r; simp add: add.commute)
  next
    case False
    then show ?thesis
      by (subst flush_buffer.simps, subst write_loop.simps) simp
  qed
qed

interpretation assembler_flush: write_loop_contract "\<lambda>p d. flush_buffer p d 0"
  by unfold_locales
     (simp_all add: flush_buffer_write_loop storage_write.writes_prefix storage_write.succeeds
        storage_write.replies_kept)

text \<open>One chunk of a frame.\<close>

lemma inflate_loop_frame:
  assumes law: "zd_law d r"
  shows "r z (input @ later) out \<Longrightarrow> no_faults w \<Longrightarrow> w_files w fd = Some c \<Longrightarrow>
     \<exists>z' p' w' o1 o2. inflate_loop d fd input z pending w = Some (True, z', p', w') \<and> out = o1 @ o2 \<and>
       r z' later o2 \<and> no_faults w' \<and> w_files w' = (w_files w)(fd \<mapsto> c @ o1) \<and>
       (if input = [] then p' = pending \<and> o1 = [] else (p' = 0 \<longleftrightarrow> later = []) \<and> (later = [] \<longrightarrow> o2 = []))"
proof (induction "length input + length out" arbitrary: z input out w c pending rule: less_induct)
  case less
  show ?case
  proof (cases "input = []")
    case True
    then show ?thesis
      using less.prems by (subst inflate_loop.simps) (auto simp: map_upd_triv)
  next
    case False
    obtain o1 k ret z1 where st: "zd_step d (zd_out_size d) input z = ((o1, k, ret), z1)"
      by (metis prod.collapse)
    obtain out2 p where k: "k \<le> length input" "k > 0 \<or> o1 \<noteq> []" and out: "out = o1 @ out2"
      and ret: "ret = ZRet p" and r: "r z1 (drop k (input @ later)) out2"
      and p: "p = 0 \<longleftrightarrow> drop k (input @ later) = []" "drop k (input @ later) = [] \<longrightarrow> out2 = []"
      using law less.prems(1) False st unfolding zd_law_def by metis
    obtain w1 where fl: "flush_buffer fd o1 0 w = (True, w1)" "no_faults w1" "w_files w1 = (w_files w)(fd \<mapsto> c @ o1)"
      using assembler_flush.no_faults_loop [OF less.prems(2,3), of o1] by auto
    have step: "inflate_loop d fd input z pending w = inflate_loop d fd (drop k input) z1 p w1"
      using False st ret fl by (subst inflate_loop.simps) simp
    have dk: "drop k (input @ later) = drop k input @ later"
      using k by simp
    have "k > 0 \<or> 0 < length o1"
      using k(2) by auto
    then have "length (drop k input) + length out2 < length input + length out"
      using k(1) unfolding out length_append length_drop by linarith
    then obtain z' p' w' o3 o4 where ih: "inflate_loop d fd (drop k input) z1 p w1 = Some (True, z', p', w')"
        "out2 = o3 @ o4" "r z' later o4" "no_faults w'" "w_files w' = (w_files w1)(fd \<mapsto> (c @ o1) @ o3)"
        "if drop k input = [] then p' = p \<and> o3 = [] else (p' = 0 \<longleftrightarrow> later = []) \<and> (later = [] \<longrightarrow> o4 = [])"
      using less.hyps [of "drop k input" out2 z1 w1 "c @ o1" p] r fl unfolding dk by auto
    have fin: "(p' = 0 \<longleftrightarrow> later = []) \<and> (later = [] \<longrightarrow> o4 = [])"
      using ih(2,6) p dk by (auto split: if_splits)
    have "w_files w' = (w_files w)(fd \<mapsto> c @ (o1 @ o3))"
      using ih(5) fl(3) by simp
    then show ?thesis
      using step ih(1-4) out False fin
      by (intro exI [of _ z'] exI [of _ p'] exI [of _ w'] exI [of _ "o1 @ o3"] exI [of _ o4]) simp
  qed
qed

text \<open>All chunks of a frame.\<close>

lemma inflate_chunks_frame:
  assumes law: "zd_law d r"
  shows "list_all2 (\<lambda>p x. p \<noteq> [] \<and> p \<noteq> fd \<and> w_files w p = Some x) paths parts \<Longrightarrow>
     r z (concat parts) out \<Longrightarrow> no_faults w \<Longrightarrow> w_files w fd = Some c \<Longrightarrow>
     (concat parts = [] \<longrightarrow> pending = 0 \<and> out = []) \<Longrightarrow>
     \<exists>w'. inflate_chunks d fd paths z pending w = Some (True, 0, w') \<and> no_faults w' \<and>
          w_files w' = (w_files w)(fd \<mapsto> c @ out)"
proof (induction paths arbitrary: parts z out w c pending)
  case Nil
  then show ?case by (auto simp: map_upd_triv)
next
  case (Cons p ps)
  then obtain x xs where parts: "parts = x # xs" by (cases parts) auto
  have p: "p \<noteq> []" "p \<noteq> fd" "w_files w p = Some x"
    and rest: "list_all2 (\<lambda>p x. p \<noteq> [] \<and> p \<noteq> fd \<and> w_files w p = Some x) ps xs"
    using Cons.prems(1) by (simp_all add: parts)
  obtain w1 where rd: "fs_read_file p w = (Some x, w1)" "no_faults w1" "w_files w1 = w_files w"
    using no_faults_calls(6) [OF Cons.prems(3), of p] p(3) by auto
  have "r z (x @ concat xs) out"
    using Cons.prems(2) by (simp add: parts)
  then obtain z' p' w2 o1 o2 where il: "inflate_loop d fd x z pending w1 = Some (True, z', p', w2)"
      "out = o1 @ o2" "r z' (concat xs) o2" "no_faults w2" "w_files w2 = (w_files w1)(fd \<mapsto> c @ o1)"
      "if x = [] then p' = pending \<and> o1 = [] else (p' = 0 \<longleftrightarrow> concat xs = []) \<and> (concat xs = [] \<longrightarrow> o2 = [])"
    using inflate_loop_frame [OF law, of z x "concat xs" out w1 fd c pending] rd Cons.prems(4) by auto
  have "list_all2 (\<lambda>p x. p \<noteq> [] \<and> p \<noteq> fd \<and> w_files w2 p = Some x) ps xs"
    using rest by (rule list_all2_mono) (simp add: il(5) rd(3))
  moreover have fd: "w_files w2 fd = Some (c @ o1)"
    by (simp add: il(5))
  moreover have "concat xs = [] \<longrightarrow> p' = 0 \<and> o2 = []"
    using il(2,6) Cons.prems(5) by (auto simp: parts split: if_splits)
  ultimately obtain w3 where "inflate_chunks d fd ps z' p' w2 = Some (True, 0, w3)" "no_faults w3"
      "w_files w3 = (w_files w2)(fd \<mapsto> (c @ o1) @ o2)"
    using Cons.IH [of w2 xs z' o2 "c @ o1" p'] il(3,4) fd by blast
  then show ?case
    using p rd il by (auto simp: fun_eq_iff)
qed

lemma assemble_frame:
  assumes rec: "length (pr_chunk_files rec) = pr_total_chunks rec"
    and part: "part = path_join root (pr_original_name rec @ ''.part'')"
    and final: "final = path_join root (pr_original_name rec)"
    and chunks: "list_all2 (\<lambda>p x. p \<noteq> [] \<and> p \<noteq> part \<and> w_files w p = Some x) (pr_chunk_files rec) parts"
    and frame: "decodes_frame d (concat parts) data" "concat parts \<noteq> []"
    and w: "no_faults w"
  shows "\<exists>w'. assemble d root rec w = Some (Some final, w') \<and> no_faults w' \<and>
     w_files w' = (\<lambda>q. if below (pr_patches_dir rec) q then None
                       else if q = final then Some data else if q = part then None else w_files w q)"
proof -
  obtain r z where z: "zd_create d = Some z" and rz: "r z (concat parts) data" and law: "zd_law d r"
    using frame(1) by (auto simp: decodes_frame_def)
  obtain w1 where w1: "sys_open part w = (True, w1)" "no_faults w1" "w_files w1 = (w_files w)(part \<mapsto> [])"
    using no_faults_calls(1) [OF w] by blast
  have c1: "list_all2 (\<lambda>p x. p \<noteq> [] \<and> p \<noteq> part \<and> w_files w1 p = Some x) (pr_chunk_files rec) parts"
    using chunks by (rule list_all2_mono) (simp add: w1(3))
  obtain w2 where w2: "inflate_chunks d part (pr_chunk_files rec) z 0 w1 = Some (True, 0, w2)" "no_faults w2"
      "w_files w2 = (w_files w)(part \<mapsto> data)"
    using inflate_chunks_frame [OF law c1 rz w1(2), of "[]" 0] frame(2) w1(3) by auto
  obtain w3 where w3: "sys_fsync part w2 = (True, w3)" "no_faults w3" "w_files w3 = w_files w2"
    using no_faults_calls(2) [OF w2(2)] by blast
  obtain w4 where w4: "fs_rename part final w3 = (True, w4)" "no_faults w4"
      "w_files w4 = (w_files w3)(part := None, final \<mapsto> data)"
    using no_faults_calls(4) [OF w3(2), of part data final] w2(3) w3(3) by auto
  obtain w5 where w5: "fs_remove_all (pr_patches_dir rec) w4 = (True, w5)" "no_faults w5"
      "w_files w5 = (\<lambda>q. if below (pr_patches_dir rec) q then None else w_files w4 q)"
    using no_faults_calls(5) [OF w4(2)] by blast
  have "assemble d root rec w = Some (Some final, w5)"
    using rec by (simp add: assemble_def Let_def part [symmetric] final [symmetric] w1 z w2 w3 w4 w5)
  moreover have "w_files w5 = (\<lambda>q. if below (pr_patches_dir rec) q then None
      else if q = final then Some data else if q = part then None else w_files w q)"
    using w5(3) w4(3) w3(3) w2(3) by (auto simp: fun_eq_iff)
  ultimately show ?thesis
    using w5(2) by blast
qed

text \<open>Failures: whatever the decoder and the operating system do, only the part file is touched.\<close>

lemma write_loop_other: "q \<noteq> p \<Longrightarrow> w_files (snd (write_loop p d w)) q = w_files w q"
proof (induction p d w rule: write_loop.induct)
  case (1 p d w)
  obtain r w1 where sw: "sys_write p d w = (r, w1)" by fastforce
  have "w_files w1 q = w_files w q"
    using sys_write_cases [OF sw] "1.prems" by (auto simp: append_file_def)
  then show ?case
    using "1.IH" [OF _ sw [symmetric]] "1.prems" sw by (subst write_loop.simps) (cases r; simp)
qed

lemma inflate_loop_other:
  "inflate_loop d fd input z pending w = Some res \<Longrightarrow> q \<noteq> fd \<Longrightarrow> w_files (snd (snd (snd res))) q = w_files w q"
proof (induction rule: inflate_loop.raw_induct [rotated, consumes 1, case_names step])
  case (step loop d fd input z pending w res)
  note prems = step.prems and body = step.hyps and IH = step.IH
  show ?case
  proof (cases "input = []")
    case True
    then show ?thesis using body by auto
  next
    case False
    obtain o1 k ret z1 where st: "zd_step d (zd_out_size d) input z = ((o1, k, ret), z1)"
      by (metis prod.collapse)
    obtain ok w1 where fl: "flush_buffer fd o1 0 w = (ok, w1)" by fastforce
    have w1: "w_files w1 q = w_files w q"
      using write_loop_other [OF \<open>q \<noteq> fd\<close>, of o1 w] fl by (simp add: flush_buffer_write_loop)
    show ?thesis
      using body False st fl w1 IH [OF _ \<open>q \<noteq> fd\<close>]
      by (cases ret) (auto split: if_splits)
  qed
qed

lemma inflate_chunks_other:
  "q \<noteq> fd \<Longrightarrow> inflate_chunks d fd paths z pending w = Some (ok, p', w') \<Longrightarrow> w_files w' q = w_files w q"
proof (induction d fd paths z pending w arbitrary: ok p' w' rule: inflate_chunks.induct)
  case (2 d fd path paths z pending w)
  obtain content w1 where rd: "fs_read_file path w = (content, w1)" by fastforce
  then have w1: "w_files w1 = w_files w"
    by (auto simp: fs_read_file_def split: prod.splits dest!: next_reply_files)
  show ?case
  proof (cases "path = [] \<or> content = None")
    case True
    then show ?thesis using "2.prems" rd w1 by (auto split: if_splits)
  next
    case False
    then obtain input where c: "content = Some input" and p: "path \<noteq> []" by auto
    obtain res where il: "inflate_loop d fd input z pending w1 = Some res"
      using "2.prems" rd c p by (auto split: option.splits)
    obtain success z1 p1 w2 where res: "res = (success, z1, p1, w2)" by (metis prod_cases4)
    have w2: "w_files w2 q = w_files w q"
      using inflate_loop_other [OF il \<open>q \<noteq> fd\<close>] w1 by (simp add: res)
    show ?thesis
    proof (cases success)
      case True
      then have run: "inflate_chunks d fd paths z1 p1 w2 = Some (ok, p', w')"
        using "2.prems"(2) rd c p il res by simp
      show ?thesis
        using "2.IH" [OF p refl rd [symmetric] c il [unfolded res] refl refl refl True "2.prems"(1) run] w2
        by simp
    next
      case False
      then show ?thesis
        using "2.prems"(2) rd c p il res w2 by simp
    qed
  qed
qed auto

lemma assemble_failure:
  assumes a: "assemble d root rec w = Some (None, w')"
    and q: "q \<noteq> path_join root (pr_original_name rec @ ''.part'')"
  shows "w_files w' q = w_files w q"
proof -
  let ?part = "path_join root (pr_original_name rec @ ''.part'')"
  let ?final = "path_join root (pr_original_name rec)"
  obtain fd w1 where o: "sys_open ?part w = (fd, w1)" by fastforce
  have w1: "w_files w1 q = w_files w q"
    using sys_open_ok [OF o] q by auto
  consider (len) "length (pr_chunk_files rec) \<noteq> pr_total_chunks rec" | (early) "length (pr_chunk_files rec) = pr_total_chunks rec"
      "\<not> fd \<or> zd_create d = None"
    | (run) z where "length (pr_chunk_files rec) = pr_total_chunks rec" "fd" "zd_create d = Some z"
    by (cases "zd_create d") auto
  then show ?thesis
  proof cases
    case len
    then show ?thesis using a by (simp add: assemble_def)
  next
    case early
    then show ?thesis
      using a o w1 q by (auto simp: assemble_def Let_def sys_unlink_def split: if_splits)
  next
    case run
    obtain ok p1 w2 where ic: "inflate_chunks d ?part (pr_chunk_files rec) z 0 w1 = Some (ok, p1, w2)"
      using a o run by (auto simp: assemble_def Let_def split: option.splits)
    have w2: "w_files w2 q = w_files w q"
      using inflate_chunks_other [OF q ic] w1 by simp
    obtain sy w3 where f: "sys_fsync ?part w2 = (sy, w3)" by fastforce
    have w3: "w_files w3 q = w_files w q"
      using sys_fsync_files [OF f] w2 by simp
    obtain rn w4 where rn: "fs_rename ?part ?final w3 = (rn, w4)" by fastforce
    have "w_files w4 q = w_files w q" if "\<not> rn"
      using fs_rename_cases [OF rn] w3 that by simp
    then show ?thesis
      using a o run ic f rn w3 q
      by (auto simp: assemble_def Let_def sys_unlink_def split: if_splits prod.splits)
  qed
qed

section \<open>A toy decoder\<close>

text \<open>
  An instance of the decoder's law: a frame is its data, escaped by a leading 1 before every byte,
  and a final 0. The decoder consumes one byte per call.
\<close>

datatype toy_state = AtMark | AtByte | Finished

definition toy_decoder :: "toy_state zstd_d" where
  "toy_decoder = \<lparr>zd_create = Some AtMark, zd_out_size = 16,
     zd_step = (\<lambda>_ input z. case z of
        AtMark \<Rightarrow> if hd input = 1 then (([], 1, ZRet 1), AtByte)
                  else if hd input = 0 then (([], 1, ZRet 0), Finished)
                  else (([], 0, ZError), Finished)
      | AtByte \<Rightarrow> (([hd input], 1, ZRet 1), AtMark)
      | Finished \<Rightarrow> (([], 0, ZError), Finished))\<rparr>"

definition toy_frame :: "byte list \<Rightarrow> byte list" where
  "toy_frame data = concat (map (\<lambda>b. [1, b]) data) @ [0]"

definition toy_pending :: "toy_state \<Rightarrow> byte list \<Rightarrow> byte list \<Rightarrow> bool" where
  "toy_pending z rem out = (case z of
       AtMark \<Rightarrow> rem = toy_frame out
     | AtByte \<Rightarrow> \<exists>b out'. out = b # out' \<and> rem = b # toy_frame out'
     | Finished \<Rightarrow> rem = [] \<and> out = [])"

lemma toy_frame_Cons: "toy_frame (b # bs) = 1 # b # toy_frame bs"
  by (simp add: toy_frame_def)

lemma toy_frame_Nil: "toy_frame [] = [0]"
  by (simp add: toy_frame_def)

lemma toy_frame_nonempty [simp]: "toy_frame d \<noteq> []"
  by (simp add: toy_frame_def)

lemma toy_law: "zd_law toy_decoder toy_pending"
  unfolding zd_law_def
proof (intro allI impI)
  fix z rem out inp later o1 k ret z'
  assume a: "toy_pending z rem out \<and> rem = inp @ later \<and> inp \<noteq> [] \<and>
    zd_step toy_decoder (zd_out_size toy_decoder) inp z = ((o1, k, ret), z')"
  then obtain x xs where inp: "inp = x # xs" by (cases inp) auto
  show "k \<le> length inp \<and> (k > 0 \<or> o1 \<noteq> []) \<and>
        (\<exists>out2 p. out = o1 @ out2 \<and> ret = ZRet p \<and> toy_pending z' (drop k rem) out2 \<and>
           (p = 0 \<longleftrightarrow> drop k rem = []) \<and> (drop k rem = [] \<longrightarrow> out2 = []))"
  proof (cases z)
    case AtMark
    then show ?thesis
      using a by (cases out) (auto simp: toy_pending_def toy_decoder_def inp toy_frame_Cons toy_frame_Nil)
  next
    case AtByte
    then show ?thesis
      using a by (auto simp: toy_pending_def toy_decoder_def inp toy_frame_nonempty [symmetric])
  next
    case Finished
    then show ?thesis
      using a by (auto simp: toy_pending_def)
  qed
qed

lemma toy_decodes: "decodes_frame toy_decoder (toy_frame data) data"
proof -
  have "zd_create toy_decoder = Some AtMark" "toy_pending AtMark (toy_frame data) data"
    by (simp_all add: toy_decoder_def toy_pending_def)
  then show ?thesis
    using toy_law unfolding decodes_frame_def by blast
qed

section \<open>Properties\<close>

text \<open>A complete record whose patch files, in index order, hold any split of a zstd frame is published
  as exactly the decoded data under the original name; the part file and the patches are gone. The
  loop over the decoder always ends.\<close>

theorem assemble_publishes:
  assumes "length (pr_chunk_files rec) = pr_total_chunks rec"
    and "list_all2 (\<lambda>p x. p \<noteq> [] \<and> p \<noteq> path_join root (pr_original_name rec @ ''.part'') \<and> w_files w p = Some x)
           (pr_chunk_files rec) parts"
    and "decodes_frame d (concat parts) data" and "concat parts \<noteq> []" and "no_faults w"
    and "\<not> below (pr_patches_dir rec) (path_join root (pr_original_name rec))"
  shows "\<exists>w'. assemble d root rec w = Some (Some (path_join root (pr_original_name rec)), w') \<and>
     w_files w' (path_join root (pr_original_name rec)) = Some data \<and>
     (\<forall>q. below (pr_patches_dir rec) q \<longrightarrow> w_files w' q = None)"
  using assemble_frame [OF assms(1) refl refl assms(2-5)] assms(6) by auto

definition sample_record :: payload_record where
  "sample_record = \<lparr>pr_file_id = ''a'', pr_original_name = ''a.txt'', pr_total_chunks = 2,
     pr_patches_dir = ''d/patches/a'', pr_files_dir = ''d/files'',
     pr_chunk_files = [''d/patches/a/patch_0.bin'', ''d/patches/a/patch_1.bin'']\<rparr>"

definition sample_world :: world where
  "sample_world = \<lparr>w_files = [''d/patches/a/patch_0.bin'' \<mapsto> [1, 7, 1], ''d/patches/a/patch_1.bin'' \<mapsto> [8, 0]],
     w_replies = []\<rparr>"

theorem assemble_publishes_witness:
  "\<exists>w'. assemble toy_decoder ''d/files'' sample_record sample_world = Some (Some ''d/files/a.txt'', w') \<and>
        w_files w' ''d/files/a.txt'' = Some [7, 8]"
proof -
  have fr: "concat [[1, 7, 1], [8, 0]] = toy_frame [7, 8]"
    by (simp add: toy_frame_def)
  have dec: "decodes_frame toy_decoder (concat [[1, 7, 1], [8, 0]]) [7, 8]"
    unfolding fr by (rule toy_decodes)
  show ?thesis
    using assemble_publishes [of sample_record "''d/files''" sample_world "[[1, 7, 1], [8, 0]]" toy_decoder "[7, 8]", OF _ _ dec]
    by (simp add: sample_record_def sample_world_def path_join_def below_def no_faults_def)
      blast
qed

text \<open>C15. An assembly that fails, for whatever reason and at whatever step (short set of patches, missing
  or unreadable patch, any decoder answer, any failing system call), changes no file but the part
  file: the published file and the patches stay as they were.\<close>

theorem assemble_failure_is_safe:
  assumes "assemble d root rec w = Some (None, w')"
    and "q \<noteq> path_join root (pr_original_name rec @ ''.part'')"
  shows "w_files w' q = w_files w q"
  using assms by (rule assemble_failure)

theorem assemble_failure_is_safe_witness:
  "w_files (snd (the (assemble toy_decoder ''d/files'' (sample_record\<lparr>pr_chunk_files := [''d/patches/a/patch_0.bin'', []]\<rparr>)
      (sample_world\<lparr>w_files := (w_files sample_world)(''d/files/a.txt'' \<mapsto> [3])\<rparr>)))) ''d/files/a.txt'' = Some [3]"
proof -
  let ?r = "sample_record\<lparr>pr_chunk_files := [''d/patches/a/patch_0.bin'', []]\<rparr>"
  let ?w = "sample_world\<lparr>w_files := (w_files sample_world)(''d/files/a.txt'' \<mapsto> [3])\<rparr>"
  obtain w' where a: "assemble toy_decoder ''d/files'' ?r ?w = Some (None, w')"
    by (simp add: assemble_def Let_def sample_record_def sample_world_def path_join_def sys_defs next_reply.simps
        reply_fails_def toy_decoder_def inflate_loop.simps flush_buffer.simps)
  then show ?thesis
    using assemble_failure_is_safe [OF a, of "''d/files/a.txt''"]
    by (simp add: path_join_def sample_record_def)
qed

end
