(* ===== verification/Socket_Input.thy ===== *)
theory Socket_Input
  imports SV_Prelude
begin

text \<open>
  Reading from a TCP connection the way the server does: \<open>asio::read_until\<close> with a stream buffer for
  lines, \<open>read_some\<close> on the socket for binary data. A connection is the list of segments the reads
  will return (every way to cut the byte stream, and so every timing, is such a list); after the
  last one a read reports an error (end of file). The lemmas give the one fact about lines that does
  not depend on the segmentation, and what the direct reads see.
\<close>

type_synonym segments = "byte list list"

text \<open>A connection: the unread segments and the contents of the stream buffer.\<close>

type_synonym conn = "segments \<times> byte list"

text \<open>\<open>asio::read_until(socket, buffer, '\n', ec)\<close>; \<open>None\<close> is an error code.\<close>

fun read_until :: "segments \<Rightarrow> byte list \<Rightarrow> conn option" where
  "read_until segs buffer =
     (if 10 \<in> set buffer then Some (segs, buffer)
      else case segs of
             [] \<Rightarrow> None
           | seg # rest \<Rightarrow> read_until rest (buffer @ seg))"

declare read_until.simps [simp del]

text \<open>\<open>std::getline\<close> on the stream buffer after a successful \<open>read_until\<close>.\<close>

definition get_line :: "byte list \<Rightarrow> string \<times> byte list" where
  "get_line buffer =
     (string_of (takeWhile (\<lambda>b. b \<noteq> 10) buffer), drop 1 (dropWhile (\<lambda>b. b \<noteq> 10) buffer))"

definition read_line :: "conn \<Rightarrow> (string \<times> conn) option" where
  "read_line c = (case read_until (fst c) (snd c) of
       None \<Rightarrow> None
     | Some (segs, buffer) \<Rightarrow> (let (line, rest) = get_line buffer in Some (line, (segs, rest))))"

text \<open>The loop of \<open>read_some\<close> calls that fills a payload buffer, starting with \<open>n\<close> bytes missing.\<close>

function read_exact :: "nat \<Rightarrow> byte list \<Rightarrow> segments \<Rightarrow> (byte list \<times> segments) option" where
  "read_exact n acc segs =
     (if n = 0 then Some (acc, segs)
      else case segs of
             [] \<Rightarrow> None
           | seg # rest \<Rightarrow>
               let k = min n (length seg)
               in read_exact (n - k) (acc @ take k seg) (if k < length seg then drop k seg # rest else rest))"
  by pat_completeness auto
termination
  by (relation "measure (\<lambda>(n, acc, segs). n + length segs)") (auto simp: min_def split: if_splits)

declare read_exact.simps [simp del]

text \<open>What is still to come on a connection, buffered or not.\<close>

definition stream :: "conn \<Rightarrow> byte list" where
  "stream c = snd c @ concat (fst c)"

lemma newline_byte: "char_of_byte 10 = newline" "byte_of_char newline = 10"
proof -
  show b: "byte_of_char newline = 10"
    by (simp add: byte_of_char_def)
  show "char_of_byte 10 = newline"
    by (simp only: b [symmetric] char_of_byte_of_char)
qed

lemma byte_newline_iff: "byte_of_char c = 10 \<longleftrightarrow> c = newline"
  by (metis char_of_byte_of_char newline_byte)

lemma newline_notin_bytes_of: "newline \<notin> set line \<longleftrightarrow> 10 \<notin> set (bytes_of line)"
  using byte_newline_iff by (force simp: bytes_of_def)

lemma read_until_Some:
  "read_until segs buffer = Some (segs', buffer') \<Longrightarrow>
     buffer' @ concat segs' = buffer @ concat segs \<and> 10 \<in> set buffer'"
proof (induction segs buffer rule: read_until.induct)
  case (1 segs buffer)
  then show ?case
    by (subst (asm) (2) read_until.simps) (auto split: if_splits list.splits)
qed

lemma read_until_None: "read_until segs buffer = None \<longleftrightarrow> 10 \<notin> set (buffer @ concat segs)"
proof (induction segs buffer rule: read_until.induct)
  case (1 segs buffer)
  show ?case
    using 1 by (subst read_until.simps) (auto split: list.splits)
qed

lemma get_line_newline:
  assumes "10 \<in> set buffer"
  shows "buffer = bytes_of (fst (get_line buffer)) @ 10 # snd (get_line buffer)"
    and "newline \<notin> set (fst (get_line buffer))"
proof -
  obtain a b where ab: "buffer = a @ 10 # b" "10 \<notin> set a"
    using assms by (meson split_list_first)
  have "takeWhile (\<lambda>x. x \<noteq> 10) (a @ 10 # b) = a" "dropWhile (\<lambda>x. x \<noteq> 10) (a @ 10 # b) = 10 # b"
    using ab(2) by (induction a) auto
  then have g: "get_line buffer = (string_of a, b)"
    by (simp add: get_line_def ab(1))
  show "buffer = bytes_of (fst (get_line buffer)) @ 10 # snd (get_line buffer)"
    unfolding g fst_conv snd_conv bytes_of_string_of by (rule ab(1))
  have "10 \<notin> set (bytes_of (string_of a))"
    using ab(2) by simp
  then show "newline \<notin> set (fst (get_line buffer))"
    unfolding g by (simp only: newline_notin_bytes_of fst_conv not_False_eq_True)
qed

text \<open>Whatever the segmentation, a line of the stream is read as it is and the rest stays.\<close>

lemma append_newline_inject:
  assumes "a @ (10 :: byte) # x = b @ 10 # y" and "10 \<notin> set a" and "10 \<notin> set b"
  shows "a = b \<and> x = y"
  using assms
proof (induction a arbitrary: b)
  case Nil
  then show ?case by (cases b) auto
next
  case (Cons c a)
  then show ?case by (cases b) auto
qed

lemma read_line_stream:
  assumes "stream c = bytes_of line @ 10 # rest" and "newline \<notin> set line"
  shows "\<exists>c'. read_line c = Some (line, c') \<and> stream c' = rest"
proof -
  obtain segs buffer where c: "c = (segs, buffer)" by fastforce
  have "10 \<in> set (buffer @ concat segs)"
    using assms by (simp add: stream_def c)
  then obtain segs' buffer' where ru: "read_until segs buffer = Some (segs', buffer')"
    using read_until_None [of segs buffer] by (cases "read_until segs buffer") auto
  note rs = read_until_Some [OF ru]
  obtain l r where gl: "get_line buffer' = (l, r)" by fastforce
  have "bytes_of l @ 10 # (r @ concat segs') = bytes_of line @ 10 # rest"
    using get_line_newline(1) [of buffer'] rs gl assms(1) by (auto simp: stream_def c)
  moreover have "10 \<notin> set (bytes_of l)" "10 \<notin> set (bytes_of line)"
    using get_line_newline(2) [of buffer'] rs gl assms(2) by (auto simp: newline_notin_bytes_of)
  ultimately have "bytes_of l = bytes_of line \<and> r @ concat segs' = rest"
    by (rule append_newline_inject)
  then have "l = line \<and> r @ concat segs' = rest"
    by (metis string_of_bytes_of)
  then show ?thesis
    using ru gl by (simp add: read_line_def c stream_def)
qed

lemma read_line_Some:
  assumes "read_line c = Some (line, c')"
  shows "stream c = bytes_of line @ 10 # stream c' \<and> newline \<notin> set line"
proof -
  obtain segs buffer where c: "c = (segs, buffer)" by fastforce
  obtain segs' buffer' where ru: "read_until segs buffer = Some (segs', buffer')"
    using assms by (auto simp: read_line_def c split: option.splits)
  note rs = read_until_Some [OF ru]
  have "line = fst (get_line buffer')" "c' = (segs', snd (get_line buffer'))"
    using assms ru by (auto simp: read_line_def c split: prod.splits)
  then have "buffer' = bytes_of line @ 10 # snd c'" "newline \<notin> set line" "fst c' = segs'"
    using get_line_newline [of buffer'] rs by simp_all
  then show ?thesis
    using rs by (simp add: stream_def c)
qed

text \<open>The direct reads see the unread segments only.\<close>

lemma read_exact_concat:
  "read_exact n acc segs =
     (if n \<le> length (concat segs)
      then Some (acc @ take n (concat segs), snd (the (read_exact n acc segs))) else None)"
proof (induction n acc segs rule: read_exact.induct)
  case (1 n acc segs)
  show ?case
  proof (cases "n = 0 \<or> segs = []")
    case True
    then show ?thesis by (subst (1 2) read_exact.simps) auto
  next
    case False
    then obtain seg rest where segs: "segs = seg # rest" by (cases segs) auto
    define k where "k = min n (length seg)"
    define segs' where "segs' = (if k < length seg then drop k seg # rest else rest)"
    have cc: "concat segs = take k seg @ concat segs'"
      by (auto simp: segs segs'_def k_def)
    have lk: "length (take k seg) = k" "k \<le> n"
      by (auto simp: k_def)
    have st: "read_exact n acc segs = read_exact (n - k) (acc @ take k seg) segs'"
      using False by (subst read_exact.simps) (simp add: segs k_def segs'_def Let_def)
    have "read_exact (n - k) (acc @ take k seg) segs' =
       (if n - k \<le> length (concat segs')
        then Some ((acc @ take k seg) @ take (n - k) (concat segs'),
                   snd (the (read_exact (n - k) (acc @ take k seg) segs'))) else None)"
      unfolding segs'_def by (rule 1 [OF _ segs k_def]) (use False in simp)
    moreover have "n \<le> length (concat segs) \<longleftrightarrow> n - k \<le> length (concat segs')"
      using lk unfolding cc length_append by linarith
    moreover have "take n (concat segs) = take k seg @ take (n - k) (concat segs')"
      using lk unfolding cc by simp
    ultimately show ?thesis
      unfolding st by (simp only: append_assoc)
  qed
qed

lemma read_exact_Some_iff: "(\<exists>r. read_exact n [] segs = Some r) \<longleftrightarrow> n \<le> length (concat segs)"
  using read_exact_concat [of n "[]" segs] by (auto split: if_splits)

lemma read_exact_payload: "read_exact n [] segs = Some (d, segs') \<Longrightarrow> d = take n (concat segs)"
  using read_exact_concat [of n "[]" segs] by (simp split: if_splits) (metis fst_conv option.inject)

end
