(* ===== verification/Data_Channel.thy ===== *)
theory Data_Channel
  imports Assembler Socket_Input
begin

text \<open>
  The data connection handler of \<^verbatim>\<open>Server/src/main.cpp\<close>: eight header lines, the payload, the store, the
  assembly and the reply. The lemmas show what the handler makes of every well-formed request in
  every segmentation, and two defects: payload bytes that arrive in the segment of the header are
  lost, and refused chunks are acknowledged.
\<close>

section \<open>State\<close>

record server_metrics =
  sm_accepted :: u64
  sm_health :: u64
  sm_telemetry :: u64
  sm_control :: u64
  sm_acks :: u64
  sm_data_connections :: u64
  sm_chunks :: u64
  sm_chunk_errors :: u64
  sm_assemblies :: u64
  sm_assembly_errors :: u64

definition metrics_zero :: server_metrics where
  "metrics_zero = \<lparr>sm_accepted = 0, sm_health = 0, sm_telemetry = 0, sm_control = 0, sm_acks = 0,
     sm_data_connections = 0, sm_chunks = 0, sm_chunk_errors = 0, sm_assemblies = 0, sm_assembly_errors = 0\<rparr>"

definition show_u64 :: "u64 \<Rightarrow> string" where
  "show_u64 v = show_nat (unat v)"

definition metrics_snapshot :: "server_metrics \<Rightarrow> string" where
  "metrics_snapshot m =
     ''accepted='' @ show_u64 (sm_accepted m) @ '' health='' @ show_u64 (sm_health m)
     @ '' telemetry='' @ show_u64 (sm_telemetry m) @ '' control='' @ show_u64 (sm_control m)
     @ '' ack='' @ show_u64 (sm_acks m) @ '' data='' @ show_u64 (sm_data_connections m)
     @ '' chunks='' @ show_u64 (sm_chunks m) @ '' chunk_errors='' @ show_u64 (sm_chunk_errors m)
     @ '' assemblies='' @ show_u64 (sm_assemblies m) @ '' assembly_errors='' @ show_u64 (sm_assembly_errors m)"

text \<open>The environment of the handlers: memory limits, the clock, the zstd library, and whether writing
  a reply to the socket succeeds, and the number of answers a control connection takes.\<close>

record 'z env =
  en_resize_limit :: nat
  en_payload_limit :: nat
  en_now :: int
  en_zstd :: "'z zstd_d"
  en_reply_ok :: bool
  en_control_writes :: nat

record server =
  sv_storage :: storage
  sv_metrics :: server_metrics

section \<open>Reading a chunk\<close>

text \<open>Why a connection is given up: a failed read, or an exception.\<close>

datatype stop = ReadFailed | Thrown exc

fun line_of :: "conn \<Rightarrow> stop + string \<times> conn" where
  "line_of c = (case read_line c of None \<Rightarrow> Inl ReadFailed | Some r \<Rightarrow> Inr r)"

definition throwing :: "'a res \<Rightarrow> stop + 'a" where
  "throwing r = (case r of Inl e \<Rightarrow> Inl (Thrown e) | Inr x \<Rightarrow> Inr x)"

definition header_blob :: "string \<Rightarrow> string \<Rightarrow> nat \<Rightarrow> nat \<Rightarrow> int \<Rightarrow> nat \<Rightarrow> string" where
  "header_blob file_id name index total_chunks ttl payload_size =
     file_id @ [newline] @ name @ [newline] @ show_nat index @ [newline] @ show_nat total_chunks @ [newline]
     @ show_int ttl @ [newline] @ show_nat payload_size @ [newline]"

definition receive_chunk :: "nat \<Rightarrow> conn \<Rightarrow> stop + chunk_data" where
  "receive_chunk payload_limit c =
     bindE (line_of c) (\<lambda>(file_id, c).
     bindE (line_of c) (\<lambda>(original_name, c).
     bindE (line_of c) (\<lambda>(line, c).
     bindE (throwing (stoul line)) (\<lambda>index.
     bindE (line_of c) (\<lambda>(line, c).
     bindE (throwing (stoul line)) (\<lambda>total_chunks.
     if total_chunks = 0 \<or> index \<ge> total_chunks then Inl ReadFailed
     else
     bindE (line_of c) (\<lambda>(line, c).
     bindE (throwing (stoll line)) (\<lambda>ttl.
     bindE (line_of c) (\<lambda>(line, c).
     bindE (throwing (stoull line)) (\<lambda>payload_size.
     bindE (line_of c) (\<lambda>(line, c).
     bindE (throwing (stoul line)) (\<lambda>header_crc.
     bindE (line_of c) (\<lambda>(line, c).
     bindE (throwing (stoul line)) (\<lambda>payload_crc.
     if payload_size > payload_limit then Inl (Thrown BadAlloc)
     else case read_exact payload_size [] (fst c) of
            None \<Rightarrow> Inl ReadFailed
          | Some (payload, _) \<Rightarrow>
              Inr \<lparr>ck_file_id = file_id, ck_original_name = original_name, ck_index = index,
                   ck_total_chunks = total_chunks, ck_ttl = ttl,
                   ck_header_bytes = bytes_of (header_blob file_id original_name index total_chunks ttl payload_size),
                   ck_payload = payload, ck_header_crc = of_nat header_crc, ck_payload_crc = of_nat payload_crc\<rparr>))))))))))))))"

section \<open>The handler\<close>

definition count_chunk_error :: "server \<Rightarrow> server" where
  "count_chunk_error sv = sv\<lparr>sv_metrics := (sv_metrics sv)\<lparr>sm_chunk_errors := sm_chunk_errors (sv_metrics sv) + 1\<rparr>\<rparr>"

definition handle_data ::
    "'z env \<Rightarrow> segments \<Rightarrow> server \<Rightarrow> world \<Rightarrow> (string \<times> server \<times> world) option" where
  "handle_data en segs sv w =
     (case receive_chunk (en_payload_limit en) (segs, []) of
        Inl _ \<Rightarrow> Some ([], count_chunk_error sv, w)
      | Inr chunk \<Rightarrow>
          let sv = sv\<lparr>sv_metrics := (sv_metrics sv)\<lparr>sm_chunks := sm_chunks (sv_metrics sv) + 1\<rparr>\<rparr>;
              (r, st, w) = store_chunk (en_resize_limit en) (en_now en) chunk (sv_storage sv) w;
              sv = sv\<lparr>sv_storage := st\<rparr>;
              reply = (if en_reply_ok en then ''STORED'' @ [newline] else [])
          in case r of
               Inl _ \<Rightarrow> Some ([], count_chunk_error sv, w)
             | Inr None \<Rightarrow> Some (reply, sv, w)
             | Inr (Some rec) \<Rightarrow>
                 (case assemble (en_zstd en) (st_files_dir (sv_storage sv)) rec w of
                    None \<Rightarrow> None
                  | Some (Some final_path, w) \<Rightarrow>
                      Some (reply,
                        sv\<lparr>sv_metrics := (sv_metrics sv)\<lparr>sm_assemblies := sm_assemblies (sv_metrics sv) + 1\<rparr>,
                           sv_storage := mark_published (pr_file_id rec) (sv_storage sv)\<rparr>, w)
                  | Some (None, w) \<Rightarrow>
                      Some (reply,
                        sv\<lparr>sv_metrics := (sv_metrics sv)\<lparr>sm_assembly_errors := sm_assembly_errors (sv_metrics sv) + 1\<rparr>\<rparr>,
                        w)))"

section \<open>What the header parser reads\<close>

text \<open>The bytes of a well-formed request: its header lines.\<close>

definition request_header :: "string \<Rightarrow> string \<Rightarrow> nat \<Rightarrow> nat \<Rightarrow> int \<Rightarrow> nat \<Rightarrow> u32 \<Rightarrow> u32 \<Rightarrow> byte list" where
  "request_header file_id name index total_chunks ttl payload_size header_crc payload_crc =
     bytes_of (header_blob file_id name index total_chunks ttl payload_size
       @ show_nat (unat header_crc) @ [newline] @ show_nat (unat payload_crc) @ [newline])"

lemma bytes_of_newline [simp]: "bytes_of [newline] = [10]"
  by (simp add: bytes_of_def newline_byte)

lemma unat_u32_less: "unat (x :: u32) < 2 ^ 64"
  using unsigned_less [of x, where ?'a = nat] by simp

text \<open>
  What the parser needs of a connection: \<open>holds c rest\<close> says in which sense \<open>rest\<close> is to come, and
  reading a line that is to come delivers it and keeps the sense.
\<close>

locale line_source =
  fixes holds :: "conn \<Rightarrow> byte list \<Rightarrow> bool"
  assumes next_line: "holds c (bytes_of line @ 10 # rest) \<Longrightarrow> newline \<notin> set line \<Longrightarrow>
      \<exists>c'. line_of c = Inr (line, c') \<and> holds c' rest"
begin

lemma line_of_holds:
  assumes "holds c (bytes_of line @ 10 # rest)" and "newline \<notin> set line"
  obtains c' where "line_of c = Inr (line, c')" "holds c' rest"
  using next_line [OF assms] by auto

text \<open>
  The header is understood whatever the segmentation; the connection that is left has exactly the
  payload stream to deliver, partly buffered and partly unread.
\<close>

lemma receive_chunk_header:
  assumes req: "holds c (request_header fid name i n ttl psize hc pc @ body)"
    and names: "newline \<notin> set fid" "newline \<notin> set name"
    and nums: "i < n" "n < 2 ^ 64" "psize < 2 ^ 64" "- (2 ^ 63) \<le> ttl" "ttl < 2 ^ 63"
    and psize: "psize \<le> limit"
  obtains c' where "holds c' body"
    "receive_chunk limit c = (case read_exact psize [] (fst c') of
        None \<Rightarrow> Inl ReadFailed
      | Some (payload, _) \<Rightarrow>
          Inr \<lparr>ck_file_id = fid, ck_original_name = name, ck_index = i, ck_total_chunks = n, ck_ttl = ttl,
               ck_header_bytes = bytes_of (header_blob fid name i n ttl psize), ck_payload = payload,
               ck_header_crc = hc, ck_payload_crc = pc\<rparr>)"
proof -
  have s0: "holds c (bytes_of fid @ 10 # (bytes_of name @ 10 # (bytes_of (show_nat i) @ 10 #
      (bytes_of (show_nat n) @ 10 # (bytes_of (show_int ttl) @ 10 # (bytes_of (show_nat psize) @ 10 #
      (bytes_of (show_nat (unat hc)) @ 10 # (bytes_of (show_nat (unat pc)) @ 10 # body))))))))"
    using req by (simp add: request_header_def header_blob_def bytes_of_def newline_byte)
  have i: "throwing (stoul (show_nat i)) = Inr i" and n: "throwing (stoul (show_nat n)) = Inr n"
    and ttl: "throwing (stoll (show_int ttl)) = Inr ttl" and sz: "throwing (stoull (show_nat psize)) = Inr psize"
    and hc: "throwing (stoul (show_nat (unat hc))) = Inr (unat hc)"
    and pc: "throwing (stoul (show_nat (unat pc))) = Inr (unat pc)"
    using nums unat_u32_less [of hc] unat_u32_less [of pc]
    by (simp_all add: throwing_def stoul_show_nat stoull_show_nat stoll_show_int)
  obtain c1 where l1: "line_of c = Inr (fid, c1)" and s1: "holds c1 (bytes_of name @ 10 # (bytes_of (show_nat i) @ 10 #
      (bytes_of (show_nat n) @ 10 # (bytes_of (show_int ttl) @ 10 # (bytes_of (show_nat psize) @ 10 #
      (bytes_of (show_nat (unat hc)) @ 10 # (bytes_of (show_nat (unat pc)) @ 10 # body)))))))"
    using line_of_holds [OF s0 names(1)] .
  obtain c2 where l2: "line_of c1 = Inr (name, c2)" and s2: "holds c2 (bytes_of (show_nat i) @ 10 #
      (bytes_of (show_nat n) @ 10 # (bytes_of (show_int ttl) @ 10 # (bytes_of (show_nat psize) @ 10 #
      (bytes_of (show_nat (unat hc)) @ 10 # (bytes_of (show_nat (unat pc)) @ 10 # body))))))"
    using line_of_holds [OF s1 names(2)] .
  obtain c3 where l3: "line_of c2 = Inr (show_nat i, c3)" and s3: "holds c3 (bytes_of (show_nat n) @ 10 # (bytes_of (show_int ttl) @ 10 # (bytes_of (show_nat psize) @ 10 #
      (bytes_of (show_nat (unat hc)) @ 10 # (bytes_of (show_nat (unat pc)) @ 10 # body)))))"
    using line_of_holds [OF s2 show_nat_no_newline] .
  obtain c4 where l4: "line_of c3 = Inr (show_nat n, c4)" and s4: "holds c4 (bytes_of (show_int ttl) @ 10 # (bytes_of (show_nat psize) @ 10 #
      (bytes_of (show_nat (unat hc)) @ 10 # (bytes_of (show_nat (unat pc)) @ 10 # body))))"
    using line_of_holds [OF s3 show_nat_no_newline] .
  obtain c5 where l5: "line_of c4 = Inr (show_int ttl, c5)" and s5: "holds c5 (bytes_of (show_nat psize) @ 10 #
      (bytes_of (show_nat (unat hc)) @ 10 # (bytes_of (show_nat (unat pc)) @ 10 # body)))"
    using line_of_holds [OF s4 show_int_no_newline] .
  obtain c6 where l6: "line_of c5 = Inr (show_nat psize, c6)" and s6: "holds c6 (bytes_of (show_nat (unat hc)) @ 10 # (bytes_of (show_nat (unat pc)) @ 10 # body))"
    using line_of_holds [OF s5 show_nat_no_newline] .
  obtain c7 where l7: "line_of c6 = Inr (show_nat (unat hc), c7)" and s7: "holds c7 (bytes_of (show_nat (unat pc)) @ 10 # body)"
    using line_of_holds [OF s6 show_nat_no_newline] .
  obtain c8 where l8: "line_of c7 = Inr (show_nat (unat pc), c8)" and s8: "holds c8 (body)"
    using line_of_holds [OF s7 show_nat_no_newline] .
  show thesis
  proof (rule that [of c8])
    show "holds c8 body" by (rule s8)
    have cast: "of_nat (unat x) = x" for x :: u32 by simp
    have "\<not> (n = 0 \<or> i \<ge> n)" "\<not> psize > limit"
      using nums psize by auto
    then show "receive_chunk limit c = (case read_exact psize [] (fst c8) of
        None \<Rightarrow> Inl ReadFailed
      | Some (payload, _) \<Rightarrow>
          Inr \<lparr>ck_file_id = fid, ck_original_name = name, ck_index = i, ck_total_chunks = n, ck_ttl = ttl,
               ck_header_bytes = bytes_of (header_blob fid name i n ttl psize), ck_payload = payload,
               ck_header_crc = hc, ck_payload_crc = pc\<rparr>)"
      by (simp only: receive_chunk_def l1 l2 l3 l4 l5 l6 l7 l8 i n ttl sz hc pc bindE.simps prod.case if_False
          cast)
  qed
qed

end

text \<open>In every segmentation the header is read from the stream as it is.\<close>

interpretation any_segments: line_source "\<lambda>c rest. stream c = rest"
  by unfold_locales (use read_line_stream in fastforce)

text \<open>\<open>ps\<close> are the segments behind a border; no read of a line crosses the border while the lines end before it.\<close>

definition before_border :: "segments \<Rightarrow> conn \<Rightarrow> byte list \<Rightarrow> bool" where
  "before_border ps c rest \<longleftrightarrow> (\<exists>hs buffer. c = (hs @ ps, buffer) \<and> buffer @ concat hs = rest)"

lemma read_until_border:
  assumes "10 \<in> set (buffer @ concat hs)"
  shows "\<exists>hs' buffer'. read_until (hs @ ps) buffer = Some (hs' @ ps, buffer') \<and>
           buffer' @ concat hs' = buffer @ concat hs \<and> 10 \<in> set buffer'"
  using assms
proof (induction hs arbitrary: buffer)
  case Nil
  then show ?case by (subst read_until.simps) auto
next
  case (Cons h hs)
  show ?case
  proof (cases "10 \<in> set buffer")
    case True
    then show ?thesis
      by (subst read_until.simps) (intro exI [of _ "h # hs"] exI [of _ buffer], simp)
  next
    case False
    then have "10 \<in> set ((buffer @ h) @ concat hs)"
      using Cons.prems by simp
    then obtain hs' buffer' where "read_until (hs @ ps) (buffer @ h) = Some (hs' @ ps, buffer')"
        "buffer' @ concat hs' = (buffer @ h) @ concat hs" "10 \<in> set buffer'"
      using Cons.IH by blast
    then show ?thesis
      using False by (subst read_until.simps) (intro exI [of _ hs'] exI [of _ buffer'], simp)
  qed
qed

interpretation border: line_source "before_border ps"
proof
  fix c line rest
  assume b: "before_border ps c (bytes_of line @ 10 # rest)" and l: "newline \<notin> set line"
  then obtain hs buffer where c: "c = (hs @ ps, buffer)" and e: "buffer @ concat hs = bytes_of line @ 10 # rest"
    by (auto simp: before_border_def)
  obtain hs' buffer' where ru: "read_until (hs @ ps) buffer = Some (hs' @ ps, buffer')"
      "buffer' @ concat hs' = bytes_of line @ 10 # rest" "10 \<in> set buffer'"
    using read_until_border [of buffer hs ps] e by auto
  obtain l2 r where gl: "get_line buffer' = (l2, r)" by fastforce
  have "bytes_of l2 @ 10 # (r @ concat hs') = bytes_of line @ 10 # rest"
    using get_line_newline(1) [OF ru(3)] ru(2) gl by simp
  moreover have "10 \<notin> set (bytes_of l2)" "10 \<notin> set (bytes_of line)"
    using get_line_newline(2) [OF ru(3)] gl l by (simp_all add: newline_notin_bytes_of)
  ultimately have "bytes_of l2 = bytes_of line \<and> r @ concat hs' = rest"
    by (rule append_newline_inject)
  then have "l2 = line" "r @ concat hs' = rest"
    by (metis string_of_bytes_of, simp)
  then show "\<exists>c'. line_of c = Inr (line, c') \<and> before_border ps c' rest"
    using ru gl by (auto simp: read_line_def c before_border_def)
qed

text \<open>Once a segment is in the stream buffer, what it holds of the payload stays there.\<close>

interpretation buffered: line_source "\<lambda>c rest. c = (ps, rest)"
proof
  fix c line rest
  assume c: "c = (ps, bytes_of line @ 10 # rest)" and l: "newline \<notin> set line"
  have "read_until ps (bytes_of line @ 10 # rest) = Some (ps, bytes_of line @ 10 # rest)"
    by (subst read_until.simps) simp
  moreover have "get_line (bytes_of line @ 10 # rest) = (line, rest)"
  proof -
    have "10 \<notin> set (bytes_of line)" using l by (simp add: newline_notin_bytes_of)
    then have "takeWhile (\<lambda>b. b \<noteq> 10) (bytes_of line @ 10 # rest) = bytes_of line"
      "dropWhile (\<lambda>b. b \<noteq> 10) (bytes_of line @ 10 # rest) = 10 # rest"
      by (rule takeWhile_neq_append dropWhile_neq_append)+
    then show ?thesis by (simp add: get_line_def)
  qed
  ultimately show "\<exists>c'. line_of c = Inr (line, c') \<and> c' = (ps, rest)"
    by (simp add: read_line_def c)
qed

section \<open>Requests\<close>

text \<open>The chunk a well-formed request stands for.\<close>

definition request_chunk :: "string \<Rightarrow> string \<Rightarrow> nat \<Rightarrow> nat \<Rightarrow> int \<Rightarrow> byte list \<Rightarrow> chunk_data" where
  "request_chunk fid name i n ttl payload =
     (let h = bytes_of (header_blob fid name i n ttl (length payload))
      in \<lparr>ck_file_id = fid, ck_original_name = name, ck_index = i, ck_total_chunks = n, ck_ttl = ttl,
          ck_header_bytes = h, ck_payload = payload, ck_header_crc = crc32 h, ck_payload_crc = crc32 payload\<rparr>)"

text \<open>A request with the checksums of the common library, whose header ends at a segment border.\<close>

definition good_request :: "string \<Rightarrow> string \<Rightarrow> nat \<Rightarrow> nat \<Rightarrow> int \<Rightarrow> byte list \<Rightarrow> segments \<Rightarrow> bool" where
  "good_request fid name i n ttl payload segs \<longleftrightarrow>
     (\<exists>hs ps. segs = hs @ ps \<and> concat ps = payload \<and>
        concat hs = request_header fid name i n ttl (length payload)
          (ck_header_crc (request_chunk fid name i n ttl payload))
          (ck_payload_crc (request_chunk fid name i n ttl payload)))"

text \<open>The parameters of a request fit the types of the code.\<close>

definition request_ok :: "string \<Rightarrow> string \<Rightarrow> nat \<Rightarrow> nat \<Rightarrow> int \<Rightarrow> bool" where
  "request_ok fid name i n ttl \<longleftrightarrow>
     newline \<notin> set fid \<and> newline \<notin> set name \<and> i < n \<and> n < 2 ^ 64 \<and> - (2 ^ 63) \<le> ttl \<and> ttl < 2 ^ 63"

lemma receive_good_request:
  assumes g: "good_request fid name i n ttl payload segs" and ok: "request_ok fid name i n ttl"
    and len: "length payload \<le> limit" "length payload < 2 ^ 64"
  shows "receive_chunk limit (segs, []) = Inr (request_chunk fid name i n ttl payload)"
proof -
  let ?hc = "ck_header_crc (request_chunk fid name i n ttl payload)"
  let ?pc = "ck_payload_crc (request_chunk fid name i n ttl payload)"
  obtain hs ps where segs: "segs = hs @ ps" "concat ps = payload"
      "concat hs = request_header fid name i n ttl (length payload) ?hc ?pc"
    using g by (auto simp: good_request_def)
  have b: "before_border ps (segs, []) (request_header fid name i n ttl (length payload) ?hc ?pc @ [])"
    using segs by (auto simp: before_border_def)
  obtain c' where c': "before_border ps c' []" and r: "receive_chunk limit (segs, []) =
      (case read_exact (length payload) [] (fst c') of
        None \<Rightarrow> Inl ReadFailed
      | Some (payload', _) \<Rightarrow>
          Inr \<lparr>ck_file_id = fid, ck_original_name = name, ck_index = i, ck_total_chunks = n, ck_ttl = ttl,
               ck_header_bytes = bytes_of (header_blob fid name i n ttl (length payload)), ck_payload = payload',
               ck_header_crc = ?hc, ck_payload_crc = ?pc\<rparr>)"
    by (rule border.receive_chunk_header [OF b _ _ _ _ len(2) _ _ len(1)])
       (use ok in \<open>auto simp: request_ok_def\<close>)
  obtain hs' where "fst c' = hs' @ ps" "concat hs' = []"
    using c' by (auto simp: before_border_def)
  then have cc: "concat (fst c') = payload"
    using segs by simp
  then obtain p s' where re: "read_exact (length payload) [] (fst c') = Some (p, s')"
    using read_exact_Some_iff [of "length payload" "fst c'"] by auto
  then have "p = payload"
    using read_exact_payload cc by force
  then show ?thesis
    using r re by (simp add: request_chunk_def Let_def)
qed

lemma request_chunk_simps [simp]:
  "ck_file_id (request_chunk fid name i n ttl d) = fid"
  "ck_original_name (request_chunk fid name i n ttl d) = name"
  "ck_index (request_chunk fid name i n ttl d) = i"
  "ck_total_chunks (request_chunk fid name i n ttl d) = n"
  "ck_payload (request_chunk fid name i n ttl d) = d"
  by (simp_all add: request_chunk_def Let_def)

lemma crc_sides_agree: "storage_crc32 d = crc32 d"
  by (simp only: storage_crc32_bytes crc32_bytes)

lemma request_chunk_verified: "verify_crc (request_chunk fid name i n ttl d)"
  by (simp add: verify_crc_def request_chunk_def Let_def crc_sides_agree)

section \<open>Properties\<close>

text \<open>The parameters of the examples.\<close>

definition sample_env :: "toy_state env" where
  "sample_env = \<lparr>en_resize_limit = 100, en_payload_limit = 100, en_now = 0, en_zstd = toy_decoder, en_reply_ok = True,
     en_control_writes = 100\<rparr>"

definition sample_server :: server where
  "sample_server = \<lparr>sv_storage = sample_storage, sv_metrics = metrics_zero\<rparr>"

text \<open>A request whose header ends at a segment border is understood, however header and payload are cut
  into further segments: the store is given exactly the chunk the sender meant, with both checksums
  right, and the reply is sent unless the store throws.\<close>

theorem good_request_reaches_store:
  assumes "good_request fid name i n ttl payload segs" and "request_ok fid name i n ttl"
    and "length payload \<le> en_payload_limit en" and "length payload < 2 ^ 64"
    and "store_chunk (en_resize_limit en) (en_now en) (request_chunk fid name i n ttl payload) (sv_storage sv) w
           = (Inr None, st, w')"
    and "en_reply_ok en"
  shows "\<exists>sv'. handle_data en segs sv w = Some (''STORED'' @ [newline], sv', w') \<and> sv_storage sv' = st \<and>
           sm_chunk_errors (sv_metrics sv') = sm_chunk_errors (sv_metrics sv) \<and>
           verify_crc (request_chunk fid name i n ttl payload)"
  using receive_good_request [OF assms(1-4)] assms(5,6)
  by (simp add: handle_data_def Let_def request_chunk_verified)

theorem good_request_reaches_store_witness:
  "\<exists>sv' w'. handle_data sample_env [take 5 (request_header ''a'' ''a.txt'' 0 2 0 2 (crc32 (bytes_of (header_blob ''a'' ''a.txt'' 0 2 0 2))) (crc32 [1, 7])),
      drop 5 (request_header ''a'' ''a.txt'' 0 2 0 2 (crc32 (bytes_of (header_blob ''a'' ''a.txt'' 0 2 0 2))) (crc32 [1, 7])), [1], [7]]
      sample_server empty_world = Some (''STORED'' @ [newline], sv', w')"
proof -
  let ?h = "request_header ''a'' ''a.txt'' 0 2 0 2 (crc32 (bytes_of (header_blob ''a'' ''a.txt'' 0 2 0 2))) (crc32 [1, 7])"
  let ?segs = "[take 5 ?h, drop 5 ?h, [1], [7]]"
  let ?c = "request_chunk ''a'' ''a.txt'' 0 2 0 [1, 7]"
  have g: "good_request ''a'' ''a.txt'' 0 2 0 [1, 7] ?segs"
    unfolding good_request_def
    by (rule exI [of _ "[take 5 ?h, drop 5 ?h]"], rule exI [of _ "[[1], [7]]"]) (simp add: request_chunk_def Let_def numeral_2_eq_2)
  have r: "request_ok ''a'' ''a.txt'' 0 2 0"
    by (simp add: request_ok_def)
  have c: "plain_id (ck_file_id ?c)" "ck_index ?c < ck_total_chunks ?c" "ck_total_chunks ?c \<le> 100"
    by (simp_all add: sample_chunk_simps)
  have t: "totals_agree sample_storage ?c" and n: "no_faults empty_world"
    by (simp_all add: totals_agree_def sample_storage_ok(4) no_faults_def empty_world_def)
  obtain r' st w' where st: "store_chunk 100 0 ?c sample_storage empty_world = (Inr r', st, w')"
      "stored st w' = stored_update (stored sample_storage empty_world) ''a'' 0 [1, 7]"
      "r' = None \<or> (\<forall>j < 2. stored st w' ''a'' j \<noteq> None)"
    using store_chunk_complete [OF sample_storage_ok(1,2) c(1,2) request_chunk_verified n t c(3), of 0]
    unfolding request_chunk_simps by (fastforce split: option.splits)
  have "stored st w' ''a'' 1 = None"
    by (simp add: st(2) stored_update_def) (simp add: stored_def sample_storage_ok(4))
  then have "r' = None"
    using st(3) by (metis one_less_numeral_iff semiring_norm(76))
  then show ?thesis
    using good_request_reaches_store [OF g r, of sample_env sample_server empty_world st w'] st(1)
    by (auto simp: sample_env_def sample_server_def)
qed

text \<open>C36. Payload bytes that arrive in the segment that ends the header are read into the line buffer and
  lost: such a request (well formed, complete, with right checksums) is dropped without reply and
  without a trace in the store.\<close>

theorem payload_in_header_segment_is_lost:
  assumes "request_ok fid name i n ttl" and "payload = early @ concat ps" and "early \<noteq> []"
    and "length payload \<le> en_payload_limit en" and "length payload < 2 ^ 64"
  shows "handle_data en ((request_header fid name i n ttl (length payload) hc pc @ early) # ps) sv w
           = Some ([], count_chunk_error sv, w)"
proof -
  let ?h = "request_header fid name i n ttl (length payload) hc pc"
  have first: "line_of ((?h @ early) # ps, []) = line_of (ps, ?h @ early)"
    by (simp add: read_line_def) (subst read_until.simps, simp)
  have same: "receive_chunk limit ((?h @ early) # ps, []) = receive_chunk limit (ps, ?h @ early)" for limit
    by (simp only: receive_chunk_def first)
  have "receive_chunk (en_payload_limit en) (ps, ?h @ early) = Inl ReadFailed"
  proof (rule buffered.receive_chunk_header [of "(ps, ?h @ early)" ps fid name i n ttl "length payload" hc pc early])
    fix c' assume c': "c' = (ps, early)"
      and r: "receive_chunk (en_payload_limit en) (ps, ?h @ early) =
        (case read_exact (length payload) [] (fst c') of
           None \<Rightarrow> Inl ReadFailed
         | Some (payload', _) \<Rightarrow>
             Inr \<lparr>ck_file_id = fid, ck_original_name = name, ck_index = i, ck_total_chunks = n, ck_ttl = ttl,
                  ck_header_bytes = bytes_of (header_blob fid name i n ttl (length payload)), ck_payload = payload',
                  ck_header_crc = hc, ck_payload_crc = pc\<rparr>)"
    have "\<not> length payload \<le> length (concat ps)"
      using assms(2,3) by simp
    then have "read_exact (length payload) [] ps = None"
      using read_exact_Some_iff [of "length payload" ps] by (metis option.exhaust)
    then show "receive_chunk (en_payload_limit en) (ps, ?h @ early) = Inl ReadFailed"
      using r by (simp add: c')
  qed (use assms in \<open>auto simp: request_ok_def\<close>)
  then show ?thesis
    by (simp add: handle_data_def same)
qed

theorem payload_in_header_segment_is_lost_witness:
  "handle_data sample_env [request_header ''a'' ''a.txt'' 0 1 0 2
      (crc32 (bytes_of (header_blob ''a'' ''a.txt'' 0 1 0 2))) (crc32 [0, 9]) @ [0, 9]] sample_server empty_world
     = Some ([], count_chunk_error sample_server, empty_world)"
proof -
  have "request_ok ''a'' ''a.txt'' 0 1 0"
    by (simp add: request_ok_def)
  moreover have "[0, 9] = [0, 9] @ concat ([] :: segments)" "[0, 9 :: byte] \<noteq> []"
    "length [0, 9 :: byte] \<le> en_payload_limit sample_env" "length [0, 9 :: byte] < 2 ^ 64"
    by (simp_all add: sample_env_def)
  moreover have "length [0, 9 :: byte] = 2"
    by simp
  ultimately show ?thesis
    using payload_in_header_segment_is_lost [of "''a''" "''a.txt''" 0 1 0 "[0, 9]" "[0, 9]" "[]" sample_env
        "crc32 (bytes_of (header_blob ''a'' ''a.txt'' 0 1 0 2))" "crc32 [0, 9]" sample_server empty_world]
    by (simp only: simp_thms)
qed

text \<open>C40. A chunk the store refuses because of its checksums changes nothing on the server, yet the sender is
  told that it is stored and no error is counted.\<close>

theorem refused_chunk_is_acknowledged:
  assumes "receive_chunk (en_payload_limit en) (segs, []) = Inr c" and "\<not> verify_crc c" and "en_reply_ok en"
  shows "\<exists>sv'. handle_data en segs sv w = Some (''STORED'' @ [newline], sv', w) \<and>
           sv_storage sv' = sv_storage sv \<and>
           sm_chunk_errors (sv_metrics sv') = sm_chunk_errors (sv_metrics sv)"
  using assms by (simp add: handle_data_def Let_def store_chunk_bad_crc)

theorem refused_chunk_is_acknowledged_witness:
  "\<exists>sv'. handle_data sample_env [request_header ''a'' ''a.txt'' 0 1 0 0 (crc32 (bytes_of (header_blob ''a'' ''a.txt'' 0 1 0 0)) + 1) 0]
      sample_server empty_world = Some (''STORED'' @ [newline], sv', empty_world)"
proof -
  let ?hc = "crc32 (bytes_of (header_blob ''a'' ''a.txt'' 0 1 0 0)) + 1"
  let ?segs = "[request_header ''a'' ''a.txt'' 0 1 0 0 ?hc 0]"
  have b: "stream (?segs, []) = request_header ''a'' ''a.txt'' 0 1 0 0 ?hc 0 @ []"
    by (simp add: stream_def)
  obtain c where r: "receive_chunk 100 (?segs, []) = Inr c" "ck_header_crc c = ?hc"
      "ck_header_bytes c = bytes_of (header_blob ''a'' ''a.txt'' 0 1 0 0)"
    by (rule any_segments.receive_chunk_header [OF b, of 100]) (auto simp: read_exact.simps)
  then have "\<not> verify_crc c"
    by (simp add: verify_crc_def crc_sides_agree)
  then show ?thesis
    using refused_chunk_is_acknowledged [of sample_env ?segs c sample_server empty_world] r(1)
    by (auto simp: sample_env_def)
qed

end
