(* ===== verification/Control_Plane.thy ===== *)
theory Control_Plane
  imports Data_Channel
begin

text \<open>
  The listeners (\<^verbatim>\<open>Server/src/listeners.hpp\<close>) and the control channel (\<^verbatim>\<open>Server/src/control.hpp\<close>).
  What opening an acceptor meets is a parameter, a function of its channel and index. The lemmas give the shape
  of the acceptor table after any commands, and the replies and effects of every command.
\<close>

section \<open>Listeners\<close>

datatype channel = Health | Telemetry | ControlChannel | Ack | Data

definition channel_of_nat :: "nat \<Rightarrow> channel" where
  "channel_of_nat i = [Health, Telemetry, ControlChannel, Ack, Data] ! i"

record acceptor =
  ac_channel :: channel
  ac_port :: u16
  ac_running :: bool

record listeners =
  ls_sys_base :: u16
  ls_data_base :: u16
  ls_system :: "acceptor option list"
  ls_data :: "acceptor list"
  ls_started :: bool
  ls_desired :: nat

definition listeners_new :: "u16 \<Rightarrow> u16 \<Rightarrow> nat \<Rightarrow> listeners" where
  "listeners_new sys_base data_base initial_data_count =
     \<lparr>ls_sys_base = sys_base, ls_data_base = data_base, ls_system = replicate 4 None, ls_data = [],
      ls_started = False, ls_desired = initial_data_count\<rparr>"

text \<open>
  What \<open>start_acceptor\<close> meets: the port is opened, bound and listened on and the thread is started; one of
  these calls reports an error, which is logged; or something throws (memory, descriptors or threads are
  exhausted). A context that does not listen stays without a running thread and is never tried again.
\<close>

datatype listen_result = Listening | NotListening | ListenThrows exc

type_synonym listen_os = "channel \<Rightarrow> nat \<Rightarrow> listen_result"

definition start_acceptor :: "listen_result \<Rightarrow> acceptor \<Rightarrow> acceptor res" where
  "start_acceptor r ctx =
     (case r of Listening \<Rightarrow> Inr (ctx\<lparr>ac_running := True\<rparr>) | NotListening \<Rightarrow> Inr ctx | ListenThrows e \<Rightarrow> Inl e)"

definition stop_acceptor :: "acceptor \<Rightarrow> acceptor" where
  "stop_acceptor ctx = ctx\<lparr>ac_running := False\<rparr>"

definition data_acceptor :: "listen_os \<Rightarrow> u16 \<Rightarrow> nat \<Rightarrow> acceptor res" where
  "data_acceptor os data_base i =
     start_acceptor (os Data i) \<lparr>ac_channel = Data, ac_port = data_base + of_nat i, ac_running = False\<rparr>"

text \<open>The loop that stops acceptors from the back of the table.\<close>

fun shrink :: "nat \<Rightarrow> acceptor list \<Rightarrow> acceptor list" where
  "shrink target acs =
     (if length acs > target then shrink target (butlast acs) else acs)"

declare shrink.simps [simp del]

text \<open>The loops that start acceptors; an exception leaves those that were started in the table.\<close>

fun grow_data :: "listen_os \<Rightarrow> nat list \<Rightarrow> listeners \<Rightarrow> unit res \<times> listeners" where
  "grow_data os [] ls = (Inr (), ls)"
| "grow_data os (i # is) ls =
     (case data_acceptor os (ls_data_base ls) i of
        Inl e \<Rightarrow> (Inl e, ls)
      | Inr ctx \<Rightarrow> grow_data os is (ls\<lparr>ls_data := ls_data ls @ [ctx]\<rparr>))"

fun start_system :: "listen_os \<Rightarrow> nat list \<Rightarrow> listeners \<Rightarrow> unit res \<times> listeners" where
  "start_system os [] ls = (Inr (), ls)"
| "start_system os (i # is) ls =
     (case start_acceptor (os (channel_of_nat i) i)
             \<lparr>ac_channel = channel_of_nat i, ac_port = ls_sys_base ls + of_nat i, ac_running = False\<rparr> of
        Inl e \<Rightarrow> (Inl e, ls)
      | Inr ctx \<Rightarrow> start_system os is (ls\<lparr>ls_system := (ls_system ls)[i := Some ctx]\<rparr>))"

definition ensure_data_acceptors :: "listen_os \<Rightarrow> nat \<Rightarrow> listeners \<Rightarrow> unit res \<times> listeners" where
  "ensure_data_acceptors os target ls =
     (if target = length (ls_data ls) then (Inr (), ls)
      else if target < length (ls_data ls) then (Inr (), ls\<lparr>ls_data := shrink target (ls_data ls)\<rparr>)
      else grow_data os [length (ls_data ls)..<target] ls)"

definition listeners_start :: "listen_os \<Rightarrow> listeners \<Rightarrow> unit res \<times> listeners" where
  "listeners_start os ls =
     (if ls_started ls then (Inr (), ls)
      else
        case start_system os [0..<length (ls_system ls)] (ls\<lparr>ls_started := True\<rparr>) of
          (Inl e, ls) \<Rightarrow> (Inl e, ls)
        | (Inr _, ls) \<Rightarrow> ensure_data_acceptors os (ls_desired ls) ls)"

definition listeners_stop :: "listeners \<Rightarrow> listeners" where
  "listeners_stop ls =
     (if \<not> ls_started ls then ls
      else ls\<lparr>ls_system := map (map_option stop_acceptor) (ls_system ls), ls_data := [], ls_started := False\<rparr>)"

definition update_data_listener_count :: "listen_os \<Rightarrow> nat \<Rightarrow> listeners \<Rightarrow> unit res \<times> listeners" where
  "update_data_listener_count os new_count ls =
     (let ls = ls\<lparr>ls_desired := new_count\<rparr>
      in if \<not> ls_started ls then (Inr (), ls) else ensure_data_acceptors os new_count ls)"

section \<open>Lemmas on the listeners\<close>

lemma shrink_take: "shrink target acs = take target acs"
proof (induction target acs rule: shrink.induct)
  case (1 target acs)
  then show ?case
    by (cases "target < length acs"; subst shrink.simps) (auto simp: butlast_conv_take min_def)
qed

lemma start_acceptor_Inr:
  "start_acceptor r a = Inr a' \<Longrightarrow> ac_channel a' = ac_channel a \<and> ac_port a' = ac_port a \<and> (ac_running a' \<longleftrightarrow> ac_running a \<or> r = Listening)"
  by (auto simp: start_acceptor_def split: listen_result.splits)

text \<open>The i-th data acceptor has the i-th port (modulo the width).\<close>

definition data_ports_ok :: "listeners \<Rightarrow> bool" where
  "data_ports_ok ls \<longleftrightarrow> (\<forall>i < length (ls_data ls). ac_channel (ls_data ls ! i) = Data \<and>
     ac_port (ls_data ls ! i) = ls_data_base ls + of_nat i)"

text \<open>The fields that the loops leave alone.\<close>

definition same_listeners :: "listeners \<Rightarrow> listeners \<Rightarrow> bool" where
  "same_listeners ls ls' \<longleftrightarrow> ls_sys_base ls' = ls_sys_base ls \<and> ls_data_base ls' = ls_data_base ls \<and>
     ls_started ls' = ls_started ls \<and> ls_desired ls' = ls_desired ls"

lemma grow_data_ok:
  "grow_data os [length (ls_data ls)..<target] ls = (r, ls') \<Longrightarrow> data_ports_ok ls \<Longrightarrow> length (ls_data ls) \<le> target \<Longrightarrow>
     data_ports_ok ls' \<and> same_listeners ls ls' \<and> ls_system ls' = ls_system ls \<and> (\<exists>new. ls_data ls' = ls_data ls @ new) \<and>
     length (ls_data ls') \<le> target \<and> (r = Inr () \<longleftrightarrow> length (ls_data ls') = target)"
proof (induction "target - length (ls_data ls)" arbitrary: ls)
  case (Suc n)
  then have upt: "[length (ls_data ls)..<target] = length (ls_data ls) # [Suc (length (ls_data ls))..<target]"
    by (simp add: upt_conv_Cons)
  show ?case
  proof (cases "data_acceptor os (ls_data_base ls) (length (ls_data ls))")
    case (Inl e)
    then show ?thesis
      using Suc.prems upt by (auto simp: same_listeners_def)
  next
    case (Inr ctx)
    let ?ls = "ls\<lparr>ls_data := ls_data ls @ [ctx]\<rparr>"
    have "ac_channel ctx = Data" "ac_port ctx = ls_data_base ls + of_nat (length (ls_data ls))"
      using start_acceptor_Inr Inr by (fastforce simp: data_acceptor_def)+
    then have "data_ports_ok ?ls"
      using Suc.prems(2) by (auto simp: data_ports_ok_def nth_append less_Suc_eq)
    moreover have "grow_data os [length (ls_data ?ls)..<target] ?ls = (r, ls')" "n = target - length (ls_data ?ls)" "length (ls_data ?ls) \<le> target"
      using Suc.prems(1) Suc.hyps(2) upt Inr by simp_all
    ultimately show ?thesis
      using Suc.hyps(1) [of ?ls] by (auto simp: same_listeners_def)
  qed
qed (auto simp: same_listeners_def)

lemma ensure_data_acceptors_ok:
  assumes "ensure_data_acceptors os target ls = (r, ls')" and "data_ports_ok ls"
  shows "data_ports_ok ls'" "same_listeners ls ls'" "ls_system ls' = ls_system ls" "length (ls_data ls') \<le> target"
    "r = Inr () \<longleftrightarrow> length (ls_data ls') = target" "\<exists>new. ls_data ls' = take target (ls_data ls) @ new"
proof -
  have "data_ports_ok ls' \<and> same_listeners ls ls' \<and> ls_system ls' = ls_system ls \<and> length (ls_data ls') \<le> target \<and>
      (r = Inr () \<longleftrightarrow> length (ls_data ls') = target) \<and> (\<exists>new. ls_data ls' = take target (ls_data ls) @ new)"
  proof (cases "length (ls_data ls) < target")
    case True
    then show ?thesis
      using grow_data_ok [of os ls target r ls'] assms by (auto simp: ensure_data_acceptors_def)
  next
    case False
    then have "r = Inr () \<and> ls' = ls\<lparr>ls_data := take target (ls_data ls)\<rparr>"
      using assms(1) by (auto simp: ensure_data_acceptors_def shrink_take split: if_splits)
    then show ?thesis
      using assms(2) False by (auto simp: data_ports_ok_def same_listeners_def)
  qed
  then show "data_ports_ok ls'" "same_listeners ls ls'" "ls_system ls' = ls_system ls" "length (ls_data ls') \<le> target"
    "r = Inr () \<longleftrightarrow> length (ls_data ls') = target" "\<exists>new. ls_data ls' = take target (ls_data ls) @ new"
    by blast+
qed

text \<open>
  The invariant: the data acceptors have their ports; while started, there are as many as desired, or fewer if
  starting them has thrown, and the four system acceptors have their ports; while stopped, there are no data acceptors.
\<close>

definition listeners_ok :: "bool \<Rightarrow> listeners \<Rightarrow> bool" where [inv_defs]:
  "listeners_ok throws ls \<longleftrightarrow>
     length (ls_system ls) = 4 \<and> data_ports_ok ls \<and>
     (if ls_started ls
      then length (ls_data ls) \<le> ls_desired ls \<and> (\<not> throws \<longrightarrow> length (ls_data ls) = ls_desired ls) \<and>
           (\<forall>i < 4. \<exists>ac. ls_system ls ! i = Some ac \<and> ac_channel ac = channel_of_nat i \<and>
              ac_port ac = ls_sys_base ls + of_nat i)
      else ls_data ls = [])"

lemma listeners_ok_new: "listeners_ok throws (listeners_new sb db n)"
  by (simp add: listeners_ok_def listeners_new_def data_ports_ok_def)

definition system_ok :: "nat \<Rightarrow> listeners \<Rightarrow> bool" where
  "system_ok n ls \<longleftrightarrow> (\<forall>i < n. \<exists>ac. ls_system ls ! i = Some ac \<and> ac_channel ac = channel_of_nat i \<and>
     ac_port ac = ls_sys_base ls + of_nat i)"

lemma start_system_ok:
  "start_system os [k..<n] ls = (Inr (), ls') \<Longrightarrow> system_ok k ls \<Longrightarrow> k \<le> n \<Longrightarrow> length (ls_system ls) = n \<Longrightarrow>
     system_ok n ls' \<and> same_listeners ls ls' \<and> ls_data ls' = ls_data ls \<and> length (ls_system ls') = n"
proof (induction "n - k" arbitrary: k ls)
  case (Suc m)
  then have upt: "[k..<n] = k # [Suc k..<n]" and k: "k < n"
    by (simp_all add: upt_conv_Cons)
  then obtain ctx where ctx: "start_acceptor (os (channel_of_nat k) k)
      \<lparr>ac_channel = channel_of_nat k, ac_port = ls_sys_base ls + of_nat k, ac_running = False\<rparr> = Inr ctx"
    and rest: "start_system os [Suc k..<n] (ls\<lparr>ls_system := (ls_system ls)[k := Some ctx]\<rparr>) = (Inr (), ls')"
    using Suc.prems(1) by (auto split: sum.splits)
  have "system_ok (Suc k) (ls\<lparr>ls_system := (ls_system ls)[k := Some ctx]\<rparr>)"
    using start_acceptor_Inr [OF ctx] Suc.prems(2,4) k by (auto simp: system_ok_def less_Suc_eq)
  then show ?case
    using Suc.hyps(1) [of "Suc k" "ls\<lparr>ls_system := (ls_system ls)[k := Some ctx]\<rparr>"] Suc.hyps(2) rest k Suc.prems(4)
    by (auto simp: same_listeners_def)
qed (auto simp: same_listeners_def)

lemma listeners_ok_start:
  assumes "listeners_ok throws ls" and "listeners_start os ls = (Inr (), ls')"
  shows "listeners_ok throws ls'" "ls_desired ls' = ls_desired ls"
proof -
  have "listeners_ok throws ls' \<and> ls_desired ls' = ls_desired ls"
  proof (cases "ls_started ls")
    case False
    then obtain ls1 where s: "start_system os [0..<4] (ls\<lparr>ls_started := True\<rparr>) = (Inr (), ls1)"
      and e: "ensure_data_acceptors os (ls_desired ls1) ls1 = (Inr (), ls')"
      using assms by (auto simp: listeners_start_def listeners_ok_def split: prod.splits sum.splits)
    have one: "system_ok 4 ls1" "same_listeners (ls\<lparr>ls_started := True\<rparr>) ls1" "ls_data ls1 = []" "length (ls_system ls1) = 4"
      using start_system_ok [OF s] assms(1) False by (auto simp: system_ok_def listeners_ok_def)
    then have "data_ports_ok ls1" by (simp add: data_ports_ok_def)
    note two = ensure_data_acceptors_ok [OF e this]
    show ?thesis
      using one two by (auto simp: listeners_ok_def same_listeners_def system_ok_def)
  qed (use assms in \<open>simp add: listeners_start_def\<close>)
  then show "listeners_ok throws ls'" "ls_desired ls' = ls_desired ls"
    by simp_all
qed

lemma listeners_ok_stop: "listeners_ok throws ls \<Longrightarrow> listeners_ok throws (listeners_stop ls)"
  by (simp add: listeners_stop_def listeners_ok_def data_ports_ok_def)

lemma update_data_listener_count_ok:
  assumes "listeners_ok throws ls" and "update_data_listener_count os n ls = (r, ls')" and "throws \<or> r = Inr ()"
  shows "listeners_ok throws ls'"
proof (cases "ls_started ls")
  case True
  then have e: "ensure_data_acceptors os n (ls\<lparr>ls_desired := n\<rparr>) = (r, ls')"
    using assms(2) by (simp add: update_data_listener_count_def Let_def)
  have "data_ports_ok (ls\<lparr>ls_desired := n\<rparr>)"
    using assms(1) by (simp add: listeners_ok_def data_ports_ok_def)
  note two = ensure_data_acceptors_ok [OF e this]
  show ?thesis
    using two assms(1,3) True by (auto simp: listeners_ok_def same_listeners_def)
qed (use assms in \<open>auto simp: update_data_listener_count_def listeners_ok_def data_ports_ok_def Let_def\<close>)

lemma grow_data_desired: "ls_desired (snd (grow_data os is ls)) = ls_desired ls"
  by (induction "is" arbitrary: ls) (simp_all split: sum.split)

lemma update_desired: "ls_desired (snd (update_data_listener_count os n ls)) = n"
  by (simp add: update_data_listener_count_def ensure_data_acceptors_def grow_data_desired Let_def)

text \<open>An exception leaves fewer acceptors than were asked for.\<close>

lemma update_throws:
  assumes "listeners_ok throws ls" and "update_data_listener_count os n ls = (Inl e, ls')"
  shows "length (ls_data ls') < n" "ls_started ls'"
proof -
  have started: "ls_started ls"
    using assms(2) by (auto simp: update_data_listener_count_def Let_def split: if_splits)
  then have u: "ensure_data_acceptors os n (ls\<lparr>ls_desired := n\<rparr>) = (Inl e, ls')"
    using assms(2) by (simp add: update_data_listener_count_def Let_def)
  have "data_ports_ok (ls\<lparr>ls_desired := n\<rparr>)"
    using assms(1) by (simp add: listeners_ok_def data_ports_ok_def)
  from ensure_data_acceptors_ok(2,4,5) [OF u this] started show "length (ls_data ls') < n" "ls_started ls'"
    by (simp_all add: same_listeners_def)
qed

text \<open>The calls the program makes; an exception of \<open>start\<close> ends the program. \<open>throws\<close> is whether later calls may throw.\<close>

inductive listeners_step :: "bool \<Rightarrow> listeners \<Rightarrow> listeners \<Rightarrow> bool" for throws where
  "listeners_start os ls = (Inr (), ls') \<Longrightarrow> listeners_step throws ls ls'"
| "listeners_step throws ls (listeners_stop ls)"
| "update_data_listener_count os n ls = (r, ls') \<Longrightarrow> throws \<or> r = Inr () \<Longrightarrow> listeners_step throws ls ls'"

interpretation listeners_sys: invariant_system "\<lambda>ls. \<exists>sb db n. ls = listeners_new sb db n"
    "listeners_step throws" "listeners_ok throws" for throws
proof
  show "\<exists>sb db n. ls = listeners_new sb db n \<Longrightarrow> listeners_ok throws ls" for ls
    using listeners_ok_new by blast
  show "listeners_ok throws ls \<Longrightarrow> listeners_step throws ls ls' \<Longrightarrow> listeners_ok throws ls'" for ls ls'
    by (erule listeners_step.cases) (blast intro: listeners_ok_start(1) listeners_ok_stop update_data_listener_count_ok)+
qed

section \<open>The control channel\<close>

text \<open>The objects a control connection works on.\<close>

record control_state =
  ct_listeners :: listeners
  ct_storage :: storage
  ct_data_listener_count :: nat
  ct_ttl :: int
  ct_metrics_hooks :: nat   \<comment> \<open>how often the metrics hook has run\<close>

text \<open>An exception of the listeners leaves \<open>apply_command\<close>; the number is stored by then.\<close>

definition apply_command :: "listen_os \<Rightarrow> string \<Rightarrow> control_state \<Rightarrow> world \<Rightarrow> string res \<times> control_state \<times> world" where
  "apply_command os command ct w =
     (let (verb, rest) = extract_word command
      in if verb = ''SCALE_DATA'' then
           let v = extract_u64 rest
           in if v = 0 then (Inr ''ERR data listener count must be > 0'', ct, w)
              else let ct = ct\<lparr>ct_data_listener_count := v\<rparr>;
                       (r, ls) = update_data_listener_count os v (ct_listeners ct);
                       ct = ct\<lparr>ct_listeners := ls\<rparr>
                   in (case r of Inl e \<Rightarrow> Inl e | Inr _ \<Rightarrow> Inr (''OK data listeners='' @ show_nat v), ct, w)
         else if verb = ''SET_TTL'' then
           let seconds = extract_i64 rest
           in if seconds \<le> 0 then (Inr ''ERR ttl must be positive'', ct, w)
              else let (st, w) = update_ttl seconds (ct_storage ct) w
                   in (Inr (''OK ttl='' @ show_int seconds), ct\<lparr>ct_ttl := seconds, ct_storage := st\<rparr>, w)
         else if verb = ''PING'' then (Inr ''PONG'', ct\<lparr>ct_metrics_hooks := ct_metrics_hooks ct + 1\<rparr>, w)
         else if verb = ''STATUS'' then
           (Inr (''OK listeners='' @ show_nat (ct_data_listener_count ct) @ '' ttl='' @ show_int (ct_ttl ct)), ct, w)
         else (Inr ''ERR unknown command'', ct, w))"

lemma read_line_shorter: "read_line c = Some (line, c') \<Longrightarrow> length (stream c') < length (stream c)"
  using read_line_Some [of c line c'] by simp

text \<open>
  The connection loop: empty lines are skipped, every other line is answered, \<open>QUIT\<close> and \<open>EXIT\<close> end
  it after their answer; a failed read or write or an exception of a command ends it too. \<open>writes\<close> is the
  number of answers the peer takes before a write fails.
\<close>

function handle_control :: "listen_os \<Rightarrow> nat \<Rightarrow> conn \<Rightarrow> control_state \<Rightarrow> world \<Rightarrow> string list \<times> control_state \<times> world" where
  "handle_control os writes c ct w =
     (case read_line c of
        None \<Rightarrow> ([], ct, w)
      | Some (line, c) \<Rightarrow>
          if line = [] then handle_control os writes c ct w
          else case apply_command os line ct w of
                 (Inl e, ct, w) \<Rightarrow> ([], ct, w)
               | (Inr response, ct, w) \<Rightarrow>
                   if writes = 0 then ([], ct, w)
                   else if line = ''QUIT'' \<or> line = ''EXIT'' then ([response @ [newline]], ct, w)
                   else let (rs, ct, w) = handle_control os (writes - 1) c ct w
                        in ((response @ [newline]) # rs, ct, w))"
  by pat_completeness auto
termination
  by (relation "measure (\<lambda>(os, n, c, ct, w). length (stream c))") (auto dest: read_line_shorter)

declare handle_control.simps [simp del]

text \<open>
  The protocol the loop is to implement, on the sequence of complete lines a client sends: commands
  in order up to and including the first \<open>QUIT\<close> or \<open>EXIT\<close>, or the first one that throws.
\<close>

function complete_lines :: "byte list \<Rightarrow> string list" where
  "complete_lines d = (if 10 \<in> set d then fst (get_line d) # complete_lines (snd (get_line d)) else [])"
  by pat_completeness auto
termination
proof (relation "measure length")
  fix d :: "byte list"
  assume "10 \<in> set d"
  from arg_cong [OF get_line_newline(1) [OF this], of length]
  show "(snd (get_line d), d) \<in> measure length" by simp
qed simp

declare complete_lines.simps [simp del]

fun control_session :: "listen_os \<Rightarrow> nat \<Rightarrow> string list \<Rightarrow> control_state \<Rightarrow> world \<Rightarrow> string list \<times> control_state \<times> world" where
  "control_session os n [] ct w = ([], ct, w)"
| "control_session os n (line # lines) ct w =
     (case apply_command os line ct w of
        (Inl e, ct, w) \<Rightarrow> ([], ct, w)
      | (Inr response, ct, w) \<Rightarrow>
          if n = 0 then ([], ct, w)
          else if line = ''QUIT'' \<or> line = ''EXIT'' then ([response @ [newline]], ct, w)
          else let (rs, ct, w) = control_session os (n - 1) lines ct w in ((response @ [newline]) # rs, ct, w))"

lemma complete_lines_line:
  assumes "newline \<notin> set line"
  shows "complete_lines (bytes_of line @ 10 # rest) = line # complete_lines rest"
proof -
  let ?d = "bytes_of line @ 10 # rest"
  have "?d = bytes_of (fst (get_line ?d)) @ 10 # snd (get_line ?d)" "newline \<notin> set (fst (get_line ?d))"
    by (rule get_line_newline; simp)+
  then have "bytes_of line = bytes_of (fst (get_line ?d)) \<and> rest = snd (get_line ?d)"
    using assms newline_notin_bytes_of append_newline_inject by blast
  then have "fst (get_line ?d) = line \<and> snd (get_line ?d) = rest"
    by (metis string_of_bytes_of)
  then show ?thesis
    by (subst complete_lines.simps) simp
qed

lemma read_line_complete:
  "read_line c = Some (line, c') \<Longrightarrow> complete_lines (stream c) = line # complete_lines (stream c')"
  using read_line_Some [of c line c'] by (simp add: complete_lines_line)

lemma handle_control_session:
  "handle_control os n c ct w = control_session os n (filter (\<lambda>l. l \<noteq> []) (complete_lines (stream c))) ct w"
proof (induction os n c ct w rule: handle_control.induct)
  case (1 os n c ct w)
  show ?case
  proof (cases "read_line c")
    case None
    then have "\<nexists>l c'. read_line c = Some (l, c')" by simp
    then have "10 \<notin> set (stream c)"
      using None read_until_None [of "fst c" "snd c"]
      by (auto simp: read_line_def stream_def split: option.splits prod.splits)
    then have "complete_lines (stream c) = []"
      by (subst complete_lines.simps) simp
    then show ?thesis
      using None by (subst handle_control.simps) simp
  next
    case (Some r)
    obtain line c' where r: "r = (line, c')" by (cases r)
    note cl = read_line_complete [OF Some [unfolded r]]
    obtain response ct' w' where a: "apply_command os line ct w = (response, ct', w')"
      by (metis prod_cases3)
    show ?thesis
      using "1.IH" [OF Some r [symmetric]] Some r cl a
      by (subst handle_control.simps) (auto split: prod.splits sum.splits)
  qed
qed

section \<open>Properties\<close>

text \<open>Whatever start, stop and rescaling calls come in whatever order and whichever ports can be
  opened, the i-th data acceptor is on port data base + i (modulo 65536) and the system channels
  are on their four ports while started; there are none while stopped, and as many data acceptors as desired while
  started, or fewer if starting them may throw.\<close>

theorem listeners_reachable_ok:
  assumes "(listeners_step throws)\<^sup>*\<^sup>* (listeners_new sys_base data_base n) ls"
  shows "listeners_ok throws ls"
  using listeners_sys.reachable_good [OF _ assms] by blast

definition sample_listen :: "nat list \<Rightarrow> listen_os" where
  "sample_listen down ch i = (if ch = Data \<and> i \<in> set down then NotListening else Listening)"

definition sample_listeners :: "nat list \<Rightarrow> nat \<Rightarrow> listeners" where
  "sample_listeners down n = snd (listeners_start (sample_listen down) (listeners_new 7000 7100 n))"

lemma sample_data_acceptor:
  "data_acceptor (sample_listen down) b i = Inr \<lparr>ac_channel = Data, ac_port = b + of_nat i, ac_running = i \<notin> set down\<rparr>"
  by (simp add: data_acceptor_def sample_listen_def start_acceptor_def)

lemma sample_grow:
  "grow_data (sample_listen down) is ls = (Inr (), ls\<lparr>ls_data := ls_data ls @
     map (\<lambda>i. \<lparr>ac_channel = Data, ac_port = ls_data_base ls + of_nat i, ac_running = i \<notin> set down\<rparr>) is\<rparr>)"
  by (induction "is" arbitrary: ls) (simp_all add: sample_data_acceptor)

lemma sample_start:
  "listeners_start (sample_listen down) (listeners_new 7000 7100 n) = (Inr (), sample_listeners down n)"
  "ls_data (sample_listeners down n) = map (\<lambda>i. \<lparr>ac_channel = Data, ac_port = 7100 + of_nat i, ac_running = i \<notin> set down\<rparr>) [0..<n]"
  "ls_started (sample_listeners down n)" "ls_desired (sample_listeners down n) = n"
proof -
  have sys: "\<exists>sys. start_system (sample_listen down) is ls = (Inr (), ls\<lparr>ls_system := sys\<rparr>)" for "is" ls
  proof (induction "is" arbitrary: ls)
    case (Cons i "is")
    have "\<exists>ctx. start_acceptor (sample_listen down (channel_of_nat i) i) a = Inr ctx" for a
      by (simp add: sample_listen_def start_acceptor_def)
    then obtain ctx where "start_acceptor (sample_listen down (channel_of_nat i) i)
        \<lparr>ac_channel = channel_of_nat i, ac_port = ls_sys_base ls + of_nat i, ac_running = False\<rparr> = Inr ctx" by blast
    then show ?case
      using Cons.IH [of "ls\<lparr>ls_system := (ls_system ls)[i := Some ctx]\<rparr>"] by simp
  next
    case Nil
    show ?case by (intro exI [of _ "ls_system ls"]) simp
  qed
  obtain sys where s: "start_system (sample_listen down) [0..<length (ls_system (listeners_new 7000 7100 n))]
      ((listeners_new 7000 7100 n)\<lparr>ls_started := True\<rparr>) = (Inr (), (listeners_new 7000 7100 n)\<lparr>ls_started := True, ls_system := sys\<rparr>)"
    using sys [of _ "(listeners_new 7000 7100 n)\<lparr>ls_started := True\<rparr>"] by auto
  have st: "listeners_start (sample_listen down) (listeners_new 7000 7100 n) =
      (Inr (), (listeners_new 7000 7100 n)\<lparr>ls_started := True, ls_system := sys, ls_data :=
        map (\<lambda>i. \<lparr>ac_channel = Data, ac_port = 7100 + of_nat i, ac_running = i \<notin> set down\<rparr>) [0..<n]\<rparr>)"
    unfolding listeners_start_def using s
    by (cases n) (simp_all add: listeners_new_def ensure_data_acceptors_def sample_grow del: upt_Suc)
  show "listeners_start (sample_listen down) (listeners_new 7000 7100 n) = (Inr (), sample_listeners down n)"
    "ls_data (sample_listeners down n) = map (\<lambda>i. \<lparr>ac_channel = Data, ac_port = 7100 + of_nat i, ac_running = i \<notin> set down\<rparr>) [0..<n]"
    "ls_started (sample_listeners down n)" "ls_desired (sample_listeners down n) = n"
    by (simp_all add: sample_listeners_def st) (simp_all add: listeners_new_def)
qed

theorem listeners_reachable_ok_witness:
  "listeners_ok False (sample_listeners [0] 4) \<and> length (ls_data (sample_listeners [0] 4)) = 4"
proof -
  have "(listeners_step False)\<^sup>*\<^sup>* (listeners_new 7000 7100 4) (sample_listeners [0] 4)"
    by (rule r_into_rtranclp) (rule listeners_step.intros(1) [OF sample_start(1)])
  then show ?thesis
    using listeners_reachable_ok by (simp add: sample_start(2))
qed

text \<open>An acceptor whose port could not be opened once stays down for ever: no later rescaling to at
  least its index opens it, even when the port has become free.\<close>

theorem failed_acceptor_never_retried:
  assumes "listeners_ok throws ls" and "i < length (ls_data ls)" and "\<not> ac_running (ls_data ls ! i)" and "i < n"
    and "update_data_listener_count os n ls = (r, ls')"
  shows "i < length (ls_data ls') \<and> \<not> ac_running (ls_data ls' ! i)"
proof -
  have "ls_started ls" using assms(1,2) by (auto simp: listeners_ok_def split: if_splits)
  then have e: "ensure_data_acceptors os n (ls\<lparr>ls_desired := n\<rparr>) = (r, ls')"
    using assms(5) by (simp add: update_data_listener_count_def Let_def)
  have "data_ports_ok (ls\<lparr>ls_desired := n\<rparr>)"
    using assms(1) by (simp add: listeners_ok_def data_ports_ok_def)
  from ensure_data_acceptors_ok(6) [OF e this] obtain new where "ls_data ls' = take n (ls_data ls) @ new" by auto
  then show ?thesis
    using assms(2-4) by (simp add: nth_append)
qed

theorem failed_acceptor_never_retried_witness:
  "\<not> ac_running (ls_data (snd (update_data_listener_count (sample_listen []) 3 (sample_listeners [0] 1))) ! 0)"
proof -
  have "(listeners_step False)\<^sup>*\<^sup>* (listeners_new 7000 7100 1) (sample_listeners [0] 1)"
    by (rule r_into_rtranclp) (rule listeners_step.intros(1) [OF sample_start(1)])
  then have "listeners_ok False (sample_listeners [0] 1)"
    using listeners_sys.reachable_good by blast
  then show ?thesis
    using failed_acceptor_never_retried [of False "sample_listeners [0] 1" 0 3 "sample_listen []"]
    by (cases "update_data_listener_count (sample_listen []) 3 (sample_listeners [0] 1)") (simp add: sample_start(2))
qed

text \<open>C35. The control channel implements its protocol on every byte stream: the answers and the effects
  are those of the complete non-empty lines, executed in order up to the first \<open>QUIT\<close> or \<open>EXIT\<close>,
  the first command that throws or the first answer the peer does not take. How the bytes are cut into segments does not matter, an
  unfinished last line has no effect, and every connection is handled to its end.\<close>

theorem control_channel_refines_session:
  "handle_control os writes c ct w =
     control_session os writes (filter (\<lambda>l. l \<noteq> []) (complete_lines (stream c))) ct w"
  by (rule handle_control_session)

text \<open>\<open>SCALE_DATA -1\<close> asks for 18446744073709551615 data listeners: the sign wraps instead of being refused. The number is
  stored and reported whatever comes of it.\<close>

lemma scale_data_minus_one:
  "extract_word ''SCALE_DATA -1'' = (''SCALE_DATA'', '' -1'')" "extract_u64 '' -1'' = 18446744073709551615"
  by (simp add: extract_word_def isspace_def)
    (simp add: extract_u64_def strto_def read_sign_def isspace_def isdigit_def digits_val_def digit_val_def)

theorem scale_data_minus_one_accepted:
  "ct_data_listener_count (fst (snd (apply_command os ''SCALE_DATA -1'' ct w))) = 18446744073709551615 \<and>
   ls_desired (ct_listeners (fst (snd (apply_command os ''SCALE_DATA -1'' ct w)))) = 18446744073709551615"
proof -
  obtain r ls where u: "update_data_listener_count os 18446744073709551615 (ct_listeners ct) = (r, ls)" by fastforce
  show ?thesis
    using update_desired [of os 18446744073709551615 "ct_listeners ct"] by (simp add: apply_command_def scale_data_minus_one u)
qed

text \<open>When starting an acceptor throws, the command ends the session without an answer, and what the control channel reports
  from then on is the number that was asked for, although fewer acceptors are there.\<close>

theorem throwing_scale_is_reported:
  assumes "extract_word line = (''SCALE_DATA'', rest)" and "line \<noteq> []" and "newline \<notin> set line"
    and "update_data_listener_count os (extract_u64 rest) (ct_listeners ct) = (Inl e, ls)"
    and "listeners_ok throws (ct_listeners ct)"
  shows "handle_control os n ([bytes_of line @ 10 # bytes], []) ct w =
      ([], ct\<lparr>ct_data_listener_count := extract_u64 rest, ct_listeners := ls\<rparr>, w) \<and>
    ls_started ls \<and> length (ls_data ls) < extract_u64 rest"
proof -
  have few: "length (ls_data ls) < extract_u64 rest" "ls_started ls"
    by (rule update_throws [OF assms(5,4)])+
  then have "apply_command os line ct w = (Inl e, ct\<lparr>ct_data_listener_count := extract_u64 rest, ct_listeners := ls\<rparr>, w)"
    using assms(1,4) by (simp add: apply_command_def)
  then show ?thesis
    using few assms(2,3) by (simp add: handle_control_session stream_def complete_lines_line)
qed

lemma update_throwing:
  assumes "ls_started ls" and "length (ls_data ls) < n" and "os Data (length (ls_data ls)) = ListenThrows e"
  shows "update_data_listener_count os n ls = (Inl e, ls\<lparr>ls_desired := n\<rparr>)"
  using assms
  by (simp add: update_data_listener_count_def ensure_data_acceptors_def upt_conv_Cons data_acceptor_def start_acceptor_def)

theorem throwing_scale_is_reported_witness:
  "\<exists>ct ls. fst (handle_control (\<lambda>_ _. ListenThrows BadAlloc) 1 ([bytes_of ''SCALE_DATA -1'' @ [10]], []) ct w) = [] \<and>
     length (ls_data ls) < 18446744073709551615 \<and>
     snd (handle_control (\<lambda>_ _. ListenThrows BadAlloc) 1 ([bytes_of ''SCALE_DATA -1'' @ [10]], []) ct w) =
       (ct\<lparr>ct_data_listener_count := 18446744073709551615, ct_listeners := ls\<rparr>, w)"
proof -
  let ?os = "\<lambda>_ _. ListenThrows BadAlloc"
  have "(listeners_step False)\<^sup>*\<^sup>* (listeners_new 7000 7100 0) (sample_listeners [] 0)"
    by (rule r_into_rtranclp) (rule listeners_step.intros(1) [OF sample_start(1)])
  then have ok: "listeners_ok False (sample_listeners [] 0)"
    using listeners_sys.reachable_good by blast
  obtain ct :: control_state where ct: "ct_listeners ct = sample_listeners [] 0"
    by (metis control_state.select_convs(1))
  have u: "update_data_listener_count ?os (extract_u64 '' -1'') (ct_listeners ct) =
      (Inl BadAlloc, (sample_listeners [] 0)\<lparr>ls_desired := 18446744073709551615\<rparr>)"
    by (simp only: ct scale_data_minus_one) (rule update_throwing; simp add: sample_start(2,3))
  have "newline \<notin> set ''SCALE_DATA -1''" by simp
  from throwing_scale_is_reported [OF scale_data_minus_one(1) _ this u, of False 1 "[]" w] ok show ?thesis
    by (intro exI [of _ ct] exI [of _ "(sample_listeners [] 0)\<lparr>ls_desired := 18446744073709551615\<rparr>"])
      (simp add: ct scale_data_minus_one)
qed

text \<open>The quit commands are answered as unknown before the connection ends.\<close>

lemma quit_is_unknown: "fst (apply_command os ''QUIT'' ct w) = Inr ''ERR unknown command''"
  by (simp add: apply_command_def extract_word_def isspace_def)

end
