(* ===== verification/Server_Main.thy ===== *)
theory Server_Main
  imports Control_Plane
begin

text \<open>
  The rest of \<^verbatim>\<open>Server/src/main.cpp\<close>: the command line, the dispatch of an accepted connection to the
  handler of its channel, and the periodic clean-up of published files. Parsing an IP address is a
  parameter (it is done by the asio library). The lemmas say which argument lists are accepted and
  with what result, which metrics a connection moves, and which files a sweep removes.
\<close>

section \<open>Command line\<close>

record 'a server_config =
  sc_listen_address :: 'a
  sc_sys_base :: u16
  sc_data_base :: u16
  sc_data_listeners :: nat
  sc_ttl :: int
  sc_root_dir :: string

definition server_config_default :: "'a \<Rightarrow> 'a server_config" where
  "server_config_default any =
     \<lparr>sc_listen_address = any, sc_sys_base = 7000, sc_data_base = 7100, sc_data_listeners = 4,
      sc_ttl = 3600, sc_root_dir = ''server_data''\<rparr>"

text \<open>The conversion of a parsed \<open>int\<close> to a 16-bit port.\<close>

definition port_of_int :: "int \<Rightarrow> u16" where
  "port_of_int i = word_of_int i"

text \<open>
  The loop over the arguments behind the program name. \<open>Inr None\<close> is the regular exit after the
  usage text, \<open>Inl\<close> an exception that leaves \<open>main\<close>. An option without a value and an unknown
  argument are reported and skipped.
\<close>

fun parse_arguments ::
    "(string \<Rightarrow> 'a res) \<Rightarrow> 'a server_config \<Rightarrow> string list \<Rightarrow> 'a server_config option res" where
  "parse_arguments mk config [] = Inr (Some config)"
| "parse_arguments mk config (arg # rest) =
     (if arg = ''--help'' \<or> arg = ''-h'' then Inr None
      else case rest of
        [] \<Rightarrow> parse_arguments mk config []
      | v # rest' \<Rightarrow>
          if arg = ''--address'' then
            bindE (mk v) (\<lambda>a. parse_arguments mk (config\<lparr>sc_listen_address := a\<rparr>) rest')
          else if arg = ''--sys-base'' then
            bindE (stoi v) (\<lambda>i. parse_arguments mk (config\<lparr>sc_sys_base := port_of_int i\<rparr>) rest')
          else if arg = ''--data-base'' then
            bindE (stoi v) (\<lambda>i. parse_arguments mk (config\<lparr>sc_data_base := port_of_int i\<rparr>) rest')
          else if arg = ''--x'' then
            bindE (stoul v) (\<lambda>n. parse_arguments mk (config\<lparr>sc_data_listeners := n\<rparr>) rest')
          else if arg = ''--ttl'' then
            bindE (stoll v) (\<lambda>t. parse_arguments mk (config\<lparr>sc_ttl := t\<rparr>) rest')
          else if arg = ''--root'' then
            parse_arguments mk (config\<lparr>sc_root_dir := v\<rparr>) rest'
          else parse_arguments mk config rest)"

text \<open>The argument list that spells out a configuration.\<close>

definition render_arguments :: "('a \<Rightarrow> string) \<Rightarrow> 'a server_config \<Rightarrow> string list" where
  "render_arguments show_addr c =
     [''--address'', show_addr (sc_listen_address c), ''--sys-base'', show_nat (unat (sc_sys_base c)),
      ''--data-base'', show_nat (unat (sc_data_base c)), ''--x'', show_nat (sc_data_listeners c),
      ''--ttl'', show_int (sc_ttl c), ''--root'', sc_root_dir c]"

lemma stoi_show_nat: "n < 2 ^ 31 \<Longrightarrow> stoi (show_nat n) = Inr (int n)"
  by (simp add: stoi_def)

lemma port_roundtrip: "bindE (stoi (show_nat (unat (p :: u16)))) (\<lambda>i. Inr (port_of_int i)) = Inr p"
proof -
  have "unat p < 2 ^ 31"
    using unsigned_less [of p, where ?'a = nat] by simp
  then show ?thesis
    by (simp add: stoi_show_nat port_of_int_def)
qed

lemma stoi_port: "stoi (show_nat (unat (p :: u16))) = Inr (int (unat p)) \<and> port_of_int (int (unat p)) = p"
proof -
  have "unat p < 2 ^ 31"
    using unsigned_less [of p, where ?'a = nat] by simp
  then show ?thesis
    by (simp add: stoi_show_nat port_of_int_def)
qed

lemma parse_rendered:
  assumes "mk (show_addr (sc_listen_address c)) = Inr (sc_listen_address c)"
    and "sc_data_listeners c < 2 ^ 64" and "- (2 ^ 63) \<le> sc_ttl c" and "sc_ttl c < 2 ^ 63"
  shows "parse_arguments mk c0 (render_arguments show_addr c) = Inr (Some c)"
  using assms stoi_port [of "sc_sys_base c"] stoi_port [of "sc_data_base c"]
  by (simp add: render_arguments_def stoul_show_nat stoll_show_int)

section \<open>Dispatch\<close>

definition sm_bump :: "channel \<Rightarrow> server_metrics \<Rightarrow> server_metrics" where
  "sm_bump ch m =
     (let m = m\<lparr>sm_accepted := sm_accepted m + 1\<rparr>
      in case ch of
           Health \<Rightarrow> m\<lparr>sm_health := sm_health m + 1\<rparr>
         | Telemetry \<Rightarrow> m\<lparr>sm_telemetry := sm_telemetry m + 1\<rparr>
         | ControlChannel \<Rightarrow> m\<lparr>sm_control := sm_control m + 1\<rparr>
         | Ack \<Rightarrow> m\<lparr>sm_acks := sm_acks m + 1\<rparr>
         | Data \<Rightarrow> m\<lparr>sm_data_connections := sm_data_connections m + 1\<rparr>)"

record main_state =
  ms_server :: server
  ms_listeners :: listeners
  ms_data_listener_count :: nat
  ms_ttl_seconds :: int

text \<open>The bytes sent back are the concatenated replies; a failed \<open>write\<close> is logged and ignored.\<close>

definition dispatch ::
    "'z env \<Rightarrow> listen_os \<Rightarrow> channel \<Rightarrow> segments \<Rightarrow> main_state \<Rightarrow> world \<Rightarrow> (string \<times> main_state \<times> world) option" where
  "dispatch en os ch segs ms w =
     (let sv = ms_server ms;
          sv = sv\<lparr>sv_metrics := sm_bump ch (sv_metrics sv)\<rparr>;
          ms = ms\<lparr>ms_server := sv\<rparr>;
          reply = (\<lambda>s. if en_reply_ok en then s @ [newline] else [])
      in case ch of
           Health \<Rightarrow> Some (reply ''OK'', ms, w)
         | Telemetry \<Rightarrow> Some (reply (metrics_snapshot (sv_metrics sv)), ms, w)
         | Ack \<Rightarrow> Some (reply ''ACK'', ms, w)
         | ControlChannel \<Rightarrow>
             (let (replies, ct, w) = handle_control os (en_control_writes en) (segs, [])
                     \<lparr>ct_listeners = ms_listeners ms, ct_storage = sv_storage sv,
                      ct_data_listener_count = ms_data_listener_count ms, ct_ttl = ms_ttl_seconds ms,
                      ct_metrics_hooks = 0\<rparr> w
              in Some (concat replies,
                    ms\<lparr>ms_server := sv\<lparr>sv_storage := ct_storage ct\<rparr>, ms_listeners := ct_listeners ct,
                       ms_data_listener_count := ct_data_listener_count ct, ms_ttl_seconds := ct_ttl ct\<rparr>, w))
         | Data \<Rightarrow>
             (case handle_data en segs sv w of
                None \<Rightarrow> None
              | Some (r, sv, w) \<Rightarrow> Some (r, ms\<lparr>ms_server := sv\<rparr>, w)))"

section \<open>Clean-up of published files\<close>

text \<open>\<open>path::extension()\<close>: the part of the file name from its last dot, which must not be its first character.\<close>

definition file_name :: "string \<Rightarrow> string" where
  "file_name p = rev (takeWhile (\<lambda>c. c \<noteq> CHR ''/'') (rev p))"

definition extension :: "string \<Rightarrow> string" where
  "extension p =
     (let f = file_name p; e = rev (takeWhile (\<lambda>c. c \<noteq> CHR ''.'') (rev f))
      in if f = ''.'' \<or> f = ''..'' \<or> CHR ''.'' \<notin> set f \<or> length e + 1 = length f then []
         else CHR ''.'' # e)"

text \<open>A directory entry: path, whether it is a regular file, and its time stamp when it can be read.\<close>

type_synonym dir_entry = "string \<times> bool \<times> int option"

fun cleanup_entries :: "int \<Rightarrow> int \<Rightarrow> dir_entry list \<Rightarrow> world \<Rightarrow> world" where
  "cleanup_entries now ttl [] w = w"
| "cleanup_entries now ttl ((p, regular, time) # rest) w =
     (if \<not> regular then cleanup_entries now ttl rest w
      else if extension p = ''.part'' then cleanup_entries now ttl rest w
      else case time of
             None \<Rightarrow> cleanup_entries now ttl rest w
           | Some t \<Rightarrow>
               if now - t > wrap64 (ttl * 1000000000)
               then cleanup_entries now ttl rest (snd (fs_remove p w))
               else cleanup_entries now ttl rest w)"

text \<open>\<open>listing\<close> is \<open>None\<close> when the directory cannot be opened.\<close>

definition cleanup_completed_files :: "int \<Rightarrow> int \<Rightarrow> dir_entry list option \<Rightarrow> world \<Rightarrow> world" where
  "cleanup_completed_files now ttl listing w =
     (if ttl \<le> 0 then w else case listing of None \<Rightarrow> w | Some es \<Rightarrow> cleanup_entries now ttl es w)"

text \<open>One round of the clean-up thread.\<close>

definition cleanup_round :: "int \<Rightarrow> dir_entry list option \<Rightarrow> main_state \<Rightarrow> world \<Rightarrow> main_state \<times> world" where
  "cleanup_round now listing ms w =
     (let (st, w) = cleanup_expired now (sv_storage (ms_server ms)) w
      in (ms\<lparr>ms_server := (ms_server ms)\<lparr>sv_storage := st\<rparr>\<rparr>,
          cleanup_completed_files now (ms_ttl_seconds ms) listing w))"

definition due :: "int \<Rightarrow> int \<Rightarrow> dir_entry \<Rightarrow> bool" where
  "due now ttl e = (case e of (p, regular, time) \<Rightarrow>
     regular \<and> extension p \<noteq> ''.part'' \<and> (\<exists>t. time = Some t \<and> now - t > ttl * 1000000000))"

lemma fs_remove_files:
  "q \<noteq> p \<Longrightarrow> w_files (snd (fs_remove p w)) q = w_files w q"
  by (auto simp: fs_remove_def sys_unlink_def split: prod.split dest!: next_reply_files)

lemma fs_remove_no_faults:
  "no_faults w \<Longrightarrow> no_faults (snd (fs_remove p w)) \<and> w_files (snd (fs_remove p w)) = (w_files w)(p := None)"
  by (auto simp: fs_remove_def sys_unlink_def dest: next_reply_no_faults next_reply_files split: prod.split)

lemma cleanup_entries_kept:
  "0 < ttl \<Longrightarrow> ttl \<le> 9223372036 \<Longrightarrow> \<forall>e \<in> set es. fst e = q \<longrightarrow> \<not> due now ttl e \<Longrightarrow>
     w_files (cleanup_entries now ttl es w) q = w_files w q"
proof (induction now ttl es w rule: cleanup_entries.induct)
  case (2 now ttl p regular time rest w)
  then show ?case
    using fs_remove_files [of q p w] by (auto simp: due_def wrap64_id split: option.split)
qed simp

lemma cleanup_entries_removed:
  "no_faults w \<Longrightarrow> 0 < ttl \<Longrightarrow> ttl \<le> 9223372036 \<Longrightarrow> (\<exists>e \<in> set es. fst e = q \<and> due now ttl e) \<or> w_files w q = None \<Longrightarrow>
     w_files (cleanup_entries now ttl es w) q = None"
proof (induction now ttl es w rule: cleanup_entries.induct)
  case (2 now ttl p regular time rest w)
  then show ?case
    using fs_remove_no_faults [of w p] by (auto simp: due_def wrap64_id split: option.split)
qed simp

section \<open>Properties\<close>

text \<open>The command line that spells out a configuration is parsed back to that configuration, whatever
  the defaults (for every 16-bit port and every count and time to live of the code's types).\<close>

theorem server_arguments_roundtrip:
  assumes "mk (show_addr (sc_listen_address c)) = Inr (sc_listen_address c)"
    and "sc_data_listeners c < 2 ^ 64" and "- (2 ^ 63) \<le> sc_ttl c" and "sc_ttl c < 2 ^ 63"
  shows "parse_arguments mk c0 (render_arguments show_addr c) = Inr (Some c)"
  using assms by (rule parse_rendered)

theorem server_arguments_roundtrip_witness:
  "parse_arguments Inr (server_config_default ''0.0.0.0'')
     (render_arguments (\<lambda>a. a) (server_config_default ''127.0.0.1'')) = Inr (Some (server_config_default ''127.0.0.1''))"
  by (rule server_arguments_roundtrip) (simp_all add: server_config_default_def)

text \<open>A port argument outside 16 bits is accepted and wraps: \<open>--data-base 72636\<close> listens on port 7100.\<close>

theorem port_argument_wraps:
  "parse_arguments mk c [''--data-base'', ''72636''] = Inr (Some (c\<lparr>sc_data_base := 7100\<rparr>))"
proof -
  have "stoi ''72636'' = Inr 72636"
    by (simp add: stoi_def strto_def read_sign_def isspace_def isdigit_def digits_val_def digit_val_def)
  then show ?thesis
    by (simp add: port_of_int_def)
qed

text \<open>A sweep over the published files removes exactly the due ones: regular files that are not part
  files and whose age exceeds the time to live; on a disk without faults it removes all of them.\<close>

theorem published_cleanup_exact:
  assumes "0 < ttl" and "ttl \<le> 9223372036" and "no_faults w" and "w_files w q \<noteq> None"
  shows "w_files (cleanup_completed_files now ttl (Some es) w) q =
     (if \<exists>e \<in> set es. fst e = q \<and> due now ttl e then None else w_files w q)"
  using cleanup_entries_removed [OF assms(3,1,2), of es q now] cleanup_entries_kept [OF assms(1,2), of es q now w] assms(1)
  by (auto simp: cleanup_completed_files_def)

theorem published_cleanup_exact_witness:
  "w_files (cleanup_completed_files 11000000000 10 (Some [(''d/a'', True, Some 0), (''d/b.part'', True, Some 0)])
      \<lparr>w_files = [''d/a'' \<mapsto> [1], ''d/b.part'' \<mapsto> [2]], w_replies = []\<rparr>) ''d/b.part'' = Some [2]"
  by (subst published_cleanup_exact) (simp_all add: no_faults_def due_def extension_def file_name_def)

text \<open>Every accepted connection counts once as accepted and once for its own channel, and for no other
  channel; the telemetry reply already contains this connection.\<close>

theorem dispatch_counts_connection:
  assumes "dispatch en os ch segs ms w = Some (r, ms', w')"
  shows "sm_accepted (sv_metrics (ms_server ms')) = sm_accepted (sv_metrics (ms_server ms)) + 1 \<and>
     sm_health (sv_metrics (ms_server ms')) = sm_health (sv_metrics (ms_server ms)) + (if ch = Health then 1 else 0) \<and>
     sm_telemetry (sv_metrics (ms_server ms')) = sm_telemetry (sv_metrics (ms_server ms)) + (if ch = Telemetry then 1 else 0) \<and>
     sm_control (sv_metrics (ms_server ms')) = sm_control (sv_metrics (ms_server ms)) + (if ch = ControlChannel then 1 else 0) \<and>
     sm_acks (sv_metrics (ms_server ms')) = sm_acks (sv_metrics (ms_server ms)) + (if ch = Ack then 1 else 0) \<and>
     sm_data_connections (sv_metrics (ms_server ms')) =
       sm_data_connections (sv_metrics (ms_server ms)) + (if ch = Data then 1 else 0)"
  using assms
  by (cases ch)
     (auto simp: dispatch_def Let_def sm_bump_def handle_data_def count_chunk_error_def
        split: option.splits prod.splits sum.splits)

theorem dispatch_counts_connection_witness:
  "\<exists>ms'. dispatch sample_env (sample_listen []) Telemetry [] \<lparr>ms_server = sample_server, ms_listeners = listeners_new 1 2 3,
      ms_data_listener_count = 3, ms_ttl_seconds = 60\<rparr> empty_world
      = Some (metrics_snapshot (metrics_zero\<lparr>sm_accepted := 1, sm_telemetry := 1\<rparr>) @ [newline], ms', empty_world) \<and>
      sm_accepted (sv_metrics (ms_server ms')) = 1"
proof -
  let ?ms = "\<lparr>ms_server = sample_server, ms_listeners = listeners_new 1 2 3, ms_data_listener_count = 3, ms_ttl_seconds = 60\<rparr>"
  obtain ms' where d: "dispatch sample_env (sample_listen []) Telemetry [] ?ms empty_world
      = Some (metrics_snapshot (metrics_zero\<lparr>sm_accepted := 1, sm_telemetry := 1\<rparr>) @ [newline], ms', empty_world)"
    by (simp add: dispatch_def Let_def sm_bump_def sample_server_def sample_env_def metrics_zero_def)
  then show ?thesis
    using dispatch_counts_connection [OF d] by (simp add: sample_server_def metrics_zero_def)
qed

end
