(* ===== verification/Upload.thy ===== *)
theory Upload
  imports Data_Channel
begin

text \<open>
  A whole upload: requests for the chunks of one file, handled one after the other. The theory shows
  that, whatever the order, the repetitions and the segmentation, the file is published with the
  decoded content as soon as the last missing chunk is there, and not before.
\<close>

section \<open>The directory layout of the server\<close>

definition layout_ok :: "storage \<Rightarrow> bool" where
  "layout_ok s \<longleftrightarrow> (\<exists>root. root \<noteq> [] \<and> last root \<noteq> CHR ''/'' \<and>
     st_patches_dir s = root @ ''/patches'' \<and> st_files_dir s = root @ ''/files'')"

lemma storage_new_layout:
  "root \<noteq> [] \<Longrightarrow> last root \<noteq> CHR ''/'' \<Longrightarrow> layout_ok (fst (storage_new root ttl w))"
  by (auto simp: layout_ok_def storage_new_def path_join_def Let_def split: prod.split)

text \<open>Names that are one path component.\<close>

definition plain_name :: "string \<Rightarrow> bool" where
  "plain_name name \<longleftrightarrow> plain_id name"

lemma files_path:
  assumes "layout_ok s" and "take 1 name \<noteq> ''/''"
  shows "\<exists>root. st_patches_dir s = root @ ''/patches'' \<and>
     path_join (st_files_dir s) name = root @ ''/files/'' @ name"
  using assms by (auto simp: layout_ok_def path_join_def)

lemma layout_separates:
  assumes s: "layout_ok s" and d: "dirs_ok s" and f: "plain_id fid" and n: "take 1 name \<noteq> ''/''"
  shows "path_join (st_files_dir s) name \<noteq> patch_path s fid i"
    and "\<not> below (path_join (st_patches_dir s) fid) (path_join (st_files_dir s) name)"
proof -
  obtain root where r: "st_patches_dir s = root @ ''/patches''"
      "path_join (st_files_dir s) name = root @ ''/files/'' @ name"
    using files_path [OF s n] by auto
  show "path_join (st_files_dir s) name \<noteq> patch_path s fid i"
    using d f by (simp add: r patch_path_plain)
  show "\<not> below (path_join (st_patches_dir s) fid) (path_join (st_files_dir s) name)"
  proof -
    have "path_join (st_patches_dir s) fid = root @ ''/patches'' @ ''/'' @ fid"
      using plain_id_join(1) [OF d f] r(1) by simp
    then show ?thesis
      by (simp add: below_def prefix_def r(2))
  qed
qed

section \<open>Handling the requests\<close>

fun handle_all :: "'z env \<Rightarrow> segments list \<Rightarrow> server \<Rightarrow> world \<Rightarrow> (server \<times> world) option" where
  "handle_all en [] sv w = Some (sv, w)"
| "handle_all en (r # rs) sv w =
     (case handle_data en r sv w of None \<Rightarrow> None | Some (_, sv', w') \<Rightarrow> handle_all en rs sv' w')"

text \<open>The state of an upload in which the indices \<open>have\<close> have arrived.\<close>

definition upload_state :: "string \<Rightarrow> string \<Rightarrow> byte list list \<Rightarrow> nat set \<Rightarrow> storage \<Rightarrow> world \<Rightarrow> bool" where
  "upload_state fid name parts arrived s w \<longleftrightarrow>
     storage_ok s \<and> files_present s w \<and> no_faults w \<and> layout_ok s \<and>
     (\<forall>i < length parts. stored s w fid i = (if i \<in> arrived then Some (parts ! i) else None)) \<and>
     (\<forall>ttl i d. totals_agree s (request_chunk fid name i (length parts) ttl d) \<and>
        names_agree s (request_chunk fid name i (length parts) ttl d))"

text \<open>One request of the upload.\<close>

definition part_request :: "string \<Rightarrow> string \<Rightarrow> byte list list \<Rightarrow> 'z env \<Rightarrow> nat \<times> segments \<Rightarrow> bool" where
  "part_request fid name parts en = (\<lambda>(i, segs). \<exists>ttl.
     good_request fid name i (length parts) ttl (parts ! i) segs \<and>
     request_ok fid name i (length parts) ttl \<and> length (parts ! i) \<le> en_payload_limit en \<and>
     length (parts ! i) < 2 ^ 64)"

lemma upload_step_store:
  assumes u: "upload_state fid name parts arrived s w" and f: "plain_id fid"
    and i: "i < length parts" and limit: "length parts \<le> en_resize_limit en"
  shows "\<exists>r s' w'. store_chunk (en_resize_limit en) (en_now en)
        (request_chunk fid name i (length parts) ttl (parts ! i)) s w = (Inr r, s', w') \<and>
     upload_state fid name parts (insert i arrived) s' w' \<and>
     (case r of
        None \<Rightarrow> \<not> {..<length parts} \<subseteq> insert i arrived
      | Some rec \<Rightarrow> {..<length parts} \<subseteq> insert i arrived \<and> pr_total_chunks rec = length parts \<and>
          pr_file_id rec = fid \<and> pr_original_name rec = name \<and>
          pr_chunk_files rec = map (patch_path s' fid) [0..<length parts] \<and>
          pr_patches_dir rec = path_join (st_patches_dir s') fid) \<and>
     st_files_dir s' = st_files_dir s \<and> st_patches_dir s' = st_patches_dir s"
proof -
  let ?c = "request_chunk fid name i (length parts) ttl (parts ! i)"
  have s: "storage_ok s" "files_present s w" "no_faults w" "layout_ok s" "totals_agree s ?c" "names_agree s ?c"
    and st: "\<And>j. j < length parts \<Longrightarrow> stored s w fid j = (if j \<in> arrived then Some (parts ! j) else None)"
    using u by (auto simp: upload_state_def)
  obtain r s' w' where sc: "store_chunk (en_resize_limit en) (en_now en) ?c s w = (Inr r, s', w')"
    and w': "no_faults w'" and upd: "stored s' w' = stored_update (stored s w) fid i (parts ! i)"
    and r: "case r of
        None \<Rightarrow> \<not> (\<forall>j < length parts. stored s' w' fid j \<noteq> None)
      | Some rec \<Rightarrow> (\<forall>j < length parts. stored s' w' fid j \<noteq> None) \<and>
          pr_total_chunks rec = length parts \<and> pr_file_id rec = fid \<and>
          pr_chunk_files rec = map (patch_path s fid) [0..<length parts] \<and>
          pr_patches_dir rec = path_join (st_patches_dir s) fid"
    and post: "totals_agree s' ?c" "storage_ok s'" "files_present s' w'" "st_patches_dir s' = st_patches_dir s"
      "st_files_dir s' = st_files_dir s" "names_agree s' ?c" "\<forall>rec. r = Some rec \<longrightarrow> pr_original_name rec = name"
    using store_chunk_complete [OF s(1,2) _ _ request_chunk_verified s(3,5), of "en_resize_limit en" "en_now en"] f i limit s(6)
    unfolding request_chunk_simps by blast
  have st': "stored s' w' fid j = (if j \<in> insert i arrived then Some (parts ! j) else None)" if "j < length parts" for j
    using st [OF that] by (auto simp: upd stored_update_def)
  have all: "(\<forall>j < length parts. stored s' w' fid j \<noteq> None) \<longleftrightarrow> {..<length parts} \<subseteq> insert i arrived"
    using st' by (auto split: if_splits)
  have "upload_state fid name parts (insert i arrived) s' w'"
    using post w' s(4) st' by (auto simp: upload_state_def layout_ok_def totals_agree_def names_agree_def split: option.splits)
  moreover have "patch_path s' = patch_path s"
    by (simp add: patch_path_def fun_eq_iff post(4))
  ultimately show ?thesis
    using sc r post(4,5,7) unfolding all
    by (intro exI [of _ r] exI [of _ s'] exI [of _ w']) (cases r; simp)
qed

text \<open>Before the set is complete, a request only adds its chunk.\<close>

lemma upload_step:
  assumes u: "upload_state fid name parts arrived (sv_storage sv) w" and f: "plain_id fid"
    and p: "part_request fid name parts en (i, segs)" and limit: "length parts \<le> en_resize_limit en"
    and missing: "\<not> {..<length parts} \<subseteq> insert i arrived"
  shows "\<exists>reply sv' w'. handle_data en segs sv w = Some (reply, sv', w') \<and>
     upload_state fid name parts (insert i arrived) (sv_storage sv') w' \<and>
     st_files_dir (sv_storage sv') = st_files_dir (sv_storage sv)"
proof -
  obtain ttl where g: "good_request fid name i (length parts) ttl (parts ! i) segs"
      "request_ok fid name i (length parts) ttl" "length (parts ! i) \<le> en_payload_limit en" "length (parts ! i) < 2 ^ 64"
    using p by (auto simp: part_request_def)
  have i: "i < length parts" using g(2) by (simp add: request_ok_def)
  note rc = receive_good_request [OF g]
  obtain r s' w' where sc: "store_chunk (en_resize_limit en) (en_now en)
        (request_chunk fid name i (length parts) ttl (parts ! i)) (sv_storage sv) w = (Inr r, s', w')"
    and u': "upload_state fid name parts (insert i arrived) s' w'"
    and "case r of None \<Rightarrow> True | Some rec \<Rightarrow> {..<length parts} \<subseteq> insert i arrived"
    and files: "st_files_dir s' = st_files_dir (sv_storage sv)"
    using upload_step_store [OF u f i limit, of ttl] by (fastforce split: option.splits)
  then have "r = None"
    using missing by (auto split: option.splits)
  then show ?thesis
    using rc sc u' files by (simp add: handle_data_def Let_def)
qed

lemma upload_many:
  assumes f: "plain_id fid" and limit: "length parts \<le> en_resize_limit en"
  shows "upload_state fid name parts arrived (sv_storage sv) w \<Longrightarrow>
     \<forall>r \<in> set reqs. part_request fid name parts en r \<Longrightarrow>
     \<not> {..<length parts} \<subseteq> arrived \<union> fst ` set reqs \<Longrightarrow>
     \<exists>sv' w'. handle_all en (map snd reqs) sv w = Some (sv', w') \<and>
       upload_state fid name parts (arrived \<union> fst ` set reqs) (sv_storage sv') w' \<and>
       st_files_dir (sv_storage sv') = st_files_dir (sv_storage sv)"
proof (induction reqs arbitrary: arrived sv w)
  case (Cons r reqs)
  obtain i segs where r: "r = (i, segs)" by fastforce
  have m: "\<not> {..<length parts} \<subseteq> insert i arrived"
    using Cons.prems(3) by (auto simp: r)
  obtain reply sv1 w1 where h: "handle_data en segs sv w = Some (reply, sv1, w1)"
      "upload_state fid name parts (insert i arrived) (sv_storage sv1) w1"
      "st_files_dir (sv_storage sv1) = st_files_dir (sv_storage sv)"
    using upload_step [OF Cons.prems(1) f _ limit m, of segs] Cons.prems(2) by (auto simp: r)
  have "insert i arrived \<union> fst ` set reqs = arrived \<union> fst ` set (r # reqs)"
    by (auto simp: r)
  then show ?case
    using Cons.IH [OF h(2)] Cons.prems(2,3) h by (simp add: r)
qed simp

text \<open>The request that completes the set publishes the file.\<close>

lemma upload_last:
  assumes u: "upload_state fid name parts arrived (sv_storage sv) w" and f: "plain_id fid"
    and n: "plain_name name"
    and p: "part_request fid name parts en (i, segs)" and limit: "length parts \<le> en_resize_limit en"
    and complete: "{..<length parts} \<subseteq> insert i arrived"
    and frame: "decodes_frame (en_zstd en) (concat parts) data" "concat parts \<noteq> []"
  shows "\<exists>reply sv' w'. handle_data en segs sv w = Some (reply, sv', w') \<and>
     w_files w' (path_join (st_files_dir (sv_storage sv)) name) = Some data \<and>
     map_of (st_payloads (sv_storage sv')) fid = None \<and>
     (\<forall>q. below (path_join (st_patches_dir (sv_storage sv')) fid) q \<longrightarrow> w_files w' q = None) \<and>
     sm_assemblies (sv_metrics sv') = sm_assemblies (sv_metrics sv) + 1"
proof -
  obtain ttl where g: "good_request fid name i (length parts) ttl (parts ! i) segs"
      "request_ok fid name i (length parts) ttl" "length (parts ! i) \<le> en_payload_limit en" "length (parts ! i) < 2 ^ 64"
    using p by (auto simp: part_request_def)
  have i: "i < length parts" using g(2) by (simp add: request_ok_def)
  note rc = receive_good_request [OF g]
  obtain rec s' w1 where sc: "store_chunk (en_resize_limit en) (en_now en)
        (request_chunk fid name i (length parts) ttl (parts ! i)) (sv_storage sv) w = (Inr (Some rec), s', w1)"
    and u': "upload_state fid name parts (insert i arrived) s' w1"
    and rec: "pr_total_chunks rec = length parts" "pr_file_id rec = fid" "pr_original_name rec = name"
      "pr_chunk_files rec = map (patch_path s' fid) [0..<length parts]"
      "pr_patches_dir rec = path_join (st_patches_dir s') fid"
    and files: "st_files_dir s' = st_files_dir (sv_storage sv)"
    using upload_step_store [OF u f i limit, of ttl] complete by (fastforce split: option.splits)
  have s': "storage_ok s'" "layout_ok s'" "no_faults w1" "dirs_ok s'"
    and st: "\<And>j. j < length parts \<Longrightarrow> stored s' w1 fid j = Some (parts ! j)"
    using u' complete by (auto simp: upload_state_def storage_ok_def)
  have t1: "take 1 name \<noteq> ''/''" "take 1 (name @ ''.part'') \<noteq> ''/''"
    using n by (auto simp: plain_name_def plain_id_def take_Suc_conv_app_nth nth_append neq_Nil_conv)
  note sep = layout_separates [OF s'(2,4) f]
  have content: "w_files w1 (patch_path s' fid j) = Some (parts ! j)" if "j < length parts" for j
    using st [OF that] stored_path [OF s'(1)] by (auto split: option.splits if_splits)
  have chunks: "list_all2 (\<lambda>q x. q \<noteq> [] \<and> q \<noteq> path_join (st_files_dir s') (pr_original_name rec @ ''.part'') \<and>
      w_files w1 q = Some x) (pr_chunk_files rec) parts"
    unfolding list_all2_conv_all_nth
    using content sep(1) [OF t1(2)] patch_path_nonempty by (simp add: rec(3,4)) metis
  obtain w2 where as: "assemble (en_zstd en) (st_files_dir s') rec w1 =
        Some (Some (path_join (st_files_dir s') name), w2)"
      "w_files w2 = (\<lambda>q. if below (pr_patches_dir rec) q then None
                       else if q = path_join (st_files_dir s') name then Some data
                       else if q = path_join (st_files_dir s') (name @ ''.part'') then None else w_files w1 q)"
    using assemble_frame [OF _ refl refl chunks frame s'(3)] rec(1,3,4) by (simp only: length_map length_upt minus_nat.diff_0) blast
  have "w_files w2 (path_join (st_files_dir (sv_storage sv)) name) = Some data"
    using as(2) sep(2) [OF t1(1)] by (simp add: rec(5) files)
  moreover have "w_files w2 q = None" if "below (path_join (st_patches_dir s') fid) q" for q
    using as(2) that by (simp add: rec(5))
  ultimately show ?thesis
    using rc sc as(1)
    by (simp add: handle_data_def Let_def rec(2) mark_published_def al_erase_lookup)
qed

lemma upload_fresh:
  assumes "storage_ok s" and "files_present s w" and "no_faults w" and "layout_ok s"
    and "map_of (st_payloads s) fid = None"
  shows "upload_state fid name parts {} s w"
  using assms by (auto simp: upload_state_def stored_def totals_agree_def names_agree_def)

lemma handle_all_append:
  "handle_all en (xs @ ys) sv w =
     (case handle_all en xs sv w of None \<Rightarrow> None | Some (sv', w') \<Rightarrow> handle_all en ys sv' w')"
  by (induction en xs sv w rule: handle_all.induct) (auto split: option.splits prod.splits)

section \<open>Properties\<close>

text \<open>C1. The server's purpose, end to end: from a state that knows nothing of the file, requests for the
  chunks of a compressed frame in any order, with any repetitions before the last missing one and
  any segmentation behind the header, publish under the original name exactly the decompressed
  data as soon as the last missing chunk is there; before that the file is pending in the store,
  afterwards no entry and no patch is left.\<close>

theorem upload_publishes:
  assumes "storage_ok (sv_storage sv)" and "files_present (sv_storage sv) w" and "no_faults w"
    and "layout_ok (sv_storage sv)" and "map_of (st_payloads (sv_storage sv)) fid = None"
    and "plain_id fid" and "plain_name name" and "length parts \<le> en_resize_limit en"
    and "\<forall>r \<in> set (reqs @ [(i, segs)]). part_request fid name parts en r"
    and "\<not> {..<length parts} \<subseteq> fst ` set reqs" and "{..<length parts} \<subseteq> insert i (fst ` set reqs)"
    and "decodes_frame (en_zstd en) (concat parts) data" and "concat parts \<noteq> []"
  shows "\<exists>sv1 w1 sv' w'. handle_all en (map snd reqs) sv w = Some (sv1, w1) \<and>
     map_of (st_payloads (sv_storage sv1)) fid \<noteq> None = (reqs \<noteq> []) \<and>
     handle_all en (map snd (reqs @ [(i, segs)])) sv w = Some (sv', w') \<and>
     w_files w' (path_join (st_files_dir (sv_storage sv)) name) = Some data \<and>
     map_of (st_payloads (sv_storage sv')) fid = None \<and>
     (\<forall>q. below (path_join (st_patches_dir (sv_storage sv')) fid) q \<longrightarrow> w_files w' q = None)"
proof -
  note u0 = upload_fresh [OF assms(1-5), of name parts]
  obtain sv1 w1 where h1: "handle_all en (map snd reqs) sv w = Some (sv1, w1)"
      "upload_state fid name parts (fst ` set reqs) (sv_storage sv1) w1"
      "st_files_dir (sv_storage sv1) = st_files_dir (sv_storage sv)"
    using upload_many [OF assms(6,8) u0, of reqs] assms(9,10) by auto
  have known: "map_of (st_payloads (sv_storage sv1)) fid \<noteq> None = (reqs \<noteq> [])"
  proof (cases reqs)
    case Nil
    then show ?thesis using h1(1) assms(5) by simp
  next
    case (Cons r rs)
    then have "part_request fid name parts en (fst r, snd r)"
      using assms(9) by simp
    then have "fst r < length parts"
      by (auto simp: part_request_def request_ok_def)
    then have "stored (sv_storage sv1) w1 fid (fst r) \<noteq> None"
      using h1(2) Cons by (simp add: upload_state_def)
    then show ?thesis
      using Cons by (auto simp: stored_def split: option.splits)
  qed
  obtain reply sv' w' where h2: "handle_data en segs sv1 w1 = Some (reply, sv', w')"
     "w_files w' (path_join (st_files_dir (sv_storage sv)) name) = Some data"
     "map_of (st_payloads (sv_storage sv')) fid = None"
     "\<forall>q. below (path_join (st_patches_dir (sv_storage sv')) fid) q \<longrightarrow> w_files w' q = None"
  proof -
    have "part_request fid name parts en (i, segs)" using assms(9) by simp
    from upload_last [OF h1(2) assms(6,7) this assms(8,11,12,13), unfolded h1(3)] show thesis
      using that by blast
  qed
  have "handle_all en (map snd (reqs @ [(i, segs)])) sv w = Some (sv', w')"
    using h1(1) h2(1) by (simp add: handle_all_append)
  then show ?thesis
    using h1(1) known h2(2-4) by blast
qed

definition sample_parts :: "byte list list" where
  "sample_parts = [[1, 7, 1], [8, 0]]"

definition sample_request :: "nat \<Rightarrow> segments" where
  "sample_request i = [request_header ''a'' ''a.txt'' i 2 0 (length (sample_parts ! i))
      (ck_header_crc (request_chunk ''a'' ''a.txt'' i 2 0 (sample_parts ! i)))
      (ck_payload_crc (request_chunk ''a'' ''a.txt'' i 2 0 (sample_parts ! i))), sample_parts ! i]"

lemma sample_request_ok: "i < 2 \<Longrightarrow> part_request ''a'' ''a.txt'' sample_parts sample_env (i, sample_request i)"
proof -
  assume i: "i < 2"
  have "good_request ''a'' ''a.txt'' i 2 0 (sample_parts ! i) (sample_request i)"
    unfolding good_request_def
    by (rule exI [of _ "[hd (sample_request i)]"], rule exI [of _ "[sample_parts ! i]"]) (simp add: sample_request_def)
  moreover have "length (sample_parts ! i) \<le> 3"
    using i by (auto simp: sample_parts_def less_2_cases_iff)
  moreover have "length sample_parts = 2" "en_payload_limit sample_env = 100"
    by (simp_all add: sample_parts_def sample_env_def)
  ultimately show ?thesis
    using i by (simp add: part_request_def) (intro exI [of _ 0], simp add: request_ok_def)
qed

theorem upload_publishes_witness:
  "\<exists>sv' w'. handle_all sample_env (map snd [(1, sample_request 1), (1, sample_request 1), (0, sample_request 0)])
      sample_server empty_world = Some (sv', w') \<and> w_files w' ''d/files/a.txt'' = Some [7, 8]"
proof -
  have fr: "concat sample_parts = toy_frame [7, 8]"
    by (simp add: toy_frame_def sample_parts_def)
  have dec: "decodes_frame (en_zstd sample_env) (concat sample_parts) [7, 8]"
    unfolding fr using toy_decodes by (simp add: sample_env_def)
  have st: "sv_storage sample_server = sample_storage" "no_faults empty_world" "layout_ok sample_storage"
    by (simp_all add: sample_server_def no_faults_def empty_world_def sample_storage_def storage_new_layout)
  have set: "{..<2 :: nat} = {0, 1}" by auto
  have n: "length sample_parts = 2" by (simp add: sample_parts_def)
  have reqs: "\<forall>r \<in> set ([(1, sample_request 1), (1, sample_request 1)] @ [(0, sample_request 0)]).
      part_request ''a'' ''a.txt'' sample_parts sample_env r"
    using sample_request_ok by simp
  have fd: "path_join (st_files_dir sample_storage) ''a.txt'' = ''d/files/a.txt''"
    by (simp add: sample_storage_def storage_new_def path_join_def Let_def split: prod.split)
  have pre: "storage_ok (sv_storage sample_server)" "files_present (sv_storage sample_server) empty_world"
    "layout_ok (sv_storage sample_server)" "map_of (st_payloads (sv_storage sample_server)) ''a'' = None"
    "plain_name ''a.txt''" "length sample_parts \<le> en_resize_limit sample_env" "concat sample_parts \<noteq> []"
    "\<not> {..<length sample_parts} \<subseteq> fst ` set [(1, sample_request 1), (1, sample_request 1)]"
    "{..<length sample_parts} \<subseteq> insert 0 (fst ` set [(1, sample_request 1), (1, sample_request 1)])"
    using sample_storage_ok st by (auto simp: plain_name_def plain_id_def n sample_env_def fr set)
  show ?thesis
    using upload_publishes [OF pre(1,2) st(2) pre(3,4) sample_chunk_simps(6) pre(5,6) reqs pre(8,9) dec pre(7)]
    by (auto simp: st(1) fd)
qed

end
