(* ===== verification/Assembly_Race.thy ===== *)
theory Assembly_Race
  imports Upload
begin

text \<open>
  Two connections that complete the same file: every connection has its own thread, \<open>store_chunk\<close> gives the record of
  a complete file to every caller until \<open>mark_published\<close>, and \<open>assemble\<close> (\<^verbatim>\<open>Server/src/assembler.hpp\<close>) takes no lock. The
  phases of \<open>assemble\<close> are its parts between which another thread's calls can fall; the lemmas show
  that they compose to \<open>assemble\<close>, and what two interleaved assemblies leave of the file.
\<close>

section \<open>The phases of an assembly\<close>

definition part_file :: "string \<Rightarrow> payload_record \<Rightarrow> string" where
  "part_file files_root rec = path_join files_root (pr_original_name rec @ ''.part'')"

text \<open>Up to the creation of the decoder.\<close>

definition assemble_open :: "'z zstd_d \<Rightarrow> string \<Rightarrow> payload_record \<Rightarrow> world \<Rightarrow> 'z option \<times> world" where
  "assemble_open d files_root rec w =
     (if length (pr_chunk_files rec) \<noteq> pr_total_chunks rec then (None, w)
      else let (out_fd, w) = sys_open (part_file files_root rec) w
           in if \<not> out_fd then (None, w)
              else case zd_create d of
                     None \<Rightarrow> (None, sys_unlink (part_file files_root rec) w)
                   | Some z \<Rightarrow> (Some z, w))"

text \<open>The loop over the chunks.\<close>

definition assemble_write :: "'z zstd_d \<Rightarrow> string \<Rightarrow> payload_record \<Rightarrow> 'z \<Rightarrow> world \<Rightarrow> (bool \<times> nat \<times> world) option" where
  "assemble_write d files_root rec z w = inflate_chunks d (part_file files_root rec) (pr_chunk_files rec) z 0 w"

text \<open>From the check of the stream's end on.\<close>

definition assemble_finish :: "string \<Rightarrow> payload_record \<Rightarrow> bool \<Rightarrow> nat \<Rightarrow> world \<Rightarrow> string option \<times> world" where
  "assemble_finish files_root rec success pending w =
     (let success = (success \<and> pending = 0);
          (synced, w) = sys_fsync (part_file files_root rec) w;
          success = (success \<and> synced)
      in if \<not> success then (None, sys_unlink (part_file files_root rec) w)
         else
           let final_path = path_join files_root (pr_original_name rec);
               (renamed, w) = fs_rename (part_file files_root rec) final_path w
           in if \<not> renamed then (None, w)
              else let (_, w) = fs_remove_all (pr_patches_dir rec) w in (Some final_path, w))"

lemma assemble_phases:
  "assemble d root rec w =
     (case assemble_open d root rec w of
        (None, w) \<Rightarrow> Some (None, w)
      | (Some z, w) \<Rightarrow>
          (case assemble_write d root rec z w of
             None \<Rightarrow> None
           | Some (success, pending, w) \<Rightarrow> Some (assemble_finish root rec success pending w)))"
proof (cases "length (pr_chunk_files rec) = pr_total_chunks rec")
  case True
  let ?part = "path_join root (pr_original_name rec @ ''.part'')"
  obtain fd w1 where fd: "sys_open ?part w = (fd, w1)" by fastforce
  show ?thesis
  proof (cases "zd_create d")
    case None
    then show ?thesis
      using True fd by (simp add: assemble_def assemble_open_def part_file_def Let_def)
  next
    case z: (Some z)
    show ?thesis
    proof (cases "inflate_chunks d ?part (pr_chunk_files rec) z 0 w1")
      case None
      then show ?thesis
        using True fd z by (simp add: assemble_def assemble_open_def assemble_write_def part_file_def Let_def)
    next
      case (Some r)
      obtain success pending w2 where r: "r = (success, pending, w2)" by (metis prod_cases3)
      obtain synced w3 where sync: "sys_fsync ?part w2 = (synced, w3)" by fastforce
      obtain renamed w4 where ren: "fs_rename ?part (path_join root (pr_original_name rec)) w3 = (renamed, w4)" by fastforce
      obtain gone w5 where rm: "fs_remove_all (pr_patches_dir rec) w4 = (gone, w5)" by fastforce
      show ?thesis
        using True fd z Some
        by (simp add: assemble_def assemble_open_def assemble_write_def assemble_finish_def part_file_def r sync ren rm)
    qed
  qed
qed (simp add: assemble_def assemble_open_def)

section \<open>Two assemblies of one record\<close>

lemma inflate_no_chunk:
  assumes "path \<noteq> []" and "w_files w path = None"
  shows "\<exists>w'. inflate_chunks d fd (path # paths) z p w = Some (False, p, w') \<and> w_files w' = w_files w \<and>
    (no_faults w \<longrightarrow> no_faults w')"
proof -
  obtain reply w' where r: "next_reply w = (reply, w')" by fastforce
  then have w': "w_files w' = w_files w" "no_faults w \<longrightarrow> no_faults w'"
    using next_reply_files next_reply_no_faults by blast+
  then have "fs_read_file path w = (None, w')"
    using assms(2) by (simp add: fs_read_file_def r)
  then show ?thesis
    using assms(1) w' by simp
qed

text \<open>
  The second thread opens the part file after the first one has written it and before it is renamed: what is
  published is empty; then the second thread finds no chunk any more.
\<close>

lemma interleaved_assemblies:
  assumes rec: "length (pr_chunk_files rec) = pr_total_chunks rec"
    and part: "part = path_join root (pr_original_name rec @ ''.part'')"
    and final: "final = path_join root (pr_original_name rec)" "final \<noteq> part"
    and chunks: "list_all2 (\<lambda>p x. p \<noteq> [] \<and> p \<noteq> part \<and> p \<noteq> final \<and> below (pr_patches_dir rec) p \<and> w_files w p = Some x)
                   (pr_chunk_files rec) parts"
    and outside: "\<not> below (pr_patches_dir rec) final"
    and frame: "decodes_frame d (concat parts) data" "concat parts \<noteq> []"
    and w: "no_faults w"
  shows "\<exists>z1 z2 w1 w2 w3 w4 w5 w6. assemble_open d root rec w = (Some z1, w1) \<and>
    assemble_write d root rec z1 w1 = Some (True, 0, w2) \<and> w_files w2 part = Some data \<and>
    assemble_open d root rec w2 = (Some z2, w3) \<and>
    assemble_finish root rec True 0 w3 = (Some final, w4) \<and>
    assemble_write d root rec z2 w4 = Some (False, 0, w5) \<and>
    assemble_finish root rec False 0 w5 = (None, w6) \<and>
    w_files w6 final = Some [] \<and> (\<forall>q. below (pr_patches_dir rec) q \<longrightarrow> w_files w6 q = None)"
proof -
  have pf: "part_file root rec = part"
    by (simp add: part_file_def part)
  obtain r z where z: "zd_create d = Some z" and rz: "r z (concat parts) data" and law: "zd_law d r"
    using frame(1) by (auto simp: decodes_frame_def)
  have opens: "\<exists>w'. assemble_open d root rec u = (Some z, w') \<and> no_faults w' \<and> w_files w' = (w_files u)(part \<mapsto> [])"
    if "no_faults u" for u
    using no_faults_calls(1) [OF that, of part] rec z by (auto simp: assemble_open_def pf)
  obtain w1 where w1: "assemble_open d root rec w = (Some z, w1)" "no_faults w1" "w_files w1 = (w_files w)(part \<mapsto> [])"
    using opens [OF w] by blast
  have c1: "list_all2 (\<lambda>p x. p \<noteq> [] \<and> p \<noteq> part \<and> w_files w1 p = Some x) (pr_chunk_files rec) parts"
    using chunks by (rule list_all2_mono) (simp add: w1(3))
  obtain w2 where w2: "assemble_write d root rec z w1 = Some (True, 0, w2)" "no_faults w2"
      "w_files w2 = (w_files w)(part \<mapsto> data)"
    using inflate_chunks_frame [OF law c1 rz w1(2), of "[]" 0] frame(2) w1(3) by (auto simp: assemble_write_def pf)
  obtain w3 where w3: "assemble_open d root rec w2 = (Some z, w3)" "no_faults w3" "w_files w3 = (w_files w)(part \<mapsto> [])"
    using opens [OF w2(2)] w2(3) by auto
  obtain u1 where u1: "sys_fsync part w3 = (True, u1)" "no_faults u1" "w_files u1 = w_files w3"
    using no_faults_calls(2) [OF w3(2)] by blast
  obtain u2 where u2: "fs_rename part final u1 = (True, u2)" "no_faults u2"
      "w_files u2 = (w_files u1)(part := None, final \<mapsto> [])"
    using no_faults_calls(4) [OF u1(2), of part "[]" final] u1(3) w3(3) by auto
  obtain w4 where w4: "fs_remove_all (pr_patches_dir rec) u2 = (True, w4)" "no_faults w4"
      "w_files w4 = (\<lambda>q. if below (pr_patches_dir rec) q then None else w_files u2 q)"
    using no_faults_calls(5) [OF u2(2)] by blast
  have publish: "assemble_finish root rec True 0 w3 = (Some final, w4)"
    by (simp add: assemble_finish_def pf final(1) [symmetric] u1 u2 w4)
  obtain p ps where ps: "pr_chunk_files rec = p # ps" "p \<noteq> []" "below (pr_patches_dir rec) p"
    using chunks frame(2) by (cases "pr_chunk_files rec"; cases parts) auto
  obtain w5 where w5: "assemble_write d root rec z w4 = Some (False, 0, w5)" "w_files w5 = w_files w4" "no_faults w5"
    using inflate_no_chunk [OF ps(2), of w4 d part ps z 0] ps w4 by (auto simp: assemble_write_def pf)
  obtain u3 where u3: "sys_fsync part w5 = (True, u3)" "w_files u3 = w_files w5"
    using no_faults_calls(2) [OF w5(3)] by blast
  have "assemble_finish root rec False 0 w5 = (None, sys_unlink part u3)"
    by (simp add: assemble_finish_def pf u3)
  moreover have "w_files (sys_unlink part u3) final = Some []"
    using outside final(2) by (simp add: sys_unlink_def u3(2) w5(2) w4(3) u2(3))
  moreover have "w_files (sys_unlink part u3) q = None" if "below (pr_patches_dir rec) q" for q
    using that by (simp add: sys_unlink_def u3(2) w5(2) w4(3))
  ultimately show ?thesis
    using w1(1) w2(1,3) w3(1) publish w5(1) by (intro exI conjI) (assumption | simp)+
qed

lemma phases_cong:
  assumes "pr_chunk_files rec = pr_chunk_files rec'" and "pr_total_chunks rec = pr_total_chunks rec'"
    and "pr_original_name rec = pr_original_name rec'" and "pr_patches_dir rec = pr_patches_dir rec'"
  shows "assemble_open d root rec = assemble_open d root rec'" "assemble_write d root rec = assemble_write d root rec'"
    "assemble_finish root rec = assemble_finish root rec'"
proof -
  have part: "part_file root rec = part_file root rec'"
    by (simp add: part_file_def assms)
  show "assemble_open d root rec = assemble_open d root rec'"
    by (rule ext) (unfold assemble_open_def part assms, rule refl)
  show "assemble_write d root rec = assemble_write d root rec'"
    by (intro ext) (unfold assemble_write_def part assms, rule refl)
  show "assemble_finish root rec = assemble_finish root rec'"
    by (intro ext) (unfold assemble_finish_def part assms, rule refl)
qed

section \<open>Properties\<close>

text \<open>C16. Two requests that complete the same file at the same time lose it. The chunk that completes the set and a repetition of
  any chunk are stored by two threads before either has assembled: both get the record. If the second one
  opens the part file between the last write and the renaming of the first, it truncates it: the first
  publishes an empty file and removes the patches, the second fails because they are gone. Nothing of the file is left,
  although every call of the operating system succeeds and the decoder has delivered all its data.\<close>

theorem concurrent_completion_loses_file:
  assumes "upload_state fid name parts arrived s w" and "plain_id fid" and "plain_name name"
    and "i < length parts" and "j < length parts" and "length parts \<le> limit"
    and "{..<length parts} \<subseteq> insert i arrived"
    and "decodes_frame d (concat parts) data" and "concat parts \<noteq> []"
    and "en_resize_limit en = limit"
  shows "\<exists>rec s1 w1 rec' s2 w2 z1 w3 w4 z2 w5 w6 w7 w8.
    store_chunk limit (en_now en) (request_chunk fid name i (length parts) ttl (parts ! i)) s w = (Inr (Some rec), s1, w1) \<and>
    store_chunk limit (en_now en) (request_chunk fid name j (length parts) ttl (parts ! j)) s1 w1 = (Inr (Some rec'), s2, w2) \<and>
    assemble_open d (st_files_dir s) rec w2 = (Some z1, w3) \<and>
    assemble_write d (st_files_dir s) rec z1 w3 = Some (True, 0, w4) \<and>
    assemble_open d (st_files_dir s) rec' w4 = (Some z2, w5) \<and>
    assemble_finish (st_files_dir s) rec True 0 w5 = (Some (path_join (st_files_dir s) name), w6) \<and>
    assemble_write d (st_files_dir s) rec' z2 w6 = Some (False, 0, w7) \<and>
    assemble_finish (st_files_dir s) rec' False 0 w7 = (None, w8) \<and>
    w_files w8 (path_join (st_files_dir s) name) = Some [] \<and>
    (\<forall>q. below (path_join (st_patches_dir s) fid) q \<longrightarrow> w_files w8 q = None)"
proof -
  obtain rec s1 w1 where sc1: "store_chunk limit (en_now en)
        (request_chunk fid name i (length parts) ttl (parts ! i)) s w = (Inr (Some rec), s1, w1)"
    and u1: "upload_state fid name parts (insert i arrived) s1 w1"
    and rec: "pr_total_chunks rec = length parts" "pr_original_name rec = name"
      "pr_chunk_files rec = map (patch_path s1 fid) [0..<length parts]" "pr_patches_dir rec = path_join (st_patches_dir s1) fid"
    and files1: "st_files_dir s1 = st_files_dir s" "st_patches_dir s1 = st_patches_dir s"
    using upload_step_store [OF assms(1,2,4), of en ttl] assms(6,7,10) by (fastforce split: option.splits)
  have "{..<length parts} \<subseteq> insert j (insert i arrived)" using assms(7) by blast
  then obtain rec' s2 w2 where sc2: "store_chunk limit (en_now en)
        (request_chunk fid name j (length parts) ttl (parts ! j)) s1 w1 = (Inr (Some rec'), s2, w2)"
    and u2: "upload_state fid name parts (insert j (insert i arrived)) s2 w2"
    and rec': "pr_total_chunks rec' = length parts" "pr_original_name rec' = name"
      "pr_chunk_files rec' = map (patch_path s2 fid) [0..<length parts]" "pr_patches_dir rec' = path_join (st_patches_dir s2) fid"
    and files2: "st_files_dir s2 = st_files_dir s1" "st_patches_dir s2 = st_patches_dir s1"
    using upload_step_store [OF u1 assms(2,5), of en ttl] assms(6,10) by (fastforce split: option.splits)
  let ?root = "st_files_dir s2" and ?dir = "path_join (st_patches_dir s2) fid"
  have pp: "patch_path s1 = patch_path s2"
    by (simp add: patch_path_def fun_eq_iff files2)
  have s2: "storage_ok s2" "layout_ok s2" "no_faults w2" "dirs_ok s2"
    and st: "\<And>k. k < length parts \<Longrightarrow> stored s2 w2 fid k = Some (parts ! k)"
    using u2 assms(7) by (auto simp: upload_state_def storage_ok_def)
  have t1: "take 1 name \<noteq> ''/''" "take 1 (name @ ''.part'') \<noteq> ''/''"
    using assms(3) by (auto simp: plain_name_def plain_id_def take_Suc_conv_app_nth nth_append neq_Nil_conv)
  note sep = layout_separates [OF s2(2,4) assms(2)]
  have content: "w_files w2 (patch_path s2 fid k) = Some (parts ! k)" if "k < length parts" for k
    using st [OF that] stored_path [OF s2(1)] by (auto split: option.splits if_splits)
  have inside: "below ?dir (patch_path s2 fid k)" for k
    using s2(4) assms(2) by (auto simp: below_def patch_path_plain plain_id_join prefix_def)
  have chunks: "list_all2 (\<lambda>q x. q \<noteq> [] \<and> q \<noteq> path_join ?root (pr_original_name rec @ ''.part'') \<and>
      q \<noteq> path_join ?root (pr_original_name rec) \<and> below (pr_patches_dir rec) q \<and> w_files w2 q = Some x)
      (pr_chunk_files rec) parts"
    unfolding list_all2_conv_all_nth
    using content inside sep(1) [OF t1(1)] sep(1) [OF t1(2)] patch_path_nonempty
    by (simp add: rec(2,3,4) pp files2(2)) metis
  have names: "path_join ?root (pr_original_name rec) \<noteq> path_join ?root (pr_original_name rec @ ''.part'')"
    using t1 by (auto simp: rec(2) path_join_def)
  have out: "\<not> below (pr_patches_dir rec) (path_join ?root (pr_original_name rec))"
    using sep(2) [OF t1(1)] by (simp add: rec(2,4) files2(2))
  have len: "length (pr_chunk_files rec) = pr_total_chunks rec"
    by (simp add: rec)
  have same: "assemble_open d root rec' = assemble_open d root rec" "assemble_write d root rec' = assemble_write d root rec"
    "assemble_finish root rec' = assemble_finish root rec" for root
    by (rule phases_cong; simp add: rec rec' pp files2)+
  obtain z1 z2 w3 w4 w5 w6 w7 w8 where run: "assemble_open d (st_files_dir s) rec w2 = (Some z1, w3)"
    "assemble_write d (st_files_dir s) rec z1 w3 = Some (True, 0, w4)"
    "assemble_open d (st_files_dir s) rec w4 = (Some z2, w5)"
    "assemble_finish (st_files_dir s) rec True 0 w5 = (Some (path_join (st_files_dir s) name), w6)"
    "assemble_write d (st_files_dir s) rec z2 w6 = Some (False, 0, w7)"
    "assemble_finish (st_files_dir s) rec False 0 w7 = (None, w8)"
    "w_files w8 (path_join (st_files_dir s) name) = Some []"
    "\<forall>q. below (path_join (st_patches_dir s) fid) q \<longrightarrow> w_files w8 q = None"
    using interleaved_assemblies [OF len refl refl names chunks out assms(8,9) s2(3)]
    unfolding rec(2,4) files2 files1 by blast
  show ?thesis
    by (intro exI conjI) (rule sc1 sc2 run [unfolded same [symmetric]] run)+
qed

theorem concurrent_completion_loses_file_witness:
  "\<exists>rec w7 w8. assemble_finish (st_files_dir sample_storage) rec False 0 w7 = (None, w8) \<and>
     w_files w8 ''d/files/a.txt'' = Some []"
proof -
  let ?parts = "[concat sample_parts]"
  have fr: "concat ?parts = toy_frame [7, 8]"
    by (simp add: toy_frame_def sample_parts_def)
  have dec: "decodes_frame (en_zstd sample_env) (concat ?parts) [7, 8]"
    unfolding fr using toy_decodes by (simp add: sample_env_def)
  have "no_faults empty_world" "layout_ok sample_storage" "map_of (st_payloads sample_storage) ''a'' = None"
    using sample_storage_ok by (simp_all add: no_faults_def empty_world_def sample_storage_def storage_new_layout)
  then have u: "upload_state ''a'' ''a.txt'' ?parts {} sample_storage empty_world"
    using upload_fresh sample_storage_ok by blast
  have pre: "plain_id ''a''" "plain_name ''a.txt''" "0 < length ?parts" "length ?parts \<le> en_resize_limit sample_env"
    "{..<length ?parts} \<subseteq> insert 0 {}" "concat ?parts \<noteq> []"
    using sample_chunk_simps(6) by (auto simp: plain_name_def plain_id_def sample_env_def sample_parts_def)
  have fd: "path_join (st_files_dir sample_storage) ''a.txt'' = ''d/files/a.txt''"
    by (simp add: sample_storage_def storage_new_def path_join_def Let_def split: prod.split)
  show ?thesis
    using concurrent_completion_loses_file [OF u pre(1,2,3,3,4,5) dec pre(6) refl]
    unfolding fd by blast
qed

end
