(* ===== verification/Server_Run.thy ===== *)
theory Server_Run
  imports Server_Main Assembly_Race
begin

text \<open>
  The server of \<^verbatim>\<open>Server/src/main.cpp\<close> from its start, as it is when connections are handled one after the other: a run is a sequence
  of connections on any channel, sweeps of the clean-up thread and replies of the operating system, each handled as a
  whole. The lemmas show that store, disk, listeners and what the control channel reports stay consistent then, and that every
  connection is counted. In the program every connection has its own thread: the server with all its threads is in
  \<open>Server_Threads\<close>.
\<close>

section \<open>Start, connections and sweeps\<close>

text \<open>An exception while the acceptors are started ends the program.\<close>

definition server_boot :: "listen_os \<Rightarrow> 'a server_config \<Rightarrow> world \<Rightarrow> main_state res \<times> world" where
  "server_boot os config w =
     (let (st, w) = storage_new (sc_root_dir config) (sc_ttl config) w
      in case listeners_start os (listeners_new (sc_sys_base config) (sc_data_base config) (sc_data_listeners config)) of
           (Inl e, ls) \<Rightarrow> (Inl e, w)
         | (Inr _, ls) \<Rightarrow>
             (Inr \<lparr>ms_server = \<lparr>sv_storage = st, sv_metrics = metrics_zero\<rparr>, ms_listeners = ls,
                ms_data_listener_count = sc_data_listeners config, ms_ttl_seconds = sc_ttl config\<rparr>, w))"

text \<open>The end of \<open>main\<close>: the acceptors are stopped, the two threads joined.\<close>

definition server_shutdown :: "main_state \<Rightarrow> main_state" where
  "server_shutdown ms = ms\<lparr>ms_listeners := listeners_stop (ms_listeners ms)\<rparr>"

text \<open>The id in a request for a chunk is a plain name; the code does not check that.\<close>

definition plain_request :: "'z env \<Rightarrow> segments \<Rightarrow> bool" where
  "plain_request en segs \<longleftrightarrow>
     (\<forall>chunk. receive_chunk (en_payload_limit en) (segs, []) = Inr chunk \<longrightarrow> plain_id (ck_file_id chunk))"

text \<open>A listing of the published files: no entry is in the directory of the patches.\<close>

definition files_listing :: "storage \<Rightarrow> dir_entry list option \<Rightarrow> bool" where
  "files_listing s listing \<longleftrightarrow>
     (\<forall>es. listing = Some es \<longrightarrow> (\<forall>(p, _, _) \<in> set es. \<not> below (st_patches_dir s) p))"

inductive serial_step :: "'z zstd_d \<Rightarrow> main_state \<times> world \<Rightarrow> main_state \<times> world \<Rightarrow> bool" for d where
  connection: "en_zstd en = d \<Longrightarrow> plain_request en segs \<Longrightarrow> dispatch en os ch segs ms w = Some (r, ms', w') \<Longrightarrow>
    serial_step d (ms, w) (ms', w')"
| sweep: "files_listing (sv_storage (ms_server ms)) listing \<Longrightarrow> serial_step d (ms, w) (cleanup_round now listing ms w)"
| system: "serial_step d (ms, w) (ms, w\<lparr>w_replies := rs\<rparr>)"
| shutdown: "serial_step d (ms, w) (server_shutdown ms, w)"

section \<open>The handlers keep the store\<close>

lemma last_path_join: "b \<noteq> [] \<Longrightarrow> last (path_join a b) = last b"
  by (simp add: path_join_def)

lemma patch_not_part: "path_join root (name @ ''.part'') \<noteq> patch_path s fid i"
proof
  assume "path_join root (name @ ''.part'') = patch_path s fid i"
  then have "last (path_join root (name @ ''.part'')) = last (patch_path s fid i)" by simp
  then show False
    by (simp add: last_path_join patch_path_def patch_file_name_def)
qed

lemma assemble_keeps:
  assumes a: "assemble d root rec w = Some (r, w')"
    and q: "q \<noteq> path_join root (pr_original_name rec @ ''.part'')" "\<not> below (pr_patches_dir rec) q"
    and "w_files w q \<noteq> None"
  shows "w_files w' q \<noteq> None"
proof (cases r)
  case None
  then show ?thesis
    using assemble_failure [OF a [unfolded None] q(1)] assms(4) by simp
next
  case (Some final)
  obtain z w1 where o: "assemble_open d root rec w = (Some z, w1)"
    using a Some unfolding assemble_phases by (auto split: option.splits prod.splits)
  obtain success pending w2 where wr: "assemble_write d root rec z w1 = Some (success, pending, w2)"
    and fin: "assemble_finish root rec success pending w2 = (Some final, w')"
    using a Some unfolding assemble_phases o by (auto split: option.splits prod.splits)
  obtain fd u where open_file: "sys_open (part_file root rec) w = (fd, u)" by fastforce
  have qp: "q \<noteq> part_file root rec"
    using q(1) by (simp add: part_file_def)
  have "w_files w1 q = w_files w q"
    using o open_file sys_open_ok [OF open_file] qp
    by (auto simp: assemble_open_def split: if_splits option.splits)
  then have w2: "w_files w2 q = w_files w q"
    using inflate_chunks_other [OF qp wr [unfolded assemble_write_def]] by simp
  obtain sy w3 where sy: "sys_fsync (part_file root rec) w2 = (sy, w3)" by fastforce
  obtain rn w4 where rn: "fs_rename (part_file root rec) (path_join root (pr_original_name rec)) w3 = (rn, w4)" by fastforce
  obtain rm w5 where rm: "fs_remove_all (pr_patches_dir rec) w4 = (rm, w5)" by fastforce
  have "w_files w4 q \<noteq> None"
    using fs_rename_cases [OF rn] sys_fsync_files [OF sy] w2 assms(4) qp by (auto split: if_splits)
  moreover have "w' = w5"
    using fin sy rn rm by (auto simp: assemble_finish_def Let_def split: if_splits)
  ultimately show ?thesis
    using fs_remove_all_files [OF rm q(2)] by simp
qed

lemma store_chunk_record:
  assumes "storage_ok s" and "plain_id (ck_file_id c)" and "ck_index c < ck_total_chunks c"
    and "store_chunk limit now c s w = (Inr (Some rec), s', w')"
  shows "pr_file_id rec = ck_file_id c" and "pr_patches_dir rec = path_join (st_patches_dir s) (ck_file_id c)"
    and "st_patches_dir s' = st_patches_dir s"
  using assms by (cases rule: store_chunk_cases; auto simp: entry_ok_def split: if_splits)+

lemma receive_chunk_index: "receive_chunk limit c = Inr chunk \<Longrightarrow> ck_index chunk < ck_total_chunks chunk"
  by (auto simp: receive_chunk_def bindE_Inr_iff split: if_splits option.splits)

lemma handle_data_good:
  assumes good: "storage_good (sv_storage sv, w)" and plain: "plain_request en segs"
    and h: "handle_data en segs sv w = Some (r, sv', w')"
  shows "storage_good (sv_storage sv', w') \<and> st_default_ttl (sv_storage sv') = st_default_ttl (sv_storage sv)"
proof (cases "receive_chunk (en_payload_limit en) (segs, [])")
  case (Inl x)
  then show ?thesis
    using h good by (auto simp: handle_data_def count_chunk_error_def)
next
  case (Inr c)
  let ?s = "sv_storage sv"
  have c: "plain_id (ck_file_id c)" "ck_index c < ck_total_chunks c"
    using plain receive_chunk_index [OF Inr] Inr by (simp_all add: plain_request_def)
  have s: "storage_ok ?s" using good by (simp add: storage_good_def)
  obtain x st w1 where sc: "store_chunk (en_resize_limit en) (en_now en) c ?s w = (x, st, w1)"
    by (metis prod_cases3)
  have "storage_step (?s, w) (st, w1)"
    using c sc by (rule step_store)
  with good have g1: "storage_good (st, w1)"
    by (rule storage_sys.step_good)
  have ttl: "st_default_ttl st = st_default_ttl ?s"
    using s c sc by (cases rule: store_chunk_cases) auto
  show ?thesis
  proof (cases "\<exists>rec. x = Inr (Some rec)")
    case False
    then show ?thesis
      using h Inr sc g1 ttl
      by (auto simp: handle_data_def Let_def count_chunk_error_def split: sum.splits option.splits)
  next
    case True
    then obtain rec where x: "x = Inr (Some rec)" by blast
    obtain fin w2 where a: "assemble (en_zstd en) (st_files_dir st) rec w1 = Some (fin, w2)"
      using h Inr sc x by (auto simp: handle_data_def Let_def split: option.splits)
    note rec = store_chunk_record [OF s c sc [unfolded x]]
    have ids: "map_of (st_payloads st) gid = Some e \<Longrightarrow> plain_id gid" for gid e
      using g1 by (auto simp: storage_good_def storage_ok_def entry_ok_def)
    have kept: "w_files w2 (patch_path st gid i) \<noteq> None"
      if "map_of (st_payloads st) gid = Some e" "i \<in> pe_received e" "gid \<noteq> ck_file_id c \<or> fin = None" for gid e i
    proof -
      have present: "w_files w1 (patch_path st gid i) \<noteq> None"
        using g1 that(1,2) by (auto simp: storage_good_def files_present_def)
      show ?thesis
      proof (cases "fin = None")
        case True
        then show ?thesis
          using assemble_failure [OF a [unfolded True] patch_not_part [symmetric]] present by simp
      next
        case False
        have "dirs_ok st" using g1 by (simp add: storage_good_def storage_ok_def)
        then have "\<not> below (pr_patches_dir rec) (patch_path st gid i)"
          using below_patch_path [of st "ck_file_id c" gid i] c(1) ids [OF that(1)] that(3) False rec(2,3) by simp
        then show ?thesis
          using assemble_keeps [OF a patch_not_part [symmetric] _ present] by simp
      qed
    qed
    show ?thesis
    proof (cases fin)
      case None
      then have "storage_good (st, w2)"
        using g1 kept by (auto simp: storage_good_def files_present_def)
      then show ?thesis
        using h Inr sc x a None ttl by (auto simp: handle_data_def Let_def)
    next
      case (Some path)
      have "storage_ok (mark_published (ck_file_id c) st)"
        using mark_published_ok(1) g1 by (simp add: storage_good_def)
      moreover have "files_present (mark_published (ck_file_id c) st) w2"
        using kept by (auto simp: files_present_def mark_published_def al_erase_lookup patch_path_def split: if_splits)
      ultimately show ?thesis
        using h Inr sc x a Some ttl
        by (auto simp: handle_data_def Let_def storage_good_def rec(1) mark_published_def)
    qed
  qed
qed

section \<open>The control channel keeps the parts consistent\<close>

definition control_ok :: "control_state \<Rightarrow> world \<Rightarrow> bool" where
  "control_ok ct w \<longleftrightarrow> storage_good (ct_storage ct, w) \<and> listeners_ok True (ct_listeners ct) \<and>
     ct_data_listener_count ct = ls_desired (ct_listeners ct) \<and> ct_ttl ct = st_default_ttl (ct_storage ct)"

lemma apply_command_ok:
  assumes "control_ok ct w" and "apply_command os line ct w = (response, ct', w')"
  shows "control_ok ct' w'"
proof -
  have ttl: "storage_good (st, u)" "st_default_ttl st = t" if "update_ttl t (ct_storage ct) w = (st, u)" for t st u
    using storage_sys.step_good [OF _ step_ttl [of "ct_storage ct" w t]] assms(1) that
    by (auto simp: control_ok_def update_ttl_def Let_def)
  have ls: "listeners_ok True ls" "ls_desired ls = v" if "update_data_listener_count os v (ct_listeners ct) = (r, ls)" for v r ls
    using update_data_listener_count_ok [OF _ that, of True] update_desired [of os v "ct_listeners ct"] assms(1) that
    by (simp_all add: control_ok_def)
  show ?thesis
    using assms ttl ls unfolding apply_command_def control_ok_def
    by (auto simp: Let_def split: if_splits prod.splits)
qed

lemma control_session_ok:
  "control_ok ct w \<Longrightarrow> control_session cl n lines ct w = (rs, ct', w') \<Longrightarrow> control_ok ct' w'"
proof (induction lines arbitrary: n ct w rs)
  case (Cons line lines)
  obtain response ct1 w1 where a: "apply_command cl line ct w = (response, ct1, w1)" by (metis prod_cases3)
  have ok: "control_ok ct1 w1" by (rule apply_command_ok [OF Cons.prems(1) a])
  obtain rs2 ct2 w2 where rec: "control_session cl (n - 1) lines ct1 w1 = (rs2, ct2, w2)" by (metis prod_cases3)
  show ?case
    using Cons.prems(2) Cons.IH [OF ok, of "n - 1" rs2] a ok rec by (auto split: if_splits sum.splits)
qed simp

section \<open>The running server\<close>

definition server_ok :: "main_state \<times> world \<Rightarrow> bool" where
  "server_ok = (\<lambda>(ms, w). storage_good (sv_storage (ms_server ms), w) \<and> listeners_ok True (ms_listeners ms) \<and>
     ms_data_listener_count ms = ls_desired (ms_listeners ms) \<and>
     ms_ttl_seconds ms = st_default_ttl (sv_storage (ms_server ms)))"

lemma dispatch_ok:
  assumes "server_ok (ms, w)" and "plain_request en segs" and "dispatch en os ch segs ms w = Some (r, ms', w')"
  shows "server_ok (ms', w')"
proof (cases ch)
  case ControlChannel
  let ?sv = "(ms_server ms)\<lparr>sv_metrics := sm_bump ch (sv_metrics (ms_server ms))\<rparr>"
  let ?ct = "\<lparr>ct_listeners = ms_listeners ms, ct_storage = sv_storage ?sv,
                ct_data_listener_count = ms_data_listener_count ms, ct_ttl = ms_ttl_seconds ms, ct_metrics_hooks = 0\<rparr>"
  obtain replies ct w1 where h: "handle_control os (en_control_writes en) (segs, []) ?ct w = (replies, ct, w1)"
    by (metis prod_cases3)
  have "control_ok ?ct w"
    using assms(1) by (simp add: server_ok_def control_ok_def)
  then have "control_ok ct w1"
    using control_session_ok h [unfolded handle_control_session] by blast
  then show ?thesis
    using assms(3) h ControlChannel by (auto simp: dispatch_def Let_def server_ok_def control_ok_def)
next
  case Data
  have "storage_good (sv_storage ((ms_server ms)\<lparr>sv_metrics := sm_bump ch (sv_metrics (ms_server ms))\<rparr>), w)"
    using assms(1) by (simp add: server_ok_def)
  note good = handle_data_good [OF this assms(2)]
  show ?thesis
    using assms(1,3) Data good by (auto simp: dispatch_def Let_def server_ok_def split: option.splits)
qed (use assms in \<open>auto simp: dispatch_def Let_def server_ok_def\<close>)

lemma cleanup_entries_keeps:
  "\<forall>e \<in> set es. fst e \<noteq> q \<Longrightarrow> w_files (cleanup_entries now ttl es w) q = w_files w q"
proof (induction now ttl es w rule: cleanup_entries.induct)
  case (2 now ttl p regular time rest w)
  then show ?case
    using fs_remove_files [of q p w] by (auto split: option.split)
qed simp

lemma cleanup_round_ok:
  assumes "server_ok (ms, w)" and "files_listing (sv_storage (ms_server ms)) listing"
  shows "server_ok (cleanup_round now listing ms w)"
proof -
  obtain st w1 where c: "cleanup_expired now (sv_storage (ms_server ms)) w = (st, w1)" by fastforce
  have good: "storage_good (st, w1)"
    using storage_sys.step_good [OF _ step_cleanup [of "sv_storage (ms_server ms)" w now]] assms(1)
    by (simp add: server_ok_def c)
  have st: "st_patches_dir st = st_patches_dir (sv_storage (ms_server ms))"
    "st_default_ttl st = st_default_ttl (sv_storage (ms_server ms))"
    using c by (auto simp: cleanup_expired_def split: prod.splits)
  have "w_files (cleanup_completed_files now (ms_ttl_seconds ms) listing w1) (patch_path st gid i) = w_files w1 (patch_path st gid i)"
    if "plain_id gid" for gid i
  proof (cases listing)
    case (Some es)
    have "below (st_patches_dir st) (patch_path st gid i)"
      using good that by (auto simp: storage_good_def storage_ok_def patch_path_plain below_def prefix_def)
    then have "\<forall>e \<in> set es. fst e \<noteq> patch_path st gid i"
      using assms(2) Some by (auto simp: files_listing_def st(1))
    then show ?thesis
      by (simp add: cleanup_completed_files_def Some cleanup_entries_keeps)
  qed (simp add: cleanup_completed_files_def)
  then have "storage_good (st, cleanup_completed_files now (ms_ttl_seconds ms) listing w1)"
    using good by (auto simp: storage_good_def files_present_def storage_ok_def entry_ok_def)
  then show ?thesis
    using assms(1) by (simp add: cleanup_round_def c server_ok_def st(2))
qed

lemma serial_step_ok: "serial_step d s s' \<Longrightarrow> server_ok s \<Longrightarrow> server_ok s'"
proof (induction rule: serial_step.induct)
  case (system ms w rs)
  then show ?case by (simp add: server_ok_def storage_good_def files_present_def)
next
  case (shutdown ms w)
  then show ?case
    by (simp add: server_ok_def server_shutdown_def listeners_ok_stop) (simp add: listeners_stop_def)
qed (simp_all add: dispatch_ok cleanup_round_ok)

lemma server_boot_parts:
  assumes "sc_root_dir c \<noteq> []" and "last (sc_root_dir c) \<noteq> CHR ''/''" and "server_boot os c w = (Inr ms, w')"
  shows "storage_good (sv_storage (ms_server ms), w')" "listeners_ok throws (ms_listeners ms)"
    "ms_data_listener_count ms = ls_desired (ms_listeners ms)" "ms_ttl_seconds ms = st_default_ttl (sv_storage (ms_server ms))"
    "sv_metrics (ms_server ms) = metrics_zero"
proof -
  obtain st w1 where st: "storage_new (sc_root_dir c) (sc_ttl c) w = (st, w1)" by fastforce
  obtain ls where ls: "listeners_start os (listeners_new (sc_sys_base c) (sc_data_base c) (sc_data_listeners c)) = (Inr (), ls)"
    and ms: "ms = \<lparr>ms_server = \<lparr>sv_storage = st, sv_metrics = metrics_zero\<rparr>, ms_listeners = ls,
       ms_data_listener_count = sc_data_listeners c, ms_ttl_seconds = sc_ttl c\<rparr>" "w' = w1"
    using assms(3) st by (auto simp: server_boot_def split: prod.splits sum.splits)
  have "st_patches_dir st = sc_root_dir c @ ''/patches''" "st_payloads st = []" "st_default_ttl st = sc_ttl c"
    using assms(1,2) st by (auto simp: storage_new_def path_join_def Let_def split: prod.splits)
  then show "storage_good (sv_storage (ms_server ms), w')" "ms_ttl_seconds ms = st_default_ttl (sv_storage (ms_server ms))"
    using storage_sys.start_good by (auto simp: ms storage_start_def dirs_ok_def)
  show "listeners_ok throws (ms_listeners ms)" "ms_data_listener_count ms = ls_desired (ms_listeners ms)"
    using listeners_ok_start [OF listeners_ok_new ls] by (simp_all add: ms) (simp add: listeners_new_def)
qed (use assms(3) in \<open>auto simp: server_boot_def split: prod.splits sum.splits\<close>)

lemma server_boot_ok:
  assumes "sc_root_dir c \<noteq> []" and "last (sc_root_dir c) \<noteq> CHR ''/''" and "server_boot os c w = (Inr ms, w')"
  shows "server_ok (ms, w')"
  using server_boot_parts [OF assms] by (simp add: server_ok_def)

interpretation serial_sys: invariant_system
    "\<lambda>s. \<exists>os c w ms w'. sc_root_dir c \<noteq> [] \<and> last (sc_root_dir c) \<noteq> CHR ''/'' \<and> server_boot os (c :: unit server_config) w = (Inr ms, w') \<and> s = (ms, w')"
    "serial_step d" server_ok for d
  by unfold_locales (use server_boot_ok serial_step_ok in blast)+

section \<open>Connections one after the other\<close>

fun serve_all :: "'z env \<Rightarrow> listen_os \<Rightarrow> (channel \<times> segments) list \<Rightarrow> main_state \<Rightarrow> world \<Rightarrow> (main_state \<times> world) option" where
  "serve_all en cl [] ms w = Some (ms, w)"
| "serve_all en cl ((ch, segs) # cs) ms w =
     (case dispatch en cl ch segs ms w of
        None \<Rightarrow> None
      | Some (_, ms, w) \<Rightarrow> serve_all en cl cs ms w)"

definition channel_counts :: "server_metrics \<Rightarrow> channel \<Rightarrow> u64" where
  "channel_counts m ch =
     (case ch of Health \<Rightarrow> sm_health m | Telemetry \<Rightarrow> sm_telemetry m | ControlChannel \<Rightarrow> sm_control m
        | Ack \<Rightarrow> sm_acks m | Data \<Rightarrow> sm_data_connections m)"

lemma dispatch_counts:
  assumes "dispatch en cl ch segs ms w = Some (r, ms', w')"
  shows "sm_accepted (sv_metrics (ms_server ms')) = sm_accepted (sv_metrics (ms_server ms)) + 1"
    and "channel_counts (sv_metrics (ms_server ms')) c =
      channel_counts (sv_metrics (ms_server ms)) c + (if c = ch then 1 else 0)"
proof -
  have "sm_accepted (sv_metrics (ms_server ms')) = sm_accepted (sv_metrics (ms_server ms)) + 1 \<and>
      channel_counts (sv_metrics (ms_server ms')) c = channel_counts (sv_metrics (ms_server ms)) c + (if c = ch then 1 else 0)"
    using assms
    by (cases ch; cases c)
      (auto simp: dispatch_def Let_def sm_bump_def handle_data_def count_chunk_error_def channel_counts_def
        split: option.splits prod.splits sum.splits)
  then show "sm_accepted (sv_metrics (ms_server ms')) = sm_accepted (sv_metrics (ms_server ms)) + 1"
    "channel_counts (sv_metrics (ms_server ms')) c = channel_counts (sv_metrics (ms_server ms)) c + (if c = ch then 1 else 0)"
    by auto
qed

lemma serve_all_counts:
  "serve_all en cl cs ms w = Some (ms', w') \<Longrightarrow>
     sm_accepted (sv_metrics (ms_server ms')) = sm_accepted (sv_metrics (ms_server ms)) + of_nat (length cs) \<and>
     channel_counts (sv_metrics (ms_server ms')) c =
       channel_counts (sv_metrics (ms_server ms)) c + of_nat (length (filter (\<lambda>x. fst x = c) cs))"
proof (induction cs arbitrary: ms w)
  case (Cons x cs)
  obtain ch segs where x: "x = (ch, segs)" by fastforce
  obtain r ms1 w1 where d: "dispatch en cl ch segs ms w = Some (r, ms1, w1)"
    and rest: "serve_all en cl cs ms1 w1 = Some (ms', w')"
    using Cons.prems by (auto simp: x split: option.splits)
  show ?case
    using Cons.IH [OF rest] dispatch_counts(1) [OF d] dispatch_counts(2) [OF d, of c] by (auto simp: x)
qed simp

section \<open>Properties\<close>

text \<open>When connections are handled one after the other, the parts of the server stay consistent: no received patch loses its
  file and the table of the store is well formed; the acceptor table is as desired; and what the control channel
  reports is so: the number of listeners it answers is the number the listener table is to have, and its time to
  live is the one the store gives to new chunks.\<close>

theorem serial_server_stays_consistent:
  assumes "sc_root_dir c \<noteq> []" and "last (sc_root_dir c) \<noteq> CHR ''/''"
    and "server_boot os c w = (Inr ms0, w0)" and "(serial_step d)\<^sup>*\<^sup>* (ms0, w0) (ms, w')"
  shows "storage_ok (sv_storage (ms_server ms)) \<and> files_present (sv_storage (ms_server ms)) w' \<and>
    listeners_ok True (ms_listeners ms) \<and>
    ls_desired (ms_listeners ms) = ms_data_listener_count ms \<and>
    st_default_ttl (sv_storage (ms_server ms)) = ms_ttl_seconds ms"
proof -
  have "server_ok (ms0, w0)"
    using assms(1-3) by (rule server_boot_ok)
  then have "server_ok (ms, w')"
    by (rule serial_sys.steps_good [OF assms(4)])
  then show ?thesis
    by (auto simp: server_ok_def storage_good_def)
qed

definition sample_config :: "unit server_config" where
  "sample_config = server_config_default ()"

lemma sample_server_boot:
  obtains ms w where "server_boot (sample_listen []) sample_config empty_world = (Inr ms, w)"
    "ms_listeners ms = sample_listeners [] 4"
proof -
  obtain st w where "storage_new (sc_root_dir sample_config) (sc_ttl sample_config) empty_world = (st, w)" by fastforce
  then show ?thesis
    using sample_start(1) [of "[]" 4]
    by (intro that) (auto simp: server_boot_def sample_config_def server_config_default_def)
qed

lemma sample_config_root: "sc_root_dir sample_config \<noteq> []" "last (sc_root_dir sample_config) \<noteq> CHR ''/''"
  by (simp_all add: sample_config_def server_config_default_def)

theorem serial_server_stays_consistent_witness:
  "\<exists>ms w ms'. server_boot (sample_listen []) sample_config empty_world = (Inr ms, w) \<and>
     serial_step toy_decoder (ms, w) (ms', w) \<and> storage_ok (sv_storage (ms_server ms')) \<and> \<not> ls_started (ms_listeners ms')"
proof -
  obtain ms w where boot: "server_boot (sample_listen []) sample_config empty_world = (Inr ms, w)"
    by (rule sample_server_boot)
  have s: "serial_step toy_decoder (ms, w) (server_shutdown ms, w)"
    by (rule serial_step.shutdown)
  have "\<not> ls_started (ms_listeners (server_shutdown ms))"
    by (simp add: server_shutdown_def listeners_stop_def)
  then show ?thesis
    using serial_server_stays_consistent [OF sample_config_root boot r_into_rtranclp [of "serial_step toy_decoder", OF s]] boot s by blast
qed

text \<open>Every connection is counted exactly once as accepted and once for its channel, whatever is sent on it and however its
  handling ends, as long as it ends.\<close>

theorem every_connection_counted:
  assumes "serve_all en os cs ms w = Some (ms', w')"
  shows "sm_accepted (sv_metrics (ms_server ms')) = sm_accepted (sv_metrics (ms_server ms)) + of_nat (length cs) \<and>
    (\<forall>ch. channel_counts (sv_metrics (ms_server ms')) ch =
       channel_counts (sv_metrics (ms_server ms)) ch + of_nat (length (filter (\<lambda>x. fst x = ch) cs)))"
  using serve_all_counts [OF assms] by blast

theorem every_connection_counted_witness:
  "\<exists>ms' w'. serve_all sample_env (sample_listen []) [(Health, []), (Ack, [[65, 10]]), (Health, [])]
      \<lparr>ms_server = sample_server, ms_listeners = listeners_new 1 2 3, ms_data_listener_count = 3, ms_ttl_seconds = 60\<rparr> empty_world
      = Some (ms', w') \<and> sm_accepted (sv_metrics (ms_server ms')) = 3 \<and> sm_health (sv_metrics (ms_server ms')) = 2"
proof -
  let ?ms = "\<lparr>ms_server = sample_server, ms_listeners = listeners_new 1 2 3, ms_data_listener_count = 3, ms_ttl_seconds = 60\<rparr>"
  obtain ms' w' where run: "serve_all sample_env (sample_listen []) [(Health, []), (Ack, [[65, 10]]), (Health, [])] ?ms empty_world = Some (ms', w')"
    by (simp add: dispatch_def Let_def)
  have "sm_health (sv_metrics (ms_server ms')) = channel_counts (sv_metrics (ms_server ms')) Health"
    "channel_counts (sv_metrics (ms_server ?ms)) Health = 0" "sm_accepted (sv_metrics (ms_server ?ms)) = 0"
    by (simp_all add: channel_counts_def sample_server_def metrics_zero_def)
  then show ?thesis
    using every_connection_counted [OF run] run by auto
qed

end
