(* ===== verification/Server_Threads.thy ===== *)
theory Server_Threads
  imports Server_Run
begin

text \<open>
  The running server of \<^verbatim>\<open>Server/src/main.cpp\<close> with all its threads: one for every connection, the clean-up thread and the main thread.
  A step of a thread is one access to what the threads share: an atomic counter or number, or a section under the lock of
  the store or of the listeners. The calls between them (\<open>store_chunk\<close>, \<open>update_ttl\<close>, \<open>apply_command\<close>, the handler of a data
  connection) are cut at these accesses; the lemmas show that the parts compose to the functions. Nothing here is
  claimed of the files: their contents may change arbitrarily between any two steps, which covers every interleaving of
  the system calls (what two assemblies do to the files of each other is in \<open>Assembly_Race\<close>).
\<close>

section \<open>The calls, cut at the shared accesses\<close>

text \<open>\<open>store_chunk\<close> before its lock, and under it.\<close>

definition store_patch :: "chunk_data \<Rightarrow> storage \<Rightarrow> world \<Rightarrow> bool \<times> world" where
  "store_patch c s w =
     (if \<not> verify_crc c then (False, w)
      else
        let manifest_dir = path_join (st_patches_dir s) (ck_file_id c);
            (made, w) = fs_create_directories manifest_dir w
        in if \<not> made then (False, w)
           else write_binary_file (path_join manifest_dir (patch_file_name (ck_index c))) (ck_payload c) w)"

definition record_chunk :: "nat \<Rightarrow> int \<Rightarrow> chunk_data \<Rightarrow> storage \<Rightarrow> world \<Rightarrow> payload_record option res \<times> storage \<times> world" where
  "record_chunk resize_limit now c s w =
     (let manifest_dir = path_join (st_patches_dir s) (ck_file_id c);
          patch_path = path_join manifest_dir (patch_file_name (ck_index c));
          e = entry_for s c manifest_dir;
          n = max (length (pr_chunk_files (pe_record e))) (ck_total_chunks c)
      in if n > resize_limit then (Inl BadAlloc, s\<lparr>st_payloads := al_set (ck_file_id c) e (st_payloads s)\<rparr>, w)
      else if ck_index c \<ge> n then (Inl (UB ''chunk_files[index] out of range''), s, w)
      else
        let files = (grow n (pr_chunk_files (pe_record e)))[ck_index c := patch_path];
            e = e\<lparr>pe_record := (pe_record e)\<lparr>pr_chunk_files := files\<rparr>,
                  pe_received := insert (ck_index c) (pe_received e),
                  pe_last_update := now,
                  pe_ttl := (if ck_ttl c > 0 then ck_ttl c else st_default_ttl s)\<rparr>;
            e = e\<lparr>pe_state := (if entry_complete e then ''complete'' else ''partial'')\<rparr>;
            w = persist_manifest (pe_record e) e w
        in (Inr (if entry_complete e then Some (pe_record e) else None),
            s\<lparr>st_payloads := al_set (ck_file_id c) e (st_payloads s)\<rparr>, w))"

text \<open>\<open>update_ttl\<close>: the store of the number, and the section under the lock.\<close>

definition set_default_ttl :: "int \<Rightarrow> storage \<Rightarrow> storage" where
  "set_default_ttl new_ttl s = s\<lparr>st_default_ttl := new_ttl\<rparr>"

definition update_entries :: "int \<Rightarrow> storage \<Rightarrow> world \<Rightarrow> storage \<times> world" where
  "update_entries new_ttl s w =
     (let payloads = map (\<lambda>(id, e). (id, e\<lparr>pe_ttl := new_ttl\<rparr>)) (st_payloads s)
      in (s\<lparr>st_payloads := payloads\<rparr>, fold (\<lambda>(_, e). persist_manifest (pe_record e) e) payloads w))"

lemma store_chunk_phases:
  "store_chunk resize_limit now c s w =
     (case store_patch c s w of (False, w) \<Rightarrow> (Inr None, s, w) | (True, w) \<Rightarrow> record_chunk resize_limit now c s w)"
proof -
  let ?dir = "path_join (st_patches_dir s) (ck_file_id c)"
  obtain mk w1 where mk: "fs_create_directories ?dir w = (mk, w1)" by fastforce
  obtain ok w2 where wr: "write_binary_file (path_join ?dir (patch_file_name (ck_index c))) (ck_payload c) w1 = (ok, w2)" by fastforce
  show ?thesis
    unfolding store_chunk_def store_patch_def record_chunk_def Let_def
    by (cases "verify_crc c"; cases mk; cases ok)
      (simp_all only: mk wr prod.case not_True_eq_False not_False_eq_True if_True if_False bool.case)
qed

lemma update_ttl_phases: "update_ttl t s w = update_entries t (set_default_ttl t s) w"
  by (simp add: update_ttl_def update_entries_def set_default_ttl_def Let_def)

section \<open>The counters\<close>

datatype counter =
    Accepted | OfChannel channel | Chunks | ChunkErrors | Assemblies | AssemblyErrors

fun counter_value :: "server_metrics \<Rightarrow> counter \<Rightarrow> u64" where
  "counter_value m Accepted = sm_accepted m"
| "counter_value m (OfChannel ch) = channel_counts m ch"
| "counter_value m Chunks = sm_chunks m"
| "counter_value m ChunkErrors = sm_chunk_errors m"
| "counter_value m Assemblies = sm_assemblies m"
| "counter_value m AssemblyErrors = sm_assembly_errors m"

text \<open>\<open>fetch_add(1)\<close>.\<close>

fun bump :: "counter \<Rightarrow> server_metrics \<Rightarrow> server_metrics" where
  "bump Accepted m = m\<lparr>sm_accepted := sm_accepted m + 1\<rparr>"
| "bump (OfChannel Health) m = m\<lparr>sm_health := sm_health m + 1\<rparr>"
| "bump (OfChannel Telemetry) m = m\<lparr>sm_telemetry := sm_telemetry m + 1\<rparr>"
| "bump (OfChannel ControlChannel) m = m\<lparr>sm_control := sm_control m + 1\<rparr>"
| "bump (OfChannel Ack) m = m\<lparr>sm_acks := sm_acks m + 1\<rparr>"
| "bump (OfChannel Data) m = m\<lparr>sm_data_connections := sm_data_connections m + 1\<rparr>"
| "bump Chunks m = m\<lparr>sm_chunks := sm_chunks m + 1\<rparr>"
| "bump ChunkErrors m = m\<lparr>sm_chunk_errors := sm_chunk_errors m + 1\<rparr>"
| "bump Assemblies m = m\<lparr>sm_assemblies := sm_assemblies m + 1\<rparr>"
| "bump AssemblyErrors m = m\<lparr>sm_assembly_errors := sm_assembly_errors m + 1\<rparr>"

definition count :: "counter \<Rightarrow> main_state \<Rightarrow> main_state" where
  "count k ms = ms\<lparr>ms_server := (ms_server ms)\<lparr>sv_metrics := bump k (sv_metrics (ms_server ms))\<rparr>\<rparr>"

definition with_storage :: "storage \<Rightarrow> main_state \<Rightarrow> main_state" where
  "with_storage st ms = ms\<lparr>ms_server := (ms_server ms)\<lparr>sv_storage := st\<rparr>\<rparr>"

abbreviation ms_storage :: "main_state \<Rightarrow> storage" where
  "ms_storage ms \<equiv> sv_storage (ms_server ms)"

abbreviation ms_metrics :: "main_state \<Rightarrow> server_metrics" where
  "ms_metrics ms \<equiv> sv_metrics (ms_server ms)"

section \<open>The thread of a connection\<close>

text \<open>How a connection ends: without a chunk of its own, refused while reading, by an exception after the chunk was counted, stored or
  not stored, published, not assembled.\<close>

datatype ending = Answered | Refused | Aborted | Kept | Published | Unassembled

text \<open>Where the thread is: before the access that the name tells.\<close>

datatype position =
    Begin | CountChannel
  | Answering                     \<comment> \<open>health, telemetry, ack\<close>
  | Lines                         \<comment> \<open>control: between two commands\<close>
  | Scaling nat | TtlStored int | TtlDefault int
  | Receiving | Received chunk_data | Storing chunk_data | Recording chunk_data
  | Assembling payload_record | Assembled payload_record | Publishing payload_record
  | AssemblyFailed | Failing bool \<comment> \<open>whether the chunk was counted\<close>
  | Done ending

definition first_position :: "channel \<Rightarrow> position" where
  "first_position ch = (case ch of Data \<Rightarrow> Receiving | ControlChannel \<Rightarrow> Lines | _ \<Rightarrow> Answering)"

text \<open>A command up to its first access that others can see.\<close>

definition command_begin :: "string \<Rightarrow> main_state \<Rightarrow> position \<times> main_state" where
  "command_begin command ms =
     (let (verb, rest) = extract_word command
      in if verb = ''SCALE_DATA'' then
           let v = extract_u64 rest
           in if v = 0 then (Lines, ms) else (Scaling v, ms\<lparr>ms_data_listener_count := v\<rparr>)
         else if verb = ''SET_TTL'' then
           let seconds = extract_i64 rest
           in if seconds \<le> 0 then (Lines, ms) else (TtlStored seconds, ms\<lparr>ms_ttl_seconds := seconds\<rparr>)
         else (Lines, ms))"

definition after_record :: "payload_record option res \<Rightarrow> position" where
  "after_record r = (case r of Inl _ \<Rightarrow> Failing True | Inr None \<Rightarrow> Done Kept | Inr (Some rec) \<Rightarrow> Assembling rec)"

text \<open>
  \<open>throws\<close> is whether starting acceptors may throw; the limits of the memory and the clock may differ from step to step.
  The thread of a data connection may not start, and memory may run out before a chunk is stored and while a payload is assembled.
  A command line that is \<open>QUIT\<close> or \<open>EXIT\<close>, a failed read or write and an exception end a control connection.
\<close>

inductive thread_step :: "bool \<Rightarrow> 'z zstd_d \<Rightarrow> channel \<Rightarrow> position \<times> main_state \<times> world \<Rightarrow> position \<times> main_state \<times> world \<Rightarrow> bool"
  for throws d ch where
  begin_count: "thread_step throws d ch (Begin, ms, w) (CountChannel, count Accepted ms, w)"
| channel_count: "thread_step throws d ch (CountChannel, ms, w) (first_position ch, count (OfChannel ch) ms, w)"
| answer: "thread_step throws d ch (Answering, ms, w) (Done Answered, ms, w)"
| command: "line \<noteq> [] \<Longrightarrow> line \<noteq> ''QUIT'' \<Longrightarrow> line \<noteq> ''EXIT'' \<Longrightarrow> command_begin line ms = (pos, ms') \<Longrightarrow>
    thread_step throws d ch (Lines, ms, w) (pos, ms', w)"
| leave: "thread_step throws d ch (Lines, ms, w) (Done Answered, ms, w)"
| scale: "update_data_listener_count os v (ms_listeners ms) = (r, ls) \<Longrightarrow> throws \<or> r = Inr () \<Longrightarrow>
    thread_step throws d ch (Scaling v, ms, w) (if r = Inr () then Lines else Done Answered, ms\<lparr>ms_listeners := ls\<rparr>, w)"
| ttl_default: "thread_step throws d ch (TtlStored t, ms, w) (TtlDefault t, with_storage (set_default_ttl t (ms_storage ms)) ms, w)"
| ttl_entries: "update_entries t (ms_storage ms) w = (st, w') \<Longrightarrow>
    thread_step throws d ch (TtlDefault t, ms, w) (Lines, with_storage st ms, w')"
| no_thread: "thread_step throws d ch (Receiving, ms, w) (Done Answered, ms, w)"
| receive: "receive_chunk limit (segs, []) = Inr c \<Longrightarrow> plain_id (ck_file_id c) \<Longrightarrow>
    thread_step throws d ch (Receiving, ms, w) (Received c, ms, w)"
| refuse: "receive_chunk limit (segs, []) = Inl x \<Longrightarrow> thread_step throws d ch (Receiving, ms, w) (Failing False, ms, w)"
| chunk_count: "thread_step throws d ch (Received c, ms, w) (Storing c, count Chunks ms, w)"
| patch: "store_patch c (ms_storage ms) w = (ok, w') \<Longrightarrow>
    thread_step throws d ch (Storing c, ms, w) (if ok then Recording c else Done Kept, ms, w')"
| store_throws: "thread_step throws d ch (Storing c, ms, w) (Failing True, ms, w)"
| record_locked: "record_chunk resize_limit now c (ms_storage ms) w = (r, st, w') \<Longrightarrow>
    thread_step throws d ch (Recording c, ms, w) (after_record r, with_storage st ms, w')"
| assembly: "assemble d (st_files_dir (ms_storage ms)) rec w = Some (fin, w') \<Longrightarrow>
    thread_step throws d ch (Assembling rec, ms, w) (if fin = None then AssemblyFailed else Assembled rec, ms, w')"
| assembly_throws: "thread_step throws d ch (Assembling rec, ms, w) (Failing True, ms, w)"
| assembly_count: "thread_step throws d ch (Assembled rec, ms, w) (Publishing rec, count Assemblies ms, w)"
| publish: "thread_step throws d ch (Publishing rec, ms, w)
    (Done Published, with_storage (mark_published (pr_file_id rec) (ms_storage ms)) ms, w)"
| assembly_error: "thread_step throws d ch (AssemblyFailed, ms, w) (Done Unassembled, count AssemblyErrors ms, w)"
| failure: "thread_step throws d ch (Failing b, ms, w) (Done (if b then Aborted else Refused), count ChunkErrors ms, w)"

section \<open>The server\<close>

text \<open>The clean-up thread: asleep, with the time to live it has loaded, and after the sweep of the store.\<close>

datatype sweep = Asleep | SweepStore int | SweepFiles int

record server_run =
  sx_main :: main_state
  sx_world :: world
  sx_threads :: "(channel \<times> position) list"
  sx_sweep :: sweep

definition run_start :: "main_state \<Rightarrow> world \<Rightarrow> server_run" where
  "run_start ms w = \<lparr>sx_main = ms, sx_world = w, sx_threads = [], sx_sweep = Asleep\<rparr>"

text \<open>The commands that change a number in two places, while they are under way.\<close>

datatype command_kind = ScaleCommand | TtlCommand

fun under_way :: "position \<Rightarrow> command_kind option" where
  "under_way (Scaling _) = Some ScaleCommand"
| "under_way (TtlStored _) = Some TtlCommand"
| "under_way (TtlDefault _) = Some TtlCommand"
| "under_way _ = None"

text \<open>\<open>serial\<close> says that the clients do not send a command while another one of its kind is under way. Connections may come
  at any time (\<open>Accept_Loop\<close> has the thread that accepts them).\<close>

inductive server_step :: "bool \<Rightarrow> bool \<Rightarrow> 'z zstd_d \<Rightarrow> server_run \<Rightarrow> server_run \<Rightarrow> bool" for throws serial d where
  accept: "server_step throws serial d s (s\<lparr>sx_threads := sx_threads s @ [(ch, Begin)]\<rparr>)"
| thread: "i < length (sx_threads s) \<Longrightarrow> sx_threads s ! i = (ch, pos) \<Longrightarrow>
    thread_step throws d ch (pos, sx_main s, sx_world s) (pos', ms', w') \<Longrightarrow>
    serial \<longrightarrow> under_way pos = None \<longrightarrow> under_way pos' \<noteq> None \<longrightarrow> (\<forall>t \<in> set (sx_threads s). under_way (snd t) \<noteq> under_way pos') \<Longrightarrow>
    server_step throws serial d s (s\<lparr>sx_main := ms', sx_world := w', sx_threads := (sx_threads s)[i := (ch, pos')]\<rparr>)"
| world: "server_step throws serial d s (s\<lparr>sx_world := w\<rparr>)"
| sweep_load: "sx_sweep s = Asleep \<Longrightarrow> server_step throws serial d s (s\<lparr>sx_sweep := SweepStore (ms_ttl_seconds (sx_main s))\<rparr>)"
| sweep_store: "sx_sweep s = SweepStore ttl \<Longrightarrow> cleanup_expired now (ms_storage (sx_main s)) (sx_world s) = (st, w) \<Longrightarrow>
    server_step throws serial d s (s\<lparr>sx_main := with_storage st (sx_main s), sx_world := w, sx_sweep := SweepFiles ttl\<rparr>)"
| sweep_files: "sx_sweep s = SweepFiles ttl \<Longrightarrow>
    server_step throws serial d s (s\<lparr>sx_world := cleanup_completed_files now ttl listing (sx_world s), sx_sweep := Asleep\<rparr>)"
| shutdown: "server_step throws serial d s (s\<lparr>sx_main := server_shutdown (sx_main s)\<rparr>)"

section \<open>What the threads have counted\<close>

text \<open>The counters a connection has increased when its thread is at a position.\<close>

fun counted_behind :: "position \<Rightarrow> counter list" where
  "counted_behind (Storing _) = [Chunks]"
| "counted_behind (Recording _) = [Chunks]"
| "counted_behind (Assembling _) = [Chunks]"
| "counted_behind (Assembled _) = [Chunks]"
| "counted_behind (Publishing _) = [Chunks, Assemblies]"
| "counted_behind AssemblyFailed = [Chunks]"
| "counted_behind (Failing b) = (if b then [Chunks] else [])"
| "counted_behind (Done Refused) = [ChunkErrors]"
| "counted_behind (Done Aborted) = [Chunks, ChunkErrors]"
| "counted_behind (Done Kept) = [Chunks]"
| "counted_behind (Done Published) = [Chunks, Assemblies]"
| "counted_behind (Done Unassembled) = [Chunks, AssemblyErrors]"
| "counted_behind _ = []"

definition passed :: "channel \<times> position \<Rightarrow> counter list" where
  "passed = (\<lambda>(ch, pos). case pos of Begin \<Rightarrow> [] | CountChannel \<Rightarrow> [Accepted] | _ \<Rightarrow> Accepted # OfChannel ch # counted_behind pos)"

definition times_passed :: "counter \<Rightarrow> (channel \<times> position) list \<Rightarrow> nat" where
  "times_passed k ts = (\<Sum>t\<leftarrow>ts. count_list (passed t) k)"

definition counters_ok :: "server_metrics \<Rightarrow> (channel \<times> position) list \<Rightarrow> bool" where
  "counters_ok m ts \<longleftrightarrow> (\<forall>k. counter_value m k = of_nat (times_passed k ts))"

lemma counter_bump: "counter_value (bump k m) k' = counter_value m k' + of_nat (count_list [k] k')"
  by (cases "(k, m)" rule: bump.cases; cases k') (auto simp: channel_counts_def split: channel.splits)

lemma ms_metrics_simps [simp]: "ms_metrics (count k ms) = bump k (ms_metrics ms)" "ms_metrics (with_storage st ms) = ms_metrics ms"
  "ms_metrics (ms\<lparr>ms_listeners := ls\<rparr>) = ms_metrics ms"
  by (simp_all add: count_def with_storage_def)

lemma ms_storage_simps [simp]: "ms_storage (count k ms) = ms_storage ms" "ms_storage (with_storage st ms) = st"
  "ms_storage (ms\<lparr>ms_listeners := ls\<rparr>) = ms_storage ms"
  by (simp_all add: count_def with_storage_def)

lemma main_frame [simp]: "ms_listeners (count k ms) = ms_listeners ms" "ms_listeners (with_storage st ms) = ms_listeners ms"
  "ms_data_listener_count (count k ms) = ms_data_listener_count ms" "ms_data_listener_count (with_storage st ms) = ms_data_listener_count ms"
  "ms_ttl_seconds (count k ms) = ms_ttl_seconds ms" "ms_ttl_seconds (with_storage st ms) = ms_ttl_seconds ms"
  by (simp_all add: count_def with_storage_def)

lemma command_begin_cases:
  assumes "command_begin line ms = (pos, ms')"
  obtains "pos = Lines" "ms' = ms" | v where "pos = Scaling v" "ms' = ms\<lparr>ms_data_listener_count := v\<rparr>"
  | t where "pos = TtlStored t" "ms' = ms\<lparr>ms_ttl_seconds := t\<rparr>"
  using assms by (auto simp: command_begin_def Let_def split: prod.splits if_splits)

text \<open>A step counts what it passes.\<close>

lemma thread_step_counts:
  assumes "thread_step throws d ch (pos, ms, w) (pos', ms', w')"
  shows "\<exists>new. (\<forall>k. counter_value (ms_metrics ms') k = counter_value (ms_metrics ms) k + of_nat (count_list new k)) \<and>
    (\<forall>k. count_list (passed (ch, pos')) k = count_list (passed (ch, pos)) k + count_list new k)" (is "\<exists>new. ?counts new")
proof -
  have stay: "\<exists>new. ?counts new" if "ms_metrics ms' = ms_metrics ms" "passed (ch, pos') = passed (ch, pos)"
    using that by (intro exI [of _ "[]"]) simp
  have one: "\<exists>new. ?counts new" if "ms' = count k ms" "\<forall>k'. count_list (passed (ch, pos')) k' = count_list (passed (ch, pos)) k' + count_list [k] k'" for k
    using that by (intro exI [of _ "[k]"]) (simp only: ms_metrics_simps counter_bump simp_thms)
  from assms show ?thesis
  proof cases
    case (command line)
    from \<open>command_begin line ms = (pos', ms')\<close> show ?thesis
      by (rule command_begin_cases) (rule stay; use command in \<open>simp add: passed_def\<close>)+
  next
    case channel_count
    then show ?thesis
      by (intro one [of "OfChannel ch"]) (auto simp: passed_def first_position_def split: channel.split)
  qed ((rule stay; fastforce simp: passed_def after_record_def split: sum.splits option.splits)
      | (rule one [of Accepted] one [of Chunks] one [of ChunkErrors] one [of Assemblies] one [of AssemblyErrors];
          force simp: passed_def split: if_splits))+
qed

lemma times_passed_update:
  assumes "i < length ts" and "count_list (passed x) k = count_list (passed (ts ! i)) k + n"
  shows "times_passed k (ts[i := x]) = times_passed k ts + n"
proof -
  let ?ns = "map (\<lambda>t. count_list (passed t) k) ts"
  have "?ns ! i \<le> sum_list ?ns"
    using assms(1) by (intro elem_le_sum_list) simp
  then show ?thesis
    using assms by (simp add: times_passed_def map_update sum_list_update)
qed

lemma counters_ok_thread:
  assumes "counters_ok (ms_metrics ms) ts" and "i < length ts" and "ts ! i = (ch, pos)"
    and "thread_step throws d ch (pos, ms, w) (pos', ms', w')"
  shows "counters_ok (ms_metrics ms') (ts[i := (ch, pos')])"
proof -
  obtain new where new: "\<And>k. counter_value (ms_metrics ms') k = counter_value (ms_metrics ms) k + of_nat (count_list new k)"
    "\<And>k. count_list (passed (ch, pos')) k = count_list (passed (ch, pos)) k + count_list new k"
    using thread_step_counts [OF assms(4)] by blast
  have "times_passed k (ts[i := (ch, pos')]) = times_passed k ts + count_list new k" for k
    by (rule times_passed_update [OF assms(2)]) (simp add: new(2) assms(3))
  then show ?thesis
    using assms(1) new(1) by (simp add: counters_ok_def)
qed

section \<open>The numbers the control channel reports\<close>

text \<open>The reported and the desired number of listeners, the reported and the default time to live.\<close>

definition numbers :: "main_state \<Rightarrow> nat \<times> nat \<times> int \<times> int" where
  "numbers ms = (ms_data_listener_count ms, ls_desired (ms_listeners ms), ms_ttl_seconds ms, st_default_ttl (ms_storage ms))"

text \<open>What a command under way has stored already.\<close>

fun carries :: "nat \<times> nat \<times> int \<times> int \<Rightarrow> position \<Rightarrow> bool" where
  "carries (reported, desired, ttl, usual) (Scaling v) \<longleftrightarrow> reported = v"
| "carries (reported, desired, ttl, usual) (TtlStored t) \<longleftrightarrow> ttl = t"
| "carries (reported, desired, ttl, usual) (TtlDefault t) \<longleftrightarrow> ttl = t \<and> usual = t"
| "carries _ _ \<longleftrightarrow> True"

definition idle :: "command_kind \<Rightarrow> position list \<Rightarrow> bool" where
  "idle k ps \<longleftrightarrow> (\<forall>i < length ps. under_way (ps ! i) \<noteq> Some k)"

definition agrees :: "nat \<times> nat \<times> int \<times> int \<Rightarrow> position list \<Rightarrow> bool" where
  "agrees = (\<lambda>(reported, desired, ttl, usual) ps.
     (\<forall>i < length ps. \<forall>j < length ps. under_way (ps ! i) = under_way (ps ! j) \<longrightarrow> under_way (ps ! i) \<noteq> None \<longrightarrow> i = j) \<and>
     (\<forall>i < length ps. carries (reported, desired, ttl, usual) (ps ! i)) \<and>
     (idle ScaleCommand ps \<longrightarrow> reported = desired) \<and> (idle TtlCommand ps \<longrightarrow> ttl = usual))"

lemma record_chunk_ttl: "record_chunk limit now c s w = (r, s', w') \<Longrightarrow> st_default_ttl s' = st_default_ttl s"
  by (auto simp: record_chunk_def Let_def split: if_splits)

lemma update_entries_ttl: "update_entries t s w = (s', w') \<Longrightarrow> st_default_ttl s' = st_default_ttl s"
  by (auto simp: update_entries_def Let_def)

lemma cleanup_ttl: "cleanup_expired now s w = (s', w') \<Longrightarrow> st_default_ttl s' = st_default_ttl s"
  by (auto simp: cleanup_expired_def split: prod.splits)

text \<open>What a step does to the numbers.\<close>

lemma thread_step_numbers:
  assumes "thread_step throws d ch (pos, ms, w) (pos', ms', w')" and "numbers ms = (reported, desired, ttl, usual)"
  obtains (other) "under_way pos = None" "under_way pos' = None" "numbers ms' = (reported, desired, ttl, usual)"
  | (scale) v where "under_way pos = None" "pos' = Scaling v" "numbers ms' = (v, desired, ttl, usual)"
  | (scaled) v where "pos = Scaling v" "under_way pos' = None" "numbers ms' = (reported, v, ttl, usual)"
  | (set_ttl) t where "under_way pos = None" "pos' = TtlStored t" "numbers ms' = (reported, desired, t, usual)"
  | (set_default) t where "pos = TtlStored t" "pos' = TtlDefault t" "numbers ms' = (reported, desired, ttl, t)"
  | (entries) t where "pos = TtlDefault t" "under_way pos' = None" "numbers ms' = (reported, desired, ttl, usual)"
  using assms(1)
proof cases
  case (command line)
  from \<open>command_begin line ms = (pos', ms')\<close> show thesis
  proof (rule command_begin_cases)
    show thesis if "pos' = Lines" "ms' = ms"
      using that command assms(2) by (intro other) simp_all
    show thesis if "pos' = Scaling v" "ms' = ms\<lparr>ms_data_listener_count := v\<rparr>" for v
      using that command assms(2) by (intro scale [of v]) (simp_all add: numbers_def)
    show thesis if "pos' = TtlStored t" "ms' = ms\<lparr>ms_ttl_seconds := t\<rparr>" for t
      using that command assms(2) by (intro set_ttl [of t]) (simp_all add: numbers_def)
  qed
next
  case (scale os v r ls)
  then show thesis
    using update_desired [of os v "ms_listeners ms"] assms(2) by (intro scaled [of v]) (simp_all add: numbers_def)
next
  case (ttl_default t)
  then show thesis
    using assms(2) by (intro set_default [of t]) (simp_all add: numbers_def set_default_ttl_def)
next
  case (ttl_entries t st)
  then show thesis
    using assms(2) by (intro entries [of t]) (simp_all add: numbers_def update_entries_ttl)
qed (use assms(2) in \<open>auto intro!: other simp: numbers_def first_position_def after_record_def record_chunk_ttl mark_published_def
      split: channel.splits sum.splits option.splits\<close>)

lemma carries_none: "under_way p = None \<Longrightarrow> carries n p"
  by (cases n; cases p) simp_all

lemma carries_other:
  "under_way p \<noteq> Some ScaleCommand \<Longrightarrow> carries (r, m, t, u) p \<Longrightarrow> carries (r', m', t, u) p"
  "under_way p \<noteq> Some TtlCommand \<Longrightarrow> carries (r, m, t, u) p \<Longrightarrow> carries (r, m', t', u') p"
  by (cases p; simp)+

lemma idle_update:
  "i < length ps \<Longrightarrow> idle k (ps[i := p]) \<longleftrightarrow>
     under_way p \<noteq> Some k \<and> (\<forall>j < length ps. j \<noteq> i \<longrightarrow> under_way (ps ! j) \<noteq> Some k)"
  by (auto simp: idle_def nth_list_update)

lemma idle_rest:
  "idle k ps \<longleftrightarrow> under_way (ps ! i) \<noteq> Some k \<and> (\<forall>j < length ps. j \<noteq> i \<longrightarrow> under_way (ps ! j) \<noteq> Some k)" if "i < length ps"
  using that by (auto simp: idle_def)

lemma agrees_thread:
  assumes "agrees (numbers ms) ps" and "i < length ps" and "ps ! i = pos"
    and "thread_step throws d ch (pos, ms, w) (pos', ms', w')"
    and "under_way pos = None \<longrightarrow> under_way pos' \<noteq> None \<longrightarrow> (\<forall>p \<in> set ps. under_way p \<noteq> under_way pos')"
  shows "agrees (numbers ms') (ps[i := pos'])"
proof -
  obtain reported desired ttl usual where n: "numbers ms = (reported, desired, ttl, usual)"
    by (metis prod_cases4)
  define rest where "rest k \<longleftrightarrow> (\<forall>j < length ps. j \<noteq> i \<longrightarrow> under_way (ps ! j) \<noteq> Some k)" for k
  have one: "\<forall>k < length ps. \<forall>j < length ps. under_way (ps ! k) = under_way (ps ! j) \<longrightarrow> under_way (ps ! k) \<noteq> None \<longrightarrow> k = j"
    and car: "\<And>j. j < length ps \<Longrightarrow> carries (reported, desired, ttl, usual) (ps ! j)"
    and idle: "under_way pos \<noteq> Some ScaleCommand \<longrightarrow> rest ScaleCommand \<longrightarrow> reported = desired"
      "under_way pos \<noteq> Some TtlCommand \<longrightarrow> rest TtlCommand \<longrightarrow> ttl = usual"
    using assms(1,3) by (simp_all add: n agrees_def idle_rest [OF assms(2)] rest_def)
  have alone: "rest k" if "under_way pos' = Some k" "under_way pos \<in> {None, Some k}" for k
    using one assms(2,3,5) nth_mem that unfolding rest_def by (cases "under_way pos = None") fastforce+
  have two: "\<forall>k < length ps. \<forall>j < length ps. under_way (ps[i := pos'] ! k) = under_way (ps[i := pos'] ! j) \<longrightarrow>
      under_way (ps[i := pos'] ! k) \<noteq> None \<longrightarrow> k = j" if r: "\<And>k. under_way pos' = Some k \<Longrightarrow> rest k"
  proof (intro allI impI)
    fix k j
    assume kj: "k < length ps" "j < length ps" "under_way (ps[i := pos'] ! k) = under_way (ps[i := pos'] ! j)"
      "under_way (ps[i := pos'] ! k) \<noteq> None"
    consider "k = j" | "k = i" "j \<noteq> i" | "k \<noteq> i" "j = i" | "k \<noteq> i" "j \<noteq> i" by blast
    then show "k = j"
    proof cases
      case 2
      then show ?thesis using kj r by (auto simp: rest_def)
    next
      case 3
      then show ?thesis using kj r by (auto simp: rest_def)
    next
      case 4
      then show ?thesis using kj one by simp
    qed
  qed
  have intro: "agrees (reported', desired', ttl', usual') (ps[i := pos'])"
    if "\<And>k. under_way pos' = Some k \<Longrightarrow> rest k" "carries (reported', desired', ttl', usual') pos'"
      "\<And>j. j < length ps \<Longrightarrow> j \<noteq> i \<Longrightarrow> carries (reported', desired', ttl', usual') (ps ! j)"
      "under_way pos' \<noteq> Some ScaleCommand \<Longrightarrow> rest ScaleCommand \<Longrightarrow> reported' = desired'"
      "under_way pos' \<noteq> Some TtlCommand \<Longrightarrow> rest TtlCommand \<Longrightarrow> ttl' = usual'" for reported' desired' ttl' usual'
  proof -
    have "carries (reported', desired', ttl', usual') (ps[i := pos'] ! j)" if "j < length ps" for j
      using \<open>carries (reported', desired', ttl', usual') pos'\<close> assms(2)
        \<open>\<And>j. j < length ps \<Longrightarrow> j \<noteq> i \<Longrightarrow> carries (reported', desired', ttl', usual') (ps ! j)\<close> [OF that]
      by (cases "j = i") simp_all
    moreover have "idle ScaleCommand (ps[i := pos']) \<longrightarrow> reported' = desired'" "idle TtlCommand (ps[i := pos']) \<longrightarrow> ttl' = usual'"
      using that(4,5) unfolding idle_update [OF assms(2)] rest_def by blast+
    ultimately show ?thesis
      using two [OF that(1)] unfolding agrees_def prod.case length_list_update by blast
  qed
  have alone_pos: "rest k" if "under_way pos = Some k" for k
    using one [rule_format, of _ i] assms(2,3) that unfolding rest_def by (metis option.distinct(1))
  show ?thesis
    using assms(4) n
  proof (cases rule: thread_step_numbers)
    case other
    show ?thesis
      unfolding other(3) by (rule intro) (use other car idle in \<open>simp_all add: carries_none\<close>)
  next
    case (scale v)
    then have "rest ScaleCommand" using alone by simp
    then have "carries (v, desired, ttl, usual) (ps ! j)" if "j < length ps" "j \<noteq> i" for j
      using carries_other(1) [OF _ car [OF that(1)]] that unfolding rest_def by blast
    then show ?thesis
      unfolding scale(3) by (intro intro) (use scale idle \<open>rest ScaleCommand\<close> in simp_all)
  next
    case (scaled v)
    then have "rest ScaleCommand" using alone_pos by simp
    then have "carries (reported, v, ttl, usual) (ps ! j)" if "j < length ps" "j \<noteq> i" for j
      using carries_other(1) [OF _ car [OF that(1)]] that unfolding rest_def by blast
    moreover have "reported = v"
      using car [OF assms(2)] scaled(1) assms(3) by simp
    ultimately show ?thesis
      unfolding scaled(3) by (intro intro) (use scaled idle carries_none in simp_all)
  next
    case (set_ttl t)
    then have "rest TtlCommand" using alone by simp
    then have "carries (reported, desired, t, usual) (ps ! j)" if "j < length ps" "j \<noteq> i" for j
      using carries_other(2) [OF _ car [OF that(1)]] that unfolding rest_def by blast
    then show ?thesis
      unfolding set_ttl(3) by (intro intro) (use set_ttl idle \<open>rest TtlCommand\<close> in simp_all)
  next
    case (set_default t)
    then have "rest TtlCommand" using alone_pos by simp
    then have "carries (reported, desired, ttl, t) (ps ! j)" if "j < length ps" "j \<noteq> i" for j
      using carries_other(2) [OF _ car [OF that(1)]] that unfolding rest_def by blast
    moreover have "ttl = t"
      using car [OF assms(2)] set_default(1) assms(3) by simp
    ultimately show ?thesis
      unfolding set_default(3) by (intro intro) (use set_default idle \<open>rest TtlCommand\<close> in simp_all)
  next
    case (entries t)
    then have "ttl = usual"
      using car [OF assms(2)] assms(3) by simp
    then show ?thesis
      unfolding entries(3) by (intro intro) (use entries car idle in \<open>simp_all add: carries_none\<close>)
  qed
qed

section \<open>The store and the listeners\<close>

text \<open>The chunk a thread holds has a plain id and an index within its total.\<close>

fun chunk_good :: "position \<Rightarrow> bool" where
  "chunk_good (Received c) \<longleftrightarrow> plain_id (ck_file_id c) \<and> ck_index c < ck_total_chunks c"
| "chunk_good (Storing c) \<longleftrightarrow> plain_id (ck_file_id c) \<and> ck_index c < ck_total_chunks c"
| "chunk_good (Recording c) \<longleftrightarrow> plain_id (ck_file_id c) \<and> ck_index c < ck_total_chunks c"
| "chunk_good _ \<longleftrightarrow> True"

lemma storage_ok_default [simp]: "storage_ok (s\<lparr>st_default_ttl := t\<rparr>) \<longleftrightarrow> storage_ok s"
  by (simp add: storage_ok_def dirs_ok_def entry_ok_def patch_path_def)

lemma record_chunk_ok:
  assumes s: "storage_ok s" and f: "plain_id (ck_file_id c)" and i: "ck_index c < ck_total_chunks c"
    and r: "record_chunk limit now c s w = (r, s', w')"
  shows "storage_ok s'"
proof -
  define e where "e = entry_for s c (path_join (st_patches_dir s) (ck_file_id c))"
  have e: "entry_ok s (ck_file_id c) e"
    using entry_for_ok [OF s f] by (simp add: e_def)
  have "s' = s\<lparr>st_payloads := al_set (ck_file_id c) e (st_payloads s)\<rparr> \<or>
      s' = s\<lparr>st_payloads := al_set (ck_file_id c) (add_chunk now s c e) (st_payloads s)\<rparr>"
    using r i unfolding record_chunk_def Let_def e_def [symmetric] add_chunk_def patch_path_def by (auto split: if_splits)
  then show ?thesis
    using storage_ok_set [OF s e] storage_ok_set [OF s add_chunk_ok(1) [OF e i]] by metis
qed

lemma update_entries_ok:
  assumes "storage_ok s" and "update_entries t s w = (s', w')"
  shows "storage_ok s'"
proof -
  have "update_ttl t s w = (s'\<lparr>st_default_ttl := t\<rparr>, w')"
    using assms(2) by (auto simp: update_ttl_def update_entries_def Let_def)
  from update_ttl_ok(1) [OF assms(1) this] show ?thesis by simp
qed

lemma thread_step_storage:
  assumes "thread_step throws d ch (pos, ms, w) (pos', ms', w')" and "storage_ok (ms_storage ms)" and "chunk_good pos"
  shows "storage_ok (ms_storage ms') \<and> chunk_good pos'"
  using assms(1)
proof cases
  case (command line)
  from \<open>command_begin line ms = (pos', ms')\<close> show ?thesis
    by (rule command_begin_cases) (use assms(2) in simp_all)
next
  case channel_count
  then show ?thesis
    using assms(2) by (simp add: first_position_def split: channel.split)
next
  case (record_locked limit now c r st)
  then show ?thesis
    using assms(2,3) record_chunk_ok [of "ms_storage ms" c limit now w r st w']
    by (simp add: after_record_def split: sum.split option.split)
qed (use assms(2,3) in \<open>auto simp: set_default_ttl_def update_entries_ok receive_chunk_index mark_published_ok(1)\<close>)

lemma thread_step_listeners:
  assumes "thread_step throws d ch (pos, ms, w) (pos', ms', w')" and "listeners_ok throws (ms_listeners ms)"
  shows "listeners_ok throws (ms_listeners ms')"
  using assms(1)
proof cases
  case (command line)
  from \<open>command_begin line ms = (pos', ms')\<close> show ?thesis
    by (rule command_begin_cases) (use assms(2) in simp_all)
next
  case (scale os v r ls)
  then show ?thesis
    using update_data_listener_count_ok [OF assms(2)] by simp
qed (use assms(2) in simp_all)

section \<open>The invariant\<close>

definition run_ok :: "bool \<Rightarrow> bool \<Rightarrow> server_run \<Rightarrow> bool" where
  "run_ok throws serial s \<longleftrightarrow>
     storage_ok (ms_storage (sx_main s)) \<and> (\<forall>t \<in> set (sx_threads s). chunk_good (snd t)) \<and>
     listeners_ok throws (ms_listeners (sx_main s)) \<and>
     counters_ok (ms_metrics (sx_main s)) (sx_threads s) \<and>
     (serial \<longrightarrow> agrees (numbers (sx_main s)) (map snd (sx_threads s)))"

lemma run_start_ok:
  assumes "sc_root_dir c \<noteq> []" and "last (sc_root_dir c) \<noteq> CHR ''/''" and "server_boot os c w = (Inr ms, w')"
  shows "run_ok throws serial (run_start ms w')"
proof -
  note boot = server_boot_parts [OF assms]
  have "counters_ok (ms_metrics ms) []"
    unfolding counters_ok_def boot(5)
  proof
    show "counter_value metrics_zero k = of_nat (times_passed k [])" for k
      by (cases k) (simp_all add: metrics_zero_def times_passed_def channel_counts_def split: channel.split)
  qed
  then show ?thesis
    using boot(1-4) by (simp add: run_ok_def run_start_def storage_good_def agrees_def numbers_def)
qed

lemma agrees_accept:
  assumes "agrees n ps"
  shows "agrees n (ps @ [Begin])"
proof -
  have "idle k (ps @ [Begin]) \<longleftrightarrow> idle k ps" for k
    by (auto simp: idle_def nth_append less_Suc_eq)
  then show ?thesis
    using assms by (cases n) (auto simp: agrees_def nth_append less_Suc_eq)
qed

lemma server_step_ok:
  assumes "server_step throws serial d s s'" and "run_ok throws serial s"
  shows "run_ok throws serial s'"
  using assms(1)
proof cases
  case (accept ch)
  then show ?thesis
    using assms(2) agrees_accept by (auto simp: run_ok_def counters_ok_def times_passed_def passed_def)
next
  case (thread i ch pos pos' ms' w')
  have pos: "chunk_good pos"
    using assms(2) nth_mem [OF thread(2)] thread(3) by (force simp: run_ok_def)
  have "agrees (numbers ms') ((map snd (sx_threads s))[i := pos'])" if serial
  proof (rule agrees_thread [OF _ _ _ thread(4)])
    show "under_way pos = None \<longrightarrow> under_way pos' \<noteq> None \<longrightarrow> (\<forall>p \<in> set (map snd (sx_threads s)). under_way p \<noteq> under_way pos')"
      using thread(5) that by simp
  qed (use thread(2,3) assms(2) that in \<open>simp_all add: run_ok_def\<close>)
  moreover have "\<forall>t \<in> set ((sx_threads s)[i := (ch, pos')]). chunk_good (snd t)"
    using thread_step_storage [OF thread(4) _ pos] assms(2) set_update_subset_insert [of "sx_threads s" i "(ch, pos')"]
    by (auto simp: run_ok_def)
  ultimately show ?thesis
    using thread(1) thread_step_storage [OF thread(4) _ pos] thread_step_listeners [OF thread(4)]
      counters_ok_thread [OF _ thread(2,3,4)] assms(2)
    by (simp add: run_ok_def map_update)
next
  case (sweep_store ttl now st w)
  then show ?thesis
    using assms(2) cleanup_expired_ok(1) cleanup_ttl by (auto simp: run_ok_def numbers_def)
next
  case shutdown
  have "ls_desired (listeners_stop ls) = ls_desired ls" for ls
    by (simp add: listeners_stop_def)
  then show ?thesis
    using shutdown assms(2) listeners_ok_stop by (simp add: run_ok_def numbers_def server_shutdown_def)
qed (use assms(2) in \<open>simp_all add: run_ok_def\<close>)

interpretation server_sys: invariant_system
    "\<lambda>s. \<exists>os c w ms w'. sc_root_dir c \<noteq> [] \<and> last (sc_root_dir c) \<noteq> CHR ''/'' \<and>
       server_boot os (c :: unit server_config) w = (Inr ms, w') \<and> s = run_start ms w'"
    "server_step throws serial d" "run_ok throws serial" for throws serial d
  by unfold_locales (use run_start_ok server_step_ok in blast)+

section \<open>The steps compose to the calls\<close>

text \<open>A control connection on its own: the steps of a command do what \<open>apply_command\<close> does.\<close>

definition control_of :: "main_state \<Rightarrow> control_state" where
  "control_of ms = \<lparr>ct_listeners = ms_listeners ms, ct_storage = ms_storage ms, ct_data_listener_count = ms_data_listener_count ms,
     ct_ttl = ms_ttl_seconds ms, ct_metrics_hooks = 0\<rparr>"

definition put_control :: "control_state \<Rightarrow> main_state \<Rightarrow> main_state" where
  "put_control ct ms = with_storage (ct_storage ct)
     (ms\<lparr>ms_listeners := ct_listeners ct, ms_data_listener_count := ct_data_listener_count ct, ms_ttl_seconds := ct_ttl ct\<rparr>)"

lemma put_control_of: "put_control (control_of ms) ms = ms"
  by (simp add: put_control_def control_of_def with_storage_def)

lemma command_steps:
  assumes "apply_command os line (control_of ms) w = (r, ct, w')" and "line \<noteq> []" and "line \<noteq> ''QUIT''" and "line \<noteq> ''EXIT''"
    and "throws \<or> (\<exists>response. r = Inr response)"
  shows "(thread_step throws d ch)\<^sup>*\<^sup>* (Lines, ms, w)
    (case r of Inl _ \<Rightarrow> Done Answered | Inr _ \<Rightarrow> Lines, put_control ct ms, w')"
proof -
  obtain verb rest where e: "extract_word line = (verb, rest)" by fastforce
  obtain pos ms1 where cb: "command_begin line ms = (pos, ms1)" by fastforce
  have start: "thread_step throws d ch (Lines, ms, w) (pos, ms1, w)"
    using assms(2-4) cb by (rule thread_step.command)
  consider (scale) "verb = ''SCALE_DATA''" "extract_u64 rest \<noteq> 0" | (ttl) "verb = ''SET_TTL''" "extract_i64 rest > 0"
    | (none) "\<not> (verb = ''SCALE_DATA'' \<and> extract_u64 rest \<noteq> 0)" "\<not> (verb = ''SET_TTL'' \<and> extract_i64 rest > 0)" by fastforce
  then show ?thesis
  proof cases
    case scale
    let ?v = "extract_u64 rest"
    obtain u ls where u: "update_data_listener_count os ?v (ms_listeners ms) = (u, ls)" by fastforce
    have ms1: "pos = Scaling ?v" "ms1 = ms\<lparr>ms_data_listener_count := ?v\<rparr>"
      using cb e scale by (simp_all add: command_begin_def Let_def)
    have res: "r = (case u of Inl x \<Rightarrow> Inl x | Inr _ \<Rightarrow> Inr (''OK data listeners='' @ show_nat ?v))" "w' = w"
      "put_control ct ms = ms1\<lparr>ms_listeners := ls\<rparr>"
      using assms(1) e scale u by (auto simp: apply_command_def Let_def control_of_def put_control_def with_storage_def ms1)
    have "thread_step throws d ch (Scaling ?v, ms1, w) (if u = Inr () then Lines else Done Answered, ms1\<lparr>ms_listeners := ls\<rparr>, w)"
      using u assms(5) res(1) by (intro thread_step.scale) (auto simp: ms1 split: sum.splits)
    then show ?thesis
      using start res by (cases u) (auto simp: ms1(1) intro: converse_rtranclp_into_rtranclp)
  next
    case ttl
    let ?t = "extract_i64 rest" and ?st = "set_default_ttl (extract_i64 rest) (ms_storage ms)"
    obtain st w1 where u: "update_entries ?t ?st w = (st, w1)" by fastforce
    have ms1: "pos = TtlStored ?t" "ms1 = ms\<lparr>ms_ttl_seconds := ?t\<rparr>"
      using cb e ttl by (simp_all add: command_begin_def Let_def)
    have res: "r = Inr (''OK ttl='' @ show_int ?t)" "w' = w1" "put_control ct ms = with_storage st (with_storage ?st ms1)"
      using assms(1) e ttl u by (auto simp: apply_command_def Let_def control_of_def put_control_def with_storage_def ms1 update_ttl_phases)
    have "ms_storage ms1 = ms_storage ms" by (simp add: ms1)
    then have "thread_step throws d ch (TtlStored ?t, ms1, w) (TtlDefault ?t, with_storage ?st ms1, w)"
      using thread_step.ttl_default [of throws d ch ?t ms1 w] by simp
    moreover have "thread_step throws d ch (TtlDefault ?t, with_storage ?st ms1, w) (Lines, with_storage st (with_storage ?st ms1), w1)"
      by (rule thread_step.ttl_entries) (simp add: u)
    ultimately show ?thesis
      using start unfolding res ms1(1) by (auto intro: converse_rtranclp_into_rtranclp)
  next
    case none
    then have "command_begin line ms = (Lines, ms)"
      using e by (auto simp: command_begin_def Let_def)
    moreover have "put_control ct ms = put_control (control_of ms) ms \<and> w' = w \<and> (\<exists>response. r = Inr response)"
      using assms(1) e none by (auto simp: apply_command_def Let_def put_control_def with_storage_def split: if_splits)
    ultimately show ?thesis
      using start cb put_control_of by auto
  qed
qed

text \<open>A data connection on its own: its steps do what \<open>handle_data\<close> does. First what is left after the section under the lock.\<close>

fun conclude :: "'z zstd_d \<Rightarrow> payload_record option res \<Rightarrow> main_state \<Rightarrow> world \<Rightarrow> (main_state \<times> world) option" where
  "conclude d (Inl _) ms w = Some (count ChunkErrors ms, w)"
| "conclude d (Inr None) ms w = Some (ms, w)"
| "conclude d (Inr (Some rec)) ms w =
     (case assemble d (st_files_dir (ms_storage ms)) rec w of
        None \<Rightarrow> None
      | Some (None, w) \<Rightarrow> Some (count AssemblyErrors ms, w)
      | Some (Some _, w) \<Rightarrow>
          Some (with_storage (mark_published (pr_file_id rec) (ms_storage ms)) (count Assemblies ms), w))"

lemma steps_then: "r\<^sup>*\<^sup>* a b \<Longrightarrow> r b c \<Longrightarrow> r\<^sup>*\<^sup>* a c"
  by (rule rtranclp.rtrancl_into_rtrancl)

lemma conclude_steps:
  assumes "conclude d x ms w = Some (ms', w')"
  shows "\<exists>e. (thread_step throws d ch)\<^sup>*\<^sup>* (after_record x, ms, w) (Done e, ms', w')"
proof -
  consider e where "x = Inl e" | "x = Inr None" | rec where "x = Inr (Some rec)"
    by (metis option.exhaust sum.exhaust)
  then show ?thesis
  proof cases
    case 1
    then have "(thread_step throws d ch)\<^sup>*\<^sup>* (after_record x, ms, w) (Done Aborted, ms', w')"
      using assms thread_step.failure [of throws d ch True ms w] by (auto simp: after_record_def)
    then show ?thesis by blast
  next
    case 2
    then show ?thesis
      using assms by (auto simp: after_record_def)
  next
    case (3 rec)
    obtain fin w1 where a: "assemble d (st_files_dir (ms_storage ms)) rec w = Some (fin, w1)"
      using assms 3 by (auto split: option.splits)
    note asm = r_into_rtranclp [of "thread_step throws d ch", OF thread_step.assembly [OF a, of throws ch]]
    show ?thesis
    proof (cases fin)
      case None
      then have "ms' = count AssemblyErrors ms" "w' = w1"
        using assms 3 a by simp_all
      moreover have "(thread_step throws d ch)\<^sup>*\<^sup>* (Assembling rec, ms, w) (AssemblyFailed, ms, w1)"
        using asm None by simp
      from steps_then [OF this thread_step.assembly_error]
      have "(thread_step throws d ch)\<^sup>*\<^sup>* (Assembling rec, ms, w) (Done Unassembled, count AssemblyErrors ms, w1)" .
      ultimately show ?thesis
        unfolding 3 by (auto simp: after_record_def)
    next
      case (Some path)
      then have r: "ms' = with_storage (mark_published (pr_file_id rec) (ms_storage (count Assemblies ms))) (count Assemblies ms)" "w' = w1"
        using assms 3 a by simp_all
      have "(thread_step throws d ch)\<^sup>*\<^sup>* (Assembling rec, ms, w) (Assembled rec, ms, w1)"
        using asm Some by simp
      from steps_then [OF this thread_step.assembly_count]
      have "(thread_step throws d ch)\<^sup>*\<^sup>* (Assembling rec, ms, w) (Publishing rec, count Assemblies ms, w1)" .
      from steps_then [OF this thread_step.publish] show ?thesis
        unfolding r 3 by (auto simp: after_record_def)
    qed
  qed
qed

lemma handle_data_conclude:
  assumes "handle_data en segs (ms_server ms) w = Some (r, sv, w')" and "receive_chunk (en_payload_limit en) (segs, []) = Inr c"
    and "store_chunk (en_resize_limit en) (en_now en) c (ms_storage ms) w = (x, st, w1)"
  shows "conclude (en_zstd en) x (with_storage st (count Chunks ms)) w1 = Some (ms\<lparr>ms_server := sv\<rparr>, w')"
proof -
  consider e where "x = Inl e" | "x = Inr None" | rec where "x = Inr (Some rec)"
    by (metis option.exhaust sum.exhaust)
  then show ?thesis
    using assms
    by cases (auto simp: handle_data_def Let_def with_storage_def count_def count_chunk_error_def split: option.splits)
qed

lemma data_steps:
  assumes "handle_data en segs (ms_server ms) w = Some (r, sv, w')" and "plain_request en segs"
  shows "\<exists>e. (thread_step throws (en_zstd en) ch)\<^sup>*\<^sup>* (Receiving, ms, w) (Done e, ms\<lparr>ms_server := sv\<rparr>, w')"
proof (cases "receive_chunk (en_payload_limit en) (segs, [])")
  case (Inl x)
  then have "ms\<lparr>ms_server := sv\<rparr> = count ChunkErrors ms" "w' = w"
    using assms(1) by (auto simp: handle_data_def count_def count_chunk_error_def)
  moreover have "(thread_step throws (en_zstd en) ch)\<^sup>*\<^sup>* (Receiving, ms, w) (Done Refused, count ChunkErrors ms, w)"
    using steps_then [OF r_into_rtranclp [of "thread_step throws (en_zstd en) ch", OF thread_step.refuse [OF Inl]]
        thread_step.failure [of throws "en_zstd en" ch False]] by simp
  ultimately show ?thesis
    by metis
next
  case (Inr c)
  let ?step = "thread_step throws (en_zstd en) ch" and ?ms1 = "count Chunks ms"
  have plain: "plain_id (ck_file_id c)"
    using assms(2) Inr by (simp add: plain_request_def)
  have to_store: "?step\<^sup>*\<^sup>* (Receiving, ms, w) (Storing c, ?ms1, w)"
    by (rule steps_then [OF r_into_rtranclp [of ?step, OF thread_step.receive [OF Inr plain]] thread_step.chunk_count])
  obtain ok w1 where p: "store_patch c (ms_storage ms) w = (ok, w1)" by fastforce
  then have patch: "?step\<^sup>*\<^sup>* (Receiving, ms, w) (if ok then Recording c else Done Kept, ?ms1, w1)"
    by (intro steps_then [OF to_store] thread_step.patch) simp
  show ?thesis
  proof (cases ok)
    case False
    then have "store_chunk (en_resize_limit en) (en_now en) c (ms_storage ms) w = (Inr None, ms_storage ms, w1)"
      using p by (simp add: store_chunk_phases)
    from handle_data_conclude [OF assms(1) Inr this] have "ms\<lparr>ms_server := sv\<rparr> = ?ms1" "w' = w1"
      by (auto simp: with_storage_def count_def)
    then show ?thesis
      using patch False by auto
  next
    case True
    obtain x st w2 where rc: "record_chunk (en_resize_limit en) (en_now en) c (ms_storage ms) w1 = (x, st, w2)" by (metis prod_cases3)
    have "?step\<^sup>*\<^sup>* (Receiving, ms, w) (Recording c, ?ms1, w1)"
      using patch True by simp
    moreover have "?step (Recording c, ?ms1, w1) (after_record x, with_storage st ?ms1, w2)"
      by (rule thread_step.record_locked [where resize_limit = "en_resize_limit en" and now = "en_now en"]) (simp add: rc)
    ultimately have recorded: "?step\<^sup>*\<^sup>* (Receiving, ms, w) (after_record x, with_storage st ?ms1, w2)"
      by (rule steps_then)
    have "store_chunk (en_resize_limit en) (en_now en) c (ms_storage ms) w = (x, st, w2)"
      using p True rc by (simp add: store_chunk_phases)
    from conclude_steps [OF handle_data_conclude [OF assms(1) Inr this]] obtain e where
      "?step\<^sup>*\<^sup>* (after_record x, with_storage st ?ms1, w2) (Done e, ms\<lparr>ms_server := sv\<rparr>, w')" by blast
    then show ?thesis
      using rtranclp_trans [OF recorded] by blast
  qed
qed

section \<open>Runs\<close>

lemma solo_run:
  assumes "(thread_step throws d ch)\<^sup>*\<^sup>* p q" and "i < length (sx_threads s)" and "sx_threads s ! i = (ch, fst p)"
    and "snd p = (sx_main s, sx_world s)" and "serial \<longrightarrow> (\<forall>j < length (sx_threads s). j \<noteq> i \<longrightarrow> under_way (snd (sx_threads s ! j)) = None)"
  shows "(server_step throws serial d)\<^sup>*\<^sup>* s (s\<lparr>sx_main := fst (snd q), sx_world := snd (snd q), sx_threads := (sx_threads s)[i := (ch, fst q)]\<rparr>)"
  using assms(1)
proof (induction rule: rtranclp_induct)
  case base
  have "(sx_threads s)[i := (ch, fst p)] = sx_threads s"
    using list_update_id [of "sx_threads s" i] assms(3) by simp
  moreover have "fst (snd p) = sx_main s" "snd (snd p) = sx_world s"
    using assms(4) by simp_all
  ultimately show ?case
    by simp
next
  case (step q q')
  obtain pos ms w pos' ms' w' where q: "q = (pos, ms, w)" "q' = (pos', ms', w')" by (metis prod_cases3)
  let ?s = "s\<lparr>sx_main := ms, sx_world := w, sx_threads := (sx_threads s)[i := (ch, pos)]\<rparr>"
  have none: "under_way (snd (sx_threads ?s ! j)) = None" if "serial" "under_way pos = None" "j < length (sx_threads s)" for j
    using that assms(2,5) by (cases "j = i") simp_all
  have "serial \<longrightarrow> under_way pos = None \<longrightarrow> under_way pos' \<noteq> None \<longrightarrow>
      (\<forall>t \<in> set (sx_threads ?s). under_way (snd t) \<noteq> under_way pos')"
  proof (intro impI ballI)
    fix t
    assume "serial" "under_way pos = None" "under_way pos' \<noteq> None" "t \<in> set (sx_threads ?s)"
    then obtain j where "j < length (sx_threads s)" "t = sx_threads ?s ! j"
      by (force simp: in_set_conv_nth)
    then show "under_way (snd t) \<noteq> under_way pos'"
      using none [OF \<open>serial\<close> \<open>under_way pos = None\<close>] \<open>under_way pos' \<noteq> None\<close> by metis
  qed
  then have "server_step throws serial d ?s
      (?s\<lparr>sx_main := ms', sx_world := w', sx_threads := (sx_threads ?s)[i := (ch, pos')]\<rparr>)"
    using step(2) assms(2) by (intro server_step.thread [of i _ ch pos]) (simp_all add: q)
  then show ?case
    using step(3) by (simp add: q)
qed

lemma sample_update:
  "\<exists>ls'. update_data_listener_count (sample_listen []) n ls = (Inr (), ls') \<and> ls_started ls' = ls_started ls \<and>
     (ls_started ls \<longrightarrow> length (ls_data ls') = n)"
  by (auto simp: update_data_listener_count_def ensure_data_acceptors_def sample_grow shrink_take Let_def)

text \<open>A control connection from its start to its first command, and one that scales.\<close>

lemma control_begin:
  "(thread_step throws d ControlChannel)\<^sup>*\<^sup>* (Begin, ms, w) (Lines, count (OfChannel ControlChannel) (count Accepted ms), w)"
  using steps_then [OF r_into_rtranclp [of "thread_step throws d ControlChannel", OF thread_step.begin_count [of throws d ControlChannel ms w]]
      thread_step.channel_count]
  by (simp add: first_position_def)

lemma scale_words:
  "extract_word ''SCALE_DATA 2'' = (''SCALE_DATA'', '' 2'')" "extract_word ''SCALE_DATA 3'' = (''SCALE_DATA'', '' 3'')"
  by (simp_all add: extract_word_def isspace_def)

lemma scale_numbers: "extract_u64 '' 2'' = 2" "extract_u64 '' 3'' = 3"
  by (simp_all add: extract_u64_def strto_def read_sign_def isspace_def isdigit_def digits_val_def digit_val_def)

lemma scale_begin:
  "thread_step throws d ch (Lines, ms, w) (Scaling 2, ms\<lparr>ms_data_listener_count := 2\<rparr>, w)"
  "thread_step throws d ch (Lines, ms, w) (Scaling 3, ms\<lparr>ms_data_listener_count := 3\<rparr>, w)"
proof -
  have "command_begin ''SCALE_DATA 2'' ms = (Scaling 2, ms\<lparr>ms_data_listener_count := 2\<rparr>)"
    "command_begin ''SCALE_DATA 3'' ms = (Scaling 3, ms\<lparr>ms_data_listener_count := 3\<rparr>)"
    by (simp_all add: command_begin_def scale_words scale_numbers)
  from thread_step.command [OF _ _ _ this(1)] thread_step.command [OF _ _ _ this(2)]
  show "thread_step throws d ch (Lines, ms, w) (Scaling 2, ms\<lparr>ms_data_listener_count := 2\<rparr>, w)"
    "thread_step throws d ch (Lines, ms, w) (Scaling 3, ms\<lparr>ms_data_listener_count := 3\<rparr>, w)"
    by simp_all
qed

lemma scale_end:
  assumes "update_data_listener_count (sample_listen []) n (ms_listeners ms) = (Inr (), ls)"
  shows "thread_step throws d ch (Scaling n, ms, w) (Lines, ms\<lparr>ms_listeners := ls\<rparr>, w)"
  using thread_step.scale [OF assms] by simp

section \<open>Properties\<close>

text \<open>C6. The threads of the server, one for every connection, the clean-up thread and the main thread, run in any interleaving of their
  accesses to what they share: the table of the store stays well formed, the table of the acceptors is as desired (unless
  starting one throws), and every counter is the number of times that the connections have passed the place that counts it,
  so every connection is counted once as accepted and once for its channel, and every chunk, error and assembly once. If the clients do
  not let two commands of a kind overlap, then the number of data listeners and the time to live that \<open>STATUS\<close> reports
  are those of the listeners and of the store whenever no command is under way.\<close>

theorem server_stays_consistent:
  assumes "sc_root_dir c \<noteq> []" and "last (sc_root_dir c) \<noteq> CHR ''/''" and "server_boot os c w = (Inr ms, w')"
    and "(server_step throws serial d)\<^sup>*\<^sup>* (run_start ms w') s"
  shows "storage_ok (ms_storage (sx_main s)) \<and> listeners_ok throws (ms_listeners (sx_main s)) \<and>
    (\<forall>k. counter_value (ms_metrics (sx_main s)) k = of_nat (times_passed k (sx_threads s))) \<and>
    (serial \<and> (\<forall>t \<in> set (sx_threads s). under_way (snd t) = None) \<longrightarrow>
       ms_data_listener_count (sx_main s) = ls_desired (ms_listeners (sx_main s)) \<and>
       ms_ttl_seconds (sx_main s) = st_default_ttl (ms_storage (sx_main s)))"
proof -
  have "run_ok throws serial (run_start ms w')"
    using assms(1-3) by (rule run_start_ok)
  then have ok: "run_ok throws serial s"
    by (rule server_sys.steps_good [OF assms(4)])
  moreover have "ms_data_listener_count (sx_main s) = ls_desired (ms_listeners (sx_main s)) \<and>
      ms_ttl_seconds (sx_main s) = st_default_ttl (ms_storage (sx_main s))"
    if "serial" "\<forall>t \<in> set (sx_threads s). under_way (snd t) = None"
  proof -
    have "idle k (map snd (sx_threads s))" for k
      using that(2) nth_mem [of _ "sx_threads s"] by (auto simp: idle_def)
    then show ?thesis
      using ok \<open>serial\<close> by (simp add: run_ok_def numbers_def agrees_def)
  qed
  ultimately show ?thesis
    by (simp add: run_ok_def counters_ok_def)
qed

text \<open>A control connection that scales to two data listeners.\<close>

theorem server_stays_consistent_witness:
  "\<exists>ms w s. server_boot (sample_listen []) sample_config empty_world = (Inr ms, w) \<and>
     (server_step False True toy_decoder)\<^sup>*\<^sup>* (run_start ms w) s \<and> sx_threads s = [(ControlChannel, Lines)] \<and>
     sm_accepted (ms_metrics (sx_main s)) = 1 \<and> sm_control (ms_metrics (sx_main s)) = 1 \<and> sm_health (ms_metrics (sx_main s)) = 0 \<and>
     ms_data_listener_count (sx_main s) = 2 \<and> ls_desired (ms_listeners (sx_main s)) = 2"
proof -
  obtain ms w where boot: "server_boot (sample_listen []) sample_config empty_world = (Inr ms, w)"
    by (rule sample_server_boot)
  let ?ms = "count (OfChannel ControlChannel) (count Accepted ms)\<lparr>ms_data_listener_count := 2\<rparr>"
  obtain ls where ls: "update_data_listener_count (sample_listen []) 2 (ms_listeners ?ms) = (Inr (), ls)"
    using sample_update by blast
  let ?s = "run_start ms w\<lparr>sx_threads := [(ControlChannel, Begin)]\<rparr>"
  have "(thread_step False toy_decoder ControlChannel)\<^sup>*\<^sup>* (Begin, ms, w) (Lines, ?ms\<lparr>ms_listeners := ls\<rparr>, w)"
    by (rule steps_then [OF steps_then [OF control_begin scale_begin(1)] scale_end [OF ls]])
  from solo_run [OF this, of 0 ?s True]
  have "(server_step False True toy_decoder)\<^sup>*\<^sup>* ?s
      (?s\<lparr>sx_main := ?ms\<lparr>ms_listeners := ls\<rparr>, sx_world := w, sx_threads := [(ControlChannel, Lines)]\<rparr>)"
    by (simp add: run_start_def)
  then have run: "(server_step False True toy_decoder)\<^sup>*\<^sup>* (run_start ms w)
      (?s\<lparr>sx_main := ?ms\<lparr>ms_listeners := ls\<rparr>, sx_world := w, sx_threads := [(ControlChannel, Lines)]\<rparr>)"
    using server_step.accept [of False True toy_decoder "run_start ms w" ControlChannel]
    by (auto simp: run_start_def intro: converse_rtranclp_into_rtranclp)
  note holds = server_stays_consistent [OF sample_config_root boot run]
  have "counter_value m Accepted = sm_accepted m" "counter_value m (OfChannel ControlChannel) = sm_control m"
    "counter_value m (OfChannel Health) = sm_health m" for m
    by (simp_all add: channel_counts_def)
  then show ?thesis
    using boot run conjunct1 [OF conjunct2 [OF conjunct2 [OF holds]], rule_format, of Accepted]
      conjunct1 [OF conjunct2 [OF conjunct2 [OF holds]], rule_format, of "OfChannel ControlChannel"]
      conjunct1 [OF conjunct2 [OF conjunct2 [OF holds]], rule_format, of "OfChannel Health"]
      conjunct2 [OF conjunct2 [OF conjunct2 [OF holds]]]
    by (intro exI [of _ ms] exI [of _ w] exI conjI) (assumption, assumption, simp_all add: times_passed_def passed_def)
qed

text \<open>Two commands that overlap: the connection that scales to two listeners stores its number first and asks the listeners last.
  When both commands are over, three listeners are reported and two are there.\<close>

theorem overlapping_commands_diverge:
  "\<exists>ms w s. server_boot (sample_listen []) sample_config empty_world = (Inr ms, w) \<and>
     (server_step False False toy_decoder)\<^sup>*\<^sup>* (run_start ms w) s \<and> (\<forall>t \<in> set (sx_threads s). snd t = Lines) \<and>
     ms_data_listener_count (sx_main s) = 3 \<and> length (ls_data (ms_listeners (sx_main s))) = 2"
proof -
  let ?step = "server_step False False toy_decoder" and ?C = ControlChannel
  obtain ms w where boot: "server_boot (sample_listen []) sample_config empty_world = (Inr ms, w)" and listeners: "ms_listeners ms = sample_listeners [] 4"
    by (rule sample_server_boot)
  define st where "st m a b = \<lparr>sx_main = m, sx_world = w, sx_threads = [(?C, a), (?C, b)], sx_sweep = Asleep\<rparr>" for m a b
  have first: "?step\<^sup>*\<^sup>* (st m a b) (st m' a' b)" if "(thread_step False toy_decoder ?C)\<^sup>*\<^sup>* (a, m, w) (a', m', w)" for m a b m' a'
    using solo_run [OF that, of 0 "st m a b" False] by (simp add: st_def)
  have second: "?step\<^sup>*\<^sup>* (st m a b) (st m' a b')" if "(thread_step False toy_decoder ?C)\<^sup>*\<^sup>* (b, m, w) (b', m', w)" for m a b m' b'
    using solo_run [OF that, of 1 "st m a b" False] by (simp add: st_def)
  have "?step (run_start ms w) (run_start ms w\<lparr>sx_threads := [(?C, Begin)]\<rparr>)"
    "?step (run_start ms w\<lparr>sx_threads := [(?C, Begin)]\<rparr>) (st ms Begin Begin)"
    using server_step.accept [of False False toy_decoder "run_start ms w" ?C]
      server_step.accept [of False False toy_decoder "run_start ms w\<lparr>sx_threads := [(?C, Begin)]\<rparr>" ?C]
    by (simp_all add: run_start_def st_def)
  then have start: "?step\<^sup>*\<^sup>* (run_start ms w) (st ms Begin Begin)"
    by (meson converse_rtranclp_into_rtranclp rtranclp.rtrancl_refl)
  define m1 where "m1 = (count (OfChannel ?C) (count Accepted ms))\<lparr>ms_data_listener_count := 2\<rparr>"
  define m2 where "m2 = (count (OfChannel ?C) (count Accepted m1))\<lparr>ms_data_listener_count := 3\<rparr>"
  obtain ls3 where ls3: "update_data_listener_count (sample_listen []) 3 (ms_listeners m2) = (Inr (), ls3)" "ls_started ls3"
    using sample_update [of 3 "ms_listeners m2"] listeners sample_start(3) by (auto simp: m2_def m1_def)
  obtain ls2 where ls2: "update_data_listener_count (sample_listen []) 2 (ms_listeners (m2\<lparr>ms_listeners := ls3\<rparr>)) = (Inr (), ls2)"
    and two: "length (ls_data ls2) = 2"
    using sample_update [of 2 ls3] ls3(2) by auto
  have "?step\<^sup>*\<^sup>* (st ms Begin Begin) (st m1 (Scaling 2) Begin)"
    unfolding m1_def by (rule first) (rule steps_then [OF control_begin scale_begin(1)])
  moreover have "?step\<^sup>*\<^sup>* (st m1 (Scaling 2) Begin) (st (m2\<lparr>ms_listeners := ls3\<rparr>) (Scaling 2) Lines)"
    by (rule second) (rule steps_then [OF steps_then [OF control_begin [of _ _ m1] scale_begin(2), folded m2_def] scale_end [OF ls3(1)]])
  moreover have "?step\<^sup>*\<^sup>* (st (m2\<lparr>ms_listeners := ls3\<rparr>) (Scaling 2) Lines) (st (m2\<lparr>ms_listeners := ls2\<rparr>) Lines Lines)"
    using scale_end [OF ls2, of False toy_decoder ?C w] by (intro first) (simp add: r_into_rtranclp)
  ultimately have run: "?step\<^sup>*\<^sup>* (run_start ms w) (st (m2\<lparr>ms_listeners := ls2\<rparr>) Lines Lines)"
    using start by (meson rtranclp_trans)
  then show ?thesis
    using boot two
    by (intro exI [of _ ms] exI [of _ w] exI [of _ "st (m2\<lparr>ms_listeners := ls2\<rparr>) Lines Lines"]) (simp add: st_def m2_def)
qed

end
