(* ===== verification/Accept_Loop.thy ===== *)
theory Accept_Loop
  imports Control_Plane "HOL-Library.Multiset"
begin

text \<open>
  \<open>accept_loop\<close> and \<open>stop_acceptor_locked\<close> of \<^verbatim>\<open>Server/src/listeners.hpp\<close>: the thread of one acceptor, the threads it starts
  for its connections, and the stop by another thread. Whether closing the acceptor makes a blocked
  \<open>accept\<close> return is not documented for the synchronous call the code makes: it is the parameter
  \<open>wakes\<close>. The lemmas show that every accepted connection is handed over once and in order, how many can come after
  the stop, and that without the wake-up the stop hangs.
\<close>

section \<open>State and steps\<close>

text \<open>Where the thread is: at the loop head, in \<open>accept\<close> (\<open>True\<close>: it was called while the acceptor was open), in the
  pause after an error, ended.\<close>

datatype accept_thread = LoopHead | Accepting bool | Pausing | Ended

record 'c accept_state =
  al_channel :: channel
  al_handler :: bool
  al_running :: bool
  al_open :: bool
  al_thread :: accept_thread
  al_accepted :: "'c list"            \<comment> \<open>history: what \<open>accept\<close> has returned\<close>
  al_handed :: "(channel \<times> 'c) list" \<comment> \<open>the handler threads that were started\<close>
  al_dropped :: "'c list"             \<comment> \<open>connections closed without a handler\<close>

definition accept_start :: "channel \<Rightarrow> bool \<Rightarrow> 'c accept_state" where
  "accept_start ch handler = \<lparr>al_channel = ch, al_handler = handler, al_running = True, al_open = True, al_thread = LoopHead,
     al_accepted = [], al_handed = [], al_dropped = []\<rparr>"

text \<open>The body of the loop behind \<open>accept\<close>; \<open>started\<close> is whether the thread for the connection could be started.\<close>

definition accept_returned :: "'c option \<Rightarrow> bool \<Rightarrow> 'c accept_state \<Rightarrow> 'c accept_state" where
  "accept_returned r started s =
     (case r of
        None \<Rightarrow> s\<lparr>al_thread := (if al_running s then Pausing else LoopHead)\<rparr>
      | Some sock \<Rightarrow>
          let s = s\<lparr>al_accepted := al_accepted s @ [sock], al_thread := LoopHead\<rparr>
          in if \<not> al_handler s then s\<lparr>al_dropped := al_dropped s @ [sock]\<rparr>
             else if started then s\<lparr>al_handed := al_handed s @ [(al_channel s, sock)]\<rparr>
             else s\<lparr>al_dropped := al_dropped s @ [sock]\<rparr>)"

text \<open>\<open>stop_acceptor_locked\<close> up to the join.\<close>

definition accept_stop :: "'c accept_state \<Rightarrow> 'c accept_state" where
  "accept_stop s = s\<lparr>al_running := False, al_open := False\<rparr>"

inductive accept_thread_step :: "bool \<Rightarrow> 'c accept_state \<Rightarrow> 'c accept_state \<Rightarrow> bool" for wakes where
  enter: "al_thread s = LoopHead \<Longrightarrow> al_running s \<Longrightarrow> accept_thread_step wakes s (s\<lparr>al_thread := Accepting (al_open s)\<rparr>)"
| leave: "al_thread s = LoopHead \<Longrightarrow> \<not> al_running s \<Longrightarrow> accept_thread_step wakes s (s\<lparr>al_thread := Ended\<rparr>)"
| failed: "al_thread s = Accepting b \<Longrightarrow> al_open s \<or> \<not> b \<or> wakes \<Longrightarrow>
    accept_thread_step wakes s (accept_returned None started s)"
| paused: "al_thread s = Pausing \<Longrightarrow> accept_thread_step wakes s (s\<lparr>al_thread := LoopHead\<rparr>)"

text \<open>A peer connects: only a call made while the acceptor was open can return it.\<close>

inductive arrival_step :: "'c accept_state \<Rightarrow> 'c accept_state \<Rightarrow> bool" where
  "al_thread s = Accepting True \<Longrightarrow> arrival_step s (accept_returned (Some sock) started s)"

inductive accept_step :: "bool \<Rightarrow> 'c accept_state \<Rightarrow> 'c accept_state \<Rightarrow> bool" for wakes where
  own: "accept_thread_step wakes s s' \<Longrightarrow> accept_step wakes s s'"
| peer: "arrival_step s s' \<Longrightarrow> accept_step wakes s s'"
| closing: "accept_step wakes s (accept_stop s)"

section \<open>Every connection once\<close>

definition accept_ok :: "channel \<Rightarrow> bool \<Rightarrow> 'c accept_state \<Rightarrow> bool" where [inv_defs]:
  "accept_ok ch handler s \<longleftrightarrow> al_channel s = ch \<and> al_handler s = handler \<and>
     (\<forall>x \<in> set (al_handed s). fst x = ch) \<and> mset (al_accepted s) = mset (map snd (al_handed s)) + mset (al_dropped s) \<and>
     subseq (map snd (al_handed s)) (al_accepted s) \<and> (\<not> handler \<longrightarrow> al_handed s = [])"

lemma accept_returned_ok: "accept_ok ch h s \<Longrightarrow> accept_ok ch h (accept_returned r started s)"
  by (cases r) (auto simp: accept_ok_def accept_returned_def Let_def intro: list_emb_append_mono list_emb_prefix)

lemma accept_step_ok: "accept_step wakes s s' \<Longrightarrow> accept_ok ch h s \<Longrightarrow> accept_ok ch h s'"
  by (auto elim!: accept_step.cases accept_thread_step.cases arrival_step.cases simp: accept_returned_ok)
    (auto simp: accept_ok_def accept_stop_def)

interpretation accept_sys: invariant_system "\<lambda>s. s = accept_start ch h" "accept_step wakes" "accept_ok ch h" for ch h wakes
proof
  show "s = accept_start ch h \<Longrightarrow> accept_ok ch h s" for s
    by (simp add: accept_start_def accept_ok_def)
qed (rule accept_step_ok)

section \<open>After the stop\<close>

text \<open>One more connection can come out of the call that was made before the stop.\<close>

definition still_due :: "'c accept_state \<Rightarrow> nat" where
  "still_due s = (if al_thread s = Accepting True then 1 else 0)"

lemma stopped_step:
  assumes "accept_step wakes s s'" and "\<not> al_running s" and "\<not> al_open s"
  shows "\<not> al_running s' \<and> \<not> al_open s' \<and> length (al_accepted s') + still_due s' \<le> length (al_accepted s) + still_due s"
  using assms
  by (auto elim!: accept_step.cases accept_thread_step.cases arrival_step.cases
      simp: accept_returned_def accept_stop_def still_due_def Let_def split: if_splits)

lemma stopped_steps:
  assumes "(accept_step wakes)\<^sup>*\<^sup>* (accept_stop s) s'"
  shows "\<not> al_running s' \<and> \<not> al_open s' \<and> length (al_accepted s') + still_due s' \<le> length (al_accepted s) + still_due s"
  using assms
proof (induction rule: rtranclp_induct)
  case (step s1 s2)
  then show ?case using stopped_step [OF step.hyps(2)] by linarith
qed (simp add: accept_stop_def still_due_def)

text \<open>The steps that are left to the thread of a stopped acceptor.\<close>

fun steps_left :: "accept_thread \<Rightarrow> nat" where
  "steps_left (Accepting _) = 2"
| "steps_left Pausing = 2"
| "steps_left LoopHead = 1"
| "steps_left Ended = 0"

lemma stopped_thread_step:
  assumes "accept_thread_step wakes s s'" and "\<not> al_running s"
  shows "\<not> al_running s' \<and> al_open s' = al_open s \<and> steps_left (al_thread s') < steps_left (al_thread s) \<and>
    (al_thread s' = Accepting True \<longrightarrow> False)"
  using assms by cases (auto simp: accept_returned_def)

lemma stopped_thread_run:
  "(accept_thread_step wakes ^^ n) s s' \<Longrightarrow> \<not> al_running s \<Longrightarrow>
     n + steps_left (al_thread s') \<le> steps_left (al_thread s) \<and> \<not> al_running s' \<and>
     (al_thread s \<noteq> Accepting True \<longrightarrow> al_thread s' \<noteq> Accepting True)"
proof (induction n arbitrary: s')
  case (Suc n)
  then obtain s1 where "(accept_thread_step wakes ^^ n) s s1" "accept_thread_step wakes s1 s'" by auto
  then show ?case
    using Suc.IH [of s1] Suc.prems(2) stopped_thread_step [of wakes s1 s'] by fastforce
qed simp

lemma stopped_thread_progress:
  assumes "\<not> al_running s" and "wakes \<or> al_thread s \<noteq> Accepting True" and "al_thread s \<noteq> Ended"
  shows "\<exists>s'. accept_thread_step wakes s s'"
proof (cases "al_thread s")
  case (Accepting b)
  then have "al_open s \<or> \<not> b \<or> wakes" using assms(2) by (cases b) auto
  then show ?thesis using Accepting accept_thread_step.failed by blast
qed (use assms accept_thread_step.leave accept_thread_step.paused in blast)+

section \<open>Properties\<close>

text \<open>C19. Every connection an acceptor accepts is dealt with exactly once: it is handed to a handler thread with the
  channel of the acceptor, or dropped, when there is no handler or its thread cannot be started; connections are handed over in
  the order of their arrival; and after the stop at most one more is accepted.\<close>

theorem connections_handed_once:
  assumes "(accept_step wakes)\<^sup>*\<^sup>* (accept_start ch handler) s" and "(accept_step wakes)\<^sup>*\<^sup>* (accept_stop s) s'"
  shows "mset (al_accepted s') = mset (map snd (al_handed s')) + mset (al_dropped s') \<and>
    (\<forall>x \<in> set (al_handed s'). fst x = ch) \<and> subseq (map snd (al_handed s')) (al_accepted s') \<and>
    length (al_accepted s') \<le> length (al_accepted s) + 1"
proof -
  have "accept_ok ch handler s"
    using accept_sys.reachable_good [OF refl assms(1)] .
  then have "accept_ok ch handler (accept_stop s)"
    by (rule accept_sys.step_good [OF _ accept_step.closing])
  then have "accept_ok ch handler s'"
    by (rule accept_sys.steps_good [OF assms(2)])
  moreover have "still_due s \<le> 1" by (simp add: still_due_def)
  then have "length (al_accepted s') \<le> length (al_accepted s) + 1"
    using stopped_steps [OF assms(2)] by linarith
  ultimately show ?thesis
    by (simp add: accept_ok_def)
qed

lemma sample_accepting: "accept_step wakes (accept_start ch h) ((accept_start ch h)\<lparr>al_thread := Accepting True\<rparr>)"
  using accept_step.own [OF accept_thread_step.enter [of "accept_start ch h" wakes]] by (simp add: accept_start_def)

theorem connections_handed_once_witness:
  "al_handed (accept_returned (Some ''c'') True (accept_stop ((accept_start Data True)\<lparr>al_thread := Accepting True\<rparr>))) = [(Data, ''c'')] \<and>
   length (al_accepted (accept_returned (Some ''c'') True (accept_stop ((accept_start Data True)\<lparr>al_thread := Accepting True\<rparr>)))) \<le> 0 + 1"
proof -
  let ?s = "(accept_start Data True)\<lparr>al_thread := Accepting True\<rparr>"
  have start: "(accept_step False)\<^sup>*\<^sup>* (accept_start Data True) ?s"
    by (rule r_into_rtranclp) (rule sample_accepting)
  have "arrival_step (accept_stop ?s) (accept_returned (Some ''c'') True (accept_stop ?s))"
    by (rule arrival_step.intros) (simp add: accept_stop_def)
  then have run: "(accept_step False)\<^sup>*\<^sup>* (accept_stop ?s) (accept_returned (Some ''c'') True (accept_stop ?s))"
    by (intro r_into_rtranclp accept_step.peer)
  have "al_accepted ?s = []" by (simp add: accept_start_def)
  then show ?thesis
    using connections_handed_once [OF start run] by (simp add: accept_returned_def accept_stop_def accept_start_def)
qed

text \<open>C20. Stopping an acceptor joins its thread. If closing the acceptor wakes the blocked call, or the thread is not in it, the
  thread ends after at most two of its own steps, however they fall. If it does not wake it, a thread that waits for a
  connection can do nothing any more: the join, and with it \<open>SCALE_DATA\<close> to a smaller number and the shutdown of the
  server, which hold the lock of the table, hang until some peer connects.\<close>

theorem acceptor_stop_joins:
  "(wakes \<or> al_thread s \<noteq> Accepting True \<longrightarrow>
      (\<forall>n s'. (accept_thread_step wakes ^^ n) (accept_stop s) s' \<longrightarrow>
         n \<le> 2 \<and> (al_thread s' = Ended \<or> (\<exists>s''. accept_thread_step wakes s' s'')))) \<and>
   (\<not> wakes \<and> al_thread s = Accepting True \<longrightarrow> (\<forall>s'. \<not> accept_thread_step wakes (accept_stop s) s'))"
proof (intro conjI impI allI)
  fix n s'
  assume w: "wakes \<or> al_thread s \<noteq> Accepting True" and run: "(accept_thread_step wakes ^^ n) (accept_stop s) s'"
  have stopped: "\<not> al_running (accept_stop s)" "al_thread (accept_stop s) = al_thread s"
    by (simp_all add: accept_stop_def)
  note r = stopped_thread_run [OF run stopped(1), unfolded stopped(2)]
  have "steps_left t \<le> 2" for t by (cases t) auto
  then show "n \<le> 2"
    using r by (meson add_leD1 order_trans)
  show "al_thread s' = Ended \<or> (\<exists>s''. accept_thread_step wakes s' s'')"
    using stopped_thread_progress [of s' wakes] r w by blast
next
  fix s'
  assume "\<not> wakes \<and> al_thread s = Accepting True"
  then show "\<not> accept_thread_step wakes (accept_stop s) s'"
    by (auto elim!: accept_thread_step.cases simp: accept_stop_def)
qed

theorem acceptor_stop_joins_witness:
  "\<nexists>s'. accept_thread_step False (accept_stop ((accept_start Data True :: string accept_state)\<lparr>al_thread := Accepting True\<rparr>)) s'"
  using acceptor_stop_joins [of False "(accept_start Data True :: string accept_state)\<lparr>al_thread := Accepting True\<rparr>"] by simp

end
