(* ===== verification/Sha256.thy ===== *)
theory Sha256
  imports Checksum
begin

text \<open>
  The two SHA-256 classes: \<open>Sha256\<close> of \<^verbatim>\<open>common/bytes.hpp\<close> (server side) and \<open>Sha256\<close> of
  \<^verbatim>\<open>Client/src/compressor.hpp\<close>. Both keep a block buffer that is an array of 64 bytes with a fill
  level; the first copies byte by byte and resets itself after a digest, the second copies runs
  with \<open>memcpy\<close> and refuses data once it is finalised. The lemmas show that both implement the
  padding and blocking of the standard, \<open>sha256_spec\<close>, whatever the calls the data comes in, so the
  two sides of the relay compute the same digest.
\<close>

unbundle bit_operations_syntax

section \<open>The compression function of the common library\<close>

definition rotr :: "u32 \<Rightarrow> nat \<Rightarrow> u32" where
  "rotr value bits = drop_bit bits value OR push_bit (32 - bits) value"

definition ch :: "u32 \<Rightarrow> u32 \<Rightarrow> u32 \<Rightarrow> u32" where
  "ch x y z = (x AND y) XOR (NOT x AND z)"

definition maj :: "u32 \<Rightarrow> u32 \<Rightarrow> u32 \<Rightarrow> u32" where
  "maj x y z = (x AND y) XOR (x AND z) XOR (y AND z)"

definition big_sigma0 :: "u32 \<Rightarrow> u32" where
  "big_sigma0 x = rotr x 2 XOR rotr x 13 XOR rotr x 22"

definition big_sigma1 :: "u32 \<Rightarrow> u32" where
  "big_sigma1 x = rotr x 6 XOR rotr x 11 XOR rotr x 25"

definition small_sigma0 :: "u32 \<Rightarrow> u32" where
  "small_sigma0 x = rotr x 7 XOR rotr x 18 XOR drop_bit 3 x"

definition small_sigma1 :: "u32 \<Rightarrow> u32" where
  "small_sigma1 x = rotr x 17 XOR rotr x 19 XOR drop_bit 10 x"

definition sha_k :: "u32 list" where
  "sha_k = concat
     [[0x428a2f98, 0x71374491, 0xb5c0fbcf, 0xe9b5dba5, 0x3956c25b, 0x59f111f1, 0x923f82a4, 0xab1c5ed5],
      [0xd807aa98, 0x12835b01, 0x243185be, 0x550c7dc3, 0x72be5d74, 0x80deb1fe, 0x9bdc06a7, 0xc19bf174],
      [0xe49b69c1, 0xefbe4786, 0x0fc19dc6, 0x240ca1cc, 0x2de92c6f, 0x4a7484aa, 0x5cb0a9dc, 0x76f988da],
      [0x983e5152, 0xa831c66d, 0xb00327c8, 0xbf597fc7, 0xc6e00bf3, 0xd5a79147, 0x06ca6351, 0x14292967],
      [0x27b70a85, 0x2e1b2138, 0x4d2c6dfc, 0x53380d13, 0x650a7354, 0x766a0abb, 0x81c2c92e, 0x92722c85],
      [0xa2bfe8a1, 0xa81a664b, 0xc24b8b70, 0xc76c51a3, 0xd192e819, 0xd6990624, 0xf40e3585, 0x106aa070],
      [0x19a4c116, 0x1e376c08, 0x2748774c, 0x34b0bcb5, 0x391c0cb3, 0x4ed8aa4a, 0x5b9cca4f, 0x682e6ff3],
      [0x748f82ee, 0x78a5636f, 0x84c87814, 0x8cc70208, 0x90befffa, 0xa4506ceb, 0xbef9a3f7, 0xc67178f2]]"

definition sha_iv :: "u32 list" where
  "sha_iv = [0x6a09e667, 0xbb67ae85, 0x3c6ef372, 0xa54ff53a,
             0x510e527f, 0x9b05688c, 0x1f83d9ab, 0x5be0cd19]"

definition sha_load_word :: "byte list \<Rightarrow> nat \<Rightarrow> u32" where
  "sha_load_word block i =
     push_bit 24 (ucast (block ! (i * 4))) OR push_bit 16 (ucast (block ! (i * 4 + 1)))
       OR push_bit 8 (ucast (block ! (i * 4 + 2))) OR ucast (block ! (i * 4 + 3))"

definition sha_schedule :: "byte list \<Rightarrow> u32 list" where
  "sha_schedule block =
     fold (\<lambda>i w. w @ [small_sigma1 (w ! (i - 2)) + w ! (i - 7) + small_sigma0 (w ! (i - 15)) + w ! (i - 16)])
       [16..<64] (map (sha_load_word block) [0..<16])"

type_synonym sha_vars = "u32 \<times> u32 \<times> u32 \<times> u32 \<times> u32 \<times> u32 \<times> u32 \<times> u32"

definition sha_round :: "u32 \<Rightarrow> u32 \<Rightarrow> sha_vars \<Rightarrow> sha_vars" where
  "sha_round k w = (\<lambda>(a, b, c, d, e, f, g, h).
     let temp1 = h + big_sigma1 e + ch e f g + k + w;
         temp2 = big_sigma0 a + maj a b c
     in (temp1 + temp2, a, b, c, d + temp1, e, f, g))"

definition sha_process_block :: "u32 list \<Rightarrow> byte list \<Rightarrow> u32 list" where
  "sha_process_block st block =
     (let w = sha_schedule block;
          (a, b, c, d, e, f, g, h) =
            fold (\<lambda>i. sha_round (sha_k ! i) (w ! i)) [0..<64]
              (st ! 0, st ! 1, st ! 2, st ! 3, st ! 4, st ! 5, st ! 6, st ! 7)
      in [st ! 0 + a, st ! 1 + b, st ! 2 + c, st ! 3 + d,
          st ! 4 + e, st ! 5 + f, st ! 6 + g, st ! 7 + h])"

section \<open>The class of the common library\<close>

record sha_hasher =
  sha_state :: "u32 list"
  sha_bit_length :: u64
  sha_buffer :: "byte list"
  sha_buffer_length :: nat

definition sha_reset :: "sha_hasher \<Rightarrow> sha_hasher" where
  "sha_reset s = s\<lparr>sha_bit_length := 0, sha_buffer_length := 0, sha_state := sha_iv\<rparr>"

definition sha_new :: sha_hasher where
  "sha_new = sha_reset \<lparr>sha_state = replicate 8 0, sha_bit_length = 0,
                         sha_buffer = replicate 64 0, sha_buffer_length = 0\<rparr>"

text \<open>\<open>buffer_[buffer_length_++] = b\<close>.\<close>

definition sha_put :: "byte \<Rightarrow> sha_hasher \<Rightarrow> sha_hasher" where
  "sha_put b s = s\<lparr>sha_buffer := (sha_buffer s)[sha_buffer_length s := b],
                   sha_buffer_length := sha_buffer_length s + 1\<rparr>"

definition sha_flush :: "sha_hasher \<Rightarrow> sha_hasher" where
  "sha_flush s = s\<lparr>sha_state := sha_process_block (sha_state s) (sha_buffer s), sha_buffer_length := 0\<rparr>"

definition sha_push :: "sha_hasher \<Rightarrow> byte \<Rightarrow> sha_hasher" where
  "sha_push s b = (let s' = sha_put b s in if sha_buffer_length s' = 64 then sha_flush s' else s')"

definition sha_update :: "sha_hasher \<Rightarrow> byte list \<Rightarrow> sha_hasher" where
  "sha_update s data =
     foldl sha_push (s\<lparr>sha_bit_length := sha_bit_length s + push_bit 3 (of_nat (length data))\<rparr>) data"

function sha_pad_to :: "nat \<Rightarrow> sha_hasher \<Rightarrow> sha_hasher" where
  "sha_pad_to n s = (if sha_buffer_length s < n then sha_pad_to n (sha_put 0 s) else s)"
  by pat_completeness auto
termination
  by (relation "measure (\<lambda>(n, s). n - sha_buffer_length s)") (auto simp: sha_put_def)

declare sha_pad_to.simps [simp del]

definition sha_digest_bytes :: "u32 list \<Rightarrow> byte list" where
  "sha_digest_bytes st =
     concat (map (\<lambda>w. [ucast (drop_bit 24 w AND 0xFF), ucast (drop_bit 16 w AND 0xFF),
                       ucast (drop_bit 8 w AND 0xFF), ucast (w AND 0xFF)]) st)"

definition sha_length_bytes :: "u64 \<Rightarrow> byte list" where
  "sha_length_bytes total_bits = map (\<lambda>shift. ucast (drop_bit shift total_bits AND 0xFF)) [56, 48, 40, 32, 24, 16, 8, 0]"

definition sha_finish :: "sha_hasher \<Rightarrow> byte list \<times> sha_hasher" where
  "sha_finish s =
     (let total_bits = sha_bit_length s;
          s = sha_put 0x80 s;
          s = (if sha_buffer_length s > 56 then sha_flush (sha_pad_to 64 s) else s);
          s = sha_pad_to 56 s;
          s = fold sha_put (sha_length_bytes total_bits) s;
          s = s\<lparr>sha_state := sha_process_block (sha_state s) (sha_buffer s)\<rparr>
      in (sha_digest_bytes (sha_state s), sha_reset s))"

definition sha_digest :: "sha_hasher \<Rightarrow> byte list \<Rightarrow> byte list \<times> sha_hasher" where
  "sha_digest s data = sha_finish (sha_update (sha_reset s) data)"

definition sha256 :: "byte list \<Rightarrow> byte list" where
  "sha256 data = fst (sha_digest sha_new data)"

section \<open>The class of the client\<close>

definition client_sha_k :: "u32 list" where
  "client_sha_k = concat
     [[0x428a2f98, 0x71374491, 0xb5c0fbcf, 0xe9b5dba5, 0x3956c25b, 0x59f111f1, 0x923f82a4, 0xab1c5ed5],
      [0xd807aa98, 0x12835b01, 0x243185be, 0x550c7dc3, 0x72be5d74, 0x80deb1fe, 0x9bdc06a7, 0xc19bf174],
      [0xe49b69c1, 0xefbe4786, 0x0fc19dc6, 0x240ca1cc, 0x2de92c6f, 0x4a7484aa, 0x5cb0a9dc, 0x76f988da],
      [0x983e5152, 0xa831c66d, 0xb00327c8, 0xbf597fc7, 0xc6e00bf3, 0xd5a79147, 0x06ca6351, 0x14292967],
      [0x27b70a85, 0x2e1b2138, 0x4d2c6dfc, 0x53380d13, 0x650a7354, 0x766a0abb, 0x81c2c92e, 0x92722c85],
      [0xa2bfe8a1, 0xa81a664b, 0xc24b8b70, 0xc76c51a3, 0xd192e819, 0xd6990624, 0xf40e3585, 0x106aa070],
      [0x19a4c116, 0x1e376c08, 0x2748774c, 0x34b0bcb5, 0x391c0cb3, 0x4ed8aa4a, 0x5b9cca4f, 0x682e6ff3],
      [0x748f82ee, 0x78a5636f, 0x84c87814, 0x8cc70208, 0x90befffa, 0xa4506ceb, 0xbef9a3f7, 0xc67178f2]]"

definition client_rotr :: "u32 \<Rightarrow> nat \<Rightarrow> u32" where
  "client_rotr value bits = drop_bit bits value OR push_bit (32 - bits) value"

definition client_schedule :: "byte list \<Rightarrow> u32 list" where
  "client_schedule block =
     fold (\<lambda>i w.
        let s0 = client_rotr (w ! (i - 15)) 7 XOR client_rotr (w ! (i - 15)) 18 XOR drop_bit 3 (w ! (i - 15));
            s1 = client_rotr (w ! (i - 2)) 17 XOR client_rotr (w ! (i - 2)) 19 XOR drop_bit 10 (w ! (i - 2))
        in w @ [w ! (i - 16) + s0 + w ! (i - 7) + s1])
       [16..<64]
       (map (\<lambda>i. push_bit 24 (ucast (block ! (i * 4))) OR push_bit 16 (ucast (block ! (i * 4 + 1)))
                   OR push_bit 8 (ucast (block ! (i * 4 + 2))) OR ucast (block ! (i * 4 + 3))) [0..<16])"

definition client_round :: "u32 \<Rightarrow> u32 \<Rightarrow> sha_vars \<Rightarrow> sha_vars" where
  "client_round k w = (\<lambda>(a, b, c, d, e, f, g, h).
     let s1 = client_rotr e 6 XOR client_rotr e 11 XOR client_rotr e 25;
         ch = (e AND f) XOR (NOT e AND g);
         temp1 = h + s1 + ch + k + w;
         s0 = client_rotr a 2 XOR client_rotr a 13 XOR client_rotr a 22;
         maj = (a AND b) XOR (a AND c) XOR (b AND c);
         temp2 = s0 + maj
     in (temp1 + temp2, a, b, c, d + temp1, e, f, g))"

definition client_transform :: "u32 list \<Rightarrow> byte list \<Rightarrow> u32 list" where
  "client_transform st block =
     (let w = client_schedule block;
          (a, b, c, d, e, f, g, h) =
            fold (\<lambda>i. client_round (client_sha_k ! i) (w ! i)) [0..<64]
              (st ! 0, st ! 1, st ! 2, st ! 3, st ! 4, st ! 5, st ! 6, st ! 7)
      in [st ! 0 + a, st ! 1 + b, st ! 2 + c, st ! 3 + d,
          st ! 4 + e, st ! 5 + f, st ! 6 + g, st ! 7 + h])"

record client_sha =
  cs_state :: "u32 list"
  cs_buffer :: "byte list"
  cs_bit_count :: u64
  cs_buffer_size :: nat
  cs_finalized :: bool

definition client_sha_new :: client_sha where
  "client_sha_new = \<lparr>cs_state = sha_iv, cs_buffer = replicate 64 0, cs_bit_count = 0,
                     cs_buffer_size = 0, cs_finalized = False\<rparr>"

definition client_flush :: "client_sha \<Rightarrow> client_sha" where
  "client_flush s = s\<lparr>cs_state := client_transform (cs_state s) (cs_buffer s), cs_buffer_size := 0\<rparr>"

text \<open>The copy loop of \<open>update\<close>: \<open>data\<close> is what lies behind \<open>offset\<close>.\<close>

definition client_copy :: "client_sha \<Rightarrow> byte list \<Rightarrow> client_sha" where
  "client_copy s bytes =
     s\<lparr>cs_buffer := take (cs_buffer_size s) (cs_buffer s) @ bytes
                    @ drop (cs_buffer_size s + length bytes) (cs_buffer s),
       cs_buffer_size := cs_buffer_size s + length bytes\<rparr>"

partial_function (option) client_copy_loop :: "client_sha \<Rightarrow> byte list \<Rightarrow> client_sha option" where
  "client_copy_loop s data =
     (if data = [] then Some s
      else let to_copy = min (length data) (length (cs_buffer s) - cs_buffer_size s);
               s = client_copy s (take to_copy data);
               s = (if cs_buffer_size s = length (cs_buffer s) then client_flush s else s)
           in client_copy_loop s (drop to_copy data))"

definition client_sha_update :: "client_sha \<Rightarrow> byte list \<Rightarrow> client_sha res option" where
  "client_sha_update s data =
     (if cs_finalized s then Some (Inl (LogicError ''Sha256::update called after finalize''))
      else map_option Inr
        (client_copy_loop (s\<lparr>cs_bit_count := cs_bit_count s + of_nat (length data) * 8\<rparr>) data))"

definition client_put :: "byte \<Rightarrow> client_sha \<Rightarrow> client_sha" where
  "client_put b s = s\<lparr>cs_buffer := (cs_buffer s)[cs_buffer_size s := b],
                      cs_buffer_size := cs_buffer_size s + 1\<rparr>"

function client_pad_to :: "nat \<Rightarrow> client_sha \<Rightarrow> client_sha" where
  "client_pad_to n s = (if cs_buffer_size s < n then client_pad_to n (client_put 0 s) else s)"
  by pat_completeness auto
termination
  by (relation "measure (\<lambda>(n, s). n - cs_buffer_size s)") (auto simp: client_put_def)

declare client_pad_to.simps [simp del]

definition client_finalize :: "client_sha \<Rightarrow> byte list \<times> client_sha" where
  "client_finalize s =
     (let s = (if cs_finalized s then s
               else let s = client_put 0x80 (s\<lparr>cs_finalized := True\<rparr>);
                        s = (if cs_buffer_size s > 56 then client_flush (client_pad_to 64 s) else s);
                        s = client_pad_to 56 s;
                        s = fold client_put
                              (map (\<lambda>i. ucast (drop_bit (i * 8) (cs_bit_count s) AND 0xFF)) (rev [0..<8])) s
                    in s\<lparr>cs_state := client_transform (cs_state s) (cs_buffer s)\<rparr>)
      in (sha_digest_bytes (cs_state s), s))"

section \<open>The padding and blocking of the standard\<close>

text \<open>
  \<open>sha_absorb st m\<close> runs the compression function over the whole blocks of \<open>m\<close> and returns the
  chaining value with the incomplete block that is left.
\<close>

function sha_absorb :: "u32 list \<Rightarrow> byte list \<Rightarrow> u32 list \<times> byte list" where
  "sha_absorb st m =
     (if length m < 64 then (st, m) else sha_absorb (sha_process_block st (take 64 m)) (drop 64 m))"
  by pat_completeness auto
termination
  by (relation "measure (\<lambda>(st, m). length m)") auto

declare sha_absorb.simps [simp del]

definition sha_pad :: "byte list \<Rightarrow> byte list" where
  "sha_pad m = m @ 0x80 # replicate ((119 - length m mod 64) mod 64) 0 @ sha_length_bytes (of_nat (8 * length m))"

definition sha256_spec :: "byte list \<Rightarrow> byte list" where
  "sha256_spec m = sha_digest_bytes (fst (sha_absorb sha_iv (sha_pad m)))"

lemma length_sha_length_bytes [simp]: "length (sha_length_bytes n) = 8"
  by (simp add: sha_length_bytes_def)

lemma pad_zeros_short: "l \<le> 55 \<Longrightarrow> (119 - l) mod 64 = 55 - (l :: nat)"
proof -
  assume "l \<le> 55"
  then have "119 - l = (55 - l) + 64" by arith
  then have "(119 - l) mod 64 = (55 - l) mod 64" by (simp only: mod_add_self2)
  also have "\<dots> = 55 - l" by (rule mod_less) arith
  finally show ?thesis .
qed

lemma pad_zeros_long: "55 < l \<Longrightarrow> (119 - l) mod 64 = 119 - (l :: nat)"
  by (rule mod_less) arith

text \<open>The padded message is a whole number of blocks.\<close>

lemma length_sha_pad: "64 dvd length (sha_pad m)"
proof -
  define q r where "q = length m div 64" and "r = length m mod 64"
  have r: "r < 64" and m: "length m = 64 * q + r"
    by (simp_all add: q_def r_def)
  have len: "length (sha_pad m) = 64 * q + (r + (119 - r) mod 64 + 9)"
    by (simp add: sha_pad_def r_def [symmetric]) (simp add: m)
  show ?thesis
  proof (cases "r \<le> 55")
    case True
    then have "length (sha_pad m) = 64 * (q + 1)"
      by (simp add: len pad_zeros_short)
    then show ?thesis by simp
  next
    case False
    with r have "r + (119 - r) mod 64 + 9 = 128"
      using pad_zeros_long [of r] by linarith
    then have "length (sha_pad m) = 64 * (q + 2)"
      by (simp add: len)
    then show ?thesis by simp
  qed
qed

lemma sha_absorb_short: "length m < 64 \<Longrightarrow> sha_absorb st m = (st, m)"
  by (simp add: sha_absorb.simps)

lemma sha_absorb_block: "length b = 64 \<Longrightarrow> sha_absorb st (b @ m) = sha_absorb (sha_process_block st b) m"
  by (subst sha_absorb.simps) simp

section \<open>The invariant of the buffer\<close>

text \<open>\<open>sha_abs s m\<close>: the object \<open>s\<close> has absorbed the message \<open>m\<close>.\<close>

definition sha_abs :: "sha_hasher \<Rightarrow> byte list \<Rightarrow> bool" where [inv_defs]:
  "sha_abs s m \<longleftrightarrow>
     length (sha_buffer s) = 64 \<and> sha_buffer_length s \<le> 64 \<and>
     sha_buffer_length s mod 64 = length m mod 64 \<and>
     (\<forall>x. sha_absorb sha_iv (m @ x)
            = sha_absorb (sha_state s) (take (sha_buffer_length s) (sha_buffer s) @ x))"

lemma sha_abs_reset: "length (sha_buffer s) = 64 \<Longrightarrow> sha_abs (sha_reset s) []"
  by (simp add: sha_abs_def sha_reset_def)

lemma take_Suc_update: "n < length xs \<Longrightarrow> take (Suc n) (xs[n := b]) = take n xs @ [b]"
  by (simp add: take_Suc_conv_app_nth)

lemma sha_abs_put:
  assumes "sha_abs s m" and "sha_buffer_length s < 64"
  shows "sha_abs (sha_put b s) (m @ [b])"
  using assms by (auto simp: sha_abs_def sha_put_def take_Suc_update mod_Suc_eq intro: mod_Suc_eq)

lemma sha_abs_flush:
  assumes "sha_abs s m" and "sha_buffer_length s = 64"
  shows "sha_abs (sha_flush s) m"
  using assms by (auto simp: sha_abs_def sha_flush_def sha_absorb_block)

lemma sha_put_length [simp]: "sha_buffer_length (sha_put b s) = Suc (sha_buffer_length s)"
  by (simp add: sha_put_def)

lemma sha_flush_length [simp]: "sha_buffer_length (sha_flush s) = 0"
  by (simp add: sha_flush_def)

lemma sha_abs_push:
  assumes "sha_abs s m" and "sha_buffer_length s < 64"
  shows "sha_abs (sha_push s b) (m @ [b]) \<and> sha_buffer_length (sha_push s b) < 64"
  using sha_abs_put [OF assms, of b] sha_abs_flush [of "sha_put b s" "m @ [b]"] assms
  by (auto simp: sha_push_def Let_def)

lemma sha_abs_pushes:
  assumes "sha_abs s m" and "sha_buffer_length s < 64"
  shows "sha_abs (foldl sha_push s d) (m @ d) \<and> sha_buffer_length (foldl sha_push s d) < 64"
  using assms
proof (induction d arbitrary: s m)
  case (Cons b d)
  then show ?case
    using sha_abs_push [OF Cons.prems, of b] Cons.IH [of "sha_push s b" "m @ [b]"] by simp
qed simp

lemma sha_abs_puts:
  assumes "sha_abs s m" and "sha_buffer_length s + length d \<le> 64"
  shows "sha_abs (fold sha_put d s) (m @ d) \<and>
         sha_buffer_length (fold sha_put d s) = sha_buffer_length s + length d"
  using assms
proof (induction d arbitrary: s m)
  case (Cons b d)
  then show ?case
    using sha_abs_put [of s m b] Cons.IH [of "sha_put b s" "m @ [b]"] by simp
qed simp

lemma sha_pad_to_puts: "sha_pad_to n s = fold sha_put (replicate (n - sha_buffer_length s) 0) s"
proof (induction n s rule: sha_pad_to.induct)
  case (1 n s)
  then show ?case
    by (subst sha_pad_to.simps) (simp add: Suc_diff_Suc [symmetric] funpow_swap1)
qed

lemma sha_abs_pad_to:
  assumes "sha_abs s m" and "sha_buffer_length s \<le> n" and "n \<le> 64"
  shows "sha_abs (sha_pad_to n s) (m @ replicate (n - sha_buffer_length s) 0) \<and>
         sha_buffer_length (sha_pad_to n s) = n"
  using sha_abs_puts [OF assms(1), of "replicate (n - sha_buffer_length s) 0"] assms(2,3)
  by (simp add: sha_pad_to_puts)

lemma sha_abs_full:
  assumes "sha_abs s m" and "sha_buffer_length s = 64"
  shows "fst (sha_absorb sha_iv m) = sha_process_block (sha_state s) (sha_buffer s)"
proof -
  have len: "length (sha_buffer s) = 64"
    using assms by (simp add: sha_abs_def)
  have "sha_absorb sha_iv (m @ []) = sha_absorb (sha_state s) (take (sha_buffer_length s) (sha_buffer s) @ [])"
    using assms(1) unfolding sha_abs_def by blast
  then show ?thesis
    using len sha_absorb_block [OF len, of "sha_state s" "[]"] by (simp add: assms(2) sha_absorb_short)
qed

text \<open>The padding part of \<open>finish\<close>, before the length is appended.\<close>

lemma sha_abs_padded:
  assumes s: "sha_abs s m" and l: "sha_buffer_length s < 64"
    and s1: "s1 = sha_put 0x80 s"
    and s2: "s2 = (if sha_buffer_length s1 > 56 then sha_flush (sha_pad_to 64 s1) else s1)"
    and s3: "s3 = sha_pad_to 56 s2"
  shows "sha_abs s3 (m @ 0x80 # replicate ((119 - length m mod 64) mod 64) 0) \<and> sha_buffer_length s3 = 56"
proof -
  have lm: "sha_buffer_length s = length m mod 64"
    using s l by (simp add: sha_abs_def)
  have a1: "sha_abs s1 (m @ [0x80])" and l1: "sha_buffer_length s1 = Suc (length m mod 64)"
    using sha_abs_put [OF s l] lm by (simp_all add: s1)
  have le: "Suc (length m mod 64) \<le> 64"
    using l lm by simp
  show ?thesis
  proof (cases "56 < Suc (length m mod 64)")
    case True
    have p1: "sha_abs (sha_pad_to 64 s1) ((m @ [0x80]) @ replicate (64 - sha_buffer_length s1) 0)"
      "sha_buffer_length (sha_pad_to 64 s1) = 64"
      using sha_abs_pad_to [OF a1, of 64] le by (simp_all add: l1)
    then have p2: "sha_abs s2 ((m @ [0x80]) @ replicate (64 - sha_buffer_length s1) 0)" "sha_buffer_length s2 = 0"
      using True by (simp_all add: s2 l1 sha_abs_flush)
    have "sha_abs s3 (((m @ [0x80]) @ replicate (64 - sha_buffer_length s1) 0) @ replicate 56 0)"
      "sha_buffer_length s3 = 56"
      using sha_abs_pad_to [OF p2(1), of 56] p2(2) by (simp_all add: s3)
    moreover have "(119 - length m mod 64) mod 64 = (64 - sha_buffer_length s1) + 56"
      using True le pad_zeros_long [of "length m mod 64"] by (simp add: l1)
    ultimately show ?thesis
      by (simp add: replicate_add)
  next
    case False
    then have "sha_abs s3 ((m @ [0x80]) @ replicate (56 - sha_buffer_length s1) 0)"
      "sha_buffer_length s3 = 56"
      using sha_abs_pad_to [OF a1, of 56] by (simp_all add: s3 s2 l1)
    moreover have "(119 - length m mod 64) mod 64 = 56 - sha_buffer_length s1"
      using False pad_zeros_short [of "length m mod 64"] by (simp add: l1)
    ultimately show ?thesis by simp
  qed
qed

lemma sha_finish_abs:
  assumes s: "sha_abs s m" and l: "sha_buffer_length s < 64"
    and bl: "sha_bit_length s = of_nat (8 * length m)"
  shows "sha_finish s = (sha256_spec m, sha_reset (snd (sha_finish s))) \<and>
         length (sha_buffer (snd (sha_finish s))) = 64"
proof -
  define s1 where "s1 = sha_put 0x80 s"
  define s2 where "s2 = (if sha_buffer_length s1 > 56 then sha_flush (sha_pad_to 64 s1) else s1)"
  define s3 where "s3 = sha_pad_to 56 s2"
  define s4 where "s4 = fold sha_put (sha_length_bytes (of_nat (8 * length m))) s3"
  let ?p = "m @ 0x80 # replicate ((119 - length m mod 64) mod 64) 0"
  have p: "sha_abs s3 ?p" "sha_buffer_length s3 = 56"
    using sha_abs_padded [OF s l s1_def s2_def s3_def] by auto
  have "sha_abs s4 (?p @ sha_length_bytes (of_nat (8 * length m)))" "sha_buffer_length s4 = 64"
    using sha_abs_puts [OF p(1), of "sha_length_bytes (of_nat (8 * length m))"] p(2)
    by (simp_all only: s4_def length_sha_length_bytes)
  then have "sha_abs s4 (sha_pad m)" "sha_buffer_length s4 = 64"
    by (simp_all only: sha_pad_def append_assoc append_Cons)
  then have "sha256_spec m = sha_digest_bytes (sha_process_block (sha_state s4) (sha_buffer s4))"
    and "length (sha_buffer s4) = 64"
    using sha_abs_full [of s4 "sha_pad m"] by (simp_all add: sha256_spec_def) (simp add: sha_abs_def)
  moreover have "sha_finish s = (sha_digest_bytes (sha_process_block (sha_state s4) (sha_buffer s4)),
      sha_reset (s4\<lparr>sha_state := sha_process_block (sha_state s4) (sha_buffer s4)\<rparr>))"
    by (simp add: sha_finish_def Let_def bl s1_def s2_def s3_def s4_def)
  ultimately show ?thesis
    by (simp add: sha_reset_def)
qed

section \<open>The common class is an incremental digest\<close>

lemma sha_push_bit_length: "sha_push (s\<lparr>sha_bit_length := n\<rparr>) b = (sha_push s b)\<lparr>sha_bit_length := n\<rparr>"
  by (simp add: sha_push_def sha_put_def sha_flush_def Let_def)

lemma sha_pushes_bit_length:
  "foldl sha_push (s\<lparr>sha_bit_length := n\<rparr>) d = (foldl sha_push s d)\<lparr>sha_bit_length := n\<rparr>"
  by (induction d arbitrary: s) (simp_all add: sha_push_bit_length)

lemma sha_update_alt:
  "sha_update s d = (foldl sha_push s d)\<lparr>sha_bit_length := sha_bit_length s + of_nat (8 * length d)\<rparr>"
  by (simp add: sha_update_def sha_pushes_bit_length push_bit_eq_mult)

lemma sha_pushes_keep_bit_length: "sha_bit_length (foldl sha_push s d) = sha_bit_length s"
  by (induction d arbitrary: s) (simp_all add: sha_push_def sha_put_def sha_flush_def Let_def)

lemma sha_abs_bit_length: "sha_abs (s\<lparr>sha_bit_length := n\<rparr>) m = sha_abs s m"
  by (simp add: sha_abs_def)

text \<open>What every object of the class satisfies after any calls: it holds some absorbed message.\<close>

definition sha_holds :: "sha_hasher \<Rightarrow> byte list \<Rightarrow> bool" where [inv_defs]:
  "sha_holds s m \<longleftrightarrow>
     sha_abs s m \<and> sha_buffer_length s < 64 \<and> sha_bit_length s = of_nat (8 * length m)"

lemma sha_holds_reset: "length (sha_buffer s) = 64 \<Longrightarrow> sha_holds (sha_reset s) []"
  by (simp add: sha_holds_def sha_abs_reset) (simp add: sha_reset_def)

lemma sha_holds_new: "sha_holds sha_new []"
  by (simp add: sha_new_def sha_holds_reset)

lemma sha_holds_update: "sha_holds s m \<Longrightarrow> sha_holds (sha_update s d) (m @ d)"
  using sha_abs_pushes [of s m d]
  by (simp add: sha_holds_def sha_update_alt sha_abs_bit_length distrib_left)

lemma sha_finish_holds:
  assumes "sha_holds s m"
  shows "fst (sha_finish s) = sha256_spec m" and "sha_holds (snd (sha_finish s)) []"
proof -
  have f: "sha_finish s = (sha256_spec m, sha_reset (snd (sha_finish s)))"
    "length (sha_buffer (snd (sha_finish s))) = 64"
    using sha_finish_abs [of s m] assms by (simp_all add: sha_holds_def)
  show "fst (sha_finish s) = sha256_spec m"
    by (subst f(1)) simp
  show "sha_holds (snd (sha_finish s)) []"
    by (subst f(1)) (simp add: sha_holds_reset f(2))
qed

interpretation sha_stream: streaming_hash sha_new sha_update "fst \<circ> sha_finish" "\<lambda>s. \<exists>m. sha_holds s m"
proof
  show "\<exists>m. sha_holds sha_new m"
    using sha_holds_new by blast
  show "\<exists>m. sha_holds s m \<Longrightarrow> \<exists>m. sha_holds (sha_update s a) m" for s a
    using sha_holds_update by blast
  show "sha_update s [] = s" for s
    by (simp add: sha_update_alt)
  show "sha_update s (a @ b) = sha_update (sha_update s a) b" for s a b
    by (simp add: sha_update_alt sha_pushes_keep_bit_length sha_pushes_bit_length distrib_left ac_simps)
qed

section \<open>The client class refines the common one\<close>

lemma client_rotr_eq: "client_rotr = rotr"
  by (simp add: fun_eq_iff client_rotr_def rotr_def)

lemma client_sha_k_eq: "client_sha_k = sha_k"
  by (simp only: client_sha_k_def sha_k_def)

lemma client_schedule_eq: "client_schedule = sha_schedule"
proof -
  have "sha_load_word block = (\<lambda>i. push_bit 24 (ucast (block ! (i * 4)))
          OR push_bit 16 (ucast (block ! (i * 4 + 1))) OR push_bit 8 (ucast (block ! (i * 4 + 2)))
          OR ucast (block ! (i * 4 + 3)))" for block
    by (simp add: fun_eq_iff sha_load_word_def)
  moreover have "a + small_sigma0 x + b + small_sigma1 y = small_sigma1 y + b + small_sigma0 x + a" for a b x y
    by (simp add: ac_simps)
  ultimately show ?thesis
    by (intro ext) (simp only: client_schedule_def sha_schedule_def client_rotr_eq
        small_sigma0_def [symmetric] small_sigma1_def [symmetric] Let_def)
qed

lemma client_round_eq: "client_round = sha_round"
  by (intro ext) (simp only: client_round_def sha_round_def client_rotr_eq
      big_sigma0_def [symmetric] big_sigma1_def [symmetric] ch_def [symmetric] maj_def [symmetric] Let_def)

lemma client_transform_eq: "client_transform = sha_process_block"
  by (intro ext) (simp only: client_transform_def sha_process_block_def client_schedule_eq
      client_round_eq client_sha_k_eq)

text \<open>The refinement: the fields of a client object as an object of the common class.\<close>

definition sha_of_client :: "client_sha \<Rightarrow> sha_hasher" where
  "sha_of_client c = \<lparr>sha_state = cs_state c, sha_bit_length = cs_bit_count c,
                      sha_buffer = cs_buffer c, sha_buffer_length = cs_buffer_size c\<rparr>"

lemma sha_of_client_simps [simp]:
  "sha_state (sha_of_client c) = cs_state c" "sha_bit_length (sha_of_client c) = cs_bit_count c"
  "sha_buffer (sha_of_client c) = cs_buffer c" "sha_buffer_length (sha_of_client c) = cs_buffer_size c"
  by (simp_all add: sha_of_client_def)

lemma sha_of_client_put: "sha_of_client (client_put b c) = sha_put b (sha_of_client c)"
  by (simp add: sha_of_client_def client_put_def sha_put_def)

lemma sha_of_client_flush: "sha_of_client (client_flush c) = sha_flush (sha_of_client c)"
  by (simp add: sha_of_client_def client_flush_def sha_flush_def client_transform_eq)

lemma sha_of_client_puts: "sha_of_client (fold client_put d c) = fold sha_put d (sha_of_client c)"
  by (induction d arbitrary: c) (simp_all add: sha_of_client_put)

lemma sha_of_client_pad_to: "sha_of_client (client_pad_to n c) = sha_pad_to n (sha_of_client c)"
proof (induction n c rule: client_pad_to.induct)
  case (1 n c)
  then show ?case
    by (subst client_pad_to.simps, subst sha_pad_to.simps) (simp add: sha_of_client_put)
qed

lemma sha_of_client_transform:
  "sha_of_client (c\<lparr>cs_state := client_transform (cs_state c) (cs_buffer c)\<rparr>)
     = (sha_of_client c)\<lparr>sha_state := sha_process_block (cs_state c) (cs_buffer c)\<rparr>"
  by (simp add: sha_of_client_def client_transform_eq)

text \<open>A run copied with \<open>memcpy\<close> is the same as its bytes put one after the other.\<close>

lemma sha_puts_as_copy:
  "sha_buffer_length s + length d \<le> length (sha_buffer s) \<Longrightarrow>
     fold sha_put d s = s\<lparr>sha_buffer := take (sha_buffer_length s) (sha_buffer s) @ d
                            @ drop (sha_buffer_length s + length d) (sha_buffer s),
                          sha_buffer_length := sha_buffer_length s + length d\<rparr>"
proof (induction d arbitrary: s)
  case (Cons b d)
  then show ?case
    by (simp add: sha_put_def take_Suc_update drop_update_cancel)
qed simp

lemma sha_of_client_copy:
  "cs_buffer_size c + length d \<le> length (cs_buffer c) \<Longrightarrow>
     sha_of_client (client_copy c d) = fold sha_put d (sha_of_client c)"
  by (simp add: sha_puts_as_copy) (simp add: sha_of_client_def client_copy_def)

lemma sha_pushes_as_puts:
  "d \<noteq> [] \<Longrightarrow> sha_buffer_length s + length d \<le> 64 \<Longrightarrow>
     foldl sha_push s d =
       (if sha_buffer_length s + length d = 64 then sha_flush (fold sha_put d s) else fold sha_put d s)"
proof (induction d arbitrary: s)
  case (Cons b d)
  then show ?case
    by (cases "d = []") (auto simp: sha_push_def Let_def)
qed simp

lemma fold_put_length [simp]: "sha_buffer_length (fold sha_put d s) = sha_buffer_length s + length d"
  by (induction d arbitrary: s) simp_all

text \<open>The copy loop ends, whatever the fill level below 64, and refines the byte-wise update.\<close>

lemma client_copy_loop_refines:
  assumes "length (cs_buffer c) = 64" and "cs_buffer_size c < 64"
  shows "\<exists>c'. client_copy_loop c d = Some c' \<and> sha_of_client c' = foldl sha_push (sha_of_client c) d
              \<and> cs_finalized c' = cs_finalized c"
  using assms
proof (induction "length d" arbitrary: c d rule: less_induct)
  case less
  show ?case
  proof (cases "d = []")
    case True
    then show ?thesis by (subst client_copy_loop.simps) simp
  next
    case False
    define k where "k = min (length d) (64 - cs_buffer_size c)"
    define c1 where "c1 = client_copy c (take k d)"
    define c2 where "c2 = (if cs_buffer_size c1 = 64 then client_flush c1 else c1)"
    have k: "0 < k" "k \<le> length d" "cs_buffer_size c + k \<le> 64"
      using False less.prems by (auto simp: k_def)
    then have run: "take k d \<noteq> []" "length (take k d) = k"
      using False by auto
    have c1: "sha_of_client c1 = fold sha_put (take k d) (sha_of_client c)"
      using k less.prems by (simp add: c1_def sha_of_client_copy)
    have len1: "length (cs_buffer c1) = 64" "cs_buffer_size c1 = cs_buffer_size c + k"
      "cs_finalized c1 = cs_finalized c"
      using k less.prems by (simp_all add: c1_def client_copy_def)
    have c2: "sha_of_client c2 = foldl sha_push (sha_of_client c) (take k d)"
      using sha_pushes_as_puts [of "take k d" "sha_of_client c"] run k
      by (simp add: c2_def sha_of_client_flush c1 len1)
    have len2: "length (cs_buffer c2) = 64" "cs_buffer_size c2 < 64" "cs_finalized c2 = cs_finalized c"
      using k len1 by (auto simp: c2_def client_flush_def)
    have "client_copy_loop c d = client_copy_loop c2 (drop k d)"
      using False less.prems len1
      by (subst client_copy_loop.simps) (simp add: Let_def k_def [symmetric] c1_def [symmetric] c2_def)
    moreover have "length (drop k d) < length d"
      using k by simp
    ultimately obtain c' where "client_copy_loop c d = Some c'"
        "sha_of_client c' = foldl sha_push (sha_of_client c2) (drop k d)" "cs_finalized c' = cs_finalized c"
      using less.hyps [of "drop k d" c2] len2 by auto
    then show ?thesis
      by (simp add: c2 foldl_append [symmetric] del: foldl_append)
  qed
qed

definition client_holds :: "client_sha \<Rightarrow> byte list \<Rightarrow> bool" where [inv_defs]:
  "client_holds c m \<longleftrightarrow> sha_holds (sha_of_client c) m \<and> \<not> cs_finalized c"

lemma client_holds_new: "client_holds client_sha_new []"
proof -
  have "sha_of_client client_sha_new = sha_new"
    by (simp add: sha_of_client_def client_sha_new_def sha_new_def sha_reset_def)
  then show ?thesis
    by (simp add: client_holds_def sha_holds_new) (simp add: client_sha_new_def)
qed

lemma client_update_refines:
  assumes "client_holds c m"
  shows "\<exists>c'. client_sha_update c d = Some (Inr c') \<and> client_holds c' (m @ d)
              \<and> sha_of_client c' = sha_update (sha_of_client c) d"
proof -
  let ?c = "c\<lparr>cs_bit_count := cs_bit_count c + of_nat (length d) * 8\<rparr>"
  have f: "\<not> cs_finalized c" and h: "sha_holds (sha_of_client c) m"
    using assms by (simp_all add: client_holds_def)
  have "length (cs_buffer ?c) = 64" "cs_buffer_size ?c < 64"
    using h by (simp_all add: sha_holds_def sha_abs_def)
  then obtain c' where c': "client_copy_loop ?c d = Some c'"
      "sha_of_client c' = foldl sha_push (sha_of_client ?c) d" "\<not> cs_finalized c'"
    using client_copy_loop_refines [of ?c d] f by auto
  have bl: "sha_of_client ?c = (sha_of_client c)\<lparr>sha_bit_length := cs_bit_count c + of_nat (8 * length d)\<rparr>"
    by (simp add: sha_of_client_def mult.commute)
  have "sha_of_client c' = sha_update (sha_of_client c) d"
    unfolding c'(2) bl by (simp add: sha_pushes_bit_length sha_update_alt)
  then show ?thesis
    using c' f sha_holds_update [OF h, of d] by (simp add: client_sha_update_def client_holds_def)
qed

lemma sha_pad_to_bit_length: "sha_bit_length (sha_pad_to n s) = sha_bit_length s"
proof -
  have "sha_bit_length (fold sha_put d s) = sha_bit_length s" for d
    by (induction d arbitrary: s) (simp_all add: sha_put_def)
  then show ?thesis
    by (simp only: sha_pad_to_puts)
qed

lemma client_digest:
  assumes f: "\<not> cs_finalized c"
  shows "fst (client_finalize c) = fst (sha_finish (sha_of_client c))"
proof -
  define c1 where "c1 = client_put 0x80 (c\<lparr>cs_finalized := True\<rparr>)"
  define c2 where "c2 = (if cs_buffer_size c1 > 56 then client_flush (client_pad_to 64 c1) else c1)"
  define c3 where "c3 = client_pad_to 56 c2"
  define s1 where "s1 = sha_put 0x80 (sha_of_client c)"
  define s2 where "s2 = (if sha_buffer_length s1 > 56 then sha_flush (sha_pad_to 64 s1) else s1)"
  define s3 where "s3 = sha_pad_to 56 s2"
  define bytes where "bytes = sha_length_bytes (cs_bit_count c)"
  have s1: "s1 = sha_of_client c1"
    by (simp add: s1_def c1_def sha_of_client_put) (simp add: sha_of_client_def)
  have s2: "s2 = sha_of_client c2"
    by (simp add: s2_def s1 c2_def sha_of_client_flush sha_of_client_pad_to)
  have s3: "s3 = sha_of_client c3"
    by (simp add: s3_def s2 c3_def sha_of_client_pad_to)
  have "sha_bit_length s3 = cs_bit_count c"
    by (simp add: s3_def s2_def s1_def sha_pad_to_bit_length sha_flush_def) (simp add: sha_put_def)
  then have bc: "cs_bit_count c3 = cs_bit_count c"
    by (simp add: s3)
  have map_bytes: "map (\<lambda>i. ucast (drop_bit (i * 8) n AND 0xFF)) (rev [0..<8]) = sha_length_bytes n" for n :: u64
    by (simp add: sha_length_bytes_def upt_rec)
  have "fst (client_finalize c) = sha_digest_bytes
      (client_transform (cs_state (fold client_put bytes c3)) (cs_buffer (fold client_put bytes c3)))"
    using f bc by (simp add: client_finalize_def Let_def c1_def [symmetric] c2_def [symmetric]
        c3_def [symmetric] map_bytes bytes_def)
  moreover have "fst (sha_finish (sha_of_client c)) = sha_digest_bytes
      (sha_process_block (sha_state (fold sha_put bytes s3)) (sha_buffer (fold sha_put bytes s3)))"
    by (simp add: sha_finish_def Let_def s1_def [symmetric] s2_def [symmetric] s3_def [symmetric] bytes_def)
  ultimately show ?thesis
    by (simp add: s3 sha_of_client_puts [symmetric] client_transform_eq)
qed

lemma client_finalize_finalized:
  "cs_finalized c \<Longrightarrow> client_finalize c = (sha_digest_bytes (cs_state c), c)"
  by (simp add: client_finalize_def)

lemma client_put_finalized [simp]: "cs_finalized (client_put b c) = cs_finalized c"
  by (simp add: client_put_def)

lemma client_puts_finalized [simp]: "cs_finalized (fold client_put d c) = cs_finalized c"
  by (induction d arbitrary: c) simp_all

lemma client_pad_to_finalized [simp]: "cs_finalized (client_pad_to n c) = cs_finalized c"
proof (induction n c rule: client_pad_to.induct)
  case (1 n c)
  then show ?case by (subst client_pad_to.simps) simp
qed

lemma client_finalize_state:
  "cs_finalized (snd (client_finalize c)) \<and>
   fst (client_finalize c) = sha_digest_bytes (cs_state (snd (client_finalize c)))"
  by (simp add: client_finalize_def Let_def client_flush_def)

section \<open>Properties\<close>

text \<open>C30. The digest of the common class is SHA-256 with the padding and the blocking of the standard,
  for a message given in any sequence of \<open>update\<close> calls, after any earlier use of the object; the
  object is ready for the next message afterwards.\<close>

theorem sha256_common_correct:
  assumes "sha_holds s m"
  shows "fst (sha_finish (foldl sha_update (sha_reset s) blocks)) = sha256_spec (concat blocks) \<and>
         sha_holds (snd (sha_finish (foldl sha_update (sha_reset s) blocks))) []"
proof -
  have r: "sha_holds (sha_reset s) []"
    by (rule sha_holds_reset) (use assms in \<open>simp add: sha_holds_def sha_abs_def\<close>)
  have "foldl sha_update (sha_reset s) blocks = sha_update (sha_reset s) (concat blocks)"
    by (rule sha_stream.foldl_upd) (use r in blast)
  then show ?thesis
    using sha_holds_update [OF r, of "concat blocks"] sha_finish_holds by simp
qed

theorem sha256_common_correct_witness:
  "fst (sha_finish (foldl sha_update (sha_reset sha_new) [[1, 2], [], [3]])) = sha256_spec [1, 2, 3]"
  using sha256_common_correct [OF sha_holds_new, of "[[1, 2], [], [3]]"] by simp

fun client_updates :: "client_sha \<Rightarrow> byte list list \<Rightarrow> client_sha res option" where
  "client_updates c [] = Some (Inr c)"
| "client_updates c (d # ds) = (case client_sha_update c d of
       None \<Rightarrow> None
     | Some (Inl e) \<Rightarrow> Some (Inl e)
     | Some (Inr c') \<Rightarrow> client_updates c' ds)"

lemma client_updates_holds:
  "client_holds c m \<Longrightarrow> \<exists>c'. client_updates c ds = Some (Inr c') \<and> client_holds c' (m @ concat ds)"
proof (induction ds arbitrary: c m)
  case (Cons d ds)
  obtain c1 where "client_sha_update c d = Some (Inr c1)" "client_holds c1 (m @ d)"
    using client_update_refines [OF Cons.prems, of d] by auto
  then show ?case
    using Cons.IH [of c1 "m @ d"] by simp
qed simp

lemma client_finalize_spec: "client_holds c m \<Longrightarrow> fst (client_finalize c) = sha256_spec m"
  by (simp add: client_holds_def client_digest sha_finish_holds)

lemma sha256_eq_spec: "sha256 m = sha256_spec m"
  using sha_finish_holds(1) [OF sha_holds_update [OF sha_holds_reset, of sha_new m]]
  by (simp add: sha256_def sha_digest_def sha_new_def) (simp add: sha_reset_def)

text \<open>C29. The digest a client object computes for a message given in any sequence of \<open>update\<close> calls is
  the digest of the server's class (so both sides of the relay agree on a file's hash); no call
  fails or loops, and asking for the digest again returns it again.\<close>

theorem client_sha_agrees_with_server:
  "\<exists>c. client_updates client_sha_new blocks = Some (Inr c) \<and>
       fst (client_finalize c) = sha256 (concat blocks) \<and>
       client_finalize (snd (client_finalize c)) = client_finalize c"
proof -
  obtain c where c: "client_updates client_sha_new blocks = Some (Inr c)" "client_holds c (concat blocks)"
    using client_updates_holds [OF client_holds_new, of blocks] by auto
  moreover have "client_finalize (snd (client_finalize c)) = client_finalize c"
    using client_finalize_state [of c] by (simp add: client_finalize_finalized prod_eq_iff)
  ultimately show ?thesis
    by (auto simp: client_finalize_spec sha256_eq_spec)
qed

text \<open>After the digest was taken, more data is refused with the exception of the code.\<close>

lemma client_update_after_finalize:
  "client_sha_update (snd (client_finalize c)) d
     = Some (Inl (LogicError ''Sha256::update called after finalize''))"
  using client_finalize_state [of c] by (simp add: client_sha_update_def)

end
