(* ===== verification/Compressor.thy ===== *)
theory Compressor
  imports Sha256 Assembler Byte_Codec
begin

text \<open>
  The producer side of the client: \<^verbatim>\<open>Client/src/compressor.hpp\<close> (hash and compress a file) and
  \<^verbatim>\<open>Client/src/chunker.hpp\<close> (cut the compressed data). The zstd encoder is a parameter, \<open>zstd_c\<close>, whose
  documented behaviour is \<open>zc_law\<close>. The lemmas show that the loops end, that the hash is the one of
  the file, that the output is a frame of the file, and that the chunks are its consecutive pieces
  with the right numbers; with the server's decoder the data comes back.
\<close>

section \<open>The zstd encoder\<close>

record 'z zstd_c =
  zc_create :: "'z option"
  zc_init :: "int \<Rightarrow> 'z \<Rightarrow> zret \<times> 'z"
  zc_continue :: "nat \<Rightarrow> byte list \<Rightarrow> 'z \<Rightarrow> (byte list \<times> nat \<times> zret) \<times> 'z"
  zc_end :: "nat \<Rightarrow> 'z \<Rightarrow> (byte list \<times> zret) \<times> 'z"
  zc_error_name :: string

text \<open>
  \<open>r z fed out\<close>: the encoder has been given \<open>fed\<close> and has delivered \<open>out\<close>; \<open>e z fed out\<close>: it is
  finishing. A call with input makes progress (it consumes some, or it flushes some of a finite
  amount of pending output, \<open>p\<close>); a call of \<open>ZSTD_e_end\<close> returns 0 exactly when the output is a complete
  frame of what was fed, and otherwise has flushed some.
\<close>

definition zc_law ::
    "'z zstd_c \<Rightarrow> ('z \<Rightarrow> byte list \<Rightarrow> byte list \<Rightarrow> bool) \<Rightarrow> ('z \<Rightarrow> byte list \<Rightarrow> byte list \<Rightarrow> bool) \<Rightarrow>
     ('z \<Rightarrow> nat) \<Rightarrow> (byte list \<Rightarrow> byte list \<Rightarrow> bool) \<Rightarrow> bool" where
  "zc_law c r e p frame \<longleftrightarrow>
     (\<forall>z fed out inp n o1 k ret z'.
        r z fed out \<and> inp \<noteq> [] \<and> zc_continue c n inp z = ((o1, k, ret), z') \<longrightarrow>
        k \<le> length inp \<and> (\<exists>m. ret = ZRet m) \<and> r z' (fed @ take k inp) (out @ o1) \<and> (k = 0 \<longrightarrow> p z' < p z)) \<and>
     (\<forall>z fed out n o1 ret z'.
        (r z fed out \<or> e z fed out) \<and> zc_end c n z = ((o1, ret), z') \<longrightarrow>
        (\<exists>m. ret = ZRet m \<and> (m = 0 \<longrightarrow> frame fed (out @ o1)) \<and>
             (m \<noteq> 0 \<longrightarrow> e z' fed (out @ o1) \<and> p z' < p z)))"

definition encodes :: "'z zstd_c \<Rightarrow> int \<Rightarrow> (byte list \<Rightarrow> byte list \<Rightarrow> bool) \<Rightarrow> bool" where
  "encodes c level frame \<longleftrightarrow>
     (\<exists>z r e p m z0. zc_create c = Some z0 \<and> zc_init c level z0 = (ZRet m, z) \<and> r z [] [] \<and> zc_law c r e p frame)"

section \<open>Compressing a file\<close>

record file_descriptor =
  fd_path :: string
  fd_size :: nat
  fd_time :: int

record compressed_file =
  cf_descriptor :: file_descriptor
  cf_sha256_hex :: string
  cf_data :: "byte list"

definition hex_chars :: string where
  "hex_chars = ''0123456789abcdef''"

definition to_hex :: "byte list \<Rightarrow> string" where
  "to_hex digest =
     concat (map (\<lambda>b. [hex_chars ! unat (drop_bit 4 b AND 0x0f), hex_chars ! unat (b AND 0x0f)]) digest)"

text \<open>The loop that feeds one input block to the encoder; \<open>input\<close> is what lies behind \<open>in.pos\<close>.\<close>

partial_function (option) compress_block ::
    "'z zstd_c \<Rightarrow> byte list \<Rightarrow> 'z \<Rightarrow> byte list \<Rightarrow> ('z \<times> byte list) res option" where
  "compress_block c input z compressed =
     (if input = [] then Some (Inr (z, compressed))
      else let ((out, pos, ret), z) = zc_continue c 32768 input z
           in case ret of
                ZError \<Rightarrow> Some (Inl (RuntimeError (''ZSTD_compressStream2 failed: '' @ zc_error_name c)))
              | ZRet _ \<Rightarrow> compress_block c (drop pos input) z (compressed @ out))"

text \<open>
  The loop over the file: \<open>content\<close> is what the stream still delivers; afterwards a read reports the
  end of the file, or an error when \<open>bad\<close>. A short read leaves the stream not good.
\<close>

partial_function (option) compress_file ::
    "'z zstd_c \<Rightarrow> byte list \<Rightarrow> client_sha \<Rightarrow> 'z \<Rightarrow> byte list \<Rightarrow> (client_sha \<times> 'z \<times> byte list) res option" where
  "compress_file c content sha z compressed =
     (let block = take 32768 content
      in case (if block = [] then Some (Inr sha) else client_sha_update sha block) of
           None \<Rightarrow> None
         | Some (Inl e) \<Rightarrow> Some (Inl e)
         | Some (Inr sha) \<Rightarrow>
             (case compress_block c block z compressed of
                None \<Rightarrow> None
              | Some (Inl e) \<Rightarrow> Some (Inl e)
              | Some (Inr (z, compressed)) \<Rightarrow>
                  if length block < 32768 then Some (Inr (sha, z, compressed))
                  else compress_file c (drop 32768 content) sha z compressed))"

partial_function (option) finish_frame :: "'z zstd_c \<Rightarrow> 'z \<Rightarrow> byte list \<Rightarrow> byte list res option" where
  "finish_frame c z compressed =
     (let ((out, ret), z) = zc_end c 32768 z
      in case ret of
           ZError \<Rightarrow> Some (Inl (RuntimeError (''ZSTD_compressStream2 final flush failed: '' @ zc_error_name c)))
         | ZRet remaining \<Rightarrow>
             if remaining \<noteq> 0 then finish_frame c z (compressed @ out) else Some (Inr (compressed @ out)))"

text \<open>\<open>file\<close> is \<open>None\<close> when it cannot be opened.\<close>

definition compress_operator ::
    "'z zstd_c \<Rightarrow> int \<Rightarrow> (byte list \<times> bool) option \<Rightarrow> file_descriptor \<Rightarrow> compressed_file res option" where
  "compress_operator c level file fd =
     (case file of
        None \<Rightarrow> Some (Inl (RuntimeError (''Failed to open file for compression: '' @ fd_path fd)))
      | Some (content, bad) \<Rightarrow>
          (case zc_create c of
             None \<Rightarrow> Some (Inl (RuntimeError ''Failed to create ZSTD_CStream''))
           | Some z \<Rightarrow>
               (case zc_init c level z of
                  (ZError, z) \<Rightarrow> Some (Inl (RuntimeError (''ZSTD_initCStream failed: '' @ zc_error_name c)))
                | (ZRet _, z) \<Rightarrow>
                    (case compress_file c content client_sha_new z [] of
                       None \<Rightarrow> None
                     | Some (Inl e) \<Rightarrow> Some (Inl e)
                     | Some (Inr (sha, z, compressed)) \<Rightarrow>
                         if bad then Some (Inl (RuntimeError (''Failed while reading file for compression: '' @ fd_path fd)))
                         else (case finish_frame c z compressed of
                                 None \<Rightarrow> None
                               | Some (Inl e) \<Rightarrow> Some (Inl e)
                               | Some (Inr compressed) \<Rightarrow>
                                   Some (Inr \<lparr>cf_descriptor = fd, cf_sha256_hex = to_hex (fst (client_finalize sha)),
                                              cf_data = compressed\<rparr>))))))"

section \<open>Cutting into chunks\<close>

record file_chunk =
  ch_descriptor :: file_descriptor
  ch_sha256_hex :: string
  ch_index :: nat
  ch_total_chunks :: nat
  ch_payload :: "byte list"

text \<open>Arithmetic on \<open>std::size_t\<close>.\<close>

definition size_sub :: "nat \<Rightarrow> nat \<Rightarrow> nat" where
  "size_sub a b = (a + (2 ^ 64 - b)) mod 2 ^ 64"

definition size_mul :: "nat \<Rightarrow> nat \<Rightarrow> nat" where
  "size_mul a b = (a * b) mod 2 ^ 64"

definition chunk_operator :: "nat \<Rightarrow> compressed_file \<Rightarrow> file_chunk list res" where
  "chunk_operator payload_size file =
     (if cf_data file = [] then Inr []
      else if payload_size = 0 then Inl (UB ''division by zero'')
      else
        let data = cf_data file;
            total_chunks = size_sub (size_add (length data) payload_size) 1 div payload_size
        in Inr (map (\<lambda>index.
             let offset = size_mul index payload_size;
                 sz = min payload_size (size_sub (length data) offset)
             in \<lparr>ch_descriptor = cf_descriptor file, ch_sha256_hex = cf_sha256_hex file, ch_index = index,
                 ch_total_chunks = total_chunks, ch_payload = take sz (drop offset data)\<rparr>)
             [0..<total_chunks]))"

section \<open>Lemmas on the encoder loops\<close>

lemma compress_block_law:
  assumes "zc_law c r e p frame" and "r z fed out"
  shows "\<exists>z' out'. compress_block c inp z out = Some (Inr (z', out')) \<and> r z' (fed @ inp) out'"
  using assms(2)
proof (induction "(length inp, p z)" arbitrary: inp z fed out rule: wf_induct_rule [OF wf_lex_prod [OF wf_less wf_less]])
  case 1
  note IH = 1(1) and r = 1(2)
  show ?case
  proof (cases "inp = []")
    case True
    then show ?thesis
      using r by (subst compress_block.simps) simp
  next
    case False
    obtain o1 k ret z1 where st: "zc_continue c 32768 inp z = ((o1, k, ret), z1)"
      by (metis prod_cases3 surj_pair)
    then obtain m where l: "k \<le> length inp" "ret = ZRet m" "r z1 (fed @ take k inp) (out @ o1)" "k = 0 \<longrightarrow> p z1 < p z"
      using assms(1) r False unfolding zc_law_def by blast
    have "((length (drop k inp), p z1), (length inp, p z)) \<in> {(x, y). x < y} <*lex*> {(x, y). x < y}"
      using l(1,4) by (cases k) auto
    then obtain z' out' where "compress_block c (drop k inp) z1 (out @ o1) = Some (Inr (z', out'))"
        "r z' ((fed @ take k inp) @ drop k inp) out'"
      using IH [OF _ l(3)] by blast
    then show ?thesis
      using st l(2) False by (subst compress_block.simps) simp
  qed
qed

lemma finish_frame_law:
  assumes "zc_law c r e p frame" and "r z fed out \<or> e z fed out"
  shows "\<exists>out'. finish_frame c z out = Some (Inr out') \<and> frame fed out'"
  using assms(2)
proof (induction "p z" arbitrary: z out rule: less_induct)
  case less
  obtain o1 ret z1 where st: "zc_end c 32768 z = ((o1, ret), z1)"
    by (metis surj_pair)
  then obtain m where l: "ret = ZRet m" "m = 0 \<longrightarrow> frame fed (out @ o1)" "m \<noteq> 0 \<longrightarrow> e z1 fed (out @ o1) \<and> p z1 < p z"
    using assms(1) less.prems unfolding zc_law_def by blast
  show ?case
  proof (cases "m = 0")
    case True
    then show ?thesis using st l by (subst finish_frame.simps) simp
  next
    case False
    then show ?thesis
      using st l less.hyps [of z1 "out @ o1"] by (subst finish_frame.simps) simp
  qed
qed

lemma compress_file_law:
  assumes "zc_law c r e p frame" and "r z fed out" and "client_holds sha fed"
  shows "\<exists>sha' z' out'. compress_file c content sha z out = Some (Inr (sha', z', out')) \<and>
           r z' (fed @ content) out' \<and> client_holds sha' (fed @ content)"
  using assms(2,3)
proof (induction "length content" arbitrary: content sha z fed out rule: less_induct)
  case less
  let ?b = "take 32768 content"
  obtain sha1 where s: "(if ?b = [] then Some (Inr sha) else client_sha_update sha ?b) = Some (Inr sha1)"
      "client_holds sha1 (fed @ ?b)"
    using client_update_refines [OF less.prems(2), of ?b] less.prems(2) by (cases "?b = []") auto
  obtain z1 out1 where b: "compress_block c ?b z out = Some (Inr (z1, out1))" "r z1 (fed @ ?b) out1"
    using compress_block_law [OF assms(1) less.prems(1), of ?b] by blast
  show ?case
  proof (cases "length ?b < 32768")
    case True
    then have "?b = content" by simp
    then show ?thesis
      using s b True by (subst compress_file.simps) (simp only: Let_def option.case sum.case prod.case if_True, simp)
  next
    case False
    then have "length (drop 32768 content) < length content" by simp
    from less.hyps [OF this b(2) s(2)]
    obtain sha' z' out' where "compress_file c (drop 32768 content) sha1 z1 out1 = Some (Inr (sha', z', out'))"
        "r z' (fed @ content) out'" "client_holds sha' (fed @ content)"
      by (metis append.assoc append_take_drop_id)
    then show ?thesis
      using s b False by (subst compress_file.simps) (simp only: Let_def option.case sum.case prod.case if_False, simp)
  qed
qed

lemma compress_operator_law:
  assumes "encodes c level frame"
  obtains f where "compress_operator c level (Some (data, False)) fd = Some (Inr f)" "frame data (cf_data f)"
    "cf_sha256_hex f = to_hex (sha256 data)" "cf_descriptor f = fd"
proof -
  obtain z r e p m z0 where e: "zc_create c = Some z0" "zc_init c level z0 = (ZRet m, z)" "r z [] []" "zc_law c r e p frame"
    using assms by (auto simp: encodes_def)
  obtain sha z1 out1 where f: "compress_file c data client_sha_new z [] = Some (Inr (sha, z1, out1))"
      "r z1 data out1" "client_holds sha data"
    using compress_file_law [OF e(4,3) client_holds_new, of data] by auto
  obtain out2 where g: "finish_frame c z1 out1 = Some (Inr out2)" "frame data out2"
    using finish_frame_law [OF e(4), of z1 data out1] f(2) by blast
  have "fst (client_finalize sha) = sha256 data"
    using client_finalize_spec [OF f(3)] by (simp add: sha256_eq_spec)
  then show thesis
    using e(1,2) f(1) g
    by (intro that [of "\<lparr>cf_descriptor = fd, cf_sha256_hex = to_hex (sha256 data), cf_data = out2\<rparr>"])
       (simp_all add: compress_operator_def)
qed

section \<open>Lemmas on the chunks\<close>

lemma concat_slices: "concat (map (\<lambda>i. take k (drop (i * k) xs)) [0..<n]) = take (n * k) xs"
proof (induction n)
  case (Suc n)
  have "take (Suc n * k) xs = take (n * k + k) xs" by (simp add: add.commute)
  then show ?case using Suc by (simp only: take_add) simp
qed simp

lemma chunk_count_bounds:
  assumes "0 < (k :: nat)" and "0 < l"
  shows "(l + k - 1) div k * k \<ge> l" and "((l + k - 1) div k - 1) * k < l" and "0 < (l + k - 1) div k"
proof -
  obtain q r where qr: "l + k - 1 = q * k + r" "r < k"
    using assms(1) div_mult_mod_eq [of "l + k - 1" k] mod_less_divisor [of k "l + k - 1"] by metis
  then have q: "(l + k - 1) div k = q"
    by simp
  show "0 < (l + k - 1) div k"
    unfolding q using qr assms by (cases q) auto
  then obtain q' where "q = Suc q'" unfolding q by (cases q) auto
  then show "(l + k - 1) div k * k \<ge> l" "((l + k - 1) div k - 1) * k < l"
    unfolding q using qr assms by auto
qed

lemma size_sub_small: "b \<le> a \<Longrightarrow> a < 2 ^ 64 \<Longrightarrow> size_sub a b = a - b"
proof -
  assume "b \<le> a" "a < 2 ^ 64"
  then have "a + (2 ^ 64 - b) = (a - b) + 2 ^ 64" and "a - b < 2 ^ 64" by auto
  then show ?thesis unfolding size_sub_def by simp
qed

lemma chunk_total:
  assumes "0 < k" and "0 < l" and "l + k \<le> 2 ^ 64"
  shows "size_sub (size_add l k) 1 div k = (l + k - 1) div k"
proof -
  have "size_sub (size_add l k) 1 = l + k - 1"
  proof (cases "l + k = 2 ^ 64")
    case True
    then have "size_add l k = 0" by (simp add: size_add_def)
    then show ?thesis using True by (simp add: size_sub_def)
  next
    case False
    then have "size_add l k = l + k" using assms by (simp add: size_add_def)
    then show ?thesis using size_sub_small [of 1 "l + k"] assms False by simp
  qed
  then show ?thesis by simp
qed

text \<open>The list of chunks, with the arithmetic on \<open>std::size_t\<close> resolved.\<close>

lemma chunk_operator_eq:
  assumes "0 < k" and "cf_data f \<noteq> []" and "length (cf_data f) + k \<le> 2 ^ 64"
  shows "chunk_operator k f = Inr (map (\<lambda>i.
     \<lparr>ch_descriptor = cf_descriptor f, ch_sha256_hex = cf_sha256_hex f, ch_index = i,
      ch_total_chunks = (length (cf_data f) + k - 1) div k, ch_payload = take k (drop (i * k) (cf_data f))\<rparr>)
     [0..<(length (cf_data f) + k - 1) div k])"
proof -
  let ?l = "length (cf_data f)"
  have l: "0 < ?l" using assms(2) by simp
  note b = chunk_count_bounds [OF assms(1) l]
  have "size_mul i k = i * k \<and> take (min k (size_sub ?l (i * k))) (drop (i * k) (cf_data f))
      = take k (drop (i * k) (cf_data f))" if "i < (?l + k - 1) div k" for i
  proof -
    have "i \<le> (?l + k - 1) div k - 1" using that by simp
    then have "i * k \<le> ((?l + k - 1) div k - 1) * k" by (rule mult_le_mono1)
    then have "i * k < ?l" using b(2) by (rule le_less_trans)
    moreover have "?l < 2 ^ 64" using assms by simp
    ultimately show ?thesis
      using size_sub_small [of "i * k" ?l] by (simp add: size_mul_def min_def)
  qed
  then show ?thesis
    using assms(1,2) by (simp add: chunk_operator_def chunk_total [OF assms(1) l assms(3), simplified] Let_def)
qed

section \<open>An instance of the encoder's law\<close>

definition toy_encoder :: "unit zstd_c" where
  "toy_encoder = \<lparr>zc_create = Some (), zc_init = (\<lambda>_ z. (ZRet 0, z)),
     zc_continue = (\<lambda>_ inp z. (([1, hd inp], 1, ZRet 0), z)), zc_end = (\<lambda>_ z. (([0], ZRet 0), z)),
     zc_error_name = ''error''\<rparr>"

lemma toy_encodes: "encodes toy_encoder level (\<lambda>d f. f = toy_frame d)"
proof -
  have h: "inp \<noteq> [] \<Longrightarrow> take 1 inp = [hd inp]" for inp :: "byte list"
    by (cases inp) auto
  have "zc_law toy_encoder (\<lambda>_ fed out. out = concat (map (\<lambda>b. [1, b]) fed)) (\<lambda>_ _ _. False) (\<lambda>_. 0) (\<lambda>d f. f = toy_frame d)"
    by (auto simp: zc_law_def toy_encoder_def toy_frame_def Suc_le_eq h [simplified])
  then show ?thesis
    unfolding encodes_def by (intro exI conjI) (auto simp: toy_encoder_def)
qed

section \<open>Properties\<close>

text \<open>C28. Compressing a readable file always ends and gives a complete frame of exactly the file's contents,
  tagged with the hexadecimal SHA-256 of the contents as the server's library computes it, whatever
  block boundaries and flushes the encoder chooses.\<close>

theorem compress_operator_correct:
  assumes "encodes c level frame"
  shows "\<exists>f. compress_operator c level (Some (data, False)) fd = Some (Inr f) \<and> frame data (cf_data f) \<and>
           cf_sha256_hex f = to_hex (sha256 data) \<and> cf_descriptor f = fd"
  using compress_operator_law [OF assms] by metis

theorem compress_operator_correct_witness:
  "\<exists>f. compress_operator toy_encoder 3 (Some ([7, 8], False)) \<lparr>fd_path = ''a'', fd_size = 2, fd_time = 0\<rparr> = Some (Inr f) \<and>
       cf_data f = [1, 7, 1, 8, 0]"
  using compress_operator_correct [OF toy_encodes, of 3 "[7, 8]" "\<lparr>fd_path = ''a'', fd_size = 2, fd_time = 0\<rparr>"]
  by (auto simp: toy_frame_def)

text \<open>The chunker cuts the compressed data into its consecutive pieces: they concatenate to the data, are
  numbered from 0, carry their common number, and all but the last have exactly the payload size.\<close>

theorem chunker_partitions:
  assumes "0 < k" and "length (cf_data f) + k \<le> 2 ^ 64"
  shows "\<exists>chunks. chunk_operator k f = Inr chunks \<and> concat (map ch_payload chunks) = cf_data f \<and>
    (\<forall>i < length chunks. ch_index (chunks ! i) = i \<and> ch_total_chunks (chunks ! i) = length chunks \<and>
       ch_payload (chunks ! i) \<noteq> [] \<and> length (ch_payload (chunks ! i)) \<le> k \<and>
       (Suc i < length chunks \<longrightarrow> length (ch_payload (chunks ! i)) = k) \<and>
       ch_sha256_hex (chunks ! i) = cf_sha256_hex f \<and> ch_descriptor (chunks ! i) = cf_descriptor f)"
proof (cases "cf_data f = []")
  case True
  then show ?thesis by (simp add: chunk_operator_def)
next
  case False
  let ?n = "(length (cf_data f) + k - 1) div k"
  note b = chunk_count_bounds [OF assms(1), of "length (cf_data f)"]
  have small1: "i * k < length (cf_data f)" if "i < ?n" for i
  proof -
    have "i * k \<le> (?n - 1) * k" using that by (intro mult_le_mono1) simp
    then show ?thesis using b(2) False by (meson le_less_trans length_greater_0_conv)
  qed
  have small2: "i * k + k \<le> length (cf_data f)" if "Suc i < ?n" for i
    using small1 [OF that] by simp
  have "concat (map (\<lambda>i. take k (drop (i * k) (cf_data f))) [0..<?n]) = cf_data f"
    using b False by (simp add: concat_slices)
  then show ?thesis
    unfolding chunk_operator_eq [OF assms(1) False assms(2)]
    using assms(1) by (auto simp: comp_def min_def dest: small1 [simplified] small2 [simplified])
qed

theorem chunker_partitions_witness:
  "\<exists>chunks. chunk_operator 2 \<lparr>cf_descriptor = \<lparr>fd_path = ''a'', fd_size = 2, fd_time = 0\<rparr>, cf_sha256_hex = [],
      cf_data = [1, 7, 1, 8, 0]\<rparr> = Inr chunks \<and> concat (map ch_payload chunks) = [1, 7, 1, 8, 0]"
  using chunker_partitions [of 2 "\<lparr>cf_descriptor = \<lparr>fd_path = ''a'', fd_size = 2, fd_time = 0\<rparr>, cf_sha256_hex = [],
      cf_data = [1, 7, 1, 8, 0]\<rparr>"] by auto

text \<open>With a chunk size so large that adding it to the data size leaves 64 bits, which the command line
  accepts, the number of chunks wraps to zero: the file is silently not sent.\<close>

theorem huge_chunk_size_sends_nothing:
  assumes "k < 2 ^ 64" and "length (cf_data f) < 2 ^ 64" and "2 ^ 64 < length (cf_data f) + k"
  shows "chunk_operator k f = Inr []"
proof -
  let ?l = "length (cf_data f)"
  have "size_add ?l k = ?l + k - 2 ^ 64"
    using assms unfolding size_add_def by (simp add: mod_if)
  then have "size_sub (size_add ?l k) 1 = ?l + k - 2 ^ 64 - 1"
    using size_sub_small [of 1 "?l + k - 2 ^ 64"] assms by simp
  moreover have "?l + k - 2 ^ 64 - 1 < k" "0 < k"
    using assms by auto
  ultimately show ?thesis
    by (simp add: chunk_operator_def)
qed

theorem huge_chunk_size_sends_nothing_witness:
  "chunk_operator 18446744073709551615 \<lparr>cf_descriptor = \<lparr>fd_path = ''a'', fd_size = 2, fd_time = 0\<rparr>,
     cf_sha256_hex = [], cf_data = [1, 7, 1, 8, 0]\<rparr> = Inr []"
  by (rule huge_chunk_size_sends_nothing) simp_all

text \<open>C3. The two ends fit together: if the server's decoder understands the frames the client's encoder
  makes, the chunks the client cuts from a compressed file concatenate to a frame that decodes to
  exactly the file, which is what the server needs to publish it.\<close>

theorem chunks_decode_to_file:
  assumes "encodes c level frame" and "\<forall>x. frame data x \<longrightarrow> decodes_frame d x data \<and> length x + k \<le> 2 ^ 64" and "0 < k"
  shows "\<exists>f chunks. compress_operator c level (Some (data, False)) fd = Some (Inr f) \<and> chunk_operator k f = Inr chunks \<and>
           decodes_frame d (concat (map ch_payload chunks)) data"
proof -
  obtain f where f: "compress_operator c level (Some (data, False)) fd = Some (Inr f)" "frame data (cf_data f)"
    using compress_operator_law [OF assms(1)] by metis
  show ?thesis
  proof (cases "cf_data f = []")
    case True
    then show ?thesis using f assms(2) by (auto simp: chunk_operator_def)
  next
    case False
    have "concat (map (\<lambda>i. take k (drop (i * k) (cf_data f))) [0..<(length (cf_data f) + k - 1) div k]) = cf_data f"
      using chunk_count_bounds(1) [OF assms(3), of "length (cf_data f)"] False by (simp add: concat_slices)
    then show ?thesis
      using f assms(2) chunk_operator_eq [OF assms(3) False] by (auto simp: comp_def)
  qed
qed

theorem chunks_decode_to_file_witness:
  "\<exists>f chunks. compress_operator toy_encoder 3 (Some ([7, 8], False)) \<lparr>fd_path = ''a'', fd_size = 2, fd_time = 0\<rparr> = Some (Inr f) \<and>
     chunk_operator 2 f = Inr chunks \<and> decodes_frame toy_decoder (concat (map ch_payload chunks)) [7, 8]"
  by (rule chunks_decode_to_file [OF toy_encodes]) (simp_all add: toy_decodes, simp add: toy_frame_def)

end
