(* ===== verification/Client_Main.thy ===== *)
theory Client_Main
  imports Compressor
begin

text \<open>
  The rest of the client's producer side: the directory scan (\<^verbatim>\<open>Client/src/watcher.hpp\<close>), the messages of the
  system channel (\<^verbatim>\<open>Client/src/system_channels.hpp\<close>) and the command line and main loop
  (\<^verbatim>\<open>Client/src/main.cpp\<close>). Sockets, threads and sleeping are left out; a message that is sent is
  appended to a list. The lemmas show that a scan reports exactly what is new or changed, that the
  strings in the messages can be read back, and what one round of the main loop puts into the queue.
\<close>

section \<open>The directory watcher\<close>

text \<open>
  What the directory iterator delivers: an entry with its path, whether it is a regular file, its size
  and its time stamp, or an error (thrown by the iterator or by one of the queries on the entry).
\<close>

datatype scan_item = ScanError | ScanEntry string bool nat int

type_synonym known_files = "(string \<times> file_descriptor) list"

definition process_entry ::
    "string \<Rightarrow> bool \<Rightarrow> nat \<Rightarrow> int \<Rightarrow> known_files \<times> file_descriptor list \<Rightarrow> known_files \<times> file_descriptor list" where
  "process_entry path regular sz time s = (case s of (known, updated) \<Rightarrow>
     if \<not> regular then (known, updated)
     else
       let descriptor = \<lparr>fd_path = path, fd_size = sz, fd_time = time\<rparr>;
           changed = (case map_of known path of
                        None \<Rightarrow> True
                      | Some old \<Rightarrow> fd_size old \<noteq> fd_size descriptor \<or> fd_time old \<noteq> fd_time descriptor)
       in if changed then (al_set path descriptor known, updated @ [descriptor]) else (known, updated))"

text \<open>The first error ends the scan; what was found before it is kept.\<close>

fun scan_items :: "scan_item list \<Rightarrow> known_files \<times> file_descriptor list \<Rightarrow> known_files \<times> file_descriptor list" where
  "scan_items [] s = s"
| "scan_items (ScanError # items) s = s"
| "scan_items (ScanEntry path regular sz time # items) s = scan_items items (process_entry path regular sz time s)"

definition scan :: "scan_item list \<Rightarrow> known_files \<Rightarrow> file_descriptor list \<times> known_files" where
  "scan items known = (let (known, updated) = scan_items items (known, []) in (updated, known))"

text \<open>The regular files of a listing.\<close>

fun descriptors :: "scan_item list \<Rightarrow> file_descriptor list" where
  "descriptors [] = []"
| "descriptors (ScanError # items) = []"
| "descriptors (ScanEntry path regular sz time # items) =
     (if regular then \<lparr>fd_path = path, fd_size = sz, fd_time = time\<rparr> # descriptors items else descriptors items)"

definition is_news :: "known_files \<Rightarrow> file_descriptor \<Rightarrow> bool" where
  "is_news known d \<longleftrightarrow> (case map_of known (fd_path d) of
       None \<Rightarrow> True | Some old \<Rightarrow> fd_size old \<noteq> fd_size d \<or> fd_time old \<noteq> fd_time d)"

lemma scan_items_news:
  assumes "distinct (map fd_path (descriptors items))"
  shows "snd (scan_items items (known, updated)) = updated @ filter (is_news known) (descriptors items) \<and>
    map_of (fst (scan_items items (known, updated))) p =
      (case find (\<lambda>d. fd_path d = p) (filter (is_news known) (descriptors items)) of
         None \<Rightarrow> map_of known p | Some d \<Rightarrow> Some d)"
  using assms
proof (induction items arbitrary: known updated)
  case (Cons it items)
  show ?case
  proof (cases it)
    case (ScanEntry path regular sz time)
    show ?thesis
    proof (cases regular)
      case False
      then show ?thesis
        using Cons ScanEntry by (simp add: process_entry_def)
    next
      case True
      let ?d = "\<lparr>fd_path = path, fd_size = sz, fd_time = time\<rparr>"
      have new: "path \<notin> fd_path ` set (descriptors items)" and dist: "distinct (map fd_path (descriptors items))"
        using Cons.prems ScanEntry True by auto
      have same: "filter (is_news (al_set path ?d known)) (descriptors items) = filter (is_news known) (descriptors items)"
        using new by (intro filter_cong) (auto simp: is_news_def al_set_lookup)
      have none: "find (\<lambda>d. fd_path d = path) (filter (is_news known) (descriptors items)) = None"
        using new by (auto simp: find_None_iff)
      show ?thesis
      proof (cases "is_news known ?d")
        case False
        then show ?thesis
          using Cons.IH [OF dist, of known updated] ScanEntry True
          by (auto simp: process_entry_def is_news_def Let_def split: option.splits)
      next
        case news: True
        then have st: "process_entry path True sz time (known, updated) = (al_set path ?d known, updated @ [?d])"
          using True by (auto simp: process_entry_def is_news_def Let_def split: option.splits)
        show ?thesis
          using Cons.IH [OF dist, of "al_set path ?d known" "updated @ [?d]"] ScanEntry True news none
          by (auto simp: st same al_set_lookup split: option.splits)
      qed
    qed
  qed simp
qed simp

lemma scan_items_no_news:
  "\<forall>d \<in> set (descriptors items). \<not> is_news known d \<Longrightarrow> scan_items items (known, updated) = (known, updated)"
proof (induction items)
  case (Cons it items)
  then show ?case
    by (cases it) (auto simp: process_entry_def is_news_def Let_def split: option.splits if_splits)
qed simp

lemma find_Some_mem: "find P xs = Some x \<Longrightarrow> x \<in> set xs \<and> P x"
  by (induction xs) (auto split: if_splits)

text \<open>After a scan nothing in the listing is news.\<close>

lemma scan_settles:
  assumes "distinct (map fd_path (descriptors items))" and "scan items known = (updated, known')"
  shows "updated = filter (is_news known) (descriptors items)" and "scan items known' = ([], known')"
proof -
  note one = scan_items_news [OF assms(1), of known "[]"]
  have k: "known' = fst (scan_items items (known, []))" and u: "updated = snd (scan_items items (known, []))"
    using assms(2) by (auto simp: scan_def split: prod.splits)
  show "updated = filter (is_news known) (descriptors items)"
    using one by (simp add: u)
  have same: "x = d" if "x \<in> set (descriptors items)" "d \<in> set (descriptors items)" "fd_path x = fd_path d" for x d
    using that assms(1) by (auto simp: distinct_map inj_on_def)
  have "\<not> is_news known' d" if d: "d \<in> set (descriptors items)" for d
  proof (cases "find (\<lambda>x. fd_path x = fd_path d) (filter (is_news known) (descriptors items))")
    case None
    then have "\<not> is_news known d"
      using d by (auto simp: find_None_iff)
    then show ?thesis
      using one [of "fd_path d"] None by (simp add: k is_news_def)
  next
    case (Some e)
    then have "e \<in> set (filter (is_news known) (descriptors items))" "fd_path e = fd_path d"
      using find_Some_mem by fast+
    then have "e = d"
      using same [OF _ d] by auto
    then show ?thesis
      using one [of "fd_path d"] Some by (simp add: k is_news_def)
  qed
  then show "scan items known' = ([], known')"
    by (simp add: scan_def scan_items_no_news)
qed

section \<open>The messages of the system channel\<close>

definition escape_char :: "char \<Rightarrow> string" where
  "escape_char c =
     (if c = CHR 0x5C then [CHR 0x5C, CHR 0x5C]
      else if c = CHR 0x22 then [CHR 0x5C, CHR 0x22]
      else if c = CHR 0x0A then [CHR 0x5C, CHR ''n'']
      else if c = CHR 0x0D then [CHR 0x5C, CHR ''r'']
      else if c = CHR 0x09 then [CHR 0x5C, CHR ''t'']
      else [c])"

definition escape_json :: "string \<Rightarrow> string" where
  "escape_json value = concat (map escape_char value)"

abbreviation quote :: char where
  "quote \<equiv> CHR 0x22"

record channels =
  sc_published :: "string set"
  sc_sent :: "string list"
  sc_socket :: bool

definition send_message :: "string \<Rightarrow> channels \<Rightarrow> channels" where
  "send_message m sc = (if sc_socket sc then sc\<lparr>sc_sent := sc_sent sc @ [m]\<rparr> else sc)"

definition control_text :: "nat \<Rightarrow> nat \<Rightarrow> string" where
  "control_text all_n active_n =
     [CHR ''{''] @ [quote] @ ''type'' @ [quote] @ '':'' @ [quote] @ ''CONTROL'' @ [quote] @ '','' @ [quote]
     @ ''total_connections'' @ [quote] @ '':'' @ show_nat all_n @ '','' @ [quote] @ ''active_connections'' @ [quote]
     @ '':'' @ show_nat active_n @ ''}''"

definition notify_control :: "nat \<Rightarrow> nat \<Rightarrow> channels \<Rightarrow> channels" where
  "notify_control all_n active_n sc = send_message (control_text all_n active_n) sc"

definition file_meta_text :: "file_chunk \<Rightarrow> string" where
  "file_meta_text c =
     [CHR ''{''] @ [quote] @ ''type'' @ [quote] @ '':'' @ [quote] @ ''FILE_META'' @ [quote] @ '','' @ [quote] @ ''path'' @ [quote]
     @ '':'' @ [quote] @ escape_json (fd_path (ch_descriptor c)) @ [quote] @ '','' @ [quote] @ ''sha256'' @ [quote]
     @ '':'' @ [quote] @ ch_sha256_hex c @ [quote] @ '','' @ [quote] @ ''size'' @ [quote] @ '':''
     @ show_nat (fd_size (ch_descriptor c)) @ '','' @ [quote] @ ''chunks'' @ [quote] @ '':'' @ show_nat (ch_total_chunks c) @ ''}''"

definition file_patch_map_text :: "file_chunk \<Rightarrow> string" where
  "file_patch_map_text c =
     [CHR ''{''] @ [quote] @ ''type'' @ [quote] @ '':'' @ [quote] @ ''FILE_PATCH_MAP'' @ [quote] @ '','' @ [quote] @ ''path'' @ [quote]
     @ '':'' @ [quote] @ escape_json (fd_path (ch_descriptor c)) @ [quote] @ '','' @ [quote] @ ''sha256'' @ [quote]
     @ '':'' @ [quote] @ ch_sha256_hex c @ [quote] @ '','' @ [quote] @ ''chunk_index'' @ [quote] @ '':''
     @ show_nat (ch_index c) @ '','' @ [quote] @ ''total_chunks'' @ [quote] @ '':'' @ show_nat (ch_total_chunks c)
     @ '','' @ [quote] @ ''payload_size'' @ [quote] @ '':'' @ show_nat (length (ch_payload c)) @ ''}''"

definition meta_key :: "file_chunk \<Rightarrow> string" where
  "meta_key c = fd_path (ch_descriptor c) @ '':'' @ ch_sha256_hex c"

definition send_file_meta :: "file_chunk \<Rightarrow> channels \<Rightarrow> channels" where
  "send_file_meta c sc =
     (if meta_key c \<in> sc_published sc then sc
      else send_message (file_meta_text c) (sc\<lparr>sc_published := insert (meta_key c) (sc_published sc)\<rparr>))"

definition send_file_patch_map :: "file_chunk \<Rightarrow> channels \<Rightarrow> channels" where
  "send_file_patch_map c sc = send_message (file_patch_map_text c) sc"

definition notify_file_chunk_enqueued :: "file_chunk \<Rightarrow> channels \<Rightarrow> channels" where
  "notify_file_chunk_enqueued c sc = send_file_patch_map c (send_file_meta c sc)"

definition queue_size_text :: "nat \<Rightarrow> nat option \<Rightarrow> string" where
  "queue_size_text sz capacity =
     [CHR ''{''] @ [quote] @ ''type'' @ [quote] @ '':'' @ [quote] @ ''QUEUE_SIZE_UPDATE'' @ [quote] @ '','' @ [quote] @ ''size'' @ [quote]
     @ '':'' @ show_nat sz
     @ (case capacity of None \<Rightarrow> [] | Some n \<Rightarrow> '','' @ [quote] @ ''capacity'' @ [quote] @ '':'' @ show_nat n) @ ''}''"

text \<open>Reading a JSON string up to its closing quotation mark, for the escapes above.\<close>

fun read_json_string :: "string \<Rightarrow> (string \<times> string) option" where
  "read_json_string [] = None"
| "read_json_string (c # s) =
     (if c = quote then Some ([], s)
      else if c = CHR 0x5C then
        (case s of
           [] \<Rightarrow> None
         | e # s' \<Rightarrow>
             map_option (\<lambda>(t, r). ((if e = CHR ''n'' then CHR 0x0A else if e = CHR ''r'' then CHR 0x0D
                                     else if e = CHR ''t'' then CHR 0x09 else e) # t, r)) (read_json_string s'))
      else map_option (\<lambda>(t, r). (c # t, r)) (read_json_string s))"

lemma read_escaped: "read_json_string (escape_json s @ quote # rest) = Some (s, rest)"
  by (induction s) (simp_all add: escape_json_def escape_char_def)

section \<open>The main loop\<close>

text \<open>
  \<open>closed\<close> is whether the queue has been closed; waiting for a free place is the business of the queue.
\<close>

record producer =
  pd_queue :: "file_chunk list"
  pd_closed :: bool
  pd_stop :: bool
  pd_channels :: channels
  pd_files :: u64
  pd_bytes :: u64

fun push_chunks :: "file_chunk list \<Rightarrow> producer \<Rightarrow> producer" where
  "push_chunks [] p = p"
| "push_chunks (c # cs) p =
     (let p = p\<lparr>pd_channels := notify_file_chunk_enqueued c (pd_channels p)\<rparr>
      in if pd_closed p then p\<lparr>pd_stop := True\<rparr>
         else push_chunks cs (p\<lparr>pd_queue := pd_queue p @ [c]\<rparr>))"

text \<open>
  One file; an exception is logged and the file is skipped. \<open>read path\<close> is what opening and reading the
  file gives. The result is \<open>None\<close> if the encoder never ends, an error for undefined behaviour.
\<close>

definition process_file ::
    "'z zstd_c \<Rightarrow> int \<Rightarrow> nat \<Rightarrow> (string \<Rightarrow> (byte list \<times> bool) option) \<Rightarrow> file_descriptor \<Rightarrow> producer \<Rightarrow> producer res option" where
  "process_file c level chunk_size read fd p =
     (case compress_operator c level (read (fd_path fd)) fd of
        None \<Rightarrow> None
      | Some (Inl e) \<Rightarrow> Some (Inr p)
      | Some (Inr f) \<Rightarrow>
          Some (bindE (chunk_operator chunk_size f) (\<lambda>chunks.
            let p = push_chunks chunks p
            in Inr (p\<lparr>pd_files := pd_files p + 1, pd_bytes := pd_bytes p + of_nat (fd_size fd)\<rparr>))))"

fun process_files ::
    "'z zstd_c \<Rightarrow> int \<Rightarrow> nat \<Rightarrow> (string \<Rightarrow> (byte list \<times> bool) option) \<Rightarrow> file_descriptor list \<Rightarrow> producer \<Rightarrow> producer res option" where
  "process_files c level chunk_size read [] p = Some (Inr p)"
| "process_files c level chunk_size read (fd # fds) p =
     (case process_file c level chunk_size read fd p of
        None \<Rightarrow> None
      | Some (Inl e) \<Rightarrow> Some (Inl e)
      | Some (Inr p) \<Rightarrow> if pd_stop p then Some (Inr p) else process_files c level chunk_size read fds p)"

text \<open>One round of the loop in \<open>main\<close>: scan, then process what is new.\<close>

definition main_round ::
    "'z zstd_c \<Rightarrow> int \<Rightarrow> nat \<Rightarrow> (string \<Rightarrow> (byte list \<times> bool) option) \<Rightarrow> scan_item list \<Rightarrow>
     known_files \<times> producer \<Rightarrow> (known_files \<times> producer) res option" where
  "main_round c level chunk_size read items s = (case s of (known, p) \<Rightarrow>
     let (updated_files, known) = scan items known
     in map_option (\<lambda>r. bindE r (\<lambda>p. Inr (known, p))) (process_files c level chunk_size read updated_files p))"

lemma send_message_socket [simp]: "sc_socket (send_message m sc) = sc_socket sc"
  by (simp add: send_message_def)

lemma notify_socket [simp]: "sc_socket (notify_file_chunk_enqueued c sc) = sc_socket sc"
  by (simp add: notify_file_chunk_enqueued_def send_file_patch_map_def send_file_meta_def)

lemma push_chunks_open:
  "\<not> pd_closed p \<Longrightarrow> push_chunks cs p =
     p\<lparr>pd_queue := pd_queue p @ cs, pd_channels := fold notify_file_chunk_enqueued cs (pd_channels p)\<rparr>"
  by (induction cs arbitrary: p) (simp_all add: Let_def)

text \<open>Chunks of one file: the meta data goes out once, before the first patch map.\<close>

lemma notify_known:
  assumes "sc_socket sc" and "\<forall>c \<in> set cs. meta_key c \<in> sc_published sc"
  shows "sc_sent (fold notify_file_chunk_enqueued cs sc) = sc_sent sc @ map file_patch_map_text cs \<and>
         sc_published (fold notify_file_chunk_enqueued cs sc) = sc_published sc"
  using assms
proof (induction cs arbitrary: sc)
  case (Cons c cs)
  have n: "notify_file_chunk_enqueued c sc = sc\<lparr>sc_sent := sc_sent sc @ [file_patch_map_text c]\<rparr>"
    using Cons.prems by (simp add: notify_file_chunk_enqueued_def send_file_meta_def send_file_patch_map_def send_message_def)
  show ?case
    using Cons.IH [of "notify_file_chunk_enqueued c sc"] Cons.prems by (simp add: n)
qed simp

lemma notify_new:
  assumes "sc_socket sc" and "\<forall>x \<in> set (c # cs). meta_key x = k" and "k \<notin> sc_published sc"
  shows "sc_sent (fold notify_file_chunk_enqueued (c # cs) sc)
           = sc_sent sc @ [file_meta_text c] @ map file_patch_map_text (c # cs) \<and>
         sc_published (fold notify_file_chunk_enqueued (c # cs) sc) = insert k (sc_published sc)"
proof -
  have n: "notify_file_chunk_enqueued c sc
      = sc\<lparr>sc_published := insert k (sc_published sc), sc_sent := sc_sent sc @ [file_meta_text c, file_patch_map_text c]\<rparr>"
    using assms by (simp add: notify_file_chunk_enqueued_def send_file_meta_def send_file_patch_map_def send_message_def)
  show ?thesis
    using notify_known [of "notify_file_chunk_enqueued c sc" cs] assms by (simp add: n)
qed

section \<open>The command line\<close>

record client_config =
  cc_watch_dir :: string
  cc_scan_interval :: int
  cc_queue_capacity :: nat
  cc_chunk_payload_size :: nat
  cc_compression_level :: int
  cc_connections :: nat
  cc_host_prefix :: string
  cc_base_port :: u16
  cc_max_send_retries :: nat
  cc_connect_timeout :: int
  cc_max_connect_attempts :: nat
  cc_connect_retry_delay :: int
  cc_tcp_no_delay :: bool
  cc_queue_update_period :: int
  cc_control_host :: string
  cc_control_port :: u16

text \<open>\<open>level\<close> is \<open>ZSTD_CLEVEL_DEFAULT\<close> of the library.\<close>

definition client_config_default :: "int \<Rightarrow> client_config" where
  "client_config_default level =
     \<lparr>cc_watch_dir = ''C:'' @ [CHR 0x5C] @ ''Super_Voise'' @ [CHR 0x5C] @ ''Lokal AI Model'' @ [CHR 0x5C] @ ''client'' @ [CHR 0x5C] @ ''files'',
      cc_scan_interval = 2000, cc_queue_capacity = 32, cc_chunk_payload_size = 2500000,
      cc_compression_level = level, cc_connections = 2, cc_host_prefix = ''data-base'', cc_base_port = 9000,
      cc_max_send_retries = 3, cc_connect_timeout = 5000, cc_max_connect_attempts = 3, cc_connect_retry_delay = 500,
      cc_tcp_no_delay = True, cc_queue_update_period = 500, cc_control_host = ''127.0.0.1'', cc_control_port = 7000\<rparr>"

text \<open>The options that take a value.\<close>

definition value_option :: "string \<Rightarrow> (string \<Rightarrow> client_config \<Rightarrow> client_config res) option" where
  "value_option arg =
     (if arg = ''--watch-dir'' then Some (\<lambda>v c. Inr (c\<lparr>cc_watch_dir := v\<rparr>))
      else if arg = ''--scan-interval-ms'' then Some (\<lambda>v c. bindE (stoll v) (\<lambda>n. Inr (c\<lparr>cc_scan_interval := n\<rparr>)))
      else if arg = ''--queue-capacity'' then Some (\<lambda>v c. bindE (stoull v) (\<lambda>n. Inr (c\<lparr>cc_queue_capacity := n\<rparr>)))
      else if arg = ''--chunk-size'' then Some (\<lambda>v c. bindE (stoull v) (\<lambda>n. Inr (c\<lparr>cc_chunk_payload_size := n\<rparr>)))
      else if arg = ''--compression-level'' then Some (\<lambda>v c. bindE (stoi v) (\<lambda>n. Inr (c\<lparr>cc_compression_level := n\<rparr>)))
      else if arg = ''--connections'' then Some (\<lambda>v c. bindE (stoull v) (\<lambda>n. Inr (c\<lparr>cc_connections := n\<rparr>)))
      else if arg = ''--host-prefix'' then Some (\<lambda>v c. Inr (c\<lparr>cc_host_prefix := v\<rparr>))
      else if arg = ''--base-port'' then Some (\<lambda>v c. bindE (stoul v) (\<lambda>n. Inr (c\<lparr>cc_base_port := of_nat n\<rparr>)))
      else if arg = ''--max-send-retries'' then Some (\<lambda>v c. bindE (stoull v) (\<lambda>n. Inr (c\<lparr>cc_max_send_retries := n\<rparr>)))
      else if arg = ''--connect-timeout-ms'' then Some (\<lambda>v c. bindE (stoll v) (\<lambda>n. Inr (c\<lparr>cc_connect_timeout := n\<rparr>)))
      else if arg = ''--max-connect-attempts'' then Some (\<lambda>v c. bindE (stoull v) (\<lambda>n. Inr (c\<lparr>cc_max_connect_attempts := n\<rparr>)))
      else if arg = ''--connect-retry-delay-ms'' then Some (\<lambda>v c. bindE (stoll v) (\<lambda>n. Inr (c\<lparr>cc_connect_retry_delay := n\<rparr>)))
      else if arg = ''--control-host'' then Some (\<lambda>v c. Inr (c\<lparr>cc_control_host := v\<rparr>))
      else if arg = ''--control-port'' then Some (\<lambda>v c. bindE (stoul v) (\<lambda>n. Inr (c\<lparr>cc_control_port := of_nat n\<rparr>)))
      else if arg = ''--queue-update-ms'' then Some (\<lambda>v c. bindE (stoll v) (\<lambda>n. Inr (c\<lparr>cc_queue_update_period := n\<rparr>)))
      else None)"

text \<open>The result is the return value and the configuration as it has been changed in place.\<close>

fun client_parse_arguments :: "string list \<Rightarrow> client_config \<Rightarrow> bool \<times> client_config" where
  "client_parse_arguments [] c = (True, c)"
| "client_parse_arguments (arg # rest) c =
     (if arg = ''-h'' \<or> arg = ''--help'' then (False, c)
      else if arg = ''--no-tcp-no-delay'' then client_parse_arguments rest (c\<lparr>cc_tcp_no_delay := False\<rparr>)
      else case value_option arg of
             None \<Rightarrow> (False, c)
           | Some set_value \<Rightarrow>
               (case rest of
                  [] \<Rightarrow> (False, c)
                | v # rest \<Rightarrow>
                    (case set_value v c of
                       Inl _ \<Rightarrow> (False, c)
                     | Inr c \<Rightarrow> client_parse_arguments rest c)))"

text \<open>The command line that sets every option of a configuration.\<close>

definition render_client_arguments :: "client_config \<Rightarrow> string list" where
  "render_client_arguments c =
     [''--watch-dir'', cc_watch_dir c, ''--scan-interval-ms'', show_int (cc_scan_interval c),
      ''--queue-capacity'', show_nat (cc_queue_capacity c), ''--chunk-size'', show_nat (cc_chunk_payload_size c),
      ''--compression-level'', show_int (cc_compression_level c), ''--connections'', show_nat (cc_connections c),
      ''--host-prefix'', cc_host_prefix c, ''--base-port'', show_nat (unat (cc_base_port c)),
      ''--max-send-retries'', show_nat (cc_max_send_retries c), ''--connect-timeout-ms'', show_int (cc_connect_timeout c),
      ''--max-connect-attempts'', show_nat (cc_max_connect_attempts c),
      ''--connect-retry-delay-ms'', show_int (cc_connect_retry_delay c), ''--control-host'', cc_control_host c,
      ''--control-port'', show_nat (unat (cc_control_port c)), ''--queue-update-ms'', show_int (cc_queue_update_period c)]
     @ (if cc_tcp_no_delay c then [] else [''--no-tcp-no-delay''])"

definition client_config_in_range :: "client_config \<Rightarrow> bool" where
  "client_config_in_range c \<longleftrightarrow>
     cc_queue_capacity c < 2 ^ 64 \<and> cc_chunk_payload_size c < 2 ^ 64 \<and> cc_connections c < 2 ^ 64 \<and>
     cc_max_send_retries c < 2 ^ 64 \<and> cc_max_connect_attempts c < 2 ^ 64 \<and>
     - (2 ^ 31) \<le> cc_compression_level c \<and> cc_compression_level c < 2 ^ 31 \<and>
     (\<forall>n \<in> {cc_scan_interval c, cc_connect_timeout c, cc_connect_retry_delay c, cc_queue_update_period c}.
        - (2 ^ 63) \<le> n \<and> n < 2 ^ 63)"

lemma stoi_show_int: "- (2 ^ 31) \<le> i \<Longrightarrow> i < 2 ^ 31 \<Longrightarrow> stoi (show_int i) = Inr i"
  by (auto simp: stoi_def show_int_def strto_show_nat strto_neg_show_nat)

lemma client_parse_rendered:
  assumes "client_config_in_range c"
  shows "client_parse_arguments (render_client_arguments c) (c0\<lparr>cc_tcp_no_delay := True\<rparr>) = (True, c)"
proof -
  have u16: "stoul (show_nat (unat (p :: u16))) = Inr (unat p)" for p
    using unsigned_less [of p, where ?'a = nat] by (simp add: stoul_show_nat)
  show ?thesis
    using assms
    by (cases c) (simp add: render_client_arguments_def value_option_def client_config_in_range_def u16
        stoll_show_int stoi_show_int stoull_show_nat)
qed

section \<open>Properties\<close>

text \<open>A scan of a directory reports exactly the regular files that are new or whose size or time
  stamp has changed since they were last seen, in the order of the listing; a second scan of the
  unchanged directory reports nothing.\<close>

theorem scan_reports_news:
  assumes "distinct (map fd_path (descriptors items))" and "scan items known = (updated, known')"
  shows "updated = filter (is_news known) (descriptors items) \<and> fst (scan items known') = []"
  using scan_settles [OF assms] by simp

theorem scan_reports_news_witness:
  "scan [ScanEntry ''a'' True 2 5, ScanEntry ''d'' False 0 1] [(''a'', \<lparr>fd_path = ''a'', fd_size = 1, fd_time = 4\<rparr>)]
     = ([\<lparr>fd_path = ''a'', fd_size = 2, fd_time = 5\<rparr>], [(''a'', \<lparr>fd_path = ''a'', fd_size = 2, fd_time = 5\<rparr>)]) \<and>
   fst (scan [ScanEntry ''a'' True 2 5, ScanEntry ''d'' False 0 1] [(''a'', \<lparr>fd_path = ''a'', fd_size = 2, fd_time = 5\<rparr>)]) = []"
proof -
  have s: "scan [ScanEntry ''a'' True 2 5, ScanEntry ''d'' False 0 1] [(''a'', \<lparr>fd_path = ''a'', fd_size = 1, fd_time = 4\<rparr>)]
     = ([\<lparr>fd_path = ''a'', fd_size = 2, fd_time = 5\<rparr>], [(''a'', \<lparr>fd_path = ''a'', fd_size = 2, fd_time = 5\<rparr>)])"
    by (simp add: scan_def process_entry_def Let_def)
  have d: "distinct (map fd_path (descriptors [ScanEntry ''a'' True 2 5, ScanEntry ''d'' False 0 1]))" by simp
  show ?thesis
    using s conjunct2 [OF scan_reports_news [OF d s]] by (rule conjI)
qed

text \<open>The file names in the system channel's messages survive: a JSON reader gets back from the escaped
  string exactly the original one and goes on behind its closing quotation mark, whatever
  quotation marks, backslashes and line ends the name has.\<close>

theorem escape_json_readable:
  "read_json_string (escape_json s @ quote # rest) = Some (s, rest)"
  by (rule read_escaped)

text \<open>Processing one readable file appends all its chunks to the open queue, in order, and announces
  it: one message with the file's meta data, unless this content was announced before, then one
  message per chunk. The chunks' payloads concatenate to a frame of the file.\<close>

theorem process_file_enqueues:
  assumes "encodes c level frame" and "read (fd_path fd) = Some (data, False)"
    and "\<forall>x. frame data x \<longrightarrow> x \<noteq> [] \<and> length x + k \<le> 2 ^ 64" and "0 < k" and "\<not> pd_closed p" and "sc_socket (pd_channels p)"
  shows "\<exists>chunks p'. process_file c level k read fd p = Some (Inr p') \<and> pd_queue p' = pd_queue p @ chunks \<and>
    frame data (concat (map ch_payload chunks)) \<and> pd_files p' = pd_files p + 1 \<and>
    sc_sent (pd_channels p') = sc_sent (pd_channels p)
      @ (if meta_key (hd chunks) \<in> sc_published (pd_channels p) then [] else [file_meta_text (hd chunks)])
      @ map file_patch_map_text chunks"
proof -
  obtain f where f: "compress_operator c level (Some (data, False)) fd = Some (Inr f)" "frame data (cf_data f)"
    using compress_operator_law [OF assms(1)] by metis
  have ne: "cf_data f \<noteq> []" "length (cf_data f) + k \<le> 2 ^ 64"
    using f(2) assms(3) by auto
  define n where "n = (length (cf_data f) + k - 1) div k"
  define chunks where "chunks = map (\<lambda>i. \<lparr>ch_descriptor = cf_descriptor f, ch_sha256_hex = cf_sha256_hex f, ch_index = i,
      ch_total_chunks = n, ch_payload = take k (drop (i * k) (cf_data f))\<rparr>) [0..<n]"
  have co: "chunk_operator k f = Inr chunks"
    using chunk_operator_eq [OF assms(4) ne] by (simp add: chunks_def n_def)
  have b: "length (cf_data f) \<le> n * k" "0 < n"
    using chunk_count_bounds [OF assms(4), of "length (cf_data f)"] ne(1) by (simp_all add: n_def)
  have cat: "concat (map ch_payload chunks) = cf_data f"
    using b(1) by (simp add: chunks_def comp_def concat_slices)
  obtain c1 cs where cs: "chunks = c1 # cs"
    using b(2) by (cases chunks) (auto simp: chunks_def)
  have key: "\<forall>x \<in> set (c1 # cs). meta_key x = meta_key c1"
    unfolding cs [symmetric] using cs by (auto simp: chunks_def meta_key_def)
  have pf: "process_file c level k read fd p = Some (Inr
      (p\<lparr>pd_queue := pd_queue p @ chunks, pd_channels := fold notify_file_chunk_enqueued chunks (pd_channels p),
         pd_files := pd_files p + 1, pd_bytes := pd_bytes p + of_nat (fd_size fd)\<rparr>))"
    using f(1) assms(2,5) by (simp add: process_file_def co push_chunks_open)
  have "sc_sent (fold notify_file_chunk_enqueued chunks (pd_channels p)) = sc_sent (pd_channels p)
      @ (if meta_key c1 \<in> sc_published (pd_channels p) then [] else [file_meta_text c1]) @ map file_patch_map_text chunks"
  proof (cases "meta_key c1 \<in> sc_published (pd_channels p)")
    case True
    then have "\<forall>x \<in> set chunks. meta_key x \<in> sc_published (pd_channels p)"
      unfolding cs using key by (metis (no_types, lifting))
    from conjunct1 [OF notify_known [OF assms(6) this]] True show ?thesis by (simp only: if_True append_Nil)
  next
    case False
    from conjunct1 [OF notify_new [OF assms(6) key this]] False show ?thesis
      unfolding cs by (simp only: if_False append_assoc)
  qed
  then show ?thesis
    using pf cat f(2) cs by (intro exI [of _ chunks] exI conjI) (assumption | simp)+
qed

definition sample_producer :: producer where
  "sample_producer = \<lparr>pd_queue = [], pd_closed = False, pd_stop = False,
     pd_channels = \<lparr>sc_published = {}, sc_sent = [], sc_socket = True\<rparr>, pd_files = 0, pd_bytes = 0\<rparr>"

theorem process_file_enqueues_witness:
  "\<exists>chunks p'. process_file toy_encoder 3 2 (\<lambda>_. Some ([7, 8], False)) \<lparr>fd_path = ''a'', fd_size = 2, fd_time = 0\<rparr> sample_producer
     = Some (Inr p') \<and> pd_queue p' = chunks \<and> concat (map ch_payload chunks) = [1, 7, 1, 8, 0] \<and>
     sc_sent (pd_channels p') = file_meta_text (hd chunks) # map file_patch_map_text chunks"
  using process_file_enqueues [OF toy_encodes, of "\<lambda>_. Some ([7, 8], False)" "\<lparr>fd_path = ''a'', fd_size = 2, fd_time = 0\<rparr>" "[7, 8]" 2 sample_producer 3]
  by (fastforce simp: sample_producer_def toy_frame_def)

text \<open>A file whose compression fails once (it is still locked, say) is never sent: the scan has
  already recorded it, so no later scan of the unchanged directory reports it, even when it can be read by then.\<close>

theorem failed_file_never_retried:
  assumes "distinct (map fd_path (descriptors items))"
    and "\<forall>d \<in> set (descriptors items). is_news known d \<longrightarrow> read (fd_path d) = None" and "\<not> pd_stop p"
  shows "\<exists>known'. main_round c level k read items (known, p) = Some (Inr (known', p)) \<and>
           main_round c level k read' items (known', p) = Some (Inr (known', p))"
proof -
  obtain updated known' where s: "scan items known = (updated, known')" by fastforce
  note sc = scan_settles [OF assms(1) s]
  have "process_files c level k read ds p = Some (Inr p)" if "\<forall>d \<in> set ds. read (fd_path d) = None" for ds
    using that assms(3) by (induction ds) (simp_all add: process_file_def compress_operator_def)
  then have "process_files c level k read updated p = Some (Inr p)"
    using assms(2) by (simp add: sc(1))
  then show ?thesis
    using s sc(2) by (intro exI [of _ known']) (simp add: main_round_def)
qed

theorem failed_file_never_retried_witness:
  "\<exists>known'. main_round toy_encoder 3 2 (\<lambda>_. None) [ScanEntry ''a'' True 2 5] ([], sample_producer) = Some (Inr (known', sample_producer)) \<and>
     main_round toy_encoder 3 2 (\<lambda>_. Some ([7, 8], False)) [ScanEntry ''a'' True 2 5] (known', sample_producer)
       = Some (Inr (known', sample_producer))"
  by (rule failed_file_never_retried) (simp_all add: sample_producer_def)

text \<open>The command line carries every configuration: parsing the options rendered from a configuration
  within the ranges of their types gives that configuration back, whatever the defaults were.\<close>

theorem client_arguments_roundtrip:
  assumes "client_config_in_range c"
  shows "client_parse_arguments (render_client_arguments c) (client_config_default level) = (True, c)"
proof -
  have "(client_config_default level)\<lparr>cc_tcp_no_delay := True\<rparr> = client_config_default level"
    by (simp add: client_config_default_def)
  then show ?thesis
    using client_parse_rendered [OF assms, of "client_config_default level"] by simp
qed

theorem client_arguments_roundtrip_witness:
  "client_parse_arguments (render_client_arguments (client_config_default 3)) (client_config_default 7)
     = (True, client_config_default 3)"
  by (rule client_arguments_roundtrip) (simp add: client_config_in_range_def client_config_default_def)

end
