(* ===== verification/Sender.thy ===== *)
theory Sender
  imports Compressor Data_Channel "HOL-Library.Multiset"
begin

text \<open>
  \<^verbatim>\<open>Client/src/sender.hpp\<close>: sending the chunks of the queue over a fixed number of connections, with
  retries. The state machine has one step per atomic part (a critical section, a condition variable
  call, the end of an asynchronous send); the worker's program counter is the datatype \<open>worker\<close>.
  The network decides nondeterministically which sends and connects fail. The lemmas show that chunks are
  neither lost nor duplicated, that slots and attempts are bounded, and that the worker ends by
  itself only when everything is dealt with; and where the code falls short of that: stopping abandons
  the queue, a wake-up can be lost for ever, a retry can wait for the next chunk, and the wire format is not the server's.
\<close>

section \<open>State\<close>

record sender_options =
  so_host_prefix :: string
  so_base_port :: u16
  so_connections :: nat
  so_max_send_retries :: nat

definition sender_options_default :: sender_options where
  "sender_options_default = \<lparr>so_host_prefix = ''data-base'', so_base_port = 9000, so_connections = 2,
     so_max_send_retries = 3\<rparr>"

record connection =
  cn_index :: nat
  cn_host :: string
  cn_port :: u16
  cn_open :: bool

record metrics_window =
  mw_start :: int
  mw_chunks :: u64
  mw_bytes :: u64
  mw_retries :: u64

type_synonym pending_chunk = "file_chunk \<times> nat"

text \<open>
  Where the worker is: at the loop head, about to look at the retry queue, in \<open>queue_.pop\<close>, waiting for a
  slot with a chunk, connecting, returning the slot after a failed connect; then the end of the queue:
  before \<open>finishing_\<close> is set, evaluating the predicate of \<open>retry_cv_\<close>, about to wait, waiting, woken, at the last look at
  \<open>inflight_\<close>, and ended.
\<close>

datatype worker = Top | Retry | Pop | Held file_chunk nat | Connect file_chunk nat | FailedConnect
  | Empty | Check | Block | Waiting | Woke | Last | Done

text \<open>What a completion handler has still to do.\<close>

datatype callback = NotifyOne | Release | NotifyAll

record sender =
  sn_options :: sender_options
  sn_connections :: "connection list"
  sn_next :: nat
  sn_items :: "file_chunk list"     \<comment> \<open>the queue shared with the producer\<close>
  sn_closed :: bool
  sn_stop :: bool
  sn_worker :: worker
  sn_retry :: "pending_chunk list"
  sn_sending :: "(nat \<times> pending_chunk) list"
  sn_callbacks :: "callback list"
  sn_inflight :: nat
  sn_finishing :: bool
  sn_window :: metrics_window
  sn_taken :: "file_chunk list"     \<comment> \<open>history: chunks taken from the queue\<close>
  sn_delivered :: "file_chunk list" \<comment> \<open>history: chunks written to a connection\<close>
  sn_dropped :: "pending_chunk list" \<comment> \<open>history: chunks given up after their last attempt\<close>
  sn_abandoned :: "pending_chunk list" \<comment> \<open>history: chunks the worker held when it was stopped\<close>

section \<open>Operations\<close>

definition make_connection :: "sender_options \<Rightarrow> nat \<Rightarrow> connection" where
  "make_connection opts i =
     \<lparr>cn_index = i, cn_host = so_host_prefix opts @ show_nat i, cn_port = so_base_port opts + of_nat i, cn_open = False\<rparr>"

definition window_reset :: "int \<Rightarrow> metrics_window" where
  "window_reset now = \<lparr>mw_start = now, mw_chunks = 0, mw_bytes = 0, mw_retries = 0\<rparr>"

definition sender_new :: "sender_options \<Rightarrow> int \<Rightarrow> sender" where
  "sender_new opts now =
     (let opts = (if so_connections opts = 0 then opts\<lparr>so_connections := 1\<rparr> else opts)
      in \<lparr>sn_options = opts, sn_connections = map (make_connection opts) [0..<so_connections opts], sn_next = 0,
          sn_items = [], sn_closed = False, sn_stop = False, sn_worker = Top, sn_retry = [], sn_sending = [],
          sn_callbacks = [], sn_inflight = 0, sn_finishing = False, sn_window = window_reset now,
          sn_taken = [], sn_delivered = [], sn_dropped = [], sn_abandoned = []\<rparr>)"

definition next_connection :: "sender \<Rightarrow> nat \<times> sender" where
  "next_connection s =
     (sn_next s, s\<lparr>sn_next := (sn_next s + 1) mod length (sn_connections s)\<rparr>)"

definition set_open :: "nat \<Rightarrow> bool \<Rightarrow> sender \<Rightarrow> sender" where
  "set_open i b s = s\<lparr>sn_connections := (sn_connections s)[i := (sn_connections s ! i)\<lparr>cn_open := b\<rparr>]\<rparr>"

definition active_connections :: "sender \<Rightarrow> nat" where
  "active_connections s = length (filter cn_open (sn_connections s))"

definition max_attempts :: "sender \<Rightarrow> nat" where
  "max_attempts s = max 1 (so_max_send_retries (sn_options s))"

text \<open>The log line is left out; what it leaves is the reset of the window. The interval is five seconds.\<close>

definition maybe_report_metrics :: "int \<Rightarrow> bool \<Rightarrow> metrics_window \<Rightarrow> metrics_window" where
  "maybe_report_metrics now force w =
     (if \<not> force \<and> now - mw_start w < 5000000000 then w else window_reset now)"

definition release_slot :: "sender \<Rightarrow> bool \<times> sender" where
  "release_slot s =
     (let s = (if sn_inflight s > 0 then s\<lparr>sn_inflight := sn_inflight s - 1\<rparr> else s)
      in (sn_inflight s = 0 \<and> sn_finishing s, s))"

definition on_chunk_success :: "int \<Rightarrow> file_chunk \<Rightarrow> nat \<Rightarrow> sender \<Rightarrow> sender" where
  "on_chunk_success now chunk attempt s =
     (let retries = (if attempt > 0 then attempt - 1 else 0);
          w = sn_window s;
          w = w\<lparr>mw_chunks := mw_chunks w + 1, mw_bytes := mw_bytes w + of_nat (length (ch_payload chunk)),
                mw_retries := mw_retries w + of_nat retries\<rparr>
      in s\<lparr>sn_window := maybe_report_metrics now False w, sn_delivered := sn_delivered s @ [chunk]\<rparr>)"

text \<open>The part of \<open>on_chunk_failure\<close> before the notification and the release of the slot; the flag says
  whether the chunk was put into the retry queue.\<close>

definition on_chunk_failure :: "int \<Rightarrow> file_chunk \<Rightarrow> nat \<Rightarrow> sender \<Rightarrow> bool \<times> sender" where
  "on_chunk_failure now chunk attempt s =
     (if attempt \<ge> max_attempts s
      then let w = sn_window s;
               w = w\<lparr>mw_retries := mw_retries w + of_nat (if attempt > 0 then attempt - 1 else 0)\<rparr>
           in (False, s\<lparr>sn_window := maybe_report_metrics now False w, sn_dropped := sn_dropped s @ [(chunk, attempt)]\<rparr>)
      else (True, s\<lparr>sn_retry := sn_retry s @ [(chunk, attempt + 1)]\<rparr>))"

text \<open>The worker has \<open>retry_mutex_\<close> from the predicate to the wait, and from the wake-up on.\<close>

definition retry_locked :: "sender \<Rightarrow> bool" where
  "retry_locked s \<longleftrightarrow> sn_worker s \<in> {Check, Block, Woke}"

definition wake :: "sender \<Rightarrow> sender" where
  "wake s = (if sn_worker s = Waiting then s\<lparr>sn_worker := Check\<rparr> else s)"

section \<open>Steps\<close>

text \<open>
  A connection that is open is used as it is; a failed attempt to connect may leave the socket open (\<open>b\<close>), when
  its option could not be set (theory \<open>Send_Connection\<close>).
\<close>

inductive worker_step :: "sender \<Rightarrow> sender \<Rightarrow> bool" where
  top_stop: "sn_worker s = Top \<Longrightarrow> sn_stop s \<Longrightarrow> worker_step s (s\<lparr>sn_worker := Done\<rparr>)"
| top_go: "sn_worker s = Top \<Longrightarrow> \<not> sn_stop s \<Longrightarrow> worker_step s (s\<lparr>sn_worker := Retry\<rparr>)"
| retry_take: "sn_worker s = Retry \<Longrightarrow> sn_retry s = (c, a) # rs \<Longrightarrow>
    worker_step s (s\<lparr>sn_worker := Held c a, sn_retry := rs\<rparr>)"
| retry_none: "sn_worker s = Retry \<Longrightarrow> sn_retry s = [] \<Longrightarrow> worker_step s (s\<lparr>sn_worker := Pop\<rparr>)"
| pop_item: "sn_worker s = Pop \<Longrightarrow> sn_items s = c # cs \<Longrightarrow>
    worker_step s (s\<lparr>sn_worker := Held c 1, sn_items := cs, sn_taken := sn_taken s @ [c]\<rparr>)"
| pop_closed: "sn_worker s = Pop \<Longrightarrow> sn_items s = [] \<Longrightarrow> sn_closed s \<Longrightarrow> worker_step s (s\<lparr>sn_worker := Empty\<rparr>)"
| held_stop: "sn_worker s = Held c a \<Longrightarrow> sn_stop s \<Longrightarrow>
    worker_step s (s\<lparr>sn_worker := Done, sn_abandoned := sn_abandoned s @ [(c, a)]\<rparr>)"
| held_go: "sn_worker s = Held c a \<Longrightarrow> \<not> sn_stop s \<Longrightarrow> sn_inflight s < so_connections (sn_options s) \<Longrightarrow>
    worker_step s (s\<lparr>sn_worker := Connect c a, sn_inflight := sn_inflight s + 1\<rparr>)"
| connect_ok: "sn_worker s = Connect c a \<Longrightarrow> next_connection s = (i, s1) \<Longrightarrow>
    worker_step s ((set_open i True s1)\<lparr>sn_worker := Top, sn_sending := sn_sending s1 @ [(i, c, a)]\<rparr>)"
| connect_fail: "sn_worker s = Connect c a \<Longrightarrow> next_connection s = (i, s1) \<Longrightarrow> \<not> cn_open (sn_connections s ! i) \<Longrightarrow>
    on_chunk_failure now c a (set_open i b s1) = (again, s2) \<Longrightarrow> worker_step s (s2\<lparr>sn_worker := FailedConnect\<rparr>)"
| connect_release: "sn_worker s = FailedConnect \<Longrightarrow> release_slot s = (n, s1) \<Longrightarrow> worker_step s (s1\<lparr>sn_worker := Top\<rparr>)"
| finish_enter: "sn_worker s = Empty \<Longrightarrow> worker_step s (s\<lparr>sn_worker := Check, sn_finishing := True\<rparr>)"
| check_true: "sn_worker s = Check \<Longrightarrow> sn_stop s \<or> sn_retry s \<noteq> [] \<or> sn_inflight s = 0 \<Longrightarrow>
    worker_step s (s\<lparr>sn_worker := Woke\<rparr>)"
| check_false: "sn_worker s = Check \<Longrightarrow> \<not> (sn_stop s \<or> sn_retry s \<noteq> [] \<or> sn_inflight s = 0) \<Longrightarrow>
    worker_step s (s\<lparr>sn_worker := Block\<rparr>)"
| block_wait: "sn_worker s = Block \<Longrightarrow> worker_step s (s\<lparr>sn_worker := Waiting\<rparr>)"
| woke_stop: "sn_worker s = Woke \<Longrightarrow> sn_stop s \<Longrightarrow> worker_step s (s\<lparr>sn_worker := Done\<rparr>)"
| woke_retry: "sn_worker s = Woke \<Longrightarrow> \<not> sn_stop s \<Longrightarrow> sn_retry s \<noteq> [] \<Longrightarrow>
    worker_step s (s\<lparr>sn_worker := Top, sn_finishing := False\<rparr>)"
| woke_last: "sn_worker s = Woke \<Longrightarrow> \<not> sn_stop s \<Longrightarrow> sn_retry s = [] \<Longrightarrow> worker_step s (s\<lparr>sn_worker := Last\<rparr>)"
| last_done: "sn_worker s = Last \<Longrightarrow> sn_inflight s = 0 \<Longrightarrow> worker_step s (s\<lparr>sn_worker := Done\<rparr>)"
| last_more: "sn_worker s = Last \<Longrightarrow> sn_inflight s \<noteq> 0 \<Longrightarrow>
    worker_step s (s\<lparr>sn_worker := Top, sn_finishing := False\<rparr>)"

text \<open>The completion of an asynchronous send and the rest of its handler, on the connection's thread.\<close>

inductive callback_step :: "sender \<Rightarrow> sender \<Rightarrow> bool" where
  sent_ok: "sn_sending s = xs @ (i, c, a) # ys \<Longrightarrow>
    callback_step s (on_chunk_success now c a (s\<lparr>sn_sending := xs @ ys, sn_callbacks := sn_callbacks s @ [Release]\<rparr>))"
| sent_failed: "sn_sending s = xs @ (i, c, a) # ys \<Longrightarrow>
    on_chunk_failure now c a (set_open i False (s\<lparr>sn_sending := xs @ ys\<rparr>)) = (again, s1) \<Longrightarrow> again \<longrightarrow> \<not> retry_locked s \<Longrightarrow>
    callback_step s (s1\<lparr>sn_callbacks := sn_callbacks s1 @ [if again then NotifyOne else Release]\<rparr>)"
| notify_one_step: "sn_callbacks s = xs @ NotifyOne # ys \<Longrightarrow>
    callback_step s ((wake s)\<lparr>sn_callbacks := xs @ Release # ys\<rparr>)"
| release_step: "sn_callbacks s = xs @ Release # ys \<Longrightarrow> release_slot s = (notify, s1) \<Longrightarrow>
    callback_step s (s1\<lparr>sn_callbacks := (if notify then xs @ NotifyAll # ys else xs @ ys)\<rparr>)"
| notify_all_step: "sn_callbacks s = xs @ NotifyAll # ys \<Longrightarrow> callback_step s ((wake s)\<lparr>sn_callbacks := xs @ ys\<rparr>)"

text \<open>The producer, and \<open>Sender::stop\<close>, which closes the queue before it requests the stop.\<close>

inductive client_step :: "sender \<Rightarrow> sender \<Rightarrow> bool" where
  produce: "\<not> sn_closed s \<Longrightarrow> client_step s (s\<lparr>sn_items := sn_items s @ [c]\<rparr>)"
| close_queue: "client_step s (s\<lparr>sn_closed := True\<rparr>)"
| request_stop: "sn_closed s \<Longrightarrow> client_step s (s\<lparr>sn_stop := True\<rparr>)"

inductive spurious_step :: "sender \<Rightarrow> sender \<Rightarrow> bool" where
  "sn_worker s = Waiting \<Longrightarrow> spurious_step s (s\<lparr>sn_worker := Check\<rparr>)"

definition internal_step :: "sender \<Rightarrow> sender \<Rightarrow> bool" where
  "internal_step s s' \<longleftrightarrow> worker_step s s' \<or> callback_step s s'"

definition sender_step :: "sender \<Rightarrow> sender \<Rightarrow> bool" where
  "sender_step s s' \<longleftrightarrow> internal_step s s' \<or> client_step s s' \<or> spurious_step s s'"

section \<open>The invariant\<close>

fun worker_holds :: "worker \<Rightarrow> pending_chunk list" where
  "worker_holds (Held c a) = [(c, a)]"
| "worker_holds (Connect c a) = [(c, a)]"
| "worker_holds _ = []"

fun worker_slots :: "worker \<Rightarrow> nat" where
  "worker_slots (Connect _ _) = 1"
| "worker_slots FailedConnect = 1"
| "worker_slots _ = 0"

definition slots_used :: "sender \<Rightarrow> nat" where
  "slots_used s = length (sn_sending s) + length (filter (\<lambda>k. k \<noteq> NotifyAll) (sn_callbacks s)) + worker_slots (sn_worker s)"

text \<open>Every chunk with an attempt number that is somewhere in the sender.\<close>

definition in_transit :: "sender \<Rightarrow> pending_chunk list" where
  "in_transit s = worker_holds (sn_worker s) @ sn_retry s @ map snd (sn_sending s)"

definition chunks_conserved :: "sender \<Rightarrow> bool" where
  "chunks_conserved s \<longleftrightarrow>
     mset (sn_taken s) = mset (sn_delivered s) + mset (map fst (sn_dropped s)) + mset (map fst (sn_abandoned s))
                         + mset (map fst (in_transit s))"

definition attempts_ok :: "sender \<Rightarrow> bool" where
  "attempts_ok s \<longleftrightarrow> list_all (\<lambda>a. 1 \<le> a \<and> a \<le> max_attempts s) (map snd (in_transit s)) \<and>
                   list_all (\<lambda>a. a = max_attempts s) (map snd (sn_dropped s))"

definition slots_ok :: "sender \<Rightarrow> bool" where
  "slots_ok s \<longleftrightarrow> sn_inflight s = slots_used s \<and> sn_inflight s \<le> so_connections (sn_options s) \<and>
     sn_next s < length (sn_connections s) \<and> length (sn_connections s) = so_connections (sn_options s)"

definition ending_ok :: "sender \<Rightarrow> bool" where
  "ending_ok s \<longleftrightarrow>
     (sn_worker s \<in> {Empty, Check, Block, Waiting, Woke, Last} \<longrightarrow> sn_items s = [] \<and> sn_closed s) \<and>
     (sn_worker s = Woke \<longrightarrow> sn_stop s \<or> sn_retry s \<noteq> [] \<or> sn_inflight s = 0) \<and>
     (sn_worker s = Last \<longrightarrow> sn_retry s = [] \<and> sn_inflight s = 0) \<and>
     (sn_worker s = Done \<longrightarrow> sn_stop s \<or> sn_items s = [] \<and> sn_closed s \<and> sn_retry s = [] \<and> sn_inflight s = 0 \<and>
        sn_abandoned s = []) \<and>
     (sn_worker s \<noteq> Done \<longrightarrow> sn_abandoned s = [])"

definition sender_ok :: "sender \<Rightarrow> bool" where [inv_defs]:
  "sender_ok s \<longleftrightarrow> chunks_conserved s \<and> attempts_ok s \<and> slots_ok s \<and> ending_ok s"

lemmas sender_ops = next_connection_def set_open_def on_chunk_failure_def on_chunk_success_def release_slot_def
  wake_def Let_def

lemma max_attempts_update [simp]:
  "max_attempts (s\<lparr>sn_connections := x1\<rparr>) = max_attempts s" "max_attempts (s\<lparr>sn_next := x2\<rparr>) = max_attempts s"
  "max_attempts (s\<lparr>sn_worker := x3\<rparr>) = max_attempts s" "max_attempts (s\<lparr>sn_retry := x4\<rparr>) = max_attempts s"
  "max_attempts (s\<lparr>sn_sending := x5\<rparr>) = max_attempts s" "max_attempts (s\<lparr>sn_callbacks := x6\<rparr>) = max_attempts s"
  "max_attempts (s\<lparr>sn_inflight := x7\<rparr>) = max_attempts s" "max_attempts (s\<lparr>sn_finishing := x8\<rparr>) = max_attempts s"
  "max_attempts (s\<lparr>sn_window := x9\<rparr>) = max_attempts s" "max_attempts (s\<lparr>sn_taken := y1\<rparr>) = max_attempts s"
  "max_attempts (s\<lparr>sn_delivered := y2\<rparr>) = max_attempts s" "max_attempts (s\<lparr>sn_dropped := y3\<rparr>) = max_attempts s"
  "max_attempts (s\<lparr>sn_abandoned := y3\<rparr>) = max_attempts s" "max_attempts (s\<lparr>sn_items := y4\<rparr>) = max_attempts s"
  "max_attempts (s\<lparr>sn_closed := y5\<rparr>) = max_attempts s" "max_attempts (s\<lparr>sn_stop := y5\<rparr>) = max_attempts s"
  by (simp_all add: max_attempts_def)

lemma max_attempts_pos: "1 \<le> max_attempts s" "Suc 0 \<le> max_attempts s"
  by (simp_all add: max_attempts_def)

lemma sender_new_ok: "sender_ok (sender_new opts now)"
  by (simp add: sender_new_def sender_ok_def chunks_conserved_def attempts_ok_def slots_ok_def ending_ok_def
      in_transit_def slots_used_def Let_def)

lemma worker_step_conserved: "worker_step s s' \<Longrightarrow> chunks_conserved s \<Longrightarrow> chunks_conserved s'"
  by (cases rule: worker_step.cases, assumption)
     (auto simp: chunks_conserved_def in_transit_def sender_ops split: if_splits)

lemma callback_step_conserved: "callback_step s s' \<Longrightarrow> chunks_conserved s \<Longrightarrow> chunks_conserved s'"
  by (cases rule: callback_step.cases, assumption)
     (auto simp: chunks_conserved_def in_transit_def sender_ops split: if_splits)

lemma worker_step_attempts: "worker_step s s' \<Longrightarrow> attempts_ok s \<Longrightarrow> attempts_ok s'"
  by (cases rule: worker_step.cases, assumption)
     (auto simp: attempts_ok_def in_transit_def sender_ops max_attempts_pos split: if_splits)

lemma callback_step_attempts: "callback_step s s' \<Longrightarrow> attempts_ok s \<Longrightarrow> attempts_ok s'"
  by (cases rule: callback_step.cases, assumption)
     (auto simp: attempts_ok_def in_transit_def sender_ops max_attempts_pos split: if_splits)

lemma worker_step_slots: "worker_step s s' \<Longrightarrow> slots_ok s \<Longrightarrow> slots_ok s'"
  by (cases rule: worker_step.cases, assumption)
     (auto simp: slots_ok_def slots_used_def sender_ops split: if_splits)

lemma callback_step_slots: "callback_step s s' \<Longrightarrow> slots_ok s \<Longrightarrow> slots_ok s'"
  by (cases rule: callback_step.cases, assumption)
     (auto simp: slots_ok_def slots_used_def sender_ops split: if_splits)

lemma worker_step_ending: "worker_step s s' \<Longrightarrow> ending_ok s \<Longrightarrow> ending_ok s'"
  by (cases rule: worker_step.cases, assumption)
     (auto simp: ending_ok_def sender_ops split: if_splits)

lemma slots_ok_inflight:
  assumes "slots_ok s"
  shows "sn_sending s = xs @ x # ys \<Longrightarrow> 0 < sn_inflight s"
    and "sn_callbacks s = us @ k # vs \<Longrightarrow> k \<noteq> NotifyAll \<Longrightarrow> 0 < sn_inflight s"
  using assms by (simp_all add: slots_ok_def slots_used_def)

text \<open>While a slot is taken, the end conditions rest on the stop flag and the retry queue alone.\<close>

lemma ending_ok_busy:
  assumes "ending_ok s" and "0 < sn_inflight s" and "sn_worker s' = sn_worker s"
    and "sn_items s' = sn_items s" and "sn_closed s' = sn_closed s" and "sn_stop s' = sn_stop s"
    and "sn_retry s \<noteq> [] \<longrightarrow> sn_retry s' \<noteq> []" and "sn_abandoned s' = sn_abandoned s"
  shows "ending_ok s'"
  using assms unfolding ending_ok_def by auto

lemma ending_ok_wake: "ending_ok s \<Longrightarrow> ending_ok ((wake s)\<lparr>sn_callbacks := ks\<rparr>)"
  unfolding ending_ok_def wake_def by auto

lemma on_chunk_failure_frame:
  assumes "on_chunk_failure now c a s = (again, s')"
  shows "sn_worker s' = sn_worker s" "sn_items s' = sn_items s" "sn_closed s' = sn_closed s" "sn_stop s' = sn_stop s"
    "sn_retry s \<noteq> [] \<longrightarrow> sn_retry s' \<noteq> []" "sn_abandoned s' = sn_abandoned s" "sn_inflight s' = sn_inflight s"
  using assms by (auto simp: on_chunk_failure_def Let_def split: if_splits)

lemma callback_step_ending:
  assumes "callback_step s s'" and "ending_ok s" and "slots_ok s"
  shows "ending_ok s'"
  using assms(1)
proof cases
  case (sent_ok xs i c a ys now)
  show ?thesis
    by (rule ending_ok_busy [OF assms(2) slots_ok_inflight(1) [OF assms(3) sent_ok(2)]])
       (simp_all add: sent_ok(1) on_chunk_success_def Let_def)
next
  case (sent_failed xs i c a ys now again s1)
  show ?thesis
    by (rule ending_ok_busy [OF assms(2) slots_ok_inflight(1) [OF assms(3) sent_failed(2)]])
       (use on_chunk_failure_frame [OF sent_failed(3)] in \<open>simp_all add: sent_failed(1) set_open_def\<close>)
next
  case (notify_one_step xs ys)
  then show ?thesis using ending_ok_wake [OF assms(2)] by simp
next
  case (release_step xs ys notify s1)
  show ?thesis
    by (rule ending_ok_busy [OF assms(2) slots_ok_inflight(2) [OF assms(3) release_step(2)]])
       (use release_step(3) in \<open>auto simp: release_step(1) release_slot_def Let_def split: if_splits\<close>)
next
  case (notify_all_step xs ys)
  then show ?thesis using ending_ok_wake [OF assms(2)] by simp
qed

lemma internal_step_ok:
  assumes "internal_step s s'" and "sender_ok s"
  shows "sender_ok s'"
proof -
  have ok: "chunks_conserved s" "attempts_ok s" "slots_ok s" "ending_ok s"
    using assms(2) by (simp_all add: sender_ok_def)
  show ?thesis
    using assms(1) unfolding internal_step_def
  proof
    assume st: "worker_step s s'"
    show ?thesis
      unfolding sender_ok_def
      by (intro conjI worker_step_conserved [OF st] worker_step_attempts [OF st] worker_step_slots [OF st]
          worker_step_ending [OF st] ok)
  next
    assume st: "callback_step s s'"
    show ?thesis
      unfolding sender_ok_def
      by (intro conjI callback_step_conserved [OF st] callback_step_attempts [OF st] callback_step_slots [OF st]
          callback_step_ending [OF st] ok)
  qed
qed

lemma client_step_ok:
  assumes "client_step s s'" and "sender_ok s"
  shows "sender_ok s'"
proof -
  have e: "ending_ok s'"
    using assms(1)
  proof cases
    case (produce c)
    then show ?thesis
      using assms(2) by (simp add: sender_ok_def ending_ok_def)
  qed (use assms(2) in \<open>auto simp: sender_ok_def ending_ok_def\<close>)
  have "chunks_conserved s' \<and> attempts_ok s' \<and> slots_ok s'"
    using assms
    by cases (simp_all add: sender_ok_def chunks_conserved_def attempts_ok_def slots_ok_def slots_used_def in_transit_def)
  with e show ?thesis
    by (simp add: sender_ok_def)
qed

lemma spurious_step_ok:
  assumes "spurious_step s s'" and "sender_ok s"
  shows "sender_ok s'"
  using assms
  by cases (simp_all add: sender_ok_def chunks_conserved_def attempts_ok_def slots_ok_def slots_used_def in_transit_def ending_ok_def)

definition sender_start :: "sender \<Rightarrow> bool" where
  "sender_start s \<longleftrightarrow> (\<exists>opts now. s = sender_new opts now)"

interpretation sender_sys: invariant_system sender_start sender_step sender_ok
  by unfold_locales
     (use sender_new_ok internal_step_ok client_step_ok spurious_step_ok in
       \<open>auto simp: sender_start_def sender_step_def\<close>)

section \<open>The wire format\<close>

definition serialize :: "file_chunk \<Rightarrow> byte list" where
  "serialize c = bytes_of (''FILE '' @ fd_path (ch_descriptor c) @ [newline]
       @ ''SHA256 '' @ ch_sha256_hex c @ [newline]
       @ ''ORIGINAL_SIZE '' @ show_nat (fd_size (ch_descriptor c)) @ [newline]
       @ ''CHUNK '' @ show_nat (ch_index c) @ ''/'' @ show_nat (ch_total_chunks c) @ [newline]
       @ ''PAYLOAD_SIZE '' @ show_nat (length (ch_payload c)) @ [newline, newline]) @ ch_payload c"

lemma stoul_original_size: "stoul (''ORIGINAL_SIZE '' @ s) = Inl (InvalidArgument ''stoul'')"
  by (simp add: stoul_def strto_def read_sign_def isspace_def isdigit_def)

lemma serialize_lines:
  "serialize c = bytes_of (''FILE '' @ fd_path (ch_descriptor c)) @ 10 # (bytes_of (''SHA256 '' @ ch_sha256_hex c) @ 10 #
     (bytes_of (''ORIGINAL_SIZE '' @ show_nat (fd_size (ch_descriptor c))) @ 10 #
      (bytes_of (''CHUNK '' @ show_nat (ch_index c) @ ''/'' @ show_nat (ch_total_chunks c) @ [newline]
       @ ''PAYLOAD_SIZE '' @ show_nat (length (ch_payload c)) @ [newline, newline]) @ ch_payload c)))"
  by (simp add: serialize_def bytes_of_def newline_byte)

section \<open>Runs that show the defects\<close>

text \<open>A state of a sender with one connection, by the parts that change in the runs below.\<close>

definition scene :: "worker \<Rightarrow> file_chunk list \<Rightarrow> bool \<Rightarrow> bool \<Rightarrow> pending_chunk list \<Rightarrow> (nat \<times> pending_chunk) list \<Rightarrow>
    callback list \<Rightarrow> nat \<Rightarrow> bool \<Rightarrow> file_chunk list \<Rightarrow> file_chunk list \<Rightarrow> bool \<Rightarrow> metrics_window \<Rightarrow> sender" where
  "scene wk items cl st retry sending cbs infl fin taken delivered opened window =
     \<lparr>sn_options = sender_options_default\<lparr>so_connections := 1\<rparr>,
      sn_connections = [(make_connection sender_options_default 0)\<lparr>cn_open := opened\<rparr>], sn_next = 0,
      sn_items = items, sn_closed = cl, sn_stop = st, sn_worker = wk, sn_retry = retry, sn_sending = sending,
      sn_callbacks = cbs, sn_inflight = infl, sn_finishing = fin, sn_window = window, sn_taken = taken,
      sn_delivered = delivered, sn_dropped = [], sn_abandoned = []\<rparr>"

lemma scene_new:
  "sender_new (sender_options_default\<lparr>so_connections := 1\<rparr>) 0 = scene Top [] False False [] [] [] 0 False [] [] False (window_reset 0)"
  by (simp add: sender_new_def scene_def make_connection_def sender_options_default_def Let_def)

lemma step_worker: "worker_step s s' \<Longrightarrow> sender_step s s'"
  and step_callback: "callback_step s s' \<Longrightarrow> sender_step s s'"
  and step_client: "client_step s s' \<Longrightarrow> sender_step s s'"
  by (simp_all add: sender_step_def internal_step_def)

lemma run_step: "sender_step a b \<Longrightarrow> sender_step\<^sup>*\<^sup>* b c \<Longrightarrow> sender_step\<^sup>*\<^sup>* a c"
  by (rule converse_rtranclp_into_rtranclp)

lemma run_last: "sender_step a b \<Longrightarrow> sender_step\<^sup>*\<^sup>* a b"
  by (rule r_into_rtranclp)

text \<open>The common beginning: one chunk is sent, the worker comes back to the queue.\<close>

lemma scene_sending:
  "sender_step\<^sup>*\<^sup>* (scene Top [] False False [] [] [] 0 False [] [] False w)
     (scene Pop [] False False [] [(0, c, 1)] [] 1 False [c] [] True w)"
proof -
  have 1: "sender_step (scene Top [] False False [] [] [] 0 False [] [] False w)
      (scene Top [c] False False [] [] [] 0 False [] [] False w)"
    using step_client [OF produce [of "scene Top [] False False [] [] [] 0 False [] [] False w" c]]
    by (simp add: scene_def)
  have 2: "sender_step (scene Top [c] False False [] [] [] 0 False [] [] False w)
      (scene Retry [c] False False [] [] [] 0 False [] [] False w)"
    using step_worker [OF top_go [of "scene Top [c] False False [] [] [] 0 False [] [] False w"]]
    by (simp add: scene_def)
  have 3: "sender_step (scene Retry [c] False False [] [] [] 0 False [] [] False w)
      (scene Pop [c] False False [] [] [] 0 False [] [] False w)"
    using step_worker [OF retry_none [of "scene Retry [c] False False [] [] [] 0 False [] [] False w"]]
    by (simp add: scene_def)
  have 4: "sender_step (scene Pop [c] False False [] [] [] 0 False [] [] False w)
      (scene (Held c 1) [] False False [] [] [] 0 False [c] [] False w)"
    using step_worker [OF pop_item [of "scene Pop [c] False False [] [] [] 0 False [] [] False w" c "[]"]]
    by (simp add: scene_def)
  have 5: "sender_step (scene (Held c 1) [] False False [] [] [] 0 False [c] [] False w)
      (scene (Connect c 1) [] False False [] [] [] 1 False [c] [] False w)"
    using step_worker [OF held_go [of "scene (Held c 1) [] False False [] [] [] 0 False [c] [] False w" c 1]]
    by (simp add: scene_def)
  have 6: "sender_step (scene (Connect c 1) [] False False [] [] [] 1 False [c] [] False w)
      (scene Top [] False False [] [(0, c, 1)] [] 1 False [c] [] True w)"
    using step_worker [OF connect_ok [of "scene (Connect c 1) [] False False [] [] [] 1 False [c] [] False w" c 1 0
          "scene (Connect c 1) [] False False [] [] [] 1 False [c] [] False w"]]
    by (simp add: scene_def next_connection_def set_open_def)
  have 7: "sender_step (scene Top [] False False [] [(0, c, 1)] [] 1 False [c] [] True w)
      (scene Retry [] False False [] [(0, c, 1)] [] 1 False [c] [] True w)"
    using step_worker [OF top_go [of "scene Top [] False False [] [(0, c, 1)] [] 1 False [c] [] True w"]]
    by (simp add: scene_def)
  have 8: "sender_step (scene Retry [] False False [] [(0, c, 1)] [] 1 False [c] [] True w)
      (scene Pop [] False False [] [(0, c, 1)] [] 1 False [c] [] True w)"
    using step_worker [OF retry_none [of "scene Retry [] False False [] [(0, c, 1)] [] 1 False [c] [] True w"]]
    by (simp add: scene_def)
  show ?thesis
    by (rule run_step [OF 1] run_step [OF 2]
        run_step [OF 3] run_step [OF 4]
        run_step [OF 5] run_step [OF 6]
        run_step [OF 7] run_last [OF 8])+
qed

text \<open>
  The lost wake-up: the worker has found a send under way and is about to wait; the handler gives the
  slot back and notifies without \<open>retry_mutex_\<close> before the worker waits.
\<close>

lemma scene_lost_wakeup:
  "\<exists>w'. sender_step\<^sup>*\<^sup>* (scene Pop [] False False [] [(0, c, 1)] [] 1 False [c] [] True w)
     (scene Waiting [] True False [] [] [] 0 True [c] [c] True w')"
proof -
  define w' where "w' = sn_window (on_chunk_success 0 c 1 (scene Block [] True False [] [(0, c, 1)] [] 1 True [c] [] True w))"
  have 1: "sender_step (scene Pop [] False False [] [(0, c, 1)] [] 1 False [c] [] True w)
      (scene Pop [] True False [] [(0, c, 1)] [] 1 False [c] [] True w)"
    using step_client [OF close_queue [of "scene Pop [] False False [] [(0, c, 1)] [] 1 False [c] [] True w"]]
    by (simp add: scene_def)
  have 2: "sender_step (scene Pop [] True False [] [(0, c, 1)] [] 1 False [c] [] True w)
      (scene Empty [] True False [] [(0, c, 1)] [] 1 False [c] [] True w)"
    using step_worker [OF pop_closed [of "scene Pop [] True False [] [(0, c, 1)] [] 1 False [c] [] True w"]]
    by (simp add: scene_def)
  have 3: "sender_step (scene Empty [] True False [] [(0, c, 1)] [] 1 False [c] [] True w)
      (scene Check [] True False [] [(0, c, 1)] [] 1 True [c] [] True w)"
    using step_worker [OF finish_enter [of "scene Empty [] True False [] [(0, c, 1)] [] 1 False [c] [] True w"]]
    by (simp add: scene_def)
  have 4: "sender_step (scene Check [] True False [] [(0, c, 1)] [] 1 True [c] [] True w)
      (scene Block [] True False [] [(0, c, 1)] [] 1 True [c] [] True w)"
    using step_worker [OF check_false [of "scene Check [] True False [] [(0, c, 1)] [] 1 True [c] [] True w"]]
    by (simp add: scene_def)
  have 5: "sender_step (scene Block [] True False [] [(0, c, 1)] [] 1 True [c] [] True w)
      (scene Block [] True False [] [] [Release] 1 True [c] [c] True w')"
    using step_callback [OF sent_ok [of "scene Block [] True False [] [(0, c, 1)] [] 1 True [c] [] True w" "[]" 0 c 1 "[]" 0]]
    by (simp add: scene_def w'_def on_chunk_success_def Let_def)
  have 6: "sender_step (scene Block [] True False [] [] [Release] 1 True [c] [c] True w')
      (scene Block [] True False [] [] [NotifyAll] 0 True [c] [c] True w')"
    using step_callback [OF release_step [of "scene Block [] True False [] [] [Release] 1 True [c] [c] True w'" "[]" "[]" True
          "scene Block [] True False [] [] [Release] 0 True [c] [c] True w'"]]
    by (simp add: scene_def release_slot_def)
  have 7: "sender_step (scene Block [] True False [] [] [NotifyAll] 0 True [c] [c] True w')
      (scene Block [] True False [] [] [] 0 True [c] [c] True w')"
    using step_callback [OF notify_all_step [of "scene Block [] True False [] [] [NotifyAll] 0 True [c] [c] True w'" "[]" "[]"]]
    by (simp add: scene_def wake_def)
  have 8: "sender_step (scene Block [] True False [] [] [] 0 True [c] [c] True w')
      (scene Waiting [] True False [] [] [] 0 True [c] [c] True w')"
    using step_worker [OF block_wait [of "scene Block [] True False [] [] [] 0 True [c] [c] True w'"]]
    by (simp add: scene_def)
  show ?thesis
    by (rule exI [of _ w'])
       (rule run_step [OF 1] run_step [OF 2]
        run_step [OF 3] run_step [OF 4]
        run_step [OF 5] run_step [OF 6]
        run_step [OF 7] run_last [OF 8])+
qed

lemma scene_failed_send:
  "sender_step\<^sup>*\<^sup>* (scene Pop [] False False [] [(0, c, 1)] [] 1 False [c] [] True w)
     (scene Pop [] False False [(c, 2)] [] [] 0 False [c] [] False w)"
proof -
  have 1: "sender_step (scene Pop [] False False [] [(0, c, 1)] [] 1 False [c] [] True w)
      (scene Pop [] False False [(c, 2)] [] [NotifyOne] 1 False [c] [] False w)"
    using step_callback [OF sent_failed [of "scene Pop [] False False [] [(0, c, 1)] [] 1 False [c] [] True w" "[]" 0 c 1 "[]" 0 True
          "scene Pop [] False False [(c, 2)] [] [] 1 False [c] [] False w"]]
    by (simp add: scene_def set_open_def on_chunk_failure_def max_attempts_def sender_options_default_def
        retry_locked_def numeral_eq_Suc)
  have 2: "sender_step (scene Pop [] False False [(c, 2)] [] [NotifyOne] 1 False [c] [] False w)
      (scene Pop [] False False [(c, 2)] [] [Release] 1 False [c] [] False w)"
    using step_callback [OF notify_one_step [of "scene Pop [] False False [(c, 2)] [] [NotifyOne] 1 False [c] [] False w" "[]" "[]"]]
    by (simp add: scene_def wake_def)
  have 3: "sender_step (scene Pop [] False False [(c, 2)] [] [Release] 1 False [c] [] False w)
      (scene Pop [] False False [(c, 2)] [] [] 0 False [c] [] False w)"
    using step_callback [OF release_step [of "scene Pop [] False False [(c, 2)] [] [Release] 1 False [c] [] False w" "[]" "[]" False
          "scene Pop [] False False [(c, 2)] [] [Release] 0 False [c] [] False w"]]
    by (simp add: scene_def release_slot_def)
  show ?thesis
    by (rule run_step [OF 1] run_step [OF 2]
        run_last [OF 3])+
qed

inductive_cases worker_stepE: "worker_step s s'"

text \<open>A worker that waits, or that waits in \<open>pop\<close> for an open empty queue, can do nothing by itself.\<close>

lemma stuck_states:
  assumes "sn_sending s = []" and "sn_callbacks s = []"
    and "sn_worker s = Waiting \<or> sn_worker s = Pop \<and> sn_items s = [] \<and> \<not> sn_closed s"
  shows "\<nexists>s'. internal_step s s'"
proof
  assume "\<exists>s'. internal_step s s'"
  then obtain s' where "worker_step s s' \<or> callback_step s s'" by (auto simp: internal_step_def)
  then show False
  proof
    assume "worker_step s s'" then show False using assms(3) by cases auto
  next
    assume "callback_step s s'" then show False using assms(1,2) by cases auto
  qed
qed

section \<open>Properties\<close>

text \<open>C4. The sender neither loses nor duplicates a chunk, under every interleaving of worker, completion
  handlers, producer and network failures: the chunks taken from the queue are, as a multiset, those
  delivered, those dropped after exactly the maximal number of attempts, those in the hands of a
  stopped worker and those in transit; no more sends than connections are under way and no attempt
  number exceeds the limit.\<close>

theorem sender_conserves_chunks:
  assumes "sender_start s" and "sender_step\<^sup>*\<^sup>* s s'"
  shows "mset (sn_taken s') = mset (sn_delivered s') + mset (map fst (sn_dropped s')) + mset (map fst (sn_abandoned s'))
           + mset (map fst (in_transit s')) \<and>
         list_all (\<lambda>a. a = max_attempts s') (map snd (sn_dropped s')) \<and>
         list_all (\<lambda>a. 1 \<le> a \<and> a \<le> max_attempts s') (map snd (in_transit s')) \<and>
         length (sn_sending s') \<le> sn_inflight s' \<and> sn_inflight s' \<le> length (sn_connections s')"
proof -
  have "sender_ok s'"
    by (rule sender_sys.reachable_good [OF assms])
  then show ?thesis
    by (simp add: sender_ok_def chunks_conserved_def attempts_ok_def slots_ok_def slots_used_def)
qed

definition sample_file_chunk :: file_chunk where
  "sample_file_chunk = \<lparr>ch_descriptor = \<lparr>fd_path = ''a'', fd_size = 2, fd_time = 0\<rparr>, ch_sha256_hex = ''00'', ch_index = 0,
     ch_total_chunks = 1, ch_payload = [1, 7, 1, 8, 0]\<rparr>"

lemma scene_start: "sender_start (scene Top [] False False [] [] [] 0 False [] [] False (window_reset 0))"
  unfolding sender_start_def scene_new [symmetric] by blast

theorem sender_conserves_chunks_witness:
  "mset (sn_taken (scene Pop [] False False [(sample_file_chunk, 2)] [] [] 0 False [sample_file_chunk] [] False (window_reset 0)))
     = {#sample_file_chunk#} \<and>
   in_transit (scene Pop [] False False [(sample_file_chunk, 2)] [] [] 0 False [sample_file_chunk] [] False (window_reset 0))
     = [(sample_file_chunk, 2)]"
  using sender_conserves_chunks [OF scene_start rtranclp_trans [OF scene_sending scene_failed_send], of sample_file_chunk]
  by (simp add: in_transit_def scene_def)

text \<open>C7. When the worker ends by itself (nobody has requested a stop), the queue is closed and empty, and
  every chunk ever taken from it has been delivered or was dropped after the maximal number of attempts; nothing is
  left in a retry queue or under way.\<close>

theorem sender_ends_clean:
  assumes "sender_start s" and "sender_step\<^sup>*\<^sup>* s s'" and "sn_worker s' = Done" and "\<not> sn_stop s'"
  shows "sn_closed s' \<and> sn_items s' = [] \<and> in_transit s' = [] \<and>
         mset (sn_taken s') = mset (sn_delivered s') + mset (map fst (sn_dropped s')) \<and>
         list_all (\<lambda>a. a = max_attempts s') (map snd (sn_dropped s'))"
proof -
  have ok: "sender_ok s'"
    by (rule sender_sys.reachable_good [OF assms(1,2)])
  then have e: "sn_items s' = []" "sn_closed s'" "sn_retry s' = []" "sn_inflight s' = 0" "sn_abandoned s' = []"
    using assms(3,4) by (simp_all add: sender_ok_def ending_ok_def)
  then have "sn_sending s' = []"
    using ok by (simp add: sender_ok_def slots_ok_def slots_used_def)
  with e ok show ?thesis
    using assms(3) by (simp add: sender_ok_def chunks_conserved_def attempts_ok_def in_transit_def)
qed

lemma scene_ends:
  "sender_step\<^sup>*\<^sup>* (scene Top [] False False [] [] [] 0 False [] [] False w) (scene Done [] True False [] [] [] 0 True [] [] False w)"
proof -
  have 1: "sender_step (scene Top [] False False [] [] [] 0 False [] [] False w)
      (scene Top [] True False [] [] [] 0 False [] [] False w)"
    using step_client [OF close_queue [of "scene Top [] False False [] [] [] 0 False [] [] False w"]]
    by (simp add: scene_def)
  have 2: "sender_step (scene Top [] True False [] [] [] 0 False [] [] False w) (scene Retry [] True False [] [] [] 0 False [] [] False w)"
    using step_worker [OF top_go [of "scene Top [] True False [] [] [] 0 False [] [] False w"]]
    by (simp add: scene_def)
  have 3: "sender_step (scene Retry [] True False [] [] [] 0 False [] [] False w) (scene Pop [] True False [] [] [] 0 False [] [] False w)"
    using step_worker [OF retry_none [of "scene Retry [] True False [] [] [] 0 False [] [] False w"]]
    by (simp add: scene_def)
  have 4: "sender_step (scene Pop [] True False [] [] [] 0 False [] [] False w) (scene Empty [] True False [] [] [] 0 False [] [] False w)"
    using step_worker [OF pop_closed [of "scene Pop [] True False [] [] [] 0 False [] [] False w"]]
    by (simp add: scene_def)
  have 5: "sender_step (scene Empty [] True False [] [] [] 0 False [] [] False w) (scene Check [] True False [] [] [] 0 True [] [] False w)"
    using step_worker [OF finish_enter [of "scene Empty [] True False [] [] [] 0 False [] [] False w"]]
    by (simp add: scene_def)
  have 6: "sender_step (scene Check [] True False [] [] [] 0 True [] [] False w) (scene Woke [] True False [] [] [] 0 True [] [] False w)"
    using step_worker [OF check_true [of "scene Check [] True False [] [] [] 0 True [] [] False w"]]
    by (simp add: scene_def)
  have 7: "sender_step (scene Woke [] True False [] [] [] 0 True [] [] False w) (scene Last [] True False [] [] [] 0 True [] [] False w)"
    using step_worker [OF woke_last [of "scene Woke [] True False [] [] [] 0 True [] [] False w"]]
    by (simp add: scene_def)
  have 8: "sender_step (scene Last [] True False [] [] [] 0 True [] [] False w) (scene Done [] True False [] [] [] 0 True [] [] False w)"
    using step_worker [OF last_done [of "scene Last [] True False [] [] [] 0 True [] [] False w"]]
    by (simp add: scene_def)
  show ?thesis
    by (rule run_step [OF 1] run_step [OF 2] run_step [OF 3] run_step [OF 4] run_step [OF 5] run_step [OF 6]
        run_step [OF 7] run_last [OF 8])+
qed

theorem sender_ends_clean_witness:
  "in_transit (scene Done [] True False [] [] [] 0 True [] [] False (window_reset 0)) = []"
  using sender_ends_clean [OF scene_start scene_ends] by (simp add: scene_def)

text \<open>Stopping the sender abandons the queue: \<open>stop\<close> requests the stop right after closing the queue,
  and a worker that sees the request ends. For any number of queued chunks there is a run of the
  client's shutdown sequence after which the worker has ended, all of them are still queued and none was sent.\<close>

theorem sender_stop_abandons_queue:
  "\<exists>s'. sender_step\<^sup>*\<^sup>* (sender_new opts now) s' \<and> sn_worker s' = Done \<and> sn_closed s' \<and> sn_items s' = cs \<and>
        sn_delivered s' = [] \<and> (\<nexists>s''. worker_step s' s'')"
proof -
  define s0 where "s0 = sender_new opts now"
  have s0: "sn_worker s0 = Top" "\<not> sn_closed s0" "\<not> sn_stop s0" "sn_items s0 = []" "sn_delivered s0 = []"
    by (simp_all add: s0_def sender_new_def Let_def)
  have produced: "sender_step\<^sup>*\<^sup>* s0 (s0\<lparr>sn_items := cs\<rparr>)"
  proof (induction cs rule: rev_induct)
    case Nil
    have "s0\<lparr>sn_items := []\<rparr> = s0" using s0(4) by simp
    then show ?case by simp
  next
    case (snoc c cs)
    have "sender_step (s0\<lparr>sn_items := cs\<rparr>) (s0\<lparr>sn_items := cs @ [c]\<rparr>)"
      using step_client [OF produce [of "s0\<lparr>sn_items := cs\<rparr>" c]] s0(2) by simp
    with snoc show ?case by (rule rtranclp.rtrancl_into_rtrancl)
  qed
  let ?s1 = "s0\<lparr>sn_items := cs, sn_closed := True\<rparr>" and ?s2 = "s0\<lparr>sn_items := cs, sn_closed := True, sn_stop := True\<rparr>"
  let ?s3 = "?s2\<lparr>sn_worker := Done\<rparr>"
  have "sender_step (s0\<lparr>sn_items := cs\<rparr>) ?s1"
    using step_client [OF close_queue [of "s0\<lparr>sn_items := cs\<rparr>"]] by simp
  moreover have "sender_step ?s1 ?s2"
    using step_client [OF request_stop [of ?s1]] by simp
  moreover have "sender_step ?s2 ?s3"
    using step_worker [OF top_stop [of ?s2]] s0(1) by simp
  ultimately have "sender_step\<^sup>*\<^sup>* s0 ?s3"
    using produced by (meson rtranclp.rtrancl_into_rtrancl)
  moreover have "\<not> worker_step ?s3 s''" for s''
  proof
    assume "worker_step ?s3 s''"
    then show False by cases auto
  qed
  ultimately show ?thesis
    unfolding s0_def [symmetric] using s0(5) by (intro exI [of _ ?s3]) simp
qed

text \<open>C39. A wake-up of the sender can be lost for ever: \<open>release_slot\<close> notifies \<open>retry_cv_\<close> without holding
  \<open>retry_mutex_\<close>, so the notification can fall between the worker's look at \<open>inflight_\<close> and its wait.
  There is a run in which the only chunk is delivered, nothing is under way any more, the stop
  has been requested, and the worker still waits with no step of any thread left: \<open>Sender::stop\<close> never returns.\<close>

theorem sender_lost_wakeup:
  "\<exists>s s'. sender_start s \<and> sender_step\<^sup>*\<^sup>* s s' \<and> sn_worker s' = Waiting \<and> sn_stop s' \<and> sn_inflight s' = 0 \<and>
     sn_items s' = [] \<and> sn_delivered s' = [c] \<and> (\<nexists>s''. internal_step s' s'')"
proof -
  obtain w' where run: "sender_step\<^sup>*\<^sup>* (scene Top [] False False [] [] [] 0 False [] [] False (window_reset 0))
      (scene Waiting [] True False [] [] [] 0 True [c] [c] True w')"
    using rtranclp_trans [OF scene_sending] scene_lost_wakeup by metis
  let ?s = "scene Waiting [] True True [] [] [] 0 True [c] [c] True w'"
  have "sender_step (scene Waiting [] True False [] [] [] 0 True [c] [c] True w') ?s"
    using step_client [OF request_stop [of "scene Waiting [] True False [] [] [] 0 True [c] [c] True w'"]]
    by (simp add: scene_def)
  with run have "sender_step\<^sup>*\<^sup>* (scene Top [] False False [] [] [] 0 False [] [] False (window_reset 0)) ?s"
    by (rule rtranclp.rtrancl_into_rtrancl)
  moreover have "\<nexists>s''. internal_step ?s s''"
    by (rule stuck_states) (simp_all add: scene_def)
  ultimately show ?thesis
    using scene_start by (intro exI conjI) (assumption | simp add: scene_def)+
qed

text \<open>A failed chunk is not retried in time: the worker looks at the retry queue only before it waits
  in \<open>queue_.pop\<close>, and the handler's notification goes to another condition variable. There is a run
  in which a chunk waits for its second attempt, no connection is busy, and no thread of the sender
  can do anything until the producer delivers another chunk or closes the queue.\<close>

theorem retry_waits_for_next_chunk:
  "\<exists>s s'. sender_start s \<and> sender_step\<^sup>*\<^sup>* s s' \<and> sn_retry s' = [(c, 2)] \<and> sn_inflight s' = 0 \<and> \<not> sn_closed s' \<and>
     (\<nexists>s''. internal_step s' s'')"
proof -
  let ?s = "scene Pop [] False False [(c, 2)] [] [] 0 False [c] [] False (window_reset 0)"
  have "\<nexists>s''. internal_step ?s s''"
    by (rule stuck_states) (simp_all add: scene_def)
  then show ?thesis
    using scene_start rtranclp_trans [OF scene_sending [of "window_reset 0" c] scene_failed_send]
    by (intro exI conjI) (assumption | simp add: scene_def)+
qed

text \<open>C38. The client and the server do not speak the same protocol: whatever segments deliver a serialized
  chunk to the server's data handler, its third header line is not a number, so the request is
  counted as an error, nothing is stored and no reply is sent.\<close>

theorem client_chunk_refused_by_server:
  assumes "newline \<notin> set (fd_path (ch_descriptor c))" and "newline \<notin> set (ch_sha256_hex c)"
    and "concat segs = serialize c @ rest"
  shows "handle_data en segs sv w = Some ([], count_chunk_error sv, w)"
proof -
  let ?l1 = "''FILE '' @ fd_path (ch_descriptor c)" and ?l2 = "''SHA256 '' @ ch_sha256_hex c"
    and ?l3 = "''ORIGINAL_SIZE '' @ show_nat (fd_size (ch_descriptor c))"
  define r3 where "r3 = bytes_of (''CHUNK '' @ show_nat (ch_index c) @ ''/'' @ show_nat (ch_total_chunks c) @ [newline]
       @ ''PAYLOAD_SIZE '' @ show_nat (length (ch_payload c)) @ [newline, newline]) @ ch_payload c @ rest"
  have s0: "stream (segs, []) = bytes_of ?l1 @ 10 # (bytes_of ?l2 @ 10 # (bytes_of ?l3 @ 10 # r3))"
    by (simp add: stream_def assms(3) serialize_lines r3_def)
  have n: "newline \<notin> set ?l1" "newline \<notin> set ?l2" "newline \<notin> set ?l3"
    using assms(1,2) show_nat_no_newline [of "fd_size (ch_descriptor c)"] by auto
  obtain c1 where l1: "line_of (segs, []) = Inr (?l1, c1)" and s1: "stream c1 = bytes_of ?l2 @ 10 # (bytes_of ?l3 @ 10 # r3)"
    using any_segments.line_of_holds [OF s0 n(1)] .
  obtain c2 where l2: "line_of c1 = Inr (?l2, c2)" and s2: "stream c2 = bytes_of ?l3 @ 10 # r3"
    using any_segments.line_of_holds [OF s1 n(2)] .
  obtain c3 where l3: "line_of c2 = Inr (?l3, c3)"
    using any_segments.line_of_holds [OF s2 n(3)] .
  have "receive_chunk (en_payload_limit en) (segs, []) = Inl (Thrown (InvalidArgument ''stoul''))"
    unfolding receive_chunk_def l1 bindE.simps prod.case l2 l3 throwing_def stoul_original_size sum.case ..
  then show ?thesis
    by (simp add: handle_data_def)
qed

theorem client_chunk_refused_by_server_witness:
  "handle_data sample_env [serialize sample_file_chunk] sample_server empty_world
     = Some ([], count_chunk_error sample_server, empty_world)"
  by (rule client_chunk_refused_by_server [of sample_file_chunk]) (simp_all add: sample_file_chunk_def)

end
