(* ===== verification/Send_Connection.thy ===== *)
theory Send_Connection
  imports Sender
begin

text \<open>
  The class \<open>Connection\<close> of \<^verbatim>\<open>Client/src/sender.hpp\<close>: one connection with its own \<open>io_context\<close> and the thread that
  runs it. Connecting, sending and closing are functions on the record \<open>link\<close>; what the thread
  does is the relation \<open>runner_step\<close>. The networking library is the parameter \<open>io_ops\<close>. The lemmas show how
  often and with what waits it tries to connect, that a connected link has a thread that serves it as long as calls do
  not overlap, and where this fails: a socket option that cannot be set, a send under way when another one fails,
  two writes at once on one socket.
\<close>

section \<open>The networking library\<close>

text \<open>The handlers the class gives to its \<open>io_context\<close>: the start of a send and the end of a write.\<close>

datatype handler = SendOp file_chunk nat | WriteDone file_chunk nat "string option"

text \<open>What completes while an attempt to connect runs: the connect itself, and the timer (\<open>True\<close>: it has expired).\<close>

datatype connect_event = ConnectDone "string option" | TimerDone bool

text \<open>
  \<open>io_next\<close> is the next handler \<open>run\<close> calls, or \<open>None\<close> when there is none to call now; \<open>io_connect\<close> runs the
  context until connect and timer (if there is one) are done. Sends of an earlier connection that are still due would be run
  there too, by the worker; this is not modelled.
\<close>

record ('io, 'e) io_ops =
  io_stop :: "'io \<Rightarrow> 'io"
  io_restart :: "'io \<Rightarrow> 'io"
  io_stopped :: "'io \<Rightarrow> bool"
  io_idle :: "'io \<Rightarrow> bool"
  io_next :: "'io \<Rightarrow> (handler \<times> 'io) option"
  io_post :: "handler \<Rightarrow> 'io \<Rightarrow> 'io"
  io_write :: "byte list \<Rightarrow> file_chunk \<Rightarrow> nat \<Rightarrow> 'io \<Rightarrow> 'io"
  io_resolve :: "string \<Rightarrow> string \<Rightarrow> 'io \<Rightarrow> 'e res \<times> 'io"
  io_connect :: "'e \<Rightarrow> int option \<Rightarrow> 'io \<Rightarrow> connect_event list \<times> 'io"
  io_no_delay :: "'io \<Rightarrow> string option \<times> 'io"

section \<open>State\<close>

record sender_connect_options = sender_options +
  so_max_connect_attempts :: nat
  so_connect_timeout :: int
  so_reconnect_delay :: int
  so_tcp_no_delay :: bool

record connect_params =
  cp_host :: string
  cp_port :: u16
  cp_max_connect_attempts :: nat
  cp_connect_timeout :: int
  cp_reconnect_delay :: int
  cp_tcp_no_delay :: bool

definition connection_params :: "sender_connect_options \<Rightarrow> nat \<Rightarrow> connect_params" where
  "connection_params opts i =
     \<lparr>cp_host = so_host_prefix opts @ show_nat i, cp_port = so_base_port opts + of_nat i,
      cp_max_connect_attempts = so_max_connect_attempts opts, cp_connect_timeout = so_connect_timeout opts,
      cp_reconnect_delay = so_reconnect_delay opts, cp_tcp_no_delay = so_tcp_no_delay opts\<rparr>"

text \<open>The thread: none, running (and whether it has been asked to stop), or ended but not yet joined.\<close>

datatype runner = NoRunner | RunnerAlive bool | RunnerEnded

definition joinable :: "runner \<Rightarrow> bool" where
  "joinable r \<longleftrightarrow> r \<noteq> NoRunner"

fun ask_stop :: "runner \<Rightarrow> runner" where
  "ask_stop (RunnerAlive _) = RunnerAlive True"
| "ask_stop r = r"

text \<open>\<open>lk_socket\<close> is whether the socket is open, when there is one. The results handed to the sender and the
  waits between attempts are recorded.\<close>

record 'io link =
  lk_io :: 'io
  lk_guard :: bool
  lk_runner :: runner
  lk_cleanup :: bool
  lk_socket :: "bool option"
  lk_results :: "(file_chunk \<times> nat \<times> string option) list"
  lk_waits :: "u64 list"

definition link_new :: "'io \<Rightarrow> 'io link" where
  "link_new io = \<lparr>lk_io = io, lk_guard = False, lk_runner = NoRunner, lk_cleanup = False, lk_socket = None,
     lk_results = [], lk_waits = []\<rparr>"

definition link_is_open :: "'io link \<Rightarrow> bool" where
  "link_is_open c \<longleftrightarrow> lk_socket c = Some True"

section \<open>The thread of a connection\<close>

text \<open>
  \<open>own\<close> says whether the caller is the thread itself. A join is the thread's end: it has been asked to stop
  and its context is stopped.
\<close>

definition ensure_runner :: "('io, 'e) io_ops \<Rightarrow> bool \<Rightarrow> 'io link \<Rightarrow> 'io link" where
  "ensure_runner ops own c =
     (let c = (if lk_cleanup c \<and> joinable (lk_runner c) \<and> \<not> own
               then c\<lparr>lk_runner := NoRunner, lk_cleanup := False, lk_io := io_restart ops (lk_io c)\<rparr> else c);
          c = c\<lparr>lk_guard := True\<rparr>
      in if \<not> joinable (lk_runner c) then c\<lparr>lk_io := io_restart ops (lk_io c), lk_runner := RunnerAlive False\<rparr> else c)"

definition stop_runner :: "('io, 'e) io_ops \<Rightarrow> bool \<Rightarrow> bool \<Rightarrow> 'io link \<Rightarrow> 'io link" where
  "stop_runner ops own wait c =
     (let c = c\<lparr>lk_guard := False\<rparr>;
          c = c\<lparr>lk_io := io_stop ops (lk_io c)\<rparr>;
          c = (if joinable (lk_runner c)
               then let c = c\<lparr>lk_runner := ask_stop (lk_runner c)\<rparr>
                    in if wait \<and> \<not> own then c\<lparr>lk_runner := NoRunner, lk_cleanup := False\<rparr>
                       else if \<not> wait then c\<lparr>lk_cleanup := True\<rparr>
                       else c
               else c)
      in if wait \<or> \<not> joinable (lk_runner c)
         then let c = c\<lparr>lk_io := io_restart ops (lk_io c)\<rparr>
              in if \<not> joinable (lk_runner c) then c\<lparr>lk_cleanup := False\<rparr> else c
         else c)"

definition link_close :: "('io, 'e) io_ops \<Rightarrow> bool \<Rightarrow> 'io link \<Rightarrow> 'io link" where
  "link_close ops own c = stop_runner ops own False (c\<lparr>lk_socket := None\<rparr>)"

definition link_stop :: "('io, 'e) io_ops \<Rightarrow> bool \<Rightarrow> 'io link \<Rightarrow> 'io link" where
  "link_stop ops own c = stop_runner ops own True (link_close ops own c)"

text \<open>The body of the thread's loop behind \<open>run\<close>.\<close>

definition run_returned :: "('io, 'e) io_ops \<Rightarrow> 'io link \<Rightarrow> 'io link" where
  "run_returned ops c =
     (case lk_runner c of
        RunnerAlive stop \<Rightarrow>
          if stop then c\<lparr>lk_runner := RunnerEnded\<rparr>
          else if lk_guard c then c\<lparr>lk_io := io_restart ops (lk_io c)\<rparr>
          else c\<lparr>lk_runner := RunnerEnded\<rparr>
      | _ \<Rightarrow> c)"

section \<open>Sending\<close>

definition report :: "file_chunk \<Rightarrow> nat \<Rightarrow> string option \<Rightarrow> 'io link \<Rightarrow> 'io link" where
  "report chunk attempt e c = c\<lparr>lk_results := lk_results c @ [(chunk, attempt, e)]\<rparr>"

definition async_send_chunk :: "('io, 'e) io_ops \<Rightarrow> file_chunk \<Rightarrow> nat \<Rightarrow> 'io link \<Rightarrow> 'io link" where
  "async_send_chunk ops chunk attempt c = c\<lparr>lk_io := io_post ops (SendOp chunk attempt) (lk_io c)\<rparr>"

fun run_handler :: "('io, 'e) io_ops \<Rightarrow> handler \<Rightarrow> 'io link \<Rightarrow> 'io link" where
  "run_handler ops (SendOp chunk attempt) c =
     (if \<not> link_is_open c then report chunk attempt (Some ''socket closed'') c
      else c\<lparr>lk_io := io_write ops (serialize chunk) chunk attempt (lk_io c)\<rparr>)"
| "run_handler ops (WriteDone chunk attempt None) c = report chunk attempt None c"
| "run_handler ops (WriteDone chunk attempt (Some m)) c = report chunk attempt (Some m) (link_close ops True c)"

inductive runner_step :: "('io, 'e) io_ops \<Rightarrow> 'io link \<Rightarrow> 'io link \<Rightarrow> bool" for ops where
  handle: "lk_runner c = RunnerAlive stop \<Longrightarrow> io_next ops (lk_io c) = Some (h, io) \<Longrightarrow>
    runner_step ops c (run_handler ops h (c\<lparr>lk_io := io\<rparr>))"
| return: "lk_runner c = RunnerAlive stop \<Longrightarrow> io_stopped ops (lk_io c) \<or> \<not> lk_guard c \<and> io_idle ops (lk_io c) \<Longrightarrow>
    io_next ops (lk_io c) = None \<Longrightarrow> runner_step ops c (run_returned ops c)"

section \<open>Connecting\<close>

text \<open>The two handlers of an attempt on the error, the flag \<open>timed_out\<close> and the socket.\<close>

fun connect_event_step :: "connect_event \<Rightarrow> string option \<times> bool \<times> bool \<Rightarrow> string option \<times> bool \<times> bool" where
  "connect_event_step (ConnectDone ec) (_, timed_out, opened) = (ec, timed_out, if ec = None then True else opened)"
| "connect_event_step (TimerDone fired) (e, timed_out, opened) =
     (if fired then (Some ''timed_out'', True, False) else (e, timed_out, opened))"

definition connect_events :: "connect_event list \<Rightarrow> string option \<times> bool \<times> bool" where
  "connect_events evs = fold connect_event_step evs (None, False, False)"

definition retry_wait :: "connect_params \<Rightarrow> nat \<Rightarrow> u64" where
  "retry_wait cp attempt = word_of_int (cp_reconnect_delay cp) * of_nat (attempt + 1)"

text \<open>The first argument counts the attempts that are left.\<close>

fun link_connect_loop ::
  "('io, 'e) io_ops \<Rightarrow> connect_params \<Rightarrow> 'e \<Rightarrow> nat \<Rightarrow> nat \<Rightarrow> string option \<Rightarrow> 'io link \<Rightarrow> unit res \<times> 'io link" where
  "link_connect_loop ops cp es 0 attempt last_error c =
     (Inl (SystemError (''Failed to connect to '' @ cp_host cp @ '':'' @ show_nat (unat (cp_port cp)) @ '': ''
        @ (case last_error of Some e \<Rightarrow> e | None \<Rightarrow> ''operation_aborted''))), c)"
| "link_connect_loop ops cp es (Suc n) attempt last_error c =
     (let c = c\<lparr>lk_socket := Some False\<rparr>;
          (evs, io) = io_connect ops es (if cp_connect_timeout cp > 0 then Some (cp_connect_timeout cp) else None)
                        (io_restart ops (lk_io c));
          (connect_error, timed_out, opened) = connect_events evs;
          c = c\<lparr>lk_io := io, lk_socket := Some opened\<rparr>
      in if connect_error = None \<and> \<not> timed_out
         then if cp_tcp_no_delay cp
              then (case io_no_delay ops (lk_io c) of
                      (Some e, io) \<Rightarrow> (Inl (SystemError e), c\<lparr>lk_io := io\<rparr>)
                    | (None, io) \<Rightarrow> (Inr (), ensure_runner ops False (c\<lparr>lk_io := io\<rparr>)))
              else (Inr (), ensure_runner ops False c)
         else let c = link_close ops False c;
                  c = c\<lparr>lk_waits := lk_waits c @ [retry_wait cp attempt]\<rparr>
              in link_connect_loop ops cp es n (attempt + 1) connect_error c)"

definition ensure_connected :: "('io, 'e) io_ops \<Rightarrow> connect_params \<Rightarrow> 'io link \<Rightarrow> unit res \<times> 'io link" where
  "ensure_connected ops cp c =
     (if link_is_open c then (Inr (), c)
      else
        let c = c\<lparr>lk_socket := None\<rparr>
        in case io_resolve ops (cp_host cp) (show_nat (unat (cp_port cp))) (lk_io c) of
             (Inl e, io) \<Rightarrow> (Inl e, c\<lparr>lk_io := io\<rparr>)
           | (Inr es, io) \<Rightarrow>
               link_connect_loop ops cp es (max 1 (cp_max_connect_attempts cp)) 0 (Some ''host_not_found'')
                 (c\<lparr>lk_io := io\<rparr>))"

section \<open>One attempt\<close>

text \<open>An attempt counts as connected exactly if the connect has succeeded and the timer has not expired, in
  whichever order the two complete.\<close>

lemma connect_events_outcome:
  "connect_events [ConnectDone ec, TimerDone b] = (if b then (Some ''timed_out'', True, False) else (ec, False, ec = None))"
  "connect_events [TimerDone b, ConnectDone ec] = (ec, b, ec = None)"
  "connect_events [ConnectDone ec] = (ec, False, ec = None)"
  by (simp_all add: connect_events_def)

section \<open>A connected link is served\<close>

definition served :: "'io link \<Rightarrow> bool" where
  "served c \<longleftrightarrow> lk_guard c \<and> lk_runner c = RunnerAlive False"

text \<open>An open socket has a running thread that nobody has asked to stop; a thread that has been asked to
  stop is marked to be joined.\<close>

definition link_ok :: "'io link \<Rightarrow> bool" where
  "link_ok c \<longleftrightarrow> (link_is_open c \<longrightarrow> served c) \<and> (joinable (lk_runner c) \<longrightarrow> lk_cleanup c \<or> served c)"

lemmas link_defs = link_ok_def link_is_open_def served_def joinable_def Let_def

lemma link_ok_new: "link_ok (link_new io)"
  by (simp add: link_defs link_new_def)

lemma link_ok_io [simp]: "link_ok (c\<lparr>lk_io := io\<rparr>) = link_ok c"
  "link_ok (c\<lparr>lk_waits := ws\<rparr>) = link_ok c" "link_ok (c\<lparr>lk_results := rs\<rparr>) = link_ok c"
  by (simp_all add: link_defs)

lemma stop_runner_socket [simp]: "lk_socket (stop_runner ops own wait c) = lk_socket c"
  "lk_results (stop_runner ops own wait c) = lk_results c" "lk_waits (stop_runner ops own wait c) = lk_waits c"
  by (simp_all add: stop_runner_def Let_def)

lemma link_close_simps [simp]: "lk_socket (link_close ops own c) = None"
  "lk_results (link_close ops own c) = lk_results c" "lk_waits (link_close ops own c) = lk_waits c"
  by (simp_all add: link_close_def)

lemma link_ok_close: "link_ok (link_close ops own c)"
  by (cases "lk_runner c") (auto simp: link_close_def stop_runner_def link_defs)

lemma ensure_runner_served:
  assumes "joinable (lk_runner c) \<longrightarrow> lk_cleanup c \<or> served c"
  shows "served (ensure_runner ops False c)"
  using assms by (auto simp: ensure_runner_def link_defs)

lemma ensure_runner_simps [simp]: "lk_socket (ensure_runner ops own c) = lk_socket c"
  "lk_results (ensure_runner ops own c) = lk_results c" "lk_waits (ensure_runner ops own c) = lk_waits c"
  by (simp_all add: ensure_runner_def Let_def)

lemma link_ok_stop: "link_ok (link_stop ops False c)" "lk_runner (link_stop ops False c) = NoRunner"
  "\<not> lk_guard (link_stop ops False c)" "\<not> lk_cleanup (link_stop ops False c)" "lk_socket (link_stop ops False c) = None"
  by (auto simp: link_stop_def link_close_def stop_runner_def link_defs)

lemma link_ok_run_handler: "link_ok c \<Longrightarrow> link_ok (run_handler ops h c)"
  by (induction ops h c rule: run_handler.induct) (auto simp: report_def link_ok_close)

lemma link_ok_run_returned: "link_ok c \<Longrightarrow> link_ok (run_returned ops c)"
  by (auto simp: run_returned_def link_defs split: runner.splits)

lemma link_ok_runner_step: "runner_step ops c c' \<Longrightarrow> link_ok c \<Longrightarrow> link_ok c'"
  by (induction rule: runner_step.induct) (simp_all add: link_ok_run_handler link_ok_run_returned)

fun is_connect :: "connect_event \<Rightarrow> bool" where
  "is_connect (ConnectDone _) = True"
| "is_connect (TimerDone _) = False"

lemma connect_events_seen:
  "fold connect_event_step evs (e, to, op) = (e', to', op') \<Longrightarrow> seen \<longrightarrow> e = None \<longrightarrow> \<not> to \<longrightarrow> op \<Longrightarrow>
     seen \<or> (\<exists>ev \<in> set evs. is_connect ev) \<Longrightarrow> e' = None \<longrightarrow> \<not> to' \<longrightarrow> op'"
proof (induction evs arbitrary: e to op seen)
  case (Cons ev evs)
  obtain e1 to1 op1 where one: "connect_event_step ev (e, to, op) = (e1, to1, op1)" by (metis prod_cases3)
  have "seen \<or> is_connect ev \<longrightarrow> e1 = None \<longrightarrow> \<not> to1 \<longrightarrow> op1"
    using one Cons.prems(2) by (cases ev) (auto split: if_splits)
  then show ?case
    using Cons.IH [of e1 to1 op1 "seen \<or> is_connect ev"] Cons.prems one by auto
qed simp

text \<open>The handler of a connect is called once it has been started.\<close>

definition connects :: "('io, 'e) io_ops \<Rightarrow> bool" where
  "connects ops \<longleftrightarrow> (\<forall>es t io. \<exists>ev \<in> set (fst (io_connect ops es t io)). is_connect ev)"

lemma connects_open:
  assumes "connects ops" and "io_connect ops es t io = (evs, io')" and "connect_events evs = (None, False, op)"
  shows "op"
proof -
  have "\<exists>ev \<in> set evs. is_connect ev"
    using assms(1,2) unfolding connects_def by (metis fst_conv)
  then show ?thesis
    using connect_events_seen [of evs None False False None False op False] assms(3) by (simp add: connect_events_def)
qed

text \<open>Success leaves a served open link; a failure leaves no open socket, unless the socket option could not be set.\<close>

lemma link_connect_loop_ok:
  assumes "joinable (lk_runner c) \<longrightarrow> lk_cleanup c \<or> served c"
    and "connects ops" and "cp_tcp_no_delay cp \<longrightarrow> (\<forall>io. fst (io_no_delay ops io) = None)"
    and "link_connect_loop ops cp es n attempt e c = (r, c')" and "n = 0 \<longrightarrow> \<not> link_is_open c"
  shows "link_ok c' \<and> (if r = Inr () then link_is_open c' else \<not> link_is_open c')"
  using assms(1,4,5)
proof (induction n arbitrary: attempt e c)
  case 0
  then show ?case by (auto simp: link_ok_def)
next
  case (Suc n)
  define t where "t = (if cp_connect_timeout cp > 0 then Some (cp_connect_timeout cp) else None)"
  obtain evs io where ev: "io_connect ops es t (io_restart ops (lk_io c)) = (evs, io)" by fastforce
  obtain ce to op where ce: "connect_events evs = (ce, to, op)" by (metis prod_cases3)
  show ?case
  proof (cases "ce = None \<and> \<not> to")
    case True
    then have op: "op"
      using connects_open [OF assms(2) ev] ce by simp
    have "\<exists>c2. r = Inr () \<and> c' = ensure_runner ops False c2 \<and> lk_socket c2 = Some op \<and>
        lk_runner c2 = lk_runner c \<and> lk_cleanup c2 = lk_cleanup c \<and> lk_guard c2 = lk_guard c"
    proof (cases "cp_tcp_no_delay cp")
      case True
      then obtain io' where "io_no_delay ops io = (None, io')"
        using assms(3) by (metis prod.collapse)
      then show ?thesis
        using True \<open>ce = None \<and> \<not> to\<close> Suc.prems(2) ev ce
        by (intro exI [of _ "c\<lparr>lk_socket := Some op, lk_io := io'\<rparr>"]) (auto simp: t_def [symmetric])
    next
      case False
      then show ?thesis
        using \<open>ce = None \<and> \<not> to\<close> Suc.prems(2) ev ce
        by (intro exI [of _ "c\<lparr>lk_io := io, lk_socket := Some op\<rparr>"]) (auto simp: t_def [symmetric])
    qed
    then obtain c2 where "r = Inr ()" "c' = ensure_runner ops False c2" "lk_socket c2 = Some op"
      "joinable (lk_runner c2) \<longrightarrow> lk_cleanup c2 \<or> served c2"
      using Suc.prems(1) unfolding served_def by metis
    then show ?thesis
      using ensure_runner_served [of c2 ops] op by (simp add: link_ok_def link_is_open_def)
  next
    case False
    define c3 where "c3 = (link_close ops False (c\<lparr>lk_io := io, lk_socket := Some op\<rparr>))
      \<lparr>lk_waits := lk_waits c @ [retry_wait cp attempt]\<rparr>"
    have "link_ok c3" "\<not> link_is_open c3"
      by (simp_all add: link_ok_close link_is_open_def c3_def)
    moreover have "link_connect_loop ops cp es n (attempt + 1) ce c3 = (r, c')"
      using False Suc.prems(2) ev ce by (auto simp: t_def [symmetric] Let_def c3_def)
    ultimately show ?thesis
      using Suc.IH [of c3 "attempt + 1" ce] by (auto simp: link_ok_def)
  qed
qed

lemma ensure_connected_ok:
  assumes "link_ok c" and "connects ops" and "cp_tcp_no_delay cp \<longrightarrow> (\<forall>io. fst (io_no_delay ops io) = None)"
    and "ensure_connected ops cp c = (r, c')"
  shows "link_ok c' \<and> (if r = Inr () then link_is_open c' else \<not> link_is_open c')"
proof (cases "link_is_open c")
  case True
  then show ?thesis using assms(1,4) by (auto simp: ensure_connected_def)
next
  case False
  have c: "joinable (lk_runner c) \<longrightarrow> lk_cleanup c \<or> served c"
    using assms(1) by (simp add: link_ok_def)
  obtain re io where re: "io_resolve ops (cp_host cp) (show_nat (unat (cp_port cp))) (lk_io c) = (re, io)" by fastforce
  show ?thesis
  proof (cases re)
    case (Inl x)
    then show ?thesis
      using False assms(1,4) re c by (auto simp: ensure_connected_def link_ok_def link_is_open_def served_def)
  next
    case (Inr es)
    have "link_connect_loop ops cp es (max 1 (cp_max_connect_attempts cp)) 0 (Some ''host_not_found'')
        (c\<lparr>lk_socket := None, lk_io := io\<rparr>) = (r, c')"
      using False assms(4) re Inr by (simp add: ensure_connected_def)
    from link_connect_loop_ok [OF _ assms(2,3) this] c show ?thesis
      by (auto simp: served_def)
  qed
qed

section \<open>Runs without overlapping calls\<close>

text \<open>The worker connects and hands over sends, the thread runs handlers, \<open>Sender::stop\<close> stops the connection, one
  call after the other. The class has no lock, so in the program a call of the worker can also overlap a handler.\<close>

inductive link_step :: "('io, 'e) io_ops \<Rightarrow> connect_params \<Rightarrow> 'io link \<Rightarrow> 'io link \<Rightarrow> bool" for ops cp where
  connect: "ensure_connected ops cp c = (r, c') \<Longrightarrow> link_step ops cp c c'"
| send: "link_step ops cp c (async_send_chunk ops chunk attempt c)"
| run: "runner_step ops c c' \<Longrightarrow> link_step ops cp c c'"
| stop: "link_step ops cp c (link_stop ops False c)"

definition options_settable :: "('io, 'e) io_ops \<Rightarrow> connect_params \<Rightarrow> bool" where
  "options_settable ops cp \<longleftrightarrow> (cp_tcp_no_delay cp \<longrightarrow> (\<forall>io. fst (io_no_delay ops io) = None))"

interpretation link_sys: invariant_system "\<lambda>c. \<exists>io. c = link_new io" "link_step ops cp"
    "\<lambda>c. connects ops \<and> options_settable ops cp \<longrightarrow> link_ok c" for ops cp
proof
  show "\<exists>io. c = link_new io \<Longrightarrow> connects ops \<and> options_settable ops cp \<longrightarrow> link_ok c" for c
    by (auto simp: link_ok_new)
  show "connects ops \<and> options_settable ops cp \<longrightarrow> link_ok c \<Longrightarrow> link_step ops cp c c' \<Longrightarrow>
      connects ops \<and> options_settable ops cp \<longrightarrow> link_ok c'" for c c'
    by (erule link_step.cases)
      (auto simp: async_send_chunk_def link_ok_stop link_ok_runner_step options_settable_def dest: ensure_connected_ok)
qed

section \<open>A library that keeps its handlers in a list\<close>

text \<open>Whether it is stopped, and the handlers that are due; connects and writes have the given results.\<close>

definition list_io :: "connect_event list \<Rightarrow> string option \<Rightarrow> string option \<Rightarrow> (bool \<times> handler list, unit) io_ops" where
  "list_io evs write_error option_error =
     \<lparr>io_stop = (\<lambda>(_, q). (True, q)), io_restart = (\<lambda>(_, q). (False, q)), io_stopped = fst, io_idle = (\<lambda>(_, q). q = []),
      io_next = (\<lambda>(s, q). if s then None else case q of [] \<Rightarrow> None | h # q \<Rightarrow> Some (h, (s, q))),
      io_post = (\<lambda>h (s, q). (s, q @ [h])),
      io_write = (\<lambda>_ chunk attempt (s, q). (s, q @ [WriteDone chunk attempt write_error])),
      io_resolve = (\<lambda>_ _ io. (Inr (), io)), io_connect = (\<lambda>_ _ io. (evs, io)),
      io_no_delay = (\<lambda>io. (option_error, io))\<rparr>"

definition sample_params :: connect_params where
  "sample_params = \<lparr>cp_host = ''h'', cp_port = 9000, cp_max_connect_attempts = 2, cp_connect_timeout = 0,
     cp_reconnect_delay = 200, cp_tcp_no_delay = True\<rparr>"

lemma list_io_laws: "connects (list_io [ConnectDone e] we None)" "options_settable (list_io evs we None) cp"
  by (simp_all add: connects_def options_settable_def list_io_def)

definition sample_link :: "(bool \<times> handler list) link" where
  "sample_link = \<lparr>lk_io = (False, []), lk_guard = True, lk_runner = RunnerAlive False, lk_cleanup = False,
     lk_socket = Some True, lk_results = [], lk_waits = []\<rparr>"

lemma sample_connected:
  "ensure_connected (list_io [ConnectDone None] we None) sample_params (link_new (False, [])) = (Inr (), sample_link)"
  by (simp add: ensure_connected_def link_is_open_def link_new_def sample_params_def list_io_def connect_events_def
      ensure_runner_def joinable_def sample_link_def numeral_2_eq_2 del: link_connect_loop.simps(1))

section \<open>Properties\<close>

text \<open>As long as calls do not overlap, a connection that is open is served: its context is kept running by a work guard and has
  a thread that nobody has asked to stop, so a handler that is due is run. Supposed that the connect's handler is
  called and the socket option can be set. Nothing in the class keeps the calls apart: what an overlap can do
  is in \<open>Close_Race\<close>.\<close>

theorem open_link_is_served:
  assumes "connects ops" and "options_settable ops cp"
    and "(link_step ops cp)\<^sup>*\<^sup>* (link_new io) c" and "link_is_open c"
  shows "lk_guard c \<and> lk_runner c = RunnerAlive False \<and>
    (\<forall>h io'. io_next ops (lk_io c) = Some (h, io') \<longrightarrow> runner_step ops c (run_handler ops h (c\<lparr>lk_io := io'\<rparr>)))"
proof -
  have "link_ok c"
    using link_sys.reachable_good [OF _ assms(3)] assms(1,2) by blast
  then have "served c"
    using assms(4) by (simp add: link_ok_def)
  then show ?thesis
    by (auto simp: served_def intro: runner_step.handle)
qed

theorem open_link_is_served_witness:
  "lk_guard sample_link \<and> lk_runner sample_link = RunnerAlive False"
proof -
  have "link_step (list_io [ConnectDone None] None None) sample_params (link_new (False, [])) sample_link"
    by (rule link_step.connect [OF sample_connected])
  then show ?thesis
    using open_link_is_served [OF list_io_laws(1) list_io_laws(2) r_into_rtranclp]
    by (fastforce simp: link_is_open_def sample_link_def)
qed

text \<open>When the socket option cannot be set, the worker counts a failed connect, but the socket stays open: the next
  call finds it open and returns it, although no thread runs the context. What is sent there is never run.\<close>

theorem failed_option_leaves_unserved_link:
  assumes "cp_tcp_no_delay cp" and "io_resolve ops (cp_host cp) (show_nat (unat (cp_port cp))) io = (Inr es, io1)"
    and "io_connect ops es (if cp_connect_timeout cp > 0 then Some (cp_connect_timeout cp) else None) (io_restart ops io1)
           = ([ConnectDone None], io2)"
    and "io_no_delay ops io2 = (Some e, io3)"
  shows "\<exists>c. ensure_connected ops cp (link_new io) = (Inl (SystemError e), c) \<and>
    ensure_connected ops cp c = (Inr (), c) \<and>
    (\<forall>c'. \<not> runner_step ops (async_send_chunk ops chunk attempt c) c')"
proof -
  define c where "c = (link_new io)\<lparr>lk_io := io3, lk_socket := Some True\<rparr>"
  obtain n where n: "max 1 (cp_max_connect_attempts cp) = Suc n"
    by (metis Suc_pred less_le_trans max.cobounded1 zero_less_one)
  have run: "ensure_connected ops cp (link_new io) = (Inl (SystemError e), c)"
    using assms by (simp add: ensure_connected_def link_is_open_def link_new_def n [unfolded One_nat_def] connect_events_def Let_def c_def)
  have "link_is_open c" and none: "lk_runner c = NoRunner"
    by (simp_all add: link_is_open_def c_def link_new_def)
  then have again: "ensure_connected ops cp c = (Inr (), c)"
    by (simp add: ensure_connected_def)
  have "\<not> runner_step ops (async_send_chunk ops chunk attempt c) c'" for c'
    using none by (auto simp: async_send_chunk_def elim: runner_step.cases)
  then show ?thesis
    using run again by blast
qed

theorem failed_option_leaves_unserved_link_witness:
  "\<exists>c. ensure_connected (list_io [ConnectDone None] None (Some ''e'')) sample_params (link_new (False, []))
        = (Inl (SystemError ''e''), c) \<and>
    (\<forall>c'. \<not> runner_step (list_io [ConnectDone None] None (Some ''e''))
             (async_send_chunk (list_io [ConnectDone None] None (Some ''e'')) sample_file_chunk 1 c) c')"
  using failed_option_leaves_unserved_link [of sample_params "list_io [ConnectDone None] None (Some ''e'')" "(False, [])"
      "()" "(False, [])" "(False, [])" "''e''" "(False, [])" sample_file_chunk 1]
  by (auto simp: sample_params_def list_io_def)

text \<open>What is documented of a stopped context: it calls no handler, not even one that is posted later.\<close>

definition stop_holds :: "('io, 'e) io_ops \<Rightarrow> bool" where
  "stop_holds ops \<longleftrightarrow>
     (\<forall>io. io_stopped ops (io_stop ops io)) \<and>
     (\<forall>io. io_stopped ops io \<longrightarrow> io_next ops io = None \<and> (\<forall>h. io_stopped ops (io_post ops h io)))"

text \<open>What the thread does, and sends the worker has handed over meanwhile.\<close>

definition unattended_step :: "('io, 'e) io_ops \<Rightarrow> 'io link \<Rightarrow> 'io link \<Rightarrow> bool" where
  "unattended_step ops c c' \<longleftrightarrow> runner_step ops c c' \<or> (\<exists>chunk attempt. c' = async_send_chunk ops chunk attempt c)"

lemma unattended_stopped:
  assumes "stop_holds ops" and "(unattended_step ops)\<^sup>*\<^sup>* c c'"
    and "io_stopped ops (lk_io c)" and "lk_runner c \<in> {RunnerAlive True, RunnerEnded}"
  shows "io_stopped ops (lk_io c') \<and> lk_runner c' \<in> {RunnerAlive True, RunnerEnded} \<and> lk_results c' = lk_results c"
  using assms(2)
proof (induction rule: rtranclp_induct)
  case (step c1 c2)
  then consider "runner_step ops c1 c2" | chunk attempt where "c2 = async_send_chunk ops chunk attempt c1"
    by (auto simp: unattended_step_def)
  then show ?case
  proof cases
    case 1
    then show ?thesis
      using step.IH assms(1) by cases (auto simp: stop_holds_def run_returned_def)
  next
    case 2
    then show ?thesis
      using step.IH assms(1) by (simp add: async_send_chunk_def stop_holds_def)
  qed
qed (use assms(3,4) in simp)

text \<open>One failed write strands every other send of its connection: the handler closes the connection from its own
  thread, which stops the context and lets the thread end. Whatever sends are due or are handed over
  then, no completion is reported any more, success or failure, until the worker connects again; the slots
  of those sends are not given back, and at the end of the input \<open>Sender::stop\<close> waits for them for ever.\<close>

theorem failed_write_strands_sends:
  assumes "stop_holds ops" and "lk_runner c = RunnerAlive False"
    and "(unattended_step ops)\<^sup>*\<^sup>* (run_handler ops (WriteDone chunk attempt (Some m)) c) c'"
  shows "lk_results c' = lk_results c @ [(chunk, attempt, Some m)] \<and> (\<forall>h io. io_next ops (lk_io c') \<noteq> Some (h, io))"
proof -
  let ?c = "run_handler ops (WriteDone chunk attempt (Some m)) c"
  have "io_stopped ops (lk_io ?c)" "lk_runner ?c \<in> {RunnerAlive True, RunnerEnded}"
    "lk_results ?c = lk_results c @ [(chunk, attempt, Some m)]"
    using assms(1,2) by (simp_all add: report_def link_close_def stop_runner_def joinable_def Let_def stop_holds_def)
  with unattended_stopped [OF assms(1,3)] show ?thesis
    using assms(1) by (simp add: stop_holds_def)
qed

lemma list_io_stop_holds: "stop_holds (list_io evs we oe)"
  by (auto simp: stop_holds_def list_io_def)

theorem failed_write_strands_sends_witness:
  "lk_results (async_send_chunk (list_io [] None None) sample_file_chunk 2
      (run_handler (list_io [] None None) (WriteDone sample_file_chunk 1 (Some ''e''))
        (sample_link\<lparr>lk_io := (False, [SendOp sample_file_chunk 1])\<rparr>))) = [(sample_file_chunk, 1, Some ''e'')]"
proof -
  let ?ops = "list_io [] None None" and ?c = "sample_link\<lparr>lk_io := (False, [SendOp sample_file_chunk 1])\<rparr>"
  have "(unattended_step ?ops)\<^sup>*\<^sup>* (run_handler ?ops (WriteDone sample_file_chunk 1 (Some ''e'')) ?c)
      (async_send_chunk ?ops sample_file_chunk 2 (run_handler ?ops (WriteDone sample_file_chunk 1 (Some ''e'')) ?c))"
    by (rule r_into_rtranclp) (unfold unattended_step_def, blast)
  from failed_write_strands_sends [OF list_io_stop_holds _ this] show ?thesis
    by (simp add: sample_link_def)
qed

section \<open>Attempts and waits\<close>

lemma link_connect_loop_fails:
  assumes "\<forall>io. case connect_events (fst (io_connect ops es t io)) of (e, timed_out, _) \<Rightarrow> e \<noteq> None \<or> timed_out"
    and "t = (if cp_connect_timeout cp > 0 then Some (cp_connect_timeout cp) else None)"
    and "link_connect_loop ops cp es n attempt e c = (r, c')"
  shows "(\<exists>m. r = Inl (SystemError m)) \<and> lk_waits c' = lk_waits c @ map (retry_wait cp) [attempt..<attempt + n] \<and>
    (n > 0 \<longrightarrow> lk_socket c' = None)"
  using assms(3)
proof (induction n arbitrary: attempt e c)
  case (Suc n)
  obtain evs io where ev: "io_connect ops es t (io_restart ops (lk_io c)) = (evs, io)" by fastforce
  obtain ce to op where ce: "connect_events evs = (ce, to, op)" by (metis prod_cases3)
  define c3 where "c3 = (link_close ops False (c\<lparr>lk_io := io, lk_socket := Some op\<rparr>))
      \<lparr>lk_waits := lk_waits c @ [retry_wait cp attempt]\<rparr>"
  have fail: "\<not> (ce = None \<and> \<not> to)"
    using assms(1) [rule_format, of "io_restart ops (lk_io c)"] ev ce by auto
  then have next_try: "link_connect_loop ops cp es n (attempt + 1) ce c3 = (r, c')"
    using Suc.prems ev ce by (auto simp: assms(2) [symmetric] Let_def c3_def)
  have waits: "map (retry_wait cp) [attempt..<Suc (attempt + n)] =
      retry_wait cp attempt # map (retry_wait cp) [Suc attempt..<Suc (attempt + n)]"
    by (simp add: upt_conv_Cons del: upt_Suc)
  have "n = 0 \<Longrightarrow> lk_socket c' = None"
    using next_try by (auto simp: c3_def)
  then show ?case
    using Suc.IH [OF next_try] waits by (cases n) (auto simp: c3_def simp del: upt_Suc)
qed auto

text \<open>C23. Connecting to a host that never answers ends: after as many attempts as configured, and at least one, the worker
  gets an error, no socket is left, and it has waited after each attempt, the i-th time i times the delay.\<close>

theorem connect_gives_up:
  assumes "\<not> link_is_open c" and "io_resolve ops (cp_host cp) (show_nat (unat (cp_port cp))) (lk_io c) = (Inr es, io)"
    and "\<forall>io. case connect_events (fst (io_connect ops es
            (if cp_connect_timeout cp > 0 then Some (cp_connect_timeout cp) else None) io)) of
          (e, timed_out, _) \<Rightarrow> e \<noteq> None \<or> timed_out"
  shows "\<exists>m c'. ensure_connected ops cp c = (Inl (SystemError m), c') \<and> lk_socket c' = None \<and>
    lk_waits c' = lk_waits c @ map (retry_wait cp) [0..<max 1 (cp_max_connect_attempts cp)]"
proof -
  obtain r c' where run: "link_connect_loop ops cp es (max 1 (cp_max_connect_attempts cp)) 0 (Some ''host_not_found'')
      (c\<lparr>lk_socket := None, lk_io := io\<rparr>) = (r, c')" by fastforce
  from link_connect_loop_fails [OF assms(3) refl run] obtain m where "r = Inl (SystemError m)" "lk_socket c' = None"
    "lk_waits c' = lk_waits c @ map (retry_wait cp) [0..<max 1 (cp_max_connect_attempts cp)]"
    by auto
  then show ?thesis
    using assms(1,2) run by (simp add: ensure_connected_def)
qed

theorem connect_gives_up_witness:
  "\<exists>m c'. ensure_connected (list_io [ConnectDone (Some ''refused'')] None None) sample_params (link_new (False, []))
      = (Inl (SystemError m), c') \<and> lk_waits c' = [200, 400]"
proof -
  let ?ops = "list_io [ConnectDone (Some ''refused'')] None None"
  have "\<not> link_is_open (link_new (False, []))" "max 1 (cp_max_connect_attempts sample_params) = 2"
    by (simp_all add: link_is_open_def link_new_def sample_params_def)
  moreover have "map (retry_wait sample_params) [0..<2] = [200, 400]"
    by (simp add: numeral_2_eq_2 retry_wait_def sample_params_def)
  ultimately show ?thesis
    using connect_gives_up [of "link_new (False, [])" ?ops sample_params "()" "(False, [])"]
    by (auto simp: list_io_def link_new_def connect_events_def)
qed

text \<open>The product of the delay and the number of the attempt is unsigned: a negative delay, which the command line
  accepts, makes the worker sleep for almost 2 to the 64 milliseconds.\<close>

theorem negative_delay_never_wakes:
  assumes "- 1000 \<le> cp_reconnect_delay cp" and "cp_reconnect_delay cp < 0"
  shows "unat (retry_wait cp 0) = 2 ^ 64 - nat (- cp_reconnect_delay cp)"
proof -
  have "take_bit 64 (cp_reconnect_delay cp) = (cp_reconnect_delay cp + 2 ^ 64) mod 2 ^ 64"
    by (simp add: take_bit_eq_mod)
  also have "\<dots> = cp_reconnect_delay cp + 2 ^ 64"
    using assms by (intro mod_pos_pos_trivial) simp_all
  finally have "uint (retry_wait cp 0) = cp_reconnect_delay cp + 2 ^ 64"
    using assms by (simp add: retry_wait_def unsigned_of_int)
  then have "unat (retry_wait cp 0) = nat (cp_reconnect_delay cp + 2 ^ 64)"
    by (simp only: unat_eq_nat_uint)
  moreover obtain k where "cp_reconnect_delay cp = - int k" "k \<le> 1000"
    using assms by (intro that [of "nat (- cp_reconnect_delay cp)"]) simp_all
  moreover from this have "nat (- int k + 2 ^ 64) = 2 ^ 64 - k"
    by (simp add: nat_diff_distrib)
  ultimately show ?thesis
    by simp
qed

section \<open>Two writes at once\<close>

text \<open>The sender after one more chunk has been produced, taken and handed to the next connection.\<close>

definition handed_over :: "file_chunk \<Rightarrow> sender \<Rightarrow> sender" where
  "handed_over c s =
     s\<lparr>sn_taken := sn_taken s @ [c], sn_inflight := sn_inflight s + 1, sn_next := (sn_next s + 1) mod length (sn_connections s),
       sn_connections := (sn_connections s)[sn_next s := (sn_connections s ! sn_next s)\<lparr>cn_open := True\<rparr>],
       sn_sending := sn_sending s @ [(sn_next s, c, 1)]\<rparr>"

definition idle_worker :: "sender \<Rightarrow> bool" where
  "idle_worker s \<longleftrightarrow> sn_worker s = Top \<and> sn_items s = [] \<and> \<not> sn_closed s \<and> \<not> sn_stop s \<and> sn_retry s = [] \<and> \<not> sn_finishing s"

lemma handed_over_simps [simp]:
  "sn_options (handed_over c s) = sn_options s" "sn_inflight (handed_over c s) = sn_inflight s + 1"
  "sn_next (handed_over c s) = (sn_next s + 1) mod length (sn_connections s)"
  "length (sn_connections (handed_over c s)) = length (sn_connections s)"
  "sn_sending (handed_over c s) = sn_sending s @ [(sn_next s, c, 1)]" "sn_callbacks (handed_over c s) = sn_callbacks s"
  "sn_finishing (handed_over c s) = sn_finishing s" "sn_delivered (handed_over c s) = sn_delivered s"
  "idle_worker (handed_over c s) = idle_worker s"
  "sn_next s < length (sn_connections s) \<Longrightarrow> cn_open (sn_connections (handed_over c s) ! sn_next s)"
  by (simp_all add: handed_over_def idle_worker_def)

lemma hand_over:
  assumes "idle_worker s" and "sn_inflight s < so_connections (sn_options s)"
  shows "sender_step\<^sup>*\<^sup>* s (handed_over c s)"
proof -
  have idle: "sn_worker s = Top" "sn_items s = []" "\<not> sn_closed s" "\<not> sn_stop s" "sn_retry s = []"
    using assms(1) by (simp_all add: idle_worker_def)
  let ?s1 = "s\<lparr>sn_items := [c]\<rparr>" and ?s2 = "s\<lparr>sn_items := [c], sn_worker := Retry\<rparr>"
    and ?s3 = "s\<lparr>sn_items := [c], sn_worker := Pop\<rparr>"
    and ?s4 = "s\<lparr>sn_worker := Held c 1, sn_taken := sn_taken s @ [c]\<rparr>"
    and ?s5 = "s\<lparr>sn_worker := Connect c 1, sn_taken := sn_taken s @ [c], sn_inflight := sn_inflight s + 1\<rparr>"
  have same: "s\<lparr>sn_items := []\<rparr> = s" "s\<lparr>sn_worker := Top\<rparr> = s"
    using idle by simp_all
  have "sender_step s ?s1"
    using step_client [OF produce [of s c]] idle by simp
  moreover have "sender_step ?s1 ?s2"
    using step_worker [OF top_go [of ?s1]] idle by simp
  moreover have "sender_step ?s2 ?s3"
    using step_worker [OF retry_none [of ?s2]] idle by simp
  moreover have "sender_step ?s3 ?s4"
    using step_worker [OF pop_item [of ?s3 c "[]"]] idle by (cases s) simp
  moreover have "sender_step ?s4 ?s5"
    using step_worker [OF held_go [of ?s4 c 1]] idle assms(2) by (cases s) simp
  moreover have "sender_step ?s5 (handed_over c s)"
    using step_worker [OF connect_ok [of ?s5 c 1 "sn_next s" "snd (next_connection ?s5)"]] idle
    by (cases s) (simp add: next_connection_def set_open_def handed_over_def)
  ultimately show ?thesis
    by (meson converse_rtranclp_into_rtranclp rtranclp.rtrancl_refl)
qed

lemma deliver_last:
  assumes "sn_sending s = xs @ [(i, c, a)]" and "sn_callbacks s = []" and "\<not> sn_finishing s" and "0 < sn_inflight s"
  shows "\<exists>w. sender_step\<^sup>*\<^sup>* s (s\<lparr>sn_sending := xs, sn_delivered := sn_delivered s @ [c], sn_inflight := sn_inflight s - 1, sn_window := w\<rparr>)"
proof -
  let ?s1 = "on_chunk_success 0 c a (s\<lparr>sn_sending := xs, sn_callbacks := [Release]\<rparr>)"
  have "sender_step s ?s1"
    using step_callback [OF sent_ok [of s xs i c a "[]" 0]] assms(1,2) by simp
  moreover have "sender_step ?s1 (?s1\<lparr>sn_inflight := sn_inflight s - 1, sn_callbacks := []\<rparr>)"
    using step_callback [OF release_step [of ?s1 "[]" "[]" False "?s1\<lparr>sn_inflight := sn_inflight s - 1\<rparr>"]] assms(3,4)
    by (simp add: on_chunk_success_def release_slot_def Let_def)
  ultimately have "sender_step\<^sup>*\<^sup>* s (?s1\<lparr>sn_inflight := sn_inflight s - 1, sn_callbacks := []\<rparr>)"
    by (meson converse_rtranclp_into_rtranclp rtranclp.rtrancl_refl)
  moreover have "?s1\<lparr>sn_inflight := sn_inflight s - 1, sn_callbacks := []\<rparr>
      = s\<lparr>sn_sending := xs, sn_delivered := sn_delivered s @ [c], sn_inflight := sn_inflight s - 1, sn_window := sn_window ?s1\<rparr>"
    using assms(2) by (cases s) (simp add: on_chunk_success_def Let_def)
  ultimately show ?thesis
    by metis
qed

text \<open>The slots bound the sends of all connections together, not those of one, and the connections take turns: with the
  default options a chunk is handed to the first connection while another one is still being written to it.
  Both are \<open>async_write\<close>s on one socket, which the library forbids, because their bytes may be mixed.\<close>

theorem sends_overlap:
  "\<exists>s. sender_step\<^sup>*\<^sup>* (sender_new sender_options_default now) s \<and> sn_sending s = [(0, c1, 1), (0, c3, 1)] \<and>
     cn_open (sn_connections s ! 0) \<and> sn_delivered s = [c2]"
proof -
  define s0 where "s0 = sender_new sender_options_default now"
  have s0: "idle_worker s0" "sn_options s0 = sender_options_default" "sn_next s0 = 0" "sn_inflight s0 = 0" "sn_sending s0 = []"
    "length (sn_connections s0) = 2" "sn_callbacks s0 = []" "\<not> sn_finishing s0" "sn_delivered s0 = []"
    by (simp_all add: s0_def sender_new_def sender_options_default_def idle_worker_def Let_def)
  have slots: "so_connections sender_options_default = 2"
    by (simp add: sender_options_default_def)
  define s1 where "s1 = handed_over c1 s0"
  define s2 where "s2 = handed_over c2 s1"
  have "sender_step\<^sup>*\<^sup>* s0 s1"
    unfolding s1_def by (rule hand_over) (simp_all add: s0 slots)
  moreover have "sender_step\<^sup>*\<^sup>* s1 s2"
    unfolding s2_def by (rule hand_over) (simp_all add: s1_def s0 slots)
  ultimately have run2: "sender_step\<^sup>*\<^sup>* s0 s2" by (rule rtranclp_trans)
  have s2: "sn_sending s2 = [(0, c1, 1)] @ [(1, c2, 1)]" "sn_callbacks s2 = []" "\<not> sn_finishing s2" "0 < sn_inflight s2"
    "sn_next s2 = 0" "idle_worker s2" "sn_options s2 = sender_options_default" "sn_delivered s2 = []"
    "length (sn_connections s2) = 2" "sn_inflight s2 = 2"
    by (simp_all add: s2_def s1_def s0)
  from deliver_last [OF s2(1-4)] obtain w where run3: "sender_step\<^sup>*\<^sup>* s2
      (s2\<lparr>sn_sending := [(0, c1, 1)], sn_delivered := sn_delivered s2 @ [c2], sn_inflight := sn_inflight s2 - 1, sn_window := w\<rparr>)"
    by blast
  define s3 where "s3 = s2\<lparr>sn_sending := [(0, c1, 1)], sn_delivered := sn_delivered s2 @ [c2], sn_inflight := sn_inflight s2 - 1, sn_window := w\<rparr>"
  have s3: "idle_worker s3" "sn_options s3 = sender_options_default" "sn_inflight s3 = 1" "sn_next s3 = 0"
    "length (sn_connections s3) = 2" "sn_sending s3 = [(0, c1, 1)]" "sn_delivered s3 = [c2]"
    using s2(5-10) by (simp_all add: s3_def idle_worker_def)
  have "sender_step\<^sup>*\<^sup>* s3 (handed_over c3 s3)"
    by (rule hand_over) (simp_all add: s3 slots)
  with run2 run3 have "sender_step\<^sup>*\<^sup>* s0 (handed_over c3 s3)"
    unfolding s3_def [symmetric] by (metis rtranclp_trans)
  moreover have "sn_sending (handed_over c3 s3) = [(0, c1, 1), (0, c3, 1)]" "sn_delivered (handed_over c3 s3) = [c2]"
    by (simp_all add: s3)
  moreover have "cn_open (sn_connections (handed_over c3 s3) ! 0)"
    using handed_over_simps(10) [of s3 c3] by (simp add: s3)
  ultimately show ?thesis
    unfolding s0_def [symmetric] by blast
qed

end
