(* ===== verification/Blocking_Queue.thy ===== *)
theory Blocking_Queue
  imports SV_Prelude
begin

text \<open>
  \<^verbatim>\<open>Client/src/queue.hpp\<close>: the bounded queue between the threads of the client. The mutex makes the part
  of an operation between two waits atomic, so the class is a monitor: its state holds the items and,
  for each condition variable, the threads that wait on it and the threads that were woken and have
  still to get the mutex. A step is one such atomic part; \<open>close\<close> notifies after it has released the
  mutex, so its notifications are steps of their own. Which waiting thread \<open>notify_one\<close> wakes is an
  argument, and a waiting thread may wake without a notification. The lemmas show that nothing is lost, duplicated
  or reordered, that the capacity is kept and that no wake-up is lost.
\<close>

section \<open>State\<close>

record ('t, 'a) monitor =
  mo_items :: "'a list"
  mo_capacity :: nat
  mo_closed :: bool
  mo_push_waiting :: "('t \<times> 'a) list"
  mo_push_ready :: "('t \<times> 'a) list"
  mo_pop_waiting :: "'t list"
  mo_pop_ready :: "'t list"
  mo_closers :: nat        \<comment> \<open>calls of \<open>close\<close> before \<open>not_empty_cv_.notify_all\<close>\<close>
  mo_closers_pop :: nat    \<comment> \<open>calls of \<open>close\<close> before \<open>not_full_cv_.notify_all\<close>\<close>

definition queue_new :: "nat \<Rightarrow> ('t, 'a) monitor res" where
  "queue_new capacity =
     (if capacity = 0 then Inl (InvalidArgument ''Queue capacity must be greater than zero'')
      else Inr \<lparr>mo_items = [], mo_capacity = capacity, mo_closed = False, mo_push_waiting = [],
                mo_push_ready = [], mo_pop_waiting = [], mo_pop_ready = [], mo_closers = 0, mo_closers_pop = 0\<rparr>)"

text \<open>What the atomic part of an operation ends with: its result, or waiting.\<close>

datatype 'a outcome = Accepted 'a | Rejected | Delivered 'a | Drained | Blocked

text \<open>\<open>notify_one\<close>: \<open>k\<close> chooses the thread.\<close>

definition notify_one :: "nat \<Rightarrow> 'b list \<Rightarrow> 'b list \<Rightarrow> 'b list \<times> 'b list" where
  "notify_one k waiting ready =
     (if waiting = [] then ([], ready)
      else let j = k mod length waiting
           in (take j waiting @ drop (Suc j) waiting, ready @ [waiting ! j]))"

section \<open>Operations\<close>

text \<open>\<open>push\<close> from the evaluation of the wait predicate to the next wait or the return.\<close>

definition push_attempt :: "nat \<Rightarrow> 't \<Rightarrow> 'a \<Rightarrow> ('t, 'a) monitor \<Rightarrow> 'a outcome \<times> ('t, 'a) monitor" where
  "push_attempt k t value m =
     (if \<not> (mo_closed m \<or> length (mo_items m) < mo_capacity m)
      then (Blocked, m\<lparr>mo_push_waiting := mo_push_waiting m @ [(t, value)]\<rparr>)
      else if mo_closed m then (Rejected, m)
      else let (waiting, ready) = notify_one k (mo_pop_waiting m) (mo_pop_ready m)
           in (Accepted value,
               m\<lparr>mo_items := mo_items m @ [value], mo_pop_waiting := waiting, mo_pop_ready := ready\<rparr>))"

definition pop_attempt :: "nat \<Rightarrow> 't \<Rightarrow> ('t, 'a) monitor \<Rightarrow> 'a outcome \<times> ('t, 'a) monitor" where
  "pop_attempt k t m =
     (if \<not> (mo_closed m \<or> mo_items m \<noteq> [])
      then (Blocked, m\<lparr>mo_pop_waiting := mo_pop_waiting m @ [t]\<rparr>)
      else case mo_items m of
             [] \<Rightarrow> (Drained, m)
           | value # rest \<Rightarrow>
               let (waiting, ready) = notify_one k (mo_push_waiting m) (mo_push_ready m)
               in (Delivered value, m\<lparr>mo_items := rest, mo_push_waiting := waiting, mo_push_ready := ready\<rparr>))"

definition close_locked :: "('t, 'a) monitor \<Rightarrow> ('t, 'a) monitor" where
  "close_locked m = m\<lparr>mo_closed := True, mo_closers := mo_closers m + 1\<rparr>"

definition close_notify_pop :: "('t, 'a) monitor \<Rightarrow> ('t, 'a) monitor" where
  "close_notify_pop m =
     m\<lparr>mo_closers := mo_closers m - 1, mo_closers_pop := mo_closers_pop m + 1,
       mo_pop_ready := mo_pop_ready m @ mo_pop_waiting m, mo_pop_waiting := []\<rparr>"

definition close_notify_push :: "('t, 'a) monitor \<Rightarrow> ('t, 'a) monitor" where
  "close_notify_push m =
     m\<lparr>mo_closers_pop := mo_closers_pop m - 1,
       mo_push_ready := mo_push_ready m @ mo_push_waiting m, mo_push_waiting := []\<rparr>"

section \<open>Steps of the threads\<close>

text \<open>
  The state of a run: the monitor, the values accepted so far and the values delivered so far, in the
  order in which the operations got the mutex.
\<close>

type_synonym ('t, 'a) run = "('t, 'a) monitor \<times> 'a list \<times> 'a list"

fun logged :: "'a outcome \<Rightarrow> 'a list \<times> 'a list \<Rightarrow> 'a list \<times> 'a list" where
  "logged (Accepted v) (ins, outs) = (ins @ [v], outs)"
| "logged (Delivered v) (ins, outs) = (ins, outs @ [v])"
| "logged _ h = h"

inductive queue_step :: "('t, 'a) run \<Rightarrow> ('t, 'a) run \<Rightarrow> bool" where
  push_enter: "push_attempt k t v m = (r, m') \<Longrightarrow> queue_step (m, h) (m', logged r h)"
| push_resume: "mo_push_ready m = xs @ (t, v) # ys \<Longrightarrow>
    push_attempt k t v (m\<lparr>mo_push_ready := xs @ ys\<rparr>) = (r, m') \<Longrightarrow> queue_step (m, h) (m', logged r h)"
| push_spurious: "mo_push_waiting m = xs @ x # ys \<Longrightarrow>
    queue_step (m, h) (m\<lparr>mo_push_waiting := xs @ ys, mo_push_ready := mo_push_ready m @ [x]\<rparr>, h)"
| pop_enter: "pop_attempt k t m = (r, m') \<Longrightarrow> queue_step (m, h) (m', logged r h)"
| pop_resume: "mo_pop_ready m = xs @ t # ys \<Longrightarrow>
    pop_attempt k t (m\<lparr>mo_pop_ready := xs @ ys\<rparr>) = (r, m') \<Longrightarrow> queue_step (m, h) (m', logged r h)"
| pop_spurious: "mo_pop_waiting m = xs @ t # ys \<Longrightarrow>
    queue_step (m, h) (m\<lparr>mo_pop_waiting := xs @ ys, mo_pop_ready := mo_pop_ready m @ [t]\<rparr>, h)"
| close_enter: "queue_step (m, h) (close_locked m, h)"
| close_pop: "mo_closers m > 0 \<Longrightarrow> queue_step (m, h) (close_notify_pop m, h)"
| close_push: "mo_closers_pop m > 0 \<Longrightarrow> queue_step (m, h) (close_notify_push m, h)"

definition queue_start :: "nat \<Rightarrow> ('t, 'a) run \<Rightarrow> bool" where
  "queue_start capacity s \<longleftrightarrow> snd s = ([], []) \<and> queue_new capacity = Inr (fst s)"

section \<open>The invariant\<close>

text \<open>
  Order and capacity; as long as the queue is open, a popper waits only when every item is
  already spoken for by a woken popper, and a pusher only when every free place is; when it is closed, whoever waits will be
  notified by a call of \<open>close\<close> that is still under way.
\<close>

text \<open>\<open>dpush\<close> and \<open>dpop\<close> count a woken thread that has left the ready list and is running its attempt.\<close>

definition queue_wakes :: "nat \<Rightarrow> nat \<Rightarrow> ('t, 'a) monitor \<Rightarrow> bool" where
  "queue_wakes dpush dpop m \<longleftrightarrow>
     (if mo_closed m
      then (mo_pop_waiting m \<noteq> [] \<longrightarrow> mo_closers m > 0) \<and>
           (mo_push_waiting m \<noteq> [] \<longrightarrow> mo_closers m + mo_closers_pop m > 0)
      else mo_closers m = 0 \<and> mo_closers_pop m = 0 \<and>
           (mo_pop_waiting m \<noteq> [] \<longrightarrow> length (mo_items m) \<le> length (mo_pop_ready m) + dpop) \<and>
           (mo_push_waiting m \<noteq> [] \<longrightarrow> mo_capacity m \<le> length (mo_items m) + length (mo_push_ready m) + dpush))"

definition queue_fifo :: "nat \<Rightarrow> ('t, 'a) run \<Rightarrow> bool" where
  "queue_fifo capacity s \<longleftrightarrow> (case s of (m, ins, outs) \<Rightarrow>
     mo_capacity m = capacity \<and> length (mo_items m) \<le> capacity \<and> ins = outs @ mo_items m)"

definition queue_ok :: "nat \<Rightarrow> ('t, 'a) run \<Rightarrow> bool" where [inv_defs]:
  "queue_ok capacity s \<longleftrightarrow> queue_fifo capacity s \<and> queue_wakes 0 0 (fst s)"

lemma notify_one_cases:
  obtains "waiting = []" "notify_one k waiting ready = ([], ready)"
  | waiting' x where "waiting \<noteq> []" "notify_one k waiting ready = (waiting', ready @ [x])"
  by (cases "waiting = []") (auto simp: notify_one_def Let_def)

text \<open>The three ends of an attempt to push, and of an attempt to pop.\<close>

lemma push_attempt_cases:
  assumes "push_attempt k t v m = (r, m')"
  obtains
    (blocked) "\<not> mo_closed m" "mo_capacity m \<le> length (mo_items m)" "r = Blocked"
      "m' = m\<lparr>mo_push_waiting := mo_push_waiting m @ [(t, v)]\<rparr>"
  | (rejected) "mo_closed m" "r = Rejected" "m' = m"
  | (nobody) "\<not> mo_closed m" "length (mo_items m) < mo_capacity m" "r = Accepted v" "mo_pop_waiting m = []"
      "m' = m\<lparr>mo_items := mo_items m @ [v], mo_pop_waiting := [], mo_pop_ready := mo_pop_ready m\<rparr>"
  | (woken) waiting x where "\<not> mo_closed m" "length (mo_items m) < mo_capacity m" "r = Accepted v"
      "mo_pop_waiting m \<noteq> []"
      "m' = m\<lparr>mo_items := mo_items m @ [v], mo_pop_waiting := waiting, mo_pop_ready := mo_pop_ready m @ [x]\<rparr>"
proof (cases rule: notify_one_cases [of "mo_pop_waiting m" k "mo_pop_ready m"])
  case 1
  with assms show thesis
    by (cases "mo_closed m"; cases "length (mo_items m) < mo_capacity m")
       (auto simp: push_attempt_def intro: blocked rejected nobody)
next
  case (2 waiting x)
  with assms show thesis
    by (cases "mo_closed m"; cases "length (mo_items m) < mo_capacity m")
       (auto simp: push_attempt_def intro: blocked rejected woken)
qed

lemma pop_attempt_cases:
  assumes "pop_attempt k t m = (r, m')"
  obtains
    (blocked) "\<not> mo_closed m" "mo_items m = []" "r = Blocked"
      "m' = m\<lparr>mo_pop_waiting := mo_pop_waiting m @ [t]\<rparr>"
  | (drained) "mo_closed m" "mo_items m = []" "r = Drained" "m' = m"
  | (nobody) v rest where "mo_items m = v # rest" "r = Delivered v" "mo_push_waiting m = []"
      "m' = m\<lparr>mo_items := rest, mo_push_waiting := [], mo_push_ready := mo_push_ready m\<rparr>"
  | (woken) v rest waiting x where "mo_items m = v # rest" "r = Delivered v" "mo_push_waiting m \<noteq> []"
      "m' = m\<lparr>mo_items := rest, mo_push_waiting := waiting, mo_push_ready := mo_push_ready m @ [x]\<rparr>"
proof (cases rule: notify_one_cases [of "mo_push_waiting m" k "mo_push_ready m"])
  case 1
  with assms show thesis
    by (cases "mo_closed m"; cases "mo_items m")
       (auto simp: pop_attempt_def intro: blocked drained nobody)
next
  case (2 waiting x)
  with assms show thesis
    by (cases "mo_closed m"; cases "mo_items m")
       (auto simp: pop_attempt_def intro: blocked drained woken)
qed

lemma push_attempt_fifo:
  assumes "push_attempt k t v m = (r, m')" and "queue_fifo c (m, h)"
  shows "queue_fifo c (m', logged r h)"
  using assms(2) by (cases rule: push_attempt_cases [OF assms(1)]; cases h) (simp_all add: queue_fifo_def)

lemma pop_attempt_fifo:
  assumes "pop_attempt k t m = (r, m')" and "queue_fifo c (m, h)"
  shows "queue_fifo c (m', logged r h)"
  using assms(2) by (cases rule: pop_attempt_cases [OF assms(1)]; cases h) (simp_all add: queue_fifo_def)

lemma push_attempt_wakes:
  assumes "push_attempt k t v m = (r, m')" and "queue_wakes 1 0 m"
  shows "queue_wakes 0 0 m'"
  using assms(2) by (cases rule: push_attempt_cases [OF assms(1)]) (auto simp: queue_wakes_def)

lemma pop_attempt_wakes:
  assumes "pop_attempt k t m = (r, m')" and "queue_wakes 0 1 m"
  shows "queue_wakes 0 0 m'"
  using assms(2) by (cases rule: pop_attempt_cases [OF assms(1)]) (auto simp: queue_wakes_def split: if_splits)

lemma queue_wakes_running:
  "queue_wakes 0 0 m \<Longrightarrow> queue_wakes 1 0 m" "queue_wakes 0 0 m \<Longrightarrow> queue_wakes 0 1 m"
  "queue_wakes 0 0 m \<Longrightarrow> mo_push_ready m = xs @ x # ys \<Longrightarrow> queue_wakes 1 0 (m\<lparr>mo_push_ready := xs @ ys\<rparr>)"
  "queue_wakes 0 0 m \<Longrightarrow> mo_pop_ready m = us @ u # vs \<Longrightarrow> queue_wakes 0 1 (m\<lparr>mo_pop_ready := us @ vs\<rparr>)"
  by (auto simp: queue_wakes_def split: if_splits)

lemma queue_step_fifo: "queue_step s s' \<Longrightarrow> queue_fifo c s \<Longrightarrow> queue_fifo c s'"
proof (cases rule: queue_step.cases, assumption)
  fix k t v m r m' h
  assume "queue_fifo c s" "s = (m, h)" and a: "push_attempt k t v m = (r, m')" and "s' = (m', logged r h)"
  then show ?thesis using push_attempt_fifo [OF a] by simp
next
  fix m xs t v ys k r m' h
  assume a: "queue_fifo c s" "s = (m, h)" "push_attempt k t v (m\<lparr>mo_push_ready := xs @ ys\<rparr>) = (r, m')" "s' = (m', logged r h)"
  have "queue_fifo c (m\<lparr>mo_push_ready := xs @ ys\<rparr>, h)" using a(1,2) by (simp add: queue_fifo_def)
  then show ?thesis using push_attempt_fifo [OF a(3)] a(4) by simp
next
  fix k t m r m' h
  assume "queue_fifo c s" "s = (m, h)" and a: "pop_attempt k t m = (r, m')" and "s' = (m', logged r h)"
  then show ?thesis using pop_attempt_fifo [OF a] by simp
next
  fix m xs t ys k r m' h
  assume a: "queue_fifo c s" "s = (m, h)" "pop_attempt k t (m\<lparr>mo_pop_ready := xs @ ys\<rparr>) = (r, m')" "s' = (m', logged r h)"
  have "queue_fifo c (m\<lparr>mo_pop_ready := xs @ ys\<rparr>, h)" using a(1,2) by (simp add: queue_fifo_def)
  then show ?thesis using pop_attempt_fifo [OF a(3)] a(4) by simp
qed (simp_all add: queue_fifo_def close_locked_def close_notify_pop_def close_notify_push_def)

lemma queue_step_wakes: "queue_step s s' \<Longrightarrow> queue_wakes 0 0 (fst s) \<Longrightarrow> queue_wakes 0 0 (fst s')"
proof (cases rule: queue_step.cases, assumption)
  fix k t v m r m' h
  assume "queue_wakes 0 0 (fst s)" "s = (m, h)" "push_attempt k t v m = (r, m')" "s' = (m', logged r h)"
  then show ?thesis using push_attempt_wakes queue_wakes_running(1) by fastforce
next
  fix m xs t v ys k r m' h
  assume a: "queue_wakes 0 0 (fst s)" "s = (m, h)" "mo_push_ready m = xs @ (t, v) # ys"
    "push_attempt k t v (m\<lparr>mo_push_ready := xs @ ys\<rparr>) = (r, m')" "s' = (m', logged r h)"
  show ?thesis
    using push_attempt_wakes [OF a(4)] queue_wakes_running(3) [OF _ a(3)] a(1,2,5) by simp
next
  fix k t m r m' h
  assume "queue_wakes 0 0 (fst s)" "s = (m, h)" "pop_attempt k t m = (r, m')" "s' = (m', logged r h)"
  then show ?thesis using pop_attempt_wakes queue_wakes_running(2) by fastforce
next
  fix m xs t ys k r m' h
  assume a: "queue_wakes 0 0 (fst s)" "s = (m, h)" "mo_pop_ready m = xs @ t # ys"
    "pop_attempt k t (m\<lparr>mo_pop_ready := xs @ ys\<rparr>) = (r, m')" "s' = (m', logged r h)"
  show ?thesis
    using pop_attempt_wakes [OF a(4)] queue_wakes_running(4) [OF _ a(3)] a(1,2,5) by simp
qed (auto simp: queue_wakes_def close_locked_def close_notify_pop_def close_notify_push_def split: if_splits)

interpretation queue_sys: invariant_system "queue_start c" queue_step "queue_ok c" for c
proof (unfold_locales)
  fix s
  assume "queue_start c s"
  then show "queue_ok c s"
    by (cases s) (auto simp: queue_start_def queue_new_def queue_ok_def queue_fifo_def queue_wakes_def split: if_splits)
next
  fix s s'
  assume "queue_ok c s" "queue_step s s'"
  then show "queue_ok c s'"
    by (simp add: queue_ok_def queue_step_fifo queue_step_wakes)
qed

section \<open>Properties\<close>

text \<open>C27. The bounded queue between the client's threads is a bounded FIFO under every interleaving: at any
  moment the values accepted by \<open>push\<close> are, in order, the values delivered by \<open>pop\<close> followed by the
  items in the queue, and there are never more items than the capacity.\<close>

theorem queue_is_bounded_fifo:
  assumes "queue_start capacity s" and "queue_step\<^sup>*\<^sup>* s (m, ins, outs)"
  shows "ins = outs @ mo_items m \<and> length (mo_items m) \<le> capacity"
  using queue_sys.reachable_good [OF assms] by (simp add: queue_ok_def queue_fifo_def)

definition sample_run :: "(nat, nat) run" where
  "sample_run = (\<lparr>mo_items = [], mo_capacity = 1, mo_closed = False, mo_push_waiting = [], mo_push_ready = [],
     mo_pop_waiting = [], mo_pop_ready = [], mo_closers = 0, mo_closers_pop = 0\<rparr>, [], [])"

lemma sample_run_start: "queue_start 1 sample_run"
  by (simp add: queue_start_def sample_run_def queue_new_def)

theorem queue_is_bounded_fifo_witness:
  "\<exists>m. queue_step\<^sup>*\<^sup>* sample_run (m, [7], []) \<and> mo_items m = [7]"
proof -
  obtain m where p: "push_attempt 0 1 7 (fst sample_run) = (Accepted 7, m)"
    by (simp add: push_attempt_def sample_run_def notify_one_def)
  have st: "queue_step sample_run (m, [7], [])"
    using push_enter [OF p, of "([], [])"] by (simp add: sample_run_def)
  have "[7] = [] @ mo_items m"
    using queue_is_bounded_fifo [OF sample_run_start r_into_rtranclp [of queue_step, OF st]] by blast
  then show ?thesis using st by auto
qed

text \<open>C17. No wake-up is lost: when no woken thread is still on its way to the mutex and no \<open>close\<close> is under
  way, a thread waits in \<open>pop\<close> only if the queue is open and empty, and a thread waits in \<open>push\<close> only if
  it is open and full. So nobody sleeps through an item, a free place or the end of the queue.\<close>

theorem queue_no_lost_wakeup:
  assumes "queue_start capacity s" and "queue_step\<^sup>*\<^sup>* s (m, h)"
    and "mo_pop_ready m = []" and "mo_push_ready m = []" and "mo_closers m = 0" and "mo_closers_pop m = 0"
  shows "(mo_pop_waiting m \<noteq> [] \<longrightarrow> \<not> mo_closed m \<and> mo_items m = []) \<and>
         (mo_push_waiting m \<noteq> [] \<longrightarrow> \<not> mo_closed m \<and> length (mo_items m) = capacity)"
proof -
  have "queue_ok capacity (m, h)"
    using queue_sys.reachable_good [OF assms(1,2)] .
  then show ?thesis
    using assms(3-6) by (cases h) (auto simp: queue_ok_def queue_fifo_def queue_wakes_def split: if_splits)
qed

theorem queue_no_lost_wakeup_witness:
  "\<exists>m. queue_step\<^sup>*\<^sup>* sample_run (m, [], []) \<and> mo_pop_waiting m = [3] \<and> mo_items m = []"
proof -
  obtain m where p: "pop_attempt 0 3 (fst sample_run) = (Blocked, m)" "mo_pop_waiting m = [3]"
      "mo_pop_ready m = []" "mo_push_ready m = []" "mo_closers m = 0" "mo_closers_pop m = 0"
    by (simp add: pop_attempt_def sample_run_def)
  have st: "queue_step\<^sup>*\<^sup>* sample_run (m, [], [])"
    using pop_enter [OF p(1), of "([], [])"] by (simp add: sample_run_def r_into_rtranclp)
  show ?thesis
    using queue_no_lost_wakeup [OF sample_run_start st p(3-6)] p(2) st by auto
qed

text \<open>
  After \<open>close\<close> every \<open>push\<close> is rejected without effect and \<open>pop\<close> delivers what is left, in order, and
  then the end of the queue; neither waits.
\<close>

fun pops :: "nat \<Rightarrow> 't \<Rightarrow> ('t, 'a) monitor \<Rightarrow> 'a outcome list" where
  "pops 0 t m = []"
| "pops (Suc n) t m = (let (r, m) = pop_attempt 0 t m in r # pops n t m)"

lemma pop_attempt_closed:
  assumes "mo_closed m"
  shows "(mo_items m = [] \<and> pop_attempt k t m = (Drained, m)) \<or>
    (\<exists>v m'. pop_attempt k t m = (Delivered v, m') \<and> mo_items m = v # mo_items m' \<and> mo_closed m')"
proof (cases "pop_attempt k t m")
  case (Pair r m')
  show ?thesis
    by (cases rule: pop_attempt_cases [OF Pair]) (use assms Pair in auto)
qed

lemma pops_drained: "mo_closed m \<Longrightarrow> mo_items m = [] \<Longrightarrow> pops n t m = replicate n Drained"
  by (induction n) (simp_all add: pop_attempt_def)

text \<open>A closed queue is drained: pushes are rejected and leave it as it is, and successive pops deliver
  exactly the remaining items in order and then report the end, for ever.\<close>

theorem closed_queue_drains:
  assumes "mo_closed m"
  shows "push_attempt k t v m = (Rejected, m) \<and>
    pops (length (mo_items m) + n) t m = map Delivered (mo_items m) @ replicate n Drained"
proof
  show "push_attempt k t v m = (Rejected, m)"
    using assms by (simp add: push_attempt_def)
  show "pops (length (mo_items m) + n) t m = map Delivered (mo_items m) @ replicate n Drained"
    using assms
  proof (induction "mo_items m" arbitrary: m)
    case Nil
    then show ?case using pops_drained [of m n t] by simp
  next
    case (Cons v vs)
    then obtain m' where "pop_attempt 0 t m = (Delivered v, m')" "mo_items m' = vs" "mo_closed m'"
      using pop_attempt_closed [of m 0 t] by auto
    then show ?case
      using Cons(1) [of m'] Cons(2) [symmetric] by simp
  qed
qed

theorem closed_queue_drains_witness:
  "pops 3 (1 :: nat) (close_locked ((fst sample_run)\<lparr>mo_items := [7, 8]\<rparr>)) = [Delivered 7, Delivered 8, Drained]"
  using closed_queue_drains [of "close_locked ((fst sample_run)\<lparr>mo_items := [7, 8]\<rparr>)" 0 1 9 1]
  by (simp add: close_locked_def numeral_eq_Suc)

end
