(* ===== verification/Client_Run.thy ===== *)
theory Client_Run
  imports Client_Main Send_Connection Blocking_Queue
begin

text \<open>
  The running client: \<open>main\<close> of \<^verbatim>\<open>Client/src/main.cpp\<close> with the sender, the bounded queue between them and the
  timer thread of \<^verbatim>\<open>Client/src/system_channels.hpp\<close>. The main thread is a relation with one step per call it makes, so
  that the steps of the other threads fall between any two of them. The lemmas show that one round without
  interference is \<open>main_round\<close> of \<open>Client_Main\<close>, where every chunk of every file is in every state of every
  run, and what is left undone when the client exits.
\<close>

section \<open>The system channel\<close>

text \<open>The constructor; \<open>resolve\<close> is the resolver (an error is what it throws), \<open>opens\<close> whether the socket can be opened for
  the endpoint. The socket of the result is one that messages can be sent with.\<close>

definition system_channels_new ::
    "(string \<Rightarrow> string \<Rightarrow> 'e list res) \<Rightarrow> ('e \<Rightarrow> bool) \<Rightarrow> string \<Rightarrow> u16 \<Rightarrow> 'e option \<times> channels" where
  "system_channels_new resolve opens host port =
     (let none = \<lparr>sc_published = {}, sc_sent = [], sc_socket = False\<rparr>
      in case resolve host (show_nat (unat port)) of
           Inl _ \<Rightarrow> (None, none)
         | Inr [] \<Rightarrow> (None, none)
         | Inr (e # _) \<Rightarrow> (Some e, none\<lparr>sc_socket := opens e\<rparr>))"

text \<open>The timer thread: not started, at the head of its loop, asleep, ended.\<close>

datatype timer = TimerIdle | TimerHead | TimerAsleep | TimerEnded

definition timer_start :: "timer \<Rightarrow> timer" where
  "timer_start t = (if t = TimerIdle then TimerHead else t)"

text \<open>The body of the loop of the timer thread: the providers of size and capacity, then the sleep, or the end when the period is not
  positive.\<close>

definition queue_update :: "int \<Rightarrow> nat option \<Rightarrow> nat option \<Rightarrow> channels \<Rightarrow> timer \<times> channels" where
  "queue_update period sz capacity sc =
     (if period \<le> 0 then TimerEnded else TimerAsleep,
      case sz of None \<Rightarrow> sc | Some n \<Rightarrow> send_message (queue_size_text n capacity) sc)"

section \<open>The state of the client\<close>

text \<open>
  Where the main thread is: at the head of the loop, at the head of the loop over the updated files, in the
  loop over the chunks of a file (has the first chunk been announced?), behind a file, behind all files; then
  the shutdown, call by call.
\<close>

datatype main_at = LoopTop | ForFiles "file_descriptor list"
  | ForChunks file_descriptor "file_chunk list" bool "file_descriptor list"
  | AfterFile "file_descriptor list" | LoopEnd
  | CloseQueue | StopSender | JoinWorker | AwaitInflight | StopConnections | StopChannels | JoinTimer | Exited

record client =
  cl_at :: main_at
  cl_signal :: bool                 \<comment> \<open>\<open>g_stop_requested\<close>\<close>
  cl_known :: known_files
  cl_channels :: channels
  cl_timer :: timer
  cl_timer_stop :: bool
  cl_sender :: sender               \<comment> \<open>with the queue\<close>
  cl_running :: bool                \<comment> \<open>the worker has entered its loop\<close>
  cl_files :: u64
  cl_bytes :: u64
  cl_made :: "(file_descriptor \<times> byte list \<times> file_chunk list) list" \<comment> \<open>history: files, their contents and chunks\<close>
  cl_pushed :: "file_chunk list"    \<comment> \<open>history: chunks put into the queue\<close>

definition client_sender_options :: "client_config \<Rightarrow> sender_connect_options" where
  "client_sender_options c =
     \<lparr>so_host_prefix = cc_host_prefix c, so_base_port = cc_base_port c, so_connections = cc_connections c,
      so_max_send_retries = cc_max_send_retries c, so_max_connect_attempts = cc_max_connect_attempts c,
      so_connect_timeout = cc_connect_timeout c, so_reconnect_delay = cc_connect_retry_delay c,
      so_tcp_no_delay = cc_tcp_no_delay c\<rparr>"

text \<open>
  \<open>main\<close> up to its loop. \<open>None\<close>: the arguments make it return at once. An error is an exception nobody
  catches; it ends the program.
\<close>

definition client_boot ::
    "(string \<Rightarrow> string \<Rightarrow> 'e list res) \<Rightarrow> ('e \<Rightarrow> bool) \<Rightarrow> int \<Rightarrow> string list \<Rightarrow> int \<Rightarrow> (client_config \<times> client res) option" where
  "client_boot resolve opens level args now =
     (case client_parse_arguments args (client_config_default level) of
        (False, _) \<Rightarrow> None
      | (True, cfg) \<Rightarrow>
          Some (cfg,
            bindE (queue_new (cc_queue_capacity cfg) :: (nat, file_chunk) monitor res) (\<lambda>_.
            let (_, channels) = system_channels_new resolve opens (cc_control_host cfg) (cc_control_port cfg)
            in Inr \<lparr>cl_at = LoopTop, cl_signal = False, cl_known = [], cl_channels = channels,
                 cl_timer = timer_start TimerIdle, cl_timer_stop = False,
                 cl_sender = sender_new (sender_options.truncate (client_sender_options cfg)) now, cl_running = False,
                 cl_files = 0, cl_bytes = 0, cl_made = [], cl_pushed = []\<rparr>)))"

section \<open>The main thread\<close>

text \<open>
  \<open>items\<close> is what the directory iterator delivers, \<open>file\<close> what opening and reading a file gives. A push waits while the queue is
  full. With a chunk size of zero the chunker divides by zero, which no handler catches: no step follows.
\<close>

inductive main_step :: "'z zstd_c \<Rightarrow> client_config \<Rightarrow> client \<Rightarrow> client \<Rightarrow> bool" for enc cfg where
  top_stop: "cl_at s = LoopTop \<Longrightarrow> cl_signal s \<Longrightarrow> main_step enc cfg s (s\<lparr>cl_at := CloseQueue\<rparr>)"
| top_scan: "cl_at s = LoopTop \<Longrightarrow> \<not> cl_signal s \<Longrightarrow> scan items (cl_known s) = (updated, known') \<Longrightarrow>
    main_step enc cfg s (s\<lparr>cl_at := ForFiles updated, cl_known := known'\<rparr>)"
| files_done: "cl_at s = ForFiles [] \<Longrightarrow> main_step enc cfg s (s\<lparr>cl_at := LoopEnd\<rparr>)"
| file_skipped: "cl_at s = ForFiles (fd # fds) \<Longrightarrow>
    compress_operator enc (cc_compression_level cfg) file fd = Some (Inl e) \<Longrightarrow>
    main_step enc cfg s (s\<lparr>cl_at := AfterFile fds\<rparr>)"
| file_cut: "cl_at s = ForFiles (fd # fds) \<Longrightarrow>
    compress_operator enc (cc_compression_level cfg) (Some (data, False)) fd = Some (Inr f) \<Longrightarrow>
    chunk_operator (cc_chunk_payload_size cfg) f = Inr chunks \<Longrightarrow>
    main_step enc cfg s (s\<lparr>cl_at := ForChunks fd chunks False fds, cl_made := cl_made s @ [(fd, data, chunks)]\<rparr>)"
| announce: "cl_at s = ForChunks fd (c # cs) False fds \<Longrightarrow>
    main_step enc cfg s (s\<lparr>cl_at := ForChunks fd (c # cs) True fds,
      cl_channels := notify_file_chunk_enqueued c (cl_channels s)\<rparr>)"
| push: "cl_at s = ForChunks fd (c # cs) True fds \<Longrightarrow> \<not> sn_closed (cl_sender s) \<Longrightarrow>
    length (sn_items (cl_sender s)) < cc_queue_capacity cfg \<Longrightarrow>
    main_step enc cfg s (s\<lparr>cl_at := ForChunks fd cs False fds,
      cl_sender := (cl_sender s)\<lparr>sn_items := sn_items (cl_sender s) @ [c]\<rparr>, cl_pushed := cl_pushed s @ [c]\<rparr>)"
| push_closed: "cl_at s = ForChunks fd (c # cs) True fds \<Longrightarrow> sn_closed (cl_sender s) \<Longrightarrow>
    main_step enc cfg s (s\<lparr>cl_at := ForChunks fd [] False fds, cl_signal := True\<rparr>)"
| file_done: "cl_at s = ForChunks fd [] False fds \<Longrightarrow>
    main_step enc cfg s (s\<lparr>cl_at := AfterFile fds, cl_files := cl_files s + 1, cl_bytes := cl_bytes s + of_nat (fd_size fd)\<rparr>)"
| after_stop: "cl_at s = AfterFile fds \<Longrightarrow> cl_signal s \<Longrightarrow> main_step enc cfg s (s\<lparr>cl_at := LoopEnd\<rparr>)"
| after_go: "cl_at s = AfterFile fds \<Longrightarrow> \<not> cl_signal s \<Longrightarrow> main_step enc cfg s (s\<lparr>cl_at := ForFiles fds\<rparr>)"
| end_stop: "cl_at s = LoopEnd \<Longrightarrow> cl_signal s \<Longrightarrow> main_step enc cfg s (s\<lparr>cl_at := CloseQueue\<rparr>)"
| end_sleep: "cl_at s = LoopEnd \<Longrightarrow> \<not> cl_signal s \<Longrightarrow> main_step enc cfg s (s\<lparr>cl_at := LoopTop\<rparr>)"

text \<open>\<open>Sender::stop\<close>: the queue is closed again, the worker asked to stop and joined, the sends awaited, the connections stopped.\<close>

inductive sender_stop_step :: "client \<Rightarrow> client \<Rightarrow> bool" where
  request: "cl_at s = StopSender \<Longrightarrow>
    sender_stop_step s (s\<lparr>cl_at := JoinWorker, cl_sender := (cl_sender s)\<lparr>sn_closed := True, sn_stop := True\<rparr>\<rparr>)"
| joined: "cl_at s = JoinWorker \<Longrightarrow> sn_worker (cl_sender s) = Done \<Longrightarrow> sender_stop_step s (s\<lparr>cl_at := AwaitInflight\<rparr>)"
| no_inflight: "cl_at s = AwaitInflight \<Longrightarrow> sn_inflight (cl_sender s) = 0 \<Longrightarrow>
    sender_stop_step s (s\<lparr>cl_at := StopConnections, cl_sender := (cl_sender s)\<lparr>sn_window := window_reset now\<rparr>\<rparr>)"
| connections: "cl_at s = StopConnections \<Longrightarrow>
    sender_stop_step s (s\<lparr>cl_at := StopChannels, cl_sender := (cl_sender s)
      \<lparr>sn_connections := map (\<lambda>c. c\<lparr>cn_open := False\<rparr>) (sn_connections (cl_sender s))\<rparr>\<rparr>)"

text \<open>The shutdown: \<open>queue.close\<close>, \<open>Sender::stop\<close>, \<open>SystemChannels::stop\<close>.\<close>

inductive shutdown_step :: "client \<Rightarrow> client \<Rightarrow> bool" where
  close: "cl_at s = CloseQueue \<Longrightarrow>
    shutdown_step s (s\<lparr>cl_at := StopSender, cl_sender := (cl_sender s)\<lparr>sn_closed := True\<rparr>\<rparr>)"
| sender_stop: "sender_stop_step s s' \<Longrightarrow> shutdown_step s s'"
| channels: "cl_at s = StopChannels \<Longrightarrow> shutdown_step s (s\<lparr>cl_at := JoinTimer, cl_timer_stop := True\<rparr>)"
| timer_joined: "cl_at s = JoinTimer \<Longrightarrow> cl_timer s = TimerEnded \<Longrightarrow> shutdown_step s (s\<lparr>cl_at := Exited\<rparr>)"

section \<open>The other threads\<close>

definition control_update :: "sender \<Rightarrow> channels \<Rightarrow> channels" where
  "control_update s = notify_control (so_connections (sn_options s)) (active_connections s)"

text \<open>The worker announces itself when it starts; a delivered chunk is announced as well.\<close>

inductive sender_thread_step :: "client \<Rightarrow> client \<Rightarrow> bool" where
  start: "\<not> cl_running s \<Longrightarrow>
    sender_thread_step s (s\<lparr>cl_running := True, cl_channels := control_update (cl_sender s) (cl_channels s),
      cl_sender := (cl_sender s)\<lparr>sn_window := window_reset now\<rparr>\<rparr>)"
| internal: "cl_running s \<Longrightarrow> internal_step (cl_sender s) sn \<or> spurious_step (cl_sender s) sn \<Longrightarrow>
    sender_thread_step s (s\<lparr>cl_sender := sn,
      cl_channels := (if sn_delivered sn = sn_delivered (cl_sender s) then cl_channels s
                      else control_update sn (cl_channels s))\<rparr>)"

inductive timer_step :: "client_config \<Rightarrow> client \<Rightarrow> client \<Rightarrow> bool" for cfg where
  finish: "cl_timer s = TimerHead \<Longrightarrow> cl_timer_stop s \<Longrightarrow> timer_step cfg s (s\<lparr>cl_timer := TimerEnded\<rparr>)"
| update: "cl_timer s = TimerHead \<Longrightarrow> \<not> cl_timer_stop s \<Longrightarrow>
    queue_update (cc_queue_update_period cfg) (Some (length (sn_items (cl_sender s)))) (Some (cc_queue_capacity cfg)) (cl_channels s)
      = (t, sc) \<Longrightarrow> timer_step cfg s (s\<lparr>cl_timer := t, cl_channels := sc\<rparr>)"
| wake: "cl_timer s = TimerAsleep \<Longrightarrow> timer_step cfg s (s\<lparr>cl_timer := TimerHead\<rparr>)"

inductive client_run_step :: "'z zstd_c \<Rightarrow> client_config \<Rightarrow> client \<Rightarrow> client \<Rightarrow> bool" for enc cfg where
  main: "main_step enc cfg s s' \<Longrightarrow> client_run_step enc cfg s s'"
| shutdown: "shutdown_step s s' \<Longrightarrow> client_run_step enc cfg s s'"
| sender: "sender_thread_step s s' \<Longrightarrow> client_run_step enc cfg s s'"
| timer: "timer_step cfg s s' \<Longrightarrow> client_run_step enc cfg s s'"
| signal: "client_run_step enc cfg s (s\<lparr>cl_signal := True\<rparr>)"

section \<open>Where every chunk is\<close>

fun still_to_push :: "main_at \<Rightarrow> file_chunk list" where
  "still_to_push (ForChunks _ cs _ _) = cs"
| "still_to_push _ = []"

fun in_file :: "main_at \<Rightarrow> bool" where
  "in_file (ForChunks _ _ _ _) = True"
| "in_file _ = False"

text \<open>How far the shutdown has got.\<close>

fun phase :: "main_at \<Rightarrow> nat" where
  "phase StopSender = 1"
| "phase JoinWorker = 2"
| "phase AwaitInflight = 3"
| "phase StopConnections = 4"
| "phase StopChannels = 5"
| "phase JoinTimer = 6"
| "phase Exited = 7"
| "phase _ = 0"

definition file_of :: "'z zstd_c \<Rightarrow> client_config \<Rightarrow> file_descriptor \<times> byte list \<times> file_chunk list \<Rightarrow> bool" where
  "file_of enc cfg = (\<lambda>(fd, data, chunks). \<exists>f. compress_operator enc (cc_compression_level cfg) (Some (data, False)) fd = Some (Inr f) \<and>
     chunk_operator (cc_chunk_payload_size cfg) f = Inr chunks)"

definition all_chunks :: "client \<Rightarrow> file_chunk list" where
  "all_chunks s = concat (map (snd \<circ> snd) (cl_made s))"

definition finished_files :: "client \<Rightarrow> (file_descriptor \<times> byte list \<times> file_chunk list) list" where
  "finished_files s = (if in_file (cl_at s) then butlast (cl_made s) else cl_made s)"

definition producer_ok :: "'z zstd_c \<Rightarrow> client_config \<Rightarrow> client \<Rightarrow> bool" where
  "producer_ok enc cfg s \<longleftrightarrow> (\<forall>x \<in> set (cl_made s). file_of enc cfg x) \<and>
     cl_pushed s @ still_to_push (cl_at s) = all_chunks s \<and> (in_file (cl_at s) \<longrightarrow> cl_made s \<noteq> []) \<and>
     (\<forall>fd cs b fds. cl_at s = ForChunks fd cs b fds \<longrightarrow> fst (last (cl_made s)) = fd) \<and>
     cl_files s = of_nat (length (finished_files s)) \<and>
     cl_bytes s = of_nat (sum_list (map (fd_size \<circ> fst) (finished_files s)))"

definition queue_ok :: "client_config \<Rightarrow> client \<Rightarrow> bool" where
  "queue_ok cfg s \<longleftrightarrow> cl_pushed s = sn_taken (cl_sender s) @ sn_items (cl_sender s) \<and>
     length (sn_items (cl_sender s)) \<le> cc_queue_capacity cfg"

definition shutdown_ok :: "client \<Rightarrow> bool" where
  "shutdown_ok s \<longleftrightarrow> (sn_closed (cl_sender s) \<longleftrightarrow> 1 \<le> phase (cl_at s)) \<and> (sn_stop (cl_sender s) \<longleftrightarrow> 2 \<le> phase (cl_at s)) \<and>
     (3 \<le> phase (cl_at s) \<longrightarrow> sn_worker (cl_sender s) = Done) \<and> (4 \<le> phase (cl_at s) \<longrightarrow> sn_inflight (cl_sender s) = 0) \<and>
     (7 \<le> phase (cl_at s) \<longrightarrow> cl_timer s = TimerEnded)"

definition client_ok :: "'z zstd_c \<Rightarrow> client_config \<Rightarrow> client \<Rightarrow> bool" where [inv_defs]:
  "client_ok enc cfg s \<longleftrightarrow> sender_ok (cl_sender s) \<and> producer_ok enc cfg s \<and> queue_ok cfg s \<and> shutdown_ok s"

text \<open>Steps of the sender: the queue is only shortened, what is taken is kept, the flags are not touched.\<close>

lemma internal_step_frame:
  assumes "internal_step s s' \<or> spurious_step s s'"
  shows "sn_taken s' @ sn_items s' = sn_taken s @ sn_items s" "length (sn_items s') \<le> length (sn_items s)"
    "sn_closed s' = sn_closed s" "sn_stop s' = sn_stop s"
proof -
  have "sn_taken s' @ sn_items s' = sn_taken s @ sn_items s \<and> length (sn_items s') \<le> length (sn_items s) \<and>
    sn_closed s' = sn_closed s \<and> sn_stop s' = sn_stop s"
    using assms unfolding internal_step_def
    by (elim disjE worker_step.cases callback_step.cases spurious_step.cases) (auto simp: sender_ops split: if_splits)
  then show "sn_taken s' @ sn_items s' = sn_taken s @ sn_items s" "length (sn_items s') \<le> length (sn_items s)"
    "sn_closed s' = sn_closed s" "sn_stop s' = sn_stop s" by auto
qed

lemma done_stays:
  assumes "internal_step s s' \<or> spurious_step s s'" and "sn_worker s = Done"
  shows "sn_worker s' = Done"
  using assms unfolding internal_step_def
  by (elim disjE worker_step.cases callback_step.cases spurious_step.cases) (auto simp: sender_ops split: if_splits)

lemma inflight_stays:
  assumes "internal_step s s' \<or> spurious_step s s'" and "sn_worker s = Done" and "sn_inflight s = 0"
  shows "sn_inflight s' = 0"
  using assms unfolding internal_step_def
  by (elim disjE worker_step.cases callback_step.cases spurious_step.cases) (auto simp: sender_ops split: if_splits)

lemma sender_ok_window [simp]: "sender_ok (s\<lparr>sn_window := w\<rparr>) = sender_ok s"
  by (simp add: sender_ok_def chunks_conserved_def attempts_ok_def slots_ok_def slots_used_def in_transit_def ending_ok_def)

lemma sender_ok_closed_sockets [simp]: "sender_ok (s\<lparr>sn_connections := map f (sn_connections s)\<rparr>) = sender_ok s"
  by (simp add: sender_ok_def chunks_conserved_def attempts_ok_def slots_ok_def slots_used_def in_transit_def ending_ok_def)

lemma main_step_ok:
  assumes "main_step enc cfg s s'" and "client_ok enc cfg s"
  shows "client_ok enc cfg s'"
  using assms(1)
proof cases
  case (push fd c cs fds)
  have "sender_ok ((cl_sender s)\<lparr>sn_items := sn_items (cl_sender s) @ [c]\<rparr>)"
    using client_step_ok [OF client_step.produce] push assms(2) by (auto simp: client_ok_def)
  then show ?thesis
    using push assms(2)
    by (auto simp: client_ok_def producer_ok_def queue_ok_def shutdown_ok_def all_chunks_def finished_files_def)
next
  case (file_cut fd fds data f chunks)
  then show ?thesis
    using assms(2)
    by (auto simp: client_ok_def producer_ok_def queue_ok_def shutdown_ok_def all_chunks_def finished_files_def file_of_def)
next
  case (push_closed fd c cs fds)
  then show ?thesis
    using assms(2) by (auto simp: client_ok_def shutdown_ok_def)
next
  case (file_done fd fds)
  then have "cl_made s \<noteq> []" "fst (last (cl_made s)) = fd"
    using assms(2) by (auto simp: client_ok_def producer_ok_def)
  then obtain xs y where "cl_made s = xs @ [(fd, y)]"
    by (metis append_butlast_last_id prod.collapse)
  then show ?thesis
    using file_done assms(2)
    by (auto simp: client_ok_def producer_ok_def queue_ok_def shutdown_ok_def all_chunks_def finished_files_def)
qed (use assms(2) in \<open>auto simp: client_ok_def producer_ok_def queue_ok_def shutdown_ok_def all_chunks_def finished_files_def\<close>)

lemma shutdown_step_ok:
  assumes "shutdown_step s s'" and "client_ok enc cfg s"
  shows "client_ok enc cfg s'"
proof -
  have sn: "sender_ok (cl_sender s)" using assms(2) by (simp add: client_ok_def)
  have cls: "sender_ok ((cl_sender s)\<lparr>sn_closed := True\<rparr>)"
    by (rule client_step_ok [OF client_step.close_queue sn])
  have stp: "sender_ok ((cl_sender s)\<lparr>sn_closed := True, sn_stop := True\<rparr>)"
    using client_step_ok [OF client_step.request_stop cls] by simp
  from assms(1) show ?thesis
  proof cases
    case sender_stop
    then show ?thesis
      by cases (use assms(2) sn cls stp in
        \<open>auto simp: client_ok_def producer_ok_def queue_ok_def shutdown_ok_def all_chunks_def finished_files_def\<close>)
  qed (use assms(2) sn cls in
      \<open>auto simp: client_ok_def producer_ok_def queue_ok_def shutdown_ok_def all_chunks_def finished_files_def\<close>)
qed

text \<open>What the other threads may change.\<close>

lemma client_ok_frame:
  assumes "client_ok enc cfg s" and "sender_ok (cl_sender s')"
    and "cl_at s' = cl_at s" "cl_made s' = cl_made s" "cl_pushed s' = cl_pushed s" "cl_files s' = cl_files s" "cl_bytes s' = cl_bytes s"
    and "sn_taken (cl_sender s') @ sn_items (cl_sender s') = sn_taken (cl_sender s) @ sn_items (cl_sender s)"
    and "length (sn_items (cl_sender s')) \<le> length (sn_items (cl_sender s))"
    and "sn_closed (cl_sender s') = sn_closed (cl_sender s)" "sn_stop (cl_sender s') = sn_stop (cl_sender s)"
    and "sn_worker (cl_sender s) = Done \<longrightarrow> sn_worker (cl_sender s') = Done"
    and "sn_worker (cl_sender s) = Done \<longrightarrow> sn_inflight (cl_sender s) = 0 \<longrightarrow> sn_inflight (cl_sender s') = 0"
    and "cl_timer s = TimerEnded \<longrightarrow> cl_timer s' = TimerEnded"
  shows "client_ok enc cfg s'"
proof -
  have "producer_ok enc cfg s'"
    using assms(1,3-7) unfolding client_ok_def producer_ok_def finished_files_def all_chunks_def by simp
  moreover have "queue_ok cfg s'"
    using assms(1,5,8,9) unfolding client_ok_def queue_ok_def by simp
  moreover have "shutdown_ok s'"
  proof -
    have sh: "shutdown_ok s" using assms(1) by (simp add: client_ok_def)
    have "4 \<le> phase (cl_at s) \<longrightarrow> 3 \<le> phase (cl_at s)" by simp
    then show ?thesis
      using sh assms(3,10-14) unfolding shutdown_ok_def by simp
  qed
  ultimately show ?thesis
    using assms(2) by (simp add: client_ok_def)
qed

lemma other_step_ok:
  assumes "sender_thread_step s s' \<or> timer_step cfg s s'" and "client_ok enc cfg s"
  shows "client_ok enc cfg s'"
proof -
  have sn: "sender_ok (cl_sender s)" using assms(2) by (simp add: client_ok_def)
  from assms(1) show ?thesis
  proof
    assume "sender_thread_step s s'"
    then show ?thesis
    proof cases
      case (start now)
      show ?thesis by (rule client_ok_frame [OF assms(2)]) (simp_all add: start(1) sn)
    next
      case (internal sn')
      have "sender_ok sn'"
        using internal(3) sn internal_step_ok spurious_step_ok by blast
      then show ?thesis
        using internal_step_frame [OF internal(3)] done_stays [OF internal(3)] inflight_stays [OF internal(3)]
        by (intro client_ok_frame [OF assms(2)]) (simp_all add: internal(1))
    qed
  next
    assume "timer_step cfg s s'"
    then show ?thesis
      by cases (rule client_ok_frame [OF assms(2)]; simp add: sn)+
  qed
qed

lemma client_boot_ok:
  "client_boot resolve opens level args now = Some (cfg, Inr s) \<Longrightarrow> client_ok enc cfg s"
  by (auto simp: client_boot_def queue_new_def client_ok_def producer_ok_def queue_ok_def shutdown_ok_def all_chunks_def
      finished_files_def sender_new_ok split: prod.splits bool.splits if_splits)
    (auto simp: sender_new_def Let_def)

interpretation client_sys: invariant_system
    "\<lambda>s. \<exists>resolve opens level args now. client_boot resolve opens level args now = Some (cfg, Inr s)"
    "client_run_step enc cfg" "client_ok enc cfg" for enc cfg
proof
  show "\<exists>resolve opens level args now. client_boot resolve opens level args now = Some (cfg, Inr s) \<Longrightarrow> client_ok enc cfg s" for s
    using client_boot_ok by blast
  show "client_ok enc cfg s \<Longrightarrow> client_run_step enc cfg s s' \<Longrightarrow> client_ok enc cfg s'" for s s'
    by (erule client_run_step.cases)
      (use main_step_ok shutdown_step_ok other_step_ok in \<open>blast+\<close>,
       rule client_ok_frame [where s = s], simp_all add: client_ok_def)
qed

section \<open>One round without interference\<close>

definition producer_of :: "client \<Rightarrow> producer" where
  "producer_of s = \<lparr>pd_queue = sn_items (cl_sender s), pd_closed = sn_closed (cl_sender s), pd_stop = cl_signal s,
     pd_channels = cl_channels s, pd_files = cl_files s, pd_bytes = cl_bytes s\<rparr>"

text \<open>Only the queue, the announcements and the counters have changed.\<close>

definition follows :: "client \<Rightarrow> producer \<Rightarrow> client \<Rightarrow> bool" where
  "follows s p s' \<longleftrightarrow> producer_of s' = p \<and> cl_sender s' = (cl_sender s)\<lparr>sn_items := pd_queue p\<rparr> \<and> cl_known s' = cl_known s \<and>
     cl_timer s' = cl_timer s \<and> cl_timer_stop s' = cl_timer_stop s \<and> cl_running s' = cl_running s"

lemma follows_trans: "follows s p s1 \<Longrightarrow> follows s1 q s2 \<Longrightarrow> follows s q s2"
  by (simp add: follows_def)

lemma followsD:
  assumes "follows s p s'"
  shows "producer_of s' = p" "cl_signal s' = pd_stop p" "sn_closed (cl_sender s') = sn_closed (cl_sender s)"
  using assms by (simp_all add: follows_def) (auto simp: producer_of_def)

lemma follows_refl: "cl_sender s' = cl_sender s \<Longrightarrow> cl_known s' = cl_known s \<Longrightarrow> cl_timer s' = cl_timer s \<Longrightarrow>
    cl_timer_stop s' = cl_timer_stop s \<Longrightarrow> cl_running s' = cl_running s \<Longrightarrow> follows s (producer_of s') s'"
  by (auto simp: follows_def producer_of_def)

lemma push_run:
  assumes "cl_at s = ForChunks fd cs False fds" and "\<not> sn_closed (cl_sender s)"
    and "length (sn_items (cl_sender s)) + length cs \<le> cc_queue_capacity cfg"
  shows "\<exists>s'. (main_step enc cfg)\<^sup>*\<^sup>* s s' \<and> cl_at s' = ForChunks fd [] False fds \<and> follows s (push_chunks cs (producer_of s)) s'"
  using assms
proof (induction cs arbitrary: s)
  case Nil
  then show ?case
    using follows_refl [of s s] by auto
next
  case (Cons c cs)
  define s1 where "s1 = s\<lparr>cl_at := ForChunks fd (c # cs) True fds, cl_channels := notify_file_chunk_enqueued c (cl_channels s)\<rparr>"
  define s2 where "s2 = s1\<lparr>cl_at := ForChunks fd cs False fds,
      cl_sender := (cl_sender s1)\<lparr>sn_items := sn_items (cl_sender s1) @ [c]\<rparr>, cl_pushed := cl_pushed s1 @ [c]\<rparr>"
  have "main_step enc cfg s s1"
    unfolding s1_def by (rule main_step.announce [OF Cons.prems(1)])
  moreover have "main_step enc cfg s1 s2"
    unfolding s2_def by (rule main_step.push) (use Cons.prems in \<open>auto simp: s1_def\<close>)
  moreover obtain s' where "(main_step enc cfg)\<^sup>*\<^sup>* s2 s'" "cl_at s' = ForChunks fd [] False fds"
    "follows s2 (push_chunks cs (producer_of s2)) s'"
    using Cons.IH [of s2] Cons.prems by (auto simp: s2_def s1_def)
  moreover have "push_chunks (c # cs) (producer_of s) = push_chunks cs (producer_of s2)" "follows s (producer_of s2) s2"
    using Cons.prems(2) by (simp_all add: producer_of_def s2_def s1_def follows_def Let_def)
  ultimately show ?case
    by (metis converse_rtranclp_into_rtranclp follows_trans)
qed

lemma compress_readable:
  "compress_operator c level file fd = Some (Inr f) \<Longrightarrow> \<exists>data. file = Some (data, False)"
  by (auto simp: compress_operator_def split: option.splits sum.splits zret.splits prod.splits if_splits)

lemma file_run:
  assumes "cl_at s = ForFiles (fd # fds)" and "\<not> sn_closed (cl_sender s)" and "\<not> cl_signal s"
    and "process_file enc (cc_compression_level cfg) (cc_chunk_payload_size cfg) read fd (producer_of s) = Some (Inr p)"
    and "length (pd_queue p) \<le> cc_queue_capacity cfg"
  shows "\<exists>s'. (main_step enc cfg)\<^sup>*\<^sup>* s s' \<and> cl_at s' = ForFiles fds \<and> follows s p s' \<and> \<not> pd_stop p \<and> \<not> pd_closed p \<and>
    (\<exists>cs. pd_queue p = sn_items (cl_sender s) @ cs)"
proof -
  obtain r where r: "compress_operator enc (cc_compression_level cfg) (read (fd_path fd)) fd = Some r"
    using assms(4) by (auto simp: process_file_def split: option.splits)
  show ?thesis
  proof (cases r)
    case (Inl e)
    let ?s1 = "s\<lparr>cl_at := AfterFile fds\<rparr>"
    have "main_step enc cfg s ?s1"
      using main_step.file_skipped [OF assms(1)] r Inl by blast
    moreover have "main_step enc cfg ?s1 (?s1\<lparr>cl_at := ForFiles fds\<rparr>)"
      by (rule main_step.after_go) (use assms(3) in auto)
    moreover have "p = producer_of (?s1\<lparr>cl_at := ForFiles fds\<rparr>)"
      using assms(4) r Inl by (simp add: process_file_def producer_of_def)
    ultimately show ?thesis
      using assms(2,3) follows_refl [of "?s1\<lparr>cl_at := ForFiles fds\<rparr>" s]
      by (intro exI [of _ "?s1\<lparr>cl_at := ForFiles fds\<rparr>"]) (auto simp: producer_of_def)
  next
    case (Inr f)
    obtain chunks where ch: "chunk_operator (cc_chunk_payload_size cfg) f = Inr chunks"
      using assms(4) r Inr by (cases "chunk_operator (cc_chunk_payload_size cfg) f") (auto simp: process_file_def)
    obtain data where data: "read (fd_path fd) = Some (data, False)"
      using compress_readable r Inr by blast
    define q where "q = push_chunks chunks (producer_of s)"
    have q: "q = (producer_of s)\<lparr>pd_queue := sn_items (cl_sender s) @ chunks,
        pd_channels := fold notify_file_chunk_enqueued chunks (cl_channels s)\<rparr>"
      using assms(2) by (simp add: q_def push_chunks_open producer_of_def)
    have p: "p = q\<lparr>pd_files := pd_files q + 1, pd_bytes := pd_bytes q + of_nat (fd_size fd)\<rparr>"
      using assms(4) r Inr ch by (simp add: process_file_def q_def Let_def)
    define s1 where "s1 = s\<lparr>cl_at := ForChunks fd chunks False fds, cl_made := cl_made s @ [(fd, data, chunks)]\<rparr>"
    have "main_step enc cfg s s1"
      unfolding s1_def using main_step.file_cut [OF assms(1)] r Inr data ch by metis
    moreover have "producer_of s1 = producer_of s" "follows s (producer_of s) s1"
      by (simp_all add: s1_def producer_of_def follows_def)
    moreover obtain s2 where "(main_step enc cfg)\<^sup>*\<^sup>* s1 s2" and at: "cl_at s2 = ForChunks fd [] False fds" and "follows s1 q s2"
      using push_run [of s1 fd chunks fds cfg enc] assms(2,5) \<open>producer_of s1 = producer_of s\<close>
      by (auto simp: s1_def q_def [symmetric] p q)
    ultimately have run: "(main_step enc cfg)\<^sup>*\<^sup>* s s2" and fo: "follows s q s2"
      by (metis converse_rtranclp_into_rtranclp, metis follows_trans)
    define s3 where "s3 = s2\<lparr>cl_at := AfterFile fds, cl_files := cl_files s2 + 1, cl_bytes := cl_bytes s2 + of_nat (fd_size fd)\<rparr>"
    have "main_step enc cfg s2 s3"
      unfolding s3_def by (rule main_step.file_done [OF at])
    moreover have pq: "producer_of s2 = q" "\<not> cl_signal s2"
      using fo assms(3) q by (auto simp: follows_def producer_of_def)
    then have "main_step enc cfg s3 (s3\<lparr>cl_at := ForFiles fds\<rparr>)"
      by (intro main_step.after_go) (auto simp: s3_def)
    moreover have "follows s p (s3\<lparr>cl_at := ForFiles fds\<rparr>)"
      using fo pq(1) unfolding follows_def s3_def p by (auto simp: producer_of_def)
    moreover have "\<not> pd_stop p" "\<not> pd_closed p" "pd_queue p = sn_items (cl_sender s) @ chunks"
      using assms(2,3) by (simp_all add: p q producer_of_def)
    ultimately show ?thesis
      using run by (intro exI [of _ "s3\<lparr>cl_at := ForFiles fds\<rparr>"])
        (auto intro: rtranclp.rtrancl_into_rtrancl)
  qed
qed

lemma process_files_queue:
  "process_files c level k read fds p = Some (Inr p') \<Longrightarrow> \<not> pd_closed p \<Longrightarrow> \<exists>cs. pd_queue p' = pd_queue p @ cs"
proof (induction fds arbitrary: p)
  case (Cons fd fds)
  obtain p1 where p1: "process_file c level k read fd p = Some (Inr p1)"
    "p' = p1 \<or> process_files c level k read fds p1 = Some (Inr p')"
    using Cons.prems(1) by (auto split: option.splits sum.splits if_splits)
  have "\<not> pd_closed p1 \<and> (\<exists>cs. pd_queue p1 = pd_queue p @ cs)"
    using p1(1) Cons.prems(2)
    by (cases "compress_operator c level (read (fd_path fd)) fd")
      (auto simp: process_file_def push_chunks_open Let_def bindE_Inr_iff split: sum.splits)
  then show ?case
    using p1(2) Cons.IH [of p1] by auto
qed simp

lemma files_run:
  assumes "cl_at s = ForFiles fds" and "\<not> sn_closed (cl_sender s)" and "\<not> cl_signal s"
    and "process_files enc (cc_compression_level cfg) (cc_chunk_payload_size cfg) read fds (producer_of s) = Some (Inr p)"
    and "length (pd_queue p) \<le> cc_queue_capacity cfg"
  shows "\<exists>s'. (main_step enc cfg)\<^sup>*\<^sup>* s s' \<and> cl_at s' = LoopEnd \<and> follows s p s'"
  using assms
proof (induction fds arbitrary: s)
  case Nil
  have "main_step enc cfg s (s\<lparr>cl_at := LoopEnd\<rparr>)"
    by (rule main_step.files_done [OF Nil(1)])
  moreover have "p = producer_of (s\<lparr>cl_at := LoopEnd\<rparr>)"
    using Nil(4) by (simp add: producer_of_def)
  then have "follows s p (s\<lparr>cl_at := LoopEnd\<rparr>)"
    using follows_refl [of "s\<lparr>cl_at := LoopEnd\<rparr>" s] by simp
  ultimately show ?case
    by (intro exI [of _ "s\<lparr>cl_at := LoopEnd\<rparr>"]) auto
next
  case (Cons fd fds)
  obtain p1 where p1: "process_file enc (cc_compression_level cfg) (cc_chunk_payload_size cfg) read fd (producer_of s) = Some (Inr p1)"
    and rest: "if pd_stop p1 then p = p1 else
      process_files enc (cc_compression_level cfg) (cc_chunk_payload_size cfg) read fds p1 = Some (Inr p)"
    using Cons.prems(4) by (auto split: option.splits sum.splits if_splits)
  have "\<not> pd_closed p1"
    using p1 Cons.prems(2)
    by (cases "compress_operator enc (cc_compression_level cfg) (read (fd_path fd)) fd")
      (auto simp: process_file_def push_chunks_open Let_def bindE_Inr_iff producer_of_def split: sum.splits)
  then have "length (pd_queue p1) \<le> cc_queue_capacity cfg"
    using rest process_files_queue [of enc _ _ read fds p1 p] Cons.prems(5) by (fastforce split: if_splits)
  from file_run [OF Cons.prems(1-3) p1 this] obtain s1 where s1: "(main_step enc cfg)\<^sup>*\<^sup>* s s1" "cl_at s1 = ForFiles fds"
    "follows s p1 s1" "\<not> pd_stop p1" "\<not> pd_closed p1" by blast
  then have "producer_of s1 = p1" "\<not> sn_closed (cl_sender s1)" "\<not> cl_signal s1"
    using followsD [OF s1(3)] Cons.prems(2) by simp_all
  then obtain s' where "(main_step enc cfg)\<^sup>*\<^sup>* s1 s'" "cl_at s' = LoopEnd" "follows s1 p s'"
    using Cons.IH [of s1] s1(2,4) rest Cons.prems(5) by auto
  then show ?case
    using s1(1,3) by (metis follows_trans rtranclp_trans)
qed

lemma round_run:
  assumes "cl_at s = LoopTop" and "\<not> sn_closed (cl_sender s)" and "\<not> cl_signal s"
    and "main_round enc (cc_compression_level cfg) (cc_chunk_payload_size cfg) read items (cl_known s, producer_of s)
      = Some (Inr (known', p))"
    and "length (pd_queue p) \<le> cc_queue_capacity cfg"
  shows "\<exists>s'. (main_step enc cfg)\<^sup>*\<^sup>* s s' \<and> cl_at s' = LoopEnd \<and> cl_known s' = known' \<and> follows (s\<lparr>cl_known := known'\<rparr>) p s'"
proof -
  obtain updated known1 where sc: "scan items (cl_known s) = (updated, known1)" by fastforce
  define s1 where "s1 = s\<lparr>cl_at := ForFiles updated, cl_known := known1\<rparr>"
  have st: "main_step enc cfg s s1"
    unfolding s1_def by (rule main_step.top_scan [OF assms(1,3) sc])
  have pr: "producer_of s1 = producer_of s" by (simp add: s1_def producer_of_def)
  have k: "known1 = known'" and pf: "process_files enc (cc_compression_level cfg) (cc_chunk_payload_size cfg) read updated (producer_of s1)
      = Some (Inr p)"
    using assms(4) sc unfolding pr by (auto simp: main_round_def bindE_Inr_iff split: sum.splits)
  obtain s' where "(main_step enc cfg)\<^sup>*\<^sup>* s1 s'" "cl_at s' = LoopEnd" "follows s1 p s'"
    using files_run [OF _ _ _ pf assms(5)] assms(2,3) by (auto simp: s1_def)
  then show ?thesis
    using st k by (intro exI [of _ s']) (auto simp: follows_def s1_def intro: converse_rtranclp_into_rtranclp)
qed

section \<open>Files and their frames\<close>

lemma file_of_frame:
  assumes "file_of enc cfg (fd, data, chunks)" and "encodes enc (cc_compression_level cfg) frame"
    and "\<forall>x. frame data x \<longrightarrow> length x + cc_chunk_payload_size cfg \<le> 2 ^ 64" and "0 < cc_chunk_payload_size cfg"
  shows "frame data (concat (map ch_payload chunks)) \<and> (\<forall>c \<in> set chunks. ch_descriptor c = fd \<and> ch_sha256_hex c = to_hex (sha256 data))"
proof -
  obtain f where f: "compress_operator enc (cc_compression_level cfg) (Some (data, False)) fd = Some (Inr f)"
    "frame data (cf_data f)" "cf_sha256_hex f = to_hex (sha256 data)" "cf_descriptor f = fd"
    using compress_operator_law [OF assms(2)] by metis
  have ch: "chunk_operator (cc_chunk_payload_size cfg) f = Inr chunks"
    using assms(1) f(1) by (auto simp: file_of_def)
  show ?thesis
  proof (cases "cf_data f = []")
    case True
    then show ?thesis using ch f(2) by (simp add: chunk_operator_def)
  next
    case False
    let ?k = "cc_chunk_payload_size cfg"
    have "length (cf_data f) + ?k \<le> 2 ^ 64" using assms(3) f(2) by blast
    note eq = chunk_operator_eq [OF assms(4) False this]
    have "concat (map (\<lambda>i. take ?k (drop (i * ?k) (cf_data f))) [0..<(length (cf_data f) + ?k - 1) div ?k]) = cf_data f"
      using chunk_count_bounds(1) [OF assms(4), of "length (cf_data f)"] False by (simp add: concat_slices)
    then show ?thesis
      using ch f(2-4) eq by (auto simp: comp_def)
  qed
qed

section \<open>Shutting down\<close>

text \<open>A client whose worker has not come to its first chunk when the stop is requested.\<close>

lemma early_exit_run:
  assumes "cl_at s = LoopEnd" and "sn_worker (cl_sender s) = Top" and "sn_inflight (cl_sender s) = 0" and "cl_timer s = TimerHead"
    and "cl_running s"
  shows "\<exists>s'. (client_run_step enc cfg)\<^sup>*\<^sup>* s s' \<and> cl_at s' = Exited \<and> cl_files s' = cl_files s \<and>
    sn_items (cl_sender s') = sn_items (cl_sender s) \<and> sn_delivered (cl_sender s') = sn_delivered (cl_sender s) \<and>
    sn_dropped (cl_sender s') = sn_dropped (cl_sender s)"
proof -
  note mono = rtranclp.rtrancl_into_rtrancl [where r = "client_run_step enc cfg"]
  define s1 where "s1 = s\<lparr>cl_signal := True\<rparr>"
  define s2 where "s2 = s1\<lparr>cl_at := CloseQueue\<rparr>"
  define s3 where "s3 = s2\<lparr>cl_at := StopSender, cl_sender := (cl_sender s2)\<lparr>sn_closed := True\<rparr>\<rparr>"
  define s4 where "s4 = s3\<lparr>cl_at := JoinWorker, cl_sender := (cl_sender s3)\<lparr>sn_closed := True, sn_stop := True\<rparr>\<rparr>"
  define s5 where "s5 = s4\<lparr>cl_sender := (cl_sender s4)\<lparr>sn_worker := Done\<rparr>, cl_channels := cl_channels s4\<rparr>"
  define s6 where "s6 = s5\<lparr>cl_at := AwaitInflight\<rparr>"
  define s7 where "s7 = s6\<lparr>cl_at := StopConnections, cl_sender := (cl_sender s6)\<lparr>sn_window := window_reset 0\<rparr>\<rparr>"
  define s8 where "s8 = s7\<lparr>cl_at := StopChannels, cl_sender := (cl_sender s7)
      \<lparr>sn_connections := map (\<lambda>c. c\<lparr>cn_open := False\<rparr>) (sn_connections (cl_sender s7))\<rparr>\<rparr>"
  define s9 where "s9 = s8\<lparr>cl_at := JoinTimer, cl_timer_stop := True\<rparr>"
  define s10 where "s10 = s9\<lparr>cl_timer := TimerEnded\<rparr>"
  define s11 where "s11 = s10\<lparr>cl_at := Exited\<rparr>"
  note defs = s1_def s2_def s3_def s4_def s5_def s6_def s7_def s8_def s9_def s10_def
  have "client_run_step enc cfg s s1" unfolding s1_def by (rule client_run_step.signal)
  moreover have "client_run_step enc cfg s1 s2"
    unfolding s2_def by (rule client_run_step.main, rule main_step.end_stop) (simp_all add: s1_def assms)
  moreover have "client_run_step enc cfg s2 s3"
    unfolding s3_def by (rule client_run_step.shutdown, rule shutdown_step.close) (simp add: s2_def)
  moreover have "client_run_step enc cfg s3 s4"
    unfolding s4_def by (rule client_run_step.shutdown, rule shutdown_step.sender_stop, rule sender_stop_step.request) (simp add: s3_def)
  moreover have "client_run_step enc cfg s4 s5"
  proof -
    have "internal_step (cl_sender s4) ((cl_sender s4)\<lparr>sn_worker := Done\<rparr>)"
      unfolding internal_step_def by (rule disjI1, rule worker_step.top_stop) (simp_all add: defs assms)
    then have "sender_thread_step s4 (s4\<lparr>cl_sender := (cl_sender s4)\<lparr>sn_worker := Done\<rparr>, cl_channels :=
        (if sn_delivered ((cl_sender s4)\<lparr>sn_worker := Done\<rparr>) = sn_delivered (cl_sender s4) then cl_channels s4
         else control_update ((cl_sender s4)\<lparr>sn_worker := Done\<rparr>) (cl_channels s4))\<rparr>)"
      using assms(5) by (intro sender_thread_step.internal) (simp_all add: defs)
    then show ?thesis
      unfolding s5_def by (intro client_run_step.sender) simp
  qed
  moreover have "client_run_step enc cfg s5 s6"
    unfolding s6_def by (rule client_run_step.shutdown, rule shutdown_step.sender_stop, rule sender_stop_step.joined) (simp_all add: defs)
  moreover have "client_run_step enc cfg s6 s7"
    unfolding s7_def by (rule client_run_step.shutdown, rule shutdown_step.sender_stop, rule sender_stop_step.no_inflight) (simp_all add: defs assms)
  moreover have "client_run_step enc cfg s7 s8"
    unfolding s8_def by (rule client_run_step.shutdown, rule shutdown_step.sender_stop, rule sender_stop_step.connections) (simp add: s7_def)
  moreover have "client_run_step enc cfg s8 s9"
    unfolding s9_def by (rule client_run_step.shutdown, rule shutdown_step.channels) (simp add: s8_def)
  moreover have "client_run_step enc cfg s9 s10"
    unfolding s10_def by (rule client_run_step.timer, rule timer_step.finish) (simp_all add: defs assms)
  moreover have "client_run_step enc cfg s10 s11"
    unfolding s11_def by (rule client_run_step.shutdown, rule shutdown_step.timer_joined) (simp_all add: defs)
  ultimately have "(client_run_step enc cfg)\<^sup>*\<^sup>* s s11"
    by (meson converse_rtranclp_into_rtranclp rtranclp.rtrancl_refl)
  then show ?thesis
    by (intro exI [of _ s11]) (simp add: s11_def defs)
qed

section \<open>Properties\<close>

text \<open>C5. The client loses track of no chunk: in every state of every run, whatever the threads do in which order, signals and
  network included, every chunk of every file that was compressed is in exactly one place: not yet put into the queue, in the
  queue, delivered, dropped after its last attempt, given up by the stopped worker, or under way in the sender. The queue
  keeps the order in which the chunks were made and its capacity, and the chunks of every file carry its hash and concatenate to a
  frame of its contents.\<close>

theorem client_accounts_for_chunks:
  assumes "client_boot resolve opens level args now = Some (cfg, Inr s0)" and "(client_run_step enc cfg)\<^sup>*\<^sup>* s0 s"
    and "encodes enc (cc_compression_level cfg) frame"
    and "\<forall>(fd, data, chunks) \<in> set (cl_made s). \<forall>x. frame data x \<longrightarrow> length x + cc_chunk_payload_size cfg \<le> 2 ^ 64"
    and "0 < cc_chunk_payload_size cfg"
  shows "mset (all_chunks s) = mset (still_to_push (cl_at s)) + mset (sn_items (cl_sender s)) + mset (sn_delivered (cl_sender s))
      + mset (map fst (sn_dropped (cl_sender s))) + mset (map fst (sn_abandoned (cl_sender s)))
      + mset (map fst (in_transit (cl_sender s))) \<and>
    all_chunks s = sn_taken (cl_sender s) @ sn_items (cl_sender s) @ still_to_push (cl_at s) \<and>
    length (sn_items (cl_sender s)) \<le> cc_queue_capacity cfg \<and>
    (\<forall>(fd, data, chunks) \<in> set (cl_made s). frame data (concat (map ch_payload chunks)) \<and>
       (\<forall>c \<in> set chunks. ch_descriptor c = fd \<and> ch_sha256_hex c = to_hex (sha256 data)))"
proof -
  have ok: "client_ok enc cfg s"
    by (rule client_sys.steps_good [OF assms(2) client_boot_ok [OF assms(1)]])
  have "cl_pushed s @ still_to_push (cl_at s) = all_chunks s" "cl_pushed s = sn_taken (cl_sender s) @ sn_items (cl_sender s)"
    using ok unfolding client_ok_def producer_ok_def queue_ok_def by blast+
  then have q: "all_chunks s = sn_taken (cl_sender s) @ sn_items (cl_sender s) @ still_to_push (cl_at s)" by simp
  have c: "chunks_conserved (cl_sender s)" and l: "length (sn_items (cl_sender s)) \<le> cc_queue_capacity cfg"
    and f: "\<forall>x \<in> set (cl_made s). file_of enc cfg x"
    using ok by (simp_all add: client_ok_def producer_ok_def queue_ok_def sender_ok_def)
  have "frame data (concat (map ch_payload chunks)) \<and> (\<forall>c \<in> set chunks. ch_descriptor c = fd \<and> ch_sha256_hex c = to_hex (sha256 data))"
    if "(fd, data, chunks) \<in> set (cl_made s)" for fd data chunks
    using file_of_frame [OF _ assms(3) _ assms(5)] f that assms(4) by blast
  then show ?thesis
    using q c l by (auto simp: chunks_conserved_def)
qed

definition sample_client :: client where
  "sample_client = \<lparr>cl_at = LoopTop, cl_signal = False, cl_known = [], cl_channels = \<lparr>sc_published = {}, sc_sent = [], sc_socket = True\<rparr>,
     cl_timer = TimerHead, cl_timer_stop = False,
     cl_sender = sender_new (sender_options.truncate (client_sender_options (client_config_default 3))) 0, cl_running = False,
     cl_files = 0, cl_bytes = 0, cl_made = [], cl_pushed = []\<rparr>"

lemma sample_boot:
  "client_boot (\<lambda>_ _. Inr [()]) (\<lambda>_. True) 3 [] 0 = Some (client_config_default 3, Inr sample_client)"
  by (simp add: client_boot_def queue_new_def system_channels_new_def sample_client_def timer_start_def)
    (simp add: client_config_default_def)

lemma sample_cut:
  obtains f chunks where "compress_operator toy_encoder 3 (Some ([7, 8], False)) \<lparr>fd_path = ''a'', fd_size = 2, fd_time = 5\<rparr> = Some (Inr f)"
    "chunk_operator 2500000 f = Inr chunks" "length chunks = 1" "concat (map ch_payload chunks) = [1, 7, 1, 8, 0]"
proof -
  let ?fd = "\<lparr>fd_path = ''a'', fd_size = 2, fd_time = 5\<rparr>"
  obtain f where f: "compress_operator toy_encoder 3 (Some ([7, 8], False)) ?fd = Some (Inr f)" "cf_data f = [1, 7, 1, 8, 0]"
    by (rule compress_operator_law [OF toy_encodes, of 3 "[7, 8]" ?fd]) (auto simp: toy_frame_def)
  show thesis
    using that [OF f(1)] chunk_operator_eq [of 2500000 f] f(2) by simp
qed

text \<open>One file has been found and cut.\<close>

definition sample_found :: "file_chunk list \<Rightarrow> client" where
  "sample_found chunks = sample_client\<lparr>cl_at := ForChunks \<lparr>fd_path = ''a'', fd_size = 2, fd_time = 5\<rparr> chunks False [],
     cl_known := [(''a'', \<lparr>fd_path = ''a'', fd_size = 2, fd_time = 5\<rparr>)],
     cl_made := [(\<lparr>fd_path = ''a'', fd_size = 2, fd_time = 5\<rparr>, [7, 8], chunks)]\<rparr>"

lemma sample_found_run:
  assumes "compress_operator toy_encoder 3 (Some ([7, 8], False)) \<lparr>fd_path = ''a'', fd_size = 2, fd_time = 5\<rparr> = Some (Inr f)"
    and "chunk_operator 2500000 f = Inr chunks"
  shows "(main_step toy_encoder (client_config_default 3))\<^sup>*\<^sup>* sample_client (sample_found chunks)"
proof -
  let ?fd = "\<lparr>fd_path = ''a'', fd_size = 2, fd_time = 5\<rparr>"
  let ?cfg = "client_config_default 3"
  let ?s1 = "sample_client\<lparr>cl_at := ForFiles [?fd], cl_known := [(''a'', ?fd)]\<rparr>"
  have "main_step toy_encoder ?cfg sample_client ?s1"
    by (rule main_step.top_scan [where items = "[ScanEntry ''a'' True 2 5]"])
      (simp_all add: sample_client_def scan_def process_entry_def Let_def)
  moreover have "main_step toy_encoder ?cfg ?s1 (?s1\<lparr>cl_at := ForChunks ?fd chunks False [], cl_made := cl_made ?s1 @ [(?fd, [7, 8], chunks)]\<rparr>)"
    by (rule main_step.file_cut [where f = f]) (use assms in \<open>simp_all add: client_config_default_def\<close>)
  moreover have "?s1\<lparr>cl_at := ForChunks ?fd chunks False [], cl_made := cl_made ?s1 @ [(?fd, [7, 8], chunks)]\<rparr> = sample_found chunks"
    by (simp add: sample_found_def sample_client_def)
  ultimately show ?thesis by auto
qed

lemma main_run: "(main_step enc cfg)\<^sup>*\<^sup>* s s' \<Longrightarrow> (client_run_step enc cfg)\<^sup>*\<^sup>* s s'"
  by (induction rule: rtranclp_induct) (auto intro: rtranclp.rtrancl_into_rtrancl client_run_step.main)

theorem client_accounts_for_chunks_witness:
  "\<exists>chunks. chunks \<noteq> [] \<and> (client_run_step toy_encoder (client_config_default 3))\<^sup>*\<^sup>* sample_client (sample_found chunks) \<and>
     mset (all_chunks (sample_found chunks)) = mset chunks \<and> concat (map ch_payload chunks) = toy_frame [7, 8]"
proof -
  let ?cfg = "client_config_default 3"
  obtain f chunks where f: "compress_operator toy_encoder 3 (Some ([7, 8], False)) \<lparr>fd_path = ''a'', fd_size = 2, fd_time = 5\<rparr> = Some (Inr f)"
    "chunk_operator 2500000 f = Inr chunks" "length chunks = 1"
    using sample_cut by metis
  have run: "(client_run_step toy_encoder ?cfg)\<^sup>*\<^sup>* sample_client (sample_found chunks)"
    by (rule main_run [OF sample_found_run [OF f(1,2)]])
  have e: "encodes toy_encoder (cc_compression_level ?cfg) (\<lambda>d f. f = toy_frame d)" by (rule toy_encodes)
  have "\<forall>(fd, data, cs) \<in> set (cl_made (sample_found chunks)). \<forall>x. x = toy_frame data \<longrightarrow> length x + cc_chunk_payload_size ?cfg \<le> 2 ^ 64"
    by (simp add: sample_found_def toy_frame_def client_config_default_def)
  from client_accounts_for_chunks [OF sample_boot run e this]
  have "all_chunks (sample_found chunks) = sn_taken (cl_sender (sample_found chunks)) @ sn_items (cl_sender (sample_found chunks))
      @ still_to_push (cl_at (sample_found chunks))"
    "\<forall>(fd, data, chunks) \<in> set (cl_made (sample_found chunks)). concat (map ch_payload chunks) = toy_frame data"
    by (auto simp: client_config_default_def)
  then show ?thesis
    using run f(3) by (intro exI [of _ chunks]) (auto simp: sample_found_def sample_client_def sender_new_def Let_def)
qed

text \<open>C21. One round of the main loop, executed step by step with room in the queue and no signal, ends at the sleep with exactly
  the result of the sequential description \<open>main_round\<close>: the same known files, queue, messages and counters.\<close>

theorem client_round_refines:
  assumes "cl_at s = LoopTop" and "\<not> sn_closed (cl_sender s)" and "\<not> cl_signal s"
    and "main_round enc (cc_compression_level cfg) (cc_chunk_payload_size cfg) read items (cl_known s, producer_of s)
      = Some (Inr (known', p))"
    and "length (pd_queue p) \<le> cc_queue_capacity cfg"
  shows "\<exists>s'. (client_run_step enc cfg)\<^sup>*\<^sup>* s s' \<and> cl_at s' = LoopEnd \<and> cl_known s' = known' \<and> producer_of s' = p \<and>
    cl_sender s' = (cl_sender s)\<lparr>sn_items := pd_queue p\<rparr>"
  using round_run [OF assms] main_run by (fastforce simp: follows_def)

theorem client_round_refines_witness:
  "\<exists>s'. (client_run_step toy_encoder (client_config_default 3))\<^sup>*\<^sup>* sample_client s' \<and> cl_at s' = LoopEnd \<and> cl_files s' = 0 \<and>
     cl_known s' = [(''a'', \<lparr>fd_path = ''a'', fd_size = 2, fd_time = 5\<rparr>)]"
proof -
  have "main_round toy_encoder (cc_compression_level (client_config_default 3)) (cc_chunk_payload_size (client_config_default 3)) (\<lambda>_. None)
      [ScanEntry ''a'' True 2 5] (cl_known sample_client, producer_of sample_client)
    = Some (Inr ([(''a'', \<lparr>fd_path = ''a'', fd_size = 2, fd_time = 5\<rparr>)], producer_of sample_client))"
    by (simp add: main_round_def scan_def process_entry_def Let_def sample_client_def producer_of_def process_file_def compress_operator_def)
  from client_round_refines [OF _ _ _ this]
  show ?thesis
    by (fastforce simp: sample_client_def producer_of_def sender_new_def Let_def)
qed

text \<open>C22. A client that exits has its worker joined, no send under way and its timer ended, and has counted every file it compressed with its
  size; but not every chunk of these files is delivered or dropped: what the queue and the retry queue still held when the stop was
  requested is lost without a message.\<close>

theorem client_exit_accounts:
  assumes "client_boot resolve opens level args now = Some (cfg, Inr s0)" and "(client_run_step enc cfg)\<^sup>*\<^sup>* s0 s"
    and "cl_at s = Exited"
  shows "mset (all_chunks s) = mset (sn_delivered (cl_sender s)) + mset (map fst (sn_dropped (cl_sender s)))
      + (mset (sn_items (cl_sender s)) + mset (map fst (sn_retry (cl_sender s))) + mset (map fst (sn_abandoned (cl_sender s)))) \<and>
    cl_files s = of_nat (length (cl_made s)) \<and> cl_bytes s = of_nat (sum_list (map (fd_size \<circ> fst) (cl_made s))) \<and>
    sn_worker (cl_sender s) = Done \<and> sn_inflight (cl_sender s) = 0 \<and> sn_sending (cl_sender s) = [] \<and> cl_timer s = TimerEnded"
proof -
  have ok: "client_ok enc cfg s"
    by (rule client_sys.steps_good [OF assms(2) client_boot_ok [OF assms(1)]])
  have sh: "sn_worker (cl_sender s) = Done" "sn_inflight (cl_sender s) = 0" "cl_timer s = TimerEnded"
    using ok assms(3) by (simp_all add: client_ok_def shutdown_ok_def)
  then have sending: "sn_sending (cl_sender s) = []"
    using ok by (simp add: client_ok_def sender_ok_def slots_ok_def slots_used_def)
  have pushed: "cl_pushed s @ still_to_push (cl_at s) = all_chunks s" "cl_pushed s = sn_taken (cl_sender s) @ sn_items (cl_sender s)"
    and c: "chunks_conserved (cl_sender s)"
    using ok unfolding client_ok_def producer_ok_def queue_ok_def sender_ok_def by blast+
  have "mset (all_chunks s) = mset (sn_taken (cl_sender s)) + mset (sn_items (cl_sender s))"
    using pushed assms(3) by (metis append_Nil2 mset_append still_to_push.simps(13))
  then have all: "mset (all_chunks s) = mset (sn_delivered (cl_sender s)) + mset (map fst (sn_dropped (cl_sender s)))
      + (mset (sn_items (cl_sender s)) + mset (map fst (sn_retry (cl_sender s))) + mset (map fst (sn_abandoned (cl_sender s))))"
    using c sh(1) sending by (simp add: chunks_conserved_def in_transit_def)
  show ?thesis
    using all sh sending ok assms(3) by (simp add: client_ok_def producer_ok_def finished_files_def)
qed

text \<open>The run that reaches the exit with a file counted and none of its chunks sent.\<close>

lemma sample_exit:
  "\<exists>s. (client_run_step toy_encoder (client_config_default 3))\<^sup>*\<^sup>* sample_client s \<and> cl_at s = Exited \<and> cl_files s = 1 \<and>
     sn_items (cl_sender s) \<noteq> [] \<and> sn_delivered (cl_sender s) = [] \<and> sn_dropped (cl_sender s) = []"
proof -
  let ?cfg = "client_config_default 3"
  obtain f chunks where f: "compress_operator toy_encoder 3 (Some ([7, 8], False)) \<lparr>fd_path = ''a'', fd_size = 2, fd_time = 5\<rparr> = Some (Inr f)"
    "chunk_operator 2500000 f = Inr chunks" "length chunks = 1"
    using sample_cut by metis
  let ?s1 = "sample_found chunks"
  obtain s2 where s2: "(main_step toy_encoder ?cfg)\<^sup>*\<^sup>* ?s1 s2" "cl_at s2 = ForChunks \<lparr>fd_path = ''a'', fd_size = 2, fd_time = 5\<rparr> [] False []"
    "follows ?s1 (push_chunks chunks (producer_of ?s1)) s2"
    using push_run [of ?s1 _ chunks "[]" ?cfg toy_encoder] f(3)
    by (auto simp: sample_found_def sample_client_def sender_new_def client_config_default_def Let_def)
  define s3 where "s3 = s2\<lparr>cl_at := AfterFile [], cl_files := cl_files s2 + 1, cl_bytes := cl_bytes s2 + of_nat 2\<rparr>"
  have st3: "main_step toy_encoder ?cfg s2 s3"
    using main_step.file_done [OF s2(2)] by (simp add: s3_def)
  define s4 where "s4 = s3\<lparr>cl_at := ForFiles []\<rparr>"
  have sn2: "cl_sender s2 = (cl_sender sample_client)\<lparr>sn_items := chunks\<rparr>" "\<not> cl_signal s2" "cl_files s2 = 0" "cl_timer s2 = TimerHead"
    "\<not> cl_running s2"
    using s2(3) by (auto simp: follows_def producer_of_def sample_found_def sample_client_def push_chunks_open sender_new_def Let_def)
  have st4: "main_step toy_encoder ?cfg s3 s4"
    unfolding s4_def by (rule main_step.after_go) (simp_all add: s3_def sn2)
  define s5 where "s5 = s4\<lparr>cl_at := LoopEnd\<rparr>"
  have st5: "main_step toy_encoder ?cfg s4 s5"
    unfolding s5_def by (rule main_step.files_done) (simp add: s4_def)
  define s6 where "s6 = s5\<lparr>cl_running := True, cl_channels := control_update (cl_sender s5) (cl_channels s5),
      cl_sender := (cl_sender s5)\<lparr>sn_window := window_reset 0\<rparr>\<rparr>"
  have st6: "client_run_step toy_encoder ?cfg s5 s6"
    unfolding s6_def by (intro client_run_step.sender sender_thread_step.start) (simp add: s5_def s4_def s3_def sn2)
  have "(main_step toy_encoder ?cfg)\<^sup>*\<^sup>* sample_client s5"
    using sample_found_run [OF f(1,2)] s2(1) st3 st4 st5 by (meson rtranclp.rtrancl_into_rtrancl rtranclp_trans)
  then have run6: "(client_run_step toy_encoder ?cfg)\<^sup>*\<^sup>* sample_client s6"
    using st6 main_run by (meson rtranclp.rtrancl_into_rtrancl)
  have facts: "cl_at s6 = LoopEnd" "sn_worker (cl_sender s6) = Top" "sn_inflight (cl_sender s6) = 0" "cl_timer s6 = TimerHead" "cl_running s6"
    "cl_files s6 = 1" "sn_items (cl_sender s6) = chunks" "sn_delivered (cl_sender s6) = []" "sn_dropped (cl_sender s6) = []"
    using sn2 by (simp_all add: s6_def s5_def s4_def s3_def sample_client_def sender_new_def Let_def)
  obtain s where "(client_run_step toy_encoder ?cfg)\<^sup>*\<^sup>* s6 s" "cl_at s = Exited" "cl_files s = cl_files s6"
    "sn_items (cl_sender s) = sn_items (cl_sender s6)" "sn_delivered (cl_sender s) = sn_delivered (cl_sender s6)"
    "sn_dropped (cl_sender s) = sn_dropped (cl_sender s6)"
    using early_exit_run [OF facts(1-5)] by blast
  then show ?thesis
    using run6 f(3) by (intro exI [of _ s]) (auto simp: facts)
qed

theorem client_exit_accounts_witness:
  "\<exists>s. (client_run_step toy_encoder (client_config_default 3))\<^sup>*\<^sup>* sample_client s \<and> cl_at s = Exited \<and> cl_files s = 1 \<and>
     sn_delivered (cl_sender s) = [] \<and>
     mset (all_chunks s) = mset (sn_items (cl_sender s)) + mset (map fst (sn_retry (cl_sender s))) + mset (map fst (sn_abandoned (cl_sender s)))"
proof -
  obtain s where "(client_run_step toy_encoder (client_config_default 3))\<^sup>*\<^sup>* sample_client s" "cl_at s = Exited" "cl_files s = 1"
     "sn_delivered (cl_sender s) = []" "sn_dropped (cl_sender s) = []"
    using sample_exit by blast
  note s = this
  show ?thesis
    using s client_exit_accounts [OF sample_boot s(1,2)] by (intro exI [of _ s]) simp
qed

text \<open>The command line accepts a queue capacity of 0; the constructor of the queue then throws outside of every \<open>try\<close>.\<close>

theorem zero_capacity_ends_client:
  "\<exists>cfg. client_boot resolve opens level [''--queue-capacity'', ''0''] now
     = Some (cfg, Inl (InvalidArgument ''Queue capacity must be greater than zero''))"
  by (simp add: client_boot_def value_option_def queue_new_def stoull_def strto_def read_sign_def isspace_def isdigit_def
      digits_val_def digit_val_def)

end
