(* ===== verification/Close_Race.thy ===== *)
theory Close_Race
  imports Send_Connection
begin

text \<open>
  The class \<open>Connection\<close> of \<^verbatim>\<open>Client/src/sender.hpp\<close> has no lock: the handler of a failed write closes the
  connection from its own thread while the worker may be in \<open>ensure_connected\<close>. The phases of \<open>close\<close> and of
  \<open>ensure_connected\<close> are their parts between which steps of the other thread can fall; the lemmas show
  that they compose to the functions, and what one interleaving of them leaves.
\<close>

section \<open>The phases\<close>

text \<open>\<open>close\<close> up to the reset of the socket.\<close>

definition close_socket :: "'io link \<Rightarrow> 'io link" where
  "close_socket c = c\<lparr>lk_socket := None\<rparr>"

text \<open>\<open>stop_runner\<close> up to the stop of the context, and from the look at the thread on.\<close>

definition stop_begin :: "('io, 'e) io_ops \<Rightarrow> 'io link \<Rightarrow> 'io link" where
  "stop_begin ops c =
     (let c = c\<lparr>lk_guard := False\<rparr>
      in c\<lparr>lk_io := io_stop ops (lk_io c)\<rparr>)"

definition stop_end :: "('io, 'e) io_ops \<Rightarrow> bool \<Rightarrow> bool \<Rightarrow> 'io link \<Rightarrow> 'io link" where
  "stop_end ops own wait c =
     (let c = (if joinable (lk_runner c)
               then let c = c\<lparr>lk_runner := ask_stop (lk_runner c)\<rparr>
                    in if wait \<and> \<not> own then c\<lparr>lk_runner := NoRunner, lk_cleanup := False\<rparr>
                       else if \<not> wait then c\<lparr>lk_cleanup := True\<rparr>
                       else c
               else c)
      in if wait \<or> \<not> joinable (lk_runner c)
         then let c = c\<lparr>lk_io := io_restart ops (lk_io c)\<rparr>
              in if \<not> joinable (lk_runner c) then c\<lparr>lk_cleanup := False\<rparr> else c
         else c)"

text \<open>\<open>ensure_connected\<close> up to the loop: \<open>None\<close> when the socket is open already.\<close>

definition connect_begin :: "('io, 'e) io_ops \<Rightarrow> connect_params \<Rightarrow> 'io link \<Rightarrow> 'e option res \<times> 'io link" where
  "connect_begin ops cp c =
     (if link_is_open c then (Inr None, c)
      else
        let c = c\<lparr>lk_socket := None\<rparr>
        in case io_resolve ops (cp_host cp) (show_nat (unat (cp_port cp))) (lk_io c) of
             (Inl e, io) \<Rightarrow> (Inl e, c\<lparr>lk_io := io\<rparr>)
           | (Inr es, io) \<Rightarrow> (Inr (Some es), c\<lparr>lk_io := io\<rparr>))"

text \<open>
  An attempt up to the return of \<open>run\<close>, with the error and the flag. Where the work guard is still set,
  \<open>run\<close> handles the events and then waits for the stop of the context.
\<close>

definition attempt_run :: "('io, 'e) io_ops \<Rightarrow> connect_params \<Rightarrow> 'e \<Rightarrow> 'io link \<Rightarrow> (string option \<times> bool) \<times> 'io link" where
  "attempt_run ops cp es c =
     (let c = c\<lparr>lk_socket := Some False\<rparr>;
          (evs, io) = io_connect ops es (if cp_connect_timeout cp > 0 then Some (cp_connect_timeout cp) else None)
                        (io_restart ops (lk_io c));
          (connect_error, timed_out, opened) = connect_events evs
      in ((connect_error, timed_out), c\<lparr>lk_io := io, lk_socket := Some opened\<rparr>))"

text \<open>The rest of a successful attempt.\<close>

definition attempt_connected :: "('io, 'e) io_ops \<Rightarrow> connect_params \<Rightarrow> 'io link \<Rightarrow> unit res \<times> 'io link" where
  "attempt_connected ops cp c =
     (if cp_tcp_no_delay cp
      then (case io_no_delay ops (lk_io c) of
              (Some e, io) \<Rightarrow> (Inl (SystemError e), c\<lparr>lk_io := io\<rparr>)
            | (None, io) \<Rightarrow> (Inr (), ensure_runner ops False (c\<lparr>lk_io := io\<rparr>)))
      else (Inr (), ensure_runner ops False c))"

section \<open>They compose to the functions\<close>

lemma stop_runner_phases: "stop_runner ops own wait c = stop_end ops own wait (stop_begin ops c)"
  by (simp add: stop_runner_def stop_end_def stop_begin_def Let_def)

lemma link_close_phases: "link_close ops own c = stop_end ops own False (stop_begin ops (close_socket c))"
  by (simp add: link_close_def stop_runner_phases close_socket_def)

lemma link_connect_loop_phases:
  "link_connect_loop ops cp es (Suc n) attempt e c =
     (case attempt_run ops cp es c of
        ((connect_error, timed_out), c) \<Rightarrow>
          if connect_error = None \<and> \<not> timed_out then attempt_connected ops cp c
          else let c = link_close ops False c;
                   c = c\<lparr>lk_waits := lk_waits c @ [retry_wait cp attempt]\<rparr>
               in link_connect_loop ops cp es n (attempt + 1) connect_error c)"
proof -
  obtain evs io where ev: "io_connect ops es (if cp_connect_timeout cp > 0 then Some (cp_connect_timeout cp) else None)
      (io_restart ops (lk_io c)) = (evs, io)" by fastforce
  obtain ce to op where ce: "connect_events evs = (ce, to, op)" by (metis prod_cases3)
  show ?thesis
    by (cases "ce = None \<and> \<not> to") (auto simp: attempt_run_def attempt_connected_def Let_def ev ce split: prod.split option.split)
qed

lemma ensure_connected_phases:
  "ensure_connected ops cp c =
     (case connect_begin ops cp c of
        (Inl e, c) \<Rightarrow> (Inl e, c)
      | (Inr None, c) \<Rightarrow> (Inr (), c)
      | (Inr (Some es), c) \<Rightarrow>
          link_connect_loop ops cp es (max 1 (cp_max_connect_attempts cp)) 0 (Some ''host_not_found'') c)"
  by (simp add: ensure_connected_def connect_begin_def Let_def split: prod.split sum.split)

section \<open>A link that nobody serves\<close>

definition abandoned :: "('io, 'e) io_ops \<Rightarrow> 'io link \<Rightarrow> bool" where
  "abandoned ops c \<longleftrightarrow> link_is_open c \<and> io_stopped ops (lk_io c) \<and> lk_runner c \<in> {RunnerAlive True, RunnerEnded}"

text \<open>What can still happen: steps of the old thread, and the worker, which connects and hands over sends.\<close>

definition abandoned_step :: "('io, 'e) io_ops \<Rightarrow> connect_params \<Rightarrow> 'io link \<Rightarrow> 'io link \<Rightarrow> bool" where
  "abandoned_step ops cp c c' \<longleftrightarrow> unattended_step ops c c' \<or> (\<exists>r. ensure_connected ops cp c = (r, c'))"

lemma unattended_open:
  assumes "stop_holds ops" and "io_stopped ops (lk_io c)" and "unattended_step ops c c'"
  shows "lk_socket c' = lk_socket c"
  using assms
  by (auto simp: unattended_step_def async_send_chunk_def stop_holds_def run_returned_def elim!: runner_step.cases
      split: runner.splits)

lemma abandoned_steps:
  assumes "stop_holds ops" and "abandoned ops c" and "(abandoned_step ops cp)\<^sup>*\<^sup>* c c'"
  shows "abandoned ops c' \<and> lk_results c' = lk_results c"
  using assms(3)
proof (induction rule: rtranclp_induct)
  case (step c1 c2)
  then consider "unattended_step ops c1 c2" | r where "ensure_connected ops cp c1 = (r, c2)"
    by (auto simp: abandoned_step_def)
  then show ?case
  proof cases
    case 1
    have "io_stopped ops (lk_io c2) \<and> lk_runner c2 \<in> {RunnerAlive True, RunnerEnded} \<and> lk_results c2 = lk_results c1"
      using unattended_stopped [OF assms(1) r_into_rtranclp [of "unattended_step ops", OF 1]] step.IH by (simp add: abandoned_def)
    moreover have "lk_socket c2 = lk_socket c1"
      using unattended_open [OF assms(1) _ 1] step.IH by (simp add: abandoned_def)
    ultimately show ?thesis
      using step.IH by (simp add: abandoned_def link_is_open_def)
  next
    case 2
    then show ?thesis
      using step.IH by (simp add: abandoned_def ensure_connected_def)
  qed
qed (use assms(2) in simp)

section \<open>Properties\<close>

text \<open>C18. A write fails on a served connection, and while its handler closes the connection the worker connects it anew: the worker
  finds the socket gone, connects, and looks at the thread after the handler has dropped the work guard and stopped the context
  but before it has asked the thread to stop. The worker takes the old thread for its own and returns the open socket; then the
  handler asks this thread to stop. From then on the socket is open, so every later \<open>ensure_connected\<close> returns it,
  but no thread serves it: of the chunks sent there no result is reported any more, neither success nor failure.
  (The accesses themselves are data races; the run is one in which each takes effect at once.)\<close>

theorem close_race_abandons_link:
  assumes "stop_holds ops" and "lk_socket c = Some True" and "lk_runner c = RunnerAlive False" and "\<not> lk_cleanup c"
    and "io_resolve ops (cp_host cp) (show_nat (unat (cp_port cp))) (lk_io c) = (Inr es, io1)"
    and "io_connect ops es (if cp_connect_timeout cp > 0 then Some (cp_connect_timeout cp) else None) (io_restart ops io1) = (evs, io2)"
    and "connect_events evs = (None, False, True)"
    and "\<forall>io. fst (io_no_delay ops io) = None \<and> io_stopped ops (snd (io_no_delay ops io)) = io_stopped ops io"
  shows "\<exists>c2 c3 c4 c5 c6.
    connect_begin ops cp (close_socket c) = (Inr (Some es), c2) \<and>
    attempt_run ops cp es c2 = ((None, False), c3) \<and>
    stop_begin ops c3 = c4 \<and>
    attempt_connected ops cp c4 = (Inr (), c5) \<and>
    report chunk attempt (Some m) (stop_end ops True False c5) = c6 \<and>
    (\<forall>c'. (abandoned_step ops cp)\<^sup>*\<^sup>* c6 c' \<longrightarrow>
       link_is_open c' \<and> ensure_connected ops cp c' = (Inr (), c') \<and>
       lk_results c' = lk_results c @ [(chunk, attempt, Some m)] \<and> (\<forall>h io. io_next ops (lk_io c') \<noteq> Some (h, io)))"
proof -
  let ?c2 = "c\<lparr>lk_socket := None, lk_io := io1\<rparr>" and ?c3 = "c\<lparr>lk_socket := Some True, lk_io := io2\<rparr>"
  let ?c4 = "c\<lparr>lk_socket := Some True, lk_guard := False, lk_io := io_stop ops io2\<rparr>"
  have 1: "connect_begin ops cp (close_socket c) = (Inr (Some es), ?c2)"
    using assms(5) by (simp add: connect_begin_def close_socket_def link_is_open_def)
  have 2: "attempt_run ops cp es ?c2 = ((None, False), ?c3)"
    using assms(6,7) by (simp add: attempt_run_def Let_def)
  have 3: "stop_begin ops ?c3 = ?c4"
    by (simp add: stop_begin_def)
  obtain io where io: "io_stopped ops io"
    and 4: "attempt_connected ops cp ?c4 = (Inr (), ?c4\<lparr>lk_guard := True, lk_io := io\<rparr>)"
  proof (cases "cp_tcp_no_delay cp")
    case True
    obtain io where "io_no_delay ops (io_stop ops io2) = (None, io)" "io_stopped ops io"
      using assms(1,8) by (metis prod.collapse stop_holds_def)
    then show ?thesis
      using True assms(3,4) by (intro that [of io]) (simp_all add: attempt_connected_def ensure_runner_def joinable_def)
  next
    case False
    then show ?thesis
      using assms(1,3,4) by (intro that [of "io_stop ops io2"])
        (simp_all add: attempt_connected_def ensure_runner_def joinable_def stop_holds_def)
  qed
  define c6 where "c6 = report chunk attempt (Some m) (stop_end ops True False (?c4\<lparr>lk_guard := True, lk_io := io\<rparr>))"
  have c6: "abandoned ops c6" "lk_results c6 = lk_results c @ [(chunk, attempt, Some m)]"
    using assms(2,3) io by (simp_all add: c6_def abandoned_def report_def stop_end_def joinable_def link_is_open_def Let_def)
  have "link_is_open c' \<and> ensure_connected ops cp c' = (Inr (), c') \<and> lk_results c' = lk_results c @ [(chunk, attempt, Some m)] \<and>
      (\<forall>h io. io_next ops (lk_io c') \<noteq> Some (h, io))" if "(abandoned_step ops cp)\<^sup>*\<^sup>* c6 c'" for c'
    using abandoned_steps [OF assms(1) c6(1) that] c6(2) assms(1) by (simp add: abandoned_def ensure_connected_def stop_holds_def)
  then show ?thesis
    using 1 2 3 4 by (intro exI conjI) (assumption | simp add: c6_def)+
qed

theorem close_race_abandons_link_witness:
  "\<exists>c6. link_is_open c6 \<and> lk_results c6 = [(sample_file_chunk, 1, Some ''e'')] \<and>
     ensure_connected (list_io [ConnectDone None] (Some ''e'') None) sample_params c6 = (Inr (), c6)"
proof -
  let ?ops = "list_io [ConnectDone None] (Some ''e'') None"
  have laws: "stop_holds ?ops" "lk_socket sample_link = Some True" "lk_runner sample_link = RunnerAlive False" "\<not> lk_cleanup sample_link"
    "io_resolve ?ops h p (lk_io sample_link) = (Inr (), (False, []))"
    "io_connect ?ops () t (io_restart ?ops (False, [])) = ([ConnectDone None], (False, []))"
    "connect_events [ConnectDone None] = (None, False, True)"
    "\<forall>io. fst (io_no_delay ?ops io) = None \<and> io_stopped ?ops (snd (io_no_delay ?ops io)) = io_stopped ?ops io" for h p t
    by (simp_all add: list_io_stop_holds sample_link_def connect_events_def) (simp_all add: list_io_def)
  obtain c6 where c6: "\<And>c'. (abandoned_step ?ops sample_params)\<^sup>*\<^sup>* c6 c' \<Longrightarrow>
       link_is_open c' \<and> ensure_connected ?ops sample_params c' = (Inr (), c') \<and>
       lk_results c' = lk_results sample_link @ [(sample_file_chunk, 1, Some ''e'')]"
    using close_race_abandons_link [OF laws, of sample_params sample_file_chunk 1 "''e''"] by blast
  have "link_is_open c6 \<and> ensure_connected ?ops sample_params c6 = (Inr (), c6) \<and>
       lk_results c6 = lk_results sample_link @ [(sample_file_chunk, 1, Some ''e'')]"
    by (rule c6) (rule rtranclp.rtrancl_refl)
  then show ?thesis
    by (intro exI [of _ c6]) (simp add: sample_link_def)
qed

end
