(* ===== verification/Environment.thy ===== *)
theory Environment
  imports SV_Prelude
begin

text \<open>
  The process environment and its readers in \<^verbatim>\<open>SuperAPI._server/src/environment.cpp\<close>: the loader of
  a \<^verbatim>\<open>.env\<close> file and the accessors \<open>getEnv\<close>, \<open>getEnvOrDefault\<close> and \<open>getEnvFlag\<close>. The environment
  is the map from names to values that \<open>setenv\<close> updates and \<open>std::getenv\<close> reads; both see a
  \<open>std::string\<close> up to its first NUL character. The main result is the round trip of a quoted
  \<^verbatim>\<open>.env\<close> file.
\<close>

section \<open>The process environment\<close>

type_synonym environ = "string \<Rightarrow> string option"

abbreviation nul :: char where
  "nul \<equiv> CHR 0x00"

definition c_str :: "string \<Rightarrow> string" where
  "c_str s = takeWhile (\<lambda>c. c \<noteq> nul) s"

text \<open>\<open>setenv\<close> refuses an empty name and a name with an equals sign; \<open>setEnv\<close> ignores its result.\<close>

definition set_env :: "string \<Rightarrow> string \<Rightarrow> environ \<Rightarrow> environ" where
  "set_env key value env =
     (let k = c_str key
      in if k = [] \<or> CHR ''='' \<in> set k then env else env(k \<mapsto> c_str value))"

definition get_env :: "environ \<Rightarrow> string \<Rightarrow> string option" where
  "get_env env key = env (c_str key)"

definition get_env_or_default :: "environ \<Rightarrow> string \<Rightarrow> string \<Rightarrow> string" where
  "get_env_or_default env key def =
     (case get_env env key of
        None \<Rightarrow> def
      | Some v \<Rightarrow> if v = [] then def else v)"

definition to_lower :: "string \<Rightarrow> string" where
  "to_lower s = map tolower s"

definition get_env_flag :: "environ \<Rightarrow> string \<Rightarrow> bool \<Rightarrow> bool" where
  "get_env_flag env key def =
     (case get_env env key of
        None \<Rightarrow> def
      | Some v \<Rightarrow>
          (let l = to_lower v
           in if l = ''true'' \<or> l = ''1'' \<or> l = ''yes'' \<or> l = ''on'' then True
              else if l = ''false'' \<or> l = ''0'' \<or> l = ''no'' \<or> l = ''off'' then False
              else def))"

section \<open>The .env file\<close>

definition trim :: "string \<Rightarrow> string" where
  "trim s = rev (dropWhile isspace (rev (dropWhile isspace s)))"

text \<open>The successive results of \<open>std::getline\<close> on a stream with this content.\<close>

fun getlines :: "string \<Rightarrow> string \<Rightarrow> string list" where
  "getlines acc [] = (if acc = [] then [] else [rev acc])"
| "getlines acc (c # cs) =
     (if c = newline then rev acc # getlines [] cs else getlines (c # acc) cs)"

definition unquote :: "string \<Rightarrow> string" where
  "unquote v =
     (if 2 \<le> length v \<and>
         (hd v = CHR 0x22 \<and> last v = CHR 0x22 \<or> hd v = CHR 0x27 \<and> last v = CHR 0x27)
      then take (length v - 2) (drop 1 v) else v)"

definition dot_env_line :: "string \<Rightarrow> environ \<Rightarrow> environ" where
  "dot_env_line line env =
     (if line = [] \<or> hd line = CHR ''#'' then env
      else case break_at (CHR ''='') line of
          (_, None) \<Rightarrow> env
        | (k, Some v) \<Rightarrow>
            (let key = trim k; value = unquote (trim v)
             in if key \<noteq> [] then set_env key value env else env))"

text \<open>The content is \<open>None\<close> when the file cannot be opened.\<close>

definition load_dot_env :: "string option \<Rightarrow> environ \<Rightarrow> bool \<times> environ" where
  "load_dot_env content env =
     (case content of
        None \<Rightarrow> (False, env)
      | Some s \<Rightarrow> (True, fold dot_env_line (getlines [] s) env))"

section \<open>Facts\<close>

lemma c_str_id: "nul \<notin> set s \<Longrightarrow> c_str s = s"
  unfolding c_str_def by (rule takeWhile_all) auto

lemma get_set_env:
  assumes "c_str k \<noteq> []" and "CHR ''='' \<notin> set (c_str k)"
  shows "get_env (set_env k v env) k' = (if c_str k' = c_str k then Some (c_str v) else get_env env k')"
  using assms by (simp add: get_env_def set_env_def)

lemma trim_id:
  assumes "s \<noteq> []" "\<not> isspace (hd s)" "\<not> isspace (last s)"
  shows "trim s = s"
proof -
  have "dropWhile isspace s = s" using assms by (cases s) auto
  moreover have "dropWhile isspace (rev s) = rev s"
    using assms by (cases s rule: rev_cases) auto
  ultimately show ?thesis by (simp add: trim_def)
qed

lemma getlines_line:
  "newline \<notin> set l \<Longrightarrow> getlines acc (l @ newline # rest) = (rev acc @ l) # getlines [] rest"
  by (induction l arbitrary: acc) auto

lemma quote_not_space: "\<not> isspace (CHR 0x22)"
  by (simp add: isspace_def)

lemma unquote_quoted: "unquote (CHR 0x22 # v @ [CHR 0x22]) = v"
  by (simp add: unquote_def)

section \<open>A quoted file is read back\<close>

definition env_name :: "string \<Rightarrow> bool" where
  "env_name k \<longleftrightarrow> k \<noteq> [] \<and> CHR ''='' \<notin> set k \<and> newline \<notin> set k \<and> nul \<notin> set k \<and>
     hd k \<noteq> CHR ''#'' \<and> \<not> isspace (hd k) \<and> \<not> isspace (last k)"

definition env_value :: "string \<Rightarrow> bool" where
  "env_value v \<longleftrightarrow> newline \<notin> set v \<and> nul \<notin> set v"

definition quoted_line :: "string \<times> string \<Rightarrow> string" where
  "quoted_line kv = fst kv @ ''='' @ [CHR 0x22] @ snd kv @ [CHR 0x22]"

definition quoted_file :: "(string \<times> string) list \<Rightarrow> string" where
  "quoted_file kvs = concat (map (\<lambda>kv. quoted_line kv @ [newline]) kvs)"

lemma dot_env_quoted_line:
  assumes "env_name k" and "env_value v"
  shows "dot_env_line (quoted_line (k, v)) env = env(k \<mapsto> v)"
proof -
  have "break_at (CHR ''='') (quoted_line (k, v)) = (k, Some (CHR 0x22 # v @ [CHR 0x22]))"
    using assms by (simp add: quoted_line_def env_name_def)
  moreover have "trim k = k" using assms by (simp add: env_name_def trim_id)
  moreover have "trim (CHR 0x22 # v @ [CHR 0x22]) = CHR 0x22 # v @ [CHR 0x22]"
    by (rule trim_id) (simp_all add: quote_not_space)
  moreover have "quoted_line (k, v) \<noteq> []" "hd (quoted_line (k, v)) \<noteq> CHR ''#''"
    using assms by (simp_all add: quoted_line_def env_name_def)
  moreover have "c_str k = k" "c_str v = v"
    using assms by (simp_all add: env_name_def env_value_def c_str_id)
  ultimately show ?thesis
    using assms by (simp add: dot_env_line_def unquote_quoted set_env_def env_name_def)
qed

lemma quoted_line_no_newline:
  "env_name k \<Longrightarrow> env_value v \<Longrightarrow> newline \<notin> set (quoted_line (k, v))"
  by (simp add: quoted_line_def env_name_def env_value_def)

lemma load_quoted_lines:
  "list_all (\<lambda>(k, v). env_name k \<and> env_value v) kvs \<Longrightarrow>
     fold dot_env_line (getlines [] (quoted_file kvs)) env = env ++ map_of (rev kvs)"
proof (induction kvs arbitrary: env)
  case Nil
  then show ?case by (simp add: quoted_file_def)
next
  case (Cons kv kvs)
  obtain k v where kv: "kv = (k, v)" by (cases kv)
  with Cons.prems have ok: "env_name k" "env_value v" by auto
  have "getlines [] (quoted_file (kv # kvs)) = quoted_line (k, v) # getlines [] (quoted_file kvs)"
    using getlines_line [OF quoted_line_no_newline [OF ok], of "[]" "quoted_file kvs"]
    by (simp add: quoted_file_def kv)
  moreover have "env(k \<mapsto> v) ++ map_of (rev kvs) = env ++ map_of (rev (kv # kvs))"
    by (rule ext) (simp add: kv map_add_def split: option.split)
  moreover have "fold dot_env_line (getlines [] (quoted_file kvs)) (env(k \<mapsto> v)) =
      env(k \<mapsto> v) ++ map_of (rev kvs)"
    using Cons.prems by (intro Cons.IH) simp
  ultimately show ?case
    by (simp only: fold_simps o_apply dot_env_quoted_line [OF ok])
qed

text \<open>A file of lines \<open>NAME="value"\<close> is loaded as it was written: every name of the file is
  bound to its last value (blanks, quotes and hash signs inside the value included), every other
  variable keeps its value, and an existing variable is overwritten.\<close>

theorem dotenv_roundtrip:
  assumes "list_all (\<lambda>(k, v). env_name k \<and> env_value v) kvs"
  shows "load_dot_env (Some (quoted_file kvs)) env = (True, env ++ map_of (rev kvs))"
  by (simp add: load_dot_env_def load_quoted_lines [OF assms])

theorem dotenv_roundtrip_witness:
  "load_dot_env (Some (quoted_file [(''A'', '' x # ''), (''B'', []), (''A'', ''y'')])) Map.empty =
     (True, Map.empty ++ map_of [(''A'', ''y''), (''B'', []), (''A'', '' x # '')])"
  using dotenv_roundtrip [of "[(''A'', '' x # ''), (''B'', []), (''A'', ''y'')]" Map.empty]
  by (simp add: env_name_def env_value_def isspace_def)

section \<open>The accessors\<close>

lemma get_env_or_default_nonempty: "def \<noteq> [] \<Longrightarrow> get_env_or_default env key def \<noteq> []"
  by (simp add: get_env_or_default_def split: option.split)

lemma get_env_flag_word:
  assumes "get_env env key = Some v"
  shows "get_env_flag env key def =
     (if to_lower v \<in> {''true'', ''1'', ''yes'', ''on''} then True
      else if to_lower v \<in> {''false'', ''0'', ''no'', ''off''} then False else def)"
  by (simp add: assms get_env_flag_def Let_def)

lemma to_lower_idem [simp]: "to_lower (to_lower s) = to_lower s"
  by (simp add: to_lower_def tolower_idem)

end
