(* ===== verification/Relay_Config.thy ===== *)
theory Relay_Config
  imports Environment
begin

text \<open>
  The options shared by the programs of the file relay, \<^verbatim>\<open>FileRelay_.server/common/config.hpp\<close>: the
  parsers of single values, the command line, the environment, the order in which they override the
  defaults, and the validation. The retry factor is a floating point number, the parameter
  \<open>factor_ops\<close>.
\<close>

section \<open>Options\<close>

record 'd common_options =
  co_host :: string
  co_port :: u16
  co_connect_timeout :: int \<comment> \<open>milliseconds\<close>
  co_io_timeout :: int
  co_max_retries :: nat
  co_retry_initial :: int
  co_retry_max :: int
  co_retry_factor :: 'd
  co_tcp_no_delay :: bool
  co_auth_token :: "string option"

record 'd factor_ops =
  fo_stod :: "string \<Rightarrow> 'd res"
  fo_two :: 'd
  fo_below_one :: "'d \<Rightarrow> bool"

definition default_options :: "'d factor_ops \<Rightarrow> 'd common_options" where
  "default_options fo =
     \<lparr> co_host = ''127.0.0.1'', co_port = 5000, co_connect_timeout = 5000, co_io_timeout = 15000,
       co_max_retries = 5, co_retry_initial = 250, co_retry_max = 5000, co_retry_factor = fo_two fo,
       co_tcp_no_delay = True, co_auth_token = None \<rparr>"

definition summary :: "'d common_options \<Rightarrow> string" where
  "summary opts =
     ''host='' @ co_host opts @ '', port='' @ show_nat (unat (co_port opts)) @
     '', connect_timeout_ms='' @ show_int (co_connect_timeout opts) @
     '', io_timeout_ms='' @ show_int (co_io_timeout opts) @
     '', max_retries='' @ show_nat (co_max_retries opts) @
     '', tcp_no_delay='' @ (if co_tcp_no_delay opts then ''true'' else ''false'') @
     (case co_auth_token opts of Some _ \<Rightarrow> '', auth_token=***'' | None \<Rightarrow> [])"

section \<open>Values\<close>

definition relay_getenv :: "environ \<Rightarrow> string \<Rightarrow> string option" where
  "relay_getenv env key = (if key = [] then None else get_env env key)"

definition to_bool :: "string \<Rightarrow> bool res" where
  "to_bool value =
     (let normalized = to_lower value
      in if normalized = ''1'' \<or> normalized = ''true'' \<or> normalized = ''yes'' \<or> normalized = ''on'' then Inr True
         else if normalized = ''0'' \<or> normalized = ''false'' \<or> normalized = ''no'' \<or> normalized = ''off'' then Inr False
         else Inl (InvalidArgument (''Invalid boolean value: '' @ value)))"

definition parse_port :: "string \<Rightarrow> u16 res" where
  "parse_port value =
     bindE (stoul value) (\<lambda>parsed.
       if parsed = 0 \<or> parsed > 65535 then Inl (OutOfRange ''Port out of range'')
       else Inr (of_nat parsed))"

definition parse_duration_ms :: "string \<Rightarrow> int res" where
  "parse_duration_ms value =
     bindE (stoll value) (\<lambda>parsed.
       if parsed < 0 then Inl (OutOfRange ''Duration must be non-negative'') else Inr parsed)"

definition parse_size :: "string \<Rightarrow> nat res" where
  "parse_size value =
     bindE (stoll value) (\<lambda>parsed.
       if parsed < 0 then Inl (OutOfRange ''Size must be non-negative'') else Inr (nat parsed))"

section \<open>The command line\<close>

text \<open>\<open>result[k] = v\<close>: the last value of a key wins. The argument is \<open>argv\<close> behind the program name.\<close>

fun parse_cli :: "string list \<Rightarrow> (string \<rightharpoonup> string) \<Rightarrow> (string \<rightharpoonup> string)" where
  "parse_cli [] m = m"
| "parse_cli (arg # rest) m =
     (if take 2 arg \<noteq> ''--'' then parse_cli rest m
      else case break_at (CHR ''='') (drop 2 arg) of
          (key, Some value) \<Rightarrow> parse_cli rest (m(key \<mapsto> value))
        | (key, None) \<Rightarrow>
            (case rest of
               value # rest' \<Rightarrow> parse_cli rest' (m(key \<mapsto> value))
             | [] \<Rightarrow> m(key \<mapsto> ''true'')))"

section \<open>Applying the sources\<close>

text \<open>\<open>if (auto v = ...) options.f = parse(*v)\<close>; an exception of the parser ends the function.\<close>

definition apply_option ::
  "string option \<Rightarrow> (string \<Rightarrow> 'a res) \<Rightarrow> ('a \<Rightarrow> 'o \<Rightarrow> 'o) \<Rightarrow> 'o \<Rightarrow> 'o res" where
  "apply_option v parse put opts =
     (case v of None \<Rightarrow> Inr opts | Some s \<Rightarrow> bindE (parse s) (\<lambda>x. Inr (put x opts)))"

definition put_env_token :: "string \<Rightarrow> 'd common_options \<Rightarrow> 'd common_options" where
  "put_env_token token opts = (if token \<noteq> [] then opts\<lparr>co_auth_token := Some token\<rparr> else opts)"

definition put_cli_token :: "string \<Rightarrow> 'd common_options \<Rightarrow> 'd common_options" where
  "put_cli_token token opts =
     (if token \<noteq> [] then opts\<lparr>co_auth_token := Some token\<rparr> else opts\<lparr>co_auth_token := None\<rparr>)"

definition apply_env :: "'d factor_ops \<Rightarrow> environ \<Rightarrow> 'd common_options \<Rightarrow> 'd common_options res" where
  "apply_env fo env opts =
     bindE (apply_option (relay_getenv env ''SV_HOST'') Inr (\<lambda>x opts. opts\<lparr>co_host := x\<rparr>) opts) (\<lambda>opts.
     bindE (apply_option (relay_getenv env ''SV_PORT'') parse_port (\<lambda>x opts. opts\<lparr>co_port := x\<rparr>) opts) (\<lambda>opts.
     bindE (apply_option (relay_getenv env ''SV_CONNECT_TIMEOUT_MS'') parse_duration_ms (\<lambda>x opts. opts\<lparr>co_connect_timeout := x\<rparr>) opts) (\<lambda>opts.
     bindE (apply_option (relay_getenv env ''SV_IO_TIMEOUT_MS'') parse_duration_ms (\<lambda>x opts. opts\<lparr>co_io_timeout := x\<rparr>) opts) (\<lambda>opts.
     bindE (apply_option (relay_getenv env ''SV_MAX_RETRIES'') parse_size (\<lambda>x opts. opts\<lparr>co_max_retries := x\<rparr>) opts) (\<lambda>opts.
     bindE (apply_option (relay_getenv env ''SV_RETRY_INITIAL_MS'') parse_duration_ms (\<lambda>x opts. opts\<lparr>co_retry_initial := x\<rparr>) opts) (\<lambda>opts.
     bindE (apply_option (relay_getenv env ''SV_RETRY_MAX_MS'') parse_duration_ms (\<lambda>x opts. opts\<lparr>co_retry_max := x\<rparr>) opts) (\<lambda>opts.
     bindE (apply_option (relay_getenv env ''SV_RETRY_FACTOR'') (fo_stod fo) (\<lambda>x opts. opts\<lparr>co_retry_factor := x\<rparr>) opts) (\<lambda>opts.
     bindE (apply_option (relay_getenv env ''SV_TCP_NO_DELAY'') to_bool (\<lambda>x opts. opts\<lparr>co_tcp_no_delay := x\<rparr>) opts) (\<lambda>opts.
            apply_option (relay_getenv env ''SV_AUTH_TOKEN'') Inr put_env_token opts)))))))))"

definition apply_cli :: "'d factor_ops \<Rightarrow> (string \<rightharpoonup> string) \<Rightarrow> 'd common_options \<Rightarrow> 'd common_options res" where
  "apply_cli fo args opts =
     bindE (apply_option (args ''host'') Inr (\<lambda>x opts. opts\<lparr>co_host := x\<rparr>) opts) (\<lambda>opts.
     bindE (apply_option (args ''port'') parse_port (\<lambda>x opts. opts\<lparr>co_port := x\<rparr>) opts) (\<lambda>opts.
     bindE (apply_option (args ''connect-timeout'') parse_duration_ms (\<lambda>x opts. opts\<lparr>co_connect_timeout := x\<rparr>) opts) (\<lambda>opts.
     bindE (apply_option (args ''io-timeout'') parse_duration_ms (\<lambda>x opts. opts\<lparr>co_io_timeout := x\<rparr>) opts) (\<lambda>opts.
     bindE (apply_option (args ''max-retries'') parse_size (\<lambda>x opts. opts\<lparr>co_max_retries := x\<rparr>) opts) (\<lambda>opts.
     bindE (apply_option (args ''retry-initial'') parse_duration_ms (\<lambda>x opts. opts\<lparr>co_retry_initial := x\<rparr>) opts) (\<lambda>opts.
     bindE (apply_option (args ''retry-max'') parse_duration_ms (\<lambda>x opts. opts\<lparr>co_retry_max := x\<rparr>) opts) (\<lambda>opts.
     bindE (apply_option (args ''retry-factor'') (fo_stod fo) (\<lambda>x opts. opts\<lparr>co_retry_factor := x\<rparr>) opts) (\<lambda>opts.
     bindE (apply_option (args ''tcp-no-delay'') to_bool (\<lambda>x opts. opts\<lparr>co_tcp_no_delay := x\<rparr>) opts) (\<lambda>opts.
            apply_option (args ''auth-token'') Inr put_cli_token opts)))))))))"

definition validate :: "'d factor_ops \<Rightarrow> 'd common_options \<Rightarrow> unit res" where
  "validate fo opts =
     (if fo_below_one fo (co_retry_factor opts) then Inl (InvalidArgument ''retry_backoff_factor must be >= 1.0'')
      else if co_retry_initial opts < 0 \<or> co_retry_max opts < 0 then Inl (InvalidArgument ''retry delays must be >= 0'')
      else if co_retry_initial opts > co_retry_max opts
        then Inl (InvalidArgument ''retry_initial_delay cannot exceed retry_max_delay'')
      else Inr ())"

definition load_common_options :: "'d factor_ops \<Rightarrow> environ \<Rightarrow> string list \<Rightarrow> 'd common_options res" where
  "load_common_options fo env args =
     bindE (apply_env fo env (default_options fo)) (\<lambda>opts.
     bindE (apply_cli fo (parse_cli args Map.empty) opts) (\<lambda>opts.
     bindE (validate fo opts) (\<lambda>_. Inr opts)))"

section \<open>Which source decides\<close>

text \<open>The value of an option with a default \<open>d\<close>, an environment variable and a command line argument.\<close>

definition effective :: "(string \<Rightarrow> 'a res) \<Rightarrow> string option \<Rightarrow> string option \<Rightarrow> 'a \<Rightarrow> 'a res" where
  "effective parse cli env d =
     (case cli of
        Some s \<Rightarrow> parse s
      | None \<Rightarrow> (case env of Some s \<Rightarrow> parse s | None \<Rightarrow> Inr d))"

definition option_value :: "(string \<Rightarrow> 'a res) \<Rightarrow> string option \<Rightarrow> 'a \<Rightarrow> 'a \<Rightarrow> bool" where
  "option_value parse v old new \<longleftrightarrow> (case v of Some s \<Rightarrow> parse s = Inr new | None \<Rightarrow> new = old)"

lemma effective_value:
  "option_value parse env d x \<Longrightarrow> option_value parse cli x y \<Longrightarrow> effective parse cli env d = Inr y"
  by (auto simp: option_value_def effective_def split: option.splits)

lemma apply_option_field:
  assumes "\<And>opts. put (get opts) opts = opts"
  shows "apply_option v parse put opts = Inr opts' \<longleftrightarrow>
    (\<exists>x. option_value parse v (get opts) x \<and> opts' = put x opts)"
  using assms by (cases v) (auto simp: apply_option_def option_value_def bindE_Inr_iff)

lemma apply_option_fields:
  fixes opts :: "'d common_options"
  shows
  "apply_option v p1 (\<lambda>x o1. o1\<lparr>co_host := x\<rparr>) opts = Inr opts' \<longleftrightarrow>
     (\<exists>x. option_value p1 v (co_host opts) x \<and> opts' = opts\<lparr>co_host := x\<rparr>)"
  "apply_option v p2 (\<lambda>x o1. o1\<lparr>co_port := x\<rparr>) opts = Inr opts' \<longleftrightarrow>
     (\<exists>x. option_value p2 v (co_port opts) x \<and> opts' = opts\<lparr>co_port := x\<rparr>)"
  "apply_option v p3 (\<lambda>x o1. o1\<lparr>co_connect_timeout := x\<rparr>) opts = Inr opts' \<longleftrightarrow>
     (\<exists>x. option_value p3 v (co_connect_timeout opts) x \<and> opts' = opts\<lparr>co_connect_timeout := x\<rparr>)"
  "apply_option v p3 (\<lambda>x o1. o1\<lparr>co_io_timeout := x\<rparr>) opts = Inr opts' \<longleftrightarrow>
     (\<exists>x. option_value p3 v (co_io_timeout opts) x \<and> opts' = opts\<lparr>co_io_timeout := x\<rparr>)"
  "apply_option v p4 (\<lambda>x o1. o1\<lparr>co_max_retries := x\<rparr>) opts = Inr opts' \<longleftrightarrow>
     (\<exists>x. option_value p4 v (co_max_retries opts) x \<and> opts' = opts\<lparr>co_max_retries := x\<rparr>)"
  "apply_option v p3 (\<lambda>x o1. o1\<lparr>co_retry_initial := x\<rparr>) opts = Inr opts' \<longleftrightarrow>
     (\<exists>x. option_value p3 v (co_retry_initial opts) x \<and> opts' = opts\<lparr>co_retry_initial := x\<rparr>)"
  "apply_option v p3 (\<lambda>x o1. o1\<lparr>co_retry_max := x\<rparr>) opts = Inr opts' \<longleftrightarrow>
     (\<exists>x. option_value p3 v (co_retry_max opts) x \<and> opts' = opts\<lparr>co_retry_max := x\<rparr>)"
  "apply_option v p5 (\<lambda>x o1. o1\<lparr>co_retry_factor := x\<rparr>) opts = Inr opts' \<longleftrightarrow>
     (\<exists>x. option_value p5 v (co_retry_factor opts) x \<and> opts' = opts\<lparr>co_retry_factor := x\<rparr>)"
  "apply_option v p6 (\<lambda>x o1. o1\<lparr>co_tcp_no_delay := x\<rparr>) opts = Inr opts' \<longleftrightarrow>
     (\<exists>x. option_value p6 v (co_tcp_no_delay opts) x \<and> opts' = opts\<lparr>co_tcp_no_delay := x\<rparr>)"
  by (rule apply_option_field, simp)+

lemma apply_token:
  "apply_option v Inr put opts = Inr opts' \<longleftrightarrow> opts' = (case v of Some s \<Rightarrow> put s opts | None \<Rightarrow> opts)"
  by (cases v) (auto simp: apply_option_def)

lemmas apply_sources = bindE_Inr_iff apply_option_fields apply_token

definition env_token :: "environ \<Rightarrow> string option" where
  "env_token env =
     (case relay_getenv env ''SV_AUTH_TOKEN'' of Some t \<Rightarrow> if t \<noteq> [] then Some t else None | None \<Rightarrow> None)"

definition effective_token :: "string option \<Rightarrow> string option \<Rightarrow> string option" where
  "effective_token cli env = (case cli of Some t \<Rightarrow> if t \<noteq> [] then Some t else None | None \<Rightarrow> env)"

lemma apply_env_values:
  assumes "apply_env fo env opts = Inr o1"
  shows "option_value Inr (relay_getenv env ''SV_HOST'') (co_host opts) (co_host o1)"
    "option_value parse_port (relay_getenv env ''SV_PORT'') (co_port opts) (co_port o1)"
    "option_value parse_duration_ms (relay_getenv env ''SV_CONNECT_TIMEOUT_MS'') (co_connect_timeout opts) (co_connect_timeout o1)"
    "option_value parse_duration_ms (relay_getenv env ''SV_IO_TIMEOUT_MS'') (co_io_timeout opts) (co_io_timeout o1)"
    "option_value parse_size (relay_getenv env ''SV_MAX_RETRIES'') (co_max_retries opts) (co_max_retries o1)"
    "option_value parse_duration_ms (relay_getenv env ''SV_RETRY_INITIAL_MS'') (co_retry_initial opts) (co_retry_initial o1)"
    "option_value parse_duration_ms (relay_getenv env ''SV_RETRY_MAX_MS'') (co_retry_max opts) (co_retry_max o1)"
    "option_value (fo_stod fo) (relay_getenv env ''SV_RETRY_FACTOR'') (co_retry_factor opts) (co_retry_factor o1)"
    "option_value to_bool (relay_getenv env ''SV_TCP_NO_DELAY'') (co_tcp_no_delay opts) (co_tcp_no_delay o1)"
    "co_auth_token o1 = effective_token (env_token env) (co_auth_token opts)"
  using assms unfolding apply_env_def apply_sources
  by (auto simp: put_env_token_def env_token_def effective_token_def split: option.split)

lemma apply_cli_values:
  assumes "apply_cli fo args opts = Inr o1"
  shows "option_value Inr (args ''host'') (co_host opts) (co_host o1)"
    "option_value parse_port (args ''port'') (co_port opts) (co_port o1)"
    "option_value parse_duration_ms (args ''connect-timeout'') (co_connect_timeout opts) (co_connect_timeout o1)"
    "option_value parse_duration_ms (args ''io-timeout'') (co_io_timeout opts) (co_io_timeout o1)"
    "option_value parse_size (args ''max-retries'') (co_max_retries opts) (co_max_retries o1)"
    "option_value parse_duration_ms (args ''retry-initial'') (co_retry_initial opts) (co_retry_initial o1)"
    "option_value parse_duration_ms (args ''retry-max'') (co_retry_max opts) (co_retry_max o1)"
    "option_value (fo_stod fo) (args ''retry-factor'') (co_retry_factor opts) (co_retry_factor o1)"
    "option_value to_bool (args ''tcp-no-delay'') (co_tcp_no_delay opts) (co_tcp_no_delay o1)"
    "co_auth_token o1 = effective_token (args ''auth-token'') (co_auth_token opts)"
  using assms unfolding apply_cli_def apply_sources
  by (auto simp: put_cli_token_def effective_token_def split: option.split)

lemma load_steps:
  assumes "load_common_options fo env args = Inr opts"
  obtains o1 where "apply_env fo env (default_options fo) = Inr o1"
    "apply_cli fo (parse_cli args Map.empty) o1 = Inr opts" "validate fo opts = Inr ()"
  using assms by (auto simp: load_common_options_def bindE_Inr_iff)

text \<open>Every option is decided by the command line when it has the key, else by the environment variable, else by
  the default, and the value of the deciding source has parsed; an empty token on the command line removes the
  one of the environment.\<close>

theorem options_precedence:
  assumes "load_common_options fo env args = Inr opts"
  shows "let cli = parse_cli args Map.empty; var = relay_getenv env in
    effective Inr (cli ''host'') (var ''SV_HOST'') ''127.0.0.1'' = Inr (co_host opts) \<and>
    effective parse_port (cli ''port'') (var ''SV_PORT'') 5000 = Inr (co_port opts) \<and>
    effective parse_duration_ms (cli ''connect-timeout'') (var ''SV_CONNECT_TIMEOUT_MS'') 5000 = Inr (co_connect_timeout opts) \<and>
    effective parse_duration_ms (cli ''io-timeout'') (var ''SV_IO_TIMEOUT_MS'') 15000 = Inr (co_io_timeout opts) \<and>
    effective parse_size (cli ''max-retries'') (var ''SV_MAX_RETRIES'') 5 = Inr (co_max_retries opts) \<and>
    effective parse_duration_ms (cli ''retry-initial'') (var ''SV_RETRY_INITIAL_MS'') 250 = Inr (co_retry_initial opts) \<and>
    effective parse_duration_ms (cli ''retry-max'') (var ''SV_RETRY_MAX_MS'') 5000 = Inr (co_retry_max opts) \<and>
    effective (fo_stod fo) (cli ''retry-factor'') (var ''SV_RETRY_FACTOR'') (fo_two fo) = Inr (co_retry_factor opts) \<and>
    effective to_bool (cli ''tcp-no-delay'') (var ''SV_TCP_NO_DELAY'') True = Inr (co_tcp_no_delay opts) \<and>
    co_auth_token opts = effective_token (cli ''auth-token'') (env_token env)"
proof -
  obtain o1 where "apply_env fo env (default_options fo) = Inr o1"
    and "apply_cli fo (parse_cli args Map.empty) o1 = Inr opts"
    by (rule load_steps [OF assms])
  note env = apply_env_values [OF this(1), unfolded default_options_def common_options.simps]
    and cli = apply_cli_values [OF this(2)]
  show ?thesis
    using effective_value [OF env(1) cli(1)] effective_value [OF env(2) cli(2)] effective_value [OF env(3) cli(3)]
      effective_value [OF env(4) cli(4)] effective_value [OF env(5) cli(5)] effective_value [OF env(6) cli(6)]
      effective_value [OF env(7) cli(7)] effective_value [OF env(8) cli(8)] effective_value [OF env(9) cli(9)]
      env(10) cli(10)
    by (simp add: effective_token_def env_token_def split: option.splits)
qed

section \<open>Ranges\<close>

lemma option_value_range:
  assumes "option_value parse v old new" and "P old" and "\<And>s x. parse s = Inr x \<Longrightarrow> P x"
  shows "P new"
  using assms by (auto simp: option_value_def split: option.splits)

lemma parse_port_range:
  assumes "parse_port s = Inr p"
  shows "p \<noteq> 0"
proof -
  obtain n where n: "0 < n" "n \<le> 65535" "p = of_nat n"
    using assms by (auto simp: parse_port_def bindE_Inr_iff split: if_splits)
  then have "unat p = n" by (simp add: unat_of_nat)
  then show ?thesis using n(1) by auto
qed

lemma parse_duration_range: "parse_duration_ms s = Inr d \<Longrightarrow> 0 \<le> d \<and> d < 2 ^ 63"
  by (auto simp: parse_duration_ms_def bindE_Inr_iff stoll_def Let_def split: option.splits if_splits)

lemma parse_size_range: "parse_size s = Inr n \<Longrightarrow> n < 2 ^ 63"
  by (auto simp: parse_size_def bindE_Inr_iff stoll_def Let_def split: option.splits if_splits)

definition options_in_range :: "'d factor_ops \<Rightarrow> 'd common_options \<Rightarrow> bool" where
  "options_in_range fo opts \<longleftrightarrow>
     co_port opts \<noteq> 0 \<and> 0 \<le> co_connect_timeout opts \<and> co_connect_timeout opts < 2 ^ 63 \<and>
     0 \<le> co_io_timeout opts \<and> co_io_timeout opts < 2 ^ 63 \<and> co_max_retries opts < 2 ^ 63 \<and>
     0 \<le> co_retry_initial opts \<and> co_retry_initial opts \<le> co_retry_max opts \<and> co_retry_max opts < 2 ^ 63 \<and>
     \<not> fo_below_one fo (co_retry_factor opts)"

text \<open>C31. Options that load are well formed: the port is not zero, the timeouts, delays and the number of retries fit
  a signed 64 bit integer and are not negative, the first delay does not exceed the largest and the factor
  is not below one.\<close>

theorem loaded_options_in_range:
  assumes "load_common_options fo env args = Inr opts"
  shows "options_in_range fo opts"
proof -
  obtain o1 where "apply_env fo env (default_options fo) = Inr o1"
    and "apply_cli fo (parse_cli args Map.empty) o1 = Inr opts" and val: "validate fo opts = Inr ()"
    by (rule load_steps [OF assms])
  note env = apply_env_values [OF this(1), unfolded default_options_def common_options.simps]
    and cli = apply_cli_values [OF this(2)]
  have "co_port opts \<noteq> 0"
    by (rule option_value_range [OF cli(2)], rule option_value_range [OF env(2)])
       (auto dest: parse_port_range)
  moreover have "0 \<le> co_connect_timeout opts \<and> co_connect_timeout opts < 2 ^ 63"
    by (rule option_value_range [OF cli(3)], rule option_value_range [OF env(3)])
       (auto dest: parse_duration_range)
  moreover have "0 \<le> co_io_timeout opts \<and> co_io_timeout opts < 2 ^ 63"
    by (rule option_value_range [OF cli(4)], rule option_value_range [OF env(4)])
       (auto dest: parse_duration_range)
  moreover have "co_max_retries opts < 2 ^ 63"
    by (rule option_value_range [OF cli(5)], rule option_value_range [OF env(5)])
       (auto dest: parse_size_range)
  moreover have "0 \<le> co_retry_max opts \<and> co_retry_max opts < 2 ^ 63"
    by (rule option_value_range [OF cli(7)], rule option_value_range [OF env(7)])
       (auto dest: parse_duration_range)
  ultimately show ?thesis
    using val by (auto simp: options_in_range_def validate_def split: if_splits)
qed

section \<open>The command line parser\<close>

definition cli_argument :: "string \<times> string \<Rightarrow> string" where
  "cli_argument kv = ''--'' @ fst kv @ ''='' @ snd kv"

lemma parse_cli_arguments:
  "list_all (\<lambda>(k, v). CHR ''='' \<notin> set k) kvs \<Longrightarrow>
     parse_cli (map cli_argument kvs) m = m ++ map_of (rev kvs)"
proof (induction kvs arbitrary: m)
  case (Cons kv kvs)
  obtain k v where kv: "kv = (k, v)" by (cases kv)
  have "m(k \<mapsto> v) ++ map_of (rev kvs) = m ++ map_of (rev (kv # kvs))"
    by (rule ext) (simp add: kv map_add_def split: option.split)
  then show ?case
    using Cons by (simp add: kv cli_argument_def)
qed simp

lemma parse_cli_flag:
  assumes "CHR ''='' \<notin> set flag"
  shows "parse_cli ((''--'' @ flag) # value # rest) m = parse_cli rest (m(flag \<mapsto> value))"
  using break_at_none [OF assms] by simp

text \<open>A switch without a value takes the next argument as its value, an option too: the switch before
  \<open>--port\<close> makes the program refuse its command line, whatever the port is.\<close>

theorem switch_swallows_option:
  assumes "take 2 port \<noteq> ''--''"
  shows "load_common_options fo Map.empty [''--tcp-no-delay'', ''--port'', port] =
    Inl (InvalidArgument ''Invalid boolean value: --port'')"
proof -
  have cli: "parse_cli [''--tcp-no-delay'', ''--port'', port] Map.empty = [''tcp-no-delay'' \<mapsto> ''--port'']"
    using parse_cli_flag [of "''tcp-no-delay''" "''--port''" "[port]" Map.empty] assms by simp
  have env: "apply_env fo Map.empty opts = Inr opts" for opts
    by (simp add: apply_env_def apply_option_def relay_getenv_def get_env_def)
  have bool: "to_bool ''--port'' = Inl (InvalidArgument ''Invalid boolean value: --port'')"
    by (simp add: to_bool_def to_lower_def tolower_def isupper_def)
  show ?thesis
    unfolding load_common_options_def env cli
    by (simp add: apply_cli_def apply_option_def bool)
qed

section \<open>Concrete options\<close>

definition sample_factor :: "nat factor_ops" where
  "sample_factor = \<lparr> fo_stod = stoul, fo_two = 2, fo_below_one = (\<lambda>d. d < 1) \<rparr>"

lemma sample_load:
  "load_common_options sample_factor [''SV_HOST'' \<mapsto> ''h''] [] =
     Inr ((default_options sample_factor)\<lparr>co_host := ''h''\<rparr>)"
  by (simp add: load_common_options_def apply_env_def apply_cli_def apply_option_def relay_getenv_def get_env_def
      c_str_def validate_def default_options_def sample_factor_def)

theorem options_precedence_witness:
  "effective Inr (parse_cli [] Map.empty ''host'') (relay_getenv [''SV_HOST'' \<mapsto> ''h''] ''SV_HOST'') ''127.0.0.1'' =
     Inr ''h''"
  using options_precedence [OF sample_load] by (simp add: Let_def default_options_def)

theorem loaded_options_in_range_witness:
  "options_in_range sample_factor ((default_options sample_factor)\<lparr>co_host := ''h''\<rparr>)"
  by (rule loaded_options_in_range [OF sample_load])

theorem switch_swallows_option_witness:
  "load_common_options sample_factor Map.empty [''--tcp-no-delay'', ''--port'', ''6000''] =
    Inl (InvalidArgument ''Invalid boolean value: --port'')"
  by (rule switch_swallows_option) simp

end
