(* ===== verification/Connect_Retry.thy ===== *)
theory Connect_Retry
  imports SV_Prelude
begin

text \<open>
  \<open>connect_with_retry\<close> of \<^verbatim>\<open>FileRelay_.server/common/socket_utils.hpp\<close>: the attempts to connect with their
  growing delays, and one attempt with its timeout and its socket option. The calls of the networking library and the product and
  the minimum of floating point numbers are the parameter \<open>connector\<close>. The waits are recorded.
\<close>

record 'd retry_options =
  ro_max_attempts :: nat
  ro_initial_delay :: int
  ro_max_delay :: int
  ro_multiplier :: 'd
  ro_no_delay :: bool

record 'd connect_options = "'d retry_options" +
  co_connect_timeout :: int

text \<open>The handlers that are called while the context of an attempt runs: the timer's (has it expired or was it cancelled?) and the
  connect's.\<close>

datatype attempt_event = TimerExpired | TimerCancelled | Connected "string option"

text \<open>\<open>cn_connect\<close> is the connect without a time limit, \<open>cn_run\<close> a connect with a timer; errors are the messages of the
  \<open>system_error\<close>.\<close>

record ('s, 'd, 'w) connector =
  cn_below_one :: "'d \<Rightarrow> bool"
  cn_next_delay :: "int \<Rightarrow> 'd \<Rightarrow> int \<Rightarrow> int" \<comment> \<open>the smaller of delay times factor and the limit, truncated\<close>
  cn_resolve :: "string \<Rightarrow> u16 \<Rightarrow> 'w \<Rightarrow> string list res \<times> 'w"
  cn_connect :: "string list \<Rightarrow> 'w \<Rightarrow> (string + 's) \<times> 'w"
  cn_run :: "string list \<Rightarrow> int \<Rightarrow> 'w \<Rightarrow> attempt_event list \<times> 's \<times> 'w"
  cn_set_no_delay :: "'s \<Rightarrow> 'w \<Rightarrow> string option \<times> 'w"

section \<open>One attempt\<close>

text \<open>The two handlers on the error and the flag \<open>completed\<close>.\<close>

fun attempt_event_step :: "attempt_event \<Rightarrow> string option \<times> bool \<Rightarrow> string option \<times> bool" where
  "attempt_event_step TimerExpired (ec, completed) = (if \<not> completed then (Some ''timed_out'', completed) else (ec, completed))"
| "attempt_event_step TimerCancelled (ec, completed) = (ec, completed)"
| "attempt_event_step (Connected connect_ec) (ec, completed) = (connect_ec, True)"

definition connect_with_timeout ::
  "('s, 'd, 'w) connector \<Rightarrow> string list \<Rightarrow> int \<Rightarrow> 'w \<Rightarrow> (string + 's) \<times> 'w" where
  "connect_with_timeout cn endpoints timeout w =
     (if timeout \<le> 0 then cn_connect cn endpoints w
      else let (events, socket, w) = cn_run cn endpoints timeout w
           in case fst (fold attempt_event_step events (None, False)) of
                Some e \<Rightarrow> (Inl e, w)
              | None \<Rightarrow> (Inr socket, w))"

definition apply_tcp_no_delay :: "('s, 'd, 'w) connector \<Rightarrow> bool \<Rightarrow> 's \<Rightarrow> 'w \<Rightarrow> string option \<times> 'w" where
  "apply_tcp_no_delay cn enable socket w = (if enable then cn_set_no_delay cn socket w else (None, w))"

definition connect_attempt ::
  "('s, 'd, 'w) connector \<Rightarrow> 'd connect_options \<Rightarrow> string list \<Rightarrow> 'w \<Rightarrow> (string + 's) \<times> 'w" where
  "connect_attempt cn ro endpoints w =
     (case connect_with_timeout cn endpoints (co_connect_timeout ro) w of
        (Inl e, w) \<Rightarrow> (Inl e, w)
      | (Inr socket, w) \<Rightarrow>
          (case apply_tcp_no_delay cn (ro_no_delay ro) socket w of
             (Some e, w) \<Rightarrow> (Inl e, w)
           | (None, w) \<Rightarrow> (Inr socket, w)))"

section \<open>The attempts\<close>

definition sleep_with_bounds :: "int \<Rightarrow> int list" where
  "sleep_with_bounds delay = (if delay > 0 then [delay] else [])"

function connect_loop ::
  "('s, 'd, 'w) connector \<Rightarrow> 'd connect_options \<Rightarrow> string list \<Rightarrow> nat \<Rightarrow> int \<Rightarrow> 'w \<Rightarrow> 's res \<times> int list \<times> 'w" where
  "connect_loop cn ro endpoints attempt delay w =
     (if attempt \<ge> ro_max_attempts ro then (Inl (RuntimeError ''Failed to connect after retries''), [], w)
      else case connect_attempt cn ro endpoints w of
             (Inr socket, w) \<Rightarrow> (Inr socket, [], w)
           | (Inl e, w) \<Rightarrow>
               if attempt + 1 \<ge> ro_max_attempts ro then (Inl (SystemError e), [], w)
               else let (r, waits, w) = connect_loop cn ro endpoints (attempt + 1)
                          (cn_next_delay cn delay (ro_multiplier ro) (ro_max_delay ro)) w
                    in (r, sleep_with_bounds delay @ waits, w))"
  by pat_completeness auto

termination
  by (relation "measure (\<lambda>(cn, ro, endpoints, attempt, delay, w). ro_max_attempts ro - attempt)") auto

declare connect_loop.simps [simp del]

definition connect_with_retry ::
  "('s, 'd, 'w) connector \<Rightarrow> 'd connect_options \<Rightarrow> string \<Rightarrow> u16 \<Rightarrow> 'w \<Rightarrow> 's res \<times> int list \<times> 'w" where
  "connect_with_retry cn ro host port w =
     (if ro_max_attempts ro = 0 then (Inl (InvalidArgument ''retry.max_attempts must be at least 1''), [], w)
      else if cn_below_one cn (ro_multiplier ro)
      then (Inl (InvalidArgument ''retry.backoff_multiplier must be >= 1.0''), [], w)
      else case cn_resolve cn host port w of
             (Inl ex, w) \<Rightarrow> (Inl ex, [], w)
           | (Inr endpoints, w) \<Rightarrow> connect_loop cn ro endpoints 0 (ro_initial_delay ro) w)"

section \<open>The results of the attempts\<close>

text \<open>The results of the first \<open>n\<close> attempts, and the delays before the second, third and later attempts.\<close>

fun attempts :: "('s, 'd, 'w) connector \<Rightarrow> 'd connect_options \<Rightarrow> string list \<Rightarrow> nat \<Rightarrow> 'w \<Rightarrow> (string + 's) list \<times> 'w" where
  "attempts cn ro es 0 w = ([], w)"
| "attempts cn ro es (Suc n) w =
     (let (r, w) = connect_attempt cn ro es w; (rs, w) = attempts cn ro es n w in (r # rs, w))"

fun delays :: "('s, 'd, 'w) connector \<Rightarrow> 'd connect_options \<Rightarrow> int \<Rightarrow> nat \<Rightarrow> int list" where
  "delays cn ro delay 0 = []"
| "delays cn ro delay (Suc n) = delay # delays cn ro (cn_next_delay cn delay (ro_multiplier ro) (ro_max_delay ro)) n"

definition failed :: "string + 's \<Rightarrow> bool" where
  "failed r = (case r of Inl _ \<Rightarrow> True | Inr _ \<Rightarrow> False)"

lemma connect_loop_attempts:
  assumes "attempt < ro_max_attempts ro"
  shows "\<exists>k rs final w'. k < ro_max_attempts ro - attempt \<and>
    attempts cn ro es (Suc k) w = (rs @ [final], w') \<and> list_all failed rs \<and> length rs = k \<and>
    (failed final \<longrightarrow> k + 1 = ro_max_attempts ro - attempt) \<and>
    connect_loop cn ro es attempt delay w =
      (case final of Inl e \<Rightarrow> Inl (SystemError e) | Inr s \<Rightarrow> Inr s,
       concat (map sleep_with_bounds (delays cn ro delay k)), w')"
  using assms
proof (induction "ro_max_attempts ro - attempt" arbitrary: attempt delay w)
  case (Suc n)
  obtain r w1 where r: "connect_attempt cn ro es w = (r, w1)" by fastforce
  show ?case
  proof (cases "failed r \<and> attempt + 1 < ro_max_attempts ro")
    case False
    then show ?thesis
      using Suc.prems r
      by (intro exI [of _ 0] exI [of _ "[]"] exI [of _ r] exI [of _ w1])
        (auto simp: connect_loop.simps [of cn ro es attempt] failed_def split: sum.splits)
  next
    case True
    then obtain e where e: "r = Inl e" by (auto simp: failed_def split: sum.splits)
    let ?delay = "cn_next_delay cn delay (ro_multiplier ro) (ro_max_delay ro)"
    have "n = ro_max_attempts ro - (attempt + 1)" "attempt + 1 < ro_max_attempts ro"
      using Suc.hyps(2) True by auto
    from Suc.hyps(1) [OF this, of w1 ?delay] obtain k rs final w' where
      k: "k < ro_max_attempts ro - (attempt + 1)"
        "attempts cn ro es (Suc k) w1 = (rs @ [final], w')" "list_all failed rs" "length rs = k"
        "failed final \<longrightarrow> k + 1 = ro_max_attempts ro - (attempt + 1)"
        "connect_loop cn ro es (attempt + 1) ?delay w1 =
          (case final of Inl e \<Rightarrow> Inl (SystemError e) | Inr s \<Rightarrow> Inr s,
           concat (map sleep_with_bounds (delays cn ro ?delay k)), w')"
      by blast
    have "attempts cn ro es (Suc (Suc k)) w = ((r # rs) @ [final], w')"
      using r k(2) by (simp only: attempts.simps(2) [of _ _ _ "Suc k"] prod.case Let_def) simp
    moreover have "connect_loop cn ro es attempt delay w =
        (case final of Inl e \<Rightarrow> Inl (SystemError e) | Inr s \<Rightarrow> Inr s,
         concat (map sleep_with_bounds (delays cn ro delay (Suc k))), w')"
      using r e k(6) True by (simp add: connect_loop.simps [of cn ro es attempt])
    ultimately show ?thesis
      using k True e by (intro exI [of _ "Suc k"] exI [of _ "r # rs"] exI [of _ final] exI [of _ w']) (auto simp: failed_def)
  qed
qed simp


lemma delays_bounded:
  assumes "\<And>d x. cn_next_delay cn d x (ro_max_delay ro) \<le> ro_max_delay ro"
  shows "x \<in> set (delays cn ro delay n) \<Longrightarrow> x = delay \<or> x \<le> ro_max_delay ro"
proof (induction n arbitrary: delay)
  case (Suc n)
  then show ?case
    using assms by fastforce
qed simp

text \<open>Connecting ends after at most \<open>max_attempts\<close> attempts. It stops at the first that succeeds, and gives the error
  of the last one only when all of them have failed. Between two attempts it waits at most once, for the
  initial delay first and never longer than that or the largest delay.\<close>

theorem connect_tries_then_gives_up:
  assumes "0 < ro_max_attempts ro" and "\<not> cn_below_one cn (ro_multiplier ro)"
    and "cn_resolve cn host port w = (Inr es, w1)"
    and "\<And>d x. cn_next_delay cn d x (ro_max_delay ro) \<le> ro_max_delay ro"
  shows "\<exists>rs final waits w'. attempts cn ro es (length rs + 1) w1 = (rs @ [final], w') \<and>
    length rs < ro_max_attempts ro \<and> list_all failed rs \<and>
    (failed final \<longrightarrow> length rs + 1 = ro_max_attempts ro) \<and>
    length waits \<le> length rs \<and> (\<forall>d \<in> set waits. 0 < d \<and> d \<le> max (ro_initial_delay ro) (ro_max_delay ro)) \<and>
    connect_with_retry cn ro host port w =
      (case final of Inl e \<Rightarrow> Inl (SystemError e) | Inr s \<Rightarrow> Inr s, waits, w')"
proof -
  obtain k rs final w' where k: "k < ro_max_attempts ro"
    "attempts cn ro es (Suc k) w1 = (rs @ [final], w')" "list_all failed rs" "length rs = k"
    "failed final \<longrightarrow> k + 1 = ro_max_attempts ro"
    "connect_loop cn ro es 0 (ro_initial_delay ro) w1 =
      (case final of Inl e \<Rightarrow> Inl (SystemError e) | Inr s \<Rightarrow> Inr s,
       concat (map sleep_with_bounds (delays cn ro (ro_initial_delay ro) k)), w')"
    using connect_loop_attempts [of 0 ro cn es w1 "ro_initial_delay ro"] assms(1) by auto
  let ?waits = "concat (map sleep_with_bounds (delays cn ro (ro_initial_delay ro) k))"
  have "\<forall>d \<in> set ?waits. 0 < d \<and> d \<le> max (ro_initial_delay ro) (ro_max_delay ro)"
    using delays_bounded [OF assms(4)] by (fastforce simp: sleep_with_bounds_def)
  moreover have "length (concat (map sleep_with_bounds (delays cn ro d n))) \<le> n" for d n
    by (induction n arbitrary: d) (auto simp: sleep_with_bounds_def le_SucI)
  then have "length ?waits \<le> k" .
  moreover have "connect_with_retry cn ro host port w =
      (case final of Inl e \<Rightarrow> Inl (SystemError e) | Inr s \<Rightarrow> Inr s, ?waits, w')"
    using assms(1-3) k(6) by (simp add: connect_with_retry_def)
  ultimately show ?thesis
    using k(1-5) by (intro exI [of _ rs] exI [of _ final] exI [of _ ?waits] exI [of _ w']) auto
qed

text \<open>A peer that refuses the first two attempts; the world counts the attempts.\<close>

definition sample_connector :: "(string, nat, nat) connector" where
  "sample_connector = \<lparr> cn_below_one = (\<lambda>f. f < 1), cn_next_delay = (\<lambda>d f m. min (d * int f) m),
     cn_resolve = (\<lambda>h p w. (Inr [h], w)), cn_connect = (\<lambda>es n. (Inr ''socket'', n + 1)),
     cn_run = (\<lambda>es t n. (if n < 2 then [Connected (Some ''refused''), TimerCancelled] else [Connected None, TimerCancelled], ''socket'', n + 1)),
     cn_set_no_delay = (\<lambda>s n. (None, n)) \<rparr>"

definition sample_retry :: "nat connect_options" where
  "sample_retry = \<lparr> ro_max_attempts = 3, ro_initial_delay = 200, ro_max_delay = 300, ro_multiplier = 2, ro_no_delay = True,
     co_connect_timeout = 5000 \<rparr>"

lemma sample_attempt: "connect_attempt sample_connector sample_retry es n = (if n < 2 then Inl ''refused'' else Inr ''socket'', n + 1)"
  by (simp add: connect_attempt_def connect_with_timeout_def apply_tcp_no_delay_def sample_connector_def sample_retry_def)

lemma sample_connector_fields [simp]:
  "cn_below_one sample_connector x = (x < 1)" "cn_resolve sample_connector h p w = (Inr [h], w)"
  "cn_next_delay sample_connector d x m = min (d * int x) m" "ro_max_attempts sample_retry = 3"
  "ro_initial_delay sample_retry = 200" "ro_max_delay sample_retry = 300" "ro_multiplier sample_retry = 2"
  by (simp_all add: sample_connector_def sample_retry_def)

lemma sample_connect: "connect_with_retry sample_connector sample_retry ''h'' 5000 0 = (Inr ''socket'', [200, 300], 3)"
  by (simp add: connect_with_retry_def connect_loop.simps sample_attempt sleep_with_bounds_def)

theorem connect_tries_then_gives_up_witness:
  "\<exists>rs final waits w'. attempts sample_connector sample_retry [''h''] (length rs + 1) 0 = (rs @ [final], w') \<and> list_all failed rs \<and>
     connect_with_retry sample_connector sample_retry ''h'' 5000 0 =
       (case final of Inl e \<Rightarrow> Inl (SystemError e) | Inr s \<Rightarrow> Inr s, waits, w')"
proof -
  have opts: "0 < ro_max_attempts sample_retry" "\<not> cn_below_one sample_connector (ro_multiplier sample_retry)"
    "cn_resolve sample_connector ''h'' 5000 0 = (Inr [''h''], 0)"
    by simp_all
  have "cn_next_delay sample_connector d x (ro_max_delay sample_retry) \<le> ro_max_delay sample_retry" for d x
    by simp
  from connect_tries_then_gives_up [OF opts this] show ?thesis
    by blast
qed

text \<open>The time limit of an attempt never shows in its result: as the handler of the connect is called exactly once, in whatever order
  with the timer's, the result is the connect's. When the timer expires first, the error \<open>timed_out\<close> it stores is
  overwritten by the one of the cancelled connect, or by its success.\<close>

theorem timeout_never_reported:
  assumes "0 < timeout" and "cn_run cn es timeout w = (events, socket, w')"
    and "filter (\<lambda>ev. ev \<notin> {TimerExpired, TimerCancelled}) events = [Connected ec]"
  shows "connect_with_timeout cn es timeout w = (case ec of Some e \<Rightarrow> Inl e | None \<Rightarrow> Inr socket, w')"
proof -
  have before: "filter (\<lambda>ev. ev \<notin> {TimerExpired, TimerCancelled}) evs = [Connected ec] \<Longrightarrow>
      fold attempt_event_step evs (e, False) = (ec, True)" for evs e
  proof (induction evs arbitrary: e)
    case (Cons ev evs)
    have after: "filter (\<lambda>ev. ev \<notin> {TimerExpired, TimerCancelled}) evs = [] \<Longrightarrow> fold attempt_event_step evs (ec, True) = (ec, True)"
    proof (induction evs)
      case (Cons ev evs)
      then show ?case by (cases ev) auto
    qed simp
    then show ?case
      using Cons by (cases ev) auto
  qed simp
  show ?thesis
    using assms before by (simp add: connect_with_timeout_def split: option.split)
qed

theorem timeout_never_reported_witness:
  "connect_with_timeout (sample_connector\<lparr>cn_run := \<lambda>es t n. ([TimerExpired, Connected (Some ''operation_aborted'')], ''socket'', n)\<rparr>)
     [] 5000 0 = (Inl ''operation_aborted'', 0)"
  using timeout_never_reported [of 5000 "sample_connector\<lparr>cn_run := \<lambda>es t n. ([TimerExpired, Connected (Some ''operation_aborted'')], ''socket'', n)\<rparr>"
      "[]" 0 "[TimerExpired, Connected (Some ''operation_aborted'')]" "''socket''" 0 "Some ''operation_aborted''"] by simp

end
