(* ===== verification/Http_Provider.thy ===== *)
theory Http_Provider
  imports Environment
begin

text \<open>
  The HTTP client of the provider gateway, \<^verbatim>\<open>SuperAPI._server/src/providers/HttpProviderBase.cpp\<close>
  and \<^verbatim>\<open>IProvider.hpp\<close>: guards, headers and URL of a request, the retry loop with its backoff, the
  circuit breaker, and the accounting of tokens. The JSON library, the HTTP session, the
  floating point numbers, the clock and the random source are the record \<open>platform\<close> the
  definitions take as an argument; the time is in nanoseconds of the steady clock. One call of
  \<open>performHttpRequest\<close> is a function on the state of the provider, which keeps a trace of the requests
  sent and the waits; \<open>breaker_step\<close> interleaves the critical sections of concurrent calls.
\<close>

section \<open>Data\<close>

datatype provider_operation =
  Chat | Embeddings | Images | Asr | Tts | Video | ListModels | Batches | JobStatus

datatype auth_strategy = BearerAuthorization | XApiKey | XGoogApiKey | NoAuth

record provider_config =
  pc_name :: string
  pc_base_url :: string
  pc_api_key_env :: string
  pc_organization_env :: string
  pc_default_headers :: "(string \<times> string) list"
  pc_max_retries :: nat
  pc_base_backoff :: int \<comment> \<open>milliseconds\<close>
  pc_max_backoff :: int
  pc_timeout :: int
  pc_connect_timeout :: int
  pc_dry_run :: bool
  pc_breaker_threshold :: nat
  pc_breaker_cooldown :: int

definition provider_config_default :: provider_config where
  "provider_config_default =
     \<lparr> pc_name = [], pc_base_url = [], pc_api_key_env = [], pc_organization_env = [],
       pc_default_headers = [], pc_max_retries = 3, pc_base_backoff = 200, pc_max_backoff = 2000,
       pc_timeout = 60000, pc_connect_timeout = 5000, pc_dry_run = False,
       pc_breaker_threshold = 3, pc_breaker_cooldown = 10000 \<rparr>"

record request_context =
  rc_request_id :: string
  rc_vendor :: string

record usage =
  us_prompt :: u64
  us_completion :: u64
  us_total :: u64
  us_audio :: u64
  us_cached :: u64
  us_note :: string

definition no_usage :: usage where
  "no_usage = \<lparr> us_prompt = 0, us_completion = 0, us_total = 0, us_audio = 0, us_cached = 0, us_note = [] \<rparr>"

record 'd provider_error =
  pe_type :: string
  pe_message :: string
  pe_provider :: string
  pe_code :: string
  pe_request_id :: string
  pe_retry_after :: 'd

type_synonym headers = "(string \<times> string) list"

record http_request =
  rq_url :: string
  rq_post :: bool
  rq_headers :: headers
  rq_body :: "string option"
  rq_timeout :: int
  rq_connect_timeout :: int

record http_response =
  rs_error :: "string option" \<comment> \<open>the message unless the code is \<open>OK\<close>\<close>
  rs_status :: int
  rs_headers :: headers
  rs_text :: string

text \<open>
  The JSON library: \<open>js_member v k\<close> is \<open>isMember(k)\<close> followed by \<open>v[k]\<close>, an exception when the
  value is neither null nor an object; \<open>js_set\<close> is the assignment \<open>v[k] = x\<close>; \<open>js_as_u64\<close> is
  \<open>asUInt64\<close>; \<open>js_parse\<close> gives the error text or the value; \<open>js_as_bool\<close> and \<open>js_as_string\<close> are
  \<open>None\<close> when \<open>isBool\<close> and \<open>isString\<close> do not hold.
\<close>

record 'j json_lib =
  js_object :: 'j
  js_is_object :: "'j \<Rightarrow> bool"
  js_member :: "'j \<Rightarrow> string \<Rightarrow> 'j option res"
  js_set :: "'j \<Rightarrow> string \<Rightarrow> 'j \<Rightarrow> 'j res"
  js_of_u64 :: "u64 \<Rightarrow> 'j"
  js_of_string :: "string \<Rightarrow> 'j"
  js_of_int :: "int \<Rightarrow> 'j"
  js_as_u64 :: "'j \<Rightarrow> u64 res"
  js_write :: "'j \<Rightarrow> string"
  js_parse :: "string \<Rightarrow> string + 'j"
  js_remove :: "'j \<Rightarrow> string \<Rightarrow> 'j res"
  js_as_bool :: "'j \<Rightarrow> bool option"
  js_as_string :: "'j \<Rightarrow> string option"

record ('j, 'd, 'w) platform =
  pl_json :: "'j json_lib"
  pl_stod :: "string \<Rightarrow> 'd res"
  pl_zero :: 'd
  pl_seconds :: "int \<Rightarrow> 'd" \<comment> \<open>milliseconds as a number of seconds\<close>
  pl_positive :: "'d \<Rightarrow> bool"
  pl_show :: "'d \<Rightarrow> string" \<comment> \<open>\<open>std::to_string\<close>\<close>
  pl_json_double :: "'d \<Rightarrow> 'j"
  pl_header_key :: "string \<Rightarrow> string" \<comment> \<open>what the order of \<open>cpr::Header\<close> compares\<close>
  pl_perform :: "http_request \<Rightarrow> 'w \<Rightarrow> http_response \<times> 'w"
  pl_now :: "'w \<Rightarrow> int"
  pl_sleep :: "int \<Rightarrow> 'w \<Rightarrow> 'w"
  pl_jitter :: "int \<Rightarrow> 'w \<Rightarrow> int \<times> 'w" \<comment> \<open>uniform on \<open>0..bound\<close>\<close>

section \<open>Errors\<close>

definition make_dry_run_error ::
  "('j, 'd, 'w) platform \<Rightarrow> provider_config \<Rightarrow> request_context \<Rightarrow> 'd provider_error" where
  "make_dry_run_error pl cfg ctx =
     \<lparr> pe_type = ''dry_run'', pe_message = ''DRY_RUN is enabled; upstream call skipped.'',
       pe_provider = pc_name cfg, pe_code = ''dry_run'', pe_request_id = rc_request_id ctx,
       pe_retry_after = pl_zero pl \<rparr>"

definition make_auth_error ::
  "('j, 'd, 'w) platform \<Rightarrow> provider_config \<Rightarrow> string \<Rightarrow> string \<Rightarrow> request_context \<Rightarrow> 'd provider_error" where
  "make_auth_error pl cfg code message ctx =
     \<lparr> pe_type = ''auth_error'', pe_message = message, pe_provider = pc_name cfg, pe_code = code,
       pe_request_id = rc_request_id ctx, pe_retry_after = pl_zero pl \<rparr>"

definition make_provider_error ::
  "provider_config \<Rightarrow> string \<Rightarrow> string \<Rightarrow> string \<Rightarrow> 'd \<Rightarrow> 'd provider_error" where
  "make_provider_error cfg code message request_id retry_after =
     \<lparr> pe_type = ''provider_error'', pe_message = message, pe_provider = pc_name cfg,
       pe_code = code, pe_request_id = request_id, pe_retry_after = retry_after \<rparr>"

definition make_circuit_open_error ::
  "('j, 'd, 'w) platform \<Rightarrow> provider_config \<Rightarrow> request_context \<Rightarrow> 'd provider_error" where
  "make_circuit_open_error pl cfg ctx =
     make_provider_error cfg ''circuit_open''
       ''Provider circuit breaker open after repeated failures.''
       (rc_request_id ctx) (pl_seconds pl (pc_breaker_cooldown cfg))"

section \<open>The request\<close>

fun is_post_operation :: "provider_operation \<Rightarrow> bool" where
  "is_post_operation ListModels = False"
| "is_post_operation JobStatus = False"
| "is_post_operation _ = True"

fun resolve_path :: "provider_operation \<Rightarrow> string \<Rightarrow> string" where
  "resolve_path Chat _ = ''chat/completions''"
| "resolve_path Embeddings _ = ''embeddings''"
| "resolve_path Images _ = ''images/generations''"
| "resolve_path Asr _ = ''audio/transcriptions''"
| "resolve_path Tts _ = ''audio/speech''"
| "resolve_path Video _ = ''video/generations''"
| "resolve_path ListModels _ = ''models''"
| "resolve_path Batches _ = ''batches''"
| "resolve_path JobStatus resource_id = ''jobs/'' @ resource_id"

definition build_url :: "provider_config \<Rightarrow> provider_operation \<Rightarrow> string \<Rightarrow> string" where
  "build_url cfg operation resource_id =
     (let base = pc_base_url cfg;
          base = (if base \<noteq> [] \<and> last base = CHR ''/'' then butlast base else base);
          path = resolve_path operation resource_id;
          base = (if path \<noteq> [] \<and> hd path \<noteq> CHR ''/'' then base @ ''/'' else base)
      in base @ path)"

text \<open>\<open>header[k] = v\<close> and \<open>header.find(k)\<close>; an assignment keeps the spelling of the first key.\<close>

fun header_set :: "('j, 'd, 'w) platform \<Rightarrow> string \<Rightarrow> string \<Rightarrow> headers \<Rightarrow> headers" where
  "header_set pl k v [] = [(k, v)]"
| "header_set pl k v ((k', v') # h) =
     (if pl_header_key pl k = pl_header_key pl k' then (k', v) # h
      else (k', v') # header_set pl k v h)"

fun header_get :: "('j, 'd, 'w) platform \<Rightarrow> headers \<Rightarrow> string \<Rightarrow> string option" where
  "header_get pl [] k = None"
| "header_get pl ((k', v) # h) k =
     (if pl_header_key pl k = pl_header_key pl k' then Some v else header_get pl h k)"

definition build_headers ::
  "('j, 'd, 'w) platform \<Rightarrow> environ \<Rightarrow> provider_config \<Rightarrow> auth_strategy \<Rightarrow> string \<Rightarrow> request_context \<Rightarrow> headers" where
  "build_headers pl env cfg auth api_key ctx =
     (let h = header_set pl ''Content-Type'' ''application/json'' [];
          h = header_set pl ''Accept'' ''application/json'' h;
          h = header_set pl ''User-Agent'' ''superapi_server/0.1.0'' h;
          h = (if rc_request_id ctx \<noteq> [] then header_set pl ''X-Request-ID'' (rc_request_id ctx) h else h);
          h = fold (\<lambda>(k, v). header_set pl k v) (pc_default_headers cfg) h;
          h = (case auth of
                 BearerAuthorization \<Rightarrow> header_set pl ''Authorization'' (''Bearer '' @ api_key) h
               | XApiKey \<Rightarrow> header_set pl ''x-api-key'' api_key h
               | XGoogApiKey \<Rightarrow> header_set pl ''x-goog-api-key'' api_key h
               | NoAuth \<Rightarrow> h)
      in if pc_organization_env cfg \<noteq> [] then
           (case get_env env (pc_organization_env cfg) of
              Some org \<Rightarrow> if org \<noteq> [] then header_set pl ''OpenAI-Organization'' org h else h
            | None \<Rightarrow> h)
         else h)"

definition augment_headers :: "headers \<Rightarrow> headers" where
  "augment_headers h = h"

text \<open>\<open>static_cast<int>\<close> of a 64 bit count.\<close>

definition to_int32 :: "int \<Rightarrow> int" where
  "to_int32 i = signed_take_bit 31 i"

definition make_request ::
  "('j, 'd, 'w) platform \<Rightarrow> environ \<Rightarrow> provider_config \<Rightarrow> auth_strategy \<Rightarrow> string \<Rightarrow> request_context \<Rightarrow>
   provider_operation \<Rightarrow> string \<Rightarrow> string \<Rightarrow> http_request" where
  "make_request pl env cfg auth api_key ctx operation resource_id body =
     \<lparr> rq_url = build_url cfg operation resource_id,
       rq_post = is_post_operation operation,
       rq_headers = augment_headers (build_headers pl env cfg auth api_key ctx),
       rq_body = (if is_post_operation operation then Some body else None),
       rq_timeout = to_int32 (pc_timeout cfg),
       rq_connect_timeout = to_int32 (pc_connect_timeout cfg) \<rparr>"

section \<open>The response\<close>

definition extract_request_id :: "('j, 'd, 'w) platform \<Rightarrow> http_response \<Rightarrow> string" where
  "extract_request_id pl resp =
     (case List.map_filter (header_get pl (rs_headers resp)) [''x-request-id'', ''x-requestid'', ''request-id''] of
        v # _ \<Rightarrow> v
      | [] \<Rightarrow> (case find (\<lambda>(k, _). to_lower k = ''x-request-id'') (rs_headers resp) of
                  Some (_, v) \<Rightarrow> v
                | None \<Rightarrow> []))"

fun first_number :: "('j, 'd, 'w) platform \<Rightarrow> string list \<Rightarrow> 'd" where
  "first_number pl [] = pl_zero pl"
| "first_number pl (s # ss) = (case pl_stod pl s of Inr d \<Rightarrow> d | Inl _ \<Rightarrow> first_number pl ss)"

definition parse_retry_after :: "('j, 'd, 'w) platform \<Rightarrow> http_response \<Rightarrow> 'd" where
  "parse_retry_after pl resp =
     first_number pl
       ((case header_get pl (rs_headers resp) ''Retry-After'' of Some v \<Rightarrow> [v] | None \<Rightarrow> []) @
        map snd (filter (\<lambda>(k, _). to_lower k = ''retry-after'') (rs_headers resp)))"

definition token_count :: "'j json_lib \<Rightarrow> 'j \<Rightarrow> string \<Rightarrow> u64 option res" where
  "token_count js raw name =
     bindE (js_member js raw name) (\<lambda>m. case m of
         None \<Rightarrow> Inr None
       | Some v \<Rightarrow> bindE (js_as_u64 js v) (\<lambda>n. Inr (Some n)))"

definition count_or :: "u64 \<Rightarrow> u64 option \<Rightarrow> u64" where
  "count_or d n = (case n of Some v \<Rightarrow> v | None \<Rightarrow> d)"

definition missing_usage :: usage where
  "missing_usage = no_usage\<lparr>us_note := ''provider_did_not_return_usage''\<rparr>"

definition extract_usage :: "'j json_lib \<Rightarrow> 'j \<Rightarrow> usage res" where
  "extract_usage js payload =
     (if \<not> js_is_object js payload then Inr missing_usage
      else bindE (js_member js payload ''usage'') (\<lambda>m. case m of
          None \<Rightarrow> Inr missing_usage
        | Some raw \<Rightarrow>
            bindE (token_count js raw ''prompt_tokens'') (\<lambda>p.
            bindE (token_count js raw ''completion_tokens'') (\<lambda>c.
            bindE (token_count js raw ''total_tokens'') (\<lambda>t.
            bindE (token_count js raw ''audio_tokens'') (\<lambda>a.
            bindE (token_count js raw ''cached_tokens'') (\<lambda>d.
              Inr \<lparr> us_prompt = count_or 0 p, us_completion = count_or 0 c,
                    us_total = count_or (count_or 0 p + count_or 0 c) t,
                    us_audio = count_or 0 a, us_cached = count_or 0 d, us_note = [] \<rparr>)))))))"

record 'j json_result =
  jr_payload :: 'j
  jr_usage :: usage
  jr_request_id :: string

datatype ('j, 'd) verdict =
    Success "'j json_result"
  | Denied "'d provider_error"
  | Failure "'d provider_error"

definition response_request_id :: "('j, 'd, 'w) platform \<Rightarrow> request_context \<Rightarrow> http_response \<Rightarrow> string" where
  "response_request_id pl ctx resp =
     (if extract_request_id pl resp = [] then rc_request_id ctx else extract_request_id pl resp)"

definition or_else :: "string \<Rightarrow> string \<Rightarrow> string" where
  "or_else s d = (if s = [] then d else s)"

text \<open>The branches of the loop body on one response.\<close>

definition classify ::
  "('j, 'd, 'w) platform \<Rightarrow> provider_config \<Rightarrow> request_context \<Rightarrow> http_response \<Rightarrow> ('j, 'd) verdict res" where
  "classify pl cfg ctx resp =
     (let rid = response_request_id pl ctx resp; retry_after = parse_retry_after pl resp
      in case rs_error resp of
           Some message \<Rightarrow> Inr (Failure (make_provider_error cfg ''network_error'' message rid retry_after))
         | None \<Rightarrow>
             if rs_status resp = 401 \<or> rs_status resp = 403 then
               Inr (Denied ((make_auth_error pl cfg (show_int (rs_status resp))
                 (or_else (rs_text resp) ''Authentication with upstream provider failed.'') ctx)
                   \<lparr>pe_request_id := rid\<rparr>))
             else if 200 \<le> rs_status resp \<and> rs_status resp < 300 then
               (case js_parse (pl_json pl) (rs_text resp) of
                  Inl errs \<Rightarrow> Inr (Failure (make_provider_error cfg ''invalid_json''
                    (or_else errs ''Provider returned invalid JSON payload.'') rid retry_after))
                | Inr payload \<Rightarrow>
                    bindE (extract_usage (pl_json pl) payload) (\<lambda>u.
                      Inr (Success \<lparr> jr_payload = payload, jr_usage = u,
                                     jr_request_id = extract_request_id pl resp \<rparr>)))
             else
               Inr (Failure (make_provider_error cfg (show_int (rs_status resp))
                 (or_else (rs_text resp) ''Provider returned an error response.'') rid retry_after)))"

definition should_retry :: "http_response \<Rightarrow> bool" where
  "should_retry resp \<longleftrightarrow>
     rs_error resp \<noteq> None \<or> rs_status resp = 429 \<or> (500 \<le> rs_status resp \<and> rs_status resp < 600)"

section \<open>The circuit breaker\<close>

text \<open>\<open>br_open_until = 0\<close> is the default time point: not open.\<close>

record breaker =
  br_failures :: nat
  br_open_until :: int

definition breaker_closed :: breaker where
  "breaker_closed = \<lparr> br_failures = 0, br_open_until = 0 \<rparr>"

definition breaker_admit :: "int \<Rightarrow> breaker \<Rightarrow> breaker option" where
  "breaker_admit now b =
     (if br_open_until b \<noteq> 0 \<and> now < br_open_until b then None
      else if br_open_until b \<noteq> 0 \<and> now \<ge> br_open_until b
        then Some (b\<lparr>br_open_until := 0, br_failures := 0\<rparr>)
      else Some b)"

definition breaker_fail :: "provider_config \<Rightarrow> int \<Rightarrow> breaker \<Rightarrow> breaker" where
  "breaker_fail cfg now b =
     (let b = b\<lparr>br_failures := br_failures b + 1\<rparr>
      in if br_failures b \<ge> pc_breaker_threshold cfg
         then b\<lparr>br_open_until := now + pc_breaker_cooldown cfg * 1000000\<rparr> else b)"

definition breaker_succeed :: "breaker \<Rightarrow> breaker" where
  "breaker_succeed b = b\<lparr>br_failures := 0, br_open_until := 0\<rparr>"

section \<open>The backoff\<close>

text \<open>
  \<open>base * (1LL << attempt)\<close> is undefined from 64 on and when the product leaves 64 bits; the
  distribution is undefined for a negative bound.
\<close>

definition compute_backoff ::
  "('j, 'd, 'w) platform \<Rightarrow> int \<Rightarrow> int \<Rightarrow> nat \<Rightarrow> 'w \<Rightarrow> (int \<times> 'w) res" where
  "compute_backoff pl base max_delay attempt w =
     (if attempt \<ge> 64 then Inl (UB ''shift'')
      else let product = base * signed_take_bit 63 (2 ^ attempt)
      in if product < - (2 ^ 63) \<or> product \<ge> 2 ^ 63 then Inl (UB ''overflow'')
      else let capped = min max_delay product; bound = to_int32 base
      in if bound < 0 then Inl (UB ''uniform_int_distribution'')
      else let (jitter, w') = pl_jitter pl bound w; delay = capped + jitter
      in if delay \<ge> 2 ^ 63 then Inl (UB ''overflow'')
      else Inr (if delay > max_delay then max_delay else delay, w'))"

section \<open>One upstream operation\<close>

datatype effect = Sent http_request http_response | Slept int

record 'w provider_state =
  ps_breaker :: breaker
  ps_world :: 'w
  ps_log :: "effect list"

record provider =
  pv_config :: provider_config
  pv_auth :: auth_strategy

type_synonym ('d, 'a) outcome = "('d provider_error + 'a) res"

definition note_failure ::
  "('j, 'd, 'w) platform \<Rightarrow> provider_config \<Rightarrow> 'w provider_state \<Rightarrow> 'w provider_state" where
  "note_failure pl cfg st =
     st\<lparr>ps_breaker := breaker_fail cfg (pl_now pl (ps_world st)) (ps_breaker st)\<rparr>"

function request_loop ::
  "('j, 'd, 'w) platform \<Rightarrow> provider_config \<Rightarrow> request_context \<Rightarrow> http_request \<Rightarrow> nat \<Rightarrow>
   'd provider_error \<Rightarrow> 'w provider_state \<Rightarrow> ('d, 'j json_result) outcome \<times> 'w provider_state" where
  "request_loop pl cfg ctx rq attempt last_error st =
     (if attempt > pc_max_retries cfg then (Inr (Inl last_error), st)
      else let (resp, w) = pl_perform pl rq (ps_world st);
               st = st\<lparr>ps_world := w, ps_log := ps_log st @ [Sent rq resp]\<rparr>
      in case classify pl cfg ctx resp of
           Inl ex \<Rightarrow> (Inl ex, st)
         | Inr (Success r) \<Rightarrow> (Inr (Inr r), st\<lparr>ps_breaker := breaker_succeed (ps_breaker st)\<rparr>)
         | Inr (Denied err) \<Rightarrow> (Inr (Inl err), note_failure pl cfg st)
         | Inr (Failure err) \<Rightarrow>
             if attempt = pc_max_retries cfg \<or> \<not> should_retry resp
             then (Inr (Inl err), note_failure pl cfg st)
             else (case compute_backoff pl (pc_base_backoff cfg) (pc_max_backoff cfg) attempt w of
                     Inl ex \<Rightarrow> (Inl ex, st)
                   | Inr (delay, w) \<Rightarrow>
                       request_loop pl cfg ctx rq (attempt + 1) err
                         (st\<lparr>ps_world := pl_sleep pl delay w, ps_log := ps_log st @ [Slept delay]\<rparr>)))"
  by pat_completeness auto

termination
  by (relation "measure (\<lambda>(pl, cfg, ctx, rq, attempt, _). pc_max_retries cfg + 1 - attempt)") auto

declare request_loop.simps [simp del]

text \<open>The default-constructed \<open>lastError\<close> the loop starts with.\<close>

definition empty_error :: "('j, 'd, 'w) platform \<Rightarrow> 'd provider_error" where
  "empty_error pl = \<lparr> pe_type = [], pe_message = [], pe_provider = [], pe_code = [],
     pe_request_id = [], pe_retry_after = pl_zero pl \<rparr>"

definition perform_http_request ::
  "('j, 'd, 'w) platform \<Rightarrow> environ \<Rightarrow> provider \<Rightarrow> provider_operation \<Rightarrow> 'j \<Rightarrow> request_context \<Rightarrow> string \<Rightarrow>
   'w provider_state \<Rightarrow> ('d, 'j json_result) outcome \<times> 'w provider_state" where
  "perform_http_request pl env pv operation payload ctx resource_id st =
     (let cfg = pv_config pv
      in if pc_dry_run cfg then (Inr (Inl (make_dry_run_error pl cfg ctx)), st)
      else if pc_base_url cfg = [] then
        (Inr (Inl (make_provider_error cfg ''missing_base_url''
           ''Provider base URL is not configured. Please update providers.yaml.''
           (rc_request_id ctx) (pl_zero pl))), st)
      else if pc_api_key_env cfg = [] then
        (Inr (Inl (make_provider_error cfg ''missing_api_key_env''
           ''Provider API key environment variable is not configured.''
           (rc_request_id ctx) (pl_zero pl))), st)
      else case get_env env (pc_api_key_env cfg) of
          None \<Rightarrow> (Inr (Inl (make_auth_error pl cfg ''missing_api_key''
            ''API key environment variable is empty or undefined.'' ctx)), st)
        | Some api_key \<Rightarrow>
            if api_key = [] then (Inr (Inl (make_auth_error pl cfg ''missing_api_key''
              ''API key environment variable is empty or undefined.'' ctx)), st)
            else (case breaker_admit (pl_now pl (ps_world st)) (ps_breaker st) of
                None \<Rightarrow> (Inr (Inl (make_circuit_open_error pl cfg ctx)), st)
              | Some b \<Rightarrow>
                  request_loop pl cfg ctx
                    (make_request pl env cfg (pv_auth pv) api_key ctx operation resource_id
                       (js_write (pl_json pl) payload))
                    0 (empty_error pl) (st\<lparr>ps_breaker := b\<rparr>)))"

section \<open>The operations of a provider\<close>

definition transform_request :: "provider_operation \<Rightarrow> 'j \<Rightarrow> 'j" where
  "transform_request operation payload = payload"

definition transform_response :: "provider_operation \<Rightarrow> 'j \<Rightarrow> 'j" where
  "transform_response operation payload = payload"

definition has_object :: "'j json_lib \<Rightarrow> 'j \<Rightarrow> string \<Rightarrow> bool res" where
  "has_object js payload key =
     bindE (js_member js payload key) (\<lambda>m. case m of
         None \<Rightarrow> Inr False
       | Some v \<Rightarrow> Inr (js_is_object js v))"

definition usage_json :: "'j json_lib \<Rightarrow> usage \<Rightarrow> 'j res" where
  "usage_json js u =
     bindE (js_set js (js_object js) ''prompt_tokens'' (js_of_u64 js (us_prompt u))) (\<lambda>v.
     bindE (js_set js v ''completion_tokens'' (js_of_u64 js (us_completion u))) (\<lambda>v.
     bindE (js_set js v ''total_tokens'' (js_of_u64 js (us_total u))) (\<lambda>v.
     bindE (js_set js v ''audio_tokens'' (js_of_u64 js (us_audio u))) (\<lambda>v.
            js_set js v ''cached_tokens'' (js_of_u64 js (us_cached u))))))"

definition ensure_usage :: "'j json_lib \<Rightarrow> usage \<Rightarrow> 'j \<Rightarrow> 'j res" where
  "ensure_usage js u payload =
     bindE (has_object js payload ''usage'') (\<lambda>present.
       if present then Inr payload
       else bindE (usage_json js u) (js_set js payload ''usage''))"

definition note_usage :: "'j json_lib \<Rightarrow> usage \<Rightarrow> 'j \<Rightarrow> 'j res" where
  "note_usage js u payload =
     (if us_note u = [] then Inr payload
      else bindE (has_object js payload ''metadata'') (\<lambda>present.
        bindE (if present then Inr payload else js_set js payload ''metadata'' (js_object js)) (\<lambda>payload.
        bindE (js_member js payload ''metadata'') (\<lambda>m.
        bindE (js_set js (case m of Some v \<Rightarrow> v | None \<Rightarrow> js_object js) ''usage_note''
                 (js_of_string js (us_note u)))
          (js_set js payload ''metadata'')))))"

definition finish_json_operation ::
  "'j json_lib \<Rightarrow> provider_operation \<Rightarrow> 'j json_result \<Rightarrow> 'j json_result res" where
  "finish_json_operation js operation r =
     (let payload = transform_response operation (jr_payload r)
      in bindE (extract_usage js payload) (\<lambda>u.
         bindE (ensure_usage js u payload) (\<lambda>payload.
         bindE (note_usage js u payload) (\<lambda>payload.
           Inr (r\<lparr>jr_payload := payload, jr_usage := u\<rparr>)))))"

definition perform_json_operation ::
  "('j, 'd, 'w) platform \<Rightarrow> environ \<Rightarrow> provider \<Rightarrow> provider_operation \<Rightarrow> 'j \<Rightarrow> request_context \<Rightarrow> string \<Rightarrow>
   'w provider_state \<Rightarrow> ('d, 'j json_result) outcome \<times> 'w provider_state" where
  "perform_json_operation pl env pv operation payload ctx resource_id st =
     (case perform_http_request pl env pv operation (transform_request operation payload) ctx resource_id st of
        (Inr (Inr r), st) \<Rightarrow> (bindE (finish_json_operation (pl_json pl) operation r) (\<lambda>r. Inr (Inr r)), st)
      | failed \<Rightarrow> failed)"

text \<open>The responses of the operations: with and without the usage.\<close>

record 'j usage_response =
  ur_payload :: 'j
  ur_usage :: usage
  ur_request_id :: string

record 'j plain_response =
  pr_payload :: 'j
  pr_request_id :: string

definition usage_response_of :: "'j json_result \<Rightarrow> 'j usage_response" where
  "usage_response_of r =
     \<lparr> ur_payload = jr_payload r, ur_usage = jr_usage r, ur_request_id = jr_request_id r \<rparr>"

definition plain_response_of :: "'j json_result \<Rightarrow> 'j plain_response" where
  "plain_response_of r = \<lparr> pr_payload = jr_payload r, pr_request_id = jr_request_id r \<rparr>"

fun map_outcome ::
  "('a \<Rightarrow> 'b) \<Rightarrow> ('d, 'a) outcome \<times> 's \<Rightarrow> ('d, 'b) outcome \<times> 's" where
  "map_outcome f (Inr (Inr x), st) = (Inr (Inr (f x)), st)"
| "map_outcome f (Inr (Inl err), st) = (Inr (Inl err), st)"
| "map_outcome f (Inl ex, st) = (Inl ex, st)"

definition provider_chat where
  "provider_chat pl env pv payload ctx st =
     map_outcome usage_response_of (perform_json_operation pl env pv Chat payload ctx [] st)"

definition provider_embeddings where
  "provider_embeddings pl env pv payload ctx st =
     map_outcome usage_response_of (perform_json_operation pl env pv Embeddings payload ctx [] st)"

definition provider_images where
  "provider_images pl env pv payload ctx st =
     map_outcome plain_response_of (perform_json_operation pl env pv Images payload ctx [] st)"

definition provider_asr where
  "provider_asr pl env pv payload ctx st =
     map_outcome usage_response_of (perform_json_operation pl env pv Asr payload ctx [] st)"

definition provider_tts where
  "provider_tts pl env pv payload ctx st =
     map_outcome usage_response_of (perform_json_operation pl env pv Tts payload ctx [] st)"

definition provider_video where
  "provider_video pl env pv payload ctx st =
     map_outcome usage_response_of (perform_json_operation pl env pv Video payload ctx [] st)"

definition provider_list_models where
  "provider_list_models pl env pv payload ctx st =
     map_outcome plain_response_of (perform_json_operation pl env pv ListModels payload ctx [] st)"

definition provider_batches where
  "provider_batches pl env pv payload ctx st =
     map_outcome plain_response_of (perform_json_operation pl env pv Batches payload ctx [] st)"

definition provider_job_status where
  "provider_job_status pl env pv job_id ctx st =
     map_outcome plain_response_of
       (perform_json_operation pl env pv JobStatus (js_object (pl_json pl)) ctx job_id st)"

section \<open>The retry loop\<close>

fun sent_responses :: "effect list \<Rightarrow> http_response list" where
  "sent_responses [] = []"
| "sent_responses (Sent _ resp # es) = resp # sent_responses es"
| "sent_responses (Slept _ # es) = sent_responses es"

fun waits :: "effect list \<Rightarrow> int list" where
  "waits [] = []"
| "waits (Sent _ _ # es) = waits es"
| "waits (Slept d # es) = d # waits es"

lemma sent_responses_append [simp]: "sent_responses (es @ fs) = sent_responses es @ sent_responses fs"
  by (induction es rule: sent_responses.induct) auto

lemma waits_append [simp]: "waits (es @ fs) = waits es @ waits fs"
  by (induction es rule: waits.induct) auto

fun verdict_outcome :: "('j, 'd) verdict res \<Rightarrow> ('d, 'j json_result) outcome" where
  "verdict_outcome (Inl ex) = Inl ex"
| "verdict_outcome (Inr (Success r)) = Inr (Inr r)"
| "verdict_outcome (Inr (Denied err)) = Inr (Inl err)"
| "verdict_outcome (Inr (Failure err)) = Inr (Inl err)"

definition sane_backoff :: "provider_config \<Rightarrow> bool" where
  "sane_backoff cfg \<longleftrightarrow>
     0 \<le> pc_base_backoff cfg \<and> pc_base_backoff cfg < 2 ^ 31 \<and>
     0 \<le> pc_max_backoff cfg \<and> pc_max_backoff cfg < 2 ^ 62 \<and> pc_max_retries cfg \<le> 32"

definition jitter_in_range :: "('j, 'd, 'w) platform \<Rightarrow> bool" where
  "jitter_in_range pl \<longleftrightarrow>
     (\<forall>b w. 0 \<le> b \<longrightarrow> 0 \<le> fst (pl_jitter pl b w) \<and> fst (pl_jitter pl b w) \<le> b)"

lemma to_int32_id: "- (2 ^ 31) \<le> i \<Longrightarrow> i < 2 ^ 31 \<Longrightarrow> to_int32 i = i"
  unfolding to_int32_def by (rule signed_take_bit_int_eq_self) simp_all

lemma compute_backoff_sane:
  assumes "sane_backoff cfg" and "jitter_in_range pl" and "attempt < pc_max_retries cfg"
  obtains d w' where
    "compute_backoff pl (pc_base_backoff cfg) (pc_max_backoff cfg) attempt w = Inr (d, w')"
    and "0 \<le> d" and "d \<le> pc_max_backoff cfg"
proof -
  let ?base = "pc_base_backoff cfg" and ?max = "pc_max_backoff cfg"
  have b: "0 \<le> ?base" "?base < 2 ^ 31" "0 \<le> ?max" "?max < 2 ^ 62" "attempt < 32"
    using assms by (auto simp: sane_backoff_def)
  have p: "(2 :: int) ^ attempt < 2 ^ 32"
    using b(5) by (rule power_strict_increasing) simp
  have shift: "signed_take_bit 63 (2 ^ attempt :: int) = 2 ^ attempt"
  proof (rule signed_take_bit_int_eq_self)
    show "- (2 ^ 63) \<le> (2 :: int) ^ attempt" by (rule order_trans [of _ 0]) simp_all
    show "(2 :: int) ^ attempt < 2 ^ 63" using p by simp
  qed
  have "?base * 2 ^ attempt \<le> 2 ^ 31 * 2 ^ 32"
    using b p by (intro mult_mono) auto
  moreover have "?base * 2 ^ attempt \<noteq> 2 ^ 31 * 2 ^ 32"
    using b p mult_strict_mono [of ?base "2 ^ 31" "2 ^ attempt" "2 ^ 32 :: int"] by simp
  ultimately have prod: "?base * 2 ^ attempt < 2 ^ 63" "0 \<le> ?base * 2 ^ attempt"
    using b by simp_all
  have low: "\<not> ?base * 2 ^ attempt < - 9223372036854775808" using prod(2) by linarith
  obtain j w' where j: "pl_jitter pl ?base w = (j, w')" by (cases "pl_jitter pl ?base w")
  have jr: "0 \<le> j" "j \<le> ?base"
    using assms(2) b(1) j unfolding jitter_in_range_def by (metis fst_conv)+
  have "to_int32 ?base = ?base"
    using b by (intro to_int32_id) simp_all
  moreover have "min ?max (?base * 2 ^ attempt) + j < 2 ^ 63"
    using b jr by simp
  ultimately have "compute_backoff pl ?base ?max attempt w =
      Inr (if min ?max (?base * 2 ^ attempt) + j > ?max then ?max
           else min ?max (?base * 2 ^ attempt) + j, w')"
    using prod low b(1,5) j by (simp add: compute_backoff_def shift Let_def)
  then show thesis
    using that jr b prod by (smt (verit) min_def)
qed

text \<open>How the breaker takes the verdict on the response that ends the loop.\<close>

fun settle ::
  "('j, 'd, 'w) platform \<Rightarrow> provider_config \<Rightarrow> ('j, 'd) verdict res \<Rightarrow> 'w provider_state \<Rightarrow> 'w provider_state" where
  "settle pl cfg (Inl ex) st = st"
| "settle pl cfg (Inr (Success r)) st = st\<lparr>ps_breaker := breaker_succeed (ps_breaker st)\<rparr>"
| "settle pl cfg (Inr (Denied err)) st = note_failure pl cfg st"
| "settle pl cfg (Inr (Failure err)) st = note_failure pl cfg st"

lemma settle_world_log [simp]:
  "ps_world (settle pl cfg v st) = ps_world st" "ps_log (settle pl cfg v st) = ps_log st"
  by (induction pl cfg v st rule: settle.induct) (simp_all add: note_failure_def)

abbreviation received :: "http_request \<Rightarrow> http_response \<Rightarrow> 'w \<Rightarrow> 'w provider_state \<Rightarrow> 'w provider_state" where
  "received rq resp w st \<equiv> st\<lparr>ps_world := w, ps_log := ps_log st @ [Sent rq resp]\<rparr>"

abbreviation waited :: "('j, 'd, 'w) platform \<Rightarrow> int \<Rightarrow> 'w \<Rightarrow> 'w provider_state \<Rightarrow> 'w provider_state" where
  "waited pl d w st \<equiv> st\<lparr>ps_world := pl_sleep pl d w, ps_log := ps_log st @ [Slept d]\<rparr>"

text \<open>Only a failure that may pass is retried.\<close>

lemma classify_retryable:
  assumes "should_retry resp"
  shows "\<exists>err. classify pl cfg ctx resp = Inr (Failure err)"
  using assms by (cases "rs_error resp") (auto simp: should_retry_def classify_def Let_def)

lemma request_loop_stop:
  assumes "attempt \<le> pc_max_retries cfg" and "pl_perform pl rq (ps_world st) = (resp, w)"
    and "attempt = pc_max_retries cfg \<or> \<not> should_retry resp"
  shows "request_loop pl cfg ctx rq attempt err st =
    (verdict_outcome (classify pl cfg ctx resp),
     settle pl cfg (classify pl cfg ctx resp) (received rq resp w st))"
proof (cases "classify pl cfg ctx resp")
  case (Inl ex)
  with assms show ?thesis by (subst request_loop.simps) simp
next
  case (Inr v)
  with assms show ?thesis by (subst request_loop.simps) (cases v, simp_all)
qed

lemma request_loop_retry:
  assumes "attempt < pc_max_retries cfg" and "pl_perform pl rq (ps_world st) = (resp, w)"
    and "should_retry resp"
    and "compute_backoff pl (pc_base_backoff cfg) (pc_max_backoff cfg) attempt w = Inr (d, w')"
  shows "\<exists>err'. request_loop pl cfg ctx rq attempt err st =
    request_loop pl cfg ctx rq (attempt + 1) err' (waited pl d w' (received rq resp w st))"
proof -
  obtain e where "classify pl cfg ctx resp = Inr (Failure e)"
    using classify_retryable [OF assms(3)] by blast
  with assms show ?thesis by (subst request_loop.simps) auto
qed

lemma request_loop_backoff_error:
  assumes "attempt < pc_max_retries cfg" and "pl_perform pl rq (ps_world st) = (resp, w)"
    and "should_retry resp"
    and "compute_backoff pl (pc_base_backoff cfg) (pc_max_backoff cfg) attempt w = Inl ex"
  shows "fst (request_loop pl cfg ctx rq attempt err st) = Inl ex"
proof -
  obtain e where "classify pl cfg ctx resp = Inr (Failure e)"
    using classify_retryable [OF assms(3)] by blast
  with assms show ?thesis by (subst request_loop.simps) auto
qed

text \<open>What one run of the loop adds to the log, with the response that ends it.\<close>

definition loop_trace :: "provider_config \<Rightarrow> nat \<Rightarrow> effect list \<Rightarrow> http_response list \<Rightarrow> http_response \<Rightarrow> bool" where
  "loop_trace cfg n es resps final \<longleftrightarrow>
     sent_responses es = resps @ [final] \<and> list_all should_retry resps \<and>
     length resps \<le> n \<and> (should_retry final \<longrightarrow> length resps = n) \<and>
     length (waits es) = length resps \<and>
     list_all (\<lambda>d. 0 \<le> d \<and> d \<le> pc_max_backoff cfg) (waits es)"

lemma loop_trace_stop:
  "n = 0 \<or> \<not> should_retry resp \<Longrightarrow> loop_trace cfg n [Sent rq resp] [] resp"
  by (auto simp: loop_trace_def)

lemma loop_trace_retry:
  assumes "loop_trace cfg n es resps final" and "should_retry resp"
    and "0 \<le> d" and "d \<le> pc_max_backoff cfg"
  shows "loop_trace cfg (Suc n) (Sent rq resp # Slept d # es) (resp # resps) final"
  using assms by (auto simp: loop_trace_def)

lemma request_loop_trace:
  assumes "sane_backoff cfg" and "jitter_in_range pl" and "attempt + n = pc_max_retries cfg"
  shows "\<exists>es resps final w. loop_trace cfg n es resps final \<and>
    request_loop pl cfg ctx rq attempt err st =
      (verdict_outcome (classify pl cfg ctx final),
       settle pl cfg (classify pl cfg ctx final) (st\<lparr>ps_world := w, ps_log := ps_log st @ es\<rparr>))"
  using assms(3)
proof (induction n arbitrary: attempt err st)
  case 0
  obtain resp w where p: "pl_perform pl rq (ps_world st) = (resp, w)"
    by (cases "pl_perform pl rq (ps_world st)")
  show ?case
    using 0 request_loop_stop [of attempt cfg pl rq st, OF _ p, of ctx err] loop_trace_stop [of 0]
    by (intro exI [of _ "[Sent rq resp]"] exI [of _ "[]"] exI [of _ resp] exI [of _ w]) simp
next
  case (Suc n)
  obtain resp w where p: "pl_perform pl rq (ps_world st) = (resp, w)"
    by (cases "pl_perform pl rq (ps_world st)")
  show ?case
  proof (cases "should_retry resp")
    case False
    then show ?thesis
      using Suc.prems request_loop_stop [of attempt cfg pl rq st, OF _ p, of ctx err]
        loop_trace_stop [of "Suc n" resp]
      by (intro exI [of _ "[Sent rq resp]"] exI [of _ "[]"] exI [of _ resp] exI [of _ w]) simp
  next
    case True
    have lt: "attempt < pc_max_retries cfg" using Suc.prems by simp
    obtain d w' where d: "compute_backoff pl (pc_base_backoff cfg) (pc_max_backoff cfg) attempt w = Inr (d, w')"
      "0 \<le> d" "d \<le> pc_max_backoff cfg"
      using compute_backoff_sane [OF assms(1,2) lt] by metis
    obtain err' where e: "request_loop pl cfg ctx rq attempt err st =
        request_loop pl cfg ctx rq (attempt + 1) err' (waited pl d w' (received rq resp w st))"
      using request_loop_retry [OF lt p True d(1)] by blast
    have n: "attempt + 1 + n = pc_max_retries cfg" using Suc.prems by simp
    obtain es resps final w'' where IH: "loop_trace cfg n es resps final"
      "request_loop pl cfg ctx rq (attempt + 1) err' (waited pl d w' (received rq resp w st)) =
        (verdict_outcome (classify pl cfg ctx final),
         settle pl cfg (classify pl cfg ctx final)
           ((waited pl d w' (received rq resp w st))\<lparr>ps_world := w'',
              ps_log := ps_log (waited pl d w' (received rq resp w st)) @ es\<rparr>))"
      using Suc.IH [OF n] by blast
    have "request_loop pl cfg ctx rq attempt err st =
        (verdict_outcome (classify pl cfg ctx final),
         settle pl cfg (classify pl cfg ctx final)
           (st\<lparr>ps_world := w'', ps_log := ps_log st @ Sent rq resp # Slept d # es\<rparr>))"
      unfolding e IH(2) by simp
    then show ?thesis
      using loop_trace_retry [OF IH(1) True d(2,3)] by blast
  qed
qed

end
