(* ===== verification/Provider_Calls.thy ===== *)
theory Provider_Calls
  imports Http_Provider
begin

text \<open>
  What the HTTP client of \<^verbatim>\<open>HttpProviderBase.cpp\<close> promises: a request that its guards or the open
  breaker stop sends nothing; an admitted one tries transient failures again within its bounds
  and reports the response that ends the loop; the breaker opens at its threshold and, under every
  interleaving of the critical sections of concurrent calls, stays open no longer than its cooldown; the
  credential of the strategy is always in the headers; a successful JSON operation carries a usage
  object. A concrete platform at the end instantiates the parameters.
\<close>

section \<open>Guards\<close>

definition request_ready :: "environ \<Rightarrow> provider_config \<Rightarrow> string \<Rightarrow> bool" where
  "request_ready env cfg key \<longleftrightarrow>
     \<not> pc_dry_run cfg \<and> pc_base_url cfg \<noteq> [] \<and> pc_api_key_env cfg \<noteq> [] \<and>
     get_env env (pc_api_key_env cfg) = Some key \<and> key \<noteq> []"

definition request_of ::
  "('j, 'd, 'w) platform \<Rightarrow> environ \<Rightarrow> provider \<Rightarrow> string \<Rightarrow> provider_operation \<Rightarrow> 'j \<Rightarrow> request_context \<Rightarrow>
   string \<Rightarrow> http_request" where
  "request_of pl env pv key operation payload ctx rid =
     make_request pl env (pv_config pv) (pv_auth pv) key ctx operation rid (js_write (pl_json pl) payload)"

lemma perform_refused:
  assumes "request_ready env (pv_config pv) key"
    and "breaker_admit (pl_now pl (ps_world st)) (ps_breaker st) = None"
  shows "perform_http_request pl env pv operation payload ctx rid st =
    (Inr (Inl (make_circuit_open_error pl (pv_config pv) ctx)), st)"
  using assms by (simp add: perform_http_request_def request_ready_def Let_def)

lemma perform_admitted:
  assumes "request_ready env (pv_config pv) key"
    and "breaker_admit (pl_now pl (ps_world st)) (ps_breaker st) = Some b"
  shows "perform_http_request pl env pv operation payload ctx rid st =
    request_loop pl (pv_config pv) ctx (request_of pl env pv key operation payload ctx rid) 0
      (empty_error pl) (st\<lparr>ps_breaker := b\<rparr>)"
  using assms by (simp add: perform_http_request_def request_ready_def request_of_def Let_def)

lemma perform_not_ready:
  assumes "\<And>key. \<not> request_ready env (pv_config pv) key"
  shows "\<exists>err. perform_http_request pl env pv operation payload ctx rid st = (Inr (Inl err), st) \<and>
    pe_request_id err = rc_request_id ctx \<and>
    pe_code err \<in> {''dry_run'', ''missing_base_url'', ''missing_api_key_env'', ''missing_api_key''}"
proof (cases "get_env env (pc_api_key_env (pv_config pv))")
  case None
  then show ?thesis
    by (auto simp: perform_http_request_def Let_def make_dry_run_error_def make_provider_error_def
        make_auth_error_def)
next
  case (Some key)
  with assms [of key] show ?thesis
    by (auto simp: perform_http_request_def request_ready_def Let_def make_dry_run_error_def
        make_provider_error_def make_auth_error_def)
qed

text \<open>A request is never sent, and neither the breaker nor the clock is touched, when the
  provider runs dry, has no base URL, no name for the key variable or no key in the environment,
  and when the breaker is open: the caller gets an error with its own request id whose code
  names the guard.\<close>

theorem guarded_request_sends_nothing:
  assumes "(\<forall>key. \<not> request_ready env (pv_config pv) key) \<or>
    breaker_admit (pl_now pl (ps_world st)) (ps_breaker st) = None"
  shows "\<exists>err. perform_http_request pl env pv operation payload ctx rid st = (Inr (Inl err), st) \<and>
    pe_request_id err = rc_request_id ctx \<and>
    pe_code err \<in> {''dry_run'', ''missing_base_url'', ''missing_api_key_env'', ''missing_api_key'', ''circuit_open''}"
proof (cases "\<exists>key. request_ready env (pv_config pv) key")
  case True
  then obtain key where "request_ready env (pv_config pv) key" by blast
  with assms show ?thesis
    using perform_refused [of env pv key pl st operation payload ctx rid]
    by (auto simp: make_circuit_open_error_def make_provider_error_def)
next
  case False
  then show ?thesis
    using perform_not_ready [of env pv pl operation payload ctx rid st] by auto
qed

section \<open>Retries\<close>

text \<open>C8. An admitted request is sent again exactly while the response is transient (a network
  error, 429 or 5xx) and tries remain: at most \<open>max_retries + 1\<close> requests go out, all but the last response
  are transient, a transient last response means the tries are used up, there is one wait between
  two tries, each wait lies between zero and the maximal backoff, and both the
  result and the breaker are those of the last response.\<close>

theorem provider_retries_transient_failures:
  assumes "request_ready env (pv_config pv) key"
    and "breaker_admit (pl_now pl (ps_world st)) (ps_breaker st) = Some b"
    and "sane_backoff (pv_config pv)" and "jitter_in_range pl"
  shows "\<exists>es resps final w.
    sent_responses es = resps @ [final] \<and> list_all should_retry resps \<and>
    length resps \<le> pc_max_retries (pv_config pv) \<and>
    (should_retry final \<longrightarrow> length resps = pc_max_retries (pv_config pv)) \<and>
    length (waits es) = length resps \<and>
    list_all (\<lambda>d. 0 \<le> d \<and> d \<le> pc_max_backoff (pv_config pv)) (waits es) \<and>
    perform_http_request pl env pv operation payload ctx rid st =
      (verdict_outcome (classify pl (pv_config pv) ctx final),
       settle pl (pv_config pv) (classify pl (pv_config pv) ctx final)
         (st\<lparr>ps_breaker := b, ps_world := w, ps_log := ps_log st @ es\<rparr>))"
  using request_loop_trace [OF assms(3,4), of 0 "pc_max_retries (pv_config pv)" ctx
      "request_of pl env pv key operation payload ctx rid" "empty_error pl" "st\<lparr>ps_breaker := b\<rparr>"]
  unfolding perform_admitted [OF assms(1,2)] loop_trace_def by auto

section \<open>The breaker over a sequence of calls\<close>

type_synonym 'j call = "provider_operation \<times> 'j \<times> request_context \<times> string"

fun perform_all ::
  "('j, 'd, 'w) platform \<Rightarrow> environ \<Rightarrow> provider \<Rightarrow> 'j call list \<Rightarrow> 'w provider_state \<Rightarrow>
   ('d, 'j json_result) outcome list \<times> 'w provider_state" where
  "perform_all pl env pv [] st = ([], st)"
| "perform_all pl env pv ((operation, payload, ctx, rid) # calls) st =
     (let (out, st) = perform_http_request pl env pv operation payload ctx rid st;
          (outs, st) = perform_all pl env pv calls st
      in (out # outs, st))"

fun failed :: "('d, 'a) outcome \<Rightarrow> bool" where
  "failed (Inr (Inl _)) = True"
| "failed _ = False"

lemma settle_failed:
  assumes "failed (verdict_outcome v)"
  shows "settle pl cfg v st = note_failure pl cfg st"
  using assms by (induction pl cfg v st rule: settle.induct) auto

lemma perform_counts_failure:
  assumes "request_ready env (pv_config pv) key" and "sane_backoff (pv_config pv)" and "jitter_in_range pl"
    and "br_open_until (ps_breaker st) = 0"
    and "perform_http_request pl env pv operation payload ctx rid st = (out, st')" and "failed out"
  shows "ps_breaker st' = breaker_fail (pv_config pv) (pl_now pl (ps_world st')) (ps_breaker st)"
proof -
  let ?cfg = "pv_config pv"
  have admit: "breaker_admit (pl_now pl (ps_world st)) (ps_breaker st) = Some (ps_breaker st)"
    using assms(4) by (simp add: breaker_admit_def)
  obtain es final w where "perform_http_request pl env pv operation payload ctx rid st =
      (verdict_outcome (classify pl ?cfg ctx final),
       settle pl ?cfg (classify pl ?cfg ctx final) (st\<lparr>ps_world := w, ps_log := ps_log st @ es\<rparr>))"
    using request_loop_trace [OF assms(2,3), of 0 "pc_max_retries ?cfg" ctx
        "request_of pl env pv key operation payload ctx rid" "empty_error pl" st]
      perform_admitted [OF assms(1) admit, of operation payload ctx rid]
    by auto
  then show ?thesis
    using assms(5,6) by (auto simp: settle_failed note_failure_def)
qed

lemma perform_all_failures:
  assumes ready: "request_ready env (pv_config pv) key" "sane_backoff (pv_config pv)" "jitter_in_range pl"
  shows "perform_all pl env pv calls st = (outs, st') \<Longrightarrow> list_all failed outs \<Longrightarrow>
    br_open_until (ps_breaker st) = 0 \<Longrightarrow> calls \<noteq> [] \<Longrightarrow>
    br_failures (ps_breaker st) + length calls = pc_breaker_threshold (pv_config pv) \<Longrightarrow>
    ps_breaker st' = \<lparr> br_failures = pc_breaker_threshold (pv_config pv),
      br_open_until = pl_now pl (ps_world st') + pc_breaker_cooldown (pv_config pv) * 1000000 \<rparr>"
proof (induction calls arbitrary: st outs)
  case (Cons call calls)
  obtain operation payload ctx rid where call: "call = (operation, payload, ctx, rid)"
    by (cases call)
  obtain out st1 where p: "perform_http_request pl env pv operation payload ctx rid st = (out, st1)"
    by (cases "perform_http_request pl env pv operation payload ctx rid st")
  obtain outs' where rest: "perform_all pl env pv calls st1 = (outs', st')" "outs = out # outs'"
    using Cons.prems(1) by (auto simp: call p split: prod.splits)
  have b: "ps_breaker st1 = breaker_fail (pv_config pv) (pl_now pl (ps_world st1)) (ps_breaker st)"
    using perform_counts_failure [OF ready Cons.prems(3) p] Cons.prems(2) rest by simp
  show ?case
  proof (cases "calls = []")
    case True
    then show ?thesis
      using b rest Cons.prems(5) by (simp add: breaker_fail_def Let_def)
  next
    case False
    then have "br_failures (ps_breaker st) + 1 < pc_breaker_threshold (pv_config pv)"
      using Cons.prems(5) by (cases calls) auto
    then show ?thesis
      using Cons.IH [OF rest(1)] b rest(2) False Cons.prems
      by (simp add: breaker_fail_def Let_def)
  qed
qed simp

text \<open>C9. The breaker opens at its threshold: when the first \<open>threshold\<close> calls of a provider all
  fail upstream, then every call that starts within the cooldown after the last of them
  is refused with \<open>circuit_open\<close> and sends nothing.\<close>

theorem breaker_opens_at_threshold:
  assumes "request_ready env (pv_config pv) key" and "sane_backoff (pv_config pv)" and "jitter_in_range pl"
    and "ps_breaker st = breaker_closed"
    and "length calls = pc_breaker_threshold (pv_config pv)" and "calls \<noteq> []"
    and "perform_all pl env pv calls st = (outs, st')" and "list_all failed outs"
    and "0 < pl_now pl (ps_world st')" and "0 \<le> pc_breaker_cooldown (pv_config pv)"
    and "pl_now pl w < pl_now pl (ps_world st') + pc_breaker_cooldown (pv_config pv) * 1000000"
  shows "perform_http_request pl env pv operation payload ctx rid (st'\<lparr>ps_world := w\<rparr>) =
    (Inr (Inl (make_circuit_open_error pl (pv_config pv) ctx)), st'\<lparr>ps_world := w\<rparr>)"
proof (rule perform_refused [OF assms(1)])
  have "ps_breaker st' = \<lparr> br_failures = pc_breaker_threshold (pv_config pv),
      br_open_until = pl_now pl (ps_world st') + pc_breaker_cooldown (pv_config pv) * 1000000 \<rparr>"
    using perform_all_failures [OF assms(1-3,7,8)] assms(4-6) by (simp add: breaker_closed_def)
  then show "breaker_admit (pl_now pl (ps_world (st'\<lparr>ps_world := w\<rparr>))) (ps_breaker (st'\<lparr>ps_world := w\<rparr>)) = None"
    using assms(9-11) by (simp add: breaker_admit_def)
qed

section \<open>The breaker under concurrent calls\<close>

text \<open>
  A call reads the clock before it takes the mutex to be admitted (\<open>t\<close> below may be stale), and
  takes it again at its end to report success or failure; a call that ends with an exception
  reports nothing.
\<close>

record breaker_sys =
  bs_breaker :: breaker
  bs_now :: int
  bs_in_flight :: nat

inductive breaker_step :: "provider_config \<Rightarrow> breaker_sys \<Rightarrow> breaker_sys \<Rightarrow> bool" for cfg where
  breaker_tick: "bs_now s \<le> t \<Longrightarrow> breaker_step cfg s (s\<lparr>bs_now := t\<rparr>)"
| breaker_admitted: "t \<le> bs_now s \<Longrightarrow> breaker_admit t (bs_breaker s) = Some b \<Longrightarrow>
    breaker_step cfg s (s\<lparr>bs_breaker := b, bs_in_flight := bs_in_flight s + 1\<rparr>)"
| breaker_succeeded: "0 < bs_in_flight s \<Longrightarrow>
    breaker_step cfg s (s\<lparr>bs_breaker := breaker_succeed (bs_breaker s), bs_in_flight := bs_in_flight s - 1\<rparr>)"
| breaker_failed: "0 < bs_in_flight s \<Longrightarrow>
    breaker_step cfg s (s\<lparr>bs_breaker := breaker_fail cfg (bs_now s) (bs_breaker s),
      bs_in_flight := bs_in_flight s - 1\<rparr>)"
| breaker_escaped: "0 < bs_in_flight s \<Longrightarrow> breaker_step cfg s (s\<lparr>bs_in_flight := bs_in_flight s - 1\<rparr>)"

definition breaker_start :: "breaker_sys \<Rightarrow> bool" where
  "breaker_start s \<longleftrightarrow> bs_breaker s = breaker_closed \<and> 0 < bs_now s \<and> bs_in_flight s = 0"

definition breaker_ok :: "provider_config \<Rightarrow> breaker_sys \<Rightarrow> bool" where [inv_defs]:
  "breaker_ok cfg s \<longleftrightarrow> 0 < bs_now s \<and>
     (if br_open_until (bs_breaker s) = 0
      then br_failures (bs_breaker s) < pc_breaker_threshold cfg \<or> br_failures (bs_breaker s) = 0
      else pc_breaker_threshold cfg \<le> br_failures (bs_breaker s) \<and>
        br_open_until (bs_breaker s) \<le> bs_now s + pc_breaker_cooldown cfg * 1000000)"

lemma breaker_ok_step:
  assumes "0 \<le> pc_breaker_cooldown cfg" and "breaker_ok cfg s" and "breaker_step cfg s s'"
  shows "breaker_ok cfg s'"
  using assms(3,1,2)
  by cases (auto simp: inv_defs breaker_admit_def breaker_succeed_def breaker_fail_def Let_def
      split: if_splits)

lemma breaker_ok_start: "breaker_start s \<Longrightarrow> breaker_ok cfg s"
  by (simp add: breaker_start_def breaker_ok_def breaker_closed_def)

interpretation breaker_system: invariant_system
  breaker_start "breaker_step cfg" "\<lambda>s. 0 \<le> pc_breaker_cooldown cfg \<longrightarrow> breaker_ok cfg s" for cfg
  by unfold_locales
     (auto intro: breaker_ok_step breaker_ok_start)

text \<open>C10. Under every interleaving of calls, clock ticks and escaping exceptions the breaker refuses a
  call only after at least \<open>threshold\<close> failures in a row were counted, and never for longer than one
  cooldown from now; while it is closed, fewer failures than the threshold are counted.\<close>

theorem breaker_refuses_only_at_threshold:
  assumes "0 \<le> pc_breaker_cooldown cfg" and "breaker_start s" and "(breaker_step cfg)\<^sup>*\<^sup>* s s'"
  shows "(if breaker_admit t (bs_breaker s') = None
    then pc_breaker_threshold cfg \<le> br_failures (bs_breaker s') \<and>
      t < bs_now s' + pc_breaker_cooldown cfg * 1000000
    else br_open_until (bs_breaker s') \<noteq> 0 \<or>
      br_failures (bs_breaker s') < pc_breaker_threshold cfg \<or> br_failures (bs_breaker s') = 0)"
  using breaker_system.reachable_good [OF assms(2,3)] assms(1)
  by (auto simp: breaker_ok_def breaker_admit_def split: if_splits)

section \<open>Headers\<close>

lemma header_get_set:
  "header_get pl (header_set pl k v h) k' =
     (if pl_header_key pl k' = pl_header_key pl k then Some v else header_get pl h k')"
  by (induction pl k v h rule: header_set.induct) auto

fun auth_header :: "auth_strategy \<Rightarrow> string \<Rightarrow> (string \<times> string) option" where
  "auth_header BearerAuthorization key = Some (''Authorization'', ''Bearer '' @ key)"
| "auth_header XApiKey key = Some (''x-api-key'', key)"
| "auth_header XGoogApiKey key = Some (''x-goog-api-key'', key)"
| "auth_header NoAuth key = None"

text \<open>Whatever the default headers of the configuration are, the credential of the provider's
  strategy is in the headers of every request, and the organisation header follows the environment. (The
  keys of \<open>cpr::Header\<close> are compared without case.)\<close>

theorem credential_always_sent:
  assumes "pl_header_key pl = to_lower" and "auth_header auth key = Some (name, value)"
  shows "header_get pl (build_headers pl env cfg auth key ctx) name = Some value"
proof -
  have neq: "to_lower name \<noteq> to_lower ''OpenAI-Organization''"
    using assms(2) by (cases auth) (auto simp: to_lower_def tolower_def isupper_def)
  show ?thesis
    using assms neq
    by (cases auth)
       (auto simp: build_headers_def Let_def header_get_set assms(1) split: option.split if_splits)
qed

section \<open>The accounting of tokens\<close>

text \<open>The documented behaviour of the JSON library on objects.\<close>

definition json_laws :: "'j json_lib \<Rightarrow> bool" where
  "json_laws js \<longleftrightarrow>
     js_is_object js (js_object js) \<and>
     (\<forall>v k. js_is_object js v \<longrightarrow> (\<exists>m. js_member js v k = Inr m)) \<and>
     (\<forall>v k x. js_is_object js v \<longrightarrow> (\<exists>v'. js_set js v k x = Inr v' \<and> js_is_object js v' \<and>
        (\<forall>k'. js_member js v' k' = (if k' = k then Inr (Some x) else js_member js v k'))))"

lemma json_set:
  assumes "json_laws js" and "js_is_object js v"
  obtains v' where "js_set js v k x = Inr v'" "js_is_object js v'" "js_member js v' k = Inr (Some x)"
    "\<And>k'. k' \<noteq> k \<Longrightarrow> js_member js v' k' = js_member js v k'"
  using assms unfolding json_laws_def by (metis (no_types, lifting))

lemma usage_json_object:
  assumes "json_laws js"
  obtains v where "usage_json js u = Inr v" "js_is_object js v"
proof -
  have o: "js_is_object js (js_object js)" using assms by (simp add: json_laws_def)
  obtain v1 where 1: "js_set js (js_object js) ''prompt_tokens'' (js_of_u64 js (us_prompt u)) = Inr v1"
    "js_is_object js v1" by (rule json_set [OF assms o])
  obtain v2 where 2: "js_set js v1 ''completion_tokens'' (js_of_u64 js (us_completion u)) = Inr v2"
    "js_is_object js v2" by (rule json_set [OF assms 1(2)])
  obtain v3 where 3: "js_set js v2 ''total_tokens'' (js_of_u64 js (us_total u)) = Inr v3"
    "js_is_object js v3" by (rule json_set [OF assms 2(2)])
  obtain v4 where 4: "js_set js v3 ''audio_tokens'' (js_of_u64 js (us_audio u)) = Inr v4"
    "js_is_object js v4" by (rule json_set [OF assms 3(2)])
  obtain v5 where 5: "js_set js v4 ''cached_tokens'' (js_of_u64 js (us_cached u)) = Inr v5"
    "js_is_object js v5" by (rule json_set [OF assms 4(2)])
  show thesis
    using that [of v5] 1 2 3 4 5 by (simp add: usage_json_def)
qed

lemma has_object_cases:
  assumes "json_laws js" and "js_is_object js v"
  obtains "has_object js v k = Inr True" | "has_object js v k = Inr False"
proof -
  obtain m where "js_member js v k = Inr m"
    using assms unfolding json_laws_def by blast
  then show thesis
    using that by (cases m) (auto simp: has_object_def)
qed

lemma ensure_usage_object:
  assumes "json_laws js" and "js_is_object js v"
  obtains v' where "ensure_usage js u v = Inr v'" "js_is_object js v'"
    "has_object js v' ''usage'' = Inr True" "has_object js v ''usage'' = Inr True \<Longrightarrow> v' = v"
proof (cases rule: has_object_cases [OF assms, of "''usage''"])
  case 1
  then show ?thesis using that [of v] assms by (simp add: ensure_usage_def)
next
  case 2
  obtain x where x: "usage_json js u = Inr x" "js_is_object js x"
    by (rule usage_json_object [OF assms(1)])
  obtain v' where "js_set js v ''usage'' x = Inr v'" "js_is_object js v'"
    "js_member js v' ''usage'' = Inr (Some x)"
    by (rule json_set [OF assms])
  then show ?thesis
    using that [of v'] 2 x by (simp add: ensure_usage_def has_object_def)
qed

lemma note_usage_object:
  assumes "json_laws js" and "js_is_object js v"
  obtains v' where "note_usage js u v = Inr v'" "js_is_object js v'"
    "js_member js v' ''usage'' = js_member js v ''usage''" "us_note u = [] \<Longrightarrow> v' = v"
proof (cases "us_note u = []")
  case True
  then show ?thesis using that [of v] assms by (simp add: note_usage_def)
next
  case False
  obtain w where w: "bindE (has_object js v ''metadata'')
        (\<lambda>present. if present then Inr v else js_set js v ''metadata'' (js_object js)) = Inr w"
    and ow: "js_is_object js w" "has_object js w ''metadata'' = Inr True"
    and mw: "js_member js w ''usage'' = js_member js v ''usage''"
  proof (cases rule: has_object_cases [OF assms, of "''metadata''"])
    case 1
    then show ?thesis using that [of v] assms by simp
  next
    case 2
    obtain v' where "js_set js v ''metadata'' (js_object js) = Inr v'" "js_is_object js v'"
      "js_member js v' ''metadata'' = Inr (Some (js_object js))"
      "js_member js v' ''usage'' = js_member js v ''usage''"
      by (rule json_set [OF assms, of "''metadata''" "js_object js"]) simp
    then show ?thesis
      using that [of v'] 2 assms(1) by (simp add: has_object_def json_laws_def)
  qed
  obtain m where m: "js_member js w ''metadata'' = Inr (Some m)" "js_is_object js m"
    using ow(2) by (auto simp: has_object_def bindE_Inr_iff split: option.splits)
  obtain m' where m': "js_set js m ''usage_note'' (js_of_string js (us_note u)) = Inr m'"
    by (rule json_set [OF assms(1) m(2)])
  obtain w' where w': "js_set js w ''metadata'' m' = Inr w'" "js_is_object js w'"
    "js_member js w' ''usage'' = js_member js w ''usage''"
    by (rule json_set [OF assms(1) ow(1), of "''metadata''" m']) simp
  obtain present where "has_object js v ''metadata'' = Inr present"
    "(if present then Inr v else js_set js v ''metadata'' (js_object js)) = Inr w"
    using w by (auto simp: bindE_Inr_iff)
  then have "note_usage js u v = Inr w'"
    using False m(1) m' w'(1) by (simp add: note_usage_def)
  then show ?thesis
    using that w' mw False by simp
qed

text \<open>When the upstream answers with a JSON object whose token counts can be read, the operation
  succeeds and the payload it returns carries a usage object; a payload that has one already is
  returned as it came.\<close>

theorem json_operation_carries_usage:
  assumes "json_laws (pl_json pl)" and "js_is_object (pl_json pl) (jr_payload r)"
    and "extract_usage (pl_json pl) (jr_payload r) = Inr u"
    and "perform_http_request pl env pv operation payload ctx rid st = (Inr (Inr r), st')"
  shows "\<exists>p. perform_json_operation pl env pv operation payload ctx rid st =
      (Inr (Inr (r\<lparr>jr_payload := p, jr_usage := u\<rparr>)), st') \<and>
    has_object (pl_json pl) p ''usage'' = Inr True \<and>
    (has_object (pl_json pl) (jr_payload r) ''usage'' = Inr True \<and> us_note u = [] \<longrightarrow> p = jr_payload r)"
proof -
  let ?js = "pl_json pl"
  obtain v where v: "ensure_usage ?js u (jr_payload r) = Inr v" "js_is_object ?js v"
    "has_object ?js v ''usage'' = Inr True"
    "has_object ?js (jr_payload r) ''usage'' = Inr True \<Longrightarrow> v = jr_payload r"
    using ensure_usage_object [OF assms(1,2), of u] by blast
  obtain p where p: "note_usage ?js u v = Inr p"
    "js_member ?js p ''usage'' = js_member ?js v ''usage''" "us_note u = [] \<Longrightarrow> p = v"
    using note_usage_object [OF assms(1) v(2), of u] by blast
  have "has_object ?js p ''usage'' = Inr True"
    using v(3) p(2) by (simp add: has_object_def)
  then show ?thesis
    using assms(3,4) v p
    by (intro exI [of _ p])
       (auto simp: perform_json_operation_def finish_json_operation_def transform_request_def
         transform_response_def)
qed

section \<open>Replies the code does not expect\<close>

text \<open>A reply of class 2xx with readable JSON whose usage cannot be read (a string or a number in its
  place) leaves the operation as an exception: it is turned into no provider error, and the breaker
  counts neither a failure nor a success.\<close>

theorem malformed_usage_escapes:
  assumes "request_ready env (pv_config pv) key"
    and "breaker_admit (pl_now pl (ps_world st)) (ps_breaker st) = Some b"
    and "pl_perform pl (request_of pl env pv key operation payload ctx rid) (ps_world st) = (resp, w)"
    and "rs_error resp = None" and "200 \<le> rs_status resp" and "rs_status resp < 300"
    and "js_parse (pl_json pl) (rs_text resp) = Inr p" and "extract_usage (pl_json pl) p = Inl ex"
  shows "perform_json_operation pl env pv operation payload ctx rid st =
    (Inl ex, st\<lparr>ps_breaker := b, ps_world := w,
       ps_log := ps_log st @ [Sent (request_of pl env pv key operation payload ctx rid) resp]\<rparr>)"
proof -
  have "classify pl (pv_config pv) ctx resp = Inl ex"
    using assms(4-8) by (simp add: classify_def Let_def)
  moreover have "\<not> should_retry resp"
    using assms(4-6) by (auto simp: should_retry_def)
  ultimately have "perform_http_request pl env pv operation payload ctx rid st =
    (Inl ex, st\<lparr>ps_breaker := b, ps_world := w,
       ps_log := ps_log st @ [Sent (request_of pl env pv key operation payload ctx rid) resp]\<rparr>)"
    using request_loop_stop [of 0 "pv_config pv" pl "request_of pl env pv key operation payload ctx rid"
        "st\<lparr>ps_breaker := b\<rparr>" resp w ctx "empty_error pl"] assms(3)
    by (simp add: perform_admitted [OF assms(1,2)])
  then show ?thesis
    by (simp add: perform_json_operation_def transform_request_def)
qed

section \<open>A concrete platform\<close>

datatype sample_json = JNull | JBool bool | JNum u64 | JStr string | JObj "(string \<times> sample_json) list"

fun sample_member :: "sample_json \<Rightarrow> string \<Rightarrow> sample_json option res" where
  "sample_member (JObj m) k = Inr (map_of m k)"
| "sample_member JNull k = Inr None"
| "sample_member _ k = Inl (LogicError ''isMember'')"

fun sample_set :: "sample_json \<Rightarrow> string \<Rightarrow> sample_json \<Rightarrow> sample_json res" where
  "sample_set (JObj m) k x = Inr (JObj (al_set k x m))"
| "sample_set JNull k x = Inr (JObj [(k, x)])"
| "sample_set _ k x = Inl (LogicError ''resolveReference'')"

fun sample_u64 :: "sample_json \<Rightarrow> u64 res" where
  "sample_u64 (JNum n) = Inr n"
| "sample_u64 JNull = Inr 0"
| "sample_u64 _ = Inl (LogicError ''asUInt64'')"

fun sample_is_object :: "sample_json \<Rightarrow> bool" where
  "sample_is_object (JObj _) = True"
| "sample_is_object _ = False"

fun sample_remove :: "sample_json \<Rightarrow> string \<Rightarrow> sample_json res" where
  "sample_remove (JObj m) k = Inr (JObj (al_erase k m))"
| "sample_remove JNull k = Inr JNull"
| "sample_remove _ k = Inl (LogicError ''removeMember'')"

fun sample_bool :: "sample_json \<Rightarrow> bool option" where
  "sample_bool (JBool b) = Some b"
| "sample_bool _ = None"

fun sample_string :: "sample_json \<Rightarrow> string option" where
  "sample_string (JStr s) = Some s"
| "sample_string _ = None"

definition sample_parse :: "string \<Rightarrow> string + sample_json" where
  "sample_parse s = (if s = ''{}'' then Inr (JObj []) else if s = ''0'' then Inr (JNum 0)
     else if s = ''u'' then Inr (JObj [(''usage'', JStr ''x'')]) else Inl ''syntax'')"

definition sample_js :: "sample_json json_lib" where
  "sample_js = \<lparr> js_object = JObj [], js_is_object = sample_is_object, js_member = sample_member,
     js_set = sample_set, js_of_u64 = JNum, js_of_string = JStr, js_of_int = (\<lambda>i. JNum (word_of_int i)),
     js_as_u64 = sample_u64, js_write = (\<lambda>_. ''{}''), js_parse = sample_parse, js_remove = sample_remove,
     js_as_bool = sample_bool, js_as_string = sample_string \<rparr>"

type_synonym sample_world = "http_response list \<times> int" \<comment> \<open>replies to come, time\<close>

fun sample_perform :: "http_request \<Rightarrow> sample_world \<Rightarrow> http_response \<times> sample_world" where
  "sample_perform rq (r # rs, t) = (r, rs, t + 1000)"
| "sample_perform rq ([], t) =
     (\<lparr> rs_error = Some ''refused'', rs_status = 0, rs_headers = [], rs_text = [] \<rparr>, [], t + 1000)"

definition sample_platform :: "(sample_json, nat, sample_world) platform" where
  "sample_platform = \<lparr> pl_json = sample_js, pl_stod = stoul, pl_zero = 0,
     pl_seconds = (\<lambda>ms. nat ms div 1000), pl_positive = (\<lambda>d. 0 < d), pl_show = show_nat,
     pl_json_double = (\<lambda>d. JNum (of_nat d)), pl_header_key = to_lower, pl_perform = sample_perform,
     pl_now = snd, pl_sleep = (\<lambda>d (rs, t). (rs, t + d * 1000000)), pl_jitter = (\<lambda>b w. (b div 2, w)) \<rparr>"

definition sample_reply :: "int \<Rightarrow> string \<Rightarrow> http_response" where
  "sample_reply status text = \<lparr> rs_error = None, rs_status = status, rs_headers = [], rs_text = text \<rparr>"

definition sample_environ :: environ where
  "sample_environ = [''KEY'' \<mapsto> ''secret'']"

definition sample_provider :: "nat \<Rightarrow> provider" where
  "sample_provider retries = \<lparr> pv_config = provider_config_default\<lparr>pc_base_url := ''http://h/'',
     pc_api_key_env := ''KEY'', pc_max_retries := retries, pc_breaker_threshold := 2\<rparr>,
     pv_auth = BearerAuthorization \<rparr>"

definition sample_context :: request_context where
  "sample_context = \<lparr> rc_request_id = ''r1'', rc_vendor = [] \<rparr>"

definition sample_pstate :: "http_response list \<Rightarrow> breaker \<Rightarrow> sample_world provider_state" where
  "sample_pstate rs b = \<lparr> ps_breaker = b, ps_world = (rs, 5), ps_log = [] \<rparr>"

lemmas sample_defs = sample_platform_def sample_js_def sample_environ_def sample_provider_def
  sample_context_def sample_pstate_def sample_reply_def provider_config_default_def

lemma sample_ready: "request_ready sample_environ (pv_config (sample_provider n)) ''secret''"
  by (simp add: request_ready_def sample_defs get_env_def c_str_def)

lemma sample_sane: "n \<le> 32 \<Longrightarrow> sane_backoff (pv_config (sample_provider n))"
  by (simp add: sane_backoff_def sample_defs)

lemma sample_jitter: "jitter_in_range sample_platform"
  by (auto simp: jitter_in_range_def sample_defs)

lemma sample_json_laws: "json_laws sample_js"
  unfolding json_laws_def sample_js_def by (auto elim!: sample_is_object.elims(2) simp: al_set_lookup)

section \<open>The properties at concrete inputs\<close>

theorem guarded_request_sends_nothing_witness:
  "\<exists>err. perform_http_request sample_platform sample_environ (sample_provider 1) Chat (JObj [])
      sample_context [] (sample_pstate [] \<lparr> br_failures = 2, br_open_until = 9 \<rparr>) =
    (Inr (Inl err), sample_pstate [] \<lparr> br_failures = 2, br_open_until = 9 \<rparr>) \<and>
    pe_request_id err = ''r1'' \<and>
    pe_code err \<in> {''dry_run'', ''missing_base_url'', ''missing_api_key_env'', ''missing_api_key'', ''circuit_open''}"
  using guarded_request_sends_nothing [of sample_environ "sample_provider 1" sample_platform
      "sample_pstate [] \<lparr> br_failures = 2, br_open_until = 9 \<rparr>" Chat "JObj []" sample_context "[]"]
  by (simp add: sample_platform_def sample_pstate_def sample_context_def breaker_admit_def)

theorem provider_retries_transient_failures_witness:
  "\<exists>es resps final w.
    sent_responses es = resps @ [final] \<and> list_all should_retry resps \<and> length resps \<le> 1 \<and>
    (should_retry final \<longrightarrow> length resps = 1) \<and> length (waits es) = length resps \<and>
    list_all (\<lambda>d. 0 \<le> d \<and> d \<le> 2000) (waits es) \<and>
    perform_http_request sample_platform sample_environ (sample_provider 1) Chat (JObj []) sample_context []
        (sample_pstate [sample_reply 503 [], sample_reply 200 ''{}''] breaker_closed) =
      (verdict_outcome (classify sample_platform (pv_config (sample_provider 1)) sample_context final),
       settle sample_platform (pv_config (sample_provider 1))
         (classify sample_platform (pv_config (sample_provider 1)) sample_context final)
         ((sample_pstate [sample_reply 503 [], sample_reply 200 ''{}''] breaker_closed)
           \<lparr>ps_breaker := breaker_closed, ps_world := w, ps_log := es\<rparr>))"
  using provider_retries_transient_failures [of sample_environ "sample_provider 1" "''secret''"
      sample_platform "sample_pstate [sample_reply 503 [], sample_reply 200 ''{}''] breaker_closed"
      breaker_closed Chat "JObj []" sample_context "[]", OF sample_ready _ sample_sane sample_jitter]
  by (simp add: breaker_admit_def breaker_closed_def sample_pstate_def sample_provider_def
      provider_config_default_def)

lemma sample_failing_call:
  assumes "ps_world st = (sample_reply 500 [] # rs, t)" and "br_open_until (ps_breaker st) = 0"
  obtains err rq where
    "perform_http_request sample_platform sample_environ (sample_provider 0) Chat (JObj []) sample_context [] st =
      (Inr (Inl err), note_failure sample_platform (pv_config (sample_provider 0))
        (received rq (sample_reply 500 []) (rs, t + 1000) st))"
proof -
  let ?rq = "request_of sample_platform sample_environ (sample_provider 0) ''secret'' Chat (JObj []) sample_context []"
  let ?cfg = "pv_config (sample_provider 0)"
  have admit: "breaker_admit (pl_now sample_platform (ps_world st)) (ps_breaker st) = Some (ps_breaker st)"
    using assms(2) by (simp add: breaker_admit_def)
  have "pl_perform sample_platform ?rq (ps_world st) = (sample_reply 500 [], rs, t + 1000)"
    by (simp add: assms(1) sample_platform_def)
  moreover have "should_retry (sample_reply 500 [])"
    by (simp add: should_retry_def sample_reply_def)
  then obtain err where "classify sample_platform ?cfg sample_context (sample_reply 500 []) = Inr (Failure err)"
    using classify_retryable by blast
  moreover have "pc_max_retries ?cfg = 0" by (simp add: sample_provider_def)
  ultimately show thesis
    using that [of err ?rq] request_loop_stop [of 0 ?cfg sample_platform ?rq st "sample_reply 500 []"
        "(rs, t + 1000)" sample_context "empty_error sample_platform"]
    by (simp add: perform_admitted [OF sample_ready admit])
qed

abbreviation sample_call :: "sample_json call" where
  "sample_call \<equiv> (Chat, JObj [], sample_context, [])"

lemma sample_two_failures:
  obtains outs st' where
    "perform_all sample_platform sample_environ (sample_provider 0) [sample_call, sample_call]
       (sample_pstate [sample_reply 500 [], sample_reply 500 []] breaker_closed) = (outs, st')"
    "list_all failed outs" "ps_world st' = ([], 2005)"
proof -
  let ?st = "sample_pstate [sample_reply 500 [], sample_reply 500 []] breaker_closed"
  let ?cfg = "pv_config (sample_provider 0)"
  have th: "pc_breaker_threshold ?cfg = 2" by (simp add: sample_provider_def)
  have start: "ps_world ?st = ([sample_reply 500 [], sample_reply 500 []], 5)"
    "br_open_until (ps_breaker ?st) = 0"
    by (simp_all add: sample_pstate_def breaker_closed_def)
  obtain err1 rq1 where 1: "perform_http_request sample_platform sample_environ (sample_provider 0) Chat (JObj [])
      sample_context [] ?st = (Inr (Inl err1), note_failure sample_platform ?cfg
        (received rq1 (sample_reply 500 []) ([sample_reply 500 []], 5 + 1000) ?st))"
    by (rule sample_failing_call [OF start])
  define st1 where "st1 = note_failure sample_platform ?cfg
    (received rq1 (sample_reply 500 []) ([sample_reply 500 []], 5 + 1000) ?st)"
  have mid: "ps_world st1 = ([sample_reply 500 []], 5 + 1000)" "br_open_until (ps_breaker st1) = 0"
    by (simp_all add: st1_def note_failure_def breaker_fail_def th sample_pstate_def breaker_closed_def Let_def)
  obtain err2 rq2 where 2: "perform_http_request sample_platform sample_environ (sample_provider 0) Chat (JObj [])
      sample_context [] st1 = (Inr (Inl err2), note_failure sample_platform ?cfg
        (received rq2 (sample_reply 500 []) ([], 5 + 1000 + 1000) st1))"
    by (rule sample_failing_call [OF mid])
  show thesis
    by (rule that [of "[Inr (Inl err1), Inr (Inl err2)]" "note_failure sample_platform ?cfg
        (received rq2 (sample_reply 500 []) ([], 5 + 1000 + 1000) st1)"])
       (simp_all only: perform_all.simps 1 2 st1_def [symmetric] Let_def prod.case, simp_all add: note_failure_def)
qed

theorem breaker_opens_at_threshold_witness:
  "\<exists>st'. ps_world st' = ([], 2005) \<and>
     perform_http_request sample_platform sample_environ (sample_provider 0) Chat (JObj []) sample_context []
       (st'\<lparr>ps_world := ([], 3000)\<rparr>) =
     (Inr (Inl (make_circuit_open_error sample_platform (pv_config (sample_provider 0)) sample_context)),
      st'\<lparr>ps_world := ([], 3000)\<rparr>)"
proof -
  obtain outs st' where run: "perform_all sample_platform sample_environ (sample_provider 0)
      [sample_call, sample_call] (sample_pstate [sample_reply 500 [], sample_reply 500 []] breaker_closed) =
      (outs, st')" and failed: "list_all failed outs" and w: "ps_world st' = ([], 2005)"
    by (rule sample_two_failures)
  have "perform_http_request sample_platform sample_environ (sample_provider 0) Chat (JObj []) sample_context []
       (st'\<lparr>ps_world := ([], 3000)\<rparr>) =
     (Inr (Inl (make_circuit_open_error sample_platform (pv_config (sample_provider 0)) sample_context)),
      st'\<lparr>ps_world := ([], 3000)\<rparr>)"
    using breaker_opens_at_threshold [OF sample_ready sample_sane sample_jitter _ _ _ run failed,
        of "([], 3000)" Chat "JObj []" sample_context "[]"] w
    by (simp add: sample_provider_def sample_platform_def sample_pstate_def provider_config_default_def)
  then show ?thesis using w by blast
qed

theorem breaker_refuses_only_at_threshold_witness:
  "(let s = \<lparr> bs_breaker = breaker_closed, bs_now = 1, bs_in_flight = 0 \<rparr>; cfg = provider_config_default
    in if breaker_admit 1 (bs_breaker s) = None
    then pc_breaker_threshold cfg \<le> br_failures (bs_breaker s) \<and>
      1 < bs_now s + pc_breaker_cooldown cfg * 1000000
    else br_open_until (bs_breaker s) \<noteq> 0 \<or>
      br_failures (bs_breaker s) < pc_breaker_threshold cfg \<or> br_failures (bs_breaker s) = 0)"
  using breaker_refuses_only_at_threshold [of provider_config_default
      "\<lparr> bs_breaker = breaker_closed, bs_now = 1, bs_in_flight = 0 \<rparr>", OF _ _ rtranclp.rtrancl_refl, of 1]
  by (simp add: breaker_start_def provider_config_default_def breaker_admit_def breaker_closed_def)

theorem credential_always_sent_witness:
  "header_get sample_platform (build_headers sample_platform sample_environ
     (provider_config_default\<lparr>pc_default_headers := [(''authorization'', ''stolen'')]\<rparr>)
     BearerAuthorization ''secret'' sample_context) ''Authorization'' = Some ''Bearer secret''"
  using credential_always_sent [of sample_platform BearerAuthorization "''secret''" "''Authorization''"
      "''Bearer secret''"]
  by (simp add: sample_platform_def)

theorem malformed_usage_escapes_witness:
  "\<exists>rq. perform_json_operation sample_platform sample_environ (sample_provider 0) Chat (JObj []) sample_context []
      (sample_pstate [sample_reply 200 ''u''] breaker_closed) =
    (Inl (LogicError ''isMember''),
     (sample_pstate [sample_reply 200 ''u''] breaker_closed)
       \<lparr>ps_world := ([], 1005), ps_log := [Sent rq (sample_reply 200 ''u'')]\<rparr>)"
proof -
  have "extract_usage sample_js (JObj [(''usage'', JStr ''x'')]) = Inl (LogicError ''isMember'')"
    by (simp add: extract_usage_def token_count_def sample_js_def)
  then show ?thesis
    using malformed_usage_escapes [of sample_environ "sample_provider 0" "''secret''" sample_platform
        "sample_pstate [sample_reply 200 ''u''] breaker_closed" breaker_closed Chat "JObj []"
        sample_context "[]" "sample_reply 200 ''u''" "([], 1005)" "JObj [(''usage'', JStr ''x'')]"
        "LogicError ''isMember''", OF sample_ready]
    by (simp add: breaker_admit_def breaker_closed_def sample_platform_def sample_pstate_def
        sample_reply_def sample_parse_def sample_js_def)
qed

lemma sample_success:
  obtains st' where
    "perform_http_request sample_platform sample_environ (sample_provider 0) Chat (JObj []) sample_context []
       (sample_pstate [sample_reply 200 ''{}''] breaker_closed) =
     (Inr (Inr \<lparr> jr_payload = JObj [], jr_usage = missing_usage, jr_request_id = [] \<rparr>), st')"
proof -
  let ?st = "sample_pstate [sample_reply 200 ''{}''] breaker_closed"
  let ?rq = "request_of sample_platform sample_environ (sample_provider 0) ''secret'' Chat (JObj []) sample_context []"
  let ?cfg = "pv_config (sample_provider 0)"
  have admit: "breaker_admit (pl_now sample_platform (ps_world ?st)) (ps_breaker ?st) = Some (ps_breaker ?st)"
    by (simp add: breaker_admit_def sample_pstate_def breaker_closed_def)
  have "pl_perform sample_platform ?rq (ps_world ?st) = (sample_reply 200 ''{}'', [], 1005)"
    by (simp add: sample_platform_def sample_pstate_def)
  moreover have "classify sample_platform ?cfg sample_context (sample_reply 200 ''{}'') =
      Inr (Success \<lparr> jr_payload = JObj [], jr_usage = missing_usage, jr_request_id = [] \<rparr>)"
    by (simp add: classify_def extract_usage_def extract_request_id_def List.map_filter_simps
        sample_platform_def sample_js_def sample_parse_def sample_reply_def)
  moreover have "\<not> should_retry (sample_reply 200 ''{}'')"
    by (simp add: should_retry_def sample_reply_def)
  moreover have "pc_max_retries ?cfg = 0" by (simp add: sample_provider_def)
  ultimately show thesis
    using that request_loop_stop [of 0 ?cfg sample_platform ?rq ?st "sample_reply 200 ''{}''"
        "([], 1005)" sample_context "empty_error sample_platform"]
    by (simp add: perform_admitted [OF sample_ready admit])
qed

lemma sample_json_success:
  obtains p st' where
    "perform_json_operation sample_platform sample_environ (sample_provider 0) Chat (JObj []) sample_context []
       (sample_pstate [sample_reply 200 ''{}''] breaker_closed) =
     (Inr (Inr \<lparr> jr_payload = p, jr_usage = missing_usage, jr_request_id = [] \<rparr>), st')"
proof -
  obtain st' where "perform_http_request sample_platform sample_environ (sample_provider 0) Chat (JObj [])
      sample_context [] (sample_pstate [sample_reply 200 ''{}''] breaker_closed) =
     (Inr (Inr \<lparr> jr_payload = JObj [], jr_usage = missing_usage, jr_request_id = [] \<rparr>), st')"
    by (rule sample_success)
  moreover obtain p where "finish_json_operation sample_js Chat
      \<lparr> jr_payload = JObj [], jr_usage = missing_usage, jr_request_id = [] \<rparr> =
      Inr \<lparr> jr_payload = p, jr_usage = missing_usage, jr_request_id = [] \<rparr>"
    by (simp add: finish_json_operation_def transform_response_def extract_usage_def ensure_usage_def
        has_object_def usage_json_def note_usage_def missing_usage_def sample_js_def)
  ultimately show thesis
    using that by (simp add: perform_json_operation_def transform_request_def sample_platform_def)
qed

theorem json_operation_carries_usage_witness:
  "\<exists>p st'. perform_json_operation sample_platform sample_environ (sample_provider 0) Chat (JObj [])
      sample_context [] (sample_pstate [sample_reply 200 ''{}''] breaker_closed) =
    (Inr (Inr \<lparr> jr_payload = p, jr_usage = missing_usage, jr_request_id = [] \<rparr>), st') \<and>
    has_object sample_js p ''usage'' = Inr True"
proof -
  have js: "pl_json sample_platform = sample_js" by (simp add: sample_platform_def)
  obtain st' where "perform_http_request sample_platform sample_environ (sample_provider 0) Chat (JObj [])
      sample_context [] (sample_pstate [sample_reply 200 ''{}''] breaker_closed) =
     (Inr (Inr \<lparr> jr_payload = JObj [], jr_usage = missing_usage, jr_request_id = [] \<rparr>), st')"
    by (rule sample_success)
  moreover have "extract_usage sample_js (JObj []) = Inr missing_usage" "js_is_object sample_js (JObj [])"
    by (simp_all add: extract_usage_def sample_js_def)
  ultimately show ?thesis
    using json_operation_carries_usage [of sample_platform "\<lparr> jr_payload = JObj [],
        jr_usage = missing_usage, jr_request_id = [] \<rparr>" missing_usage] sample_json_laws
    by (fastforce simp: js)
qed

end
