(* ===== verification/Provider_Registry.thy ===== *)
theory Provider_Registry
  imports Provider_Calls
begin

text \<open>
  The gateway of \<^verbatim>\<open>SuperAPI._server/src/providers.cpp\<close>: the provider configuration read from the
  YAML file with its environment references, the registry of providers, the route table, and
  the two request handlers (per company, and the shared xai route with its vendor parameter).
  YAML nodes are the type parameter of \<open>yaml_lib\<close>; an incoming request is the record of what the
  handlers read from it. What a handler writes to an event stream is the list of operations on it;
  what becomes of them is the subject of the theory of event streams.
\<close>

section \<open>Configuration values\<close>

text \<open>
  \<open>ya_defined\<close> is the conversion of a node to bool, \<open>ya_text\<close> is \<open>as<std::string>("")\<close>, \<open>ya_get\<close>
  is \<open>operator[]\<close> of a constant node (an exception on a scalar), \<open>ya_size\<close> is
  \<open>as<std::size_t>(fallback)\<close>.
\<close>

record 'y yaml_lib =
  ya_defined :: "'y \<Rightarrow> bool"
  ya_is_scalar :: "'y \<Rightarrow> bool"
  ya_is_map :: "'y \<Rightarrow> bool"
  ya_text :: "'y \<Rightarrow> string"
  ya_get :: "'y \<Rightarrow> string \<Rightarrow> 'y res"
  ya_entries :: "'y \<Rightarrow> ('y \<times> 'y) list"
  ya_size :: "'y \<Rightarrow> nat \<Rightarrow> nat res"

definition expand_scalar :: "environ \<Rightarrow> string \<Rightarrow> string" where
  "expand_scalar env text =
     (if 3 \<le> length text \<and> take 2 text = ''${'' \<and> last text = CHR ''}'' then
        (let inner = take (length text - 3) (drop 2 text);
             delim = find_sub '':-'' inner;
             env_key = (case delim of None \<Rightarrow> inner | Some i \<Rightarrow> take i inner);
             default_value = (case delim of None \<Rightarrow> [] | Some i \<Rightarrow> drop (i + 2) inner)
         in case get_env env env_key of
              Some v \<Rightarrow> if v \<noteq> [] then v else default_value
            | None \<Rightarrow> default_value)
      else text)"

definition resolve_scalar :: "'y yaml_lib \<Rightarrow> environ \<Rightarrow> 'y \<Rightarrow> string" where
  "resolve_scalar ya env node =
     (if \<not> ya_defined ya node \<or> \<not> ya_is_scalar ya node then [] else expand_scalar env (ya_text ya node))"

text \<open>\<open>emplace\<close> keeps the first value of a repeated key.\<close>

definition add_header :: "string \<Rightarrow> string \<Rightarrow> headers \<Rightarrow> headers" where
  "add_header k v h = (if k = [] \<or> map_of h k \<noteq> None then h else h @ [(k, v)])"

definition parse_headers :: "'y yaml_lib \<Rightarrow> environ \<Rightarrow> 'y \<Rightarrow> headers" where
  "parse_headers ya env node =
     (if \<not> ya_defined ya node \<or> \<not> ya_is_map ya node then []
      else fold (\<lambda>(k, v). add_header (ya_text ya k) (resolve_scalar ya env v)) (ya_entries ya node) [])"

definition parse_duration :: "'y yaml_lib \<Rightarrow> environ \<Rightarrow> 'y \<Rightarrow> int \<Rightarrow> int" where
  "parse_duration ya env node fallback =
     (if \<not> ya_defined ya node then fallback
      else let scalar = resolve_scalar ya env node
      in if scalar = [] then fallback
      else case stoll scalar of Inr v \<Rightarrow> v | Inl _ \<Rightarrow> fallback)"

definition parse_count :: "'y yaml_lib \<Rightarrow> environ \<Rightarrow> 'y \<Rightarrow> nat \<Rightarrow> nat" where
  "parse_count ya env node fallback =
     (if \<not> ya_defined ya node then fallback
      else if ya_is_scalar ya node then
        (let scalar = resolve_scalar ya env node
         in if scalar = [] then fallback
         else case stoull scalar of Inr v \<Rightarrow> v | Inl _ \<Rightarrow> fallback)
      else case ya_size ya node fallback of Inr v \<Rightarrow> v | Inl _ \<Rightarrow> fallback)"

definition build_config :: "'y yaml_lib \<Rightarrow> environ \<Rightarrow> string \<Rightarrow> 'y \<Rightarrow> bool \<Rightarrow> provider_config res" where
  "build_config ya env key node dry_run =
     (let cfg = provider_config_default\<lparr>pc_name := key, pc_dry_run := dry_run\<rparr>;
          field = ya_get ya node
      in if \<not> ya_defined ya node then Inr cfg
      else
        bindE (field ''base_url'') (\<lambda>n. let cfg = cfg\<lparr>pc_base_url := resolve_scalar ya env n\<rparr> in
        bindE (field ''api_key_env'') (\<lambda>n. let cfg = cfg\<lparr>pc_api_key_env := resolve_scalar ya env n\<rparr> in
        bindE (field ''organization_env'') (\<lambda>n. let cfg = cfg\<lparr>pc_organization_env := resolve_scalar ya env n\<rparr> in
        bindE (field ''default_headers'') (\<lambda>n. let cfg = cfg\<lparr>pc_default_headers := parse_headers ya env n\<rparr> in
        bindE (field ''max_retries'') (\<lambda>n. let cfg = cfg\<lparr>pc_max_retries := parse_count ya env n (pc_max_retries cfg)\<rparr> in
        bindE (field ''base_backoff_ms'') (\<lambda>n. let cfg = cfg\<lparr>pc_base_backoff := parse_duration ya env n (pc_base_backoff cfg)\<rparr> in
        bindE (field ''max_backoff_ms'') (\<lambda>n. let cfg = cfg\<lparr>pc_max_backoff := parse_duration ya env n (pc_max_backoff cfg)\<rparr> in
        bindE (field ''timeout_ms'') (\<lambda>n. let cfg = cfg\<lparr>pc_timeout := parse_duration ya env n (pc_timeout cfg)\<rparr> in
        bindE (field ''connect_timeout_ms'') (\<lambda>n. let cfg = cfg\<lparr>pc_connect_timeout := parse_duration ya env n (pc_connect_timeout cfg)\<rparr> in
        bindE (field ''circuit_breaker_threshold'') (\<lambda>n. let cfg = cfg\<lparr>pc_breaker_threshold := parse_count ya env n (pc_breaker_threshold cfg)\<rparr> in
        bindE (field ''circuit_breaker_cooldown_ms'') (\<lambda>n. Inr (cfg\<lparr>pc_breaker_cooldown := parse_duration ya env n (pc_breaker_cooldown cfg)\<rparr>)))))))))))))"

section \<open>The registry\<close>

named_theorems provider_classes

text \<open>The constructors of the provider classes, \<^verbatim>\<open>src/providers/*Provider.cpp\<close>.\<close>

definition openai_provider :: "provider_config \<Rightarrow> provider" where [provider_classes]:
  "openai_provider config = \<lparr> pv_config = config, pv_auth = BearerAuthorization \<rparr>"

definition anthropic_provider :: "provider_config \<Rightarrow> provider" where [provider_classes]:
  "anthropic_provider config = \<lparr> pv_config = config, pv_auth = XApiKey \<rparr>"

definition xai_provider :: "provider_config \<Rightarrow> provider" where [provider_classes]:
  "xai_provider config = \<lparr> pv_config = config, pv_auth = BearerAuthorization \<rparr>"

definition perplexity_provider :: "provider_config \<Rightarrow> provider" where [provider_classes]:
  "perplexity_provider config = \<lparr> pv_config = config, pv_auth = BearerAuthorization \<rparr>"

definition lama_provider :: "provider_config \<Rightarrow> provider" where [provider_classes]:
  "lama_provider config = \<lparr> pv_config = config, pv_auth = BearerAuthorization \<rparr>"

definition vertex_provider :: "provider_config \<Rightarrow> provider" where [provider_classes]:
  "vertex_provider config = \<lparr> pv_config = config, pv_auth = BearerAuthorization \<rparr>"

definition gemini_provider :: "provider_config \<Rightarrow> provider" where [provider_classes]:
  "gemini_provider config = \<lparr> pv_config = config, pv_auth = XGoogApiKey \<rparr>"

definition huggingface_provider :: "provider_config \<Rightarrow> provider" where [provider_classes]:
  "huggingface_provider config = \<lparr> pv_config = config, pv_auth = BearerAuthorization \<rparr>"

definition openrouter_provider :: "provider_config \<Rightarrow> provider" where [provider_classes]:
  "openrouter_provider config = \<lparr> pv_config = config, pv_auth = BearerAuthorization \<rparr>"

definition agentrouter_provider :: "provider_config \<Rightarrow> provider" where [provider_classes]:
  "agentrouter_provider config = \<lparr> pv_config = config, pv_auth = BearerAuthorization \<rparr>"

definition deepseek_provider :: "provider_config \<Rightarrow> provider" where [provider_classes]:
  "deepseek_provider config = \<lparr> pv_config = config, pv_auth = BearerAuthorization \<rparr>"

definition qwen_provider :: "provider_config \<Rightarrow> provider" where [provider_classes]:
  "qwen_provider config = \<lparr> pv_config = config, pv_auth = BearerAuthorization \<rparr>"

definition zhipu_provider :: "provider_config \<Rightarrow> provider" where [provider_classes]:
  "zhipu_provider config = \<lparr> pv_config = config, pv_auth = BearerAuthorization \<rparr>"

definition minimax_provider :: "provider_config \<Rightarrow> provider" where [provider_classes]:
  "minimax_provider config = \<lparr> pv_config = config, pv_auth = BearerAuthorization \<rparr>"

definition factories :: "(string \<times> (provider_config \<Rightarrow> provider)) list" where
  "factories =
     [(''openai'', openai_provider), (''anthropic'', anthropic_provider), (''xai'', xai_provider),
      (''perplexity'', perplexity_provider), (''lama'', lama_provider), (''vertex'', vertex_provider),
      (''gemini'', gemini_provider), (''huggingface'', huggingface_provider), (''openrouter'', openrouter_provider),
      (''agentrouter'', agentrouter_provider), (''deepseek'', deepseek_provider), (''qwen'', qwen_provider),
      (''zhipu'', zhipu_provider), (''minimax'', minimax_provider)]"

record 'w gateway =
  gw_providers :: "(string \<times> provider \<times> breaker) list"
  gw_world :: 'w
  gw_log :: "effect list"

fun create_providers ::
  "'y yaml_lib \<Rightarrow> environ \<Rightarrow> 'y \<Rightarrow> bool \<Rightarrow> (string \<times> (provider_config \<Rightarrow> provider)) list \<Rightarrow>
   (string \<times> provider \<times> breaker) list \<Rightarrow> (string \<times> provider \<times> breaker) list res" where
  "create_providers ya env node dry_run [] ps = Inr ps"
| "create_providers ya env node dry_run ((key, factory) # fs) ps =
     bindE (ya_get ya node key) (\<lambda>n.
     bindE (build_config ya env key n dry_run) (\<lambda>cfg.
       create_providers ya env node dry_run fs
         (al_set key (factory cfg, breaker_closed) ps)))"

text \<open>The file is \<open>None\<close> when it cannot be loaded; the result is the new content of the registry.\<close>

definition initialize ::
  "'y yaml_lib \<Rightarrow> environ \<Rightarrow> 'y option \<Rightarrow> bool \<Rightarrow> (string \<times> provider \<times> breaker) list res" where
  "initialize ya env raw dry_run =
     (case raw of
        None \<Rightarrow> Inr []
      | Some config \<Rightarrow>
          bindE (ya_get ya config ''providers'') (\<lambda>node.
            if \<not> ya_defined ya node \<or> \<not> ya_is_map ya node then Inr []
            else create_providers ya env node dry_run factories []))"

definition get_provider :: "'w gateway \<Rightarrow> string \<Rightarrow> (provider \<times> breaker) option" where
  "get_provider gw key = map_of (gw_providers gw) key"

section \<open>Payloads\<close>

text \<open>Assignments to the members of a fresh object.\<close>

definition json_obj :: "'j json_lib \<Rightarrow> (string \<times> 'j) list \<Rightarrow> 'j" where
  "json_obj js kvs =
     fold (\<lambda>(k, x) v. case js_set js v k x of Inr v' \<Rightarrow> v' | Inl _ \<Rightarrow> v) kvs (js_object js)"

definition build_error_payload :: "('j, 'd, 'w) platform \<Rightarrow> 'd provider_error \<Rightarrow> 'j" where
  "build_error_payload pl err =
     (let js = pl_json pl; text = js_of_string js
      in json_obj js [(''error'', json_obj js
           [(''type'', text (pe_type err)), (''message'', text (pe_message err)),
            (''provider'', text (pe_provider err)), (''code'', text (pe_code err)),
            (''request_id'', text (pe_request_id err)),
            (''retry_after'', pl_json_double pl (pe_retry_after err))])])"

definition status_from_error_type :: "'d provider_error \<Rightarrow> int" where
  "status_from_error_type err =
     (let lowered = to_lower (pe_type err)
      in if lowered = ''auth_error'' then 401
         else if lowered = ''validation_error'' then 400
         else if lowered = ''dry_run'' then 503
         else if lowered = ''provider_unavailable'' \<or> lowered = ''circuit_open'' then 503
         else 502)"

definition usage_to_json :: "'j json_lib \<Rightarrow> usage \<Rightarrow> 'j" where
  "usage_to_json js u =
     json_obj js
       ([(''prompt_tokens'', js_of_u64 js (us_prompt u)),
         (''completion_tokens'', js_of_u64 js (us_completion u)),
         (''total_tokens'', js_of_u64 js (us_total u)),
         (''audio_tokens'', js_of_u64 js (us_audio u)),
         (''cached_tokens'', js_of_u64 js (us_cached u))] @
        (if us_note u \<noteq> [] then [(''note'', js_of_string js (us_note u))] else []))"

section \<open>Requests and replies\<close>

text \<open>
  \<open>gr_request_id\<close> is what the attribute of the middleware gives (\<open>None\<close> without attributes or when
  the read throws); a parameter or header that is absent is the empty string.
\<close>

record 'j gateway_request =
  gr_request_id :: "string option"
  gr_param :: "string \<Rightarrow> string"
  gr_header :: "string \<Rightarrow> string"
  gr_json :: "'j option"

definition resolve_request_id :: "'j gateway_request \<Rightarrow> string" where
  "resolve_request_id req =
     (case gr_request_id req of Some i \<Rightarrow> i | None \<Rightarrow> gr_header req ''X-Request-ID'')"

datatype stream_transport = NoStream | SseTransport | WebSocketTransport

definition parse_bool_string :: "string \<Rightarrow> bool" where
  "parse_bool_string v \<longleftrightarrow> v \<noteq> [] \<and> to_lower v \<in> {''1'', ''true'', ''yes''}"

definition transport_of :: "'j gateway_request \<Rightarrow> stream_transport" where
  "transport_of req =
     (let p = to_lower (gr_param req ''transport''); accept = to_lower (gr_header req ''Accept'')
      in if p = ''websocket'' \<or> p = ''ws'' then WebSocketTransport
         else if p = ''sse'' \<or> p = ''event-stream'' then SseTransport
         else if contains_sub ''text/event-stream'' accept then SseTransport
         else if contains_sub ''websocket'' accept then WebSocketTransport
         else SseTransport)"

text \<open>The transport, whether streaming was asked for, and the payload without its stream member.\<close>

definition resolve_transport ::
  "'j json_lib \<Rightarrow> 'j gateway_request \<Rightarrow> 'j \<Rightarrow> (stream_transport \<times> bool \<times> 'j) res" where
  "resolve_transport js req payload =
     bindE (js_member js payload ''stream'') (\<lambda>m.
     bindE (case m of
         None \<Rightarrow> Inr (False, payload)
       | Some node \<Rightarrow>
           bindE (js_remove js payload ''stream'') (\<lambda>payload.
             Inr (case js_as_bool js node of
                    Some b \<Rightarrow> b
                  | None \<Rightarrow> (case js_as_string js node of Some s \<Rightarrow> parse_bool_string s | None \<Rightarrow> False),
                  payload))) (\<lambda>(body_stream, payload).
       let requested = parse_bool_string (gr_param req ''stream'') \<or> body_stream
       in Inr (if requested then transport_of req else NoStream, requested, payload)))"

datatype 'j sse_op = SseEvent string 'j | SseClose

datatype 'j body = JsonBody 'j | StreamBody "'j sse_op list"

record 'j reply =
  re_status :: int
  re_headers :: headers
  re_body :: "'j body"

definition json_reply :: "int \<Rightarrow> headers \<Rightarrow> 'j \<Rightarrow> 'j reply" where
  "json_reply status h v = \<lparr> re_status = status, re_headers = h, re_body = JsonBody v \<rparr>"

definition retry_header :: "('j, 'd, 'w) platform \<Rightarrow> 'd provider_error \<Rightarrow> headers" where
  "retry_header pl err =
     (if pl_positive pl (pe_retry_after err) then [(''Retry-After'', pl_show pl (pe_retry_after err))] else [])"

definition sse_error_payload :: "'j json_lib \<Rightarrow> string \<Rightarrow> string \<Rightarrow> int \<Rightarrow> 'j" where
  "sse_error_payload js code message status =
     json_obj js
       ([(''type'', js_of_string js ''error''), (''code'', js_of_string js code),
         (''message'', js_of_string js message)] @
        (if status > 0 then [(''status'', js_of_int js status)] else []))"

definition respond_with_error :: "('j, 'd, 'w) platform \<Rightarrow> bool \<Rightarrow> 'd provider_error \<Rightarrow> 'j reply" where
  "respond_with_error pl streaming err =
     (let status = status_from_error_type err
      in if streaming then
           \<lparr> re_status = status, re_headers = retry_header pl err,
             re_body = StreamBody
               [SseEvent ''error'' (sse_error_payload (pl_json pl) (or_else (pe_code err) (pe_type err))
                  (pe_message err) status), SseClose] \<rparr>
         else json_reply status (retry_header pl err) (build_error_payload pl err))"

definition id_header :: "string \<Rightarrow> headers" where
  "id_header i = (if i \<noteq> [] then [(''X-Provider-Request-ID'', i)] else [])"

definition respond_with_payload ::
  "('j, 'd, 'w) platform \<Rightarrow> bool \<Rightarrow> 'j \<Rightarrow> usage \<Rightarrow> string \<Rightarrow> 'j reply" where
  "respond_with_payload pl streaming payload u i =
     (let js = pl_json pl
      in if streaming then
           \<lparr> re_status = 200, re_headers = id_header i,
             re_body = StreamBody
               [SseEvent ''delta'' (json_obj js [(''data'', payload)]),
                SseEvent ''done'' (json_obj js [(''payload'', json_obj js
                  ((''usage'', usage_to_json js u) #
                   (if i \<noteq> [] then [(''provider_request_id'', js_of_string js i)] else [])))]),
                SseClose] \<rparr>
         else json_reply 200 (id_header i) payload)"

section \<open>The handlers\<close>

definition gateway_error ::
  "('j, 'd, 'w) platform \<Rightarrow> string \<Rightarrow> string \<Rightarrow> string \<Rightarrow> string \<Rightarrow> string \<Rightarrow> 'd provider_error" where
  "gateway_error pl type message key code request_id =
     \<lparr> pe_type = type, pe_message = message, pe_provider = key, pe_code = code,
       pe_request_id = request_id, pe_retry_after = pl_zero pl \<rparr>"

fun invoke ::
  "('j, 'd, 'w) platform \<Rightarrow> environ \<Rightarrow> provider \<Rightarrow> provider_operation \<Rightarrow> 'j \<Rightarrow> string \<Rightarrow> request_context \<Rightarrow>
   'w provider_state \<Rightarrow> ('d, 'j \<times> usage \<times> string) outcome \<times> 'w provider_state" where
  "invoke pl env pv Chat payload job ctx st =
     map_outcome (\<lambda>r. (ur_payload r, ur_usage r, ur_request_id r)) (provider_chat pl env pv payload ctx st)"
| "invoke pl env pv Embeddings payload job ctx st =
     map_outcome (\<lambda>r. (ur_payload r, ur_usage r, ur_request_id r)) (provider_embeddings pl env pv payload ctx st)"
| "invoke pl env pv Images payload job ctx st =
     map_outcome (\<lambda>r. (pr_payload r, no_usage, pr_request_id r)) (provider_images pl env pv payload ctx st)"
| "invoke pl env pv Asr payload job ctx st =
     map_outcome (\<lambda>r. (ur_payload r, ur_usage r, ur_request_id r)) (provider_asr pl env pv payload ctx st)"
| "invoke pl env pv Tts payload job ctx st =
     map_outcome (\<lambda>r. (ur_payload r, ur_usage r, ur_request_id r)) (provider_tts pl env pv payload ctx st)"
| "invoke pl env pv Video payload job ctx st =
     map_outcome (\<lambda>r. (ur_payload r, ur_usage r, ur_request_id r)) (provider_video pl env pv payload ctx st)"
| "invoke pl env pv ListModels payload job ctx st =
     map_outcome (\<lambda>r. (pr_payload r, no_usage, pr_request_id r)) (provider_list_models pl env pv payload ctx st)"
| "invoke pl env pv Batches payload job ctx st =
     map_outcome (\<lambda>r. (pr_payload r, no_usage, pr_request_id r)) (provider_batches pl env pv payload ctx st)"
| "invoke pl env pv JobStatus payload job ctx st =
     map_outcome (\<lambda>r. (pr_payload r, no_usage, pr_request_id r)) (provider_job_status pl env pv job ctx st)"

text \<open>
  What a handler leaves: the reply (an exception goes to the framework), the observability
  attributes it set on the request, and the state of the gateway.
\<close>

record 'j handled =
  ha_reply :: "'j reply res"
  ha_company :: "string option"
  ha_endpoint :: "string option"
  ha_tokens_out :: "u64 option"

definition run_provider ::
  "('j, 'd, 'w) platform \<Rightarrow> environ \<Rightarrow> string \<Rightarrow> string \<Rightarrow> provider \<times> breaker \<Rightarrow> provider_operation \<Rightarrow> 'j \<Rightarrow>
   string \<Rightarrow> request_context \<Rightarrow> bool \<Rightarrow> 'w gateway \<Rightarrow> 'j handled \<times> 'w gateway" where
  "run_provider pl env key route entry operation payload job ctx streaming gw =
     (let (pv, b) = entry;
          (out, st) = invoke pl env pv operation payload job ctx
            \<lparr> ps_breaker = b, ps_world = gw_world gw, ps_log = gw_log gw \<rparr>;
          gw = gw\<lparr>gw_providers := al_set key (pv, ps_breaker st) (gw_providers gw),
                  gw_world := ps_world st, gw_log := ps_log st\<rparr>;
          handled = \<lambda>reply tokens. \<lparr> ha_reply = reply, ha_company = Some key, ha_endpoint = Some route,
                                     ha_tokens_out = tokens \<rparr>
      in case out of
           Inl ex \<Rightarrow> (handled (Inl ex) None, gw)
         | Inr (Inl err) \<Rightarrow> (handled (Inr (respond_with_error pl streaming err)) None, gw)
         | Inr (Inr (p, u, i)) \<Rightarrow>
             (handled (Inr (respond_with_payload pl streaming p u i)) (Some (us_completion u)), gw))"

definition refuse ::
  "string option \<Rightarrow> string option \<Rightarrow> 'j reply \<Rightarrow> 'w gateway \<Rightarrow> 'j handled \<times> 'w gateway" where
  "refuse company route r gw =
     (\<lparr> ha_reply = Inr r, ha_company = company, ha_endpoint = route, ha_tokens_out = None \<rparr>, gw)"

definition not_configured :: "('j, 'd, 'w) platform \<Rightarrow> string \<Rightarrow> string \<Rightarrow> 'j reply" where
  "not_configured pl key request_id =
     json_reply 503 [] (build_error_payload pl
       (gateway_error pl ''provider_error'' ''Provider is not configured.'' key
          ''provider_not_configured'' request_id))"

definition missing_job_id :: "('j, 'd, 'w) platform \<Rightarrow> string \<Rightarrow> string \<Rightarrow> 'd provider_error" where
  "missing_job_id pl key request_id =
     gateway_error pl ''validation_error'' (''Missing required path parameter '' @ [CHR 0x27] @ ''id'' @ [CHR 0x27] @ ''.'')
       key ''missing_job_id'' request_id"

definition invalid_body :: "('j, 'd, 'w) platform \<Rightarrow> string \<Rightarrow> string \<Rightarrow> 'd provider_error" where
  "invalid_body pl key request_id =
     gateway_error pl ''validation_error'' ''Request body must be valid JSON.'' key ''invalid_json'' request_id"

definition company_endpoint ::
  "('j, 'd, 'w) platform \<Rightarrow> environ \<Rightarrow> string \<Rightarrow> string \<Rightarrow> string \<Rightarrow> provider_operation \<Rightarrow>
   'j gateway_request \<Rightarrow> 'w gateway \<Rightarrow> 'j handled \<times> 'w gateway" where
  "company_endpoint pl env route_prefix key path_suffix operation req gw =
     (let rid = resolve_request_id req;
          ctx = \<lparr> rc_request_id = rid, rc_vendor = [] \<rparr>;
          route = ''/'' @ route_prefix @ ''/'' @ path_suffix;
          reject = refuse (Some key) (Some route)
      in case get_provider gw key of
           None \<Rightarrow> reject (not_configured pl key rid) gw
         | Some entry \<Rightarrow>
             if operation = JobStatus then
               (let job = gr_param req ''id''
                in if job = [] then reject (respond_with_error pl False (missing_job_id pl key rid)) gw
                else run_provider pl env key route entry operation (js_object (pl_json pl)) job ctx False gw)
             else if operation = ListModels then
               run_provider pl env key route entry operation (js_object (pl_json pl)) [] ctx False gw
             else (case gr_json req of
                 None \<Rightarrow> reject (respond_with_error pl False (invalid_body pl key rid)) gw
               | Some body \<Rightarrow>
                   (case resolve_transport (pl_json pl) req body of
                      Inl ex \<Rightarrow> (\<lparr> ha_reply = Inl ex, ha_company = Some key, ha_endpoint = Some route,
                                  ha_tokens_out = None \<rparr>, gw)
                    | Inr (transport, requested, payload) \<Rightarrow>
                        if requested \<and> transport = WebSocketTransport then
                          reject (json_reply 400 [] (build_error_payload pl
                            (gateway_error pl ''validation_error''
                               ''WebSocket streaming transport is not supported on this endpoint.''
                               key ''unsupported_transport'' rid))) gw
                        else run_provider pl env key route entry operation payload [] ctx
                               (requested \<and> transport = SseTransport) gw)))"

definition vendor_key :: "string \<Rightarrow> string option" where
  "vendor_key vendor =
     (if vendor = ''grok'' then Some ''xai'' else if vendor = ''zhipu'' then Some ''zhipu'' else None)"

definition xai_endpoint ::
  "('j, 'd, 'w) platform \<Rightarrow> environ \<Rightarrow> string \<Rightarrow> provider_operation \<Rightarrow> 'j gateway_request \<Rightarrow>
   'w gateway \<Rightarrow> 'j handled \<times> 'w gateway" where
  "xai_endpoint pl env path_suffix operation req gw =
     (let rid = resolve_request_id req;
          vendor = to_lower (or_else (gr_param req ''vendor'') (gr_header req ''X-Vendor''))
      in case vendor_key vendor of
           None \<Rightarrow> refuse None None (json_reply 400 [] (build_error_payload pl
             (gateway_error pl ''validation_error''
                (''vendor query parameter or X-Vendor header must be '' @ [CHR 0x27] @ ''grok'' @ [CHR 0x27] @
                 '' or '' @ [CHR 0x27] @ ''zhipu'' @ [CHR 0x27] @ ''.'')
                ''xai'' ''invalid_vendor'' rid))) gw
         | Some key \<Rightarrow>
             (let ctx = \<lparr> rc_request_id = rid, rc_vendor = vendor \<rparr>;
                  route = ''/xai/'' @ path_suffix;
                  reject = refuse (Some key) (Some route)
              in case get_provider gw key of
                   None \<Rightarrow> reject (not_configured pl key rid) gw
                 | Some entry \<Rightarrow>
                     if operation = JobStatus then
                       (let job = gr_param req ''id''
                        in if job = [] then reject (respond_with_error pl False (missing_job_id pl key rid)) gw
                        else run_provider pl env key route entry operation (js_object (pl_json pl)) job ctx False gw)
                     else if operation = ListModels then
                       run_provider pl env key route entry operation (js_object (pl_json pl)) [] ctx False gw
                     else (case gr_json req of
                         None \<Rightarrow> reject (respond_with_error pl False (invalid_body pl key rid)) gw
                       | Some payload \<Rightarrow>
                           run_provider pl env key route entry operation payload [] ctx False gw)))"

section \<open>The route table\<close>

datatype http_method = HttpGet | HttpPost

datatype route_target =
    CompanyRoute string string string provider_operation \<comment> \<open>prefix, provider, suffix\<close>
  | XaiRoute string provider_operation

type_synonym route = "string \<times> http_method \<times> route_target"

definition company_operations :: "(string \<times> provider_operation \<times> http_method) list" where
  "company_operations =
     [(''chat/completions'', Chat, HttpPost), (''embeddings'', Embeddings, HttpPost),
      (''images/generations'', Images, HttpPost), (''audio/transcriptions'', Asr, HttpPost),
      (''audio/speech'', Tts, HttpPost), (''video/generations'', Video, HttpPost),
      (''models'', ListModels, HttpGet), (''batches'', Batches, HttpPost),
      (''jobs/{id}'', JobStatus, HttpGet)]"

definition register_company :: "string \<Rightarrow> string \<Rightarrow> route list" where
  "register_company route_prefix key =
     map (\<lambda>(path_suffix, operation, verb).
       (''/'' @ route_prefix @ ''/'' @ path_suffix, verb, CompanyRoute route_prefix key path_suffix operation)) company_operations"

definition company_keys :: "string list" where
  "company_keys =
     [''openai'', ''anthropic'', ''perplexity'', ''lama'', ''vertex'', ''gemini'', ''huggingface'',
      ''openrouter'', ''agentrouter'', ''deepseek'', ''qwen'', ''minimax'']"

definition xai_operations :: "(string \<times> provider_operation) list" where
  "xai_operations =
     [(''chat/completions'', Chat), (''embeddings'', Embeddings), (''images/generations'', Images),
      (''audio/transcriptions'', Asr), (''audio/speech'', Tts), (''video/generations'', Video),
      (''models'', ListModels), (''batches'', Batches), (''jobs/{id}'', JobStatus)]"

definition register_routes :: "route list" where
  "register_routes =
     concat (map (\<lambda>key. register_company key key) company_keys) @
     map (\<lambda>(path_suffix, operation).
       (''/xai/'' @ path_suffix,
        if operation = ListModels \<or> operation = JobStatus then HttpGet else HttpPost,
        XaiRoute path_suffix operation)) xai_operations"

definition handle_route ::
  "('j, 'd, 'w) platform \<Rightarrow> environ \<Rightarrow> route_target \<Rightarrow> 'j gateway_request \<Rightarrow> 'w gateway \<Rightarrow>
   'j handled \<times> 'w gateway" where
  "handle_route pl env target req gw =
     (case target of
        CompanyRoute route_prefix key path_suffix operation \<Rightarrow> company_endpoint pl env route_prefix key path_suffix operation req gw
      | XaiRoute path_suffix operation \<Rightarrow> xai_endpoint pl env path_suffix operation req gw)"

section \<open>Environment references\<close>

lemma find_sub_separator:
  "CHR '':'' \<notin> set name \<Longrightarrow> find_sub '':-'' (name @ '':-'' @ d) = Some (length name)"
  by (induction name) auto

text \<open>A configuration scalar of the form \<open>${NAME:-default}\<close> is the value of the environment variable, and the
  default when the variable is unset or empty.\<close>

theorem env_reference_expands:
  assumes "CHR '':'' \<notin> set name"
  shows "expand_scalar env (''${'' @ name @ '':-'' @ d @ ''}'') = get_env_or_default env name d"
proof -
  let ?inner = "name @ '':-'' @ d"
  have "take (length ?inner) (?inner @ ''}'') = ?inner" by simp
  then show ?thesis
    using find_sub_separator [OF assms, of d]
    by (simp add: expand_scalar_def get_env_or_default_def Let_def split: option.split)
qed

theorem env_reference_expands_witness:
  "expand_scalar [''H'' \<mapsto> ''h1''] ''${H:-h2}'' = get_env_or_default [''H'' \<mapsto> ''h1''] ''H'' ''h2''"
  using env_reference_expands [of "''H''" "[''H'' \<mapsto> ''h1'']" "''h2''"] by simp

section \<open>A negative number of retries\<close>

lemma stoull_negative:
  "0 < n \<Longrightarrow> n < 2 ^ 64 \<Longrightarrow> stoull (CHR ''-'' # show_nat n) = Inr (2 ^ 64 - n)"
  using strto_neg_show_nat [of n] by (simp add: stoull_def)

lemma parse_count_negative:
  assumes "ya_defined ya node" "ya_is_scalar ya node" "ya_text ya node = CHR ''-'' # show_nat n"
    and "0 < n" "n < 2 ^ 64"
  shows "parse_count ya env node fallback = 2 ^ 64 - n"
proof -
  have "resolve_scalar ya env node = CHR ''-'' # show_nat n"
    using assms(1-3) by (cases "show_nat n") (simp_all add: resolve_scalar_def expand_scalar_def)
  then show ?thesis
    using assms stoull_negative [OF assms(4,5)] by (simp add: parse_count_def)
qed

lemma compute_backoff_error: "compute_backoff pl base m attempt w = Inl ex \<Longrightarrow> \<exists>t. ex = UB t"
  by (auto simp: compute_backoff_def Let_def split: if_splits prod.splits)

lemma endless_retries:
  assumes "\<And>w. should_retry (fst (pl_perform pl rq w))" and "64 < pc_max_retries cfg"
  shows "attempt + n = 64 \<Longrightarrow> \<exists>t. fst (request_loop pl cfg ctx rq attempt err st) = Inl (UB t)"
proof (induction n arbitrary: attempt err st)
  case 0
  obtain resp w where p: "pl_perform pl rq (ps_world st) = (resp, w)"
    by (cases "pl_perform pl rq (ps_world st)")
  have r: "should_retry resp" using assms(1) [of "ps_world st"] p by simp
  have lt: "attempt < pc_max_retries cfg" using 0 assms(2) by simp
  show ?case
    using request_loop_backoff_error [OF lt p r] 0 by (simp add: compute_backoff_def)
next
  case (Suc n)
  obtain resp w where p: "pl_perform pl rq (ps_world st) = (resp, w)"
    by (cases "pl_perform pl rq (ps_world st)")
  have r: "should_retry resp" using assms(1) [of "ps_world st"] p by simp
  have lt: "attempt < pc_max_retries cfg" using Suc.prems assms(2) by simp
  show ?case
  proof (cases "compute_backoff pl (pc_base_backoff cfg) (pc_max_backoff cfg) attempt w")
    case (Inl ex)
    then show ?thesis
      using compute_backoff_error [OF Inl] request_loop_backoff_error [OF lt p r Inl] by metis
  next
    case (Inr dw)
    obtain d w' where dw: "dw = (d, w')" by (cases dw)
    have next_attempt: "attempt + 1 + n = 64" using Suc.prems by simp
    show ?thesis
      using request_loop_retry [OF lt p r, of d w' ctx err] Inr dw Suc.IH [OF next_attempt] by metis
  qed
qed

text \<open>C37. A negative \<open>max_retries\<close> in the configuration is read as a number near \<open>2 ^ 64\<close>: against an upstream that
  keeps failing transiently the call never reports its failure but ends in the undefined
  shift (or product) of the backoff.\<close>

theorem negative_retries_undefined_backoff:
  assumes "ya_defined ya node" "ya_is_scalar ya node" "ya_text ya node = CHR ''-'' # show_nat n"
    and "0 < n" and "n \<le> 2 ^ 63"
    and "pc_max_retries (pv_config pv) = parse_count ya env node fallback"
    and "request_ready env (pv_config pv) key"
    and "breaker_admit (pl_now pl (ps_world st)) (ps_breaker st) = Some b"
    and "\<forall>rq w. should_retry (fst (pl_perform pl rq w))"
  shows "\<exists>t. fst (perform_http_request pl env pv operation payload ctx rid st) = Inl (UB t)"
proof -
  have "n < 2 ^ 64" using assms(5) by (rule le_less_trans) simp
  then have "pc_max_retries (pv_config pv) = 2 ^ 64 - n"
    using parse_count_negative [OF assms(1-4)] assms(6) by simp
  then have "64 < pc_max_retries (pv_config pv)" using assms(5) by simp
  then show ?thesis
    unfolding perform_admitted [OF assms(7,8)]
    by (rule endless_retries [rotated]) (use assms(9) in auto)
qed

definition sample_ya :: "string yaml_lib" where
  "sample_ya = \<lparr> ya_defined = (\<lambda>_. True), ya_is_scalar = (\<lambda>_. True), ya_is_map = (\<lambda>_. False),
     ya_text = (\<lambda>s. s), ya_get = (\<lambda>_ _. Inl (RuntimeError ''bad subscript'')), ya_entries = (\<lambda>_. []),
     ya_size = (\<lambda>_ n. Inr n) \<rparr>"

theorem negative_retries_undefined_backoff_witness:
  "\<exists>t. fst (perform_http_request (sample_platform\<lparr>pl_perform := \<lambda>rq w. (sample_reply 503 [], w)\<rparr>) sample_environ
      (sample_provider (parse_count sample_ya sample_environ ''-1'' 3)) Chat (JObj []) sample_context []
      (sample_pstate [] breaker_closed)) = Inl (UB t)"
  by (rule negative_retries_undefined_backoff [of sample_ya "''-1''" 1, OF _ _ _ _ _ _ sample_ready])
     (simp_all add: sample_ya_def show_nat.simps digit_chars sample_provider_def breaker_admit_def
       breaker_closed_def sample_pstate_def should_retry_def sample_reply_def)

section \<open>The registry after start-up\<close>

lemma al_set_new: "k \<notin> fst ` set m \<Longrightarrow> al_set k v m = m @ [(k, v)]"
  by (induction k v m rule: al_set.induct) auto

lemma al_set_same: "map_of m k = Some v \<Longrightarrow> al_set k v m = m"
  by (induction k v m rule: al_set.induct) (auto split: if_splits)

lemma bindE_cfg: "bindE m (\<lambda>n. f n) = Inr c \<Longrightarrow> \<exists>n. m = Inr n \<and> f n = Inr c"
  by (cases m) auto

lemma build_config_name:
  "build_config ya env key node dry_run = Inr cfg \<Longrightarrow> pc_name cfg = key \<and> pc_dry_run cfg = dry_run"
  by (auto simp: build_config_def Let_def bindE_Inr_iff split: if_splits)

text \<open>The entry of a factory: it is made from the section of its key.\<close>

definition fresh_entry ::
  "'y yaml_lib \<Rightarrow> environ \<Rightarrow> 'y \<Rightarrow> bool \<Rightarrow> string \<times> (provider_config \<Rightarrow> provider) \<Rightarrow> string \<times> provider \<times> breaker \<Rightarrow> bool" where
  "fresh_entry ya env node dry_run f e \<longleftrightarrow>
     (case (f, e) of ((key, factory), (key', pv, b)) \<Rightarrow>
        key' = key \<and> b = breaker_closed \<and>
        (\<exists>n cfg. ya_get ya node key = Inr n \<and> build_config ya env key n dry_run = Inr cfg \<and> pv = factory cfg))"

lemma create_providers_fresh:
  "create_providers ya env node dry_run fs ps = Inr ps' \<Longrightarrow> distinct (map fst fs) \<Longrightarrow>
   fst ` set ps \<inter> fst ` set fs = {} \<Longrightarrow>
   \<exists>qs. ps' = ps @ qs \<and> list_all2 (fresh_entry ya env node dry_run) fs qs"
proof (induction ya env node dry_run fs ps rule: create_providers.induct)
  case (2 ya env node dry_run key factory fs ps)
  from "2.prems"(1) obtain n cfg where n: "ya_get ya node key = Inr n"
    and cfg: "build_config ya env key n dry_run = Inr cfg"
    and rest: "create_providers ya env node dry_run fs (al_set key (factory cfg, breaker_closed) ps) = Inr ps'"
    by (auto simp: bindE_Inr_iff)
  let ?e = "(key, factory cfg, breaker_closed)"
  have new: "al_set key (snd ?e) ps = ps @ [?e]"
    using "2.prems"(3) by (auto intro: al_set_new)
  obtain qs where "ps' = (ps @ [?e]) @ qs" "list_all2 (fresh_entry ya env node dry_run) fs qs"
    using "2.IH" [OF rest] "2.prems"(2,3) new by auto
  moreover have "fresh_entry ya env node dry_run (key, factory) ?e"
    using n cfg by (simp add: fresh_entry_def)
  ultimately show ?case by (intro exI [of _ "?e # qs"]) simp
qed simp

lemma factory_config: "(key, factory) \<in> set factories \<Longrightarrow> pv_config (factory cfg) = cfg"
  by (auto simp: factories_def provider_classes)

lemma initialize_fresh:
  assumes "ya_get ya config ''providers'' = Inr node" and "ya_defined ya node" and "ya_is_map ya node"
    and "initialize ya env (Some config) dry_run = Inr ps"
  shows "list_all2 (fresh_entry ya env node dry_run) factories ps"
proof -
  have "distinct (map fst factories)" by (simp add: factories_def)
  then show ?thesis
    using assms create_providers_fresh [of ya env node dry_run factories "[]" ps]
    by (simp add: initialize_def)
qed

lemma list_all2_in_set2: "list_all2 P xs ys \<Longrightarrow> y \<in> set ys \<Longrightarrow> \<exists>x \<in> set xs. P x y"
  by (induction rule: list_all2_induct) auto

text \<open>After start-up with a readable provider file the registry holds the fourteen providers of the
  factory table, in its order, each of its own class, with a closed breaker and the configuration that is read from the section of its key
  (the defaults when the file has none), under its own name and with the dry-run flag of the server.\<close>

theorem initialize_configures_all:
  assumes "ya_get ya config ''providers'' = Inr node" and "ya_defined ya node" and "ya_is_map ya node"
    and "initialize ya env (Some config) dry_run = Inr ps"
  shows "list_all2 (fresh_entry ya env node dry_run) factories ps \<and>
    (\<forall>(key, pv, b) \<in> set ps. pc_name (pv_config pv) = key \<and> pc_dry_run (pv_config pv) = dry_run)"
proof -
  have fresh: "list_all2 (fresh_entry ya env node dry_run) factories ps"
    using assms by (intro initialize_fresh)
  have "pc_name (pv_config pv) = key \<and> pc_dry_run (pv_config pv) = dry_run" if e: "(key, pv, b) \<in> set ps" for key pv b
  proof -
    obtain f where f: "f \<in> set factories" "fresh_entry ya env node dry_run f (key, pv, b)"
      using list_all2_in_set2 [OF fresh e] by blast
    obtain k factory where "f = (k, factory)" by fastforce
    then show ?thesis
      using f factory_config [of k factory] build_config_name by (fastforce simp: fresh_entry_def)
  qed
  then show ?thesis
    using fresh by blast
qed

definition sample_map_ya :: "string yaml_lib" where
  "sample_map_ya = sample_ya\<lparr>ya_defined := \<lambda>s. s \<noteq> [], ya_is_map := \<lambda>s. s = ''{'',
     ya_get := \<lambda>s k. Inr (if k = ''providers'' then ''{'' else [])\<rparr>"

theorem initialize_configures_all_witness:
  "\<exists>ps. initialize sample_map_ya sample_environ (Some ''{'') True = Inr ps \<and>
     list_all2 (fresh_entry sample_map_ya sample_environ ''{'' True) factories ps"
proof -
  obtain ps where "initialize sample_map_ya sample_environ (Some ''{'') True = Inr ps"
    by (simp add: initialize_def sample_map_ya_def sample_ya_def factories_def build_config_def)
  then show ?thesis
    using initialize_configures_all [of sample_map_ya "''{''" "''{''" sample_environ True ps]
    by (simp add: sample_map_ya_def sample_ya_def)
qed

section \<open>The handlers around a provider\<close>

fun reports_usage :: "provider_operation \<Rightarrow> bool" where
  "reports_usage Chat = True"
| "reports_usage Embeddings = True"
| "reports_usage Asr = True"
| "reports_usage Tts = True"
| "reports_usage Video = True"
| "reports_usage _ = False"

definition reported :: "provider_operation \<Rightarrow> 'j json_result \<Rightarrow> 'j \<times> usage \<times> string" where
  "reported operation r =
     (jr_payload r, if reports_usage operation then jr_usage r else no_usage, jr_request_id r)"

lemma map_outcome_comp: "map_outcome f (map_outcome g x) = map_outcome (\<lambda>r. f (g r)) x"
  by (induction g x rule: map_outcome.induct) auto

lemmas provider_operation_defs =
  provider_chat_def provider_embeddings_def provider_images_def provider_asr_def provider_tts_def
  provider_video_def provider_list_models_def provider_batches_def provider_job_status_def
  usage_response_of_def plain_response_of_def

text \<open>The nine operations differ only in the usage they report and in the resource of a job.\<close>

lemma invoke_json:
  "invoke pl env pv operation payload job ctx st =
     map_outcome (reported operation)
       (if operation = JobStatus
        then perform_json_operation pl env pv JobStatus (js_object (pl_json pl)) ctx job st
        else perform_json_operation pl env pv operation payload ctx [] st)"
  by (cases operation) (simp_all add: provider_operation_defs map_outcome_comp reported_def [abs_def])

lemma invoke_refused:
  assumes "request_ready env (pv_config pv) key"
    and "breaker_admit (pl_now pl (ps_world st)) (ps_breaker st) = None"
  shows "invoke pl env pv operation payload job ctx st =
    (Inr (Inl (make_circuit_open_error pl (pv_config pv) ctx)), st)"
  by (simp add: invoke_json perform_json_operation_def perform_refused [OF assms])

lemma run_provider_refused:
  assumes "get_provider gw key = Some (pv, b)" and "request_ready env (pv_config pv) k"
    and "breaker_admit (pl_now pl (gw_world gw)) b = None"
  shows "run_provider pl env key route (pv, b) operation payload job ctx streaming gw =
    (\<lparr> ha_reply = Inr (respond_with_error pl streaming (make_circuit_open_error pl (pv_config pv) ctx)),
       ha_company = Some key, ha_endpoint = Some route, ha_tokens_out = None \<rparr>, gw)"
  using assms al_set_same [of "gw_providers gw" key "(pv, b)"]
  by (simp add: run_provider_def invoke_refused Let_def get_provider_def)

lemma circuit_open_status: "status_from_error_type (make_circuit_open_error pl cfg ctx) = 502"
  by (simp add: status_from_error_type_def make_circuit_open_error_def make_provider_error_def
      to_lower_def tolower_def isupper_def)

lemma respond_with_error_status: "re_status (respond_with_error pl streaming err) = status_from_error_type err"
  by (simp add: respond_with_error_def json_reply_def Let_def)

text \<open>An open breaker is reported to the client as 502, a fault of the upstream, although the
  status table reserves 503 for \<open>circuit_open\<close>: the table looks at the type of the error, and the
  error of the breaker has the type \<open>provider_error\<close>. Nothing is sent and the gateway keeps its state.\<close>

theorem open_breaker_answers_bad_gateway:
  assumes "get_provider gw key = Some (pv, b)" and "request_ready env (pv_config pv) k"
    and "breaker_admit (pl_now pl (gw_world gw)) b = None"
    and "operation \<noteq> JobStatus" and "operation \<noteq> ListModels"
    and "gr_json req = Some body" and "resolve_transport (pl_json pl) req body = Inr (NoStream, False, payload)"
  shows "\<exists>r h. company_endpoint pl env p key s operation req gw = (h, gw) \<and> ha_reply h = Inr r \<and>
      re_status r = 502 \<and>
      status_from_error_type ((make_circuit_open_error pl (pv_config pv) ctx)\<lparr>pe_type := ''circuit_open''\<rparr>) = 503"
  using assms
  by (simp add: company_endpoint_def Let_def run_provider_refused respond_with_error_status circuit_open_status)
     (simp add: status_from_error_type_def to_lower_def tolower_def isupper_def)

text \<open>A request the handler refuses itself (no such provider, a job status without id, no JSON body, an
  unknown vendor) is answered with 503 or 400 and an error body, whatever the other
  parameters are, and leaves the providers, their breakers and the upstream alone.\<close>

theorem gateway_rejects_before_upstream:
  assumes "get_provider gw key = None \<or> (operation = JobStatus \<and> gr_param req ''id'' = []) \<or>
    (operation \<noteq> JobStatus \<and> operation \<noteq> ListModels \<and> gr_json req = None)"
    and "\<not> pl_positive pl (pl_zero pl)"
  shows "\<exists>h err. company_endpoint pl env p key s operation req gw = (h, gw) \<and>
      ha_reply h = Inr (json_reply (if get_provider gw key = None then 503 else 400) []
        (build_error_payload pl err)) \<and>
      pe_request_id err = resolve_request_id req"
proof (cases "get_provider gw key")
  case None
  then show ?thesis
    by (auto simp: company_endpoint_def refuse_def not_configured_def gateway_error_def Let_def)
next
  case (Some entry)
  have err: "respond_with_error pl False e = json_reply 400 [] (build_error_payload pl e)"
    "pe_request_id e = resolve_request_id req"
    if "e = missing_job_id pl key (resolve_request_id req) \<or> e = invalid_body pl key (resolve_request_id req)" for e
    using that assms(2)
    by (auto simp: respond_with_error_def retry_header_def status_from_error_type_def missing_job_id_def
        invalid_body_def gateway_error_def to_lower_def tolower_def isupper_def Let_def)
  from Some assms(1) show ?thesis
    using err(2) [OF disjI1, OF refl] err(2) [OF disjI2, OF refl]
    by (auto simp: company_endpoint_def refuse_def Let_def err(1))
qed

text \<open>The xai route does not know the stream flag: on a company route a body with \<open>stream\<close> set reaches the provider
  without the flag and the reply is streamed, on the xai route the same body goes upstream with the flag
  in it and the reply is awaited as one JSON document.\<close>

theorem xai_forwards_stream_flag:
  assumes "get_provider gw key = Some entry"
    and "vendor_key (to_lower (or_else (gr_param req ''vendor'') (gr_header req ''X-Vendor''))) = Some key"
    and "operation \<noteq> JobStatus" and "operation \<noteq> ListModels" and "gr_json req = Some body"
    and "js_member (pl_json pl) body ''stream'' = Inr (Some flag)" and "js_as_bool (pl_json pl) flag = Some True"
    and "js_remove (pl_json pl) body ''stream'' = Inr stripped" and "transport_of req = SseTransport"
  shows "company_endpoint pl env p key s operation req gw =
      run_provider pl env key (''/'' @ p @ ''/'' @ s) entry operation stripped []
        \<lparr> rc_request_id = resolve_request_id req, rc_vendor = [] \<rparr> True gw"
    and "xai_endpoint pl env s operation req gw =
      run_provider pl env key (''/xai/'' @ s) entry operation body []
        \<lparr> rc_request_id = resolve_request_id req,
          rc_vendor = to_lower (or_else (gr_param req ''vendor'') (gr_header req ''X-Vendor'')) \<rparr> False gw"
  using assms
  by (simp_all add: company_endpoint_def xai_endpoint_def resolve_transport_def Let_def)

text \<open>A successful operation on a company route without streaming is answered with 200, the payload the
  provider returned and its request id when there is one; the tokens recorded for the metrics are the completion
  tokens of the operations that report usage and zero for the others.\<close>

theorem gateway_success_reply:
  assumes "get_provider gw key = Some (pv, b)" and "operation \<noteq> JobStatus" and "operation \<noteq> ListModels"
    and "gr_json req = Some body" and "resolve_transport (pl_json pl) req body = Inr (NoStream, False, payload)"
    and "perform_json_operation pl env pv operation payload
      \<lparr> rc_request_id = resolve_request_id req, rc_vendor = [] \<rparr> []
      \<lparr> ps_breaker = b, ps_world = gw_world gw, ps_log = gw_log gw \<rparr> = (Inr (Inr r), st)"
  shows "company_endpoint pl env p key s operation req gw =
    (\<lparr> ha_reply = Inr (json_reply 200 (id_header (jr_request_id r)) (jr_payload r)),
       ha_company = Some key, ha_endpoint = Some (''/'' @ p @ ''/'' @ s),
       ha_tokens_out = Some (if reports_usage operation then us_completion (jr_usage r) else 0) \<rparr>,
     gw\<lparr>gw_providers := al_set key (pv, ps_breaker st) (gw_providers gw),
        gw_world := ps_world st, gw_log := ps_log st\<rparr>)"
  using assms
  by (simp add: company_endpoint_def run_provider_def invoke_json reported_def respond_with_payload_def
      no_usage_def Let_def)

section \<open>The handlers at concrete requests\<close>

definition sample_gateway :: "http_response list \<Rightarrow> breaker \<Rightarrow> sample_world gateway" where
  "sample_gateway rs b =
     \<lparr> gw_providers = [(''zhipu'', sample_provider 0, b)], gw_world = (rs, 5), gw_log = [] \<rparr>"

definition sample_request :: "sample_json option \<Rightarrow> sample_json gateway_request" where
  "sample_request body = \<lparr> gr_request_id = Some ''r1'',
     gr_param = (\<lambda>k. if k = ''vendor'' then ''zhipu'' else []), gr_header = (\<lambda>_. []), gr_json = body \<rparr>"

lemma sample_no_stream:
  "resolve_transport sample_js (sample_request b) (JObj []) = Inr (NoStream, False, JObj [])"
  by (simp add: resolve_transport_def sample_js_def sample_request_def parse_bool_string_def)

lemma sample_pl_json: "pl_json sample_platform = sample_js"
  by (simp add: sample_platform_def)

lemma sample_get_provider: "get_provider (sample_gateway rs b) ''zhipu'' = Some (sample_provider 0, b)"
  by (simp add: get_provider_def sample_gateway_def)

theorem open_breaker_answers_bad_gateway_witness:
  "\<exists>r h. company_endpoint sample_platform sample_environ ''z'' ''zhipu'' ''batches'' Batches
        (sample_request (Some (JObj []))) (sample_gateway [] \<lparr> br_failures = 2, br_open_until = 9 \<rparr>) =
      (h, sample_gateway [] \<lparr> br_failures = 2, br_open_until = 9 \<rparr>) \<and> ha_reply h = Inr r \<and> re_status r = 502"
proof -
  have "breaker_admit (pl_now sample_platform (gw_world (sample_gateway [] \<lparr> br_failures = 2, br_open_until = 9 \<rparr>)))
      \<lparr> br_failures = 2, br_open_until = 9 \<rparr> = None"
    by (simp add: breaker_admit_def sample_platform_def sample_gateway_def)
  moreover have "gr_json (sample_request (Some (JObj []))) = Some (JObj [])"
    by (simp add: sample_request_def)
  moreover have "resolve_transport (pl_json sample_platform) (sample_request (Some (JObj []))) (JObj []) =
      Inr (NoStream, False, JObj [])"
    by (simp add: sample_pl_json sample_no_stream)
  ultimately show ?thesis
    using open_breaker_answers_bad_gateway [OF sample_get_provider sample_ready, of sample_platform "[]"
        "\<lparr> br_failures = 2, br_open_until = 9 \<rparr>" Batches] by blast
qed

theorem gateway_rejects_before_upstream_witness:
  "\<exists>h err. company_endpoint sample_platform sample_environ ''openai'' ''openai'' ''models'' ListModels
        (sample_request None) (sample_gateway [] breaker_closed) = (h, sample_gateway [] breaker_closed) \<and>
      ha_reply h = Inr (json_reply 503 [] (build_error_payload sample_platform err)) \<and>
      pe_request_id err = ''r1''"
proof -
  have "get_provider (sample_gateway [] breaker_closed) ''openai'' = None"
    by (simp add: get_provider_def sample_gateway_def)
  moreover have "\<not> pl_positive sample_platform (pl_zero sample_platform)"
    by (simp add: sample_platform_def)
  moreover have "resolve_request_id (sample_request None) = ''r1''"
    by (simp add: resolve_request_id_def sample_request_def)
  ultimately show ?thesis
    using gateway_rejects_before_upstream [of "sample_gateway [] breaker_closed" "''openai''" ListModels
        "sample_request None" sample_platform sample_environ "''openai''" "''models''"]
    by auto
qed

theorem xai_forwards_stream_flag_witness:
  "xai_endpoint sample_platform sample_environ ''batches'' Batches
      (sample_request (Some (JObj [(''stream'', JBool True)]))) (sample_gateway [] breaker_closed) =
    run_provider sample_platform sample_environ ''zhipu'' ''/xai/batches'' (sample_provider 0, breaker_closed)
      Batches (JObj [(''stream'', JBool True)]) [] \<lparr> rc_request_id = ''r1'', rc_vendor = ''zhipu'' \<rparr> False
      (sample_gateway [] breaker_closed)"
proof -
  let ?req = "sample_request (Some (JObj [(''stream'', JBool True)]))"
  have v: "to_lower (or_else (gr_param ?req ''vendor'') (gr_header ?req ''X-Vendor'')) = ''zhipu''"
    by (simp add: sample_request_def or_else_def to_lower_def tolower_def isupper_def)
  have "vendor_key (to_lower (or_else (gr_param ?req ''vendor'') (gr_header ?req ''X-Vendor''))) = Some ''zhipu''"
    unfolding v by (simp add: vendor_key_def)
  moreover have "gr_json ?req = Some (JObj [(''stream'', JBool True)])"
    by (simp add: sample_request_def)
  moreover have "js_member (pl_json sample_platform) (JObj [(''stream'', JBool True)]) ''stream'' = Inr (Some (JBool True))"
    "js_as_bool (pl_json sample_platform) (JBool True) = Some True"
    "js_remove (pl_json sample_platform) (JObj [(''stream'', JBool True)]) ''stream'' = Inr (JObj [])"
    by (simp_all add: sample_pl_json sample_js_def al_erase_def)
  moreover have "transport_of ?req = SseTransport"
    by (simp add: transport_of_def sample_request_def to_lower_def contains_sub_def)
  ultimately show ?thesis
    using xai_forwards_stream_flag(2) [OF sample_get_provider, of ?req Batches
        "JObj [(''stream'', JBool True)]" sample_platform "JBool True" "JObj []" sample_environ
        "''batches''" "[]" breaker_closed]
    by (simp add: v) (simp add: resolve_request_id_def sample_request_def)
qed

theorem gateway_success_reply_witness:
  "\<exists>p h gw. company_endpoint sample_platform sample_environ ''z'' ''zhipu'' ''chat/completions'' Chat
      (sample_request (Some (JObj []))) (sample_gateway [sample_reply 200 ''{}''] breaker_closed) = (h, gw) \<and>
    ha_reply h = Inr (json_reply 200 [] p) \<and> ha_tokens_out h = Some 0"
proof -
  let ?st = "sample_pstate [sample_reply 200 ''{}''] breaker_closed"
  let ?gw = "sample_gateway [sample_reply 200 ''{}''] breaker_closed"
  obtain p st' where run: "perform_json_operation sample_platform sample_environ (sample_provider 0) Chat (JObj [])
      sample_context [] ?st = (Inr (Inr \<lparr> jr_payload = p, jr_usage = missing_usage, jr_request_id = [] \<rparr>), st')"
    by (rule sample_json_success)
  have "resolve_transport (pl_json sample_platform) (sample_request (Some (JObj []))) (JObj []) =
      Inr (NoStream, False, JObj [])"
    by (simp add: sample_pl_json sample_no_stream)
  moreover have "gr_json (sample_request (Some (JObj []))) = Some (JObj [])"
    by (simp add: sample_request_def)
  moreover have "\<lparr> rc_request_id = resolve_request_id (sample_request (Some (JObj []))), rc_vendor = [] \<rparr> = sample_context"
    by (simp add: resolve_request_id_def sample_request_def sample_context_def)
  moreover have "\<lparr> ps_breaker = breaker_closed, ps_world = gw_world ?gw, ps_log = gw_log ?gw \<rparr> = ?st"
    by (simp add: sample_gateway_def sample_pstate_def)
  ultimately show ?thesis
    using gateway_success_reply [OF sample_get_provider [of "[sample_reply 200 ''{}'']" breaker_closed], of Chat
        "sample_request (Some (JObj []))" "JObj []" sample_platform "JObj []" sample_environ,
        where r = "\<lparr> jr_payload = p, jr_usage = missing_usage, jr_request_id = [] \<rparr>" and st = st'
          and p = "''z''" and s = "''chat/completions''"] run
    by (intro exI [of _ p]) (simp add: id_header_def missing_usage_def no_usage_def)
qed

end
