(* ===== verification/Event_Stream.thy ===== *)
theory Event_Stream
  imports Provider_Registry
begin

text \<open>
  Server-sent events, \<^verbatim>\<open>SuperAPI._server/src/http/SSE.cpp\<close>: the framing of an event, the buffer that
  holds the frames until the response stream is ready, the heartbeat and the end of a stream. The
  response stream of the HTTP framework is the parameter \<open>stream_api\<close>. The operations lock a
  plain \<open>std::mutex\<close>; locking it again in the same thread is undefined and is the error
  value \<open>UB\<close>. The last section composes the stream with what the handlers of the gateway write to it.
\<close>

section \<open>Frames\<close>

function escape_lines :: "string \<Rightarrow> string" where
  "escape_lines d =
     (if d = [] then []
      else case break_at newline d of
          (line, None) \<Rightarrow> ''data: '' @ line @ [newline]
        | (line, Some rest) \<Rightarrow> ''data: '' @ line @ [newline] @ escape_lines rest)"
  by pat_completeness auto

termination
  by (relation "measure length") (auto dest!: break_at_Some [OF sym])

declare escape_lines.simps [simp del]

definition escape_data :: "string \<Rightarrow> string" where
  "escape_data d = escape_lines d @ (if d = [] then ''data: '' @ [newline] else []) @ [newline]"

definition format_event :: "string \<Rightarrow> string \<Rightarrow> string" where
  "format_event event d = (if event \<noteq> [] then ''event: '' @ event @ [newline] else []) @ escape_data d"

definition heartbeat_comment :: string where
  "heartbeat_comment = '': heartbeat'' @ [newline, newline]"

definition default_retry :: string where
  "default_retry = ''retry: 5000'' @ [newline]"

text \<open>How a client reads a frame: the fields of its lines up to the blank line.\<close>

fun decode_lines :: "string \<Rightarrow> string list \<Rightarrow> string list \<Rightarrow> (string \<times> string list) option" where
  "decode_lines event ds [] = None"
| "decode_lines event ds (l # ls) =
     (if l = [] then Some (event, ds)
      else if take 7 l = ''event: '' then decode_lines (drop 7 l) ds ls
      else if take 6 l = ''data: '' then decode_lines event (ds @ [drop 6 l]) ls
      else decode_lines event ds ls)"

fun join_lines :: "string list \<Rightarrow> string" where
  "join_lines [] = []"
| "join_lines [l] = l"
| "join_lines (l # ls) = l @ newline # join_lines ls"

definition decode_event :: "string \<Rightarrow> (string \<times> string) option" where
  "decode_event frame = map_option (\<lambda>(e, ds). (e, join_lines ds)) (decode_lines [] [] (getlines [] frame))"

fun data_lines :: "string \<Rightarrow> string list" where
  "data_lines [] = [[]]"
| "data_lines (c # cs) =
     (if c = newline then [] # data_lines cs
      else case data_lines cs of l # ls \<Rightarrow> (c # l) # ls | [] \<Rightarrow> [[c]])"

lemma data_lines_nonempty: "data_lines d \<noteq> []"
  by (cases d) (auto split: list.split)

lemma join_data_lines: "join_lines (data_lines d) = d"
proof (induction d)
  case (Cons c cs)
  then show ?case
    using data_lines_nonempty [of cs]
    by (cases "data_lines cs" rule: join_lines.cases) auto
qed simp

lemma data_lines_newline_free: "l \<in> set (data_lines d) \<Longrightarrow> newline \<notin> set l"
  by (induction d arbitrary: l) (auto split: if_splits list.splits)

lemma data_lines_plain: "newline \<notin> set d \<Longrightarrow> data_lines d = [d]"
  by (induction d) auto

lemma data_lines_append:
  "newline \<notin> set a \<Longrightarrow> data_lines (a @ newline # b) = a # data_lines b"
  by (induction a) auto

abbreviation data_line :: "string \<Rightarrow> string" where
  "data_line l \<equiv> ''data: '' @ l @ [newline]"

lemma escape_lines_data_lines:
  "d \<noteq> [] \<Longrightarrow> last d \<noteq> newline \<Longrightarrow> escape_lines d = concat (map data_line (data_lines d))"
proof (induction d rule: escape_lines.induct)
  case (1 d)
  show ?case
  proof (cases "newline \<in> set d")
    case False
    then show ?thesis
      using 1(2) by (subst escape_lines.simps) (simp add: break_at_none data_lines_plain)
  next
    case True
    then obtain a b where d: "d = a @ newline # b" "newline \<notin> set a"
      by (meson split_list_first)
    with 1(3) have b: "b \<noteq> []" "last b \<noteq> newline" by (auto split: if_splits)
    have split: "break_at newline d = (a, Some b)" using d by simp
    have "escape_lines b = concat (map data_line (data_lines b))"
      using 1(1) [OF 1(2) split [symmetric] refl] b by simp
    then show ?thesis
      using 1(2) split d by (subst escape_lines.simps) (simp add: data_lines_append)
  qed
qed

lemma escape_data_lines:
  assumes "d = [] \<or> last d \<noteq> newline"
  shows "escape_data d = concat (map data_line (data_lines d)) @ [newline]"
proof (cases "d = []")
  case True
  then show ?thesis by (simp add: escape_data_def escape_lines.simps)
next
  case False
  with assms show ?thesis
    using escape_lines_data_lines [of d] by (simp add: escape_data_def)
qed

lemma getlines_data_lines:
  "list_all (\<lambda>l. newline \<notin> set l) ls \<Longrightarrow>
     getlines [] (concat (map data_line ls) @ [newline]) = map (\<lambda>l. ''data: '' @ l) ls @ [[]]"
proof (induction ls)
  case (Cons l ls)
  then show ?case
    using getlines_line [of "''data: '' @ l" "[]" "concat (map data_line ls) @ [newline]"] by simp
qed simp

lemma decode_data_lines: "decode_lines e ds (map (\<lambda>l. ''data: '' @ l) ls @ [[]]) = Some (e, ds @ ls)"
  by (induction ls arbitrary: ds) auto

text \<open>A client reads back the event name and the data of every frame, over several lines too, when the
  name has no line break and the data does not end with one.\<close>

theorem sse_event_roundtrip:
  assumes "newline \<notin> set event" and "d = [] \<or> last d \<noteq> newline"
  shows "decode_event (format_event event d) = Some (event, d)"
proof -
  have lines: "getlines [] (escape_data d) = map (\<lambda>l. ''data: '' @ l) (data_lines d) @ [[]]"
    unfolding escape_data_lines [OF assms(2)]
    by (rule getlines_data_lines) (use data_lines_newline_free in \<open>auto simp: list_all_iff\<close>)
  show ?thesis
  proof (cases "event = []")
    case True
    then show ?thesis
      by (simp add: decode_event_def format_event_def lines decode_data_lines [simplified] join_data_lines)
  next
    case False
    have "getlines [] ((''event: '' @ event) @ newline # escape_data d) =
        (''event: '' @ event) # getlines [] (escape_data d)"
      using getlines_line [of "''event: '' @ event" "[]" "escape_data d"] assms(1) by simp
    then show ?thesis
      using False by (simp add: decode_event_def format_event_def lines decode_data_lines [simplified] join_data_lines)
  qed
qed

theorem sse_event_roundtrip_witness:
  "decode_event (format_event ''delta'' (''a'' @ [newline, newline] @ ''b'')) = Some (''delta'', ''a'' @ [newline, newline] @ ''b'')"
  using sse_event_roundtrip [of "''delta''" "''a'' @ [newline, newline] @ ''b''"] by simp

section \<open>The stream\<close>

text \<open>\<open>st_send\<close> is \<open>send\<close> of the response stream, false once the peer is gone.\<close>

record 'w stream_api =
  st_send :: "string \<Rightarrow> 'w \<Rightarrow> bool \<times> 'w"
  st_close :: "'w \<Rightarrow> 'w"

record 'w sse_stream =
  se_heartbeat :: int \<comment> \<open>interval in milliseconds\<close>
  se_max :: nat \<comment> \<open>\<open>maxBufferedBytes\<close>\<close>
  se_attached :: bool \<comment> \<open>\<open>stream_\<close> is set\<close>
  se_timer :: bool
  se_ready :: bool
  se_closed :: bool
  se_pending :: "string list"
  se_buffered :: nat
  se_world :: 'w

definition sse_create :: "int \<Rightarrow> nat \<Rightarrow> 'w \<Rightarrow> 'w sse_stream" where
  "sse_create interval m w = \<lparr> se_heartbeat = interval, se_max = m, se_attached = False, se_timer = False,
     se_ready = False, se_closed = False, se_pending = [], se_buffered = 0, se_world = w \<rparr>"

fun flush_frames :: "'w stream_api \<Rightarrow> string list \<Rightarrow> 'w sse_stream \<Rightarrow> 'w sse_stream" where
  "flush_frames api [] s = s\<lparr>se_pending := []\<rparr>"
| "flush_frames api (f # fs) s =
     (let (ok, w) = st_send api f (se_world s)
      in if \<not> ok
         then s\<lparr>se_world := w, se_closed := True, se_attached := False, se_pending := [], se_buffered := 0,
                se_timer := False\<rparr>
         else flush_frames api fs (s\<lparr>se_world := w, se_buffered := se_buffered s - length f\<rparr>))"

definition flush_unlocked :: "'w stream_api \<Rightarrow> 'w sse_stream \<Rightarrow> 'w sse_stream" where
  "flush_unlocked api s =
     (if \<not> se_ready s \<or> \<not> se_attached s then s else flush_frames api (se_pending s) s)"

text \<open>
  On an overflow \<open>sendError\<close> is called, which formats the error and locks the mutex the caller
  holds already.
\<close>

definition enqueue_unlocked :: "'w stream_api \<Rightarrow> string \<Rightarrow> 'w sse_stream \<Rightarrow> 'w sse_stream res" where
  "enqueue_unlocked api frame s =
     (if se_closed s \<or> frame = [] then Inr s
      else let s = s\<lparr>se_buffered := se_buffered s + length frame, se_pending := se_pending s @ [frame]\<rparr>
      in if se_buffered s > se_max s then Inl (UB ''lock of a mutex the thread owns'')
      else Inr (flush_unlocked api s))"

definition schedule_heartbeat_unlocked :: "'w sse_stream \<Rightarrow> 'w sse_stream" where
  "schedule_heartbeat_unlocked s =
     (if se_closed s \<or> se_heartbeat s \<le> 0 then s else s\<lparr>se_timer := True\<rparr>)"

definition on_stream_ready :: "'w stream_api \<Rightarrow> 'w sse_stream \<Rightarrow> 'w sse_stream res" where
  "on_stream_ready api s =
     (if se_closed s then Inr (s\<lparr>se_world := st_close api (se_world s)\<rparr>)
      else bindE (enqueue_unlocked api default_retry (s\<lparr>se_attached := True, se_ready := True\<rparr>))
             (\<lambda>s. Inr (schedule_heartbeat_unlocked (flush_unlocked api s))))"

definition heartbeat_tick :: "'w stream_api \<Rightarrow> 'w sse_stream \<Rightarrow> 'w sse_stream" where
  "heartbeat_tick api s =
     (if se_closed s \<or> \<not> se_ready s then s
      else flush_unlocked api
        (s\<lparr>se_pending := se_pending s @ [heartbeat_comment],
           se_buffered := se_buffered s + length heartbeat_comment\<rparr>))"

definition send_text_event :: "'w stream_api \<Rightarrow> string \<Rightarrow> string \<Rightarrow> 'w sse_stream \<Rightarrow> 'w sse_stream res" where
  "send_text_event api event text s = enqueue_unlocked api (format_event event text) s"

definition send_json_event ::
  "'w stream_api \<Rightarrow> 'j json_lib \<Rightarrow> string \<Rightarrow> 'j \<Rightarrow> 'w sse_stream \<Rightarrow> 'w sse_stream res" where
  "send_json_event api js event payload s =
     enqueue_unlocked api (format_event event (js_write js payload)) s"

definition sse_close :: "'w stream_api \<Rightarrow> 'w sse_stream \<Rightarrow> 'w sse_stream" where
  "sse_close api s =
     (if se_closed s then s
      else s\<lparr>se_closed := True, se_timer := False, se_pending := [], se_buffered := 0, se_attached := False,
             se_world := (if se_attached s then st_close api (se_world s) else se_world s)\<rparr>)"

section \<open>The buffer\<close>

definition frames_size :: "string list \<Rightarrow> nat" where
  "frames_size fs = sum_list (map length fs)"

lemma frames_size_simps [simp]:
  "frames_size [] = 0" "frames_size (f # fs) = length f + frames_size fs"
  "frames_size (fs @ gs) = frames_size fs + frames_size gs"
  by (simp_all add: frames_size_def)

definition sse_ok :: "'w sse_stream \<Rightarrow> bool" where [inv_defs]:
  "sse_ok s \<longleftrightarrow> se_buffered s = frames_size (se_pending s) \<and> se_buffered s \<le> se_max s \<and>
     (se_closed s \<longrightarrow> se_pending s = [] \<and> \<not> se_attached s \<and> \<not> se_timer s) \<and>
     (\<not> se_closed s \<longrightarrow> se_attached s = se_ready s \<and> (se_ready s \<longrightarrow> se_pending s = []))"

inductive sse_step :: "'w stream_api \<Rightarrow> 'w sse_stream \<Rightarrow> 'w sse_stream \<Rightarrow> bool" for api where
  sse_ready: "\<not> se_ready s \<Longrightarrow> on_stream_ready api s = Inr s' \<Longrightarrow> sse_step api s s'"
| sse_event: "enqueue_unlocked api frame s = Inr s' \<Longrightarrow> sse_step api s s'"
| sse_heartbeat: "se_timer s \<Longrightarrow> sse_step api s (heartbeat_tick api s)"
| sse_closing: "sse_step api s (sse_close api s)"

lemma flush_frames_ok:
  assumes "se_attached s" "se_ready s" "\<not> se_closed s" "se_buffered s = frames_size fs"
  shows "sse_ok (flush_frames api fs s)"
  using assms
proof (induction api fs s rule: flush_frames.induct)
  case (1 api s)
  then show ?case by (simp add: inv_defs)
next
  case (2 api f fs s)
  obtain ok w where sent: "st_send api f (se_world s) = (ok, w)" by (cases "st_send api f (se_world s)")
  show ?case
  proof (cases ok)
    case True
    have "sse_ok (flush_frames api fs (s\<lparr>se_world := w, se_buffered := se_buffered s - length f\<rparr>))"
      using "2.IH" [OF sent [symmetric]] "2.prems" True by simp
    then show ?thesis using sent True by simp
  next
    case False
    then show ?thesis using sent "2.prems" by (simp add: inv_defs)
  qed
qed

lemma flush_frames_unchanged [simp]:
  "se_ready (flush_frames api fs s) = se_ready s" "se_max (flush_frames api fs s) = se_max s"
  by (induction api fs s rule: flush_frames.induct) (auto split: prod.splits)

lemma flush_unlocked_ok:
  assumes "\<not> se_closed s" "se_attached s = se_ready s" "se_buffered s = frames_size (se_pending s)"
    and "\<not> se_ready s \<Longrightarrow> se_buffered s \<le> se_max s"
  shows "sse_ok (flush_unlocked api s)"
proof (cases "se_ready s")
  case True
  then show ?thesis
    using assms flush_frames_ok [of s "se_pending s" api] by (simp add: flush_unlocked_def)
next
  case False
  then show ?thesis using assms by (simp add: flush_unlocked_def sse_ok_def)
qed

lemma enqueue_flush:
  assumes "\<not> se_closed s" "se_attached s = se_ready s" "se_buffered s = frames_size (se_pending s)"
    and "enqueue_unlocked api frame s = Inr s'" and "frame \<noteq> []"
  shows "sse_ok s'"
  using assms by (auto simp: enqueue_unlocked_def Let_def split: if_splits intro!: flush_unlocked_ok)

lemma enqueue_ok:
  assumes "sse_ok s" and "enqueue_unlocked api frame s = Inr s'"
  shows "sse_ok s'"
proof (cases "se_closed s \<or> frame = []")
  case True
  then show ?thesis using assms by (auto simp: enqueue_unlocked_def)
next
  case False
  then show ?thesis using assms enqueue_flush [of s api frame s'] by (auto simp: sse_ok_def)
qed

lemma schedule_ok: "sse_ok s \<Longrightarrow> sse_ok (schedule_heartbeat_unlocked s)"
  by (simp add: sse_ok_def schedule_heartbeat_unlocked_def)

lemma flush_ok: "sse_ok s \<Longrightarrow> sse_ok (flush_unlocked api s)"
  using flush_unlocked_ok [of s api] by (cases "se_closed s") (auto simp: sse_ok_def flush_unlocked_def)

lemma retry_nonempty: "default_retry \<noteq> []"
  by (simp add: default_retry_def)

lemma on_stream_ready_ok:
  assumes "sse_ok s" and "\<not> se_ready s" and "on_stream_ready api s = Inr s'"
  shows "sse_ok s'"
proof (cases "se_closed s")
  case True
  then show ?thesis using assms by (auto simp: on_stream_ready_def sse_ok_def)
next
  case False
  then obtain s1 where s1: "enqueue_unlocked api default_retry (s\<lparr>se_attached := True, se_ready := True\<rparr>) = Inr s1"
    and s': "s' = schedule_heartbeat_unlocked (flush_unlocked api s1)"
    using assms by (auto simp: on_stream_ready_def bindE_Inr_iff)
  have "sse_ok s1"
    using assms False by (intro enqueue_flush [OF _ _ _ s1 retry_nonempty]) (simp_all add: sse_ok_def)
  then show ?thesis by (simp add: s' schedule_ok flush_ok)
qed

lemma heartbeat_ok:
  assumes "sse_ok s"
  shows "sse_ok (heartbeat_tick api s)"
proof (cases "se_closed s \<or> \<not> se_ready s")
  case True
  then show ?thesis using assms by (auto simp: heartbeat_tick_def)
next
  case False
  then have "sse_ok (flush_unlocked api (s\<lparr>se_pending := se_pending s @ [heartbeat_comment],
      se_buffered := se_buffered s + length heartbeat_comment\<rparr>))"
    using assms by (intro flush_unlocked_ok) (simp_all add: sse_ok_def)
  then show ?thesis using False by (simp add: heartbeat_tick_def)
qed

lemma close_ok: "sse_ok s \<Longrightarrow> sse_ok (sse_close api s)"
  by (simp add: sse_ok_def sse_close_def)

interpretation sse_sys: invariant_system "\<lambda>s. \<exists>i m w. s = sse_create i m w" "sse_step api" sse_ok for api
proof
  show "\<exists>i m w. s = sse_create i m w \<Longrightarrow> sse_ok s" for s :: "'a sse_stream"
    by (auto simp: sse_create_def sse_ok_def)
  show "sse_ok s \<Longrightarrow> sse_step api s t \<Longrightarrow> sse_ok t" for s t
    by (auto elim!: sse_step.cases intro: on_stream_ready_ok enqueue_ok heartbeat_ok close_ok)
qed

text \<open>C25. In every reachable state of an event stream the byte counter is the size of the buffered frames and within
  the limit, a stream whose response is ready holds nothing back, and a closed one holds no frame, no
  response and no heartbeat timer.\<close>

theorem sse_buffer_bounded:
  assumes "(sse_step api)\<^sup>*\<^sup>* (sse_create i m w) s"
  shows "se_buffered s = frames_size (se_pending s) \<and> frames_size (se_pending s) \<le> se_max s \<and>
    (se_ready s \<or> se_closed s \<longrightarrow> se_pending s = []) \<and>
    (se_closed s \<longrightarrow> \<not> se_attached s \<and> \<not> se_timer s)"
proof -
  have "sse_ok s" using sse_sys.reachable_good [OF _ assms] by blast
  then show ?thesis by (auto simp: sse_ok_def)
qed

section \<open>Overflow\<close>

text \<open>A frame that does not fit in the buffer does not close the stream with a \<open>buffer_overflow\<close> event: the operation
  locks the mutex it holds.\<close>

theorem sse_overflow_relocks:
  assumes "\<not> se_closed s" and "se_max s < se_buffered s + length (format_event event (js_write js payload))"
  shows "send_json_event api js event payload s = Inl (UB ''lock of a mutex the thread owns'')"
proof -
  have "format_event event (js_write js payload) \<noteq> []"
    by (simp add: format_event_def escape_data_def)
  then show ?thesis
    using assms by (simp add: send_json_event_def enqueue_unlocked_def Let_def)
qed

section \<open>Delivery\<close>

definition accepting :: "'w stream_api \<Rightarrow> bool" where
  "accepting api \<longleftrightarrow> (\<forall>f w. fst (st_send api f w))"

definition deliver :: "'w stream_api \<Rightarrow> string list \<Rightarrow> 'w \<Rightarrow> 'w" where
  "deliver api fs w = fold (\<lambda>f w. snd (st_send api f w)) fs w"

lemma deliver_Nil: "deliver api [] w = w"
  by (simp add: deliver_def)

lemma flush_frames_accepting:
  assumes "accepting api" and "se_buffered s = frames_size fs"
  shows "flush_frames api fs s =
    s\<lparr>se_pending := [], se_buffered := 0, se_world := deliver api fs (se_world s)\<rparr>"
  using assms
proof (induction api fs s rule: flush_frames.induct)
  case (2 api f fs s)
  obtain ok w where r: "st_send api f (se_world s) = (ok, w)" by (cases "st_send api f (se_world s)")
  have "fst (st_send api f (se_world s))" using "2.prems"(1) unfolding accepting_def by blast
  with r have sent: "st_send api f (se_world s) = (True, w)" by simp
  show ?case
    using "2.IH" [OF sent [symmetric]] "2.prems" by (simp add: sent deliver_def)
qed (simp add: deliver_def)

fun send_frames :: "'w stream_api \<Rightarrow> string list \<Rightarrow> 'w sse_stream \<Rightarrow> 'w sse_stream res" where
  "send_frames api [] s = Inr s"
| "send_frames api (f # fs) s = bindE (enqueue_unlocked api f s) (send_frames api fs)"

lemma send_frames_buffered:
  "\<not> se_closed s \<Longrightarrow> \<not> se_ready s \<Longrightarrow> [] \<notin> set fs \<Longrightarrow> se_buffered s + frames_size fs \<le> se_max s \<Longrightarrow>
   send_frames api fs s = Inr (s\<lparr>se_pending := se_pending s @ fs, se_buffered := se_buffered s + frames_size fs\<rparr>)"
proof (induction fs arbitrary: s)
  case (Cons f fs)
  then have "f \<noteq> []" by auto
  with Cons have "enqueue_unlocked api f s =
      Inr (s\<lparr>se_pending := se_pending s @ [f], se_buffered := se_buffered s + length f\<rparr>)"
    by (simp add: enqueue_unlocked_def flush_unlocked_def)
  with Cons show ?case by simp
qed simp

lemma send_frames_ready:
  "accepting api \<Longrightarrow> \<not> se_closed s \<Longrightarrow> se_ready s \<Longrightarrow> se_attached s \<Longrightarrow> se_pending s = [] \<Longrightarrow>
   se_buffered s = 0 \<Longrightarrow> [] \<notin> set fs \<Longrightarrow> list_all (\<lambda>f. length f \<le> se_max s) fs \<Longrightarrow>
   send_frames api fs s = Inr (s\<lparr>se_world := deliver api fs (se_world s)\<rparr>)"
proof (induction fs arbitrary: s)
  case (Cons f fs)
  then have "f \<noteq> []" by auto
  with Cons have "enqueue_unlocked api f s = Inr (s\<lparr>se_world := deliver api [f] (se_world s)\<rparr>)"
    by (simp add: enqueue_unlocked_def flush_unlocked_def flush_frames_accepting Let_def
        del: flush_frames.simps)
  with Cons show ?case by (simp add: deliver_def)
qed (simp add: deliver_def)

lemma ready_accepting:
  assumes "accepting api" "\<not> se_closed s" "se_buffered s = frames_size (se_pending s)"
    and "se_buffered s + length default_retry \<le> se_max s"
  shows "on_stream_ready api s = Inr (schedule_heartbeat_unlocked
    (s\<lparr>se_attached := True, se_ready := True, se_pending := [], se_buffered := 0,
       se_world := deliver api (se_pending s @ [default_retry]) (se_world s)\<rparr>))"
  using assms
  by (simp add: on_stream_ready_def enqueue_unlocked_def flush_unlocked_def flush_frames_accepting
      retry_nonempty Let_def deliver_Nil del: flush_frames.simps)

text \<open>C24. A peer that takes every frame receives the frames sent before the response was ready, then the retry
  directive, then the frames sent later: all of them, once and in order, as long as they fit the limit of the buffer
  (64 KiB in the program): the early frames together with the directive, and each later frame by itself. Beyond
  the limit the stream locks itself (\<open>sse_overflow_relocks\<close>).\<close>

theorem sse_delivers_in_order:
  assumes "accepting api" and "[] \<notin> set early" and "[] \<notin> set late"
    and "frames_size early + length default_retry \<le> m" and "list_all (\<lambda>f. length f \<le> m) late"
  shows "\<exists>s1 s2 s3. send_frames api early (sse_create i m w) = Inr s1 \<and> on_stream_ready api s1 = Inr s2 \<and>
    send_frames api late s2 = Inr s3 \<and>
    se_world s3 = deliver api (early @ [default_retry] @ late) w \<and> se_pending s3 = [] \<and> \<not> se_closed s3"
proof -
  have new: "\<not> se_closed (sse_create i m w)" "\<not> se_ready (sse_create i m w)"
    "se_buffered (sse_create i m w) + frames_size early \<le> se_max (sse_create i m w)"
    using assms(4) by (simp_all add: sse_create_def)
  let ?s1 = "(sse_create i m w)\<lparr>se_pending := early, se_buffered := frames_size early\<rparr>"
  have 1: "send_frames api early (sse_create i m w) = Inr ?s1"
    using send_frames_buffered [OF new(1,2) assms(2) new(3)] by (simp add: sse_create_def)
  let ?s2 = "schedule_heartbeat_unlocked (?s1\<lparr>se_attached := True, se_ready := True, se_pending := [],
    se_buffered := 0, se_world := deliver api (early @ [default_retry]) w\<rparr>)"
  have 2: "on_stream_ready api ?s1 = Inr ?s2"
    using ready_accepting [of api ?s1] assms(1,4) by (simp add: sse_create_def)
  have "send_frames api late ?s2 = Inr (?s2\<lparr>se_world := deliver api late (se_world ?s2)\<rparr>)"
    using assms(1,3,5)
    by (intro send_frames_ready) (simp_all add: schedule_heartbeat_unlocked_def sse_create_def)
  then show ?thesis
    using 1 2 by (simp add: schedule_heartbeat_unlocked_def sse_create_def deliver_def)
qed

section \<open>Streamed replies\<close>

definition apply_sse_op ::
  "'w stream_api \<Rightarrow> 'j json_lib \<Rightarrow> 'j sse_op \<Rightarrow> 'w sse_stream \<Rightarrow> 'w sse_stream res" where
  "apply_sse_op api js x s =
     (case x of
        SseEvent event payload \<Rightarrow> send_json_event api js event payload s
      | SseClose \<Rightarrow> Inr (sse_close api s))"

fun apply_sse_ops ::
  "'w stream_api \<Rightarrow> 'j json_lib \<Rightarrow> 'j sse_op list \<Rightarrow> 'w sse_stream \<Rightarrow> 'w sse_stream res" where
  "apply_sse_ops api js [] s = Inr s"
| "apply_sse_ops api js (x # xs) s = bindE (apply_sse_op api js x s) (apply_sse_ops api js xs)"

text \<open>A streamed reply of the gateway reaches the client only when the framework has made the response stream ready
  before the handler goes on: the handler writes its events and closes, so a stream that becomes
  ready afterwards is closed without a single frame.\<close>

theorem late_stream_loses_reply:
  assumes "re_body (respond_with_payload pl True payload u i) = StreamBody ops"
    and "apply_sse_ops api (pl_json pl) ops (sse_create interval m w) = Inr s"
  shows "se_closed s \<and> on_stream_ready api s = Inr (s\<lparr>se_world := st_close api w\<rparr>)"
proof -
  have keep: "se_world s' = se_world t \<and> se_ready s' = se_ready t \<and> se_attached s' = se_attached t"
    if "\<not> se_ready t" "send_json_event api (pl_json pl) e v t = Inr s'" for e v t s'
    using that by (auto simp: send_json_event_def enqueue_unlocked_def flush_unlocked_def Let_def split: if_splits)
  obtain e1 v1 e2 v2 where ops: "ops = [SseEvent e1 v1, SseEvent e2 v2, SseClose]"
    using assms(1) by (auto simp: respond_with_payload_def Let_def)
  obtain s1 s2 where s1: "send_json_event api (pl_json pl) e1 v1 (sse_create interval m w) = Inr s1"
    and s2: "send_json_event api (pl_json pl) e2 v2 s1 = Inr s2" and s: "s = sse_close api s2"
    using assms(2) by (auto simp: ops apply_sse_op_def bindE_Inr_iff)
  have "se_world s1 = w \<and> \<not> se_ready s1 \<and> \<not> se_attached s1"
    using keep [OF _ s1] by (simp add: sse_create_def)
  then have "se_world s2 = w \<and> \<not> se_attached s2"
    using keep [OF _ s2] by auto
  then have "se_closed s \<and> se_world s = w"
    by (simp add: s sse_close_def)
  then show ?thesis by (simp add: on_stream_ready_def)
qed

section \<open>Concrete streams\<close>

type_synonym sample_peer = "string list \<times> nat" \<comment> \<open>frames received, closes\<close>

definition sample_stream_api :: "sample_peer stream_api" where
  "sample_stream_api = \<lparr> st_send = (\<lambda>f (fs, n). (True, fs @ [f], n)), st_close = (\<lambda>(fs, n). (fs, n + 1)) \<rparr>"

theorem sse_buffer_bounded_witness:
  "(let s = sse_close sample_stream_api (sse_create 0 64 ([], 0))
    in se_buffered s = frames_size (se_pending s) \<and> frames_size (se_pending s) \<le> se_max s)"
  using sse_buffer_bounded [OF r_into_rtranclp, OF sse_closing, of sample_stream_api 0 64 "([], 0)"]
  by (simp add: Let_def)

theorem sse_overflow_relocks_witness:
  "send_json_event sample_stream_api sample_js ''delta'' (JObj []) (sse_create 0 8 ([], 0)) =
     Inl (UB ''lock of a mutex the thread owns'')"
  by (rule sse_overflow_relocks)
     (simp_all add: sse_create_def format_event_def escape_data_def)

theorem sse_delivers_in_order_witness:
  "\<exists>s1 s2 s3. send_frames sample_stream_api [''a''] (sse_create 0 64 ([], 0)) = Inr s1 \<and>
    on_stream_ready sample_stream_api s1 = Inr s2 \<and> send_frames sample_stream_api [''b''] s2 = Inr s3 \<and>
    se_world s3 = ([''a'', default_retry, ''b''], 0)"
  using sse_delivers_in_order [of sample_stream_api "[''a'']" "[''b'']" 64 0 "([], 0)"]
  by (auto simp: accepting_def sample_stream_api_def default_retry_def deliver_def)

theorem late_stream_loses_reply_witness:
  "\<exists>ops s. re_body (respond_with_payload sample_platform True (JObj []) no_usage []) = StreamBody ops \<and>
    apply_sse_ops sample_stream_api sample_js ops (sse_create 15000 65536 ([], 0)) = Inr s \<and>
    on_stream_ready sample_stream_api s = Inr (s\<lparr>se_world := ([], 1)\<rparr>)"
proof -
  obtain v1 v2 where body: "re_body (respond_with_payload sample_platform True (JObj []) no_usage []) =
      StreamBody [SseEvent ''delta'' v1, SseEvent ''done'' v2, SseClose]"
    by (simp add: respond_with_payload_def Let_def)
  have "escape_data ''{}'' = ''data: {}'' @ [newline, newline]"
    by (simp add: escape_data_def escape_lines.simps break_at_def)
  then have frames: "format_event ''delta'' (js_write sample_js v) = ''event: delta'' @ [newline] @ ''data: {}'' @ [newline, newline]"
    "format_event ''done'' (js_write sample_js v) = ''event: done'' @ [newline] @ ''data: {}'' @ [newline, newline]" for v
    by (simp_all add: format_event_def sample_js_def)
  obtain s where s: "apply_sse_ops sample_stream_api sample_js
      [SseEvent ''delta'' v1, SseEvent ''done'' v2, SseClose] (sse_create 15000 65536 ([], 0)) = Inr s"
    by (simp add: apply_sse_op_def send_json_event_def frames enqueue_unlocked_def flush_unlocked_def
        sse_create_def)
  have "on_stream_ready sample_stream_api s = Inr (s\<lparr>se_world := st_close sample_stream_api ([], 0)\<rparr>)"
    using late_stream_loses_reply [OF body, of sample_stream_api 15000 65536 "([], 0)" s] s
    by (simp add: sample_pl_json)
  then show ?thesis
    using body s by (auto simp: sample_stream_api_def)
qed

end
