(* ===== verification/Web_Socket.thy ===== *)
theory Web_Socket
  imports Provider_Registry
begin

text \<open>
  The stream over a web socket of \<^verbatim>\<open>SuperAPI._server/src/http/WebSocket.cpp\<close>. The connection of the web framework
  is the parameter \<open>socket_api\<close> over a world that others change too; \<open>create\<close> gives no stream without a
  connection, so that every stream has one.
\<close>

section \<open>The stream\<close>

datatype close_code = NormalClosure | TryAgainLater

record ('j, 'w) socket_api =
  sk_connected :: "'w \<Rightarrow> bool"
  sk_send :: "'j \<Rightarrow> 'w \<Rightarrow> 'w"
  sk_shutdown :: "close_code \<Rightarrow> string \<Rightarrow> 'w \<Rightarrow> 'w"
  sk_ping :: "int option \<Rightarrow> 'w \<Rightarrow> 'w" \<comment> \<open>the interval of the pings, \<open>None\<close> to disable them\<close>

record ('j, 'w) ws_stream =
  ws_pending :: "'j list"
  ws_closed :: bool
  ws_max :: nat
  ws_world :: 'w

definition ws_create :: "('j, 'w) socket_api \<Rightarrow> nat \<Rightarrow> int \<Rightarrow> 'w \<Rightarrow> ('j, 'w) ws_stream" where
  "ws_create api max_frames heartbeat w =
     \<lparr> ws_pending = [], ws_closed = False, ws_max = max_frames,
       ws_world = sk_ping api (if heartbeat > 0 then Some heartbeat else None) w \<rparr>"

fun ws_flush_frames :: "('j, 'w) socket_api \<Rightarrow> 'j list \<Rightarrow> ('j, 'w) ws_stream \<Rightarrow> ('j, 'w) ws_stream" where
  "ws_flush_frames api [] s = s\<lparr>ws_pending := []\<rparr>"
| "ws_flush_frames api (f # fs) s =
     (if \<not> sk_connected api (ws_world s) then s\<lparr>ws_closed := True, ws_pending := []\<rparr>
      else ws_flush_frames api fs (s\<lparr>ws_world := sk_send api f (ws_world s)\<rparr>))"

definition ws_flush :: "('j, 'w) socket_api \<Rightarrow> ('j, 'w) ws_stream \<Rightarrow> ('j, 'w) ws_stream" where
  "ws_flush api s = (if ws_closed s then s else ws_flush_frames api (ws_pending s) s)"

definition ws_enqueue :: "('j, 'w) socket_api \<Rightarrow> 'j \<Rightarrow> ('j, 'w) ws_stream \<Rightarrow> ('j, 'w) ws_stream" where
  "ws_enqueue api frame s =
     (if ws_closed s then s
      else if length (ws_pending s) \<ge> ws_max s then
        s\<lparr>ws_closed := True, ws_pending := [],
          ws_world := sk_shutdown api TryAgainLater ''backpressure: too many queued frames'' (ws_world s)\<rparr>
      else ws_flush api (s\<lparr>ws_pending := ws_pending s @ [frame]\<rparr>))"

definition ws_close :: "('j, 'w) socket_api \<Rightarrow> close_code \<Rightarrow> string \<Rightarrow> ('j, 'w) ws_stream \<Rightarrow> ('j, 'w) ws_stream" where
  "ws_close api code reason s =
     (if ws_closed s then s
      else s\<lparr>ws_closed := True, ws_pending := [], ws_world := sk_shutdown api code reason (ws_world s)\<rparr>)"

definition ws_is_open :: "('j, 'w) socket_api \<Rightarrow> ('j, 'w) ws_stream \<Rightarrow> bool" where
  "ws_is_open api s \<longleftrightarrow> \<not> ws_closed s \<and> sk_connected api (ws_world s)"

section \<open>Frames\<close>

definition ws_make_frame :: "'j json_lib \<Rightarrow> string \<Rightarrow> 'j \<Rightarrow> 'j" where
  "ws_make_frame js event payload = json_obj js [(''event'', js_of_string js event), (''data'', payload)]"

definition ws_error_frame :: "'j json_lib \<Rightarrow> string \<Rightarrow> string \<Rightarrow> int \<Rightarrow> 'j" where
  "ws_error_frame js code message status =
     json_obj js
       ([(''type'', js_of_string js ''error''), (''code'', js_of_string js code),
         (''message'', js_of_string js message)] @
        (if status > 0 then [(''status'', js_of_int js status)] else []))"

definition ws_send_json ::
  "('j, 'w) socket_api \<Rightarrow> 'j json_lib \<Rightarrow> string \<Rightarrow> 'j \<Rightarrow> ('j, 'w) ws_stream \<Rightarrow> ('j, 'w) ws_stream" where
  "ws_send_json api js event payload s = ws_enqueue api (ws_make_frame js event payload) s"

definition ws_send_text ::
  "('j, 'w) socket_api \<Rightarrow> 'j json_lib \<Rightarrow> string \<Rightarrow> string \<Rightarrow> ('j, 'w) ws_stream \<Rightarrow> ('j, 'w) ws_stream" where
  "ws_send_text api js event payload s =
     ws_enqueue api (ws_make_frame js event (json_obj js [(''data'', js_of_string js payload)])) s"

definition ws_send_error ::
  "('j, 'w) socket_api \<Rightarrow> 'j json_lib \<Rightarrow> string \<Rightarrow> string \<Rightarrow> int \<Rightarrow> ('j, 'w) ws_stream \<Rightarrow> ('j, 'w) ws_stream" where
  "ws_send_error api js code message status s =
     ws_enqueue api (ws_make_frame js ''error'' (ws_error_frame js code message status)) s"

definition ws_send_done ::
  "('j, 'w) socket_api \<Rightarrow> 'j json_lib \<Rightarrow> 'j \<Rightarrow> ('j, 'w) ws_stream \<Rightarrow> ('j, 'w) ws_stream" where
  "ws_send_done api js payload s =
     ws_close api NormalClosure [] (ws_enqueue api (ws_make_frame js ''done'' payload) s)"

section \<open>Reachable streams\<close>

inductive ws_step :: "('j, 'w) socket_api \<Rightarrow> ('j, 'w) ws_stream \<Rightarrow> ('j, 'w) ws_stream \<Rightarrow> bool" for api where
  Enqueue: "ws_step api s (ws_enqueue api frame s)"
| Close: "ws_step api s (ws_close api code reason s)"
| World: "ws_step api s (s\<lparr>ws_world := w\<rparr>)"

definition ws_ok :: "nat \<Rightarrow> ('j, 'w) ws_stream \<Rightarrow> bool" where [inv_defs]:
  "ws_ok m s \<longleftrightarrow> ws_pending s = [] \<and> ws_max s = m"

lemma ws_flush_frames_ok: "ws_max (ws_flush_frames api fs s) = ws_max s \<and> ws_pending (ws_flush_frames api fs s) = []"
  by (induction api fs s rule: ws_flush_frames.induct) simp_all

lemma ws_enqueue_ok: "ws_ok m s \<Longrightarrow> ws_ok m (ws_enqueue api frame s)"
  by (simp add: ws_ok_def ws_enqueue_def ws_flush_def ws_flush_frames_ok)

interpretation ws_runs: invariant_system "\<lambda>s. \<exists>h w. s = ws_create api m h w" "ws_step api" "ws_ok m"
  for api :: "('j, 'w) socket_api" and m
proof (unfold_locales, goal_cases)
  case (1 s)
  then show ?case by (auto simp: ws_ok_def ws_create_def)
next
  case (2 s t)
  from 2(2,1) show ?case
    by (induction rule: ws_step.induct) (auto simp: ws_enqueue_ok, auto simp: ws_ok_def ws_close_def)
qed

text \<open>The limit of the queue is never reached: every operation leaves the queue empty, so that with a positive limit
  a frame is written to the connection at once, or the stream closes because the peer is gone; the stream never
  closes with \<open>kTryAgainLater\<close>, however slow the peer is.\<close>

theorem backpressure_never_applies:
  assumes "(ws_step api)\<^sup>*\<^sup>* (ws_create api m heartbeat w) s" and "0 < m"
  shows "ws_pending s = [] \<and>
    ws_enqueue api frame s =
      (if ws_closed s then s
       else if sk_connected api (ws_world s) then s\<lparr>ws_world := sk_send api frame (ws_world s)\<rparr>
       else s\<lparr>ws_closed := True\<rparr>)"
proof -
  have ok: "ws_pending s = []" "ws_max s = m"
    using ws_runs.reachable_good [OF _ assms(1)] by (auto simp: ws_ok_def)
  then show ?thesis
    using assms(2) by (cases s) (simp add: ws_enqueue_def ws_flush_def)
qed

fun send_all :: "('j, 'w) socket_api \<Rightarrow> 'j list \<Rightarrow> ('j, 'w) ws_stream \<Rightarrow> ('j, 'w) ws_stream" where
  "send_all api [] s = s"
| "send_all api (f # fs) s = send_all api fs (ws_enqueue api f s)"

lemma send_all_connected:
  assumes "\<And>w. sk_connected api w"
  shows "ws_pending s = [] \<Longrightarrow> \<not> ws_closed s \<Longrightarrow> 0 < ws_max s \<Longrightarrow>
    send_all api fs s = s\<lparr>ws_world := fold (sk_send api) fs (ws_world s)\<rparr>"
  using assms
  by (induction fs arbitrary: s) (simp_all add: ws_enqueue_def ws_flush_def)

text \<open>A peer that stays connected gets every frame once and in order, then the final frame and the normal closure;
  after that nothing is sent any more.\<close>

theorem websocket_delivers:
  assumes "\<And>w. sk_connected api w" and "0 < m"
  shows "ws_send_done api js payload (send_all api fs (ws_create api m h w)) =
    \<lparr> ws_pending = [], ws_closed = True, ws_max = m,
      ws_world = sk_shutdown api NormalClosure [] (sk_send api (ws_make_frame js ''done'' payload)
        (fold (sk_send api) fs (sk_ping api (if h > 0 then Some h else None) w))) \<rparr> \<and>
    ws_enqueue api frame (ws_send_done api js payload (send_all api fs (ws_create api m h w))) =
      ws_send_done api js payload (send_all api fs (ws_create api m h w))"
  using assms send_all_connected [OF assms(1), of "ws_create api m h w" fs]
  by (simp add: ws_create_def ws_send_done_def ws_enqueue_def ws_flush_def ws_close_def)

definition sample_socket :: "('j, 'j list) socket_api" where
  "sample_socket = \<lparr> sk_connected = (\<lambda>_. True), sk_send = (\<lambda>f w. w @ [f]), sk_shutdown = (\<lambda>_ _ w. w), sk_ping = (\<lambda>_ w. w) \<rparr>"

theorem backpressure_never_applies_witness:
  "ws_enqueue sample_socket (5 :: nat) (ws_create sample_socket 1 0 []) = (ws_create sample_socket 1 0 [])\<lparr>ws_world := [5]\<rparr>"
  using backpressure_never_applies [OF rtranclp.rtrancl_refl, of 1 sample_socket 0 "[]" 5]
  by (simp add: sample_socket_def ws_create_def)

theorem websocket_delivers_witness:
  "ws_world (ws_send_done sample_socket sample_js (JObj []) (send_all sample_socket [JStr ''a'', JStr ''b'']
      (ws_create sample_socket 1 0 []))) = [JStr ''a'', JStr ''b'', ws_make_frame sample_js ''done'' (JObj [])]"
  using websocket_delivers [of sample_socket 1 sample_js "JObj []" "[JStr ''a'', JStr ''b'']" 0 "[]"]
  by (simp add: sample_socket_def)

end
