(* ===== verification/Log_Time.thy ===== *)
theory Log_Time
  imports SV_Prelude "HOL-Library.Char_ord" "HOL-Library.List_Lexorder"
begin

text \<open>
  \<open>isoTimestampUtc\<close> of \<^verbatim>\<open>SuperAPI._server/src/logging.cpp\<close>: the time of a log line in UTC with microseconds. The calendar of
  \<open>gmtime_r\<close> is that of the C library, for times from 1970 on. The lemmas show that all time stamps before
  the year 10000 have the same length and sort as texts in the order of time.
\<close>

section \<open>The calendar\<close>

definition days_in_year :: "nat \<Rightarrow> nat" where
  "days_in_year y = (if 4 dvd y \<and> (\<not> 100 dvd y \<or> 400 dvd y) then 366 else 365)"

definition month_lengths :: "nat \<Rightarrow> nat list" where
  "month_lengths y = [31, if days_in_year y = 366 then 29 else 28, 31, 30, 31, 30, 31, 31, 30, 31, 30, 31]"

lemma days_in_year_pos: "0 < days_in_year y"
  by (simp add: days_in_year_def)

text \<open>The year from a number of days since the start of a year, and the day in it.\<close>

function civil_year :: "nat \<Rightarrow> nat \<Rightarrow> nat \<times> nat" where
  "civil_year y d = (if d < days_in_year y then (y, d) else civil_year (y + 1) (d - days_in_year y))"
  by pat_completeness auto

termination
  by (relation "measure snd") (auto simp: days_in_year_def split: if_splits)

declare civil_year.simps [simp del]

fun civil_month :: "nat \<Rightarrow> nat list \<Rightarrow> nat \<Rightarrow> nat \<times> nat" where
  "civil_month m [] d = (m, d + 1)"
| "civil_month m (l # ls) d = (if d < l then (m, d + 1) else civil_month (m + 1) ls (d - l))"

section \<open>The time stamp\<close>

text \<open>\<open>setw\<close> with the fill \<open>0\<close>.\<close>

definition zero_filled :: "nat \<Rightarrow> nat \<Rightarrow> string" where
  "zero_filled w n = replicate (w - length (show_nat n)) (CHR ''0'') @ show_nat n"

text \<open>Year, month, day, hour, minute, second and microsecond of a number of microseconds since 1970.\<close>

definition time_fields :: "nat \<Rightarrow> nat list" where
  "time_fields t =
     (let seconds = t div 1000000; days = seconds div 86400; s = seconds mod 86400;
          (y, yday) = civil_year 1970 days; (m, d) = civil_month 1 (month_lengths y) yday
      in [y, m, d, s div 60 div 60, s div 60 mod 60, s mod 60, t mod 1000000])"

text \<open>The format \<open>%FT%T\<close>, the point, the microseconds and \<open>Z\<close>: for every field its width and what follows it.\<close>

definition stamp_format :: "(nat \<times> string) list" where
  "stamp_format = [(4, ''-''), (2, ''-''), (2, ''T''), (2, '':''), (2, '':''), (2, ''.''), (6, ''Z'')]"

fun stamp :: "(nat \<times> string) list \<Rightarrow> nat list \<Rightarrow> string" where
  "stamp ((w, sep) # fs) (n # ns) = zero_filled w n @ sep @ stamp fs ns"
| "stamp _ _ = []"

definition iso_timestamp_utc :: "nat \<Rightarrow> string" where
  "iso_timestamp_utc t = stamp stamp_format (time_fields t)"

section \<open>Order of texts\<close>

lemma less_append_same: "a @ x < a @ y \<longleftrightarrow> x < (y :: 'a :: linorder list)"
  by (induction a) simp_all

lemma less_append_len: "length a = length b \<Longrightarrow> a < b \<Longrightarrow> a @ x < b @ (y :: 'a :: linorder list)"
  by (induction a b rule: list_induct2) auto

fun fixed :: "nat \<Rightarrow> nat \<Rightarrow> string" where
  "fixed 0 n = []"
| "fixed (Suc w) n = fixed w (n div 10) @ [digit_char (n mod 10)]"

lemma fixed_length [simp]: "length (fixed w n) = w"
  by (induction w arbitrary: n) simp_all

lemma fixed_zero: "fixed w 0 = replicate w (CHR ''0'')"
  by (induction w) (simp_all add: digit_chars replicate_append_same)

lemma zero_filled_fixed: "n < 10 ^ w \<Longrightarrow> 0 < w \<Longrightarrow> zero_filled w n = fixed w n"
proof (induction w arbitrary: n)
  case (Suc w)
  show ?case
  proof (cases "n < 10")
    case True
    then show ?thesis
      by (simp add: zero_filled_def show_nat.simps [of n] fixed_zero)
  next
    case False
    then have w: "0 < w" using Suc.prems by (cases w) auto
    have "n div 10 < 10 ^ w" using Suc.prems(1) by (simp add: less_mult_imp_div_less mult.commute)
    from Suc.IH [OF this w] show ?thesis
      using False by (simp add: zero_filled_def show_nat.simps [of n])
  qed
qed simp

lemma digit_less: "a < b \<Longrightarrow> b < 10 \<Longrightarrow> digit_char a < digit_char b"
  by (simp add: digit_char_def less_char_def)

lemma div_mod_less: "a < b \<Longrightarrow> a div k < b div k \<or> a div k = b div k \<and> a mod k < b mod (k :: nat)"
  by (metis div_le_mono div_mult_mod_eq le_neq_implies_less less_imp_le_nat nat_add_left_cancel_less)

lemma fixed_less: "a < b \<Longrightarrow> b < 10 ^ w \<Longrightarrow> fixed w a < fixed w b"
proof (induction w arbitrary: a b)
  case (Suc w)
  have b: "b div 10 < 10 ^ w" using Suc.prems(2) by (simp add: less_mult_imp_div_less mult.commute)
  from div_mod_less [OF Suc.prems(1), of 10] show ?case
  proof
    assume "a div 10 < b div 10"
    from Suc.IH [OF this b] show ?thesis
      by (simp add: less_append_len)
  next
    assume "a div 10 = b div 10 \<and> a mod 10 < b mod 10"
    then show ?thesis
      using digit_less [of "a mod 10" "b mod 10"] by (simp add: less_append_same)
  qed
qed simp

text \<open>The fields fit their widths.\<close>

definition fits :: "(nat \<times> string) list \<Rightarrow> nat list \<Rightarrow> bool" where
  "fits fs ns \<longleftrightarrow> list_all2 (\<lambda>(w, sep) n. 0 < w \<and> n < 10 ^ w) fs ns"

lemma stamp_less: "fits fs ns \<Longrightarrow> fits fs ms \<Longrightarrow> ns < ms \<Longrightarrow> stamp fs ns < stamp fs ms"
proof (induction fs arbitrary: ns ms)
  case (Cons f fs)
  obtain w sep where f: "f = (w, sep)" by fastforce
  obtain n ns' m ms' where ns: "ns = n # ns'" and ms: "ms = m # ms'"
    using Cons.prems by (auto simp: fits_def list_all2_Cons1)
  have w: "0 < w" "n < 10 ^ w" "m < 10 ^ w" and r: "fits fs ns'" "fits fs ms'"
    using Cons.prems by (auto simp: fits_def f ns ms)
  consider "n < m" | "n = m" "ns' < ms'"
    using Cons.prems(3) by (auto simp: ns ms)
  then show ?case
  proof cases
    case 1
    then show ?thesis
      using less_append_len [OF _ fixed_less [OF 1 w(3)]] w by (simp add: f ns ms zero_filled_fixed)
  next
    case 2
    then show ?thesis
      using Cons.IH [OF r] by (simp add: f ns ms less_append_same)
  qed
qed (simp add: fits_def)

lemma stamp_length: "fits fs ns \<Longrightarrow> length (stamp fs ns) = sum_list (map (\<lambda>(w, sep). w + length sep) fs)"
proof (induction fs arbitrary: ns)
  case (Cons f fs)
  then show ?case
    by (cases f) (auto simp: fits_def list_all2_Cons1 zero_filled_fixed)
qed (simp add: fits_def)

section \<open>Order of dates\<close>

lemma civil_year_from: "civil_year y d = (a, x) \<Longrightarrow> y \<le> a \<and> x < days_in_year a"
proof (induction y d rule: civil_year.induct)
  case (1 y d)
  then show ?case
    by (subst (asm) (2) civil_year.simps) (auto split: if_splits)
qed

lemma civil_year_less:
  "civil_year y d = (a, x) \<Longrightarrow> civil_year y d' = (b, z) \<Longrightarrow> d < d' \<Longrightarrow> a < b \<or> a = b \<and> x < z"
proof (induction y d arbitrary: d' rule: civil_year.induct)
  case (1 y d)
  show ?case
  proof (cases "d < days_in_year y")
    case True
    then have "a = y" "x = d" using 1(2) by (simp_all add: civil_year.simps [of y d])
    moreover have "d' < days_in_year y \<Longrightarrow> b = y \<and> z = d'"
      using 1(3) by (simp add: civil_year.simps [of y d'])
    moreover have "\<not> d' < days_in_year y \<Longrightarrow> y + 1 \<le> b"
      using 1(3) civil_year_from [of "y + 1" "d' - days_in_year y" b z] by (simp add: civil_year.simps [of y d'])
    ultimately show ?thesis using 1(4) by fastforce
  next
    case False
    then have "\<not> d' < days_in_year y" "d - days_in_year y < d' - days_in_year y" using 1(4) by auto
    then show ?thesis
      using 1(1) [OF False, of "d' - days_in_year y"] 1(2,3) False
      by (simp add: civil_year.simps [of y d] civil_year.simps [of y d'])
  qed
qed

lemma civil_month_from: "civil_month m ls d = (a, x) \<Longrightarrow> m \<le> a \<and> a \<le> m + length ls"
  by (induction m ls d rule: civil_month.induct) (auto split: if_splits)

lemma civil_month_bound:
  "civil_month m ls d = (a, x) \<Longrightarrow> d < sum_list ls \<Longrightarrow> \<forall>l \<in> set ls. l \<le> k \<Longrightarrow> x \<le> k"
  by (induction m ls d rule: civil_month.induct) (auto split: if_splits)

lemma civil_month_less:
  "civil_month m ls d = (a, x) \<Longrightarrow> civil_month m ls d' = (b, z) \<Longrightarrow> d < d' \<Longrightarrow> a < b \<or> a = b \<and> x < z"
proof (induction m ls d arbitrary: d' rule: civil_month.induct)
  case (2 m l ls d)
  show ?case
  proof (cases "d < l")
    case True
    then show ?thesis
      using 2(2-4) civil_month_from [of "m + 1" ls "d' - l" b z] by (auto split: if_splits)
  next
    case False
    then show ?thesis
      using 2(1) [OF False, of "d' - l"] 2(2-4) by (auto split: if_splits)
  qed
qed auto

lemma month_lengths_sum: "sum_list (month_lengths y) = days_in_year y"
  by (simp add: month_lengths_def days_in_year_def)

fun days_before :: "nat \<Rightarrow> nat" where
  "days_before 0 = 0"
| "days_before (Suc y) = days_before y + days_in_year y"

lemma civil_year_days: "civil_year y d = (a, x) \<Longrightarrow> days_before a + x = days_before y + d"
proof (induction y d rule: civil_year.induct)
  case (1 y d)
  then show ?case
    by (subst (asm) (2) civil_year.simps) (auto split: if_splits)
qed

lemma div_step: "Suc (n + k) div Suc k = (n + k) div Suc k + (if Suc k dvd n then 1 else 0)"
proof -
  have "Suc (n + k) mod Suc k = n mod Suc k"
    using mod_add_self2 [of n "Suc k"] by (simp del: mod_add_self2)
  then show ?thesis
    by (simp only: div_Suc dvd_eq_mod_eq_0) simp
qed

lemma days_before_closed: "days_before n + (n + 99) div 100 = 365 * n + (n + 3) div 4 + (n + 399) div 400"
proof (induction n)
  case (Suc n)
  have "(Suc n + 3) div 4 = (n + 3) div 4 + (if 4 dvd n then 1 else 0)"
    "(Suc n + 99) div 100 = (n + 99) div 100 + (if 100 dvd n then 1 else 0)"
    "(Suc n + 399) div 400 = (n + 399) div 400 + (if 400 dvd n then 1 else 0)"
    using div_step [of n 3] div_step [of n 99] div_step [of n 399] by simp_all
  moreover have "100 dvd n \<Longrightarrow> 4 dvd n" "400 dvd n \<Longrightarrow> 100 dvd n"
    by (auto intro: dvd_trans [of 4 100 n] dvd_trans [of 100 400 n])
  ultimately show ?case
    using Suc by (simp add: days_in_year_def)
qed simp

lemma days_before_mono: "a \<le> b \<Longrightarrow> days_before a \<le> days_before b"
  by (rule lift_Suc_mono_le) simp_all

lemma year_bound:
  assumes "civil_year 1970 d = (y, x)" and "d < 2932897"
  shows "y < 10000"
proof (rule ccontr)
  assume "\<not> y < 10000"
  then have "days_before 10000 \<le> days_before y" by (intro days_before_mono) simp
  moreover have "days_before y + x = days_before 1970 + d"
    by (rule civil_year_days [OF assms(1)])
  moreover have "days_before 10000 = 3652425" "days_before 1970 = 719528"
    using days_before_closed [of 10000] days_before_closed [of 1970] by simp_all
  ultimately show False using assms(2) by simp
qed

lemma date_less:
  assumes "civil_year 1970 d = (y, j)" "civil_month 1 (month_lengths y) j = (m, k)"
    and "civil_year 1970 d' = (y', j')" "civil_month 1 (month_lengths y') j' = (m', k')" and "d < d'"
  shows "[y, m, k] < [y', m', k']"
  using civil_year_less [OF assms(1,3,5)] civil_month_less [of 1 "month_lengths y" j m k j' m' k'] assms(2,4) by auto

section \<open>Properties\<close>

lemma time_fields_less:
  assumes "t < t'"
  shows "time_fields t < time_fields t'"
proof -
  obtain y j m k where a: "civil_year 1970 (t div 1000000 div 86400) = (y, j)" "civil_month 1 (month_lengths y) j = (m, k)"
    by (metis surj_pair)
  obtain y' j' m' k' where b: "civil_year 1970 (t' div 1000000 div 86400) = (y', j')" "civil_month 1 (month_lengths y') j' = (m', k')"
    by (metis surj_pair)
  let ?c = "\<lambda>s :: nat. [s div 60 div 60, s div 60 mod 60, s mod 60]"
  have clock: "s < s' \<Longrightarrow> ?c s < ?c s'" for s s'
    using div_mod_less [of s s' 60] div_mod_less [of "s div 60" "s' div 60" 60] by auto
  have f: "time_fields t = [y, m, k] @ ?c (t div 1000000 mod 86400) @ [t mod 1000000]"
    "time_fields t' = [y', m', k'] @ ?c (t' div 1000000 mod 86400) @ [t' mod 1000000]"
    using a b by (simp_all add: time_fields_def Let_def)
  from div_mod_less [OF assms, of 1000000] show ?thesis
  proof
    assume "t div 1000000 < t' div 1000000"
    from div_mod_less [OF this, of 86400] show ?thesis
    proof
      assume "t div 1000000 div 86400 < t' div 1000000 div 86400"
      then show ?thesis
        unfolding f by (intro less_append_len date_less [OF a b]) simp_all
    next
      assume e: "t div 1000000 div 86400 = t' div 1000000 div 86400 \<and> t div 1000000 mod 86400 < t' div 1000000 mod 86400"
      then have "[y, m, k] = [y', m', k']" using a b by simp
      moreover have "?c (t div 1000000 mod 86400) @ [t mod 1000000] < ?c (t' div 1000000 mod 86400) @ [t' mod 1000000]"
        by (intro less_append_len clock) (use e in simp_all)
      ultimately show ?thesis
        unfolding f by (simp only: less_append_same)
    qed
  next
    assume e: "t div 1000000 = t' div 1000000 \<and> t mod 1000000 < t' mod 1000000"
    then have "[y, m, k] = [y', m', k']" using a b by simp
    then show ?thesis
      using e unfolding f by (simp only: less_append_same) simp
  qed
qed

lemma time_fields_fit:
  assumes "t < 253402300800000000"
  shows "fits stamp_format (time_fields t)"
proof -
  obtain y j m k where a: "civil_year 1970 (t div 1000000 div 86400) = (y, j)" "civil_month 1 (month_lengths y) j = (m, k)"
    by (metis surj_pair)
  have "t div 1000000 div 86400 < 2932897"
    using assms by (simp add: div_mult2_eq [symmetric] less_mult_imp_div_less)
  then have y: "y < 10000" by (rule year_bound [OF a(1)])
  have "j < days_in_year y" using civil_year_from [OF a(1)] by simp
  then have "k \<le> 31"
    by (intro civil_month_bound [OF a(2)]) (simp only: month_lengths_sum, auto simp: month_lengths_def)
  moreover have "m \<le> 13"
    using civil_month_from [OF a(2)] by (simp add: month_lengths_def)
  moreover have "t div 1000000 mod 86400 div 60 div 60 < 100"
  proof -
    have "t div 1000000 mod 86400 < 1440 * 60" by simp
    then have "t div 1000000 mod 86400 div 60 < 24 * 60" by (intro less_mult_imp_div_less) simp
    then have "t div 1000000 mod 86400 div 60 div 60 < 24" by (rule less_mult_imp_div_less)
    then show ?thesis by simp
  qed
  moreover have "n mod 60 < 100" for n :: nat
    using mod_less_divisor [of 60 n] by linarith
  moreover have "t mod 1000000 < 1000000" by simp
  ultimately show ?thesis
    using y a by (simp add: fits_def stamp_format_def time_fields_def Let_def)
qed

text \<open>Time stamps sort in the order of time: of two times before the year 10000 the earlier one has the smaller text, and all
  texts have 27 characters. So the lines of a log can be ordered and cut by their text.\<close>

theorem timestamps_sort:
  assumes "t < t'" and "t' < 253402300800000000"
  shows "iso_timestamp_utc t < iso_timestamp_utc t' \<and> length (iso_timestamp_utc t) = 27 \<and> length (iso_timestamp_utc t') = 27"
proof -
  have "fits stamp_format (time_fields t)" "fits stamp_format (time_fields t')"
    using assms by (auto intro: time_fields_fit)
  then show ?thesis
    using stamp_less time_fields_less [OF assms(1)] stamp_length
    by (simp add: iso_timestamp_utc_def) (simp add: stamp_format_def)
qed

theorem timestamps_sort_witness:
  "iso_timestamp_utc 999999 < iso_timestamp_utc 951782400000000 \<and> iso_timestamp_utc 951782400000000 = ''2000-02-29T00:00:00.000000Z''"
proof -
  have "iso_timestamp_utc 999999 < iso_timestamp_utc 951782400000000"
    using timestamps_sort [of 999999 951782400000000] by simp
  moreover have "digit_char (Suc (Suc 0)) = CHR ''2''" "replicate 5 (CHR ''0'') = ''00000''"
    using digit_chars(3) by (simp_all add: numeral_2_eq_2) (simp add: numeral_eq_Suc)
  then have "iso_timestamp_utc 951782400000000 = ''2000-02-29T00:00:00.000000Z''"
    by (simp add: iso_timestamp_utc_def time_fields_def stamp_format_def civil_year.simps days_in_year_def month_lengths_def
        zero_filled_def show_nat.simps digit_chars)
  ultimately show ?thesis ..
qed

end
