(* ===== verification/Metrics.thy ===== *)
theory Metrics
  imports SV_Prelude "HOL-Library.Char_ord" "HOL-Library.List_Lexorder" "HOL-Library.Product_Lexorder"
begin

text \<open>
  The metrics registry of \<^verbatim>\<open>SuperAPI._server/src/core/Metrics.cpp\<close>: the counters and the latency
  histogram of each series, the observation of a request that is recorded exactly once, and the
  Prometheus text. The counters have 64 bits and wrap; the floating point numbers are the
  parameter \<open>double_ops\<close>; \<open>std::map\<close> is an association list in the order of its keys.
\<close>

section \<open>Ordered maps\<close>

text \<open>\<open>m[k]\<close> followed by an update of the value, with the default value of a new key.\<close>

fun map_upsert :: "'k :: linorder \<Rightarrow> 'v \<Rightarrow> ('v \<Rightarrow> 'v) \<Rightarrow> ('k \<times> 'v) list \<Rightarrow> ('k \<times> 'v) list" where
  "map_upsert k d f [] = [(k, f d)]"
| "map_upsert k d f ((k', v) # m) =
     (if k < k' then (k, f d) # (k', v) # m
      else if k = k' then (k', f v) # m
      else (k', v) # map_upsert k d f m)"

definition lookup_or :: "'v \<Rightarrow> ('k \<times> 'v) list \<Rightarrow> 'k \<Rightarrow> 'v" where
  "lookup_or d m k = (case map_of m k of Some v \<Rightarrow> v | None \<Rightarrow> d)"

lemma map_upsert_keys: "fst ` set (map_upsert k d f m) = insert k (fst ` set m)"
  by (induction k d f m rule: map_upsert.induct) auto

lemma map_upsert_sorted:
  "sorted_wrt (<) (map fst m) \<Longrightarrow> sorted_wrt (<) (map fst (map_upsert k d f m))"
proof (induction k d f m rule: map_upsert.induct)
  case (2 k d f k' v m)
  then show ?case
    using map_upsert_keys [of k d f m] by (auto simp: image_iff)
qed simp

lemma map_of_above: "\<forall>x \<in> fst ` set m. k < x \<Longrightarrow> map_of m (k :: 'k :: linorder) = None"
  by (metis less_irrefl map_of_eq_None_iff)

lemma lookup_upsert:
  "sorted_wrt (<) (map fst m) \<Longrightarrow>
     lookup_or d (map_upsert k d f m) = (lookup_or d m)(k := f (lookup_or d m k))"
proof (induction k d f m rule: map_upsert.induct)
  case (2 k d f k' v m)
  show ?case
  proof (cases "k < k'")
    case True
    then have "map_of m k = None"
      using "2.prems" by (intro map_of_above) (auto intro: less_trans)
    then show ?thesis using True by (auto simp: lookup_or_def)
  next
    case False
    show ?thesis
    proof (cases "k = k'")
      case False
      with \<open>\<not> k < k'\<close> have "lookup_or d (map_upsert k d f m) = (lookup_or d m)(k := f (lookup_or d m k))"
        using "2.IH" "2.prems" by auto
      then have "lookup_or d (map_upsert k d f m) x = ((lookup_or d m)(k := f (lookup_or d m k))) x" for x
        by simp
      then show ?thesis using False \<open>\<not> k < k'\<close> by (auto simp: lookup_or_def fun_eq_iff)
    qed (auto simp: lookup_or_def)
  qed
qed (auto simp: lookup_or_def)

lemma map_upsert_all:
  assumes "list_all (\<lambda>(k, v). P v) m" and "P d" and "\<And>v. P v \<Longrightarrow> P (f v)"
  shows "list_all (\<lambda>(k, v). P v) (map_upsert k d f m)"
  using assms by (induction k d f m rule: map_upsert.induct) auto

section \<open>Series\<close>

record 'd double_ops =
  db_le :: "'d \<Rightarrow> 'd \<Rightarrow> bool"
  db_add :: "'d \<Rightarrow> 'd \<Rightarrow> 'd"
  db_zero :: 'd
  db_buckets :: "'d list" \<comment> \<open>\<open>kDefaultBuckets\<close>: 0.5, 1, 2.5, 5, 10, 25, 50, 100, 250, 500\<close>
  db_format :: "'d \<Rightarrow> string" \<comment> \<open>fixed, six digits\<close>

record 'd histogram =
  hi_buckets :: "'d list"
  hi_counts :: "u64 list"
  hi_sum :: 'd
  hi_total :: u64

record 'd series =
  sm_requests :: u64
  sm_bytes_in :: u64
  sm_bytes_out :: u64
  sm_tokens_in :: u64
  sm_tokens_out :: u64
  sm_stream_events :: u64
  sm_errors :: "(string \<times> u64) list"
  sm_latency :: "'d histogram"

type_synonym series_key = "string \<times> string" \<comment> \<open>company, endpoint\<close>
type_synonym 'd registry = "(series_key \<times> 'd series) list"

definition empty_series :: "'d double_ops \<Rightarrow> 'd series" where
  "empty_series db = \<lparr> sm_requests = 0, sm_bytes_in = 0, sm_bytes_out = 0, sm_tokens_in = 0, sm_tokens_out = 0,
     sm_stream_events = 0, sm_errors = [],
     sm_latency = \<lparr> hi_buckets = [], hi_counts = [], hi_sum = db_zero db, hi_total = 0 \<rparr> \<rparr>"

definition create_histogram :: "'d double_ops \<Rightarrow> 'd histogram" where
  "create_histogram db =
     \<lparr> hi_buckets = db_buckets db, hi_counts = replicate (length (db_buckets db) + 1) 0,
       hi_sum = db_zero db, hi_total = 0 \<rparr>"

definition with_histogram :: "'d double_ops \<Rightarrow> 'd series \<Rightarrow> 'd series" where
  "with_histogram db sr =
     (if hi_buckets (sm_latency sr) = [] then sr\<lparr>sm_latency := create_histogram db\<rparr> else sr)"

definition count_error :: "string \<Rightarrow> 'd series \<Rightarrow> 'd series" where
  "count_error e sr = (if e = [] then sr else sr\<lparr>sm_errors := map_upsert e 0 (\<lambda>n. n + 1) (sm_errors sr)\<rparr>)"

definition increment_error :: "'d double_ops \<Rightarrow> series_key \<Rightarrow> string \<Rightarrow> 'd registry \<Rightarrow> 'd registry" where
  "increment_error db key e reg =
     (if e = [] then reg
      else map_upsert key (empty_series db) (\<lambda>sr. count_error e (with_histogram db sr)) reg)"

text \<open>The index of the first bucket that holds the latency; behind the last for none.\<close>

fun bucket_index :: "'d double_ops \<Rightarrow> 'd \<Rightarrow> 'd list \<Rightarrow> nat" where
  "bucket_index db latency [] = 0"
| "bucket_index db latency (b # bs) =
     (if db_le db latency b then 0 else Suc (bucket_index db latency bs))"

definition record_latency :: "'d double_ops \<Rightarrow> 'd \<Rightarrow> 'd histogram \<Rightarrow> 'd histogram" where
  "record_latency db latency h =
     (let i = bucket_index db latency (hi_buckets h);
          i = (if i < length (hi_buckets h) then i else length (hi_counts h) - 1)
      in h\<lparr>hi_counts := (hi_counts h)[i := hi_counts h ! i + 1], hi_sum := db_add db (hi_sum h) latency,
           hi_total := hi_total h + 1\<rparr>)"

record 'd sample =
  sa_key :: series_key
  sa_latency :: 'd
  sa_bytes_in :: u64
  sa_bytes_out :: u64
  sa_tokens_in :: u64
  sa_tokens_out :: u64
  sa_stream_events :: u64
  sa_error :: string

definition record_in_series :: "'d double_ops \<Rightarrow> 'd sample \<Rightarrow> 'd series \<Rightarrow> 'd series" where
  "record_in_series db x sr =
     (let sr = with_histogram db sr;
          sr = sr\<lparr>sm_requests := sm_requests sr + 1,
                 sm_bytes_in := sm_bytes_in sr + sa_bytes_in x,
                 sm_bytes_out := sm_bytes_out sr + sa_bytes_out x,
                 sm_tokens_in := sm_tokens_in sr + sa_tokens_in x,
                 sm_tokens_out := sm_tokens_out sr + sa_tokens_out x,
                 sm_stream_events := sm_stream_events sr + sa_stream_events x,
                 sm_latency := record_latency db (sa_latency x) (sm_latency sr)\<rparr>
      in count_error (sa_error x) sr)"

definition record_request :: "'d double_ops \<Rightarrow> 'd sample \<Rightarrow> 'd registry \<Rightarrow> 'd registry" where
  "record_request db x reg = map_upsert (sa_key x) (empty_series db) (record_in_series db x) reg"

section \<open>Observations\<close>

record observation =
  ob_company :: string
  ob_endpoint :: string
  ob_bytes_in :: u64
  ob_tokens_in :: u64
  ob_tokens_out :: u64
  ob_stream_events :: u64
  ob_completed :: bool
  ob_status :: nat

definition start_request :: "string \<Rightarrow> string \<Rightarrow> u64 \<Rightarrow> u64 \<Rightarrow> observation" where
  "start_request company endpoint bytes_in tokens_in =
     \<lparr> ob_company = company, ob_endpoint = endpoint, ob_bytes_in = bytes_in, ob_tokens_in = tokens_in,
       ob_tokens_out = 0, ob_stream_events = 0, ob_completed = False, ob_status = 0 \<rparr>"

definition add_stream_events :: "u64 \<Rightarrow> observation \<Rightarrow> observation" where
  "add_stream_events n ob = ob\<lparr>ob_stream_events := ob_stream_events ob + n\<rparr>"

definition add_tokens_out :: "u64 \<Rightarrow> observation \<Rightarrow> observation" where
  "add_tokens_out n ob = ob\<lparr>ob_tokens_out := ob_tokens_out ob + n\<rparr>"

definition add_tokens_in :: "u64 \<Rightarrow> observation \<Rightarrow> observation" where
  "add_tokens_in n ob = ob\<lparr>ob_tokens_in := ob_tokens_in ob + n\<rparr>"

definition resolve_error_type :: "string \<Rightarrow> nat \<Rightarrow> string" where
  "resolve_error_type e status =
     (if e = [] \<and> status \<ge> 400 then (if status \<ge> 500 then ''http_5xx'' else ''http_4xx'') else e)"

text \<open>\<open>latency\<close> is the time since the start at this call.\<close>

definition complete ::
  "'d double_ops \<Rightarrow> 'd \<Rightarrow> nat \<Rightarrow> u64 \<Rightarrow> u64 \<Rightarrow> u64 \<Rightarrow> string \<Rightarrow> observation \<times> 'd registry \<Rightarrow>
   observation \<times> 'd registry" where
  "complete db latency status bytes_out tokens_out stream_events e st =
     (let (ob, reg) = st
      in if ob_completed ob then (ob, reg)
      else let ob = ob\<lparr>ob_completed := True, ob_status := status, ob_tokens_out := tokens_out,
                      ob_stream_events := stream_events\<rparr>
      in (ob, record_request db
            \<lparr> sa_key = (ob_company ob, ob_endpoint ob), sa_latency = latency, sa_bytes_in = ob_bytes_in ob,
              sa_bytes_out = bytes_out, sa_tokens_in = ob_tokens_in ob, sa_tokens_out = ob_tokens_out ob,
              sa_stream_events = ob_stream_events ob, sa_error = resolve_error_type e status \<rparr> reg))"

definition destroy_observation ::
  "'d double_ops \<Rightarrow> 'd \<Rightarrow> observation \<times> 'd registry \<Rightarrow> 'd registry" where
  "destroy_observation db latency st =
     (let (ob, reg) = st
      in if \<not> ob_completed ob
         then snd (complete db latency 0 0 (ob_tokens_out ob) (ob_stream_events ob) ''abandoned'' (ob, reg))
         else reg)"

section \<open>The Prometheus text\<close>

definition escape_label_char :: "char \<Rightarrow> string" where
  "escape_label_char c =
     (if c = CHR 0x5C \<or> c = CHR 0x22 then [CHR 0x5C, c]
      else if c = newline then [CHR 0x5C, CHR ''n''] else [c])"

definition escape_label :: "string \<Rightarrow> string" where
  "escape_label s = concat (map escape_label_char s)"

abbreviation quoted :: "string \<Rightarrow> string" where
  "quoted s \<equiv> [CHR 0x22] @ s @ [CHR 0x22]"

definition label_set :: "series_key \<Rightarrow> string" where
  "label_set key =
     ''company='' @ quoted (escape_label (fst key)) @ '',endpoint='' @ quoted (escape_label (snd key))"

definition show_u64 :: "u64 \<Rightarrow> string" where
  "show_u64 n = show_nat (unat n)"

definition metric_line :: "string \<Rightarrow> string \<Rightarrow> string \<Rightarrow> string" where
  "metric_line name labels value = name @ ''{'' @ labels @ ''} '' @ value @ [newline]"

definition help_text :: "string \<Rightarrow> string \<Rightarrow> string \<Rightarrow> string" where
  "help_text name help kind =
     ''# HELP '' @ name @ '' '' @ help @ [newline] @ ''# TYPE '' @ name @ '' '' @ kind @ [newline]"

definition render_header :: string where
  "render_header =
     help_text ''requests_total'' ''Total number of HTTP requests handled.'' ''counter'' @
     help_text ''errors_total'' ''Total number of error responses by type.'' ''counter'' @
     help_text ''latency_ms'' ''Request latency in milliseconds.'' ''histogram'' @
     help_text ''bytes_in'' ''Total bytes received.'' ''counter'' @
     help_text ''bytes_out'' ''Total bytes sent.'' ''counter'' @
     help_text ''tokens_in'' ''Total tokens received.'' ''counter'' @
     help_text ''tokens_out'' ''Total tokens returned.'' ''counter'' @
     help_text ''stream_events_total'' ''Total number of streamed events emitted.'' ''counter''"

text \<open>The cumulative counts of the buckets, from the running total \<open>acc\<close>.\<close>

fun cumulative :: "u64 \<Rightarrow> u64 list \<Rightarrow> u64 list" where
  "cumulative acc [] = []"
| "cumulative acc (n # ns) = (acc + n) # cumulative (acc + n) ns"

definition inf_bucket :: "'d histogram \<Rightarrow> u64" where
  "inf_bucket h =
     last (0 # cumulative 0 (take (length (hi_buckets h)) (hi_counts h))) + last (hi_counts h)"

definition render_histogram :: "'d double_ops \<Rightarrow> string \<Rightarrow> 'd histogram \<Rightarrow> string" where
  "render_histogram db labels h =
     (if hi_buckets h = [] then []
      else concat (map (\<lambda>(b, n). metric_line ''latency_ms_bucket'' (labels @ '',le='' @ quoted (db_format db b)) (show_u64 n))
             (zip (hi_buckets h) (cumulative 0 (take (length (hi_buckets h)) (hi_counts h))))) @
           metric_line ''latency_ms_bucket'' (labels @ '',le='' @ quoted ''+Inf'') (show_u64 (inf_bucket h)) @
           metric_line ''latency_ms_sum'' labels (db_format db (hi_sum h)) @
           metric_line ''latency_ms_count'' labels (show_u64 (hi_total h)))"

definition render_series :: "'d double_ops \<Rightarrow> series_key \<times> 'd series \<Rightarrow> string" where
  "render_series db entry =
     (let (key, sr) = entry; labels = label_set key
      in metric_line ''requests_total'' labels (show_u64 (sm_requests sr)) @
         metric_line ''bytes_in'' labels (show_u64 (sm_bytes_in sr)) @
         metric_line ''bytes_out'' labels (show_u64 (sm_bytes_out sr)) @
         metric_line ''tokens_in'' labels (show_u64 (sm_tokens_in sr)) @
         metric_line ''tokens_out'' labels (show_u64 (sm_tokens_out sr)) @
         metric_line ''stream_events_total'' labels (show_u64 (sm_stream_events sr)) @
         concat (map (\<lambda>(e, n). metric_line ''errors_total'' (labels @ '',type='' @ quoted (escape_label e)) (show_u64 n))
           (sm_errors sr)) @
         render_histogram db labels (sm_latency sr))"

definition render_prometheus :: "'d double_ops \<Rightarrow> 'd registry \<Rightarrow> string" where
  "render_prometheus db reg = render_header @ concat (map (render_series db) reg)"

section \<open>The histogram agrees with the counters\<close>

lemma sum_list_increment:
  "i < length (xs :: u64 list) \<Longrightarrow> sum_list (xs[i := xs ! i + n]) = sum_list xs + n"
proof (induction xs arbitrary: i)
  case (Cons x xs)
  then show ?case by (cases i) simp_all
qed simp

lemma last_cumulative: "last (acc # cumulative acc ns) = acc + sum_list ns"
proof (induction ns arbitrary: acc)
  case (Cons n ns)
  then show ?case using Cons.IH [of "acc + n"] by (simp add: add.assoc)
qed simp

lemma inf_bucket_sum:
  assumes "length (hi_counts h) = length (hi_buckets h) + 1"
  shows "inf_bucket h = sum_list (hi_counts h)"
proof -
  let ?n = "length (hi_buckets h)"
  have "hi_counts h = take ?n (hi_counts h) @ [last (hi_counts h)]"
    using assms append_butlast_last_id [of "hi_counts h"] by (cases "hi_counts h = []") (auto simp: butlast_conv_take)
  then have "sum_list (hi_counts h) = sum_list (take ?n (hi_counts h) @ [last (hi_counts h)])"
    by (rule arg_cong)
  then have "sum_list (hi_counts h) = sum_list (take ?n (hi_counts h)) + last (hi_counts h)"
    by simp
  then show ?thesis
    using last_cumulative [of 0 "take ?n (hi_counts h)"] by (simp add: inf_bucket_def)
qed

definition histogram_ok :: "'d double_ops \<Rightarrow> 'd histogram \<Rightarrow> bool" where
  "histogram_ok db h \<longleftrightarrow> hi_buckets h = db_buckets db \<and> length (hi_counts h) = length (hi_buckets h) + 1 \<and>
     sum_list (hi_counts h) = hi_total h"

definition series_ok :: "'d double_ops \<Rightarrow> 'd series \<Rightarrow> bool" where
  "series_ok db sr \<longleftrightarrow> histogram_ok db (sm_latency sr) \<and> hi_total (sm_latency sr) = sm_requests sr"

definition registry_ok :: "'d double_ops \<Rightarrow> 'd registry \<Rightarrow> bool" where [inv_defs]:
  "registry_ok db reg \<longleftrightarrow> sorted_wrt (<) (map fst reg) \<and> list_all (\<lambda>(key, sr). series_ok db sr) reg"

lemma create_histogram_ok: "histogram_ok db (create_histogram db)"
  by (simp add: histogram_ok_def create_histogram_def sum_list_replicate)

lemma record_latency_ok:
  assumes "histogram_ok db h"
  shows "histogram_ok db (record_latency db latency h)" "hi_total (record_latency db latency h) = hi_total h + 1"
  using assms by (auto simp: histogram_ok_def record_latency_def Let_def sum_list_increment)

lemma count_error_series [simp]:
  "sm_requests (count_error e sr) = sm_requests sr" "sm_latency (count_error e sr) = sm_latency sr"
  "sm_bytes_in (count_error e sr) = sm_bytes_in sr" "sm_bytes_out (count_error e sr) = sm_bytes_out sr"
  "sm_tokens_out (count_error e sr) = sm_tokens_out sr"
  by (simp_all add: count_error_def)

lemma with_histogram_series [simp]:
  "sm_requests (with_histogram db sr) = sm_requests sr" "sm_bytes_in (with_histogram db sr) = sm_bytes_in sr"
  "sm_bytes_out (with_histogram db sr) = sm_bytes_out sr" "sm_tokens_out (with_histogram db sr) = sm_tokens_out sr"
  by (simp_all add: with_histogram_def)

lemma with_histogram_ok:
  assumes "db_buckets db \<noteq> []" and "series_ok db sr \<or> sr = empty_series db"
  shows "series_ok db (with_histogram db sr)"
  using assms create_histogram_ok [of db]
  by (auto simp: series_ok_def histogram_ok_def with_histogram_def empty_series_def create_histogram_def
      sum_list_replicate)

lemma record_in_series_ok:
  assumes "db_buckets db \<noteq> []" and "series_ok db sr \<or> sr = empty_series db"
  shows "series_ok db (record_in_series db x sr)"
  using with_histogram_ok [OF assms] record_latency_ok [of db "sm_latency (with_histogram db sr)"]
  by (simp add: series_ok_def record_in_series_def Let_def)

lemma map_upsert_series_ok:
  assumes "list_all (\<lambda>(key, sr). series_ok db sr) reg"
    and "\<And>sr. series_ok db sr \<or> sr = empty_series db \<Longrightarrow> series_ok db (f sr)"
  shows "list_all (\<lambda>(key, sr). series_ok db sr) (map_upsert key (empty_series db) f reg)"
  using assms by (induction key "empty_series db" f reg rule: map_upsert.induct) auto

inductive metrics_step :: "'d double_ops \<Rightarrow> 'd registry \<Rightarrow> 'd registry \<Rightarrow> bool" for db where
  metrics_error: "metrics_step db reg (increment_error db key e reg)"
| metrics_record: "metrics_step db reg (record_request db x reg)"

lemma count_error_ok [simp]: "series_ok db (count_error e sr) = series_ok db sr"
  by (simp add: series_ok_def)

lemma registry_ok_step:
  assumes "db_buckets db \<noteq> []" and "registry_ok db reg" and "metrics_step db reg reg'"
  shows "registry_ok db reg'"
  using assms(3,1,2)
proof cases
  case (metrics_error key e)
  then show ?thesis
    using assms(2) map_upsert_series_ok [of db reg "\<lambda>sr. count_error e (with_histogram db sr)" key]
      with_histogram_ok [OF assms(1)]
    by (simp add: registry_ok_def increment_error_def map_upsert_sorted)
next
  case (metrics_record x)
  then show ?thesis
    using assms(2) map_upsert_series_ok [of db reg "record_in_series db x" "sa_key x"]
      record_in_series_ok [OF assms(1)]
    by (simp add: registry_ok_def record_request_def map_upsert_sorted)
qed

lemma registry_ok_start: "registry_ok db []"
  by (simp add: registry_ok_def)

interpretation metrics_sys: invariant_system "\<lambda>reg. reg = []" "metrics_step db"
  "\<lambda>reg. db_buckets db \<noteq> [] \<longrightarrow> registry_ok db reg" for db
  by unfold_locales (auto intro: registry_ok_step registry_ok_start)

text \<open>After any sequence of recorded requests and errors, each series has one entry, the \<open>+Inf\<close> bucket of the
  rendered histogram, the rendered count and the request counter of the series are the same number, and the
  histogram has the default buckets.\<close>

theorem histogram_matches_requests:
  assumes "db_buckets db \<noteq> []" and "(metrics_step db)\<^sup>*\<^sup>* [] reg" and "(key, sr) \<in> set reg"
  shows "map_of reg key = Some sr \<and> hi_buckets (sm_latency sr) = db_buckets db \<and>
    inf_bucket (sm_latency sr) = hi_total (sm_latency sr) \<and> hi_total (sm_latency sr) = sm_requests sr"
proof -
  have ok: "registry_ok db reg" using metrics_sys.reachable_good [OF refl assms(2)] assms(1) by blast
  then have "distinct (map fst reg)"
    by (auto simp: registry_ok_def strict_sorted_iff)
  then have "map_of reg key = Some sr" using assms(3) by simp
  moreover have "series_ok db sr" using ok assms(3) by (auto simp: registry_ok_def list_all_iff)
  ultimately show ?thesis by (simp add: series_ok_def histogram_ok_def inf_bucket_sum)
qed

section \<open>Totals\<close>

definition record_all :: "'d double_ops \<Rightarrow> 'd sample list \<Rightarrow> 'd registry" where
  "record_all db xs = fold (record_request db) xs []"

lemma record_in_series_totals:
  "sm_requests (record_in_series db x sr) = sm_requests sr + 1"
  "sm_bytes_in (record_in_series db x sr) = sm_bytes_in sr + sa_bytes_in x"
  "sm_bytes_out (record_in_series db x sr) = sm_bytes_out sr + sa_bytes_out x"
  "sm_tokens_out (record_in_series db x sr) = sm_tokens_out sr + sa_tokens_out x"
  by (simp_all add: record_in_series_def Let_def)

lemma record_fold_sorted:
  "sorted_wrt (<) (map fst reg) \<Longrightarrow> sorted_wrt (<) (map fst (fold (record_request db) xs reg))"
  by (induction xs arbitrary: reg) (simp_all add: record_request_def map_upsert_sorted)

lemma record_fold_totals:
  assumes "sorted_wrt (<) (map fst reg)"
  shows "let sr = lookup_or (empty_series db) reg key;
      sr' = lookup_or (empty_series db) (fold (record_request db) xs reg) key;
      ys = filter (\<lambda>x. sa_key x = key) xs
    in sm_requests sr' = sm_requests sr + of_nat (length ys) \<and>
      sm_bytes_in sr' = sm_bytes_in sr + sum_list (map sa_bytes_in ys) \<and>
      sm_bytes_out sr' = sm_bytes_out sr + sum_list (map sa_bytes_out ys) \<and>
      sm_tokens_out sr' = sm_tokens_out sr + sum_list (map sa_tokens_out ys)"
  using assms
proof (induction xs arbitrary: reg)
  case (Cons x xs)
  have sorted: "sorted_wrt (<) (map fst (record_request db x reg))"
    using Cons.prems by (simp add: record_request_def map_upsert_sorted)
  have "lookup_or (empty_series db) (record_request db x reg) key =
      (if sa_key x = key then record_in_series db x (lookup_or (empty_series db) reg key)
       else lookup_or (empty_series db) reg key)"
    using Cons.prems by (auto simp: record_request_def lookup_upsert)
  then show ?case
    using Cons.IH [OF sorted] by (simp add: Let_def record_in_series_totals add.assoc)
qed (simp add: Let_def)

text \<open>The counters of a series are the number of its recorded requests and the sums of their bytes and tokens,
  modulo \<open>2 ^ 64\<close>, whatever the requests of other series are.\<close>

theorem series_totals:
  "let sr = lookup_or (empty_series db) (record_all db xs) key; ys = filter (\<lambda>x. sa_key x = key) xs
   in sm_requests sr = of_nat (length ys) \<and> sm_bytes_in sr = sum_list (map sa_bytes_in ys) \<and>
      sm_bytes_out sr = sum_list (map sa_bytes_out ys) \<and> sm_tokens_out sr = sum_list (map sa_tokens_out ys)"
  using record_fold_totals [of "[]" db key xs]
  by (simp add: record_all_def lookup_or_def empty_series_def)

section \<open>An observation is recorded once\<close>

type_synonym 'd completion = "'d \<times> nat \<times> u64 \<times> u64 \<times> u64 \<times> string"

fun complete_all :: "'d double_ops \<Rightarrow> 'd completion list \<Rightarrow> observation \<times> 'd registry \<Rightarrow> observation \<times> 'd registry" where
  "complete_all db [] st = st"
| "complete_all db ((latency, status, bytes_out, tokens_out, events, e) # cs) st =
     complete_all db cs (complete db latency status bytes_out tokens_out events e st)"

lemma complete_all_done: "ob_completed ob \<Longrightarrow> complete_all db cs (ob, reg) = (ob, reg)"
  by (induction db cs "(ob, reg)" rule: complete_all.induct) (simp_all add: complete_def)

lemma complete_sets: "ob_completed (fst (complete db latency status bo tk ev e st))"
  by (simp add: complete_def Let_def split: prod.split)

lemma complete_registry:
  assumes "\<not> ob_completed ob"
  shows "\<exists>x. sa_key x = (ob_company ob, ob_endpoint ob) \<and>
    snd (complete db latency status bo tk ev e (ob, reg)) = record_request db x reg \<and>
    sa_error x = resolve_error_type e status"
  using assms
  by (intro exI [of _ "\<lparr> sa_key = (ob_company ob, ob_endpoint ob), sa_latency = latency,
        sa_bytes_in = ob_bytes_in ob, sa_bytes_out = bo, sa_tokens_in = ob_tokens_in ob, sa_tokens_out = tk,
        sa_stream_events = ev, sa_error = resolve_error_type e status \<rparr>"])
     (simp add: complete_def)

text \<open>However often a request is reported complete, zero times included, its observation is recorded exactly once by
  the time it is destroyed: by the first report, or as \<open>abandoned\<close>.\<close>

theorem observation_recorded_once:
  assumes "\<not> ob_completed ob"
  shows "\<exists>x. destroy_observation db latency (complete_all db cs (ob, reg)) = record_request db x reg \<and>
    sa_key x = (ob_company ob, ob_endpoint ob) \<and>
    sa_error x = (case cs of [] \<Rightarrow> ''abandoned'' | (_, status, _, _, _, e) # _ \<Rightarrow> resolve_error_type e status)"
proof (cases cs)
  case Nil
  then show ?thesis
    using assms complete_registry [OF assms, of db latency 0 0 "ob_tokens_out ob" "ob_stream_events ob" "''abandoned''" reg]
    by (auto simp: destroy_observation_def resolve_error_type_def)
next
  case (Cons c cs')
  obtain l status bo tk ev e where c: "c = (l, status, bo, tk, ev, e)" by (cases c)
  obtain ob' reg' where first: "complete db l status bo tk ev e (ob, reg) = (ob', reg')"
    by (cases "complete db l status bo tk ev e (ob, reg)")
  then have completed: "ob_completed ob'" using complete_sets [of db l status bo tk ev e "(ob, reg)"] by simp
  obtain x where "sa_key x = (ob_company ob, ob_endpoint ob)" "reg' = record_request db x reg"
    "sa_error x = resolve_error_type e status"
    using complete_registry [OF assms, of db l status bo tk ev e reg] first by auto
  then show ?thesis
    using Cons c first completed by (auto simp: complete_all_done destroy_observation_def)
qed

section \<open>Labels\<close>

fun unescape_label :: "string \<Rightarrow> string" where
  "unescape_label (c # d # s) =
     (if c = CHR 0x5C then (if d = CHR ''n'' then newline else d) # unescape_label s
      else c # unescape_label (d # s))"
| "unescape_label s = s"

lemma escape_label_char_cases:
  "escape_label_char c = [CHR 0x5C, c] \<and> (c = CHR 0x5C \<or> c = CHR 0x22) \<or>
   escape_label_char c = [CHR 0x5C, CHR ''n''] \<and> c = newline \<or>
   escape_label_char c = [c] \<and> c \<noteq> CHR 0x5C \<and> c \<noteq> CHR 0x22 \<and> c \<noteq> newline"
  by (auto simp: escape_label_char_def)

lemma unescape_plain: "c \<noteq> CHR 0x5C \<Longrightarrow> unescape_label (c # s) = c # unescape_label s"
  by (cases s) auto

text \<open>A label value is read back from its escaped form, which has no line break, so no company or endpoint name
  of a client can add a line to the metrics text.\<close>

theorem label_roundtrip: "unescape_label (escape_label s) = s \<and> newline \<notin> set (escape_label s)"
proof (induction s)
  case (Cons c s)
  then show ?case
    using escape_label_char_cases [of c]
    by (elim disjE conjE) (simp_all add: escape_label_def unescape_plain)
qed (simp add: escape_label_def)

section \<open>Concrete metrics\<close>

definition sample_db :: "nat double_ops" where
  "sample_db = \<lparr> db_le = (\<le>), db_add = (+), db_zero = 0, db_buckets = [1, 5], db_format = show_nat \<rparr>"

definition sample_sample :: "nat \<Rightarrow> nat sample" where
  "sample_sample latency = \<lparr> sa_key = (''c'', ''/e''), sa_latency = latency, sa_bytes_in = 1, sa_bytes_out = 2,
     sa_tokens_in = 0, sa_tokens_out = 3, sa_stream_events = 0, sa_error = [] \<rparr>"

theorem histogram_matches_requests_witness:
  "(let sr = snd (hd (record_request sample_db (sample_sample 7) []))
    in inf_bucket (sm_latency sr) = sm_requests sr \<and> hi_buckets (sm_latency sr) = [1, 5])"
  using histogram_matches_requests [of sample_db "record_request sample_db (sample_sample 7) []", OF _ r_into_rtranclp,
      OF _ metrics_record, of "(''c'', ''/e'')" "snd (hd (record_request sample_db (sample_sample 7) []))"]
  by (simp add: record_request_def sample_sample_def sample_db_def Let_def)

theorem observation_recorded_once_witness:
  "\<exists>x. destroy_observation sample_db 9
      (complete_all sample_db [(4, 500, 1, 2, 0, []), (5, 200, 1, 2, 0, [])] (start_request ''c'' ''/e'' 1 0, [])) =
      record_request sample_db x [] \<and> sa_error x = ''http_5xx''"
  using observation_recorded_once [of "start_request ''c'' ''/e'' 1 0" sample_db 9
      "[(4, 500, 1, 2, 0, []), (5, 200, 1, 2, 0, [])]" "[]"]
  by (auto simp: start_request_def resolve_error_type_def)

end
