(* ===== verification/Tracing.thy ===== *)
theory Tracing
  imports Provider_Registry Metrics
begin

text \<open>
  The tracer of \<^verbatim>\<open>SuperAPI._server/src/core/Tracing.cpp\<close>: identifiers, the \<open>traceparent\<close> header, the
  configuration with its environment references, the spans, the per-thread stacks of open spans and
  the export to the collector. The spans live in a heap indexed by numbers; a \<open>weak_ptr\<close> of a
  stack is such a number, and it can be locked while the span is alive. The random device, the
  clock, the serializer of the JSON library and the HTTP client are the parameter \<open>trace_env\<close>.
  \<open>std::unordered_map\<close> is an association list in the order of insertion.
\<close>

section \<open>Parameters\<close>

text \<open>A JSON document as \<open>exportSpan\<close> builds it.\<close>

datatype 'd trace_json =
    TString string
  | TInt int
  | TDouble 'd
  | TBool bool
  | TArray "'d trace_json list"
  | TObject "(string \<times> 'd trace_json) list"

record ('d, 'w) trace_env =
  te_random :: "'w \<Rightarrow> byte \<times> 'w"
  te_now :: "'w \<Rightarrow> int" \<comment> \<open>\<open>system_clock::now\<close> in nanoseconds\<close>
  te_dump :: "'d trace_json \<Rightarrow> string res" \<comment> \<open>\<open>dump\<close> throws on text that is not UTF-8\<close>
  te_header_key :: "string \<Rightarrow> string" \<comment> \<open>what the order of \<open>cpr::Header\<close> compares\<close>
  te_post :: "string \<Rightarrow> headers \<Rightarrow> string \<Rightarrow> 'w \<Rightarrow> 'w" \<comment> \<open>\<open>cpr::Post\<close>; the response is only logged\<close>

section \<open>Identifiers\<close>

fun random_bytes :: "('d, 'w) trace_env \<Rightarrow> nat \<Rightarrow> 'w \<Rightarrow> byte list \<times> 'w" where
  "random_bytes te 0 w = ([], w)"
| "random_bytes te (Suc n) w =
     (let (b, w) = te_random te w; (bs, w) = random_bytes te n w in (b # bs, w))"

definition hex_char :: "nat \<Rightarrow> char" where
  "hex_char d = (if d < 10 then char_of (48 + d) else char_of (87 + d))"

definition hex_byte :: "byte \<Rightarrow> string" where
  "hex_byte b = [hex_char (unat b div 16), hex_char (unat b mod 16)]"

text \<open>The callers ask for 8 and 16 bytes, which fit the buffer of 16.\<close>

definition generate_id :: "('d, 'w) trace_env \<Rightarrow> nat \<Rightarrow> 'w \<Rightarrow> string \<times> 'w" where
  "generate_id te n w =
     (let (bs, w) = random_bytes te n w;
          bs = (if list_all (\<lambda>b. b = 0) bs then bs[n - 1 := 1] else bs)
      in (concat (map hex_byte bs), w))"

record span_context =
  sc_trace_id :: string
  sc_span_id :: string
  sc_flags :: string

definition empty_context :: span_context where
  "empty_context = \<lparr> sc_trace_id = [], sc_span_id = [], sc_flags = ''01'' \<rparr>"

definition ctx_valid :: "span_context \<Rightarrow> bool" where
  "ctx_valid c \<longleftrightarrow> sc_trace_id c \<noteq> [] \<and> sc_span_id c \<noteq> []"

definition make_context :: "('d, 'w) trace_env \<Rightarrow> 'w \<Rightarrow> span_context \<times> 'w" where
  "make_context te w =
     (let (t, w) = generate_id te 16 w; (i, w) = generate_id te 8 w
      in (\<lparr> sc_trace_id = t, sc_span_id = i, sc_flags = ''01'' \<rparr>, w))"

section \<open>The traceparent header\<close>

text \<open>At most \<open>n\<close> pieces between dashes; what follows the last of \<open>n\<close> pieces is dropped.\<close>

fun split_parts :: "nat \<Rightarrow> string \<Rightarrow> string list" where
  "split_parts 0 s = []"
| "split_parts (Suc n) s =
     (case break_at (CHR ''-'') s of
        (a, None) \<Rightarrow> [a]
      | (a, Some rest) \<Rightarrow> a # split_parts n rest)"

definition extract_traceparent :: "string \<Rightarrow> span_context" where
  "extract_traceparent s =
     (if s = [] then empty_context
      else case split_parts 4 s of
             [version, trace, parent, flags] \<Rightarrow>
               if version \<noteq> ''00'' then empty_context
               else if length trace = 32 \<and> length parent = 16
               then \<lparr> sc_trace_id = trace, sc_span_id = parent, sc_flags = flags \<rparr>
               else empty_context
           | _ \<Rightarrow> empty_context)"

definition build_traceparent :: "span_context \<Rightarrow> string" where
  "build_traceparent c =
     (if \<not> ctx_valid c then []
      else ''00-'' @ sc_trace_id c @ ''-'' @ sc_span_id c @ ''-'' @ sc_flags c)"

section \<open>Configuration\<close>

text \<open>
  \<open>resolveEnv\<close> as the loop of the code over the value and the position; a replacement is
  not scanned again.
\<close>

definition env_reference :: "environ \<Rightarrow> string \<Rightarrow> string" where
  "env_reference env expr =
     (let (key, fallback) =
            (case find_sub '':-'' expr of
               None \<Rightarrow> (expr, [])
             | Some i \<Rightarrow> (take i expr, drop (i + 2) expr))
      in case get_env env key of
           Some v \<Rightarrow> if v \<noteq> [] then v else fallback
         | None \<Rightarrow> fallback)"

function resolve_env_at :: "environ \<Rightarrow> string \<Rightarrow> nat \<Rightarrow> string" where
  "resolve_env_at env value pos =
     (case find_sub ''${'' (drop pos value) of
        None \<Rightarrow> value
      | Some i \<Rightarrow>
          (let pos = pos + i in
           case find_sub ''}'' (drop (pos + 2) value) of
             None \<Rightarrow> value
           | Some j \<Rightarrow>
               (let replacement = env_reference env (take j (drop (pos + 2) value))
                in resolve_env_at env (take pos value @ replacement @ drop (pos + 2 + j + 1) value)
                     (pos + length replacement))))"
  by pat_completeness auto

termination
proof (relation "measure (\<lambda>(env, value, pos). length value - pos)", goal_cases)
  case (2 env s pos i p j r)
  then have "prefix ''}'' (drop j (drop (p + 2) s))"
    using find_sub_Some by blast
  then have "p + 2 + j < length s"
    by (auto simp: prefix_def intro: ccontr)
  moreover have "pos \<le> p"
    using 2 by simp
  ultimately show ?case
    by simp
qed simp

declare resolve_env_at.simps [simp del]

definition resolve_env :: "environ \<Rightarrow> string \<Rightarrow> string" where
  "resolve_env env value = resolve_env_at env value 0"


text \<open>
  What the configuration readers use beside the operations of the provider registry: \<open>as<T>(fallback)\<close> for
  strings, flags and 32 bit numbers, \<open>as<std::string>()\<close>, which throws, and the elements of a sequence.
\<close>

record 'y config_yaml = "'y yaml_lib" +
  ya_text_or :: "'y \<Rightarrow> string \<Rightarrow> string"
  ya_flag_or :: "'y \<Rightarrow> bool \<Rightarrow> bool"
  ya_u32_or :: "'y \<Rightarrow> u32 \<Rightarrow> u32"
  ya_string :: "'y \<Rightarrow> string res"
  ya_is_sequence :: "'y \<Rightarrow> bool"
  ya_items :: "'y \<Rightarrow> 'y list"

text \<open>The successive items of \<open>std::getline(stream, item, delimiter)\<close>.\<close>

fun getdelim :: "char \<Rightarrow> string \<Rightarrow> string \<Rightarrow> string list" where
  "getdelim d acc [] = (if acc = [] then [] else [rev acc])"
| "getdelim d acc (c # cs) = (if c = d then rev acc # getdelim d [] cs else getdelim d (c # acc) cs)"

definition add_otlp_header :: "string \<Rightarrow> (string \<times> string) list \<Rightarrow> (string \<times> string) list" where
  "add_otlp_header item hs =
     (case break_at (CHR ''='') item of
        (_, None) \<Rightarrow> hs
      | (k, Some v) \<Rightarrow>
          (let k = trim k; v = trim v
           in if k \<noteq> [] \<and> v \<noteq> [] then map_upsert k [] (\<lambda>_. v) hs else hs))"

definition parse_otlp_headers :: "string \<Rightarrow> (string \<times> string) list \<Rightarrow> (string \<times> string) list" where
  "parse_otlp_headers text hs = fold add_otlp_header (getdelim (CHR '','') [] text) hs"

definition traces_endpoint :: "string \<Rightarrow> string" where
  "traces_endpoint text =
     (let url = trim text;
          url = (if url \<noteq> [] \<and> last url = CHR ''/'' then butlast url else url)
      in if suffix ''/v1/traces'' url then url else url @ ''/v1/traces'')"

record tracer =
  tr_enabled :: bool
  tr_endpoint :: string
  tr_headers :: "(string \<times> string) list"
  tr_service_name :: string
  tr_service_namespace :: string
  tr_service_version :: string
  tr_environment :: string

definition tracer_new :: tracer where
  "tracer_new = \<lparr> tr_enabled = False, tr_endpoint = [], tr_headers = [], tr_service_name = [],
     tr_service_namespace = [], tr_service_version = [], tr_environment = [] \<rparr>"

text \<open>An exception of the YAML library leaves \<open>main\<close>, so that no state is needed then.\<close>

definition configure_service :: "'y config_yaml \<Rightarrow> 'y \<Rightarrow> tracer \<Rightarrow> tracer res" where
  "configure_service ya otel tr =
     bindE (ya_get ya otel ''service'') (\<lambda>service.
     if \<not> ya_defined ya service then Inr tr
     else bindE (ya_get ya service ''name'') (\<lambda>n.
          bindE (ya_get ya service ''namespace'') (\<lambda>ns.
          bindE (ya_get ya service ''version'') (\<lambda>v.
            Inr (tr\<lparr>tr_service_name := ya_text_or ya n ''superapi'',
                    tr_service_namespace := ya_text_or ya ns [],
                    tr_service_version := ya_text_or ya v []\<rparr>)))))"

definition configure_resources :: "'y config_yaml \<Rightarrow> 'y \<Rightarrow> tracer \<Rightarrow> tracer res" where
  "configure_resources ya otel tr =
     bindE (ya_get ya otel ''resources'') (\<lambda>resources.
     if \<not> ya_defined ya resources then Inr tr
     else bindE (ya_get ya resources ''environment'') (\<lambda>e.
            Inr (tr\<lparr>tr_environment := ya_text_or ya e []\<rparr>)))"

text \<open>The endpoint as it stands in the file, and the headers.\<close>

definition configure_exporter ::
  "'y config_yaml \<Rightarrow> environ \<Rightarrow> 'y \<Rightarrow> (string \<times> (string \<times> string) list) res" where
  "configure_exporter ya env otel =
     bindE (ya_get ya otel ''exporter'') (\<lambda>exporter.
     if \<not> ya_defined ya exporter then Inr ([], [])
     else bindE (ya_get ya exporter ''otlp'') (\<lambda>otlp.
     if \<not> ya_defined ya otlp then Inr ([], [])
     else bindE (ya_get ya otlp ''endpoint'') (\<lambda>en.
          bindE (ya_get ya otlp ''headers'') (\<lambda>hn.
            Inr (if ya_defined ya en then resolve_env env (ya_text_or ya en []) else [],
                 if ya_defined ya hn then parse_otlp_headers (resolve_env env (ya_text_or ya hn [])) [] else [])))))"

definition tracer_configure :: "'y config_yaml \<Rightarrow> environ \<Rightarrow> 'y \<Rightarrow> tracer \<Rightarrow> tracer res" where
  "tracer_configure ya env config tr =
     (let tr = tr\<lparr>tr_enabled := False, tr_endpoint := [], tr_headers := []\<rparr>
      in if \<not> ya_defined ya config then Inr tr
      else bindE (ya_get ya config ''otel'') (\<lambda>otel.
      if \<not> ya_defined ya otel then Inr tr
      else bindE (configure_service ya otel tr) (\<lambda>tr.
           bindE (configure_resources ya otel tr) (\<lambda>tr.
           bindE (configure_exporter ya env otel) (\<lambda>(endpoint, hs).
             let tr = tr\<lparr>tr_headers := hs\<rparr>
             in Inr (if endpoint = [] then tr
                     else tr\<lparr>tr_endpoint := traces_endpoint endpoint, tr_enabled := True\<rparr>))))))"

section \<open>Spans\<close>

datatype 'd attribute = AString string | AInt int | ADouble 'd | ABool bool

type_synonym 'd attributes = "(string \<times> 'd attribute) list"

record 'd span_event =
  ev_name :: string
  ev_time :: int
  ev_attributes :: "'d attributes"

record 'd span =
  sp_name :: string
  sp_context :: span_context
  sp_parent :: span_context
  sp_kind :: string
  sp_attributes :: "'d attributes"
  sp_events :: "'d span_event list"
  sp_start :: int
  sp_end :: int
  sp_otel_status :: int
  sp_http_status :: int
  sp_message :: string
  sp_ended :: bool

text \<open>
  The state of the tracer and its spans: \<open>tc_alive\<close> says whether a \<open>shared_ptr\<close> of the span is left,
  \<open>tc_stacks\<close> has for each thread its \<open>spanStack\<close> from the bottom, and \<open>tc_exports\<close> records what was
  posted, with the number of the span.
\<close>

record ('d, 'w) tracing =
  tc_tracer :: tracer
  tc_spans :: "nat \<Rightarrow> 'd span option"
  tc_alive :: "nat \<Rightarrow> bool"
  tc_next :: nat
  tc_stacks :: "nat \<Rightarrow> nat list"
  tc_exports :: "(nat \<times> string \<times> headers \<times> string) list"
  tc_world :: 'w

definition tracing_new :: "tracer \<Rightarrow> 'w \<Rightarrow> ('d, 'w) tracing" where
  "tracing_new tr w = \<lparr> tc_tracer = tr, tc_spans = Map.empty, tc_alive = (\<lambda>_. False), tc_next = 0,
     tc_stacks = (\<lambda>_. []), tc_exports = [], tc_world = w \<rparr>"

text \<open>\<open>currentSpan\<close> pops the spans that are gone from the top of the stack.\<close>

definition drop_dead :: "(nat \<Rightarrow> bool) \<Rightarrow> nat list \<Rightarrow> nat list" where
  "drop_dead alive stack = rev (dropWhile (\<lambda>i. \<not> alive i) (rev stack))"

definition current_span :: "nat \<Rightarrow> ('d, 'w) tracing \<Rightarrow> nat option \<times> ('d, 'w) tracing" where
  "current_span t st =
     (let stack = drop_dead (tc_alive st) (tc_stacks st t)
      in (if stack = [] then None else Some (last stack), st\<lparr>tc_stacks := (tc_stacks st)(t := stack)\<rparr>))"

definition set_current_span :: "nat \<Rightarrow> nat \<Rightarrow> ('d, 'w) tracing \<Rightarrow> ('d, 'w) tracing" where
  "set_current_span t i st = st\<lparr>tc_stacks := (tc_stacks st)(t := tc_stacks st t @ [i])\<rparr>"

definition clear_current_span :: "nat \<Rightarrow> ('d, 'w) tracing \<Rightarrow> ('d, 'w) tracing" where
  "clear_current_span t st = st\<lparr>tc_stacks := (tc_stacks st)(t := butlast (tc_stacks st t))\<rparr>"

fun release_from :: "(nat \<Rightarrow> bool) \<Rightarrow> nat \<Rightarrow> nat list \<Rightarrow> nat list" where
  "release_from alive i [] = []"
| "release_from alive i (j # js) =
     (if \<not> alive j then release_from alive i js
      else if j = i then js
      else j # release_from alive i js)"

definition release_span :: "nat \<Rightarrow> nat \<Rightarrow> ('d, 'w) tracing \<Rightarrow> ('d, 'w) tracing" where
  "release_span t i st =
     st\<lparr>tc_stacks := (tc_stacks st)(t := release_from (tc_alive st) i (tc_stacks st t))\<rparr>"

definition new_span ::
  "string \<Rightarrow> span_context \<Rightarrow> span_context \<Rightarrow> string \<Rightarrow> 'd attributes \<Rightarrow> int \<Rightarrow> 'd span" where
  "new_span name ctx parent kind attrs now =
     \<lparr> sp_name = name, sp_context = ctx, sp_parent = parent, sp_kind = kind, sp_attributes = attrs,
       sp_events = [], sp_start = now, sp_end = 0, sp_otel_status = 0, sp_http_status = 0,
       sp_message = [], sp_ended = False \<rparr>"

definition context_of :: "('d, 'w) tracing \<Rightarrow> nat \<Rightarrow> span_context" where
  "context_of st i = (case tc_spans st i of Some sp \<Rightarrow> sp_context sp | None \<Rightarrow> empty_context)"

definition start_span ::
  "('d, 'w) trace_env \<Rightarrow> nat \<Rightarrow> string \<Rightarrow> span_context \<Rightarrow> 'd attributes \<Rightarrow> string \<Rightarrow> ('d, 'w) tracing \<Rightarrow>
   nat \<times> ('d, 'w) tracing" where
  "start_span te t name parent attrs kind st =
     (let (parent, st) =
            (if ctx_valid parent then (parent, st)
             else case current_span t st of
                    (Some i, st) \<Rightarrow> (context_of st i, st)
                  | (None, st) \<Rightarrow> (parent, st));
          (ctx, w) =
            (if ctx_valid parent
             then let (i, w) = generate_id te 8 (tc_world st)
                  in (\<lparr> sc_trace_id = sc_trace_id parent, sc_span_id = i, sc_flags = sc_flags parent \<rparr>, w)
             else make_context te (tc_world st));
          i = tc_next st;
          sp = new_span name ctx parent kind attrs (te_now te w)
      in (i, set_current_span t i
               (st\<lparr>tc_spans := (tc_spans st)(i \<mapsto> sp), tc_alive := (tc_alive st)(i := True),
                  tc_next := i + 1, tc_world := w\<rparr>)))"

definition update_span :: "nat \<Rightarrow> ('d span \<Rightarrow> 'd span) \<Rightarrow> ('d, 'w) tracing \<Rightarrow> ('d, 'w) tracing" where
  "update_span i f st = st\<lparr>tc_spans := (tc_spans st)(i := map_option f (tc_spans st i))\<rparr>"

definition span_set_attribute :: "string \<Rightarrow> 'd attribute \<Rightarrow> 'd span \<Rightarrow> 'd span" where
  "span_set_attribute k v sp =
     (if sp_ended sp then sp else sp\<lparr>sp_attributes := al_set k v (sp_attributes sp)\<rparr>)"

definition span_add_event :: "string \<Rightarrow> 'd attributes \<Rightarrow> int \<Rightarrow> 'd span \<Rightarrow> 'd span" where
  "span_add_event name attrs now sp =
     (if sp_ended sp then sp
      else sp\<lparr>sp_events := sp_events sp @ [\<lparr> ev_name = name, ev_time = now, ev_attributes = attrs \<rparr>]\<rparr>)"

section \<open>Export\<close>

fun attribute_to_json :: "'d attribute \<Rightarrow> 'd trace_json" where
  "attribute_to_json (AString s) = TObject [(''stringValue'', TString s)]"
| "attribute_to_json (AInt i) = TObject [(''intValue'', TInt i)]"
| "attribute_to_json (ADouble d) = TObject [(''doubleValue'', TDouble d)]"
| "attribute_to_json (ABool b) = TObject [(''boolValue'', TBool b)]"

definition attributes_json :: "'d attributes \<Rightarrow> 'd trace_json" where
  "attributes_json attrs =
     TArray (map (\<lambda>(k, v). TObject [(''key'', TString k), (''value'', attribute_to_json v)]) attrs)"

text \<open>\<open>toUnixNanos\<close>: the conversion to \<open>std::uint64_t\<close> is modulo \<open>2 ^ 64\<close>.\<close>

definition to_unix_nanos :: "int \<Rightarrow> 'd trace_json" where
  "to_unix_nanos now = TInt (now mod 2 ^ 64)"

definition event_json :: "'d span_event \<Rightarrow> 'd trace_json" where
  "event_json e = TObject
     ([(''name'', TString (ev_name e)), (''timeUnixNano'', to_unix_nanos (ev_time e))] @
      (if ev_attributes e \<noteq> [] then [(''attributes'', attributes_json (ev_attributes e))] else []))"

definition span_json :: "'d span \<Rightarrow> 'd trace_json" where
  "span_json sp = TObject
     ([(''traceId'', TString (sc_trace_id (sp_context sp))), (''spanId'', TString (sc_span_id (sp_context sp)))] @
      (if ctx_valid (sp_parent sp) then [(''parentSpanId'', TString (sc_span_id (sp_parent sp)))] else []) @
      [(''name'', TString (sp_name sp)), (''kind'', TString (sp_kind sp)),
       (''startTimeUnixNano'', to_unix_nanos (sp_start sp)), (''endTimeUnixNano'', to_unix_nanos (sp_end sp))] @
      (if sp_message sp \<noteq> [] \<or> sp_otel_status sp \<noteq> 0
       then [(''status'', TObject ((''code'', TInt (sp_otel_status sp)) #
               (if sp_message sp \<noteq> [] then [(''message'', TString (sp_message sp))] else [])))] else []) @
      (if sp_attributes sp \<noteq> [] then [(''attributes'', attributes_json (sp_attributes sp))] else []) @
      (if sp_events sp \<noteq> [] then [(''events'', TArray (map event_json (sp_events sp)))] else []))"

definition resource_attributes :: "tracer \<Rightarrow> 'd attributes" where
  "resource_attributes tr =
     map (\<lambda>(k, v). (k, AString v))
       (filter (\<lambda>(k, v). v \<noteq> [])
         [(''service.name'', tr_service_name tr), (''service.namespace'', tr_service_namespace tr),
          (''service.version'', tr_service_version tr), (''deployment.environment'', tr_environment tr)])"

definition export_payload :: "tracer \<Rightarrow> 'd span \<Rightarrow> 'd trace_json" where
  "export_payload tr sp =
     TObject [(''resourceSpans'', TArray [TObject
       [(''resource'', TObject [(''attributes'', attributes_json (resource_attributes tr))]),
        (''scopeSpans'', TArray [TObject
          [(''scope'', TObject [(''name'', TString ''superapi.manual'')]), (''spans'', TArray [span_json sp])]])]])]"

fun assign_header :: "('d, 'w) trace_env \<Rightarrow> string \<Rightarrow> string \<Rightarrow> headers \<Rightarrow> headers" where
  "assign_header te k v [] = [(k, v)]"
| "assign_header te k v ((k', v') # hs) =
     (if te_header_key te k = te_header_key te k' then (k', v) # hs else (k', v') # assign_header te k v hs)"

definition export_headers :: "('d, 'w) trace_env \<Rightarrow> tracer \<Rightarrow> headers" where
  "export_headers te tr =
     fold (\<lambda>(k, v). assign_header te k v) (tr_headers tr) [(''Content-Type'', ''application/json'')]"

definition export_span ::
  "('d, 'w) trace_env \<Rightarrow> nat \<Rightarrow> 'd span \<Rightarrow> ('d, 'w) tracing \<Rightarrow> ('d, 'w) tracing res" where
  "export_span te i sp st =
     (let tr = tc_tracer st; hs = export_headers te tr
      in if \<not> tr_enabled tr then Inr st
      else bindE (te_dump te (export_payload tr sp)) (\<lambda>text.
        Inr (st\<lparr>tc_exports := tc_exports st @ [(i, tr_endpoint tr, hs, text)],
               tc_world := te_post te (tr_endpoint tr) hs text (tc_world st)\<rparr>)))"

definition span_end :: "int \<Rightarrow> string \<Rightarrow> int \<Rightarrow> 'd span \<Rightarrow> 'd span" where
  "span_end status message now sp =
     sp\<lparr>sp_ended := True, sp_http_status := status,
        sp_otel_status := (if status \<ge> 400 then 2 else if status > 0 then 1 else 0),
        sp_message := message,
        sp_attributes := (if status > 0 then al_set ''http.status_code'' (AInt status) (sp_attributes sp)
                          else sp_attributes sp),
        sp_end := now\<rparr>"

text \<open>
  \<open>Span::end\<close> on thread \<open>t\<close>. An exception of the export leaves it: the span has ended by then, and
  it stays on its stack.
\<close>

definition end_span ::
  "('d, 'w) trace_env \<Rightarrow> nat \<Rightarrow> nat \<Rightarrow> int \<Rightarrow> string \<Rightarrow> ('d, 'w) tracing \<Rightarrow> unit res \<times> ('d, 'w) tracing" where
  "end_span te t i status message st =
     (case tc_spans st i of
        None \<Rightarrow> (Inr (), st)
      | Some sp \<Rightarrow>
          if sp_ended sp then (Inr (), st)
          else let sp = span_end status message (te_now te (tc_world st)) sp;
                   st = st\<lparr>tc_spans := (tc_spans st)(i \<mapsto> sp)\<rparr>
               in case export_span te i sp st of
                    Inl ex \<Rightarrow> (Inl ex, st)
                  | Inr st \<Rightarrow> (Inr (), release_span t i st))"

text \<open>
  The destructor runs on the thread that gives up the last \<open>shared_ptr\<close>; no \<open>weak_ptr\<close> can be locked any
  more. An exception of \<open>end\<close> terminates the program.
\<close>

definition destroy_span ::
  "('d, 'w) trace_env \<Rightarrow> nat \<Rightarrow> nat \<Rightarrow> ('d, 'w) tracing \<Rightarrow> unit res \<times> ('d, 'w) tracing" where
  "destroy_span te t i st = end_span te t i 0 [] (st\<lparr>tc_alive := (tc_alive st)(i := False)\<rparr>)"

definition tracer_shutdown :: "nat \<Rightarrow> ('d, 'w) tracing \<Rightarrow> ('d, 'w) tracing" where
  "tracer_shutdown t st =
     st\<lparr>tc_tracer := (tc_tracer st)\<lparr>tr_enabled := False, tr_endpoint := [], tr_headers := []\<rparr>,
        tc_stacks := (tc_stacks st)(t := [])\<rparr>"


section \<open>References in a configured value\<close>

datatype segment = Lit string | Ref string "string option"

definition fallback_text :: "string option \<Rightarrow> string" where
  "fallback_text d = (case d of None \<Rightarrow> [] | Some v \<Rightarrow> v)"

definition reference_body :: "string \<Rightarrow> string option \<Rightarrow> string" where
  "reference_body k d = k @ (case d of None \<Rightarrow> [] | Some v \<Rightarrow> '':-'' @ v)"

fun segment_text :: "segment \<Rightarrow> string" where
  "segment_text (Lit l) = l"
| "segment_text (Ref k d) = ''${'' @ reference_body k d @ ''}''"

fun segment_value :: "environ \<Rightarrow> segment \<Rightarrow> string" where
  "segment_value env (Lit l) = l"
| "segment_value env (Ref k d) =
     (case get_env env k of Some v \<Rightarrow> if v \<noteq> [] then v else fallback_text d | None \<Rightarrow> fallback_text d)"

fun segment_ok :: "segment \<Rightarrow> bool" where
  "segment_ok (Lit l) = (CHR ''$'' \<notin> set l)"
| "segment_ok (Ref k d) = (CHR '':'' \<notin> set k \<and> CHR ''}'' \<notin> set (reference_body k d))"

lemma find_sub_skip: "c \<notin> set l \<Longrightarrow> find_sub (c # p) (l @ s) = map_option (\<lambda>i. length l + i) (find_sub (c # p) s)"
  by (cases "find_sub (c # p) s"; induction l) auto

lemma find_sub_absent: "c \<notin> set l \<Longrightarrow> find_sub (c # p) l = None"
  using find_sub_skip [of c l p "[]"] by simp

lemma find_sub_here: "find_sub p (p @ s) = Some 0"
proof (cases "p @ s")
  case (Cons a cs)
  then have "prefix p (a # cs)"
    by (metis prefixI)
  then show ?thesis
    by (simp add: Cons)
qed simp

lemma env_reference_body:
  assumes "CHR '':'' \<notin> set k"
  shows "env_reference env (reference_body k d) = segment_value env (Ref k d)"
proof (cases d)
  case None
  then show ?thesis
    using assms by (cases "get_env env k") (simp_all add: env_reference_def reference_body_def fallback_text_def find_sub_absent)
next
  case (Some v)
  have "find_sub '':-'' (k @ '':-'' @ v) = Some (length k)"
    using find_sub_skip [OF assms, of "''-''" "'':-'' @ v"] find_sub_here [of "'':-''" v] by simp
  then show ?thesis
    by (cases "get_env env k") (simp_all add: env_reference_def reference_body_def fallback_text_def Some)
qed

lemma resolve_literal:
  assumes "CHR ''$'' \<notin> set l"
  shows "resolve_env_at env (pre @ l @ rest) (length pre) =
    resolve_env_at env (pre @ l @ rest) (length pre + length l)"
proof -
  have "find_sub ''${'' (drop (length pre) (pre @ l @ rest)) =
      map_option (\<lambda>i. length l + i) (find_sub ''${'' (drop (length pre + length l) (pre @ l @ rest)))"
    using find_sub_skip [OF assms] by simp
  then show ?thesis
    by (subst (1 2) resolve_env_at.simps)
      (cases "find_sub ''${'' (drop (length pre + length l) (pre @ l @ rest))"; simp add: ac_simps)
qed

lemma resolve_reference:
  assumes "CHR ''}'' \<notin> set expr"
  shows "resolve_env_at env (pre @ ''${'' @ expr @ ''}'' @ rest) (length pre) =
    resolve_env_at env (pre @ env_reference env expr @ rest) (length pre + length (env_reference env expr))"
proof -
  define v where "v = pre @ ''${'' @ expr @ ''}'' @ rest"
  have "find_sub ''${'' (drop (length pre) v) = Some 0"
    using find_sub_here [of "''${''" "expr @ ''}'' @ rest"] by (simp add: v_def)
  moreover have "find_sub ''}'' (drop (length pre + 2) v) = Some (length expr)"
    using find_sub_skip [OF assms, of "[]" "''}'' @ rest"] find_sub_here [of "''}''" rest] by (simp add: v_def)
  moreover have "take (length pre) v = pre" "take (length expr) (drop (length pre + 2) v) = expr"
    "drop (length pre + 2 + length expr + 1) v = rest"
    by (simp_all add: v_def eval_nat_numeral)
  ultimately have "resolve_env_at env v (length pre) =
      resolve_env_at env (pre @ env_reference env expr @ rest) (length pre + length (env_reference env expr))"
    by (subst resolve_env_at.simps) (simp add: Let_def)
  then show ?thesis
    by (simp add: v_def)
qed

lemma resolve_template_at:
  "list_all segment_ok sgs \<Longrightarrow>
   resolve_env_at env (pre @ concat (map segment_text sgs)) (length pre) = pre @ concat (map (segment_value env) sgs)"
proof (induction sgs arbitrary: pre)
  case Nil
  then show ?case
    by (subst resolve_env_at.simps) simp
next
  case (Cons sg sgs)
  let ?rest = "concat (map segment_text sgs)"
  have ih: "resolve_env_at env (pre @ v @ ?rest) (length pre + length v) =
      pre @ v @ concat (map (segment_value env) sgs)" for v
    using Cons.IH [of "pre @ v"] Cons.prems by simp
  show ?case
  proof (cases sg)
    case (Lit l)
    then show ?thesis
      using ih [of l] resolve_literal [of l env pre ?rest] Cons.prems
      by simp
  next
    case (Ref k d)
    then have "CHR '':'' \<notin> set k" "CHR ''}'' \<notin> set (reference_body k d)"
      using Cons.prems by simp_all
    then show ?thesis
      using ih [of "segment_value env sg"] resolve_reference [of "reference_body k d" env pre ?rest]
      by (simp add: Ref env_reference_body)
  qed
qed

text \<open>A configured value is its text with every reference replaced by the value of its variable or by its
  default; what is put in is not scanned again, so no variable can smuggle in another reference.\<close>

theorem resolve_env_template:
  assumes "list_all segment_ok sgs"
  shows "resolve_env env (concat (map segment_text sgs)) = concat (map (segment_value env) sgs)"
  using resolve_template_at [OF assms, of env "[]"] by (simp add: resolve_env_def)

theorem resolve_env_template_witness:
  "resolve_env [''A'' \<mapsto> ''${B}'', ''B'' \<mapsto> ''x''] (''p-'' @ ''${A:-q}'' @ ''/'' @ ''${C:-d}'' @ ''${D}'') = ''p-${B}/d''"
  using resolve_env_template [of "[Lit ''p-'', Ref ''A'' (Some ''q''), Lit ''/'', Ref ''C'' (Some ''d''), Ref ''D'' None]"
      "[''A'' \<mapsto> ''${B}'', ''B'' \<mapsto> ''x'']"]
  by (simp add: fallback_text_def reference_body_def get_env_def c_str_def)

text \<open>The tracer posts only to an address that ends with the path of the OTLP protocol.\<close>

theorem configured_endpoint:
  assumes "tracer_configure ya env config tr = Inr tr'"
  shows "(tr_enabled tr' \<longrightarrow> suffix ''/v1/traces'' (tr_endpoint tr')) \<and> (\<not> tr_enabled tr' \<longrightarrow> tr_endpoint tr' = [])"
proof -
  have service: "configure_service ya otel t = Inr t' \<Longrightarrow> tr_enabled t' = tr_enabled t \<and> tr_endpoint t' = tr_endpoint t"
    for otel t t'
    by (auto simp: configure_service_def bindE_Inr_iff split: if_splits)
  have resources: "configure_resources ya otel t = Inr t' \<Longrightarrow> tr_enabled t' = tr_enabled t \<and> tr_endpoint t' = tr_endpoint t"
    for otel t t'
    by (auto simp: configure_resources_def bindE_Inr_iff split: if_splits)
  have "suffix ''/v1/traces'' (traces_endpoint u)" for u
    by (simp add: traces_endpoint_def Let_def suffix_def)
  then show ?thesis
    using assms unfolding tracer_configure_def Let_def
    by (auto simp: bindE_Inr_iff split: if_splits prod.splits dest!: service resources)
qed

section \<open>Identifiers and the header\<close>

definition is_hex :: "char \<Rightarrow> bool" where
  "is_hex c \<longleftrightarrow> isdigit c \<or> (97 \<le> ord c \<and> ord c \<le> 102)"

lemma hex_char_is_hex: "d < 16 \<Longrightarrow> is_hex (hex_char d)"
  by (auto simp: hex_char_def is_hex_def isdigit_def)

lemma hex_char_zero: "d < 16 \<Longrightarrow> hex_char d = CHR ''0'' \<longleftrightarrow> d = 0"
proof -
  assume "d < 16"
  then have "ord (hex_char d) = (if d < 10 then 48 + d else 87 + d)"
    by (simp add: hex_char_def)
  moreover have "ord (CHR ''0'') = (48 :: nat)"
    by simp
  moreover have "hex_char d = CHR ''0'' \<longleftrightarrow> ord (hex_char d) = ord (CHR ''0'')"
    by (simp only: of_char_eq_iff)
  ultimately show ?thesis
    by simp
qed

lemma hex_byte_hex: "c \<in> set (hex_byte b) \<Longrightarrow> is_hex c"
  using unat_byte_less [of b] by (auto simp: hex_byte_def intro!: hex_char_is_hex)

lemma hex_no_dash: "is_hex c \<Longrightarrow> c \<noteq> CHR ''-''"
  by (auto simp: is_hex_def isdigit_def)

lemma length_random_bytes: "random_bytes te n w = (bs, w') \<Longrightarrow> length bs = n"
  by (induction n arbitrary: w bs) (auto split: prod.splits)

lemma length_hex: "length (concat (map hex_byte bs)) = 2 * length bs"
  by (induction bs) (simp_all add: hex_byte_def)


definition plain_id :: "nat \<Rightarrow> string \<Rightarrow> bool" where
  "plain_id n s \<longleftrightarrow> length s = n \<and> CHR ''-'' \<notin> set s"

lemma generate_id_hex:
  assumes "generate_id te n w = (s, w')"
  shows "length s = 2 * n" and "list_all is_hex s"
proof -
  obtain bs v where bs: "random_bytes te n w = (bs, v)"
    by fastforce
  then obtain cs where "s = concat (map hex_byte cs)" "length cs = n"
    using assms length_random_bytes [OF bs] by (auto simp: generate_id_def Let_def split: if_splits)
  then show "length s = 2 * n" "list_all is_hex s"
    by (auto simp: length_hex list_all_iff dest: hex_byte_hex)
qed

lemma generate_id_plain: "generate_id te n w = (s, w') \<Longrightarrow> plain_id (2 * n) s"
  using generate_id_hex [of te n w s w'] hex_no_dash by (auto simp: plain_id_def list_all_iff)

text \<open>The identifier of zeros, which stands for no span, is never generated.\<close>

lemma hex_byte_zero: "set (hex_byte b) \<subseteq> {CHR ''0''} \<longleftrightarrow> b = 0"
proof -
  have "unat b div 16 = 0 \<and> unat b mod 16 = 0 \<longleftrightarrow> unat b = 0"
    by auto
  then show ?thesis
    using unat_byte_less [of b] by (auto simp: hex_byte_def hex_char_zero unat_eq_zero)
qed

lemma generate_id_nonzero:
  assumes "generate_id te n w = (s, w')" and "0 < n"
  shows "\<exists>c \<in> set s. c \<noteq> CHR ''0''"
proof -
  obtain bs v where bs: "random_bytes te n w = (bs, v)"
    by fastforce
  define cs where "cs = (if list_all (\<lambda>b. b = 0) bs then bs[n - 1 := 1] else bs)"
  have "length bs = n"
    by (rule length_random_bytes [OF bs])
  have "\<exists>b \<in> set cs. b \<noteq> 0"
  proof (cases "list_all (\<lambda>b. b = 0) bs")
    case True
    have "(1 :: byte) \<in> set (bs[n - 1 := 1])"
      using \<open>length bs = n\<close> assms(2) by (intro set_update_memI) simp
    then show ?thesis
      using True zero_neq_one by (metis cs_def)
  next
    case False
    then show ?thesis
      by (auto simp: cs_def list_all_iff)
  qed
  moreover have "s = concat (map hex_byte cs)"
    using assms(1) bs by (simp add: generate_id_def cs_def Let_def)
  ultimately show ?thesis
    using hex_byte_zero by (fastforce simp: subset_iff)
qed

definition wf_context :: "span_context \<Rightarrow> bool" where
  "wf_context c \<longleftrightarrow> plain_id 32 (sc_trace_id c) \<and> plain_id 16 (sc_span_id c) \<and> CHR ''-'' \<notin> set (sc_flags c)"

lemma wf_context_valid: "wf_context c \<Longrightarrow> ctx_valid c"
  by (auto simp: wf_context_def plain_id_def ctx_valid_def)

lemma empty_context_invalid [simp]: "\<not> ctx_valid empty_context"
  by (simp add: ctx_valid_def empty_context_def)

lemma make_context_wf: "make_context te w = (c, w') \<Longrightarrow> wf_context c"
  using generate_id_plain [of te 16] generate_id_plain [of te 8]
  by (force simp: make_context_def wf_context_def Let_def split: prod.splits)

lemma break_at_no_sep: "break_at d s = (a, r) \<Longrightarrow> d \<notin> set a"
  by (auto simp: break_at_def dest: set_takeWhileD)

lemma split_parts_no_dash: "p \<in> set (split_parts n s) \<Longrightarrow> CHR ''-'' \<notin> set p"
proof (induction n s rule: split_parts.induct)
  case (2 n s)
  obtain a r where "break_at (CHR ''-'') s = (a, r)"
    by fastforce
  with 2 show ?case
    by (cases r) (auto dest: break_at_no_sep)
qed simp

lemma extract_wf: "extract_traceparent s = empty_context \<or> wf_context (extract_traceparent s)"
proof -
  have "\<forall>p \<in> set (split_parts 4 s). CHR ''-'' \<notin> set p"
    using split_parts_no_dash by blast
  then show ?thesis
    by (auto simp: extract_traceparent_def wf_context_def plain_id_def split: list.splits)
qed

lemma extract_build:
  assumes "wf_context c"
  shows "extract_traceparent (build_traceparent c) = c"
proof -
  have parts: "CHR ''-'' \<notin> set (sc_trace_id c)" "CHR ''-'' \<notin> set (sc_span_id c)" "CHR ''-'' \<notin> set (sc_flags c)"
    "length (sc_trace_id c) = 32" "length (sc_span_id c) = 16"
    using assms by (simp_all add: wf_context_def plain_id_def)
  have "break_at (CHR ''-'') (''00'' @ ''-'' @ r) = (''00'', Some r)" for r
    using break_at_append [of "CHR ''-''" "''00''" r] by simp
  then have "split_parts 4 (build_traceparent c) = [''00'', sc_trace_id c, sc_span_id c, sc_flags c]"
    using parts wf_context_valid [OF assms]
    by (simp add: build_traceparent_def eval_nat_numeral break_at_none)
  then show ?thesis
    using parts wf_context_valid [OF assms] by (simp add: extract_traceparent_def build_traceparent_def)
qed


section \<open>Runs of the tracer\<close>

text \<open>
  The steps of the threads that use the tracer; a parent comes from a header or from another span. \<open>Tick\<close> is
  whatever the rest of the program does to the world.
\<close>

inductive trace_step :: "('d, 'w) trace_env \<Rightarrow> ('d, 'w) tracing \<Rightarrow> ('d, 'w) tracing \<Rightarrow> bool" for te where
  Start: "wf_context parent \<or> \<not> ctx_valid parent \<Longrightarrow>
    trace_step te st (snd (start_span te t name parent attrs kind st))"
| Attribute: "trace_step te st (update_span i (span_set_attribute k v) st)"
| Event: "trace_step te st (update_span i (span_add_event name attrs now) st)"
| End: "trace_step te st (snd (end_span te t i status message st))"
| Destroy: "trace_step te st (snd (destroy_span te t i st))"
| Current: "trace_step te st (snd (current_span t st))"
| Clear: "trace_step te st (clear_current_span t st)"
| Shutdown: "trace_step te st (tracer_shutdown t st)"
| Tick: "trace_step te st (st\<lparr>tc_world := w\<rparr>)"

definition ended_span :: "('d, 'w) tracing \<Rightarrow> nat \<Rightarrow> 'd span \<Rightarrow> bool" where
  "ended_span st i sp \<longleftrightarrow> tc_spans st i = Some sp \<and> sp_ended sp"

definition exported_ok :: "('d, 'w) trace_env \<Rightarrow> tracer \<Rightarrow> ('d, 'w) tracing \<Rightarrow> bool" where
  "exported_ok te tr st \<longleftrightarrow> distinct (map fst (tc_exports st)) \<and>
     (\<forall>i url hs text. (i, url, hs, text) \<in> set (tc_exports st) \<longrightarrow> url = tr_endpoint tr \<and>
        (\<exists>sp. ended_span st i sp \<and> te_dump te (export_payload tr sp) = Inr text)) \<and>
     (tr_enabled (tc_tracer st) \<longrightarrow>
        (\<forall>i sp. ended_span st i sp \<longrightarrow>
           i \<in> fst ` set (tc_exports st) \<or> \<not> is_ok (te_dump te (export_payload tr sp))))"

definition tracer_ok :: "tracer \<Rightarrow> tracer \<Rightarrow> bool" where
  "tracer_ok tr tr' \<longleftrightarrow> tr' = tr \<or> tr' = tr\<lparr>tr_enabled := False, tr_endpoint := [], tr_headers := []\<rparr>"

definition spans_ok :: "('d, 'w) tracing \<Rightarrow> bool" where
  "spans_ok st \<longleftrightarrow> (\<forall>i \<ge> tc_next st. tc_spans st i = None \<and> \<not> tc_alive st i) \<and>
     (\<forall>i sp. tc_spans st i = Some sp \<longrightarrow> wf_context (sp_context sp) \<and> (tc_alive st i \<or> sp_ended sp))"

definition trace_ok :: "('d, 'w) trace_env \<Rightarrow> tracer \<Rightarrow> ('d, 'w) tracing \<Rightarrow> bool" where [inv_defs]:
  "trace_ok te tr st \<longleftrightarrow> spans_ok st \<and> tracer_ok tr (tc_tracer st) \<and> exported_ok te tr st"

lemma ok_new: "trace_ok te tr (tracing_new tr w)"
  by (simp add: trace_ok_def spans_ok_def tracer_ok_def exported_ok_def tracing_new_def ended_span_def)

lemma ok_irrelevant [simp]:
  "trace_ok te tr (st\<lparr>tc_stacks := ss\<rparr>) = trace_ok te tr st"
  "trace_ok te tr (st\<lparr>tc_world := w\<rparr>) = trace_ok te tr st"
  by (simp_all add: trace_ok_def spans_ok_def tracer_ok_def exported_ok_def ended_span_def)

lemma ok_current: "trace_ok te tr st \<Longrightarrow> trace_ok te tr (snd (current_span t st))"
  by (simp add: current_span_def Let_def)

lemma ok_release: "trace_ok te tr st \<Longrightarrow> trace_ok te tr (release_span t i st)"
  by (simp add: release_span_def)

lemma exported_span_ended:
  assumes "trace_ok te tr st" and "i \<in> fst ` set (tc_exports st)"
  shows "\<exists>sp. ended_span st i sp"
  using assms unfolding trace_ok_def exported_ok_def by fastforce

text \<open>A span that has not ended may change, but for its context.\<close>

lemma ok_update:
  assumes "trace_ok te tr st"
    and "\<And>sp. sp_context (f sp) = sp_context sp" "\<And>sp. sp_ended sp \<Longrightarrow> f sp = sp" "\<And>sp. sp_ended (f sp) = sp_ended sp"
  shows "trace_ok te tr (update_span i f st)"
proof -
  let ?u = "update_span i f st"
  have from_u: "\<exists>sp. tc_spans st j = Some sp \<and> sp_context sp' = sp_context sp \<and> sp_ended sp' = sp_ended sp \<and>
      (sp_ended sp \<longrightarrow> sp' = sp)" if "tc_spans ?u j = Some sp'" for j sp'
    using that assms(2-4) by (cases "j = i") (auto simp: update_span_def)
  have "ended_span ?u j sp = ended_span st j sp" for j sp
    using from_u [of j sp] assms(3) [of sp] by (auto simp: ended_span_def update_span_def)
  then have ended: "ended_span ?u = ended_span st"
    by (intro ext)
  have same: "tc_next ?u = tc_next st" "tc_alive ?u = tc_alive st" "tc_tracer ?u = tc_tracer st"
    "tc_exports ?u = tc_exports st" "\<And>j. tc_spans ?u j = None \<longleftrightarrow> tc_spans st j = None"
    by (simp_all add: update_span_def)
  have "spans_ok ?u" "tracer_ok tr (tc_tracer ?u)"
    using assms(1) unfolding trace_ok_def spans_ok_def same by (auto dest!: from_u)
  moreover have "exported_ok te tr ?u"
    using assms(1) unfolding trace_ok_def exported_ok_def same ended by blast
  ultimately show ?thesis
    by (simp add: trace_ok_def)
qed

lemma ok_attribute: "trace_ok te tr st \<Longrightarrow> trace_ok te tr (update_span i (span_set_attribute k v) st)"
  by (rule ok_update) (simp_all add: span_set_attribute_def)

lemma ok_event: "trace_ok te tr st \<Longrightarrow> trace_ok te tr (update_span i (span_add_event n a now) st)"
  by (rule ok_update) (simp_all add: span_add_event_def)

text \<open>Ending a span: what \<open>end_span\<close> does, case by case.\<close>

definition with_ended :: "nat \<Rightarrow> 'd span \<Rightarrow> ('d, 'w) tracing \<Rightarrow> ('d, 'w) tracing" where
  "with_ended i sp st = st\<lparr>tc_spans := (tc_spans st)(i \<mapsto> sp)\<rparr>"

lemma end_span_cases:
  assumes "end_span te t i status message st = (r, st')"
  obtains (Nothing) "r = Inr ()" "st' = st" "\<And>sp. tc_spans st i = Some sp \<Longrightarrow> sp_ended sp"
  | (Failed) sp sp' ex where "tc_spans st i = Some sp" "\<not> sp_ended sp"
      "sp' = span_end status message (te_now te (tc_world st)) sp" "r = Inl ex" "st' = with_ended i sp' st"
      "tr_enabled (tc_tracer st)" "te_dump te (export_payload (tc_tracer st) sp') = Inl ex"
  | (Silent) sp sp' where "tc_spans st i = Some sp" "\<not> sp_ended sp"
      "sp' = span_end status message (te_now te (tc_world st)) sp" "r = Inr ()"
      "\<not> tr_enabled (tc_tracer st)" "st' = release_span t i (with_ended i sp' st)"
  | (Exported) sp sp' body w where "tc_spans st i = Some sp" "\<not> sp_ended sp"
      "sp' = span_end status message (te_now te (tc_world st)) sp" "r = Inr ()" "tr_enabled (tc_tracer st)"
      "te_dump te (export_payload (tc_tracer st) sp') = Inr body"
      "st' = release_span t i ((with_ended i sp' st)
         \<lparr>tc_exports := tc_exports st @
            [(i, tr_endpoint (tc_tracer st), export_headers te (tc_tracer st), body)], tc_world := w\<rparr>)"
proof (cases "\<exists>sp. tc_spans st i = Some sp \<and> \<not> sp_ended sp")
  case False
  then have "r = Inr ()" "st' = st" "\<And>sp. tc_spans st i = Some sp \<Longrightarrow> sp_ended sp"
    using assms by (auto simp: end_span_def split: option.splits if_splits)
  then show ?thesis by (rule that(1))
next
  case True
  then obtain sp where sp: "tc_spans st i = Some sp" "\<not> sp_ended sp" by blast
  define sp' where "sp' = span_end status message (te_now te (tc_world st)) sp"
  define tr where "tr = tc_tracer st"
  have run: "(case export_span te i sp' (with_ended i sp' st) of
      Inl ex \<Rightarrow> (Inl ex, with_ended i sp' st) | Inr st \<Rightarrow> (Inr (), release_span t i st)) = (r, st')"
    using assms sp by (simp add: end_span_def sp'_def with_ended_def Let_def cong: sum.case_cong)
  have same: "tc_tracer (with_ended i sp' st) = tr" "tc_exports (with_ended i sp' st) = tc_exports st"
    by (simp_all add: with_ended_def tr_def)
  show ?thesis
  proof (cases "tr_enabled tr")
    case False
    then show ?thesis
      using that(3) [OF sp sp'_def] run by (simp add: export_span_def same tr_def Let_def)
  next
    case enabled: True
    show ?thesis
    proof (cases "te_dump te (export_payload tr sp')")
      case (Inl ex)
      then show ?thesis
        using that(2) [OF sp sp'_def, of ex] run enabled by (simp add: export_span_def same Let_def tr_def)
    next
      case (Inr body)
      then show ?thesis
        using that(4) [OF sp sp'_def, of body] run enabled by (auto simp: export_span_def same Let_def tr_def)
    qed
  qed
qed


lemma release_span_same [simp]:
  "tc_tracer (release_span t i st) = tc_tracer st" "tc_spans (release_span t i st) = tc_spans st"
  "tc_exports (release_span t i st) = tc_exports st" "tc_alive (release_span t i st) = tc_alive st"
  "tc_next (release_span t i st) = tc_next st" "tc_world (release_span t i st) = tc_world st"
  by (simp_all add: release_span_def)

lemma with_ended_same [simp]:
  "tc_tracer (with_ended i sp st) = tc_tracer st" "tc_spans (with_ended i sp st) = (tc_spans st)(i \<mapsto> sp)"
  "tc_exports (with_ended i sp st) = tc_exports st" "tc_alive (with_ended i sp st) = tc_alive st"
  "tc_next (with_ended i sp st) = tc_next st" "tc_stacks (with_ended i sp st) = tc_stacks st"
  by (simp_all add: with_ended_def)

lemma span_end_same [simp]:
  "sp_ended (span_end status message now sp)" "sp_context (span_end status message now sp) = sp_context sp"
  by (simp_all add: span_end_def)

lemma tracer_ok_payload:
  "tracer_ok tr tr' \<Longrightarrow> export_payload tr' sp = export_payload tr sp"
  "tracer_ok tr tr' \<Longrightarrow> tr_enabled tr' \<Longrightarrow> tr' = tr"
  by (auto simp: tracer_ok_def export_payload_def resource_attributes_def)

lemma exported_end:
  assumes "exported_ok te tr st" and "tc_spans st i = Some sp" and "\<not> sp_ended sp" and "sp_ended sp'"
    and "xs = [] \<or> (\<exists>hs text. xs = [(i, tr_endpoint tr, hs, text)] \<and> te_dump te (export_payload tr sp') = Inr text)"
    and "xs = [] \<longrightarrow> \<not> tr_enabled (tc_tracer st) \<or> \<not> is_ok (te_dump te (export_payload tr sp'))"
  shows "exported_ok te tr (with_ended i sp' st\<lparr>tc_exports := tc_exports st @ xs\<rparr>)"
proof -
  let ?u = "with_ended i sp' st\<lparr>tc_exports := tc_exports st @ xs\<rparr>"
  have fresh: "i \<notin> fst ` set (tc_exports st)"
    using assms(1,2,3) by (force simp: exported_ok_def ended_span_def)
  have ended: "ended_span ?u j sq \<longleftrightarrow> (if j = i then sq = sp' else ended_span st j sq)" for j sq
    using assms(4) by (auto simp: ended_span_def)
  have "distinct (map fst (tc_exports st))"
    using assms(1) by (simp add: exported_ok_def)
  then have "distinct (map fst (tc_exports st @ xs))"
    using assms(5) fresh by (elim disjE exE conjE) simp_all
  moreover have "url = tr_endpoint tr \<and> (\<exists>sq. ended_span ?u j sq \<and> te_dump te (export_payload tr sq) = Inr body)"
    if "(j, url, hs, body) \<in> set (tc_exports st @ xs)" for j url hs body
  proof (cases "j = i")
    case True
    then have "(j, url, hs, body) \<in> set xs"
      using that fresh by force
    then show ?thesis
      using assms(5) True by (auto simp: ended)
  next
    case False
    then have "(j, url, hs, body) \<in> set (tc_exports st)"
      using that assms(5) by auto
    then show ?thesis
      using False assms(1) unfolding exported_ok_def ended by auto
  qed
  moreover have "j \<in> fst ` set (tc_exports st @ xs) \<or> \<not> is_ok (te_dump te (export_payload tr sq))"
    if "tr_enabled (tc_tracer st)" "ended_span ?u j sq" for j sq
  proof (cases "j = i")
    case True
    then show ?thesis
      using that assms(5,6) ended by auto
  next
    case False
    then have "ended_span st j sq"
      using that(2) ended by simp
    then have "j \<in> fst ` set (tc_exports st) \<or> \<not> is_ok (te_dump te (export_payload tr sq))"
      using that(1) assms(1) unfolding exported_ok_def by blast
    then show ?thesis
      by auto
  qed
  ultimately show ?thesis
    unfolding exported_ok_def by simp
qed

lemma exported_end_silent:
  assumes "exported_ok te tr st" and "tc_spans st i = Some sp" and "\<not> sp_ended sp" and "sp_ended sp'"
    and "\<not> tr_enabled (tc_tracer st) \<or> \<not> is_ok (te_dump te (export_payload tr sp'))"
  shows "exported_ok te tr (with_ended i sp' st)"
proof -
  have same: "with_ended i sp' st\<lparr>tc_exports := tc_exports st @ []\<rparr> = with_ended i sp' st"
    by (simp add: with_ended_def)
  show ?thesis
    by (subst same [symmetric], rule exported_end [OF assms(1-4)]) (use assms(5) in simp_all)
qed

lemma spans_with_ended:
  assumes "spans_ok st" and "tc_spans st i = Some sp"
  shows "spans_ok (with_ended i (span_end status message now sp) st)"
  using assms unfolding spans_ok_def by auto

text \<open>The destructor marks the span before it ends it, so that only the other spans are alive or ended here.\<close>

lemma ok_end_or_destroy:
  assumes ok: "trace_ok te tr st" and st': "st' = snd (end_span te t i status message (st\<lparr>tc_alive := alive\<rparr>))"
    and alive: "alive = tc_alive st \<or> alive = (tc_alive st)(i := False)"
  shows "trace_ok te tr st'"
proof -
  let ?u = "st\<lparr>tc_alive := alive\<rparr>"
  have parts: "tracer_ok tr (tc_tracer st)" "exported_ok te tr ?u"
    using ok by (simp_all add: trace_ok_def exported_ok_def ended_span_def)
  have bound: "\<forall>j \<ge> tc_next st. tc_spans st j = None \<and> \<not> alive j"
    using ok alive by (auto simp: trace_ok_def spans_ok_def split: if_splits)
  have others: "wf_context (sp_context sp) \<and> (alive j \<or> sp_ended sp \<or> j = i)" if "tc_spans st j = Some sp" for j sp
  proof -
    have "wf_context (sp_context sp) \<and> (tc_alive st j \<or> sp_ended sp)"
      using ok that unfolding trace_ok_def spans_ok_def by blast
    then show ?thesis
      using alive by auto
  qed
  obtain r where "end_span te t i status message ?u = (r, st')"
    using st' by (metis prod.collapse)
  then show ?thesis
  proof (cases rule: end_span_cases)
    case Nothing
    then have "spans_ok ?u"
      using bound others unfolding spans_ok_def by auto
    then show ?thesis
      using parts Nothing(2) by (simp add: trace_ok_def)
  next
    case (Failed sp sp' ex)
    have "exported_ok te tr (with_ended i sp' ?u)"
      using Failed(2,3,7)
      by (intro exported_end_silent [OF parts(2) Failed(1)]) (simp_all add: tracer_ok_payload(1) [OF parts(1)])
    moreover have "spans_ok st'"
      using Failed bound others unfolding spans_ok_def by auto
    ultimately show ?thesis
      using Failed(5) parts(1) by (simp add: trace_ok_def)
  next
    case (Silent sp sp')
    have "exported_ok te tr (with_ended i sp' ?u)"
      using Silent(2,3,5) by (intro exported_end_silent [OF parts(2) Silent(1)]) simp_all
    moreover have "spans_ok (with_ended i sp' ?u)"
      using Silent bound others unfolding spans_ok_def by auto
    ultimately show ?thesis
      unfolding Silent(6) using parts(1) by (intro ok_release) (simp add: trace_ok_def)
  next
    case (Exported sp sp' body w)
    have tr: "tc_tracer st = tr"
      using tracer_ok_payload(2) [OF parts(1)] Exported(5) by simp
    let ?x = "(i, tr_endpoint tr, export_headers te tr, body)"
    have "exported_ok te tr (with_ended i sp' ?u\<lparr>tc_exports := tc_exports ?u @ [?x]\<rparr>)"
      using Exported(2,3,6) tr by (intro exported_end [OF parts(2) Exported(1)]) simp_all
    moreover have "spans_ok (with_ended i sp' ?u\<lparr>tc_exports := tc_exports ?u @ [?x]\<rparr>)"
      using Exported bound others unfolding spans_ok_def by auto
    ultimately have "trace_ok te tr (with_ended i sp' ?u\<lparr>tc_exports := tc_exports ?u @ [?x]\<rparr>)"
      using parts(1) by (simp add: trace_ok_def)
    then show ?thesis
      unfolding Exported(7) by (intro ok_release) (simp add: tr)
  qed
qed


lemma start_span_parts:
  assumes "start_span te t name parent attrs kind st = (i, st')"
  obtains (Child) p stacks w s where "ctx_valid p" "p = parent \<or> (\<exists>j. p = context_of st j)"
      "generate_id te 8 (tc_world st) = (s, w)"
      "i = tc_next st" "st' = st\<lparr>tc_spans := (tc_spans st)(i \<mapsto> new_span name
          \<lparr> sc_trace_id = sc_trace_id p, sc_span_id = s, sc_flags = sc_flags p \<rparr> p kind attrs (te_now te w)),
        tc_alive := (tc_alive st)(i := True), tc_next := i + 1, tc_world := w, tc_stacks := stacks\<rparr>"
  | (Root) p stacks w c where "\<not> ctx_valid p" "make_context te (tc_world st) = (c, w)"
      "i = tc_next st" "st' = st\<lparr>tc_spans := (tc_spans st)(i \<mapsto> new_span name c p kind attrs (te_now te w)),
        tc_alive := (tc_alive st)(i := True), tc_next := i + 1, tc_world := w, tc_stacks := stacks\<rparr>"
proof -
  define q where "q = (if ctx_valid parent then (parent, st) else case current_span t st of
      (Some j, u) \<Rightarrow> (context_of u j, u) | (None, u) \<Rightarrow> (parent, u))"
  obtain p u where pu: "q = (p, u)" by fastforce
  obtain stacks where u: "u = st\<lparr>tc_stacks := stacks\<rparr>"
    using pu that unfolding q_def current_span_def Let_def by (cases st) (auto split: if_splits)
  have p: "p = parent \<or> (\<exists>j. p = context_of st j)"
    using pu unfolding q_def current_span_def Let_def
    by (auto simp: context_of_def split: if_splits)
  have run: "start_span te t name parent attrs kind st =
     (let (ctx, w) = (if ctx_valid p
             then let (s, w) = generate_id te 8 (tc_world u)
                  in (\<lparr> sc_trace_id = sc_trace_id p, sc_span_id = s, sc_flags = sc_flags p \<rparr>, w)
             else make_context te (tc_world u)) in
      (tc_next u, set_current_span t (tc_next u)
        (u\<lparr>tc_spans := (tc_spans u)(tc_next u \<mapsto> new_span name ctx p kind attrs (te_now te w)),
           tc_alive := (tc_alive u)(tc_next u := True), tc_next := tc_next u + 1, tc_world := w\<rparr>)))"
    using pu unfolding q_def start_span_def Let_def by (simp split: prod.splits)
  show ?thesis
  proof (cases "ctx_valid p")
    case True
    obtain s w where g: "generate_id te 8 (tc_world st) = (s, w)" by fastforce
    show ?thesis
      using that(1) [OF True p g, of "stacks(t := stacks t @ [i])"] assms run True g by (auto simp: u set_current_span_def Let_def)
  next
    case False
    obtain c w where m: "make_context te (tc_world st) = (c, w)" by fastforce
    show ?thesis
      using that(2) [OF False m, of "stacks(t := stacks t @ [i])"] assms run False m by (auto simp: u set_current_span_def Let_def)
  qed
qed


lemma ok_start:
  assumes "trace_ok te tr st" and "wf_context parent \<or> \<not> ctx_valid parent"
  shows "trace_ok te tr (snd (start_span te t name parent attrs kind st))"
proof -
  obtain i st' where run: "start_span te t name parent attrs kind st = (i, st')"
    by fastforce
  have known: "wf_context (context_of st j) \<or> \<not> ctx_valid (context_of st j)" for j
    using assms(1) by (auto simp: context_of_def trace_ok_def spans_ok_def split: option.split)
  have grow: "trace_ok te tr (st\<lparr>tc_spans := (tc_spans st)(tc_next st \<mapsto> sp), tc_alive := (tc_alive st)(tc_next st := True),
      tc_next := tc_next st + 1, tc_world := w, tc_stacks := stacks\<rparr>)"
    if "wf_context (sp_context sp)" "\<not> sp_ended sp" for sp w stacks
  proof -
    let ?s = "st\<lparr>tc_spans := (tc_spans st)(tc_next st \<mapsto> sp), tc_alive := (tc_alive st)(tc_next st := True),
      tc_next := tc_next st + 1, tc_world := w, tc_stacks := stacks\<rparr>"
    have fresh: "tc_spans st (tc_next st) = None"
      using assms(1) by (simp add: trace_ok_def spans_ok_def)
    then have ended: "ended_span ?s = ended_span st"
      using that(2) by (intro ext) (auto simp: ended_span_def)
    have "exported_ok te tr ?s"
      using assms(1) unfolding trace_ok_def exported_ok_def ended by simp
    moreover have "spans_ok ?s"
      using assms(1) that(1) unfolding trace_ok_def spans_ok_def by auto
    ultimately show ?thesis
      using assms(1) unfolding trace_ok_def by simp
  qed
  from run show ?thesis
  proof (cases rule: start_span_parts)
    case (Child p stacks w s)
    then have "wf_context p"
      using assms(2) known by blast
    then have "wf_context \<lparr> sc_trace_id = sc_trace_id p, sc_span_id = s, sc_flags = sc_flags p \<rparr>"
      using generate_id_plain [OF Child(3)] by (simp add: wf_context_def)
    then show ?thesis
      using grow Child(4,5) run by (simp add: new_span_def)
  next
    case (Root p stacks w c)
    then show ?thesis
      using grow make_context_wf [OF Root(2)] run by (simp add: new_span_def)
  qed
qed

lemma ok_end: "trace_ok te tr st \<Longrightarrow> trace_ok te tr (snd (end_span te t i status message st))"
  using ok_end_or_destroy [of te tr st _ t i status message "tc_alive st"] by simp

lemma ok_destroy: "trace_ok te tr st \<Longrightarrow> trace_ok te tr (snd (destroy_span te t i st))"
  unfolding destroy_span_def using ok_end_or_destroy [of te tr st] by blast

lemma ok_shutdown:
  assumes "trace_ok te tr st"
  shows "trace_ok te tr (tracer_shutdown t st)"
  using assms by (auto simp: trace_ok_def tracer_ok_def spans_ok_def exported_ok_def ended_span_def tracer_shutdown_def)

lemma step_ok: "trace_step te st st' \<Longrightarrow> trace_ok te tr st \<Longrightarrow> trace_ok te tr st'"
  by (induction rule: trace_step.induct)
    (simp_all add: ok_start ok_attribute ok_event ok_end ok_destroy ok_current clear_current_span_def ok_shutdown)

interpretation trace_runs: invariant_system "\<lambda>st. \<exists>w. st = tracing_new tr w" "trace_step te" "trace_ok te tr"
  for te tr
  by unfold_locales (auto simp: ok_new step_ok)

lemma reachable_trace_ok: "(trace_step te)\<^sup>*\<^sup>* (tracing_new tr w) st \<Longrightarrow> trace_ok te tr st"
  by (rule trace_runs.reachable_good) auto


text \<open>C12. In every run, the end of a span being one step, each span is posted at most once, only after it has ended, to the configured endpoint and with
  its final content; and while the tracer is enabled every span that has ended or is gone was posted, unless its
  document could not be serialized.\<close>

theorem spans_exported_once:
  assumes "(trace_step te)\<^sup>*\<^sup>* (tracing_new tr w) st"
  shows "distinct (map fst (tc_exports st)) \<and>
    (\<forall>(i, url, hs, text) \<in> set (tc_exports st). url = tr_endpoint tr \<and>
       (\<exists>sp. ended_span st i sp \<and> te_dump te (export_payload tr sp) = Inr text)) \<and>
    (\<forall>i sp. tr_enabled (tc_tracer st) \<and> tc_spans st i = Some sp \<and> (sp_ended sp \<or> \<not> tc_alive st i) \<longrightarrow>
       i \<in> fst ` set (tc_exports st) \<or> \<not> is_ok (te_dump te (export_payload tr sp)))"
proof -
  have ok: "spans_ok st" "exported_ok te tr st"
    using reachable_trace_ok [OF assms] by (simp_all add: trace_ok_def)
  then have "sp_ended sp" if "tc_spans st i = Some sp" "sp_ended sp \<or> \<not> tc_alive st i" for i sp
    using that by (auto simp: spans_ok_def)
  then show ?thesis
    using ok(2) unfolding exported_ok_def ended_span_def by blast
qed

text \<open>C26. A trace goes on across services: whatever \<open>traceparent\<close> header a request brings, the
  header the server sends for its span is read back as the context of the span, and when the incoming header is valid
  it has the trace and the flags of that header.\<close>

theorem traceparent_propagates:
  assumes "(trace_step te)\<^sup>*\<^sup>* (tracing_new tr w) st"
    and "start_span te t name (extract_traceparent h) attrs kind st = (i, st')"
  shows "extract_traceparent (build_traceparent (context_of st' i)) = context_of st' i \<and>
    (ctx_valid (extract_traceparent h) \<longrightarrow>
       sc_trace_id (context_of st' i) = sc_trace_id (extract_traceparent h) \<and>
       sc_flags (context_of st' i) = sc_flags (extract_traceparent h))"
proof -
  have p: "wf_context (extract_traceparent h) \<or> \<not> ctx_valid (extract_traceparent h)"
    using extract_wf [of h] by auto
  have "trace_ok te tr st'"
    using ok_start [OF reachable_trace_ok [OF assms(1)] p, of t name attrs kind] assms(2) by simp
  moreover have "\<exists>sp. tc_spans st' i = Some sp"
    using assms(2) by (cases rule: start_span_parts) simp_all
  ultimately have "wf_context (context_of st' i)"
    by (auto simp: context_of_def trace_ok_def spans_ok_def)
  then have "extract_traceparent (build_traceparent (context_of st' i)) = context_of st' i"
    by (rule extract_build)
  moreover have "sc_trace_id (context_of st' i) = sc_trace_id (extract_traceparent h) \<and>
      sc_flags (context_of st' i) = sc_flags (extract_traceparent h)" if "ctx_valid (extract_traceparent h)"
    using assms(2) that
    by (auto simp: start_span_def context_of_def set_current_span_def new_span_def Let_def split: prod.splits)
  ultimately show ?thesis
    by blast
qed

lemma current_span_alive:
  assumes "tc_alive st i" and "last (tc_stacks st t) = i" and "tc_stacks st t \<noteq> []"
  shows "current_span t st = (Some i, st)"
proof -
  have "drop_dead (tc_alive st) (tc_stacks st t) = tc_stacks st t"
    using assms by (cases "tc_stacks st t" rule: rev_cases) (simp_all add: drop_dead_def)
  then show ?thesis
    using assms by (simp add: current_span_def Let_def)
qed

lemma end_span_stacks:
  assumes "end_span te t i status message st = (r, st')"
  shows "tc_alive st' = tc_alive st \<and> (\<forall>t'. t' \<noteq> t \<longrightarrow> tc_stacks st' t' = tc_stacks st t') \<and>
    (\<forall>j. context_of st' j = context_of st j)"
  using assms
  by (cases rule: end_span_cases) (auto simp: context_of_def release_span_def with_ended_def)

text \<open>A span that another thread ends stays the current span of the thread that started it as long as it is
  referenced: the next request of that thread without a valid header becomes a child of the request that is
  over, in its trace.\<close>

theorem ended_span_adopts_next_request:
  assumes "start_span te t name parent attrs kind st = (i, st1)" and "ctx_valid (context_of st1 i)"
    and "t' \<noteq> t" and "end_span te t' i status message st1 = (Inr (), st2)"
    and "\<not> ctx_valid parent'" and "start_span te t name' parent' attrs' kind' st2 = (j, st3)"
  shows "ended_span st2 i (the (tc_spans st2 i)) \<and>
    sp_parent (the (tc_spans st3 j)) = context_of st2 i \<and>
    sc_trace_id (context_of st3 j) = sc_trace_id (context_of st2 i)"
proof -
  have top: "tc_alive st1 i" "last (tc_stacks st1 t) = i" "tc_stacks st1 t \<noteq> []"
    using assms(1) by (auto simp: start_span_def set_current_span_def Let_def split: prod.splits)
  have s2: "tc_alive st2 = tc_alive st1" "tc_stacks st2 t = tc_stacks st1 t" "context_of st2 i = context_of st1 i"
    using end_span_stacks [OF assms(4)] assms(3) by auto
  have "current_span t st2 = (Some i, st2)"
    using top by (intro current_span_alive) (simp_all add: s2)
  then have "sp_parent (the (tc_spans st3 j)) = context_of st2 i"
    "sc_trace_id (context_of st3 j) = sc_trace_id (context_of st2 i)"
    using assms(2,5,6) s2(3)
    by (auto simp: start_span_def context_of_def [of st3] set_current_span_def new_span_def Let_def split: prod.splits)
  moreover have "tc_spans st1 i \<noteq> None"
    using assms(1) by (cases rule: start_span_parts) simp_all
  have "ended_span st2 i (the (tc_spans st2 i))"
    using assms(4) \<open>tc_spans st1 i \<noteq> None\<close> by (cases rule: end_span_cases) (auto simp: ended_span_def)
  ultimately show ?thesis
    by blast
qed

text \<open>When the document of a span cannot be serialized, \<open>end\<close> fails with the exception of the library: nothing
  is posted, the span counts as ended and stays on its stack. In the destructor of a span that was never ended the
  same exception ends the program.\<close>

theorem unserializable_span_throws:
  assumes "tc_spans st i = Some sp" and "\<not> sp_ended sp" and "tr_enabled (tc_tracer st)"
    and "\<And>sp. \<exists>ex. te_dump te (export_payload (tc_tracer st) sp) = Inl ex"
  shows "\<exists>ex st'. end_span te t i status message st = (Inl ex, st') \<and> tc_exports st' = tc_exports st \<and>
      tc_stacks st' = tc_stacks st \<and> (\<exists>sp. ended_span st' i sp) \<and>
      (\<exists>ex. fst (destroy_span te t i st) = Inl ex)"
proof -
  obtain r st' where r: "end_span te t i status message st = (r, st')" by fastforce
  obtain r2 st2 where r2: "end_span te t i 0 [] (st\<lparr>tc_alive := (tc_alive st)(i := False)\<rparr>) = (r2, st2)" by fastforce
  have "\<exists>ex. r2 = Inl ex"
    using r2
  proof (cases rule: end_span_cases)
    case (Exported sp sp' body w)
    then show ?thesis using assms(4) [of sp'] by auto
  qed (use assms(1-3) in auto)
  moreover have "\<exists>ex. r = Inl ex \<and> tc_exports st' = tc_exports st \<and> tc_stacks st' = tc_stacks st \<and>
      (\<exists>sp. ended_span st' i sp)"
    using r
  proof (cases rule: end_span_cases)
    case (Exported sp sp' body w)
    then show ?thesis using assms(4) [of sp'] by auto
  qed (use assms(1-3) in \<open>auto simp: ended_span_def\<close>)
  ultimately show ?thesis
    using r r2 by (auto simp: destroy_span_def)
qed


section \<open>Sample runs\<close>

definition sample_trace_env :: "string res \<Rightarrow> (nat, nat) trace_env" where
  "sample_trace_env doc = \<lparr> te_random = (\<lambda>w. (of_nat w, w + 1)), te_now = int, te_dump = (\<lambda>_. doc),
     te_header_key = to_lower, te_post = (\<lambda>_ _ _ w. w) \<rparr>"

definition sample_tracer :: tracer where
  "sample_tracer = tracer_new\<lparr>tr_enabled := True, tr_endpoint := ''http://c/v1/traces''\<rparr>"

definition sample_started :: "string res \<Rightarrow> (nat, nat) tracing" where
  "sample_started doc =
     snd (start_span (sample_trace_env doc) 0 ''GET /'' empty_context [] ''SERVER'' (tracing_new sample_tracer 0))"

lemma sample_started_span:
  "\<exists>sp. tc_spans (sample_started doc) 0 = Some sp \<and> \<not> sp_ended sp \<and> ctx_valid (sp_context sp) \<and>
     tc_tracer (sample_started doc) = sample_tracer \<and>
     start_span (sample_trace_env doc) 0 ''GET /'' empty_context [] ''SERVER'' (tracing_new sample_tracer 0) =
       (0, sample_started doc)"
proof -
  obtain i st where r: "start_span (sample_trace_env doc) 0 ''GET /'' empty_context [] ''SERVER''
      (tracing_new sample_tracer 0) = (i, st)" by fastforce
  then have st: "sample_started doc = st" by (simp add: sample_started_def)
  from r show ?thesis
  proof (cases rule: start_span_parts)
    case (Child p stacks w s)
    then show ?thesis
      by (auto simp: context_of_def tracing_new_def)
  next
    case (Root p stacks w c)
    then show ?thesis
      using r wf_context_valid [OF make_context_wf [OF Root(2)]] by (simp add: st tracing_new_def new_span_def)
  qed
qed

lemma sample_started_reachable: "(trace_step (sample_trace_env doc))\<^sup>*\<^sup>* (tracing_new sample_tracer 0) (sample_started doc)"
  unfolding sample_started_def by (rule r_into_rtranclp, rule trace_step.Start) simp

theorem spans_exported_once_witness:
  "0 \<in> fst ` set (tc_exports (snd (destroy_span (sample_trace_env (Inr ''doc'')) 2 0 (sample_started (Inr ''doc'')))))"
proof -
  let ?te = "sample_trace_env (Inr ''doc'')"
  obtain sp where sp: "tc_spans (sample_started (Inr ''doc'')) 0 = Some sp" "\<not> sp_ended sp"
    "tc_tracer (sample_started (Inr ''doc'')) = sample_tracer"
    using sample_started_span by blast
  obtain r st where d: "destroy_span ?te 2 0 (sample_started (Inr ''doc'')) = (r, st)" by fastforce
  have "(trace_step ?te)\<^sup>*\<^sup>* (tracing_new sample_tracer 0) st"
    using sample_started_reachable trace_step.Destroy [of ?te "sample_started (Inr ''doc'')" 2 0] d
    by (auto intro: rtranclp.rtrancl_into_rtrancl)
  note once = spans_exported_once [OF this]
  have "tr_enabled (tc_tracer st) \<and> (\<exists>sp. tc_spans st 0 = Some sp \<and> sp_ended sp)"
    using d [unfolded destroy_span_def] sp
    by (cases rule: end_span_cases) (auto simp: sample_tracer_def)
  moreover have "te_dump ?te = (\<lambda>_. Inr ''doc'')"
    by (simp add: sample_trace_env_def)
  ultimately have "0 \<in> fst ` set (tc_exports st)"
    using once by auto
  then show ?thesis
    by (simp add: d)
qed

definition sample_header :: string where
  "sample_header = ''00-'' @ replicate 32 (CHR ''a'') @ ''-'' @ replicate 16 (CHR ''b'') @ ''-01''"

lemma sample_header_context:
  "extract_traceparent sample_header =
     \<lparr> sc_trace_id = replicate 32 (CHR ''a''), sc_span_id = replicate 16 (CHR ''b''), sc_flags = ''01'' \<rparr>"
  (is "_ = ?c")
proof -
  have "wf_context ?c" by (simp add: wf_context_def plain_id_def)
  moreover from this have "build_traceparent ?c = sample_header"
    by (simp add: build_traceparent_def wf_context_valid sample_header_def)
  ultimately show ?thesis using extract_build by metis
qed

theorem traceparent_propagates_witness:
  "\<exists>i st'. start_span (sample_trace_env (Inr [])) 0 ''GET /'' (extract_traceparent sample_header) [] ''SERVER''
      (tracing_new sample_tracer 0) = (i, st') \<and>
    sc_trace_id (extract_traceparent (build_traceparent (context_of st' i))) = replicate 32 (CHR ''a'')"
proof -
  obtain i st' where r: "start_span (sample_trace_env (Inr [])) 0 ''GET /'' (extract_traceparent sample_header) []
      ''SERVER'' (tracing_new sample_tracer 0) = (i, st')" by fastforce
  show ?thesis
    using r traceparent_propagates [OF rtranclp.rtrancl_refl r]
    by (simp add: sample_header_context ctx_valid_def)
qed

theorem ended_span_adopts_next_request_witness:
  "\<exists>j st2 st3. end_span (sample_trace_env (Inr [])) 1 0 200 [] (sample_started (Inr [])) = (Inr (), st2) \<and>
    start_span (sample_trace_env (Inr [])) 0 ''GET /b'' empty_context [] ''SERVER'' st2 = (j, st3) \<and>
    sc_trace_id (context_of st3 j) = sc_trace_id (context_of st2 0)"
proof -
  let ?te = "sample_trace_env (Inr [])"
  obtain sp where sp: "tc_spans (sample_started (Inr [])) 0 = Some sp" "\<not> sp_ended sp" "ctx_valid (sp_context sp)"
    "tc_tracer (sample_started (Inr [])) = sample_tracer"
    "start_span ?te 0 ''GET /'' empty_context [] ''SERVER'' (tracing_new sample_tracer 0) = (0, sample_started (Inr []))"
    using sample_started_span by blast
  obtain r st2 where e: "end_span ?te 1 0 200 [] (sample_started (Inr [])) = (r, st2)" by fastforce
  have "r = Inr ()"
    using e sp by (cases rule: end_span_cases) (auto simp: sample_trace_env_def)
  moreover obtain j st3 where "start_span ?te 0 ''GET /b'' empty_context [] ''SERVER'' st2 = (j, st3)" by fastforce
  ultimately show ?thesis
    using ended_span_adopts_next_request [OF sp(5), of 1 200 "[]" st2 empty_context "''GET /b''" "[]" "''SERVER''" j st3] e sp
    by (auto simp: context_of_def)
qed

theorem unserializable_span_throws_witness:
  "\<exists>ex. fst (destroy_span (sample_trace_env (Inl (RuntimeError ''utf8''))) 0 0
     (sample_started (Inl (RuntimeError ''utf8'')))) = Inl ex"
proof -
  obtain sp where sp: "tc_spans (sample_started (Inl (RuntimeError ''utf8''))) 0 = Some sp" "\<not> sp_ended sp"
    "tc_tracer (sample_started (Inl (RuntimeError ''utf8''))) = sample_tracer"
    using sample_started_span by blast
  show ?thesis
    using unserializable_span_throws [OF sp(1,2), of "sample_trace_env (Inl (RuntimeError ''utf8''))"]
    by (auto simp: sp(3) sample_tracer_def sample_trace_env_def)
qed

definition sample_yaml :: "string config_yaml" where
  "sample_yaml = \<lparr> ya_defined = (\<lambda>y. y \<noteq> []), ya_is_scalar = (\<lambda>y. True), ya_is_map = (\<lambda>y. True), ya_text = id,
     ya_get = (\<lambda>y k. Inr (if k = ''headers'' \<or> k = ''service'' \<or> k = ''resources'' then [] else y)),
     ya_entries = (\<lambda>_. []), ya_size = (\<lambda>_ n. Inr n), ya_text_or = (\<lambda>y d. if y = [] then d else y),
     ya_flag_or = (\<lambda>_ b. b), ya_u32_or = (\<lambda>_ n. n), ya_string = Inr, ya_is_sequence = (\<lambda>_. False), ya_items = (\<lambda>_. []) \<rparr>"

theorem configured_endpoint_witness:
  "\<exists>tr. tracer_configure sample_yaml Map.empty ''http://c/'' tracer_new = Inr tr \<and>
     suffix ''/v1/traces'' (tr_endpoint tr) \<and> tr_enabled tr"
proof -
  have "resolve_env Map.empty ''http://c/'' = ''http://c/''"
    using resolve_template_at [of "[Lit ''http://c/'']" Map.empty "[]"] by (simp add: resolve_env_def)
  then have "configure_exporter sample_yaml Map.empty ''http://c/'' = Inr (''http://c/'', [])"
    by (simp add: configure_exporter_def sample_yaml_def)
  moreover have "configure_service sample_yaml ''http://c/'' tr = Inr tr" "configure_resources sample_yaml ''http://c/'' tr = Inr tr" for tr
    by (simp_all add: configure_service_def configure_resources_def sample_yaml_def)
  moreover have "ya_defined sample_yaml ''http://c/''" "ya_get sample_yaml ''http://c/'' ''otel'' = Inr ''http://c/''"
    by (simp_all add: sample_yaml_def)
  ultimately obtain tr where run: "tracer_configure sample_yaml Map.empty ''http://c/'' tracer_new = Inr tr" and "tr_enabled tr"
    by (simp add: tracer_configure_def Let_def)
  then show ?thesis
    using configured_endpoint [OF run] by blast
qed

end
