(* ===== verification/Logging.thy ===== *)
theory Logging
  imports Tracing
begin

text \<open>
  The log of \<^verbatim>\<open>SuperAPI._server/src/logging.cpp\<close>: the levels, the redaction rules, the log context of a
  thread and the JSON line that is written for a message. The regular expressions, the calendar and the
  serializer are the parameter \<open>log_env\<close>; the two sinks are the lists of the lines they got.
\<close>

section \<open>Levels\<close>

datatype log_level = LogTrace | LogDebug | LogInfo | LogWarn | LogError | LogFatal

definition to_trantor_level :: "string \<Rightarrow> log_level" where
  "to_trantor_level level =
     (let l = to_lower level
      in if l = ''trace'' then LogTrace
         else if l = ''debug'' then LogDebug
         else if l = ''warn'' \<or> l = ''warning'' then LogWarn
         else if l = ''error'' then LogError
         else if l = ''fatal'' \<or> l = ''critical'' then LogFatal
         else LogInfo)"

text \<open>The text between the first opening bracket and the next closing one.\<close>

definition extract_level :: "string \<Rightarrow> string" where
  "extract_level message =
     (case break_at (CHR ''['') message of
        (_, None) \<Rightarrow> ''INFO''
      | (_, Some rest) \<Rightarrow>
          (case break_at (CHR '']'') rest of
             (_, None) \<Rightarrow> ''INFO''
           | (level, Some _) \<Rightarrow> if level = [] then ''INFO'' else map toupper level))"

section \<open>The log context\<close>

record 'd log_context =
  lc_request_id :: string
  lc_company :: string
  lc_endpoint :: string
  lc_status :: int
  lc_latency :: 'd
  lc_has_request :: bool

datatype 'd log_field = LNull | LText string | LNumber int | LDouble 'd

record ('r, 'd) log_env =
  le_zero :: 'd
  le_positive :: "'d \<Rightarrow> bool"
  le_compile :: "string \<Rightarrow> bool \<Rightarrow> 'r option" \<comment> \<open>the flag is \<open>icase\<close>; \<open>None\<close> is \<open>std::regex_error\<close>\<close>
  le_replace :: "'r \<Rightarrow> string \<Rightarrow> string" \<comment> \<open>\<open>std::regex_replace\<close> by \<open>[REDACTED]\<close>\<close>
  le_dump :: "(string \<times> 'd log_field) list \<Rightarrow> string res"

definition empty_log_context :: "('r, 'd) log_env \<Rightarrow> 'd log_context" where
  "empty_log_context le = \<lparr> lc_request_id = [], lc_company = [], lc_endpoint = [], lc_status = 0,
     lc_latency = le_zero le, lc_has_request = False \<rparr>"

definition set_log_context :: "'d log_context \<Rightarrow> 'd log_context" where
  "set_log_context ctx = ctx\<lparr>lc_has_request := True\<rparr>"

definition update_log_context :: "('r, 'd) log_env \<Rightarrow> 'd log_context \<Rightarrow> 'd log_context \<Rightarrow> 'd log_context" where
  "update_log_context le ctx cur =
     (let cur = (if lc_request_id ctx \<noteq> [] then cur\<lparr>lc_request_id := lc_request_id ctx\<rparr> else cur);
          cur = (if lc_company ctx \<noteq> [] then cur\<lparr>lc_company := lc_company ctx\<rparr> else cur);
          cur = (if lc_endpoint ctx \<noteq> [] then cur\<lparr>lc_endpoint := lc_endpoint ctx\<rparr> else cur);
          cur = (if lc_status ctx \<noteq> 0 then cur\<lparr>lc_status := lc_status ctx\<rparr> else cur);
          cur = (if le_positive le (lc_latency ctx) then cur\<lparr>lc_latency := lc_latency ctx\<rparr> else cur)
      in cur\<lparr>lc_has_request := lc_has_request cur \<or> lc_has_request ctx \<or> lc_request_id cur \<noteq> []\<rparr>)"

section \<open>Configuration\<close>

record 'r logging =
  lg_level :: log_level
  lg_rules :: "'r list"
  lg_stdout :: bool \<comment> \<open>\<open>std::cout\<close> accepts output\<close>
  lg_file :: "string option" \<comment> \<open>the path of the open sink\<close>
  lg_stdout_lines :: "string list"
  lg_file_lines :: "string list"

definition logging_new :: "'r logging" where
  "logging_new = \<lparr> lg_level = LogInfo, lg_rules = [], lg_stdout = True, lg_file = None,
     lg_stdout_lines = [], lg_file_lines = [] \<rparr>"

text \<open>The sources of the built-in rules, with their \<open>icase\<close> flag.\<close>

definition default_rules :: "(string \<times> bool) list" where
  "default_rules =
     [(''([A-Za-z0-9._%+-]+@[A-Za-z0-9.-]+'' @ [CHR 0x5C] @ ''.[A-Za-z]{2,})'', True),
      (''(?:(?:'' @ [CHR 0x5C] @ ''+?'' @ [CHR 0x5C] @ ''d{1,3})?[-.'' @ [CHR 0x5C] @ ''s]?)?(?:'' @ [CHR 0x5C] @
         ''d{3}[-.'' @ [CHR 0x5C] @ ''s]?){2}'' @ [CHR 0x5C] @ ''d{4}'', False),
      (''(?:'' @ [CHR 0x5C] @ ''b'' @ [CHR 0x5C] @ ''d{4}[- ]?){3}'' @ [CHR 0x5C] @ ''d{4}'' @ [CHR 0x5C] @ ''b'', False),
      (''(?:(?:api[_-]?key|token|secret|authorization))[:=][^'' @ [CHR 0x5C] @ ''s]+'', True)]"

text \<open>A rule that does not compile is skipped when it comes from the configuration; a built-in one would throw.\<close>

fun add_default_rules :: "('r, 'd) log_env \<Rightarrow> (string \<times> bool) list \<Rightarrow> 'r list res" where
  "add_default_rules le [] = Inr []"
| "add_default_rules le ((src, icase) # rs) =
     (case le_compile le src icase of
        None \<Rightarrow> Inl (RuntimeError ''regex_error'')
      | Some r \<Rightarrow> bindE (add_default_rules le rs) (\<lambda>rest. Inr (r # rest)))"

fun add_patterns :: "'y config_yaml \<Rightarrow> ('r, 'd) log_env \<Rightarrow> 'y list \<Rightarrow> 'r list \<Rightarrow> 'r list res" where
  "add_patterns ya le [] rules = Inr rules"
| "add_patterns ya le (p # ps) rules =
     bindE (ya_string ya p) (\<lambda>src.
       add_patterns ya le ps (case le_compile le src False of None \<Rightarrow> rules | Some r \<Rightarrow> rules @ [r]))"

definition configure_stdout :: "'y config_yaml \<Rightarrow> 'y \<Rightarrow> bool res" where
  "configure_stdout ya node =
     bindE (ya_get ya node ''stdout'') (\<lambda>n. Inr (if ya_defined ya n then ya_flag_or ya n True else True))"

text \<open>The path of the sink to open; \<open>opened\<close> says whether the stream of a path is open.\<close>

definition configure_file :: "'y config_yaml \<Rightarrow> 'y \<Rightarrow> string option res" where
  "configure_file ya node =
     bindE (ya_get ya node ''file'') (\<lambda>file.
     if \<not> ya_defined ya file then Inr None
     else bindE (ya_get ya file ''enabled'') (\<lambda>e.
       if \<not> ya_flag_or ya e False then Inr None
       else bindE (ya_get ya file ''path'') (\<lambda>pn.
              if \<not> ya_defined ya pn then Inr None
              else bindE (ya_string ya pn) (\<lambda>path. Inr (if path \<noteq> [] then Some path else None)))))"

definition configure_redaction :: "'y config_yaml \<Rightarrow> ('r, 'd) log_env \<Rightarrow> 'y \<Rightarrow> 'r list \<Rightarrow> 'r list res" where
  "configure_redaction ya le node rules =
     bindE (ya_get ya node ''redact'') (\<lambda>redact.
     if \<not> ya_defined ya redact then Inr rules
     else bindE (ya_get ya redact ''patterns'') (\<lambda>ps.
            if ya_defined ya ps \<and> ya_is_sequence ya ps then add_patterns ya le (ya_items ya ps) rules
            else Inr rules))"

definition initialize_logging ::
  "'y config_yaml \<Rightarrow> ('r, 'd) log_env \<Rightarrow> (string \<Rightarrow> bool) \<Rightarrow> string \<Rightarrow> 'y \<Rightarrow> 'r logging \<Rightarrow> 'r logging res" where
  "initialize_logging ya le opened level config lg =
     (let lg = lg\<lparr>lg_level := to_trantor_level level\<rparr>
      in bindE (add_default_rules le default_rules) (\<lambda>rules.
         bindE (if ya_defined ya config then ya_get ya config ''logging'' else Inr config) (\<lambda>node.
         if \<not> ya_defined ya config \<or> \<not> ya_defined ya node then Inr (lg\<lparr>lg_rules := rules\<rparr>)
         else bindE (configure_stdout ya node) (\<lambda>out.
              bindE (configure_file ya node) (\<lambda>file.
              bindE (configure_redaction ya le node rules) (\<lambda>rules.
                let lg = lg\<lparr>lg_rules := rules\<rparr>;
                    lg = (case file of
                            None \<Rightarrow> lg
                          | Some path \<Rightarrow> lg\<lparr>lg_file := (if opened path then Some path else None)\<rparr>)
                in Inr (if out then lg else lg\<lparr>lg_stdout := False\<rparr>)))))))"

section \<open>Messages\<close>

definition redact_message :: "('r, 'd) log_env \<Rightarrow> 'r list \<Rightarrow> string \<Rightarrow> string" where
  "redact_message le rules message = fold (le_replace le) rules message"

definition text_field :: "string \<Rightarrow> 'd log_field" where
  "text_field s = (if s = [] then LNull else LText s)"

definition log_payload ::
  "('r, 'd) log_env \<Rightarrow> 'r list \<Rightarrow> string \<Rightarrow> 'd log_context \<Rightarrow> string \<Rightarrow> (string \<times> 'd log_field) list" where
  "log_payload le rules ts ctx message =
     (let view = (if message \<noteq> [] \<and> last message = newline then butlast message else message)
      in [(''ts'', LText ts), (''level'', LText (extract_level view)), (''msg'', LText (redact_message le rules view)),
          (''request_id'', text_field (lc_request_id ctx)), (''company'', text_field (lc_company ctx)),
          (''endpoint'', text_field (lc_endpoint ctx)),
          (''status'', if lc_status ctx \<noteq> 0 then LNumber (lc_status ctx) else LNull),
          (''latency_ms'', if le_positive le (lc_latency ctx) then LDouble (lc_latency ctx) else LNull)])"

definition emit_log_payload ::
  "('r, 'd) log_env \<Rightarrow> (string \<times> 'd log_field) list \<Rightarrow> 'r logging \<Rightarrow> 'r logging res" where
  "emit_log_payload le payload lg =
     bindE (le_dump le payload) (\<lambda>text.
       let lg = (if lg_stdout lg then lg\<lparr>lg_stdout_lines := lg_stdout_lines lg @ [text]\<rparr> else lg)
       in Inr (if lg_file lg \<noteq> None then lg\<lparr>lg_file_lines := lg_file_lines lg @ [text]\<rparr> else lg))"

definition log_message ::
  "('r, 'd) log_env \<Rightarrow> string \<Rightarrow> 'd log_context \<Rightarrow> string \<Rightarrow> 'r logging \<Rightarrow> 'r logging res" where
  "log_message le ts ctx message lg = emit_log_payload le (log_payload le (lg_rules lg) ts ctx message) lg"


section \<open>The built-in rules stay\<close>

fun compiled :: "('r, 'd) log_env \<Rightarrow> (string \<times> bool) list \<Rightarrow> 'r list" where
  "compiled le [] = []"
| "compiled le ((src, icase) # rs) =
     (case le_compile le src icase of None \<Rightarrow> compiled le rs | Some r \<Rightarrow> r # compiled le rs)"

lemma add_default_rules_compiled: "add_default_rules le rs = Inr rules \<Longrightarrow> rules = compiled le rs"
  by (induction rs arbitrary: rules) (auto simp: bindE_Inr_iff split: option.splits)

lemma add_patterns_extends: "add_patterns ya le ps rules = Inr rules' \<Longrightarrow> prefix rules rules'"
proof (induction ps arbitrary: rules)
  case (Cons p ps)
  then obtain src where src: "ya_string ya p = Inr src"
    and rest: "add_patterns ya le ps (case le_compile le src False of None \<Rightarrow> rules | Some r \<Rightarrow> rules @ [r]) = Inr rules'"
    by (auto simp: bindE_Inr_iff)
  have "prefix rules (case le_compile le src False of None \<Rightarrow> rules | Some r \<Rightarrow> rules @ [r])"
    by (simp split: option.split)
  then show ?case
    using Cons.IH [OF rest] by (rule prefix_order.trans)
qed simp

lemma configure_redaction_extends: "configure_redaction ya le node rules = Inr rules' \<Longrightarrow> prefix rules rules'"
  by (auto simp: configure_redaction_def bindE_Inr_iff split: if_splits dest: add_patterns_extends)

text \<open>Whatever the configuration says, the built-in redaction rules are in force, in their order and before the
  configured ones, and no rule of an earlier configuration is left.\<close>

theorem default_rules_kept:
  assumes "initialize_logging ya le opened level config lg = Inr lg'"
  shows "prefix (compiled le default_rules) (lg_rules lg') \<and> lg_level lg' = to_trantor_level level \<and>
    (\<forall>message. redact_message le (lg_rules lg') message =
       redact_message le (drop (length (compiled le default_rules)) (lg_rules lg'))
         (redact_message le (compiled le default_rules) message))"
proof -
  obtain c where built: "add_default_rules le default_rules = Inr c"
    using assms by (cases "add_default_rules le default_rules") (simp_all add: initialize_logging_def)
  note init = assms [unfolded initialize_logging_def Let_def built bindE.simps]
  obtain node where node: "(if ya_defined ya config then ya_get ya config ''logging'' else Inr config) = Inr node"
    using init by (cases "if ya_defined ya config then ya_get ya config ''logging'' else Inr config") simp_all
  have "prefix c (lg_rules lg') \<and> lg_level lg' = to_trantor_level level"
  proof (cases "\<not> ya_defined ya config \<or> \<not> ya_defined ya node")
    case True
    with init show ?thesis by (simp only: node bindE.simps if_True) auto
  next
    case False
    note init1 = init [unfolded node bindE.simps if_not_P [OF False]]
    obtain out where o: "configure_stdout ya node = Inr out"
      using init1 by (cases "configure_stdout ya node") simp_all
    obtain sink where f: "configure_file ya node = Inr sink"
      using init1 by (cases "configure_file ya node") (simp_all add: o)
    obtain rules where r: "configure_redaction ya le node c = Inr rules"
      using init1 by (cases "configure_redaction ya le node c") (simp_all add: o f)
    have "lg_rules lg' = rules" "lg_level lg' = to_trantor_level level"
      using init1 unfolding o f r bindE.simps by (cases sink; cases out; force)+
    then show ?thesis
      using configure_redaction_extends [OF r] by simp
  qed
  then have "prefix (compiled le default_rules) (lg_rules lg') \<and> lg_level lg' = to_trantor_level level"
    using add_default_rules_compiled [OF built] by simp
  moreover from this obtain rest where "lg_rules lg' = compiled le default_rules @ rest"
    by (auto simp: prefix_def)
  ultimately show ?thesis
    by (simp add: redact_message_def)
qed

definition sample_log_env :: "(string, nat) log_env" where
  "sample_log_env = \<lparr> le_zero = 0, le_positive = (\<lambda>d. 0 < d), le_compile = (\<lambda>src _. Some src),
     le_replace = (\<lambda>_ s. s), le_dump = (\<lambda>_. Inr ''{}'') \<rparr>"

theorem default_rules_kept_witness:
  "\<exists>lg'. initialize_logging sample_yaml sample_log_env (\<lambda>_. True) ''warn'' ''x'' logging_new = Inr lg' \<and>
     prefix (compiled sample_log_env default_rules) (lg_rules lg') \<and> lg_level lg' = LogWarn"
proof -
  have "add_default_rules sample_log_env rs = Inr (compiled sample_log_env rs)" for rs
    by (induction rs) (auto simp: sample_log_env_def)
  moreover have "configure_stdout sample_yaml ''x'' = Inr True" "configure_file sample_yaml ''x'' = Inr None"
    "configure_redaction sample_yaml sample_log_env ''x'' rules = Inr rules"
    "ya_defined sample_yaml ''x''" "ya_get sample_yaml ''x'' ''logging'' = Inr ''x''" for rules
    by (simp_all add: configure_stdout_def configure_file_def configure_redaction_def sample_yaml_def)
  ultimately obtain lg' where run: "initialize_logging sample_yaml sample_log_env (\<lambda>_. True) ''warn'' ''x'' logging_new = Inr lg'"
    by (simp add: initialize_logging_def Let_def)
  have "to_trantor_level ''warn'' = LogWarn"
    by (simp add: to_trantor_level_def to_lower_def tolower_def isupper_def)
  then show ?thesis
    using run default_rules_kept [OF run] by auto
qed

section \<open>The log context\<close>

text \<open>What a thread sets it reads back, and an update of an untouched context changes nothing.\<close>

lemma update_own_context:
  assumes "lc_has_request ctx"
  shows "update_log_context le ctx ctx = ctx"
  using assms by (simp add: update_log_context_def Let_def)

lemma log_message_raw_metadata:
  assumes "lc_request_id ctx \<noteq> []"
  shows "(''request_id'', LText (lc_request_id ctx)) \<in> set (log_payload le rules ts ctx message)"
  using assms by (simp add: log_payload_def Let_def text_field_def)

end
