(* ===== verification/App_Startup.thy ===== *)
theory App_Startup
  imports Logging
begin

text \<open>
  The start of the gateway: \<^verbatim>\<open>src/app_config.cpp\<close> and the part of \<open>main\<close> in \<^verbatim>\<open>src/main.cpp\<close> that loads the
  environment file and the YAML files and configures the logging, the tracer and the providers.
\<close>

section \<open>The configuration of the server\<close>

record app_config =
  ac_host :: string
  ac_port :: u16
  ac_dry_run :: bool
  ac_log_level :: string

definition app_parse_port :: "string \<Rightarrow> u16 \<Rightarrow> u16" where
  "app_parse_port value fallback =
     (case stoul value of
        Inl _ \<Rightarrow> fallback
      | Inr n \<Rightarrow> if n = 0 \<or> n > 65535 then fallback else of_nat n)"

text \<open>The defaults of the first listener; the 32 bit number of the file is cut to 16 bits.\<close>

definition listener_defaults :: "'y config_yaml \<Rightarrow> 'y \<Rightarrow> (string \<times> u16) res" where
  "listener_defaults ya server =
     bindE (ya_get ya server ''listeners'') (\<lambda>listeners.
       case ya_items ya listeners of
         [] \<Rightarrow> Inr (''0.0.0.0'', 8080)
       | listener # _ \<Rightarrow>
           if \<not> ya_defined ya listeners \<or> \<not> ya_is_sequence ya listeners then Inr (''0.0.0.0'', 8080)
           else bindE (ya_get ya listener ''address'') (\<lambda>address.
                bindE (ya_get ya listener ''port'') (\<lambda>port.
                  Inr (if ya_defined ya address then ya_text_or ya address ''0.0.0.0'' else ''0.0.0.0'',
                       if ya_defined ya port then ucast (ya_u32_or ya port 8080) else 8080))))"

definition dry_run_default :: "'y config_yaml \<Rightarrow> 'y \<Rightarrow> bool res" where
  "dry_run_default ya server =
     bindE (ya_get ya server ''app'') (\<lambda>app.
     if ya_defined ya app then bindE (ya_get ya app ''dry_run'') (\<lambda>n. Inr (ya_flag_or ya n False)) else Inr False)"

definition log_level_default :: "'y config_yaml \<Rightarrow> 'y \<Rightarrow> string res" where
  "log_level_default ya config =
     (if \<not> ya_defined ya config then Inr ''info''
      else bindE (ya_get ya config ''logging'') (\<lambda>logging.
        if ya_defined ya logging then bindE (ya_get ya logging ''level'') (\<lambda>n. Inr (ya_text_or ya n ''info''))
        else Inr ''info''))"

definition load_app_config :: "'y config_yaml \<Rightarrow> environ \<Rightarrow> 'y \<Rightarrow> 'y \<Rightarrow> app_config res" where
  "load_app_config ya env server logging =
     bindE (if ya_defined ya server then listener_defaults ya server else Inr (''0.0.0.0'', 8080)) (\<lambda>(host, port).
     bindE (if ya_defined ya server then dry_run_default ya server else Inr False) (\<lambda>dry_run.
     bindE (log_level_default ya logging) (\<lambda>level.
       Inr \<lparr> ac_host = get_env_or_default env ''HOST'' host,
             ac_port = app_parse_port (get_env_or_default env ''PORT'' (show_nat (unat port))) port,
             ac_dry_run = get_env_flag env ''DRY_RUN'' dry_run,
             ac_log_level = get_env_or_default env ''LOG_LEVEL'' level \<rparr>)))"

section \<open>Starting the server\<close>

record 'r started =
  st_config :: app_config
  st_environ :: environ
  st_logging :: "'r logging"
  st_tracer :: tracer
  st_threads :: "nat option"
  st_providers :: "(string \<times> provider \<times> breaker) list"

definition thread_count :: "'y config_yaml \<Rightarrow> 'y \<Rightarrow> nat option res" where
  "thread_count ya server =
     (if \<not> ya_defined ya server then Inr None
      else bindE (ya_get ya server ''app'') (\<lambda>app.
        if \<not> ya_defined ya app then Inr None
        else bindE (ya_get ya app ''threads'') (\<lambda>n.
          if ya_defined ya n then bindE (ya_size ya n 0) (\<lambda>k. Inr (Some k)) else Inr None)))"

text \<open>
  The steps of \<open>main\<close> up to the registration of the handlers. \<open>dotenv\<close> is the content of the environment file
  when it can be read, \<open>server\<close>, \<open>logging\<close> and \<open>otel\<close> the documents (an empty node when a file cannot be
  loaded), \<open>providers\<close> the provider document. An exception ends the program.
\<close>

definition start_up ::
  "'y config_yaml \<Rightarrow> ('r, 'd) log_env \<Rightarrow> (string \<Rightarrow> bool) \<Rightarrow> environ \<Rightarrow> string option \<Rightarrow> 'y \<Rightarrow> 'y \<Rightarrow> 'y \<Rightarrow> 'y option \<Rightarrow>
   'r started res" where
  "start_up ya le opened env dotenv server logging otel providers =
     (let env = snd (load_dot_env dotenv env)
      in bindE (load_app_config ya env server logging) (\<lambda>config.
         bindE (initialize_logging ya le opened (ac_log_level config) logging logging_new) (\<lambda>lg.
         bindE (tracer_configure ya env otel tracer_new) (\<lambda>tr.
         bindE (thread_count ya server) (\<lambda>threads.
         bindE (initialize (yaml_lib.truncate ya) env providers (ac_dry_run config)) (\<lambda>ps.
           Inr \<lparr> st_config = config, st_environ = env, st_logging = lg, st_tracer = tr, st_threads = threads,
                 st_providers = ps \<rparr>))))))"

section \<open>Ports\<close>

lemma parse_port_printed:
  assumes "0 < n" and "n < 65536"
  shows "app_parse_port (show_nat n) fallback = of_nat n"
  using assms by (simp add: app_parse_port_def stoul_show_nat)

lemma parse_own_port: "app_parse_port (show_nat (unat (p :: u16))) p = p"
proof -
  have "unat p < 65536"
    using unsigned_less [where ?'a = nat, of p] by simp
  then show ?thesis
    by (simp add: app_parse_port_def stoul_show_nat)
qed

text \<open>The value of the environment, the one of the file that stands behind it and the result.\<close>

lemma load_app_config_parts:
  assumes "load_app_config ya env server logging = Inr config"
  obtains host port dry_run level where
    "(if ya_defined ya server then listener_defaults ya server else Inr (''0.0.0.0'', 8080)) = Inr (host, port)"
    "(if ya_defined ya server then dry_run_default ya server else Inr False) = Inr dry_run"
    "log_level_default ya logging = Inr level"
    "config = \<lparr> ac_host = get_env_or_default env ''HOST'' host,
       ac_port = app_parse_port (get_env_or_default env ''PORT'' (show_nat (unat port))) port,
       ac_dry_run = get_env_flag env ''DRY_RUN'' dry_run, ac_log_level = get_env_or_default env ''LOG_LEVEL'' level \<rparr>"
  using assms unfolding load_app_config_def by (auto simp: bindE_Inr_iff)

text \<open>The listening port is the one of the variable \<open>PORT\<close> when that is a number from 1 to 65535, whatever the
  files say, and the port of the file when the variable is unset or empty; a variable that cannot be read is
  passed over.\<close>

theorem port_precedence:
  assumes "load_app_config ya env server logging = Inr config"
    and "(if ya_defined ya server then listener_defaults ya server else Inr (''0.0.0.0'', 8080)) = Inr (host, port)"
  shows "ac_port config =
    (case get_env env ''PORT'' of
       None \<Rightarrow> port
     | Some v \<Rightarrow> (case stoul v of
         Inr n \<Rightarrow> if 0 < n \<and> n < 65536 then of_nat n else port
       | Inl _ \<Rightarrow> port))"
proof -
  obtain h q d l where
    "(if ya_defined ya server then listener_defaults ya server else Inr (''0.0.0.0'', 8080)) = Inr (h, q)"
    "config = \<lparr> ac_host = get_env_or_default env ''HOST'' h,
       ac_port = app_parse_port (get_env_or_default env ''PORT'' (show_nat (unat q))) q,
       ac_dry_run = get_env_flag env ''DRY_RUN'' d, ac_log_level = get_env_or_default env ''LOG_LEVEL'' l \<rparr>"
    by (rule load_app_config_parts [OF assms(1)])
  then have "ac_port config = app_parse_port (get_env_or_default env ''PORT'' (show_nat (unat port))) port"
    using assms(2) by simp
  moreover have "stoul [] = Inl (InvalidArgument ''stoul'')"
    by (simp add: stoul_def strto_def read_sign_def)
  ultimately show ?thesis
    using parse_own_port [of port]
    by (auto simp: get_env_or_default_def app_parse_port_def not_less not_le split: option.split sum.split)
qed

text \<open>A port of the file is cut to 16 bits: \<open>65536 + p\<close> is taken for \<open>p\<close>, and 65536 for 0, the port the system
  chooses.\<close>

theorem file_port_wraps:
  assumes "ya_defined ya server" and "ya_get ya server ''listeners'' = Inr ls" and "ya_defined ya ls"
    and "ya_is_sequence ya ls" and "ya_items ya ls = l # rest"
    and "ya_get ya l ''address'' = Inr a" and "ya_get ya l ''port'' = Inr n" and "ya_defined ya n"
    and "ya_u32_or ya n 8080 = of_nat (65536 + p)" and "p < 65536" and "get_env env ''PORT'' = None"
    and "load_app_config ya env server logging = Inr config"
  shows "ac_port config = of_nat p"
proof -
  have "take_bit 32 (65536 + p) = 65536 + p"
    using assms(10) by (intro take_bit_nat_eq_self) simp
  then have "ucast (of_nat (65536 + p) :: u32) = (of_nat (65536 + p) :: u16)"
    by (simp only: unsigned_of_nat len_num1 len_bit0 len_of_numeral_defs) simp
  then have "ucast (of_nat (65536 + p) :: u32) = (of_nat p :: u16)"
    by simp
  then show ?thesis
    using assms port_precedence [OF assms(12)] by (simp add: listener_defaults_def)
qed


section \<open>The environment file\<close>

lemma start_up_config:
  assumes "start_up ya le opened env dotenv server logging otel providers = Inr s"
  shows "st_environ s = snd (load_dot_env dotenv env) \<and> load_app_config ya (st_environ s) server logging = Inr (st_config s) \<and>
    (\<exists>lg. initialize_logging ya le opened (ac_log_level (st_config s)) logging lg = Inr (st_logging s)) \<and>
    (\<exists>tr. tracer_configure ya (st_environ s) otel tr = Inr (st_tracer s)) \<and>
    initialize (yaml_lib.truncate ya) (st_environ s) providers (ac_dry_run (st_config s)) = Inr (st_providers s)"
  using assms unfolding start_up_def Let_def by (auto simp: bindE_Inr_iff)

text \<open>The environment file beats the environment of the process and the YAML files: a server that starts with
  \<open>PORT="n"\<close> as the last binding of the name in its file listens on port \<open>n\<close>, and the same environment is the one the
  tracer and the providers are configured from.\<close>

theorem startup_dotenv_wins:
  assumes "list_all (\<lambda>(k, v). env_name k \<and> env_value v) kvs"
    and "map_of (rev kvs) ''PORT'' = Some (show_nat n)" and "0 < n" and "n < 65536"
    and "start_up ya le opened env (Some (quoted_file kvs)) server logging otel providers = Inr s"
  shows "ac_port (st_config s) = of_nat n \<and> st_environ s = env ++ map_of (rev kvs)"
proof -
  note parts = start_up_config [OF assms(5)]
  have env: "st_environ s = env ++ map_of (rev kvs)"
    using parts load_quoted_lines [OF assms(1)] by (simp add: load_dot_env_def)
  then have "get_env (st_environ s) ''PORT'' = Some (show_nat n)"
    using assms(2) by (simp add: get_env_def c_str_def)
  moreover have load: "load_app_config ya (st_environ s) server logging = Inr (st_config s)"
    using parts by blast
  moreover obtain host port dry level where
    "(if ya_defined ya server then listener_defaults ya server else Inr (''0.0.0.0'', 8080)) = Inr (host, port)"
    "st_config s = \<lparr> ac_host = get_env_or_default (st_environ s) ''HOST'' host,
       ac_port = app_parse_port (get_env_or_default (st_environ s) ''PORT'' (show_nat (unat port))) port,
       ac_dry_run = get_env_flag (st_environ s) ''DRY_RUN'' dry,
       ac_log_level = get_env_or_default (st_environ s) ''LOG_LEVEL'' level \<rparr>"
    by (rule load_app_config_parts [OF load])
  ultimately have "ac_port (st_config s) = of_nat n"
    using parse_port_printed [OF assms(3,4)] by (simp add: get_env_or_default_def)
  then show ?thesis
    using env by blast
qed

section \<open>Sample documents\<close>

text \<open>A document in which every member of a node is absent, but for the port of the first listener.\<close>

definition sample_documents :: "string config_yaml" where
  "sample_documents = sample_yaml\<lparr>ya_get := (\<lambda>y k. Inr (if k = ''listeners'' \<or> k = ''port'' then y else [])),
     ya_is_sequence := (\<lambda>_. True), ya_items := (\<lambda>y. [y]), ya_u32_or := (\<lambda>_ _. 65616)\<rparr>"

lemma sample_documents_fields [simp]:
  "ya_defined sample_documents y = (y \<noteq> [])" "ya_items sample_documents y = [y]" "ya_is_sequence sample_documents y"
  "ya_get sample_documents y k = Inr (if k = ''listeners'' \<or> k = ''port'' then y else [])"
  "ya_u32_or sample_documents y m = 65616" "ya_flag_or sample_documents y b = b"
  "ya_text_or sample_documents y d = (if y = [] then d else y)"
  by (simp_all add: sample_documents_def sample_yaml_def)

lemma sample_listener: "listener_defaults sample_documents ''s'' = Inr (''0.0.0.0'', 80)"
  by (simp add: listener_defaults_def)

lemma sample_app_load:
  "load_app_config sample_documents env ''s'' [] = Inr
     \<lparr> ac_host = get_env_or_default env ''HOST'' ''0.0.0.0'',
       ac_port = app_parse_port (get_env_or_default env ''PORT'' (show_nat (unat (80 :: u16)))) 80,
       ac_dry_run = get_env_flag env ''DRY_RUN'' False, ac_log_level = get_env_or_default env ''LOG_LEVEL'' ''info'' \<rparr>"
  unfolding load_app_config_def by (simp add: sample_listener dry_run_default_def log_level_default_def)

theorem port_precedence_witness:
  "\<exists>config. load_app_config sample_documents [''PORT'' \<mapsto> ''99''] ''s'' [] = Inr config \<and> ac_port config = 99"
proof -
  obtain config where l: "load_app_config sample_documents [''PORT'' \<mapsto> ''99''] ''s'' [] = Inr config"
    using sample_app_load by blast
  have "stoul ''99'' = Inr 99"
    using stoul_show_nat [of 99] by (simp add: show_nat.simps digit_chars)
  then show ?thesis
    using port_precedence [OF l, of "''0.0.0.0''" 80] l by (simp add: sample_listener get_env_def c_str_def)
qed

theorem file_port_wraps_witness:
  "\<exists>config. load_app_config sample_documents Map.empty ''s'' [] = Inr config \<and> ac_port config = 80"
proof -
  obtain config where l: "load_app_config sample_documents Map.empty ''s'' [] = Inr config"
    using sample_app_load by blast
  show ?thesis
    using file_port_wraps [of sample_documents "''s''" "''s''" "''s''" "[]" "[]" "''s''" 80 Map.empty "[]" config] l
    by (simp add: get_env_def)
qed

theorem startup_dotenv_wins_witness:
  "\<exists>s. start_up sample_documents sample_log_env (\<lambda>_. True) [''PORT'' \<mapsto> ''1''] (Some (quoted_file [(''PORT'', show_nat 99)]))
      ''s'' [] [] None = Inr s \<and> ac_port (st_config s) = 99"
proof -
  let ?env = "snd (load_dot_env (Some (quoted_file [(''PORT'', show_nat 99)])) [''PORT'' \<mapsto> ''1''])"
  have ok: "list_all (\<lambda>(k, v). env_name k \<and> env_value v) [(''PORT'', show_nat 99)]"
    by (simp add: env_name_def env_value_def isspace_def show_nat.simps digit_chars)
  obtain config where "load_app_config sample_documents ?env ''s'' [] = Inr config"
    using sample_app_load by blast
  moreover have "add_default_rules sample_log_env rs = Inr (compiled sample_log_env rs)" for rs
    by (induction rs) (auto simp: sample_log_env_def)
  then obtain lg where "initialize_logging sample_documents sample_log_env (\<lambda>_. True) (ac_log_level config) [] logging_new = Inr lg"
    by (simp add: initialize_logging_def Let_def)
  moreover have "tracer_configure sample_documents ?env [] tracer_new = Inr (tracer_new\<lparr>tr_enabled := False, tr_endpoint := [], tr_headers := []\<rparr>)"
    by (simp add: tracer_configure_def Let_def)
  moreover have "thread_count sample_documents ''s'' = Inr None"
    by (simp add: thread_count_def)
  moreover have "initialize ya env None b = Inr []" for ya :: "string yaml_lib" and env b
    by (simp add: initialize_def)
  ultimately obtain s where s: "start_up sample_documents sample_log_env (\<lambda>_. True) [''PORT'' \<mapsto> ''1'']
      (Some (quoted_file [(''PORT'', show_nat 99)])) ''s'' [] [] None = Inr s"
    unfolding start_up_def Let_def by (auto simp: bindE_Inr_iff)
  then show ?thesis
    using startup_dotenv_wins [OF ok _ _ _ s, of 99] by simp
qed

end
