(* ===== verification/Request_Lifecycle.thy ===== *)
theory Request_Lifecycle
  imports Logging
begin

text \<open>
  One request of the gateway from end to end: the filter of \<^verbatim>\<open>src/middleware/request_id.cpp\<close>, which opens the
  observation and the span, and the post-handling advice and the service handlers of \<^verbatim>\<open>src/main.cpp\<close>, which
  close them. The attributes of a request are a record with one field for each key the program uses; the objects
  behind the shared pointers are the observation itself and the number of the span. The web framework is the
  parameter \<open>framework\<close>.
\<close>

section \<open>Requests\<close>

text \<open>The headers are looked up by the spelling the program uses for each.\<close>

record http_in =
  hi_header :: "string \<Rightarrow> string"
  hi_param :: "string \<Rightarrow> string option"
  hi_path :: string
  hi_method :: string
  hi_body_length :: u64
  hi_peer_ip :: string
  hi_peer_port :: u16

record http_out =
  ho_status :: nat
  ho_headers :: headers
  ho_body_length :: u64

record request_attrs =
  at_request_id :: "string option"
  at_metrics :: "observation option"
  at_span :: "nat option"
  at_company :: "string option"
  at_endpoint :: "string option"
  at_tokens_in :: "u64 option"
  at_tokens_out :: "u64 option"
  at_stream_events :: "u64 option"

definition no_attrs :: request_attrs where
  "no_attrs = \<lparr> at_request_id = None, at_metrics = None, at_span = None, at_company = None,
     at_endpoint = None, at_tokens_in = None, at_tokens_out = None, at_stream_events = None \<rparr>"

text \<open>
  \<open>fw_throws\<close> says whether reading an attribute that is not there throws or gives the default value of the type;
  \<open>fw_runs_filter\<close> whether the filter runs for the handler of the request; \<open>fw_format\<close> is the line the logging
  library makes of a message.
\<close>

record 'w framework =
  fw_throws :: bool
  fw_runs_filter :: bool
  fw_random_string :: "'w \<Rightarrow> string \<times> 'w"
  fw_format :: "string \<Rightarrow> string"

record ('r, 'd, 'w) server =
  se_registry :: "'d registry"
  se_tracing :: "('d, 'w) tracing"
  se_logging :: "'r logging"
  se_log_context :: "'d log_context"

section \<open>The filter\<close>

definition label_char :: "char \<Rightarrow> bool" where
  "label_char c \<longleftrightarrow> isalnum c \<or> c = CHR ''_'' \<or> c = CHR ''-'' \<or> c = CHR ''.''"

fun sanitize_chars :: "string \<Rightarrow> string" where
  "sanitize_chars [] = []"
| "sanitize_chars (c # cs) =
     (if label_char c then tolower c # sanitize_chars cs
      else if isspace c then CHR ''_'' # sanitize_chars cs
      else sanitize_chars cs)"

definition sanitize_label :: "string \<Rightarrow> string" where
  "sanitize_label s = (let r = sanitize_chars s in if r = [] then ''unknown'' else r)"

definition parse_unsigned :: "string \<Rightarrow> u64" where
  "parse_unsigned s =
     (if s = [] then 0 else case stoull s of Inr n \<Rightarrow> of_nat n | Inl _ \<Rightarrow> 0)"

definition resolve_company :: "http_in \<Rightarrow> string" where
  "resolve_company req =
     (case filter (\<lambda>h. hi_header req h \<noteq> []) [''X-Company'', ''X-Company-Id'', ''X-Tenant''] of
        h # _ \<Rightarrow> sanitize_label (hi_header req h)
      | [] \<Rightarrow>
          (case hi_param req ''company'' of
             Some v \<Rightarrow> if v \<noteq> [] then sanitize_label v else ''unknown''
           | None \<Rightarrow> ''unknown''))"

definition resolve_endpoint :: "http_in \<Rightarrow> string" where
  "resolve_endpoint req = (if hi_path req = [] then ''unknown'' else hi_path req)"

definition span_attributes :: "http_in \<Rightarrow> string \<Rightarrow> 'd attributes" where
  "span_attributes req company =
     [(''http.method'', AString (hi_method req)), (''http.target'', AString (hi_path req)),
      (''http.scheme'', AString (or_else (hi_header req ''X-Forwarded-Proto'') ''http'')),
      (''http.host'', AString (hi_header req ''Host'')), (''company'', AString company),
      (''http.user_agent'', AString (hi_header req ''User-Agent''))] @
     (if hi_peer_ip req \<noteq> []
      then [(''net.peer.ip'', AString (hi_peer_ip req)), (''net.peer.port'', AInt (int (unat (hi_peer_port req))))]
      else [])"

definition log_context_of ::
  "('r, 'd) log_env \<Rightarrow> string \<Rightarrow> string \<Rightarrow> string \<Rightarrow> 'd log_context" where
  "log_context_of le request_id company endpoint =
     (empty_log_context le)\<lparr>lc_request_id := request_id, lc_company := company, lc_endpoint := endpoint,
        lc_has_request := True\<rparr>"

definition count_tokens_in :: "http_in \<Rightarrow> observation \<Rightarrow> observation \<times> u64 option" where
  "count_tokens_in req ob =
     (let tokens = (if hi_header req ''X-Tokens-In'' \<noteq> [] then parse_unsigned (hi_header req ''X-Tokens-In'') else 0)
      in if tokens > 0 then (add_tokens_in tokens ob, Some tokens) else (ob, None))"

definition do_filter ::
  "('d, 'w) trace_env \<Rightarrow> ('r, 'd) log_env \<Rightarrow> 'w framework \<Rightarrow> nat \<Rightarrow> http_in \<Rightarrow> ('r, 'd, 'w) server \<Rightarrow>
   http_in \<times> request_attrs \<times> ('r, 'd, 'w) server" where
  "do_filter te le fw t req sv =
     (let w = tc_world (se_tracing sv);
          (request_id, w) =
            (if hi_header req ''X-Request-ID'' = [] then fw_random_string fw w else (hi_header req ''X-Request-ID'', w));
          req = req\<lparr>hi_header := (hi_header req)(''X-Request-ID'' := request_id)\<rparr>;
          company = resolve_company req; endpoint = resolve_endpoint req;
          (ob, tokens) = count_tokens_in req (start_request company endpoint (hi_body_length req) 0);
          (i, tracing) = start_span te t (hi_method req @ '' '' @ hi_path req)
             (extract_traceparent (hi_header req ''traceparent'')) (span_attributes req company) ''SERVER''
             ((se_tracing sv)\<lparr>tc_world := w\<rparr>);
          req = req\<lparr>hi_header := (hi_header req)(''traceparent'' := build_traceparent (context_of tracing i))\<rparr>
      in (req,
          no_attrs\<lparr>at_request_id := Some request_id, at_metrics := Some ob, at_span := Some i,
                   at_company := Some company, at_endpoint := Some endpoint, at_tokens_in := tokens\<rparr>,
          sv\<lparr>se_tracing := tracing,
             se_log_context := set_log_context (log_context_of le request_id company endpoint)\<rparr>))"

section \<open>The post-handling advice\<close>

definition attr_request_id :: "'w framework \<Rightarrow> http_in \<Rightarrow> request_attrs \<Rightarrow> string" where
  "attr_request_id fw req attrs =
     (case at_request_id attrs of
        Some i \<Rightarrow> i
      | None \<Rightarrow> if fw_throws fw then hi_header req ''X-Request-ID'' else [])"

definition attr_text :: "string option \<Rightarrow> string" where
  "attr_text a = (case a of Some s \<Rightarrow> s | None \<Rightarrow> [])"

text \<open>Every counter is stored as \<open>std::uint64_t\<close>; the other types that \<open>getAttributeCount\<close> tries give 0 then.\<close>

definition attr_count :: "u64 option \<Rightarrow> u64" where
  "attr_count a = (case a of Some n \<Rightarrow> n | None \<Rightarrow> 0)"

definition out_header :: "string \<Rightarrow> http_out \<Rightarrow> string" where
  "out_header k resp = (case map_of (ho_headers resp) k of Some v \<Rightarrow> v | None \<Rightarrow> [])"

definition add_out_header :: "string \<Rightarrow> string \<Rightarrow> http_out \<Rightarrow> http_out" where
  "add_out_header k v resp = resp\<lparr>ho_headers := al_set k v (ho_headers resp)\<rparr>"

definition label_span ::
  "nat \<Rightarrow> request_attrs \<Rightarrow> 'd \<Rightarrow> u64 \<Rightarrow> ('d, 'w) tracing \<Rightarrow> ('d, 'w) tracing" where
  "label_span i attrs latency bytes_out st =
     (let put = \<lambda>k v. update_span i (span_set_attribute k v);
          company = attr_text (at_company attrs); endpoint = attr_text (at_endpoint attrs);
          st = (if company \<noteq> [] then put ''company'' (AString company) st else st);
          st = (if endpoint \<noteq> [] then put ''http.route'' (AString endpoint) st else st);
          st = (if at_metrics attrs \<noteq> None then put ''request.latency_ms'' (ADouble latency) st else st)
      in put ''http.response_content_length'' (AInt (sint bytes_out)) st)"

definition close_span ::
  "('d, 'w) trace_env \<Rightarrow> nat \<Rightarrow> nat \<Rightarrow> request_attrs \<Rightarrow> 'd \<Rightarrow> nat \<Rightarrow> u64 \<Rightarrow> ('d, 'w) tracing \<Rightarrow>
   unit res \<times> ('d, 'w) tracing" where
  "close_span te t i attrs latency status bytes_out st =
     end_span te t i (int status) (if status \<ge> 400 then ''http_error'' else [])
       (label_span i attrs latency bytes_out st)"

text \<open>\<open>LOG_INFO\<close> with the context of the thread.\<close>

definition log_info ::
  "('r, 'd) log_env \<Rightarrow> 'w framework \<Rightarrow> string \<Rightarrow> string \<Rightarrow> ('r, 'd, 'w) server \<Rightarrow> ('r, 'd, 'w) server res" where
  "log_info le fw ts message sv =
     (if lg_level (se_logging sv) \<in> {LogTrace, LogDebug, LogInfo} then
        bindE (log_message le ts (se_log_context sv) (fw_format fw message) (se_logging sv))
          (\<lambda>lg. Inr (sv\<lparr>se_logging := lg\<rparr>))
      else Inr sv)"

definition response_status :: "http_out option \<Rightarrow> nat" where
  "response_status resp = (case resp of Some r \<Rightarrow> ho_status r | None \<Rightarrow> 0)"

definition response_bytes :: "http_out option \<Rightarrow> u64" where
  "response_bytes resp = (case resp of Some r \<Rightarrow> ho_body_length r | None \<Rightarrow> 0)"

definition response_tokens :: "request_attrs \<Rightarrow> http_out option \<Rightarrow> u64" where
  "response_tokens attrs resp =
     (let tokens = attr_count (at_tokens_out attrs)
      in case resp of
           Some r \<Rightarrow> if tokens = 0 then parse_unsigned (out_header ''X-Tokens-Out'' r) else tokens
         | None \<Rightarrow> tokens)"

text \<open>The three blocks of the advice: the observation, the span and the log line.\<close>

definition advise_metrics ::
  "'d double_ops \<Rightarrow> 'd \<Rightarrow> http_out option \<Rightarrow> request_attrs \<Rightarrow> ('r, 'd, 'w) server \<Rightarrow>
   request_attrs \<times> ('r, 'd, 'w) server" where
  "advise_metrics db latency resp attrs sv =
     (case at_metrics attrs of
        None \<Rightarrow> (attrs, sv)
      | Some ob \<Rightarrow>
          (let (ob, reg) = complete db latency (response_status resp) (response_bytes resp)
                 (response_tokens attrs resp) (attr_count (at_stream_events attrs)) [] (ob, se_registry sv)
           in (attrs\<lparr>at_metrics := Some ob\<rparr>, sv\<lparr>se_registry := reg\<rparr>)))"

definition advise_span ::
  "('d, 'w) trace_env \<Rightarrow> nat \<Rightarrow> 'd \<Rightarrow> request_attrs \<Rightarrow> http_out option \<Rightarrow> ('r, 'd, 'w) server \<Rightarrow>
   unit res \<times> http_out option \<times> ('r, 'd, 'w) server" where
  "advise_span te t latency attrs resp sv =
     (case at_span attrs of
        None \<Rightarrow> (Inr (), resp, sv)
      | Some i \<Rightarrow>
          (case close_span te t i attrs latency (response_status resp) (response_bytes resp) (se_tracing sv) of
             (Inl ex, tracing) \<Rightarrow> (Inl ex, resp, sv\<lparr>se_tracing := tracing\<rparr>)
           | (Inr _, tracing) \<Rightarrow>
               (Inr (), map_option (add_out_header ''traceparent'' (build_traceparent (context_of tracing i))) resp,
                sv\<lparr>se_tracing := tracing\<rparr>)))"

definition advise_log ::
  "('r, 'd) log_env \<Rightarrow> 'w framework \<Rightarrow> string \<Rightarrow> 'd \<Rightarrow> string \<Rightarrow> request_attrs \<Rightarrow> http_out option \<Rightarrow>
   ('r, 'd, 'w) server \<Rightarrow> unit res \<times> ('r, 'd, 'w) server" where
  "advise_log le fw ts latency request_id attrs resp sv =
     (let ctx = (se_log_context sv)\<lparr>lc_request_id := request_id\<rparr>;
          company = attr_text (at_company attrs); endpoint = attr_text (at_endpoint attrs);
          ctx = (if company \<noteq> [] then ctx\<lparr>lc_company := company\<rparr> else ctx);
          ctx = (if endpoint \<noteq> [] then ctx\<lparr>lc_endpoint := endpoint\<rparr> else ctx);
          ctx = ctx\<lparr>lc_status := int (response_status resp),
                    lc_latency := (if at_metrics attrs \<noteq> None then latency else le_zero le), lc_has_request := True\<rparr>;
          sv = sv\<lparr>se_log_context := update_log_context le ctx (se_log_context sv)\<rparr>
      in case log_info le fw ts ''request complete'' sv of
           Inl ex \<Rightarrow> (Inl ex, sv)
         | Inr sv \<Rightarrow> (Inr (), sv\<lparr>se_log_context := empty_log_context le\<rparr>))"

text \<open>
  The advice for the response, which can be missing; \<open>latency\<close> is the duration the observation measures when it
  is completed. The result is the exception that leaves it, if any, and the response, the attributes and the
  state at that point.
\<close>

definition post_handling ::
  "('d, 'w) trace_env \<Rightarrow> ('r, 'd) log_env \<Rightarrow> 'd double_ops \<Rightarrow> 'w framework \<Rightarrow> string \<Rightarrow> nat \<Rightarrow> 'd \<Rightarrow> http_in \<Rightarrow>
   request_attrs \<Rightarrow> http_out option \<Rightarrow> ('r, 'd, 'w) server \<Rightarrow>
   unit res \<times> http_out option \<times> request_attrs \<times> ('r, 'd, 'w) server" where
  "post_handling te le db fw ts t latency req attrs resp sv =
     (let request_id = attr_request_id fw req attrs;
          resp = (if request_id \<noteq> [] then map_option (add_out_header ''X-Request-ID'' request_id) resp else resp);
          (attrs, sv) = advise_metrics db latency resp attrs sv
      in case advise_span te t latency attrs resp sv of
           (Inl ex, resp, sv) \<Rightarrow> (Inl ex, resp, attrs, sv)
         | (Inr _, resp, sv) \<Rightarrow>
             (let (r, sv) = advise_log le fw ts latency request_id attrs resp sv in (r, resp, attrs, sv)))"

section \<open>A request from end to end\<close>

text \<open>What a handler leaves of the request: the attributes it sets and the response.\<close>

record handler_result =
  hr_company :: "string option"
  hr_endpoint :: "string option"
  hr_tokens_out :: "u64 option"
  hr_response :: "http_out option"

definition first_some :: "'a option \<Rightarrow> 'a option \<Rightarrow> 'a option" where
  "first_some a b = (case a of Some x \<Rightarrow> Some x | None \<Rightarrow> b)"

definition apply_handler :: "handler_result \<Rightarrow> request_attrs \<Rightarrow> request_attrs" where
  "apply_handler hr attrs =
     attrs\<lparr>at_company := first_some (hr_company hr) (at_company attrs),
           at_endpoint := first_some (hr_endpoint hr) (at_endpoint attrs),
           at_tokens_out := first_some (hr_tokens_out hr) (at_tokens_out attrs)\<rparr>"

definition serve ::
  "('d, 'w) trace_env \<Rightarrow> ('r, 'd) log_env \<Rightarrow> 'd double_ops \<Rightarrow> 'w framework \<Rightarrow> string \<Rightarrow> nat \<Rightarrow> 'd \<Rightarrow> http_in \<Rightarrow>
   handler_result \<Rightarrow> ('r, 'd, 'w) server \<Rightarrow>
   unit res \<times> http_out option \<times> request_attrs \<times> ('r, 'd, 'w) server" where
  "serve te le db fw ts t latency req hr sv =
     (let (req, attrs, sv) =
            (if fw_runs_filter fw then do_filter te le fw t req sv else (req, no_attrs, sv))
      in post_handling te le db fw ts t latency req (apply_handler hr attrs) (hr_response hr) sv)"


section \<open>The service handlers\<close>

definition with_request_id :: "'w framework \<Rightarrow> http_in \<Rightarrow> request_attrs \<Rightarrow> headers \<Rightarrow> headers" where
  "with_request_id fw req attrs hs =
     (let i = attr_request_id fw req attrs in if i \<noteq> [] then al_set ''X-Request-ID'' i hs else hs)"

definition health_payload :: "'j json_lib \<Rightarrow> int \<Rightarrow> 'j" where
  "health_payload js uptime_seconds =
     json_obj js [(''status'', js_of_string js ''ok''), (''service'', js_of_string js ''superapi_server''),
       (''version'', js_of_string js ''0.1.0''), (''uptime_seconds'', js_of_int js uptime_seconds)]"

definition version_payload :: "'j json_lib \<Rightarrow> 'j" where
  "version_payload js =
     json_obj js [(''service'', js_of_string js ''superapi_server''), (''version'', js_of_string js ''0.1.0'')]"

text \<open>The body of the reply and the reply without it.\<close>

definition metrics_handler ::
  "'d double_ops \<Rightarrow> 'w framework \<Rightarrow> http_in \<Rightarrow> request_attrs \<Rightarrow> 'd registry \<Rightarrow> string \<times> http_out" where
  "metrics_handler db fw req attrs reg =
     (let body = render_prometheus db reg
      in (body, \<lparr> ho_status = 200,
            ho_headers = with_request_id fw req attrs [(''Content-Type'', ''text/plain; version=0.0.4'')],
            ho_body_length = of_nat (length body) \<rparr>))"

section \<open>Labels\<close>

definition plain_label_char :: "char \<Rightarrow> bool" where
  "plain_label_char c \<longleftrightarrow> label_char c \<and> \<not> isupper c"

lemma tolower_label: "label_char c \<Longrightarrow> plain_label_char (tolower c)"
  by (auto simp: plain_label_char_def label_char_def isalnum_def tolower_def isupper_def islower_def isdigit_def)

lemma plain_underscore: "plain_label_char (CHR ''_'')"
  by (simp add: plain_label_char_def label_char_def isupper_def)

lemma sanitize_chars_plain: "list_all plain_label_char (sanitize_chars s)"
  by (induction s) (simp_all add: tolower_label plain_underscore)

lemma sanitize_plain: "list_all plain_label_char s \<Longrightarrow> sanitize_chars s = s"
  by (induction s) (simp_all add: plain_label_char_def tolower_def)

lemma escape_plain: "list_all plain_label_char s \<Longrightarrow> escape_label s = s"
proof (induction s)
  case (Cons c s)
  then have "c \<noteq> CHR 0x5C" "c \<noteq> CHR 0x22" "c \<noteq> newline"
    by (auto simp: plain_label_char_def label_char_def isalnum_def isdigit_def isupper_def islower_def)
  then show ?case
    using Cons by (simp add: escape_label_def escape_label_char_def)
qed (simp add: escape_label_def)

lemma unknown_plain: "list_all plain_label_char ''unknown''"
  by (simp add: plain_label_char_def label_char_def isalnum_def isdigit_def isupper_def islower_def)

text \<open>A company label is never empty, has only lower case letters, digits and \<open>_\<close>, \<open>-\<close>, \<open>.\<close>, is left alone when it
  is sanitized again, and goes into the metrics text as it is.\<close>

theorem sanitized_label_plain:
  "sanitize_label s \<noteq> [] \<and> list_all plain_label_char (sanitize_label s) \<and>
   sanitize_label (sanitize_label s) = sanitize_label s \<and> escape_label (sanitize_label s) = sanitize_label s"
proof -
  have "list_all plain_label_char (sanitize_label s)" "sanitize_label s \<noteq> []"
    using sanitize_chars_plain [of s] unknown_plain by (simp_all add: sanitize_label_def Let_def)
  then show ?thesis
    using sanitize_plain [of "sanitize_label s"] escape_plain [of "sanitize_label s"]
    by (simp add: sanitize_label_def [of "sanitize_label s"] Let_def)
qed

section \<open>The parts of a request\<close>

lemma do_filter_parts:
  assumes "do_filter te le fw t req sv = (req', attrs, sv1)"
  obtains i ob tracing w where "at_metrics attrs = Some ob" "\<not> ob_completed ob" "at_span attrs = Some i"
    "ob_company ob = resolve_company req" "ob_endpoint ob = resolve_endpoint req" "ob_bytes_in ob = hi_body_length req"
    "ob_tokens_in ob = (if hi_header req ''X-Tokens-In'' \<noteq> [] then parse_unsigned (hi_header req ''X-Tokens-In'') else 0)"
    "start_span te t (hi_method req @ '' '' @ hi_path req) (extract_traceparent (hi_header req ''traceparent''))
       (span_attributes req (resolve_company req)) ''SERVER'' ((se_tracing sv)\<lparr>tc_world := w\<rparr>) = (i, tracing)"
    "se_registry sv1 = se_registry sv" "se_tracing sv1 = tracing" "se_logging sv1 = se_logging sv"
    "at_request_id attrs = Some (if hi_header req ''X-Request-ID'' = []
       then fst (fw_random_string fw (tc_world (se_tracing sv))) else hi_header req ''X-Request-ID'')"
    "se_log_context sv1 = set_log_context (log_context_of le (the (at_request_id attrs)) (resolve_company req) (resolve_endpoint req))"
proof -
  define q where "q = (if hi_header req ''X-Request-ID'' = [] then fw_random_string fw (tc_world (se_tracing sv))
     else (hi_header req ''X-Request-ID'', tc_world (se_tracing sv)))"
  obtain rid w where q: "q = (rid, w)" by fastforce
  let ?req = "req\<lparr>hi_header := (hi_header req)(''X-Request-ID'' := rid)\<rparr>"
  have same: "resolve_company ?req = resolve_company req" "resolve_endpoint ?req = resolve_endpoint req"
    "hi_method ?req = hi_method req" "hi_path ?req = hi_path req" "hi_body_length ?req = hi_body_length req"
    "span_attributes ?req c = span_attributes req c" "hi_header ?req ''traceparent'' = hi_header req ''traceparent''"
    "hi_header ?req ''X-Tokens-In'' = hi_header req ''X-Tokens-In''" for c :: string
    by (simp_all add: resolve_company_def resolve_endpoint_def span_attributes_def)
  obtain i tracing where st: "start_span te t (hi_method req @ '' '' @ hi_path req)
      (extract_traceparent (hi_header req ''traceparent'')) (span_attributes req (resolve_company req)) ''SERVER''
      ((se_tracing sv)\<lparr>tc_world := w\<rparr>) = (i, tracing)" by fastforce
  obtain ob tokens where ct: "count_tokens_in ?req
      (start_request (resolve_company req) (resolve_endpoint req) (hi_body_length req) 0) = (ob, tokens)" by fastforce
  have ob: "\<not> ob_completed ob" "ob_company ob = resolve_company req" "ob_endpoint ob = resolve_endpoint req"
    "ob_bytes_in ob = hi_body_length req"
    "ob_tokens_in ob = (if hi_header req ''X-Tokens-In'' \<noteq> [] then parse_unsigned (hi_header req ''X-Tokens-In'') else 0)"
    using ct unfolding count_tokens_in_def Let_def same
    by (auto simp: start_request_def add_tokens_in_def word_gt_0 split: if_splits)
  have rid: "rid = (if hi_header req ''X-Request-ID'' = [] then fst (fw_random_string fw (tc_world (se_tracing sv)))
      else hi_header req ''X-Request-ID'')"
    using q by (auto simp: q_def split: if_splits)
  show ?thesis
    using assms unfolding do_filter_def Let_def q_def [symmetric] q prod.case same ct st
    by (intro that [OF _ ob(1) _ ob(2-5) st]) (auto simp: rid no_attrs_def)
qed


lemma log_info_same:
  "log_info le fw ts message sv = Inr sv' \<Longrightarrow> se_registry sv' = se_registry sv \<and> se_tracing sv' = se_tracing sv"
  by (auto simp: log_info_def bindE_Inr_iff split: if_splits)

lemma advise_log_same:
  "advise_log le fw ts latency rid attrs resp sv = (r, sv') \<Longrightarrow>
     se_registry sv' = se_registry sv \<and> se_tracing sv' = se_tracing sv"
  unfolding advise_log_def Let_def by (auto split: sum.splits if_splits dest!: log_info_same)

lemma advise_span_same:
  "advise_span te t latency attrs resp sv = (r, resp', sv') \<Longrightarrow>
     se_registry sv' = se_registry sv \<and> se_log_context sv' = se_log_context sv \<and> se_logging sv' = se_logging sv"
  unfolding advise_span_def by (auto split: option.splits prod.splits sum.splits)

lemma response_id_header [simp]:
  "response_status (map_option (add_out_header k v) resp) = response_status resp"
  "response_bytes (map_option (add_out_header k v) resp) = response_bytes resp"
  by (simp_all add: response_status_def response_bytes_def add_out_header_def split: option.split)

lemma response_tokens_id:
  "response_tokens attrs (map_option (add_out_header ''X-Request-ID'' v) resp) = response_tokens attrs resp"
  by (cases resp) (simp_all add: response_tokens_def add_out_header_def out_header_def al_set_lookup Let_def)

definition response_sample :: "observation \<Rightarrow> 'd \<Rightarrow> request_attrs \<Rightarrow> http_out option \<Rightarrow> 'd sample" where
  "response_sample ob latency attrs resp =
     \<lparr> sa_key = (ob_company ob, ob_endpoint ob), sa_latency = latency, sa_bytes_in = ob_bytes_in ob,
       sa_bytes_out = response_bytes resp, sa_tokens_in = ob_tokens_in ob,
       sa_tokens_out = response_tokens attrs resp, sa_stream_events = attr_count (at_stream_events attrs),
       sa_error = resolve_error_type [] (response_status resp) \<rparr>"

lemma post_handling_parts:
  assumes "post_handling te le db fw ts t latency req attrs resp sv = (r, resp', attrs', sv')"
    and "at_metrics attrs = Some ob" and "\<not> ob_completed ob"
  obtains ob' resp1 rs resp2 sv1 sv2 where
    "at_metrics attrs' = Some ob'" "ob_completed ob'" "attrs' = attrs\<lparr>at_metrics := Some ob'\<rparr>"
    "resp1 = (if attr_request_id fw req attrs \<noteq> []
       then map_option (add_out_header ''X-Request-ID'' (attr_request_id fw req attrs)) resp else resp)"
    "sv1 = sv\<lparr>se_registry := record_request db (response_sample ob latency attrs resp) (se_registry sv)\<rparr>"
    "advise_span te t latency attrs' resp1 sv1 = (rs, resp2, sv2)"
    "(\<exists>ex. rs = Inl ex \<and> r = Inl ex \<and> sv' = sv2 \<and> resp' = resp2) \<or>
     (rs = Inr () \<and> advise_log le fw ts latency (attr_request_id fw req attrs) attrs' resp2 sv2 = (r, sv') \<and> resp' = resp2)"
proof -
  define resp1 where "resp1 = (if attr_request_id fw req attrs \<noteq> []
     then map_option (add_out_header ''X-Request-ID'' (attr_request_id fw req attrs)) resp else resp)"
  have resp: "response_status resp1 = response_status resp" "response_bytes resp1 = response_bytes resp"
    "response_tokens attrs resp1 = response_tokens attrs resp"
    by (simp_all add: resp1_def response_tokens_id)
  define ob' where "ob' = ob\<lparr>ob_completed := True, ob_status := response_status resp,
     ob_tokens_out := response_tokens attrs resp, ob_stream_events := attr_count (at_stream_events attrs)\<rparr>"
  define sv1 where "sv1 = sv\<lparr>se_registry := record_request db (response_sample ob latency attrs resp) (se_registry sv)\<rparr>"
  have m: "advise_metrics db latency resp1 attrs sv = (attrs\<lparr>at_metrics := Some ob'\<rparr>, sv1)"
    using assms(2,3)
    by (simp add: advise_metrics_def complete_def resp ob'_def sv1_def response_sample_def Let_def)
  obtain rs resp2 sv2 where s: "advise_span te t latency (attrs\<lparr>at_metrics := Some ob'\<rparr>) resp1 sv1 = (rs, resp2, sv2)"
    by (cases "advise_span te t latency (attrs\<lparr>at_metrics := Some ob'\<rparr>) resp1 sv1")
  have run: "(case rs of Inl ex \<Rightarrow> (Inl ex, resp2, attrs\<lparr>at_metrics := Some ob'\<rparr>, sv2)
      | Inr _ \<Rightarrow> (let (r, sv) = advise_log le fw ts latency (attr_request_id fw req attrs)
            (attrs\<lparr>at_metrics := Some ob'\<rparr>) resp2 sv2 in (r, resp2, attrs\<lparr>at_metrics := Some ob'\<rparr>, sv))) =
      (r, resp', attrs', sv')"
    using assms(1) unfolding post_handling_def Let_def resp1_def [symmetric] m prod.case s by simp
  then have a: "attrs' = attrs\<lparr>at_metrics := Some ob'\<rparr>"
    by (auto split: sum.splits prod.splits simp: Let_def)
  show ?thesis
    using s run unfolding a [symmetric]
    by (intro that [OF _ _ a resp1_def sv1_def s [folded a]])
      (auto simp: a ob'_def Let_def split: sum.splits prod.splits)
qed


section \<open>Every filtered request is counted once\<close>

definition request_key :: "http_in \<Rightarrow> series_key" where
  "request_key req = (resolve_company req, resolve_endpoint req)"

lemma serve_filtered:
  assumes "fw_runs_filter fw" and "serve te le db fw ts t latency req hr sv = (r, resp, attrs, sv')"
  obtains req1 attrs1 sv1 where "do_filter te le fw t req sv = (req1, attrs1, sv1)"
    "post_handling te le db fw ts t latency req1 (apply_handler hr attrs1) (hr_response hr) sv1 = (r, resp, attrs, sv')"
  using assms by (cases "do_filter te le fw t req sv") (auto simp: serve_def Let_def)

lemma serve_registry:
  assumes "fw_runs_filter fw" and "serve te le db fw ts t latency req hr sv = (r, resp, attrs, sv')"
  obtains ob x where "se_registry sv' = record_request db x (se_registry sv)" "at_metrics attrs = Some ob" "ob_completed ob"
    "sa_key x = request_key req" "sa_latency x = latency" "sa_bytes_in x = hi_body_length req"
    "sa_bytes_out x = response_bytes (hr_response hr)" "sa_error x = resolve_error_type [] (response_status (hr_response hr))"
    "sa_tokens_in x = (if hi_header req ''X-Tokens-In'' \<noteq> [] then parse_unsigned (hi_header req ''X-Tokens-In'') else 0)"
proof -
  obtain req1 attrs1 sv1 where f: "do_filter te le fw t req sv = (req1, attrs1, sv1)"
    and p: "post_handling te le db fw ts t latency req1 (apply_handler hr attrs1) (hr_response hr) sv1 = (r, resp, attrs, sv')"
    using serve_filtered [OF assms] .
  from f obtain i ob tracing w where ob: "at_metrics attrs1 = Some ob" "\<not> ob_completed ob"
      "ob_company ob = resolve_company req" "ob_endpoint ob = resolve_endpoint req" "ob_bytes_in ob = hi_body_length req"
      "ob_tokens_in ob = (if hi_header req ''X-Tokens-In'' \<noteq> [] then parse_unsigned (hi_header req ''X-Tokens-In'') else 0)"
      "se_registry sv1 = se_registry sv"
    by (rule do_filter_parts)
  have "at_metrics (apply_handler hr attrs1) = Some ob"
    using ob(1) by (simp add: apply_handler_def)
  from p this ob(2) obtain ob' resp1 rs resp2 sv2 sv3 where
    q: "at_metrics attrs = Some ob'" "ob_completed ob'"
      "sv2 = sv1\<lparr>se_registry := record_request db (response_sample ob latency (apply_handler hr attrs1) (hr_response hr))
         (se_registry sv1)\<rparr>"
      "advise_span te t latency attrs resp1 sv2 = (rs, resp2, sv3)"
      "(\<exists>ex. rs = Inl ex \<and> r = Inl ex \<and> sv' = sv3 \<and> resp = resp2) \<or>
       (rs = Inr () \<and> advise_log le fw ts latency (attr_request_id fw req1 (apply_handler hr attrs1)) attrs resp2 sv3 = (r, sv')
          \<and> resp = resp2)"
    by (rule post_handling_parts)
  have "se_registry sv' = se_registry sv2"
    using q(5) advise_span_same [OF q(4)] advise_log_same by metis
  then show ?thesis
    using ob q(1-3)
    by (intro that [of "response_sample ob latency (apply_handler hr attrs1) (hr_response hr)"])
      (simp_all add: response_sample_def request_key_def)
qed

text \<open>A request the filter has seen is counted exactly once, whatever happens to the export of its span or to the
  log: with its company and path, its sizes and the status of its response. The observation is complete then, so
  its destruction adds nothing.\<close>

theorem request_recorded_once:
  assumes "fw_runs_filter fw" and "serve te le db fw ts t latency req hr sv = (r, resp, attrs, sv')"
  shows "\<exists>x ob. se_registry sv' = record_request db x (se_registry sv) \<and> sa_key x = request_key req \<and>
    sa_bytes_in x = hi_body_length req \<and> sa_bytes_out x = response_bytes (hr_response hr) \<and>
    sa_error x = resolve_error_type [] (response_status (hr_response hr)) \<and>
    at_metrics attrs = Some ob \<and> destroy_observation db l (ob, se_registry sv') = se_registry sv'"
proof -
  obtain x ob where "se_registry sv' = record_request db x (se_registry sv)" "at_metrics attrs = Some ob" "ob_completed ob"
    "sa_key x = request_key req" "sa_bytes_in x = hi_body_length req"
    "sa_bytes_out x = response_bytes (hr_response hr)" "sa_error x = resolve_error_type [] (response_status (hr_response hr))"
    using serve_registry [OF assms] by metis
  moreover from this have "destroy_observation db l (ob, se_registry sv') = se_registry sv'"
    by (simp add: destroy_observation_def)
  ultimately show ?thesis
    by blast
qed

text \<open>A request whose handler does not run the filter leaves no trace: neither the metrics nor the tracer change. No handler
  of the program names the filter among its constraints, so this is what a framework does that runs a registered
  filter only where it is named.\<close>

theorem unfiltered_request_unseen:
  assumes "\<not> fw_runs_filter fw" and "serve te le db fw ts t latency req hr sv = (r, resp, attrs, sv')"
  shows "se_registry sv' = se_registry sv \<and> se_tracing sv' = se_tracing sv"
proof -
  have "at_metrics (apply_handler hr no_attrs) = None" "at_span (apply_handler hr no_attrs) = None"
    by (simp_all add: apply_handler_def no_attrs_def)
  then obtain rid attrs1 resp1 where "advise_log le fw ts latency rid attrs1 resp1 sv = (r, sv')"
    using assms unfolding serve_def post_handling_def Let_def
    by (auto simp: advise_metrics_def advise_span_def split: prod.splits)
  from advise_log_same [OF this] show ?thesis .
qed

section \<open>Series\<close>

text \<open>The registry after a sequence of filtered requests.\<close>

fun serve_all ::
  "('d, 'w) trace_env \<Rightarrow> ('r, 'd) log_env \<Rightarrow> 'd double_ops \<Rightarrow> 'w framework \<Rightarrow>
   (string \<times> nat \<times> 'd \<times> http_in \<times> handler_result) list \<Rightarrow> ('r, 'd, 'w) server \<Rightarrow> ('r, 'd, 'w) server" where
  "serve_all te le db fw [] sv = sv"
| "serve_all te le db fw ((ts, t, latency, req, hr) # calls) sv =
     (let (r, resp, attrs, sv) = serve te le db fw ts t latency req hr sv in serve_all te le db fw calls sv)"

definition call_request :: "string \<times> nat \<times> 'd \<times> http_in \<times> handler_result \<Rightarrow> http_in" where
  "call_request c = fst (snd (snd (snd c)))"

lemma serve_keys:
  assumes "fw_runs_filter fw"
  shows "fst ` set (se_registry (serve_all te le db fw calls sv)) =
    request_key ` call_request ` set calls \<union> fst ` set (se_registry sv)"
proof (induction calls arbitrary: sv)
  case (Cons c calls)
  obtain ts t latency req hr where c: "c = (ts, t, latency, req, hr)" by (cases c)
  obtain r resp attrs sv1 where s: "serve te le db fw ts t latency req hr sv = (r, resp, attrs, sv1)"
    by (cases "serve te le db fw ts t latency req hr sv")
  obtain ob x where x: "se_registry sv1 = record_request db x (se_registry sv)" "sa_key x = request_key req"
    using serve_registry [OF assms s] .
  then have "fst ` set (se_registry sv1) = insert (request_key req) (fst ` set (se_registry sv))"
    by (simp add: record_request_def map_upsert_keys)
  then show ?case
    using Cons.IH [of sv1] s by (simp add: c call_request_def)
qed simp

text \<open>The clients choose the series: each path that was ever asked for, existing or not, has a series of its own, so
  that the registry grows by as many series as there are different paths.\<close>

theorem series_for_every_path:
  assumes "fw_runs_filter fw" and "se_registry sv = []" and "distinct (map (hi_path \<circ> call_request) calls)"
    and "\<forall>c \<in> set calls. hi_path (call_request c) \<noteq> []"
  shows "length calls \<le> length (se_registry (serve_all te le db fw calls sv))"
proof -
  have "inj_on (request_key \<circ> call_request) (set calls)"
    using assms(3,4) by (auto simp: distinct_map request_key_def resolve_endpoint_def inj_on_def)
  then have "card (request_key ` call_request ` set calls) = card (set calls)"
    by (metis card_image image_comp)
  also have "card (set calls) = length calls"
    using assms(3) by (intro distinct_card) (auto simp: distinct_map)
  finally show ?thesis
    using serve_keys [OF assms(1), of te le db calls sv] assms(2)
      card_length [of "map fst (se_registry (serve_all te le db fw calls sv))"] by simp
qed


section \<open>Token headers\<close>

lemma parse_unsigned_minus_one: "parse_unsigned ''-1'' = - 1"
proof -
  have "strto ''-1'' = Some (True, 1)"
    using strto_neg_show_nat [of 1] by (simp add: show_nat.simps digit_chars)
  then have "stoull ''-1'' = Inr (2 ^ 64 - 1)"
    by (simp add: stoull_def)
  then show ?thesis
    by (simp add: parse_unsigned_def)
qed

lemma tokens_in_same [simp]:
  "sm_tokens_in (count_error e sr) = sm_tokens_in sr" "sm_tokens_in (with_histogram db sr) = sm_tokens_in sr"
  by (simp_all add: count_error_def with_histogram_def)

lemma record_tokens_in:
  assumes "sorted_wrt (<) (map fst reg)"
  shows "sm_tokens_in (lookup_or (empty_series db) (record_request db x reg) (sa_key x)) =
    sm_tokens_in (lookup_or (empty_series db) reg (sa_key x)) + sa_tokens_in x"
  using lookup_upsert [OF assms, of "empty_series db" "sa_key x" "record_in_series db x"]
  by (simp add: record_request_def record_in_series_def Let_def)

text \<open>A client can turn the token counter of its series back: the header \<open>X-Tokens-In: -1\<close> is read as
  \<open>2 ^ 64 - 1\<close> tokens, and the sum wraps.\<close>

theorem negative_tokens_turn_counter_back:
  assumes "fw_runs_filter fw" and "sorted_wrt (<) (map fst (se_registry sv))"
    and "hi_header req ''X-Tokens-In'' = ''-1''"
    and "serve te le db fw ts t latency req hr sv = (r, resp, attrs, sv')"
  shows "sm_tokens_in (lookup_or (empty_series db) (se_registry sv') (request_key req)) =
    sm_tokens_in (lookup_or (empty_series db) (se_registry sv) (request_key req)) - 1"
proof -
  obtain ob x where "se_registry sv' = record_request db x (se_registry sv)" "sa_key x = request_key req"
    "sa_tokens_in x = (if hi_header req ''X-Tokens-In'' \<noteq> [] then parse_unsigned (hi_header req ''X-Tokens-In'') else 0)"
    using serve_registry [OF assms(1,4)] .
  then show ?thesis
    using record_tokens_in [OF assms(2), of db x] assms(3) by (simp add: parse_unsigned_minus_one)
qed

section \<open>How a request ends\<close>

lemma update_attribute_span:
  "tc_spans (update_span i f st) i = map_option f (tc_spans st i)"
  "tc_tracer (update_span i f st) = tc_tracer st" "tc_exports (update_span i f st) = tc_exports st"
  by (simp_all add: update_span_def)

lemma open_span_attribute:
  assumes "tc_spans st i = Some sp" "\<not> sp_ended sp"
  shows "\<exists>sp. tc_spans (update_span i (span_set_attribute k v) st) i = Some sp \<and> \<not> sp_ended sp"
  using assms by (simp add: update_attribute_span span_set_attribute_def)

lemma label_span_open:
  fixes st :: "('d, 'w) tracing"
  assumes "tc_spans st i = Some sp" and "\<not> sp_ended sp"
  shows "\<exists>sp. tc_spans (label_span i attrs latency bytes st) i = Some sp \<and> \<not> sp_ended sp"
    and "tc_tracer (label_span i attrs latency bytes st) = tc_tracer st"
proof -
  define keep where "keep u \<longleftrightarrow> (\<exists>sp. tc_spans u i = Some sp \<and> \<not> sp_ended sp) \<and> tc_tracer u = tc_tracer st"
    for u :: "('d, 'w) tracing"
  have step: "keep u \<Longrightarrow> keep (update_span i (span_set_attribute k v) u)" for k v u
    using open_span_attribute [of u i] by (auto simp: keep_def update_attribute_span)
  have "keep st"
    using assms by (simp add: keep_def)
  then have "keep (label_span i attrs latency bytes st)"
    unfolding label_span_def Let_def by (simp add: step)
  then show "\<exists>sp. tc_spans (label_span i attrs latency bytes st) i = Some sp \<and> \<not> sp_ended sp"
    "tc_tracer (label_span i attrs latency bytes st) = tc_tracer st"
    by (simp_all add: keep_def)
qed

lemma end_span_http_status:
  assumes "end_span te t i status message st = (Inr (), st')" and "tc_spans st i = Some sp" and "\<not> sp_ended sp"
  shows "\<exists>sp. ended_span st' i sp \<and> sp_http_status sp = status"
  using assms(1)
proof (cases rule: end_span_cases)
  case Nothing
  then show ?thesis using assms(2,3) by simp
next
  case (Silent sp sp')
  then show ?thesis by (simp add: ended_span_def) (simp add: span_end_def)
next
  case (Exported sp sp' body w)
  then show ?thesis by (simp add: ended_span_def) (simp add: span_end_def)
qed auto


lemma started_span_open:
  assumes "start_span te t name parent attrs kind st = (i, st')"
  shows "\<exists>sp. tc_spans st' i = Some sp \<and> \<not> sp_ended sp \<and> tc_tracer st' = tc_tracer st \<and> tc_exports st' = tc_exports st"
  using assms by (cases rule: start_span_parts) (simp_all add: new_span_def)

lemma log_info_ok:
  assumes "\<forall>kvs. is_ok (le_dump le kvs)"
  shows "is_ok (log_info le fw ts message sv)"
proof -
  have "is_ok (log_message le ts (se_log_context sv) (fw_format fw message) (se_logging sv))"
    using assms by (auto simp: log_message_def emit_log_payload_def is_ok_iff Let_def) (metis bindE.simps(2))
  then obtain lg where "log_message le ts (se_log_context sv) (fw_format fw message) (se_logging sv) = Inr lg"
    by (auto simp: is_ok_iff)
  then show ?thesis
    by (simp add: log_info_def)
qed

lemma advise_log_ok:
  assumes "\<forall>kvs. is_ok (le_dump le kvs)" and "advise_log le fw ts latency rid attrs resp sv = (r, sv')"
  shows "r = Inr () \<and> se_log_context sv' = empty_log_context le"
  using assms(2) unfolding advise_log_def Let_def
  by (auto split: sum.splits dest!: arg_cong [where f = is_ok] simp: log_info_ok [OF assms(1)])

text \<open>When the documents can be serialized, the request ends cleanly: the context of the log is
  empty again for the next request of the thread, the span has ended with the status of the response, and the
  response has the request id.\<close>

theorem request_ends_clean:
  assumes "fw_runs_filter fw" and "serve te le db fw ts t latency req hr sv = (r, resp, attrs, sv')"
    and "\<forall>doc. is_ok (te_dump te doc)" and "\<forall>kvs. is_ok (le_dump le kvs)"
    and "hr_response hr = Some out" and "hi_header req ''X-Request-ID'' = rid" and "rid \<noteq> []"
  shows "r = Inr () \<and> se_log_context sv' = empty_log_context le \<and>
    (\<exists>i sp. at_span attrs = Some i \<and> ended_span (se_tracing sv') i sp \<and> sp_http_status sp = int (ho_status out)) \<and>
    (\<exists>out'. resp = Some out' \<and> out_header ''X-Request-ID'' out' = rid)"
proof -
  obtain req1 attrs1 sv1 where f: "do_filter te le fw t req sv = (req1, attrs1, sv1)"
    and p: "post_handling te le db fw ts t latency req1 (apply_handler hr attrs1) (hr_response hr) sv1 = (r, resp, attrs, sv')"
    using serve_filtered [OF assms(1,2)] .
  from f obtain i ob tracing w where ob: "at_metrics attrs1 = Some ob" "\<not> ob_completed ob" "at_span attrs1 = Some i"
      "start_span te t (hi_method req @ '' '' @ hi_path req) (extract_traceparent (hi_header req ''traceparent''))
        (span_attributes req (resolve_company req)) ''SERVER'' ((se_tracing sv)\<lparr>tc_world := w\<rparr>) = (i, tracing)"
      "se_tracing sv1 = tracing" "at_request_id attrs1 = Some (if hi_header req ''X-Request-ID'' = []
        then fst (fw_random_string fw (tc_world (se_tracing sv))) else hi_header req ''X-Request-ID'')"
    by (rule do_filter_parts)
  have rid: "attr_request_id fw req1 (apply_handler hr attrs1) = rid"
    using ob(6) assms(6,7) by (simp add: attr_request_id_def apply_handler_def)
  have "at_metrics (apply_handler hr attrs1) = Some ob"
    using ob(1) by (simp add: apply_handler_def)
  from p this ob(2) obtain ob' resp1 rs resp2 sv2 sv3 where
    raw: "attrs = (apply_handler hr attrs1)\<lparr>at_metrics := Some ob'\<rparr>"
      "resp1 = (if attr_request_id fw req1 (apply_handler hr attrs1) \<noteq> [] then map_option
         (add_out_header ''X-Request-ID'' (attr_request_id fw req1 (apply_handler hr attrs1))) (hr_response hr) else hr_response hr)"
      "sv2 = sv1\<lparr>se_registry := record_request db (response_sample ob latency (apply_handler hr attrs1) (hr_response hr))
         (se_registry sv1)\<rparr>"
      "advise_span te t latency attrs resp1 sv2 = (rs, resp2, sv3)"
      "(\<exists>ex. rs = Inl ex \<and> r = Inl ex \<and> sv' = sv3 \<and> resp = resp2) \<or>
       (rs = Inr () \<and> advise_log le fw ts latency (attr_request_id fw req1 (apply_handler hr attrs1)) attrs resp2 sv3 = (r, sv')
          \<and> resp = resp2)"
    by (rule post_handling_parts)
  have q: "attrs = (apply_handler hr attrs1)\<lparr>at_metrics := Some ob'\<rparr>"
    "resp1 = Some (add_out_header ''X-Request-ID'' rid out)" "se_tracing sv2 = tracing"
    "advise_span te t latency attrs resp1 sv2 = (rs, resp2, sv3)"
    "(\<exists>ex. rs = Inl ex \<and> r = Inl ex \<and> sv' = sv3 \<and> resp = resp2) \<or>
     (rs = Inr () \<and> advise_log le fw ts latency rid attrs resp2 sv3 = (r, sv') \<and> resp = resp2)"
    using raw assms(5,7) ob(5) unfolding rid by simp_all
  have span: "at_span attrs = Some i"
    using ob(3) by (simp add: q(1) apply_handler_def)
  obtain sp where sp: "tc_spans tracing i = Some sp" "\<not> sp_ended sp"
    using started_span_open [OF ob(4)] by blast
  let ?message = "if ho_status out \<ge> 400 then ''http_error'' else []"
  define st1 where "st1 = label_span i attrs latency (ho_body_length out) tracing"
  obtain sp1 where c: "tc_spans st1 i = Some sp1" "\<not> sp_ended sp1"
    "close_span te t i attrs latency (ho_status out) (ho_body_length out) tracing =
       end_span te t i (int (ho_status out)) ?message st1"
    using label_span_open(1) [OF sp, of attrs latency "ho_body_length out"] by (auto simp: close_span_def st1_def)
  obtain e st2 where e: "end_span te t i (int (ho_status out)) ?message st1 = (e, st2)" by fastforce
  then have "e = Inr ()"
    using assms(3) by (cases rule: end_span_cases) (auto, metis is_ok.simps(1))
  then have rs: "rs = Inr ()" "se_tracing sv3 = st2"
      "resp2 = Some (add_out_header ''traceparent'' (build_traceparent (context_of st2 i)) (add_out_header ''X-Request-ID'' rid out))"
    using q(2,3,4) span c(3) e
    by (auto simp: advise_span_def response_status_def response_bytes_def add_out_header_def)
  then have l: "advise_log le fw ts latency rid attrs resp2 sv3 = (r, sv')" "resp = resp2"
    using q(5) by auto
  have "r = Inr () \<and> se_log_context sv' = empty_log_context le"
    using advise_log_ok [OF assms(4) l(1)] .
  moreover have "\<exists>sp. ended_span (se_tracing sv') i sp \<and> sp_http_status sp = int (ho_status out)"
    using end_span_http_status [OF e [unfolded \<open>e = Inr ()\<close>] c(1,2)] advise_log_same [OF l(1)] rs(2) by simp
  moreover have "out_header ''X-Request-ID'' (the resp) = rid"
    by (simp add: l(2) rs(3) out_header_def add_out_header_def al_set_lookup)
  ultimately show ?thesis
    using span l(2) rs(3) by auto
qed


text \<open>When the document of its span cannot be serialized, the advice ends with the exception: the log context of the
  thread still names this request, its company and its path.\<close>

theorem unserializable_request_keeps_context:
  assumes "fw_runs_filter fw" and "serve te le db fw ts t latency req hr sv = (r, resp, attrs, sv')"
    and "tr_enabled (tc_tracer (se_tracing sv))" and "\<forall>doc. \<not> is_ok (te_dump te doc)"
    and "hi_header req ''X-Request-ID'' = rid" and "rid \<noteq> []"
  shows "\<not> is_ok r \<and> lc_request_id (se_log_context sv') = rid \<and>
    lc_company (se_log_context sv') = resolve_company req \<and> lc_endpoint (se_log_context sv') = resolve_endpoint req"
proof -
  obtain req1 attrs1 sv1 where f: "do_filter te le fw t req sv = (req1, attrs1, sv1)"
    and p: "post_handling te le db fw ts t latency req1 (apply_handler hr attrs1) (hr_response hr) sv1 = (r, resp, attrs, sv')"
    using serve_filtered [OF assms(1,2)] .
  from f obtain i ob tracing w where ob: "at_metrics attrs1 = Some ob" "\<not> ob_completed ob" "at_span attrs1 = Some i"
      "start_span te t (hi_method req @ '' '' @ hi_path req) (extract_traceparent (hi_header req ''traceparent''))
        (span_attributes req (resolve_company req)) ''SERVER'' ((se_tracing sv)\<lparr>tc_world := w\<rparr>) = (i, tracing)"
      "se_tracing sv1 = tracing" "at_request_id attrs1 = Some (if hi_header req ''X-Request-ID'' = []
        then fst (fw_random_string fw (tc_world (se_tracing sv))) else hi_header req ''X-Request-ID'')"
      "se_log_context sv1 = set_log_context (log_context_of le (the (at_request_id attrs1)) (resolve_company req) (resolve_endpoint req))"
    by (rule do_filter_parts)
  have "at_metrics (apply_handler hr attrs1) = Some ob"
    using ob(1) by (simp add: apply_handler_def)
  from p this ob(2) obtain ob' resp1 rs resp2 sv2 sv3 where
    raw: "attrs = (apply_handler hr attrs1)\<lparr>at_metrics := Some ob'\<rparr>"
      "sv2 = sv1\<lparr>se_registry := record_request db (response_sample ob latency (apply_handler hr attrs1) (hr_response hr))
         (se_registry sv1)\<rparr>"
      "advise_span te t latency attrs resp1 sv2 = (rs, resp2, sv3)"
      "(\<exists>ex. rs = Inl ex \<and> r = Inl ex \<and> sv' = sv3 \<and> resp = resp2) \<or>
       (rs = Inr () \<and> advise_log le fw ts latency (attr_request_id fw req1 (apply_handler hr attrs1)) attrs resp2 sv3 = (r, sv')
          \<and> resp = resp2)"
    by (rule post_handling_parts)
  obtain sp where sp: "tc_spans tracing i = Some sp" "\<not> sp_ended sp" "tr_enabled (tc_tracer tracing)"
    using started_span_open [OF ob(4)] assms(3) by auto
  let ?st = "label_span i attrs latency (response_bytes resp1) tracing"
  have st: "\<exists>sp. tc_spans ?st i = Some sp \<and> \<not> sp_ended sp" "tc_tracer ?st = tc_tracer tracing"
    using label_span_open [OF sp(1,2), of attrs latency] by blast+
  obtain e st2 where e: "end_span te t i (int (response_status resp1))
      (if response_status resp1 \<ge> 400 then ''http_error'' else []) ?st = (e, st2)" by fastforce
  from e have "\<not> is_ok e"
  proof (cases rule: end_span_cases)
    case (Exported sp sp' body w)
    then show ?thesis
      using assms(4) by (metis is_ok.simps(2))
  qed (use st sp(3) in auto)
  then have "\<not> is_ok rs"
    using raw(1,2,3) ob(3,5) e
    by (auto simp: advise_span_def close_span_def apply_handler_def split: sum.splits)
  then have "\<not> is_ok r" "sv' = sv3"
    using raw(4) by auto
  moreover have "se_log_context sv3 = set_log_context (log_context_of le rid (resolve_company req) (resolve_endpoint req))"
    using advise_span_same [OF raw(3)] ob(6,7) raw(2) assms(5,6) by simp
  ultimately show ?thesis
    by (simp add: set_log_context_def log_context_of_def)
qed

section \<open>Sample requests\<close>

definition sample_in :: "string \<Rightarrow> http_in" where
  "sample_in path = \<lparr> hi_header = (\<lambda>h. if h = ''X-Company'' then ''acme inc'' else if h = ''X-Request-ID'' then ''r1''
       else if h = ''X-Tokens-In'' then ''-1'' else []),
     hi_param = (\<lambda>_. None), hi_path = path, hi_method = ''GET'', hi_body_length = 3, hi_peer_ip = [], hi_peer_port = 0 \<rparr>"

definition sample_out :: http_out where
  "sample_out = \<lparr> ho_status = 404, ho_headers = [], ho_body_length = 7 \<rparr>"

definition sample_result :: handler_result where
  "sample_result = \<lparr> hr_company = None, hr_endpoint = None, hr_tokens_out = None, hr_response = Some sample_out \<rparr>"

definition sample_framework :: "bool \<Rightarrow> nat framework" where
  "sample_framework runs = \<lparr> fw_throws = True, fw_runs_filter = runs, fw_random_string = (\<lambda>w. (''r'', w + 1)), fw_format = id \<rparr>"

definition sample_server :: "(string, nat, nat) server" where
  "sample_server = \<lparr> se_registry = [], se_tracing = tracing_new sample_tracer 0, se_logging = logging_new,
     se_log_context = empty_log_context sample_log_env \<rparr>"

abbreviation sample_serve ::
  "string res \<Rightarrow> bool \<Rightarrow> unit res \<times> http_out option \<times> request_attrs \<times> (string, nat, nat) server" where
  "sample_serve doc runs \<equiv> serve (sample_trace_env doc) sample_log_env sample_db (sample_framework runs) [] 0 5
     (sample_in ''/x'') sample_result sample_server"

lemma sample_fields [simp]:
  "hi_path (sample_in p) = p" "hi_header (sample_in p) ''X-Request-ID'' = ''r1''"
  "hi_header (sample_in p) ''X-Tokens-In'' = ''-1''" "hr_response sample_result = Some sample_out"
  "ho_status sample_out = 404" "se_registry sample_server = []" "tc_tracer (se_tracing sample_server) = sample_tracer"
  "tr_enabled sample_tracer" "te_dump (sample_trace_env doc) = (\<lambda>_. doc)" "is_ok (le_dump sample_log_env kvs)"
  "fw_runs_filter (sample_framework b) = b"
  by (simp_all add: sample_in_def sample_result_def sample_out_def sample_server_def tracing_new_def
      sample_trace_env_def sample_tracer_def sample_log_env_def sample_framework_def)

lemma sample_company: "resolve_company (sample_in path) = ''acme_inc''"
  by (simp add: resolve_company_def sample_in_def sanitize_label_def label_char_def isalnum_def isdigit_def isupper_def
      islower_def isspace_def tolower_def)

theorem request_recorded_once_witness:
  "\<exists>r resp attrs sv' x. sample_serve (Inr []) True = (r, resp, attrs, sv') \<and> se_registry sv' = record_request sample_db x [] \<and>
     sa_key x = (''acme_inc'', ''/x'') \<and> sa_error x = ''http_4xx''"
proof -
  obtain r resp attrs sv' where s: "sample_serve (Inr []) True = (r, resp, attrs, sv')"
    by (cases "sample_serve (Inr []) True")
  have "fw_runs_filter (sample_framework True)" by (simp add: sample_framework_def)
  from request_recorded_once [OF this s, of 0] show ?thesis
    using s by (auto simp: request_key_def sample_company resolve_endpoint_def response_status_def resolve_error_type_def)
qed

theorem unfiltered_request_unseen_witness:
  "\<exists>r resp attrs sv'. sample_serve (Inr []) False = (r, resp, attrs, sv') \<and> se_registry sv' = []"
proof -
  obtain r resp attrs sv' where s: "sample_serve (Inr []) False = (r, resp, attrs, sv')"
    by (cases "sample_serve (Inr []) False")
  have "\<not> fw_runs_filter (sample_framework False)" by (simp add: sample_framework_def)
  from unfiltered_request_unseen [OF this s] show ?thesis
    using s by simp
qed

theorem request_ends_clean_witness:
  "\<exists>resp attrs sv' out. sample_serve (Inr []) True = (Inr (), Some out, attrs, sv') \<and>
     out_header ''X-Request-ID'' out = ''r1'' \<and> se_log_context sv' = empty_log_context sample_log_env"
proof -
  obtain r resp attrs sv' where s: "sample_serve (Inr []) True = (r, resp, attrs, sv')"
    by (cases "sample_serve (Inr []) True")
  have "fw_runs_filter (sample_framework True)" by (simp add: sample_framework_def)
  from request_ends_clean [OF this s, of sample_out "''r1''"] show ?thesis
    using s by auto
qed

theorem unserializable_request_keeps_context_witness:
  "\<exists>r resp attrs sv'. sample_serve (Inl (RuntimeError ''utf8'')) True = (r, resp, attrs, sv') \<and> \<not> is_ok r \<and>
     lc_request_id (se_log_context sv') = ''r1''"
proof -
  obtain r resp attrs sv' where s: "sample_serve (Inl (RuntimeError ''utf8'')) True = (r, resp, attrs, sv')"
    by (cases "sample_serve (Inl (RuntimeError ''utf8'')) True")
  have "fw_runs_filter (sample_framework True)" by (simp add: sample_framework_def)
  from unserializable_request_keeps_context [OF this s, of "''r1''"] show ?thesis
    using s by auto
qed

theorem negative_tokens_turn_counter_back_witness:
  "\<exists>r resp attrs sv'. sample_serve (Inr []) True = (r, resp, attrs, sv') \<and>
     sm_tokens_in (lookup_or (empty_series sample_db) (se_registry sv') (''acme_inc'', ''/x'')) = - 1"
proof -
  obtain r resp attrs sv' where s: "sample_serve (Inr []) True = (r, resp, attrs, sv')"
    by (cases "sample_serve (Inr []) True")
  have "fw_runs_filter (sample_framework True)" by simp
  moreover have "sorted_wrt (<) (map fst (se_registry sample_server))" by simp
  moreover have "hi_header (sample_in ''/x'') ''X-Tokens-In'' = ''-1''" by simp
  ultimately have "sm_tokens_in (lookup_or (empty_series sample_db) (se_registry sv') (request_key (sample_in ''/x''))) = - 1"
    using negative_tokens_turn_counter_back [OF _ _ _ s]
    by (simp add: lookup_or_def empty_series_def)
  then show ?thesis
    using s by (simp add: request_key_def sample_company resolve_endpoint_def)
qed

theorem series_for_every_path_witness:
  "\<exists>calls. length calls = 2 \<and> length calls \<le> length (se_registry
     (serve_all (sample_trace_env (Inr [])) sample_log_env sample_db (sample_framework True) calls sample_server))"
proof -
  let ?calls = "[([] :: string, 0 :: nat, 1 :: nat, sample_in ''/a'', sample_result), ([], 0, 1, sample_in ''/b'', sample_result)]"
  have d: "distinct (map (hi_path \<circ> call_request) ?calls)" "\<forall>c \<in> set ?calls. hi_path (call_request c) \<noteq> []"
    by (simp_all add: call_request_def)
  have "length ?calls \<le> length (se_registry (serve_all (sample_trace_env (Inr [])) sample_log_env sample_db
      (sample_framework True) ?calls sample_server))"
    by (intro series_for_every_path d) simp_all
  then show ?thesis
    by (intro exI [of _ ?calls]) simp
qed

end
