(* ===== verification/Gateway_Request.thy ===== *)
theory Gateway_Request
  imports Provider_Registry Request_Lifecycle
begin

text \<open>
  A request for a provider from end to end: the filter of \<^verbatim>\<open>src/middleware/request_id.cpp\<close>, the handler of
  \<^verbatim>\<open>src/providers.cpp\<close> with the call of the provider, the response it makes (for a stream with the headers of
  \<open>SseStream::create\<close>) and the post-handling advice of \<^verbatim>\<open>src/main.cpp\<close>. Gateway, metrics and traces are in
  theories of their own; the lemmas here are about what passes from one to the others: the request id, the status,
  the tokens.
\<close>

section \<open>The response of a handler\<close>

definition sse_response_headers :: "http_in \<Rightarrow> headers" where
  "sse_response_headers req =
     [(''Content-Type'', ''text/event-stream; charset=utf-8''), (''Cache-Control'', ''no-cache''),
      (''Connection'', ''keep-alive''), (''X-Accel-Buffering'', ''no'')] @
     (if hi_header req ''X-Request-ID'' \<noteq> [] then [(''X-Request-ID'', hi_header req ''X-Request-ID'')] else [])"

text \<open>What the framework does with a response: the size of its body, and the response to an exception of a handler.\<close>

record 'j responder =
  rp_body_length :: "'j body \<Rightarrow> u64"
  rp_exception :: "exc \<Rightarrow> http_out option"

definition response_of :: "'j responder \<Rightarrow> http_in \<Rightarrow> 'j reply \<Rightarrow> http_out" where
  "response_of rp req r =
     \<lparr> ho_status = nat (re_status r),
       ho_headers = (case re_body r of JsonBody _ \<Rightarrow> re_headers r | StreamBody _ \<Rightarrow> sse_response_headers req @ re_headers r),
       ho_body_length = rp_body_length rp (re_body r) \<rparr>"

definition handler_result_of :: "'j responder \<Rightarrow> http_in \<Rightarrow> 'j handled \<Rightarrow> handler_result" where
  "handler_result_of rp req h =
     \<lparr> hr_company = ha_company h, hr_endpoint = ha_endpoint h, hr_tokens_out = ha_tokens_out h,
       hr_response = (case ha_reply h of Inl ex \<Rightarrow> rp_exception rp ex | Inr r \<Rightarrow> Some (response_of rp req r)) \<rparr>"

text \<open>The request as the handlers read it; the body is \<open>json\<close>, if it can be parsed.\<close>

definition to_gateway_request :: "'w framework \<Rightarrow> http_in \<Rightarrow> request_attrs \<Rightarrow> 'j option \<Rightarrow> 'j gateway_request" where
  "to_gateway_request fw req attrs json =
     \<lparr> gr_request_id = (case at_request_id attrs of Some i \<Rightarrow> Some i | None \<Rightarrow> if fw_throws fw then None else Some []),
       gr_param = (\<lambda>k. case hi_param req k of Some v \<Rightarrow> v | None \<Rightarrow> []),
       gr_header = hi_header req, gr_json = json \<rparr>"

definition serve_provider ::
  "('d, 'w) trace_env \<Rightarrow> ('r, 'd) log_env \<Rightarrow> 'd double_ops \<Rightarrow> 'w framework \<Rightarrow> ('j, 'd, 'v) platform \<Rightarrow> 'j responder \<Rightarrow>
   environ \<Rightarrow> route_target \<Rightarrow> string \<Rightarrow> nat \<Rightarrow> 'd \<Rightarrow> http_in \<Rightarrow> 'j option \<Rightarrow> ('r, 'd, 'w) server \<Rightarrow> 'v gateway \<Rightarrow>
   unit res \<times> http_out option \<times> 'j handled \<times> ('r, 'd, 'w) server \<times> 'v gateway" where
  "serve_provider te le db fw pl rp env target ts t latency req json sv gw =
     (let (req, attrs, sv) = (if fw_runs_filter fw then do_filter te le fw t req sv else (req, no_attrs, sv));
          (handled, gw) = handle_route pl env target (to_gateway_request fw req attrs json) gw;
          hr = handler_result_of rp req handled;
          (r, resp, attrs, sv) = post_handling te le db fw ts t latency req (apply_handler hr attrs) (hr_response hr) sv
      in (r, resp, handled, sv, gw))"

section \<open>The parts of a request\<close>

lemma serve_provider_parts:
  assumes "serve_provider te le db fw pl rp env target ts t latency req json sv gw = (r, resp, h, sv', gw')"
  obtains req1 attrs1 sv1 attrs where
    "(if fw_runs_filter fw then do_filter te le fw t req sv else (req, no_attrs, sv)) = (req1, attrs1, sv1)"
    "handle_route pl env target (to_gateway_request fw req1 attrs1 json) gw = (h, gw')"
    "serve te le db fw ts t latency req (handler_result_of rp req1 h) sv = (r, resp, attrs, sv')"
proof -
  obtain req1 attrs1 sv1 where f: "(if fw_runs_filter fw then do_filter te le fw t req sv else (req, no_attrs, sv)) = (req1, attrs1, sv1)"
    by (metis prod_cases3)
  obtain h1 gw1 where h: "handle_route pl env target (to_gateway_request fw req1 attrs1 json) gw = (h1, gw1)"
    by fastforce
  obtain r1 resp1 attrs sv2 where p: "post_handling te le db fw ts t latency req1 (apply_handler (handler_result_of rp req1 h1) attrs1)
      (hr_response (handler_result_of rp req1 h1)) sv1 = (r1, resp1, attrs, sv2)" by (metis prod_cases4)
  have "r1 = r" "resp1 = resp" "h1 = h" "sv2 = sv'" "gw1 = gw'"
    using assms f h p by (simp_all add: serve_provider_def)
  then show ?thesis
    using f h p by (intro that [of req1 attrs1 sv1 attrs]) (simp_all add: serve_def)
qed

lemma do_filter_attrs:
  assumes "do_filter te le fw t req sv = (req', attrs, sv')"
  shows "at_tokens_out attrs = None" "at_stream_events attrs = None"
    "\<exists>rid. at_request_id attrs = Some rid \<and> hi_header req' ''X-Request-ID'' = rid \<and>
       (hi_header req ''X-Request-ID'' \<noteq> [] \<longrightarrow> rid = hi_header req ''X-Request-ID'')"
    "hi_param req' = hi_param req" "k \<notin> {''X-Request-ID'', ''traceparent''} \<Longrightarrow> hi_header req' k = hi_header req k"
  using assms by (auto simp: do_filter_def Let_def no_attrs_def split: prod.splits if_splits)

text \<open>What a served request adds to the metrics, tokens and events included.\<close>

lemma serve_sample:
  assumes "fw_runs_filter fw" and "serve te le db fw ts t latency req hr sv = (r, resp, attrs, sv')"
  obtains x where "se_registry sv' = record_request db x (se_registry sv)" "sa_key x = request_key req"
    "sa_stream_events x = 0" "sa_error x = resolve_error_type [] (response_status (hr_response hr))"
    "sa_tokens_out x = (let n = attr_count (hr_tokens_out hr) in
       case hr_response hr of Some out \<Rightarrow> if n = 0 then parse_unsigned (out_header ''X-Tokens-Out'' out) else n | None \<Rightarrow> n)"
proof -
  obtain req1 attrs1 sv1 where f: "do_filter te le fw t req sv = (req1, attrs1, sv1)"
    and p: "post_handling te le db fw ts t latency req1 (apply_handler hr attrs1) (hr_response hr) sv1 = (r, resp, attrs, sv')"
    using serve_filtered [OF assms] .
  from f obtain i ob tracing w where ob: "at_metrics attrs1 = Some ob" "\<not> ob_completed ob"
      "ob_company ob = resolve_company req" "ob_endpoint ob = resolve_endpoint req" "se_registry sv1 = se_registry sv"
    by (rule do_filter_parts)
  have "at_metrics (apply_handler hr attrs1) = Some ob"
    using ob(1) by (simp add: apply_handler_def)
  from p this ob(2) obtain ob' resp1 rs resp2 sv2 sv3 where
    q: "sv2 = sv1\<lparr>se_registry := record_request db (response_sample ob latency (apply_handler hr attrs1) (hr_response hr))
         (se_registry sv1)\<rparr>"
      "advise_span te t latency attrs resp1 sv2 = (rs, resp2, sv3)"
      "(\<exists>ex. rs = Inl ex \<and> r = Inl ex \<and> sv' = sv3 \<and> resp = resp2) \<or>
       (rs = Inr () \<and> advise_log le fw ts latency (attr_request_id fw req1 (apply_handler hr attrs1)) attrs resp2 sv3 = (r, sv')
          \<and> resp = resp2)"
    by (rule post_handling_parts)
  have "se_registry sv' = se_registry sv2"
    using q(3) advise_span_same [OF q(2)] advise_log_same by metis
  then show ?thesis
    using ob q(1) do_filter_attrs(1,2) [OF f]
    by (intro that [of "response_sample ob latency (apply_handler hr attrs1) (hr_response hr)"])
      (simp_all add: response_sample_def request_key_def response_tokens_def apply_handler_def first_some_def attr_count_def
        Let_def split: option.split)
qed

text \<open>The advice adds headers to the response and nothing else.\<close>

lemma post_handling_response:
  assumes "post_handling te le db fw ts t latency req attrs resp0 sv = (r, resp, attrs', sv')"
  shows "response_status resp = response_status resp0" "response_bytes resp = response_bytes resp0"
proof -
  have "response_status resp = response_status resp0 \<and> response_bytes resp = response_bytes resp0"
    using assms by (auto simp: post_handling_def advise_span_def Let_def split: prod.splits sum.splits option.splits if_splits)
  then show "response_status resp = response_status resp0" "response_bytes resp = response_bytes resp0"
    by simp_all
qed

lemma serve_response:
  assumes "serve te le db fw ts t latency req hr sv = (r, resp, attrs, sv')"
  shows "response_status resp = response_status (hr_response hr)" "response_bytes resp = response_bytes (hr_response hr)"
  using assms post_handling_response by (auto simp: serve_def Let_def split: prod.splits if_splits)

text \<open>No reply of a handler has a header that the advice would read tokens from.\<close>

lemma reply_headers:
  assumes "handle_route pl env target g gw = (h, gw')" and "ha_reply h = Inr rep"
  shows "map_of (re_headers rep) ''X-Tokens-Out'' = None"
proof -
  have err: "map_of (re_headers (respond_with_error pl s err)) ''X-Tokens-Out'' = None" for s err
    by (simp add: respond_with_error_def json_reply_def retry_header_def Let_def)
  have ok: "map_of (re_headers (respond_with_payload pl s p u i)) ''X-Tokens-Out'' = None" for s p u i
    by (simp add: respond_with_payload_def json_reply_def id_header_def Let_def)
  have run: "map_of (re_headers rep) ''X-Tokens-Out'' = None"
    if "run_provider pl env key route entry operation payload job ctx streaming gw = (h, gw')" for key route entry operation payload job ctx streaming
    using that assms(2) err ok by (auto simp: run_provider_def Let_def split: prod.splits sum.splits)
  have plain: "map_of (re_headers rep) ''X-Tokens-Out'' = None" if "refuse c route rep' gw = (h, gw')" "re_headers rep' = []" for c route rep'
    using that assms(2) by (auto simp: refuse_def)
  show ?thesis
    using assms(1) assms(2)
    by (auto simp: handle_route_def company_endpoint_def xai_endpoint_def Let_def refuse_def not_configured_def json_reply_def err
        split: route_target.splits option.splits if_splits sum.splits prod.splits dest!: run)
qed

lemma response_tokens_header:
  assumes "map_of (re_headers rep) ''X-Tokens-Out'' = None"
  shows "parse_unsigned (out_header ''X-Tokens-Out'' (response_of rp req rep)) = 0"
  using assms by (simp add: response_of_def out_header_def sse_response_headers_def parse_unsigned_def map_add_def split: body.split)

section \<open>What the handler reads of the request\<close>

lemma transport_same:
  assumes "gr_param g = gr_param g'" and "gr_header g ''Accept'' = gr_header g' ''Accept''"
  shows "resolve_transport js g p = resolve_transport js g' p"
proof -
  have t: "transport_of g = transport_of g'"
    using assms by (simp add: transport_of_def)
  show ?thesis
    unfolding resolve_transport_def assms(1) t by (rule refl)
qed

lemma handler_transport:
  assumes "(if fw_runs_filter fw then do_filter te le fw t req sv else (req, no_attrs, sv)) = (req1, attrs1, sv1)"
  shows "resolve_transport js (to_gateway_request fw req1 attrs1 json) p = resolve_transport js (to_gateway_request fw req no_attrs json) p"
proof (cases "fw_runs_filter fw")
  case True
  then have f: "do_filter te le fw t req sv = (req1, attrs1, sv1)"
    using assms by simp
  show ?thesis
    using do_filter_attrs(4,5) [OF f] by (intro transport_same) (simp_all add: to_gateway_request_def)
next
  case False
  then show ?thesis using assms by auto
qed

text \<open>Without the filter the request has no attribute for its id: whether the header is read then depends on whether
  the framework throws for a missing attribute.\<close>

definition handler_request_id :: "'w framework \<Rightarrow> http_in \<Rightarrow> string" where
  "handler_request_id fw req = (if fw_runs_filter fw \<or> fw_throws fw then hi_header req ''X-Request-ID'' else [])"

lemma handler_request_id:
  assumes "(if fw_runs_filter fw then do_filter te le fw t req sv else (req, no_attrs, sv)) = (req1, attrs1, sv1)"
    and "hi_header req ''X-Request-ID'' \<noteq> []"
  shows "resolve_request_id (to_gateway_request fw req1 attrs1 json) = handler_request_id fw req"
proof (cases "fw_runs_filter fw")
  case True
  then have f: "do_filter te le fw t req sv = (req1, attrs1, sv1)"
    using assms(1) by simp
  then show ?thesis
    using do_filter_attrs(3) [OF f] assms(2) True
    by (auto simp: resolve_request_id_def to_gateway_request_def handler_request_id_def)
next
  case False
  then show ?thesis
    using assms(1) by (auto simp: resolve_request_id_def to_gateway_request_def handler_request_id_def no_attrs_def)
qed

lemma get_provider_set: "get_provider (gw\<lparr>gw_providers := al_set key e ps, gw_world := w, gw_log := l\<rparr>) = (map_of ps)(key \<mapsto> e)"
  by (simp add: fun_eq_iff get_provider_def al_set_lookup)

section \<open>What no request changes\<close>

text \<open>The providers with their configurations; only their breakers change.\<close>

definition configured :: "'v gateway \<Rightarrow> (string \<times> provider) list" where
  "configured gw = map (\<lambda>(key, pv, b). (key, pv)) (gw_providers gw)"

lemma al_set_configured:
  "map_of ps key = Some (pv, b) \<Longrightarrow> map (\<lambda>(key, pv, b). (key, pv)) (al_set key (pv, b') ps) = map (\<lambda>(key, pv, b). (key, pv)) ps"
  by (induction key "(pv, b')" ps rule: al_set.induct) (auto split: if_splits)

lemma handle_route_configured:
  assumes "handle_route pl env target g gw = (h, gw')"
  shows "configured gw' = configured gw"
proof -
  have run: "configured gw' = configured gw"
    if "run_provider pl env key route entry operation payload job ctx streaming gw = (h, gw')" "get_provider gw key = Some entry"
    for key route entry operation payload job ctx streaming
    using that al_set_configured [of "gw_providers gw" key "fst entry" "snd entry"]
    by (cases entry) (auto simp: run_provider_def get_provider_def configured_def Let_def split: prod.splits sum.splits)
  show ?thesis
    using assms
    by (auto simp: handle_route_def company_endpoint_def xai_endpoint_def Let_def refuse_def
        split: route_target.splits option.splits if_splits sum.splits prod.splits dest!: run)
qed

text \<open>The number of events of a series stays zero.\<close>

definition no_events :: "'d registry \<Rightarrow> bool" where
  "no_events reg \<longleftrightarrow> (\<forall>(k, sr) \<in> set reg. sm_stream_events sr = 0)"

lemma map_upsert_set:
  "(k, v) \<in> set (map_upsert key d f m) \<Longrightarrow> (k, v) \<in> set m \<or> v = f d \<or> (\<exists>k' u. (k', u) \<in> set m \<and> v = f u)"
  by (induction key d f m rule: map_upsert.induct) (auto split: if_splits)

lemma events_recorded: "sm_stream_events (record_in_series db x sr) = sm_stream_events sr + sa_stream_events x"
  by (simp add: record_in_series_def with_histogram_def count_error_def Let_def)

lemma no_events_record: "no_events reg \<Longrightarrow> sa_stream_events x = 0 \<Longrightarrow> no_events (record_request db x reg)"
  unfolding no_events_def record_request_def
  by (auto dest!: map_upsert_set simp: events_recorded empty_series_def)

lemma serve_events:
  assumes "serve te le db fw ts t latency req hr sv = (r, resp, attrs, sv')" and "no_events (se_registry sv)"
  shows "no_events (se_registry sv')"
proof (cases "fw_runs_filter fw")
  case True
  obtain x where "se_registry sv' = record_request db x (se_registry sv)" "sa_stream_events x = 0"
    using serve_sample [OF True assms(1)] .
  then show ?thesis using no_events_record assms(2) by simp
next
  case False
  then show ?thesis using unfiltered_request_unseen [OF False assms(1)] assms(2) by simp
qed

text \<open>What a company route with a body leaves, and how the metrics see its reply.\<close>

lemma company_reply:
  assumes "handle_route pl env (CompanyRoute p key s op) g gw = (h, gw')" and "gr_json g = Some body" and "resolve_request_id g = rid"
    and "get_provider gw key = Some (pv, b)" and "op \<noteq> JobStatus" and "op \<noteq> ListModels"
    and "resolve_transport (pl_json pl) g body = Inr (transport, requested, payload)" and "\<not> (requested \<and> transport = WebSocketTransport)"
    and "invoke pl env pv op payload [] \<lparr>rc_request_id = rid, rc_vendor = []\<rparr>
      \<lparr>ps_breaker = b, ps_world = gw_world gw, ps_log = gw_log gw\<rparr> = (Inr out, st)"
  shows "ha_reply h = Inr (case out of Inl err \<Rightarrow> respond_with_error pl (requested \<and> transport = SseTransport) err
       | Inr (p, u, i) \<Rightarrow> respond_with_payload pl (requested \<and> transport = SseTransport) p u i)"
    and "ha_tokens_out h = (case out of Inl _ \<Rightarrow> None | Inr (p, u, i) \<Rightarrow> Some (us_completion u))"
    and "get_provider gw' = (get_provider gw)(key \<mapsto> (pv, ps_breaker st))"
proof -
  have run: "run_provider pl env key (''/'' @ p @ ''/'' @ s) (pv, b) op payload [] \<lparr>rc_request_id = rid, rc_vendor = []\<rparr>
      (requested \<and> transport = SseTransport) gw = (h, gw')"
    using assms(1-8) by (simp add: handle_route_def company_endpoint_def Let_def)
  then show "ha_reply h = Inr (case out of Inl err \<Rightarrow> respond_with_error pl (requested \<and> transport = SseTransport) err
       | Inr (p, u, i) \<Rightarrow> respond_with_payload pl (requested \<and> transport = SseTransport) p u i)"
    and "ha_tokens_out h = (case out of Inl _ \<Rightarrow> None | Inr (p, u, i) \<Rightarrow> Some (us_completion u))"
    using assms(9) by (auto simp: run_provider_def Let_def split: sum.splits prod.splits)
  have gw': "gw' = gw\<lparr>gw_providers := al_set key (pv, ps_breaker st) (gw_providers gw), gw_world := ps_world st, gw_log := ps_log st\<rparr>"
    using run assms(9) by (auto simp: run_provider_def Let_def split: sum.splits prod.splits)
  show "get_provider gw' = (get_provider gw)(key \<mapsto> (pv, ps_breaker st))"
    unfolding gw' get_provider_set by (simp add: get_provider_def fun_eq_iff)
qed

lemma status_range: "status_from_error_type err \<in> {400, 401, 502, 503}"
  by (simp add: status_from_error_type_def Let_def)

lemma reply_error:
  assumes "rep = (case out of Inl err \<Rightarrow> respond_with_error pl streaming err | Inr (p, u, i) \<Rightarrow> respond_with_payload pl streaming p u i)"
  shows "resolve_error_type [] (ho_status (response_of rp req rep)) = [] \<longleftrightarrow> (\<exists>y. out = Inr y)"
proof (cases out)
  case (Inl err)
  then show ?thesis
    using status_range [of err] assms by (auto simp: response_of_def resolve_error_type_def respond_with_error_status)
next
  case (Inr y)
  then show ?thesis
    using assms by (cases y) (simp add: response_of_def resolve_error_type_def respond_with_payload_def json_reply_def Let_def)
qed

text \<open>What the metrics record of a reply.\<close>

lemma reply_sample:
  assumes "fw_runs_filter fw" and sv: "serve te le db fw ts t latency req hr sv = (r, resp, attrs, sv')"
    and h: "handle_route pl env target g gw = (h, gw')" and rep: "ha_reply h = Inr rep"
    and resp: "hr_response hr = Some (response_of rp req1 rep)" "hr_tokens_out hr = ha_tokens_out h"
    and tokens: "ha_tokens_out h = (case out of Inl _ \<Rightarrow> None | Inr (p, u, i) \<Rightarrow> Some (us_completion u))"
    and out: "rep = (case out of Inl err \<Rightarrow> respond_with_error pl streaming err | Inr (p, u, i) \<Rightarrow> respond_with_payload pl streaming p u i)"
  shows "\<exists>x. se_registry sv' = record_request db x (se_registry sv) \<and> sa_key x = request_key req \<and>
    sa_tokens_out x = (case out of Inl _ \<Rightarrow> 0 | Inr (p, u, i) \<Rightarrow> us_completion u) \<and>
    (sa_error x = [] \<longleftrightarrow> (\<exists>y. out = Inr y)) \<and> sa_stream_events x = 0"
proof -
  obtain x where x: "se_registry sv' = record_request db x (se_registry sv)" "sa_key x = request_key req"
    "sa_stream_events x = 0" "sa_error x = resolve_error_type [] (response_status (hr_response hr))"
    "sa_tokens_out x = (let n = attr_count (hr_tokens_out hr) in
       case hr_response hr of Some out \<Rightarrow> if n = 0 then parse_unsigned (out_header ''X-Tokens-Out'' out) else n | None \<Rightarrow> n)"
    by (rule serve_sample [OF assms(1) sv])
  have "sa_tokens_out x = attr_count (ha_tokens_out h)"
    using x(5) response_tokens_header [OF reply_headers [OF h rep]] by (simp add: resp Let_def)
  then have "sa_tokens_out x = (case out of Inl _ \<Rightarrow> 0 | Inr (p, u, i) \<Rightarrow> us_completion u)"
    by (simp add: tokens attr_count_def split: sum.split prod.split)
  moreover have "sa_error x = [] \<longleftrightarrow> (\<exists>y. out = Inr y)"
    using x(4) reply_error [OF out, of rp req1] by (simp add: resp response_status_def)
  ultimately show ?thesis
    using x(1-3) by blast
qed

section \<open>Properties\<close>

text \<open>C11. What a provider answers becomes the reply of the handler, and where the filter runs, the metrics say the same. A
  request for an operation with a body calls the provider once; its result is the reply, as JSON or as a stream
  (what a client gets of a stream is in \<open>Event_Stream\<close>), and the response is sent with the status and
  the size of this reply. If the framework runs the registered filter for the route, the request is counted once, for
  the company and the path of the request, with the completion tokens the provider reported; an error is counted as
  such and without tokens; the events of a stream are not counted, because no part of the program sets their number. If it does
  not run it (no route of the program names the filter), the metrics do not change. The breaker of this
  provider is the one the call leaves, the other providers are untouched. Supposed that the client sends a request id.\<close>

theorem provider_result_is_reply:
  fixes pl :: "('j, 'd, 'v) platform"
  assumes "serve_provider te le db fw pl rp env (CompanyRoute p key s op) ts t latency req (Some body) sv gw = (r, resp, h, sv', gw')"
    and "get_provider gw key = Some (pv, b)" and "op \<noteq> JobStatus" and "op \<noteq> ListModels"
    and "resolve_transport (pl_json pl) (to_gateway_request fw req no_attrs (Some body)) body = Inr (transport, requested, payload)"
    and "\<not> (requested \<and> transport = WebSocketTransport)"
    and "hi_header req ''X-Request-ID'' \<noteq> []"
    and "invoke pl env pv op payload [] \<lparr>rc_request_id = handler_request_id fw req, rc_vendor = []\<rparr>
      \<lparr>ps_breaker = b, ps_world = gw_world gw, ps_log = gw_log gw\<rparr> = (Inr out, st)"
    and "rep = (case out of Inl err \<Rightarrow> respond_with_error pl (requested \<and> transport = SseTransport) err
       | Inr (p, u, i) \<Rightarrow> respond_with_payload pl (requested \<and> transport = SseTransport) p u i)"
  shows "ha_reply h = Inr rep \<and> response_status resp = nat (re_status rep) \<and> response_bytes resp = rp_body_length rp (re_body rep) \<and>
    (if fw_runs_filter fw then
      (\<exists>x. se_registry sv' = record_request db x (se_registry sv) \<and> sa_key x = request_key req \<and>
        sa_tokens_out x = (case out of Inl _ \<Rightarrow> 0 | Inr (p, u, i) \<Rightarrow> us_completion u) \<and>
        (sa_error x = [] \<longleftrightarrow> (\<exists>y. out = Inr y)) \<and> sa_stream_events x = 0)
     else se_registry sv' = se_registry sv) \<and>
    get_provider gw' = (get_provider gw)(key \<mapsto> (pv, ps_breaker st))"
proof -
  obtain req1 attrs1 sv1 attrs where f: "(if fw_runs_filter fw then do_filter te le fw t req sv else (req, no_attrs, sv)) = (req1, attrs1, sv1)"
    and h: "handle_route pl env (CompanyRoute p key s op) (to_gateway_request fw req1 attrs1 (Some body)) gw = (h, gw')"
    and sv: "serve te le db fw ts t latency req (handler_result_of rp req1 h) sv = (r, resp, attrs, sv')"
    by (rule serve_provider_parts [OF assms(1)])
  have tr: "resolve_transport (pl_json pl) (to_gateway_request fw req1 attrs1 (Some body)) body = Inr (transport, requested, payload)"
    by (rule trans [OF handler_transport [OF f] assms(5)])
  have "gr_json (to_gateway_request fw req1 attrs1 (Some body)) = Some body"
    by (simp add: to_gateway_request_def)
  note reply = company_reply [OF h this handler_request_id [OF f assms(7)] assms(2-4) tr assms(6,8)]
  have rep: "ha_reply h = Inr rep"
    using reply(1) by (simp add: assms(9))
  have resp: "hr_response (handler_result_of rp req1 h) = Some (response_of rp req1 rep)" "hr_tokens_out (handler_result_of rp req1 h) = ha_tokens_out h"
    using rep by (simp_all add: handler_result_of_def)
  have sent: "response_status resp = nat (re_status rep)" "response_bytes resp = rp_body_length rp (re_body rep)"
    using serve_response [OF sv] by (simp_all add: resp response_status_def response_bytes_def response_of_def)
  have counted: "\<exists>x. se_registry sv' = record_request db x (se_registry sv) \<and> sa_key x = request_key req \<and>
        sa_tokens_out x = (case out of Inl _ \<Rightarrow> 0 | Inr (p, u, i) \<Rightarrow> us_completion u) \<and>
        (sa_error x = [] \<longleftrightarrow> (\<exists>y. out = Inr y)) \<and> sa_stream_events x = 0" if "fw_runs_filter fw"
    using reply_sample [OF that sv h rep resp reply(2) assms(9)] .
  show ?thesis
    using rep sent counted unfiltered_request_unseen [OF _ sv] reply(3) by simp
qed

text \<open>One provider, whose upstream has a reply without usage.\<close>

definition sample_openai :: "sample_world gateway" where
  "sample_openai = \<lparr> gw_providers = [(''openai'', sample_provider 0, breaker_closed)], gw_world = ([sample_reply 200 ''{}''], 5), gw_log = [] \<rparr>"

definition sample_responder :: "sample_json responder" where
  "sample_responder = \<lparr> rp_body_length = (\<lambda>_. 2), rp_exception = (\<lambda>_. None) \<rparr>"

abbreviation sample_gateway_request ::
  "unit res \<times> http_out option \<times> sample_json handled \<times> (string, nat, nat) server \<times> sample_world gateway" where
  "sample_gateway_request \<equiv> serve_provider (sample_trace_env (Inr [])) sample_log_env sample_db (sample_framework True) sample_platform
     sample_responder sample_environ (CompanyRoute ''openai'' ''openai'' ''chat/completions'' Chat) [] 0 5 (sample_in ''/openai/chat/completions'')
     (Some (JObj [])) sample_server sample_openai"

theorem provider_result_is_reply_witness:
  "\<exists>r resp h sv' gw' x p. sample_gateway_request = (r, resp, h, sv', gw') \<and>
     ha_reply h = Inr (respond_with_payload sample_platform False p missing_usage []) \<and> response_status resp = 200 \<and>
     se_registry sv' = record_request sample_db x [] \<and> sa_key x = request_key (sample_in ''/openai/chat/completions'') \<and> sa_error x = []"
proof -
  obtain r resp h sv' gw' where run: "sample_gateway_request = (r, resp, h, sv', gw')"
    by (cases sample_gateway_request)
  obtain p st' where up: "perform_json_operation sample_platform sample_environ (sample_provider 0) Chat (JObj [])
      sample_context [] (sample_pstate [sample_reply 200 ''{}''] breaker_closed) =
      (Inr (Inr \<lparr> jr_payload = p, jr_usage = missing_usage, jr_request_id = [] \<rparr>), st')"
    by (rule sample_json_success)
  have st: "sample_pstate [sample_reply 200 ''{}''] breaker_closed =
      \<lparr>ps_breaker = breaker_closed, ps_world = gw_world sample_openai, ps_log = gw_log sample_openai\<rparr>"
    by (simp add: sample_openai_def sample_pstate_def)
  have id: "handler_request_id (sample_framework True) (sample_in ''/openai/chat/completions'') = ''r1''"
    by (simp add: handler_request_id_def)
  have inv: "invoke sample_platform sample_environ (sample_provider 0) Chat (JObj []) []
      \<lparr>rc_request_id = handler_request_id (sample_framework True) (sample_in ''/openai/chat/completions''), rc_vendor = []\<rparr>
      \<lparr>ps_breaker = breaker_closed, ps_world = gw_world sample_openai, ps_log = gw_log sample_openai\<rparr> =
      (Inr (Inr (p, missing_usage, [])), st')"
    using up by (simp add: id st invoke_json sample_context_def reported_def)
  have tr: "resolve_transport (pl_json sample_platform)
      (to_gateway_request (sample_framework True) (sample_in ''/openai/chat/completions'') no_attrs (Some (JObj []))) (JObj []) =
      Inr (NoStream, False, JObj [])"
    by (simp add: sample_pl_json resolve_transport_def sample_js_def to_gateway_request_def sample_in_def parse_bool_string_def)
  have prov: "get_provider sample_openai ''openai'' = Some (sample_provider 0, breaker_closed)"
    by (simp add: get_provider_def sample_openai_def)
  have d: "\<not> (False \<and> NoStream = WebSocketTransport)" "hi_header (sample_in q) ''X-Request-ID'' \<noteq> []" for q
    by simp_all
  let ?rep = "respond_with_payload sample_platform False p missing_usage []"
  have rep: "?rep = (case Inr (p, missing_usage, []) of
      Inl err \<Rightarrow> respond_with_error sample_platform (False \<and> NoStream = SseTransport) err
    | Inr (p, u, i) \<Rightarrow> respond_with_payload sample_platform (False \<and> NoStream = SseTransport) p u i)"
    by simp
  note served = provider_result_is_reply [OF run prov _ _ tr d inv rep, simplified]
  have reply: "ha_reply h = Inr ?rep"
    by (rule conjunct1 [OF served])
  have "re_status ?rep = 200"
    by (simp add: respond_with_payload_def json_reply_def Let_def)
  then have "response_status resp = 200"
    using served by simp
  moreover obtain x where "se_registry sv' = record_request sample_db x []" "sa_key x = request_key (sample_in ''/openai/chat/completions'')" "sa_error x = []"
    using served by auto
  ultimately show ?thesis
    using run reply by blast
qed

end
