(* ===== verification/Gateway_Main.thy ===== *)
theory Gateway_Main
  imports App_Startup Gateway_Request
begin

text \<open>
  The running gateway: the rest of \<open>main\<close> in \<^verbatim>\<open>SuperAPI._server/src/main.cpp\<close> (listener, routes, service handlers, signals, the
  end) and \<open>validateProviderConfig\<close> of \<^verbatim>\<open>src/providers.cpp\<close>. A run is any sequence of requests and signals; the web
  framework is what the theories of the parts take it for. The lemmas show that metrics and traces stay consistent in every
  run, that a signal stops the server once, which problems of the provider file are reported, and that
  the routes are unambiguous and reach every provider.
\<close>

section \<open>The check of the provider file\<close>

datatype provider_warning = EmptyFile | MalformedFile | NotAnObject string | MissingValue string string | Unloadable

text \<open>The entries one after the other, up to an exception.\<close>

fun validate_entries :: "'y config_yaml \<Rightarrow> environ \<Rightarrow> ('y \<times> 'y) list \<Rightarrow> provider_warning list" where
  "validate_entries ya env [] = []"
| "validate_entries ya env ((k, provider) # rest) =
     (let name = ya_text_or ya k ''unknown'';
          missing = \<lambda>field node. if resolve_scalar (yaml_lib.truncate ya) env node = [] then [MissingValue name field] else []
      in if \<not> ya_is_map ya provider then NotAnObject name # validate_entries ya env rest
         else case ya_get ya provider ''base_url'' of
                Inl _ \<Rightarrow> [Unloadable]
              | Inr base_url \<Rightarrow>
                  missing ''base_url'' base_url @
                  (case ya_get ya provider ''api_key_env'' of
                     Inl _ \<Rightarrow> [Unloadable]
                   | Inr api_key_env \<Rightarrow> missing ''api_key_env'' api_key_env @ validate_entries ya env rest))"

text \<open>The file is \<open>None\<close> when it cannot be loaded.\<close>

definition validate_provider_config :: "'y config_yaml \<Rightarrow> environ \<Rightarrow> 'y option \<Rightarrow> provider_warning list" where
  "validate_provider_config ya env raw =
     (case raw of
        None \<Rightarrow> [Unloadable]
      | Some config \<Rightarrow>
          if \<not> ya_defined ya config then [EmptyFile]
          else (case ya_get ya config ''providers'' of
                  Inl _ \<Rightarrow> [Unloadable]
                | Inr providers \<Rightarrow>
                    if \<not> ya_defined ya providers then [EmptyFile]
                    else if \<not> ya_is_map ya providers then [MalformedFile]
                    else validate_entries ya env (ya_entries ya providers)))"

section \<open>Listener, routes and service handlers\<close>

text \<open>The listener and whether the dry-run warning is logged.\<close>

definition apply_app_config :: "app_config \<Rightarrow> (string \<times> u16) \<times> bool" where
  "apply_app_config config = ((ac_host config, ac_port config), ac_dry_run config)"

datatype service = Health | Version | MetricsPage

definition service_routes :: "(string \<times> http_method \<times> service) list" where
  "service_routes = [(''/health'', HttpGet, Health), (''/version'', HttpGet, Version), (''/metrics'', HttpGet, MetricsPage)]"

text \<open>Status, headers and document of the two JSON pages.\<close>

definition health_handler :: "'j json_lib \<Rightarrow> 'w framework \<Rightarrow> int \<Rightarrow> int \<Rightarrow> http_in \<Rightarrow> request_attrs \<Rightarrow> nat \<times> headers \<times> 'j" where
  "health_handler js fw start_time now req attrs =
     (200, with_request_id fw req attrs [], health_payload js (now - start_time))"

definition version_handler :: "'j json_lib \<Rightarrow> 'w framework \<Rightarrow> http_in \<Rightarrow> request_attrs \<Rightarrow> nat \<times> headers \<times> 'j" where
  "version_handler js fw req attrs = (200, with_request_id fw req attrs [], version_payload js)"

section \<open>Running and stopping\<close>

text \<open>\<open>shutdownRequested\<close> and the number of tasks that quit the framework in its loop.\<close>

definition on_signal :: "bool \<times> nat \<Rightarrow> bool \<times> nat" where
  "on_signal = (\<lambda>(requested, quits). if \<not> requested then (True, quits + 1) else (requested, quits))"

datatype gateway_phase = Serving | Quitting | Ended

record ('r, 'd, 'w, 'v) running =
  rn_server :: "('r, 'd, 'w) server"
  rn_gateway :: "'v gateway"
  rn_requested :: bool
  rn_quits :: nat
  rn_phase :: gateway_phase

definition gateway_ready :: "('r, 'd) log_env \<Rightarrow> 'r started \<Rightarrow> 'w \<Rightarrow> 'v \<Rightarrow> ('r, 'd, 'w, 'v) running" where
  "gateway_ready le st w v =
     \<lparr> rn_server = \<lparr> se_registry = [], se_tracing = tracing_new (st_tracer st) w, se_logging = st_logging st,
                    se_log_context = empty_log_context le \<rparr>,
       rn_gateway = \<lparr> gw_providers = st_providers st, gw_world = v, gw_log = [] \<rparr>,
       rn_requested = False, rn_quits = 0, rn_phase = Serving \<rparr>"

text \<open>
  A request runs in a thread with some log context: one for a provider, over its route, or one for
  another handler of the framework, whose result is arbitrary. Between quitting and the end the framework lets its loop return.
\<close>

inductive gateway_step ::
  "('d, 'w) trace_env \<Rightarrow> ('r, 'd) log_env \<Rightarrow> 'd double_ops \<Rightarrow> 'w framework \<Rightarrow> ('j, 'd, 'v) platform \<Rightarrow> 'j responder \<Rightarrow> environ \<Rightarrow>
   ('r, 'd, 'w, 'v) running \<Rightarrow> ('r, 'd, 'w, 'v) running \<Rightarrow> bool"
  for te le db fw pl rp env where
  provider_request: "rn_phase s \<noteq> Ended \<Longrightarrow> (path, verb, target) \<in> set register_routes \<Longrightarrow>
    serve_provider te le db fw pl rp env target ts t latency req json ((rn_server s)\<lparr>se_log_context := ctx\<rparr>) (rn_gateway s) =
      (r, resp, h, sv, gw) \<Longrightarrow>
    gateway_step te le db fw pl rp env s (s\<lparr>rn_server := sv, rn_gateway := gw\<rparr>)"
| other_request: "rn_phase s \<noteq> Ended \<Longrightarrow>
    serve te le db fw ts t latency req hr ((rn_server s)\<lparr>se_log_context := ctx\<rparr>) = (r, resp, attrs, sv) \<Longrightarrow>
    gateway_step te le db fw pl rp env s (s\<lparr>rn_server := sv\<rparr>)"
| signal: "on_signal (rn_requested s, rn_quits s) = (requested, quits) \<Longrightarrow>
    gateway_step te le db fw pl rp env s (s\<lparr>rn_requested := requested, rn_quits := quits\<rparr>)"
| quit: "rn_phase s = Serving \<Longrightarrow> rn_quits s = Suc n \<Longrightarrow>
    log_info le fw ts ''Shutdown signal received. Stopping server.'' (rn_server s) = Inr sv \<Longrightarrow>
    gateway_step te le db fw pl rp env s (s\<lparr>rn_server := sv, rn_quits := n, rn_phase := Quitting\<rparr>)"
| finish: "rn_phase s = Quitting \<Longrightarrow> log_info le fw ts ''Server stopped.'' (rn_server s) = Inr sv \<Longrightarrow>
    gateway_step te le db fw pl rp env s (s\<lparr>rn_server := sv\<lparr>se_tracing := tracer_shutdown t (se_tracing sv)\<rparr>, rn_phase := Ended\<rparr>)"

section \<open>A request keeps metrics and traces consistent\<close>

lemma label_span_ok: "trace_ok te tr st \<Longrightarrow> trace_ok te tr (label_span i attrs latency n st)"
  by (simp add: label_span_def Let_def ok_attribute)

lemma close_span_ok: "trace_ok te tr st \<Longrightarrow> trace_ok te tr (snd (close_span te t i attrs latency status n st))"
  unfolding close_span_def by (intro ok_end label_span_ok)

lemma advise_span_ok:
  assumes "advise_span te t latency attrs resp sv = (r, resp', sv')" and "trace_ok te tr (se_tracing sv)"
  shows "trace_ok te tr (se_tracing sv')"
proof (cases "at_span attrs")
  case None
  then show ?thesis using assms by (simp add: advise_span_def)
next
  case (Some i)
  obtain e tracing where c: "close_span te t i attrs latency (response_status resp) (response_bytes resp) (se_tracing sv) = (e, tracing)"
    by fastforce
  have "trace_ok te tr tracing"
    using close_span_ok [OF assms(2), of t i attrs latency "response_status resp" "response_bytes resp"] c by simp
  then show ?thesis
    using assms(1) Some c by (cases e) (auto simp: advise_span_def)
qed

lemma post_handling_ok:
  assumes "post_handling te le db fw ts t latency req attrs resp sv = (r, resp', attrs', sv')"
    and "trace_ok te tr (se_tracing sv)"
  shows "trace_ok te tr (se_tracing sv')"
proof -
  let ?resp = "if attr_request_id fw req attrs \<noteq> [] then map_option (add_out_header ''X-Request-ID'' (attr_request_id fw req attrs)) resp else resp"
  obtain attrs1 sv1 where m: "advise_metrics db latency ?resp attrs sv = (attrs1, sv1)" by fastforce
  have t1: "se_tracing sv1 = se_tracing sv"
    using m by (auto simp: advise_metrics_def split: option.splits prod.splits)
  obtain rs resp2 sv2 where s: "advise_span te t latency attrs1 ?resp sv1 = (rs, resp2, sv2)" by (metis prod_cases3)
  have ok: "trace_ok te tr (se_tracing sv2)"
    using advise_span_ok [OF s] assms(2) t1 by simp
  show ?thesis
  proof (cases rs)
    case (Inl ex)
    then have "sv' = sv2"
      using assms(1) m s by (simp add: post_handling_def Let_def)
    then show ?thesis using ok by simp
  next
    case (Inr u)
    obtain r3 sv3 where l: "advise_log le fw ts latency (attr_request_id fw req attrs) attrs1 resp2 sv2 = (r3, sv3)" by fastforce
    have "sv' = sv3"
      using assms(1) m s Inr l by (simp add: post_handling_def Let_def)
    then show ?thesis
      using ok advise_log_same [OF l] by simp
  qed
qed

lemma do_filter_ok:
  assumes "do_filter te le fw t req sv = (req', attrs, sv1)" and "trace_ok te tr (se_tracing sv)"
  shows "trace_ok te tr (se_tracing sv1)"
  using assms(1)
proof (rule do_filter_parts)
  fix i ob tracing w
  assume st: "start_span te t (hi_method req @ '' '' @ hi_path req) (extract_traceparent (hi_header req ''traceparent''))
       (span_attributes req (resolve_company req)) ''SERVER'' ((se_tracing sv)\<lparr>tc_world := w\<rparr>) = (i, tracing)"
    and t: "se_tracing sv1 = tracing"
  have "wf_context (extract_traceparent (hi_header req ''traceparent'')) \<or> \<not> ctx_valid (extract_traceparent (hi_header req ''traceparent''))"
    using extract_wf [of "hi_header req ''traceparent''"] by auto
  from ok_start [OF _ this, of te tr "(se_tracing sv)\<lparr>tc_world := w\<rparr>"] show ?thesis
    using assms(2) st t by (metis ok_irrelevant(2) snd_conv)
qed

lemma serve_ok:
  assumes "serve te le db fw ts t latency req hr sv = (r, resp, attrs, sv')" and "trace_ok te tr (se_tracing sv)"
    and "registry_ok db (se_registry sv)" and "db_buckets db \<noteq> []"
  shows "trace_ok te tr (se_tracing sv') \<and> registry_ok db (se_registry sv')"
proof (cases "fw_runs_filter fw")
  case False
  then show ?thesis
    using unfiltered_request_unseen [OF False assms(1)] assms(2,3) by simp
next
  case True
  obtain req1 attrs1 sv1 where f: "do_filter te le fw t req sv = (req1, attrs1, sv1)"
    and p: "post_handling te le db fw ts t latency req1 (apply_handler hr attrs1) (hr_response hr) sv1 = (r, resp, attrs, sv')"
    by (rule serve_filtered [OF True assms(1)])
  have "trace_ok te tr (se_tracing sv')"
    by (rule post_handling_ok [OF p do_filter_ok [OF f assms(2)]])
  moreover obtain x where "se_registry sv' = record_request db x (se_registry sv)"
    using serve_registry [OF True assms(1)] by metis
  then have "registry_ok db (se_registry sv')"
    using registry_ok_step [OF assms(4,3) metrics_record] by simp
  ultimately show ?thesis ..
qed

section \<open>All runs of the gateway\<close>

text \<open>A quit is on its way or has been executed exactly if a signal has arrived.\<close>

definition stop_ok :: "('r, 'd, 'w, 'v) running \<Rightarrow> bool" where
  "stop_ok s \<longleftrightarrow> rn_quits s + (if rn_phase s = Serving then 0 else 1) = (if rn_requested s then 1 else 0) \<and>
     (rn_phase s = Ended \<longrightarrow> \<not> tr_enabled (tc_tracer (se_tracing (rn_server s))))"

definition observed_ok :: "('d, 'w) trace_env \<Rightarrow> 'd double_ops \<Rightarrow> tracer \<Rightarrow> ('r, 'd, 'w) server \<Rightarrow> bool" where
  "observed_ok te db tr sv \<longleftrightarrow> trace_ok te tr (se_tracing sv) \<and> registry_ok db (se_registry sv) \<and> no_events (se_registry sv)"

definition providers_of :: "'r started \<Rightarrow> (string \<times> provider) list" where
  "providers_of st = map (\<lambda>(key, pv, b). (key, pv)) (st_providers st)"

definition gateway_ok :: "('d, 'w) trace_env \<Rightarrow> 'd double_ops \<Rightarrow> 'r started \<Rightarrow> ('r, 'd, 'w, 'v) running \<Rightarrow> bool" where [inv_defs]:
  "gateway_ok te db st s \<longleftrightarrow> observed_ok te db (st_tracer st) (rn_server s) \<and> stop_ok s \<and> configured (rn_gateway s) = providers_of st"

lemma observed_ok_context [simp]: "observed_ok te db tr (sv\<lparr>se_log_context := ctx\<rparr>) = observed_ok te db tr sv"
  by (simp add: observed_ok_def)

lemma gateway_ready_ok: "gateway_ok te db st (gateway_ready le st w v)"
  by (simp add: gateway_ok_def observed_ok_def gateway_ready_def ok_new registry_ok_start no_events_def stop_ok_def configured_def
      providers_of_def)

lemma serve_observed:
  assumes "serve te le db fw ts t latency req hr sv = (r, resp, attrs, sv')" and "observed_ok te db tr sv" and "db_buckets db \<noteq> []"
  shows "observed_ok te db tr sv'"
  using serve_ok [OF assms(1) _ _ assms(3), of tr] serve_events [OF assms(1)] assms(2) by (simp add: observed_ok_def)

lemma gateway_step_ok:
  assumes "gateway_step te le db fw pl rp env s s'" and "gateway_ok te db st s" and "db_buckets db \<noteq> []"
  shows "gateway_ok te db st s'"
proof -
  have ok: "observed_ok te db (st_tracer st) (rn_server s)" "stop_ok s" "configured (rn_gateway s) = providers_of st"
    using assms(2) by (simp_all add: gateway_ok_def)
  from assms(1) show ?thesis
  proof cases
    case (provider_request path verb target ts t latency req json ctx r resp h sv gw)
    obtain req1 attrs1 sv1 attrs where h: "handle_route pl env target (to_gateway_request fw req1 attrs1 json) (rn_gateway s) = (h, gw)"
      and sv: "serve te le db fw ts t latency req (handler_result_of rp req1 h) ((rn_server s)\<lparr>se_log_context := ctx\<rparr>) = (r, resp, attrs, sv)"
      by (rule serve_provider_parts [OF provider_request(4)])
    have "observed_ok te db (st_tracer st) sv"
      using serve_observed [OF sv _ assms(3)] ok(1) by simp
    then show ?thesis
      using provider_request(1,2) ok(2,3) handle_route_configured [OF h] by (simp add: gateway_ok_def stop_ok_def)
  next
    case (other_request ts t latency req hr ctx r resp attrs sv)
    have "observed_ok te db (st_tracer st) sv"
      using serve_observed [OF other_request(3) _ assms(3)] ok(1) by simp
    then show ?thesis
      using other_request(1,2) ok(2,3) by (simp add: gateway_ok_def stop_ok_def)
  next
    case (signal requested quits)
    then show ?thesis
      using ok by (auto simp: gateway_ok_def stop_ok_def on_signal_def split: if_splits)
  next
    case (quit n ts sv)
    have "se_registry sv = se_registry (rn_server s)" "se_tracing sv = se_tracing (rn_server s)"
      using log_info_same [OF quit(4)] by auto
    then show ?thesis
      using quit(1-3) ok by (simp add: gateway_ok_def observed_ok_def stop_ok_def)
  next
    case (finish ts sv t)
    have "se_registry sv = se_registry (rn_server s)" "se_tracing sv = se_tracing (rn_server s)"
      using log_info_same [OF finish(3)] by auto
    moreover have "trace_ok te (st_tracer st) (tracer_shutdown t (se_tracing (rn_server s)))"
      using ok(1) by (intro ok_shutdown) (simp add: observed_ok_def)
    moreover have "\<not> tr_enabled (tc_tracer (tracer_shutdown t (se_tracing (rn_server s))))"
      by (simp add: tracer_shutdown_def)
    ultimately show ?thesis
      using finish(1,2) ok by (simp add: gateway_ok_def observed_ok_def stop_ok_def)
  qed
qed

interpretation gateway_sys: invariant_system "\<lambda>s. \<exists>le w v. s = gateway_ready le st w v"
    "gateway_step te le db fw pl rp env" "\<lambda>s. db_buckets db \<noteq> [] \<longrightarrow> gateway_ok te db st s" for te le db fw pl rp env st
proof
  show "\<exists>le w v. s = gateway_ready le st w v \<Longrightarrow> db_buckets db \<noteq> [] \<longrightarrow> gateway_ok te db st s" for s
    by (auto simp: gateway_ready_ok)
  show "db_buckets db \<noteq> [] \<longrightarrow> gateway_ok te db st s \<Longrightarrow> gateway_step te le db fw pl rp env s s' \<Longrightarrow> db_buckets db \<noteq> [] \<longrightarrow> gateway_ok te db st s'"
    for s s'
    by (simp add: gateway_step_ok)
qed

section \<open>The routes\<close>

lemma slash_split:
  assumes "CHR ''/'' \<notin> set a" and "CHR ''/'' \<notin> set b" and "a @ CHR ''/'' # x = b @ CHR ''/'' # y"
  shows "a = b \<and> x = y"
proof -
  have "takeWhile (\<lambda>c. c \<noteq> CHR ''/'') (a @ CHR ''/'' # x) = a" "takeWhile (\<lambda>c. c \<noteq> CHR ''/'') (b @ CHR ''/'' # y) = b"
    using assms(1,2) by (auto simp: takeWhile_append takeWhile_eq_all_conv)
  then have "a = b" using assms(3) by simp
  then show ?thesis using assms(3) by simp
qed

lemma company_keys_plain: "\<forall>key \<in> set company_keys. CHR ''/'' \<notin> set key" "distinct company_keys" "''xai'' \<notin> set company_keys"
  by (simp_all add: company_keys_def)

lemma company_paths: "map fst (register_company p key) = map (\<lambda>x. ''/'' @ p @ ''/'' @ x) (map fst company_operations)"
  by (simp add: register_company_def company_operations_def)

lemma suffixes_distinct: "distinct (map fst company_operations)" "map fst xai_operations = map fst company_operations"
  by (simp_all add: company_operations_def xai_operations_def)

lemma xai_paths:
  "map fst register_routes = concat (map (\<lambda>p. map (\<lambda>x. ''/'' @ p @ ''/'' @ x) (map fst company_operations)) (company_keys @ [''xai'']))"
proof -
  have "map fst (map (\<lambda>(path_suffix, operation).
       (''/xai/'' @ path_suffix, if operation = ListModels \<or> operation = JobStatus then HttpGet else HttpPost, XaiRoute path_suffix operation))
       xai_operations) = map (\<lambda>x. ''/'' @ ''xai'' @ ''/'' @ x) (map fst company_operations)"
    by (simp add: suffixes_distinct(2) [symmetric] xai_operations_def)
  then show ?thesis
    by (simp only: register_routes_def map_append map_concat map_map comp_def company_paths concat_append list.map concat.simps append_Nil2)
qed

lemma distinct_concat_map:
  assumes "distinct ks" and "\<And>k. k \<in> set ks \<Longrightarrow> distinct (f k)" and "\<And>k l. k \<in> set ks \<Longrightarrow> l \<in> set ks \<Longrightarrow> k \<noteq> l \<Longrightarrow> set (f k) \<inter> set (f l) = {}"
  shows "distinct (concat (map f ks))"
  using assms by (induction ks) fastforce+

lemma routes_distinct: "distinct (map fst register_routes)"
proof -
  let ?f = "\<lambda>p. map (\<lambda>x. ''/'' @ p @ ''/'' @ x) (map fst company_operations)"
  have inj: "p = q \<and> x = y" if "''/'' @ p @ ''/'' @ x = ''/'' @ q @ ''/'' @ y" "p \<in> set (company_keys @ [''xai''])" "q \<in> set (company_keys @ [''xai''])"
    for p q x y :: string
    using slash_split [of p q x y] that company_keys_plain(1) by auto
  have "distinct (?f p)" for p
    using suffixes_distinct(1) by (simp add: distinct_map inj_on_def)
  moreover have "set (?f p) \<inter> set (?f q) = {}" if "p \<in> set (company_keys @ [''xai''])" "q \<in> set (company_keys @ [''xai''])" "p \<noteq> q" for p q
    using inj that(1,2,3) unfolding set_map image_image by blast
  ultimately show ?thesis
    unfolding xai_paths by (intro distinct_concat_map) (use company_keys_plain(2,3) in simp_all)
qed

lemma services_apart: "p \<in> fst ` set service_routes \<Longrightarrow> p \<notin> fst ` set register_routes"
proof
  assume p: "p \<in> fst ` set service_routes" and r: "p \<in> fst ` set register_routes"
  from r have "p \<in> set (map fst register_routes)" by simp
  then obtain key x where "p = ''/'' @ key @ ''/'' @ x"
    unfolding xai_paths set_concat set_map image_image by blast
  then have "CHR ''/'' \<in> set (tl p)" by simp
  with p show False
    by (auto simp: service_routes_def)
qed

section \<open>The check finds what is missing\<close>

text \<open>A member that can be looked up is among the entries.\<close>

definition lookup_law :: "'y config_yaml \<Rightarrow> bool" where
  "lookup_law ya \<longleftrightarrow> (\<forall>node k v. ya_is_map ya node \<longrightarrow> ya_get ya node k = Inr v \<longrightarrow> ya_defined ya v \<longrightarrow> v \<in> snd ` set (ya_entries ya node))"

lemma validate_entries_silent:
  assumes "validate_entries ya env es = []" and "(k, v) \<in> set es"
  shows "ya_is_map ya v \<and> (\<exists>b a. ya_get ya v ''base_url'' = Inr b \<and> ya_get ya v ''api_key_env'' = Inr a \<and>
    resolve_scalar (yaml_lib.truncate ya) env b \<noteq> [] \<and> resolve_scalar (yaml_lib.truncate ya) env a \<noteq> [])"
  using assms
proof (induction es)
  case (Cons e es)
  obtain k1 v1 where e: "e = (k1, v1)" by fastforce
  have m: "ya_is_map ya v1"
    using Cons.prems(1) by (auto simp: e Let_def split: if_splits)
  obtain b where b: "ya_get ya v1 ''base_url'' = Inr b"
    using Cons.prems(1) m by (cases "ya_get ya v1 ''base_url''") (auto simp: e Let_def)
  obtain a where a: "ya_get ya v1 ''api_key_env'' = Inr a"
    using Cons.prems(1) m b by (cases "ya_get ya v1 ''api_key_env''") (auto simp: e Let_def)
  have "resolve_scalar (yaml_lib.truncate ya) env b \<noteq> []" "resolve_scalar (yaml_lib.truncate ya) env a \<noteq> []"
    "validate_entries ya env es = []"
    using Cons.prems(1) m a b by (auto simp: e Let_def split: if_splits)
  then show ?case
    using Cons m a b by (auto simp: e)
qed simp

lemma build_config_values:
  assumes "build_config ya env key n dry_run = Inr cfg" and "ya_defined ya n"
    and "ya_get ya n ''base_url'' = Inr b" and "ya_get ya n ''api_key_env'' = Inr a"
  shows "pc_base_url cfg = resolve_scalar ya env b \<and> pc_api_key_env cfg = resolve_scalar ya env a"
  using assms by (auto simp: build_config_def Let_def bindE_Inr_iff)

lemma build_config_absent: "\<not> ya_defined ya n \<Longrightarrow> build_config ya env key n dry_run = Inr cfg \<Longrightarrow> pc_base_url cfg = [] \<and> pc_api_key_env cfg = []"
  by (auto simp: build_config_def Let_def provider_config_default_def)

section \<open>Properties\<close>

text \<open>C13. In every run of the gateway, a request being one step, whatever requests arrive in which threads with whatever filter, handler results, logs
  and signals: the registry of the metrics is well formed, so that every series is there once and its histogram agrees
  with its counters; no span is exported twice, and each goes to the configured endpoint; the providers are those
  of the start with their configurations; and a signal stops the server exactly once: a quit is queued or done exactly if a
  signal has come, never more than one of them, and at the end the tracer is off.\<close>

theorem gateway_stays_consistent:
  assumes "db_buckets db \<noteq> []" and "(gateway_step te le db fw pl rp env)\<^sup>*\<^sup>* (gateway_ready le st w v) s"
  shows "registry_ok db (se_registry (rn_server s)) \<and>
    distinct (map fst (tc_exports (se_tracing (rn_server s)))) \<and>
    (\<forall>(i, url, hs, text) \<in> set (tc_exports (se_tracing (rn_server s))). url = tr_endpoint (st_tracer st)) \<and>
    map (\<lambda>(key, pv, b). (key, pv)) (gw_providers (rn_gateway s)) = map (\<lambda>(key, pv, b). (key, pv)) (st_providers st) \<and>
    rn_quits s + (if rn_phase s = Serving then 0 else 1) = (if rn_requested s then 1 else 0) \<and>
    (rn_phase s = Ended \<longrightarrow> \<not> tr_enabled (tc_tracer (se_tracing (rn_server s))))"
proof -
  have "gateway_ok te db st s"
    using gateway_sys.steps_good [OF assms(2)] assms(1) by (simp add: gateway_ready_ok)
  then have "exported_ok te (st_tracer st) (se_tracing (rn_server s))" "registry_ok db (se_registry (rn_server s))" "stop_ok s"
    "configured (rn_gateway s) = providers_of st"
    by (simp_all add: gateway_ok_def observed_ok_def trace_ok_def)
  then show ?thesis
    unfolding exported_ok_def stop_ok_def configured_def providers_of_def by blast
qed

definition sample_configuration :: "string started" where
  "sample_configuration = \<lparr> st_config = \<lparr> ac_host = ''0.0.0.0'', ac_port = 8080, ac_dry_run = True, ac_log_level = ''info'' \<rparr>, st_environ = Map.empty,
     st_logging = logging_new, st_tracer = sample_tracer, st_threads = None,
     st_providers = [(''openai'', sample_provider 0, breaker_closed)] \<rparr>"

lemma sample_gateway_ready: "gateway_ready sample_log_env sample_configuration 0 v =
    \<lparr> rn_server = sample_server, rn_gateway = sample_openai\<lparr>gw_world := v\<rparr>, rn_requested = False, rn_quits = 0, rn_phase = Serving \<rparr>"
  by (simp add: gateway_ready_def sample_configuration_def sample_server_def sample_openai_def)

text \<open>A request for the provider, and two signals after it.\<close>

abbreviation sample_start :: "(string, nat, nat, sample_world) running" where
  "sample_start \<equiv> gateway_ready sample_log_env sample_configuration 0 ([sample_reply 200 ''{}''], 5)"

abbreviation sample_gateway_step :: "(string, nat, nat, sample_world) running \<Rightarrow> (string, nat, nat, sample_world) running \<Rightarrow> bool" where
  "sample_gateway_step \<equiv> gateway_step (sample_trace_env (Inr [])) sample_log_env sample_db (sample_framework True) sample_platform
     sample_responder sample_environ"

lemma sample_run:
  obtains r resp h sv gw where "sample_gateway_request = (r, resp, h, sv, gw)"
    "sample_gateway_step\<^sup>*\<^sup>* sample_start (sample_start\<lparr>rn_server := sv, rn_gateway := gw, rn_requested := True, rn_quits := 1\<rparr>)"
proof -
  obtain r resp h sv gw where s: "sample_gateway_request = (r, resp, h, sv, gw)"
    by (cases sample_gateway_request)
  let ?s1 = "sample_start\<lparr>rn_server := sv, rn_gateway := gw\<rparr>"
  let ?s2 = "?s1\<lparr>rn_requested := True, rn_quits := 1\<rparr>"
  have ready: "rn_phase sample_start \<noteq> Ended" "(rn_server sample_start)\<lparr>se_log_context := empty_log_context sample_log_env\<rparr> = sample_server"
    "rn_gateway sample_start = sample_openai"
    by (simp_all add: sample_gateway_ready sample_server_def) (simp add: sample_openai_def)
  have route: "(''/openai/chat/completions'', HttpPost, CompanyRoute ''openai'' ''openai'' ''chat/completions'' Chat) \<in> set register_routes"
    by (simp add: register_routes_def register_company_def company_keys_def company_operations_def)
  have "sample_gateway_step sample_start ?s1"
    by (rule gateway_step.provider_request [OF ready(1) route, where ctx = "empty_log_context sample_log_env"]) (unfold ready(2,3), rule s)
  moreover have "sample_gateway_step ?s1 ?s2" "sample_gateway_step ?s2 (?s2\<lparr>rn_requested := True, rn_quits := 1\<rparr>)"
    by (rule gateway_step.signal, simp add: sample_gateway_ready on_signal_def)+
  ultimately show ?thesis
    using s by (intro that) (auto intro: converse_rtranclp_into_rtranclp)
qed

theorem gateway_stays_consistent_witness:
  "\<exists>s. sample_gateway_step\<^sup>*\<^sup>* sample_start s \<and> se_registry (rn_server s) \<noteq> [] \<and> registry_ok sample_db (se_registry (rn_server s)) \<and>
     map fst (gw_providers (rn_gateway s)) = [''openai''] \<and> rn_requested s \<and> rn_quits s = 1"
proof -
  obtain r resp h sv gw where run: "sample_gateway_request = (r, resp, h, sv, gw)"
    "sample_gateway_step\<^sup>*\<^sup>* sample_start (sample_start\<lparr>rn_server := sv, rn_gateway := gw, rn_requested := True, rn_quits := 1\<rparr>)"
    by (rule sample_run)
  let ?s = "sample_start\<lparr>rn_server := sv, rn_gateway := gw, rn_requested := True, rn_quits := 1\<rparr>"
  have "db_buckets sample_db \<noteq> []" by (simp add: sample_db_def)
  from gateway_stays_consistent [OF this run(2)] have ok: "registry_ok sample_db (se_registry sv)"
    and ps: "map (\<lambda>(key, pv, b). (key, pv)) (gw_providers gw) = [(''openai'', sample_provider 0)]"
    by (simp_all add: sample_configuration_def)
  have "map fst (gw_providers gw) = map fst (map (\<lambda>(key, pv, b). (key, pv)) (gw_providers gw))"
    by (simp add: comp_def case_prod_beta)
  then have keys: "map fst (gw_providers gw) = [''openai'']"
    unfolding ps by simp
  obtain req1 attrs where "serve (sample_trace_env (Inr [])) sample_log_env sample_db (sample_framework True) [] 0 5
      (sample_in ''/openai/chat/completions'') (handler_result_of sample_responder req1 h) sample_server = (r, resp, attrs, sv)"
    by (rule serve_provider_parts [OF run(1)])
  then obtain x where x: "se_registry sv = record_request sample_db x []"
    using serve_sample [of "sample_framework True"] by (metis sample_fields(6,11))
  have "se_registry sv \<noteq> []"
    by (simp add: x record_request_def)
  then show ?thesis
    using run(2) ok keys by (intro exI [of _ ?s]) simp
qed

text \<open>The metric \<open>stream_events_total\<close> is zero for every series in every run, however many replies were streamed.\<close>

theorem streamed_events_never_counted:
  assumes "db_buckets db \<noteq> []" and "(gateway_step te le db fw pl rp env)\<^sup>*\<^sup>* (gateway_ready le st w v) s"
    and "(key, sr) \<in> set (se_registry (rn_server s))"
  shows "sm_stream_events sr = 0"
proof -
  have "gateway_ok te db st s"
    using gateway_sys.steps_good [OF assms(2)] assms(1) by (simp add: gateway_ready_ok)
  then show ?thesis
    using assms(3) by (auto simp: gateway_ok_def observed_ok_def no_events_def)
qed

theorem streamed_events_never_counted_witness:
  "\<exists>s key sr. sample_gateway_step\<^sup>*\<^sup>* sample_start s \<and> (key, sr) \<in> set (se_registry (rn_server s)) \<and> sm_stream_events sr = 0"
proof -
  obtain r resp h sv gw where run: "sample_gateway_request = (r, resp, h, sv, gw)"
    "sample_gateway_step\<^sup>*\<^sup>* sample_start (sample_start\<lparr>rn_server := sv, rn_gateway := gw, rn_requested := True, rn_quits := 1\<rparr>)"
    by (rule sample_run)
  let ?s = "sample_start\<lparr>rn_server := sv, rn_gateway := gw, rn_requested := True, rn_quits := 1\<rparr>"
  obtain req1 attrs where "serve (sample_trace_env (Inr [])) sample_log_env sample_db (sample_framework True) [] 0 5
      (sample_in ''/openai/chat/completions'') (handler_result_of sample_responder req1 h) sample_server = (r, resp, attrs, sv)"
    by (rule serve_provider_parts [OF run(1)])
  then obtain x where "se_registry sv = record_request sample_db x []"
    using serve_sample [of "sample_framework True"] by (metis sample_fields(6,11))
  then obtain key sr where "(key, sr) \<in> set (se_registry sv)"
    by (simp add: record_request_def)
  then have e: "(key, sr) \<in> set (se_registry (rn_server ?s))" by simp
  have "db_buckets sample_db \<noteq> []" by (simp add: sample_db_def)
  from streamed_events_never_counted [OF this run(2) e] show ?thesis
    using run(2) e by blast
qed

text \<open>No two routes of the gateway have the same path, the pages of the service included, and every provider of the registry
  can be reached: over the routes of its company or, as a vendor, over the xai routes.\<close>

theorem routes_unambiguous:
  "distinct (map fst register_routes @ map fst service_routes) \<and>
   (\<forall>(key, mk) \<in> set factories.
      (\<exists>(path, verb, target) \<in> set register_routes. \<exists>p x op. target = CompanyRoute p key x op) \<or>
      (\<exists>vendor. vendor_key vendor = Some key) \<and> (\<exists>(path, verb, target) \<in> set register_routes. \<exists>x op. target = XaiRoute x op))"
proof -
  have company: "\<exists>(path, verb, target) \<in> set register_routes. \<exists>p x op. target = CompanyRoute p key x op" if "key \<in> set company_keys" for key
    using that by (intro bexI [of _ "(''/'' @ key @ ''/'' @ ''models'', HttpGet, CompanyRoute key key ''models'' ListModels)"])
      (auto simp: register_routes_def register_company_def company_operations_def)
  have xai: "\<exists>(path, verb, target) \<in> set register_routes. \<exists>x op. target = XaiRoute x op"
    by (intro bexI [of _ "(''/xai/'' @ ''models'', HttpGet, XaiRoute ''models'' ListModels)"])
      (auto simp: register_routes_def xai_operations_def)
  have "key \<in> set company_keys \<or> (\<exists>vendor. vendor_key vendor = Some key)" if "(key, mk) \<in> set factories" for key mk
  proof -
    have "vendor_key ''grok'' = Some ''xai''" "vendor_key ''zhipu'' = Some ''zhipu''"
      by (simp_all add: vendor_key_def)
    moreover have "key \<in> set company_keys \<or> key = ''xai'' \<or> key = ''zhipu''"
      using that by (auto simp: factories_def company_keys_def)
    ultimately show ?thesis by blast
  qed
  then have reach: "\<forall>(key, mk) \<in> set factories.
      (\<exists>(path, verb, target) \<in> set register_routes. \<exists>p x op. target = CompanyRoute p key x op) \<or>
      (\<exists>vendor. vendor_key vendor = Some key) \<and> (\<exists>(path, verb, target) \<in> set register_routes. \<exists>x op. target = XaiRoute x op)"
    using company xai by blast
  have "distinct (map fst service_routes)" by (simp add: service_routes_def)
  then have "distinct (map fst register_routes @ map fst service_routes)"
    using routes_distinct services_apart by auto
  then show ?thesis using reach by (rule conjI)
qed

text \<open>A provider file the check has nothing to say about gives every provider that has a section a base URL and the name of a key variable;
  but a provider without a section is registered as well, with neither, and the check does not mention it.\<close>

theorem silent_check_configures:
  assumes "validate_provider_config ya env (Some config) = []" and "ya_get ya config ''providers'' = Inr node"
    and "initialize (yaml_lib.truncate ya) env (Some config) dry_run = Inr ps" and "lookup_law ya"
  shows "\<forall>(key, pv, b) \<in> set ps. \<exists>n. ya_get ya node key = Inr n \<and>
    (if ya_defined ya n then pc_base_url (pv_config pv) \<noteq> [] \<and> pc_api_key_env (pv_config pv) \<noteq> []
     else pc_base_url (pv_config pv) = [] \<and> pc_api_key_env (pv_config pv) = [])"
proof -
  let ?ya = "yaml_lib.truncate ya"
  have tr: "ya_get ?ya = ya_get ya" "ya_defined ?ya = ya_defined ya" "ya_is_map ?ya = ya_is_map ya"
    by (simp_all add: yaml_lib.truncate_def)
  have node: "ya_defined ya node" "ya_is_map ya node" and es: "validate_entries ya env (ya_entries ya node) = []"
    using assms(1,2) by (auto simp: validate_provider_config_def split: if_splits)
  have fresh: "list_all2 (fresh_entry ?ya env node dry_run) factories ps"
    by (rule initialize_fresh [OF _ _ _ assms(3)]) (simp_all add: tr assms(2) node)
  have "\<exists>n. ya_get ya node key = Inr n \<and>
    (if ya_defined ya n then pc_base_url (pv_config pv) \<noteq> [] \<and> pc_api_key_env (pv_config pv) \<noteq> []
     else pc_base_url (pv_config pv) = [] \<and> pc_api_key_env (pv_config pv) = [])" if e: "(key, pv, b) \<in> set ps" for key pv b
  proof -
    obtain f where f: "f \<in> set factories" "fresh_entry ?ya env node dry_run f (key, pv, b)"
      using list_all2_in_set2 [OF fresh e] by blast
    obtain k mk where k: "f = (k, mk)" by fastforce
    obtain n cfg where n: "ya_get ya node key = Inr n" "build_config ?ya env key n dry_run = Inr cfg" "pv = mk cfg"
      using f(2) by (auto simp: fresh_entry_def k tr)
    have pv: "pv_config pv = cfg"
      using factory_config f(1) n(3) k by simp
    show ?thesis
    proof (cases "ya_defined ya n")
      case True
      then obtain kn where "(kn, n) \<in> set (ya_entries ya node)"
        using assms(4) node(2) n(1) unfolding lookup_law_def by fastforce
      from validate_entries_silent [OF es this] show ?thesis
        using build_config_values [OF n(2)] True n(1) by (auto simp: tr pv)
    next
      case False
      then show ?thesis
        using build_config_absent [OF _ n(2)] n(1) by (simp add: tr pv)
    qed
  qed
  then show ?thesis by blast
qed

text \<open>A file with one section, for openai; a node is its own path.\<close>

lemma build_config_total: "(\<And>k. \<exists>n. ya_get ya node k = Inr n) \<Longrightarrow> \<exists>cfg. build_config ya env key node dry_run = Inr cfg"
proof -
  assume "\<And>k. \<exists>n. ya_get ya node k = Inr n"
  then obtain g where "\<And>k. ya_get ya node k = Inr (g k)" by metis
  then show ?thesis by (simp add: build_config_def Let_def)
qed

lemma initialize_total:
  assumes "\<And>y k. \<exists>n. ya_get ya y k = Inr n"
  shows "\<exists>ps. initialize ya env raw dry_run = Inr ps"
proof -
  have "\<exists>ps'. create_providers ya env node dry_run fs ps = Inr ps'" for node fs ps
  proof (induction fs arbitrary: ps)
    case (Cons f fs)
    obtain key mk n cfg where "f = (key, mk)" "ya_get ya node key = Inr n" "build_config ya env key n dry_run = Inr cfg"
      using assms build_config_total by (metis surj_pair)
    then show ?case using Cons by simp
  qed simp
  moreover obtain g where "\<And>y k. ya_get ya y k = Inr (g y k)"
    using assms by metis
  ultimately show ?thesis
    by (cases raw) (simp_all add: initialize_def)
qed

definition sample_provider_file :: "string config_yaml" where
  "sample_provider_file = sample_yaml\<lparr>ya_defined := (\<lambda>y. y \<noteq> []), ya_is_scalar := (\<lambda>y. y = ''v''), ya_text := (\<lambda>y. y),
     ya_is_map := (\<lambda>y. y = ''ps'' \<or> y = ''p''),
     ya_get := (\<lambda>y k. Inr (if y = ''f'' \<and> k = ''providers'' then ''ps'' else if y = ''ps'' then (if k = ''openai'' then ''p'' else [])
        else if y = ''p'' \<and> k \<in> {''base_url'', ''api_key_env''} then ''v'' else [])),
     ya_entries := (\<lambda>y. if y = ''ps'' then [(''openai'', ''p'')] else if y = ''p'' then [(''base_url'', ''v''), (''api_key_env'', ''v'')] else [])\<rparr>"

theorem silent_check_configures_witness:
  "\<exists>ps. initialize (yaml_lib.truncate sample_provider_file) Map.empty (Some ''f'') False = Inr ps \<and>
     (\<forall>(key, pv, b) \<in> set ps. key = ''openai'' \<longrightarrow> pc_base_url (pv_config pv) \<noteq> [])"
proof -
  have l: "lookup_law sample_provider_file"
    by (auto simp: lookup_law_def sample_provider_file_def)
  have v: "validate_provider_config sample_provider_file Map.empty (Some ''f'') = []"
    by (simp add: validate_provider_config_def sample_provider_file_def yaml_lib.truncate_def resolve_scalar_def expand_scalar_def)
  have g: "ya_get sample_provider_file ''f'' ''providers'' = Inr ''ps''" "ya_get sample_provider_file ''ps'' ''openai'' = Inr ''p''"
    "ya_defined sample_provider_file ''p''"
    by (simp_all add: sample_provider_file_def)
  have "\<exists>n. ya_get (yaml_lib.truncate sample_provider_file) y k = Inr n" for y k
    by (simp add: sample_provider_file_def yaml_lib.truncate_def)
  then obtain ps where ps: "initialize (yaml_lib.truncate sample_provider_file) Map.empty (Some ''f'') False = Inr ps"
    using initialize_total [of "yaml_lib.truncate sample_provider_file"] by blast
  show ?thesis
    using silent_check_configures [OF v g(1) ps l] ps g(2,3) by (intro exI [of _ ps]) fastforce
qed

end
