(* ===== verification/Spec2Isabelle.thy ===== *)
theory Spec2Isabelle
  imports Header_Damage Server_Threads Accept_Loop Client_Run Close_Race
    Relay_Config Connect_Retry Event_Stream Web_Socket Log_Time Gateway_Main
begin

text \<open>
  This library models the two server programs of Super_Voice and the client of the first one, and proves
  what makes them correct, or where they are not.

  \<^bold>\<open>The file relay\<close> (\<^verbatim>\<open>src/Backend/FileRelay_.server\<close>). The client watches a directory, compresses every new file,
  cuts the result into chunks, puts them into a bounded queue and sends them over a fixed number of TCP
  connections. The server accepts connections on system and data ports, stores every received chunk,
  assembles a file when its last chunk is there, publishes it and removes what is too old.

  \<^bold>\<open>The gateway\<close> (\<^verbatim>\<open>src/Backend/SuperAPI._server\<close>). An HTTP server forwards the requests of its clients to
  language model providers, with retries and a circuit breaker, streams replies as server-sent events or over
  web sockets, and observes every request with metrics, traces and a log.

  \<^bold>\<open>Theories of the file relay\<close>

  \<^item> \<open>SV_Prelude\<close>: what all theories share. Exceptions of the C++ code are values of the type \<open>exc\<close>, a computation
    that may throw has a type \<open>'a res\<close> with \<open>bindE\<close>; the standard number parsers and printers (\<open>stoul\<close>, \<open>show_nat\<close>);
    the locale \<open>invariant_system\<close>, from which every state machine below gets its invariant; association
    lists for unordered maps.
  \<^item> \<open>Byte_Codec\<close>, \<open>Checksum\<close>, \<open>Sha256\<close>: \<^verbatim>\<open>common/bytes.hpp\<close> and the hash class of \<^verbatim>\<open>Client/src/compressor.hpp\<close>. Integers
    are words of their width. Round trips of the codec (locale \<open>le_codec\<close>), the table-driven checksum and
    the buffered hashes against their definitions (locale \<open>streaming_hash\<close>), agreement of the two hash classes.
  \<^item> \<open>Wire_Protocol\<close>: \<^verbatim>\<open>common/protocol.hpp\<close>. Round trips, canonical form, and what a damaged header is refused for: up to
    four consecutive bytes on one side of the checksum or within it. \<open>Header_Damage\<close>: four bytes across the border of the checksum
    that pass, in every header.
  \<^item> \<open>Posix_Files\<close>, \<open>Storage\<close>: \<^verbatim>\<open>Server/src/storage.hpp\<close> over files and system calls that may fail or be cut short
    (the list of replies in the record \<open>world\<close>). Atomic writes, refinement of a map of chunks, the invariant of the
    table, expiry.
  \<^item> \<open>Assembler\<close>: \<^verbatim>\<open>Server/src/assembler.hpp\<close>; the zstd decoder is a parameter, its documented law a hypothesis.
  \<^item> \<open>Socket_Input\<close>, \<open>Data_Channel\<close>, \<open>Upload\<close>: reading lines and payloads from a connection cut into segments, the
    data handler of \<^verbatim>\<open>Server/src/main.cpp\<close>, and whole uploads in any order with repetitions.
  \<^item> \<open>Control_Plane\<close>, \<open>Server_Main\<close>: \<^verbatim>\<open>Server/src/listeners.hpp\<close>, \<^verbatim>\<open>Server/src/control.hpp\<close> and the rest of \<^verbatim>\<open>Server/src/main.cpp\<close>.
    Starting an acceptor may throw: the exception passes through the table of the listeners and the command, and ends the
    control session.
  \<^item> \<open>Accept_Loop\<close>: the thread of one acceptor and its stop. \<open>Assembly_Race\<close>: the assembler cut into phases, and what two
    requests that complete the same file at once do to each other.
  \<^item> \<open>Server_Run\<close>: the server from its start to its shutdown as it is when connections are handled one after the other, each
    as a whole. \<open>Server_Threads\<close>: the server with a thread for every connection, the clean-up thread and the main thread. The calls
    are cut at the accesses to shared state (the counters, the two numbers of the control channel, the sections under the
    locks of store and listeners); a step is one of them, and the parts compose to the calls of the other theories. What
    holds in every interleaving is proved there, and what overlapping commands break.
  \<^item> \<open>Compressor\<close>, \<open>Client_Main\<close>: \<^verbatim>\<open>Client/src/compressor.hpp\<close>, \<^verbatim>\<open>Client/src/chunker.hpp\<close>, \<^verbatim>\<open>Client/src/watcher.hpp\<close>,
    \<^verbatim>\<open>Client/src/system_channels.hpp\<close> and the producer loop of \<^verbatim>\<open>Client/src/main.cpp\<close>.
  \<^item> \<open>Blocking_Queue\<close>: \<^verbatim>\<open>Client/src/queue.hpp\<close> as a monitor: one step per critical section, waiting threads in a list.
  \<^item> \<open>Sender\<close>: \<^verbatim>\<open>Client/src/sender.hpp\<close> as a state machine of the worker, the completion handlers and the producer.
    \<open>Send_Connection\<close>: one of its connections with socket, work guard and runner thread, as long as the calls on it do not
    overlap. \<open>Close_Race\<close>: its calls cut into phases, and what a close leaves that overlaps a connect.
  \<^item> \<open>Client_Run\<close>: the whole client. The main thread with one step per call, the sender with the queue, the timer thread and
    signals; every chunk of every file is accounted for.
  \<^item> \<open>Relay_Config\<close>, \<open>Connect_Retry\<close>: \<^verbatim>\<open>common/config.hpp\<close>, \<^verbatim>\<open>common/socket_utils.hpp\<close>.

  \<^bold>\<open>Theories of the gateway\<close>

  \<^item> \<open>Environment\<close>: \<^verbatim>\<open>src/environment.cpp\<close>, the environment as a map.
  \<^item> \<open>Http_Provider\<close>, \<open>Provider_Calls\<close>: \<^verbatim>\<open>src/providers/HttpProviderBase.cpp\<close>: guards, retries, backoff, circuit breaker.
  \<^item> \<open>Provider_Registry\<close>: \<^verbatim>\<open>src/providers.cpp\<close>: configuration, registry, routes and transports.
  \<^item> \<open>Event_Stream\<close>, \<open>Web_Socket\<close>: \<^verbatim>\<open>src/http/SSE.cpp\<close>, \<^verbatim>\<open>src/http/WebSocket.cpp\<close>.
  \<^item> \<open>Metrics\<close>, \<open>Tracing\<close>, \<open>Logging\<close>: \<^verbatim>\<open>src/core/Metrics.cpp\<close>, \<^verbatim>\<open>src/core/Tracing.cpp\<close>, \<^verbatim>\<open>src/logging.cpp\<close>;
    \<open>Log_Time\<close>: the time stamps of the log, which sort in the order of time.
  \<^item> \<open>Request_Lifecycle\<close>: \<^verbatim>\<open>src/middleware/request_id.cpp\<close> and the advice and handlers of \<^verbatim>\<open>src/main.cpp\<close>.
  \<^item> \<open>Gateway_Request\<close>: one request through the filter, the handler, the provider and the advice. Whether the framework runs
    the registered filter on a route is a parameter; the request is counted exactly if it does. What is sent on a stream is
    in \<open>Event_Stream\<close>.
  \<^item> \<open>App_Startup\<close>: \<^verbatim>\<open>src/app_config.cpp\<close> and the start in \<^verbatim>\<open>src/main.cpp\<close>. \<open>Gateway_Main\<close>: the check of the provider file, the service
    pages, and the running gateway with requests and signals.

  \<^bold>\<open>How state and effects are modelled.\<close> A class is a record, an operation a function from the record to the result and
  the record; exceptions are values. Concurrent parts are step relations: the queue, the sender, the
  client, the acceptors and the server threads (\<open>Server_Threads\<close>) with one step per critical section or access to shared state, so that every
  interleaving is a path and properties hold in every reachable state. Coarser are \<open>Server_Run\<close> (a connection is a
  step), \<open>Gateway_Main\<close> (a request is a step on one thread, although requests overlap in the program) and
  \<open>Tracing\<close> (the end of a span sets the flag, posts the document and leaves the stack in one step): what is proved there holds
  between such steps. Unsynchronized accesses of the program are taken to happen at once.

  \<^bold>\<open>Parameters.\<close> What is not in the repository is an argument of the definitions: zstd, the operating system's replies,
  the HTTP client, the clock, random numbers, floating point numbers, the JSON and YAML libraries, regular
  expressions and the web framework. What a property needs of one of them is a hypothesis of it, and its witness
  gives a concrete function that satisfies it.

  \<^bold>\<open>Bounds and fuel.\<close> Sizes and counters have the width of the code where they can wrap. No definition uses fuel that
  the code does not have; loops that need not end (\<open>partial_function (option)\<close>) are those driven by the
  compression library.

  \<^bold>\<open>Not modelled.\<close> The bodies of the networking library and the framework, handlers of other operations that \<open>io_context.run\<close> calls
  during a connect, what the detached threads of connections do after \<open>main\<close> of the server has returned, the thread that prints metrics, the formatting of log lines
  where nothing depends on it, and the Windows branches.
\<close>

end
